(* ===== verification/Prelude.thy ===== *)
theory Prelude
  imports Main "HOL-Library.Multiset"
begin

text \<open>
  Shared ground of the development: the types every component uses, the text operations
  of Go's standard library that the program calls, SQL statements over tables, and the
  outcomes of a call to an external store.

  \<^item> A Go string is a \<open>string\<close> (a list of bytes). \<open>TrimSpace\<close> and \<open>ToLower\<close> are
    exact on ASCII text, which is what the program applies them to: addresses, domain
    names, header names, keys, states and event names. Bytes above 127 are left alone.
  \<^item> An instant or a duration is an \<open>int\<close> counting nanoseconds; \<open>nil\<close> is \<open>None\<close>.
  \<^item> A UUID is a number, \<open>uuid.Nil\<close> is 0; fresh identifiers are arguments of the
    operations that draw them.
  \<^item> An SQL table is the list of its rows in insertion order, so \<open>UPDATE \<dots> WHERE\<close>,
    \<open>RowsAffected\<close>, \<open>INSERT \<dots> ON CONFLICT\<close>, \<open>ORDER BY\<close> and \<open>LIMIT\<close> are list
    functions and remain executable.
\<close>

section \<open>Types and proof collections\<close>

type_synonym uuid = nat
type_synonym instant = int

named_theorems row_defs \<open>guards and assignments of the SQL statements\<close>

definition uuid_Nil :: uuid where
  "uuid_Nil = 0"

definition nanosecond :: int where "nanosecond = 1"
definition millisecond :: int where "millisecond = 1000000"
definition second :: int where "second = 1000000000"
definition minute :: int where "minute = 60 * second"
definition hour :: int where "hour = 60 * minute"

lemmas duration_defs = nanosecond_def millisecond_def second_def minute_def hour_def

section \<open>Text\<close>

text \<open>Strings are lists of bytes. Of the blanks that \<open>strings.TrimSpace\<close> removes and the letters that \<open>strings.ToLower\<close> changes the
  model has those of ASCII; it leaves other code points as they are.\<close>

definition is_space :: "char \<Rightarrow> bool" where
  "is_space c \<longleftrightarrow> (let n = (of_char c :: nat) in n = 32 \<or> (9 \<le> n \<and> n \<le> 13))"

definition TrimLeft :: "string \<Rightarrow> string" where
  "TrimLeft s = dropWhile is_space s"

definition TrimSpace :: "string \<Rightarrow> string" where
  "TrimSpace s = rev (dropWhile is_space (rev (dropWhile is_space s)))"

definition lower_char :: "char \<Rightarrow> char" where
  "lower_char c = (let n = (of_char c :: nat) in
     if 65 \<le> n \<and> n \<le> 90 then char_of (n + 32) else c)"

definition ToLower :: "string \<Rightarrow> string" where
  "ToLower s = map lower_char s"

definition ContainsAny :: "string \<Rightarrow> string \<Rightarrow> bool" where
  "ContainsAny s chars \<longleftrightarrow> (\<exists>c \<in> set s. c \<in> set chars)"

definition CRLF :: string where
  "CRLF = [char_of (13::nat), char_of (10::nat)]"

definition ReplaceByte :: "char \<Rightarrow> char \<Rightarrow> string \<Rightarrow> string" where
  "ReplaceByte a b s = map (\<lambda>c. if c = a then b else c) s"

fun isPrefix :: "'a list \<Rightarrow> 'a list \<Rightarrow> bool" where
  "isPrefix [] _ = True"
| "isPrefix (_ # _) [] = False"
| "isPrefix (x # xs) (y # ys) = (x = y \<and> isPrefix xs ys)"

fun Contains :: "string \<Rightarrow> string \<Rightarrow> bool" where
  "Contains [] p = (p = [])"
| "Contains (c # s) p = (isPrefix p (c # s) \<or> Contains s p)"

lemma of_char_less [simp]: "(of_char c :: nat) < 256"
  by (metis nat_of_char_less_256)

lemma lower_char_idem [simp]: "lower_char (lower_char c) = lower_char c"
proof (cases "65 \<le> (of_char c :: nat) \<and> (of_char c :: nat) \<le> 90")
  case True
  then have "of_char (char_of (of_char c + 32 :: nat)) = (of_char c + 32 :: nat)"
    by (simp add: of_char_of)
  with True show ?thesis
    by (simp add: lower_char_def Let_def)
next
  case False
  then have "lower_char c = c" by (auto simp: lower_char_def Let_def)
  then show ?thesis by simp
qed

lemma is_space_lower_char [simp]: "is_space (lower_char c) = is_space c"
proof (cases "65 \<le> (of_char c :: nat) \<and> (of_char c :: nat) \<le> 90")
  case True
  then have "of_char (char_of (of_char c + 32 :: nat)) = (of_char c + 32 :: nat)"
    by (simp add: of_char_of)
  with True show ?thesis
    by (simp add: lower_char_def is_space_def Let_def)
next
  case False
  then have "lower_char c = c" by (auto simp: lower_char_def Let_def)
  then show ?thesis by simp
qed

lemma ToLower_idem [simp]: "ToLower (ToLower s) = ToLower s"
  by (simp add: ToLower_def o_def)

lemma ToLower_Nil_iff [simp]: "ToLower s = [] \<longleftrightarrow> s = []" "[] = ToLower s \<longleftrightarrow> s = []"
  by (auto simp: ToLower_def)

lemma dropWhile_idem_rev:
  "dropWhile P (rev (dropWhile P (rev (dropWhile P xs)))) = rev (dropWhile P (rev (dropWhile P xs)))"
proof (cases "dropWhile P xs")
  case Nil
  show ?thesis by (simp only: Nil rev.simps dropWhile.simps)
next
  case (Cons z zs)
  then have z: "\<not> P z" by (metis dropWhile_eq_Cons_conv)
  then have "dropWhile P (rev zs @ [z]) = dropWhile P (rev zs) @ [z]"
    by (cases "\<forall>x \<in> set zs. P x") (auto simp: dropWhile_append)
  then show ?thesis using z Cons by simp
qed

lemma TrimSpace_idem [simp]: "TrimSpace (TrimSpace s) = TrimSpace s"
  by (simp add: TrimSpace_def dropWhile_idem_rev)

lemma TrimSpace_ToLower: "TrimSpace (ToLower s) = ToLower (TrimSpace s)"
proof -
  have dw: "dropWhile is_space (map lower_char xs) = map lower_char (dropWhile is_space xs)" for xs
    by (induction xs) auto
  show ?thesis
    by (simp only: TrimSpace_def ToLower_def dw rev_map)
qed

lemma TrimSpace_Nil [simp]: "TrimSpace [] = []"
  by (simp add: TrimSpace_def)

lemma set_TrimSpace: "set (TrimSpace s) \<subseteq> set s"
  by (auto simp: TrimSpace_def dest!: set_dropWhileD)

lemma length_TrimSpace: "length (TrimSpace s) \<le> length s"
proof -
  have "length (dropWhile is_space (rev (dropWhile is_space s))) \<le> length (dropWhile is_space s)"
    by (metis length_dropWhile_le length_rev)
  also have "\<dots> \<le> length s" by (rule length_dropWhile_le)
  finally show ?thesis by (simp add: TrimSpace_def)
qed

lemma isPrefix_append: "isPrefix p s \<longleftrightarrow> (\<exists>t. s = p @ t)"
  by (induction p s rule: isPrefix.induct) auto

lemma Contains_iff: "Contains s p \<longleftrightarrow> (\<exists>a b. s = a @ p @ b)"
proof (induction s p rule: Contains.induct)
  case (1 p)
  then show ?case by auto
next
  case (2 c s p)
  have "(\<exists>a b. c # s = a @ p @ b) \<longleftrightarrow> (\<exists>b. c # s = p @ b) \<or> (\<exists>a b. s = a @ p @ b)"
    by (metis append_Cons append_Nil list.inject neq_Nil_conv)
  with 2 show ?case by (simp add: isPrefix_append)
qed

section \<open>SQL statements over tables\<close>

definition sql_update :: "('r \<Rightarrow> bool) \<Rightarrow> ('r \<Rightarrow> 'r) \<Rightarrow> 'r list \<Rightarrow> 'r list" where
  "sql_update p f rows = map (\<lambda>r. if p r then f r else r) rows"

definition rows_affected :: "('r \<Rightarrow> bool) \<Rightarrow> 'r list \<Rightarrow> nat" where
  "rows_affected p rows = length (filter p rows)"

definition sql_delete :: "('r \<Rightarrow> bool) \<Rightarrow> 'r list \<Rightarrow> 'r list" where
  "sql_delete p rows = filter (\<lambda>r. \<not> p r) rows"

definition by_key :: "('r \<Rightarrow> 'k) \<Rightarrow> 'k \<Rightarrow> 'r list \<Rightarrow> 'r option" where
  "by_key key k rows = find (\<lambda>r. key r = k) rows"

definition keyed :: "('r \<Rightarrow> 'k) \<Rightarrow> 'r list \<Rightarrow> bool" where
  "keyed key rows \<longleftrightarrow> distinct (map key rows)"

lemma sql_update_Nil [simp]: "sql_update p f [] = []"
  by (simp add: sql_update_def)

lemma sql_update_Cons [simp]:
  "sql_update p f (r # rows) = (if p r then f r else r) # sql_update p f rows"
  by (simp add: sql_update_def)

lemma length_sql_update [simp]: "length (sql_update p f rows) = length rows"
  by (simp add: sql_update_def)

lemma set_sql_update: "set (sql_update p f rows) = (\<lambda>r. if p r then f r else r) ` set rows"
  by (simp add: sql_update_def)

lemma in_sql_update:
  "r \<in> set (sql_update p f rows) \<longleftrightarrow>
     (\<exists>q \<in> set rows. r = (if p q then f q else q))"
  by (auto simp: set_sql_update)

lemma by_key_Nil [simp]: "by_key key k [] = None"
  by (simp add: by_key_def)

lemma by_key_Cons [simp]:
  "by_key key k (r # rows) = (if key r = k then Some r else by_key key k rows)"
  by (simp add: by_key_def)

lemma by_key_SomeD: "by_key key k rows = Some r \<Longrightarrow> r \<in> set rows \<and> key r = k"
  by (induction rows) (auto split: if_splits)

lemma by_key_append:
  "by_key key k (rows @ rows') =
     (case by_key key k rows of Some r \<Rightarrow> Some r | None \<Rightarrow> by_key key k rows')"
  by (induction rows) auto

lemma by_key_None_iff: "by_key key k rows = None \<longleftrightarrow> k \<notin> key ` set rows"
  by (induction rows) auto

lemma keyed_by_key: "keyed key rows \<Longrightarrow> r \<in> set rows \<Longrightarrow> by_key key (key r) rows = Some r"
  by (induction rows) (auto simp: keyed_def image_iff)

lemma keyed_Cons [simp]:
  "keyed key (r # rows) \<longleftrightarrow> key r \<notin> key ` set rows \<and> keyed key rows"
  by (simp add: keyed_def)

lemma keyed_Nil [simp]: "keyed key []"
  by (simp add: keyed_def)

lemma keyed_append_one:
  "keyed key (rows @ [r]) \<longleftrightarrow> keyed key rows \<and> by_key key (key r) rows = None"
  by (auto simp: keyed_def by_key_None_iff)

lemma map_key_sql_update:
  "(\<And>r. key (f r) = key r) \<Longrightarrow> map key (sql_update p f rows) = map key rows"
  by (induction rows) auto

lemma keyed_sql_update:
  "(\<And>r. key (f r) = key r) \<Longrightarrow> keyed key rows \<Longrightarrow> keyed key (sql_update p f rows)"
  by (simp add: keyed_def map_key_sql_update)

lemma keyed_sql_delete: "keyed key rows \<Longrightarrow> keyed key (sql_delete p rows)"
  by (simp add: keyed_def sql_delete_def distinct_map_filter)

lemma by_key_sql_update:
  "(\<And>r. key (f r) = key r) \<Longrightarrow>
   by_key key k (sql_update p f rows) =
     map_option (\<lambda>r. if p r then f r else r) (by_key key k rows)"
  by (induction rows) auto

lemma rows_affected_0_iff: "rows_affected p rows = 0 \<longleftrightarrow> (\<forall>r \<in> set rows. \<not> p r)"
  by (auto simp: rows_affected_def filter_empty_conv)

lemma rows_affected_0_update: "rows_affected p rows = 0 \<Longrightarrow> sql_update p f rows = rows"
  by (simp add: rows_affected_0_iff sql_update_def map_idI)

text \<open>
  A statement whose \<open>WHERE\<close> clause pins the primary key touches at most one row, and
  reports one affected row exactly when the addressed row satisfies the clause.
\<close>

lemma filter_keyed:
  assumes "keyed key rows" and "\<And>r. p r \<Longrightarrow> key r = k"
  shows "filter p rows =
    (case by_key key k rows of Some r \<Rightarrow> if p r then [r] else [] | None \<Rightarrow> [])"
  using assms(1)
proof (induction rows)
  case Nil
  then show ?case by simp
next
  case (Cons r rows)
  show ?case
  proof (cases "key r = k")
    case True
    then have "by_key key k rows = None"
      using Cons.prems by (auto simp: by_key_None_iff)
    with Cons True show ?thesis by auto
  next
    case False
    with assms(2) have "\<not> p r" by blast
    with Cons False show ?thesis by simp
  qed
qed

lemma rows_affected_keyed:
  assumes "keyed key rows" and "\<And>r. p r \<Longrightarrow> key r = k"
  shows "rows_affected p rows = 1 \<longleftrightarrow> (\<exists>r. by_key key k rows = Some r \<and> p r)"
    and "rows_affected p rows \<le> 1"
  using filter_keyed [OF assms] by (auto simp: rows_affected_def split: option.splits)

section \<open>Outcomes of calls to an external store\<close>

text \<open>
  A call over the network can fail before it took effect, or after: a commit whose
  acknowledgement is lost has been applied although the caller sees an error. Every
  model of a caller is quantified over these outcomes.
\<close>

datatype fault = NoFault | FailLost | FailApplied

datatype db_error =
    ErrNoRows | UniqueViolation | ForeignKeyViolation | ConnFailure
  | ErrProviderCorrelationMismatch | ErrDeliveryConfirmationUnavailable
  | ErrBadArgument | CheckViolation | ValueTooLong

type_synonym 'a result = "db_error + 'a"

definition run_call :: "fault \<Rightarrow> ('s \<Rightarrow> 's \<times> 'a result) \<Rightarrow> 's \<Rightarrow> 's \<times> 'a result" where
  "run_call x op s =
     (case x of
        NoFault \<Rightarrow> op s
      | FailLost \<Rightarrow> (s, Inl ConnFailure)
      | FailApplied \<Rightarrow> (fst (op s), Inl ConnFailure))"

lemma run_call_simps [simp]:
  "run_call NoFault op s = op s"
  "run_call FailLost op s = (s, Inl ConnFailure)"
  "run_call FailApplied op s = (fst (op s), Inl ConnFailure)"
  by (simp_all add: run_call_def)

text \<open>A caller that sees an answer knows the call took effect; one that sees a connection
  failure knows only that the state is the old or the new one.\<close>

lemma run_call_InrD: "run_call x op s = (s', Inr a) \<Longrightarrow> op s = (s', Inr a)"
  by (cases x) auto

lemma run_call_state: "fst (run_call x op s) = s \<or> fst (run_call x op s) = fst (op s)"
  by (cases x) auto

lemma run_call_stateE:
  assumes "run_call x op s = (s', r)"
  obtains "s' = s" | "s' = fst (op s)"
  using assms by (cases x) auto

end
