(* ===== verification/Email.thy ===== *)
theory Email
  imports Prelude
begin

text \<open>
  The domain model of \<open>internal/domain\<close>: the e-mail row with its delivery status and its
  send-attempt state, the request and event types, the provider's delivery errors, and
  the rule by which a provider callback may change a status. The lemmas show that the
  rule only ever moves a status upwards in a fixed well-founded order, so callbacks can
  neither resurrect a finished message nor cycle, and that for delivery signals other
  than a provider failure the result does not depend on the order of arrival.
\<close>

section \<open>States\<close>

datatype EmailStatus =
    EmailStatusQueued | EmailStatusSending | EmailStatusSent | EmailStatusDelivered
  | EmailStatusOpened | EmailStatusClicked | EmailStatusBounced | EmailStatusComplained
  | EmailStatusFailed | EmailStatusCancelled | EmailStatusAmbiguous

datatype SendAttemptState =
    SendAttemptNone | SendAttemptLeased | SendAttemptStarted | SendAttemptAccepted
  | SendAttemptAmbiguous | SendAttemptFailedTerminal

text \<open>\<open>EmailCategory\<close> is a string type whose value comes from the request and is checked.\<close>

definition EmailCategoryTransactional :: string where
  "EmailCategoryTransactional = ''transactional''"

definition EmailCategoryMarketing :: string where
  "EmailCategoryMarketing = ''marketing''"

record Tag =
  tagName :: string
  tagValue :: string

record Attachment =
  attFilename :: string
  attContent :: string

type_synonym string_map = "(string \<times> string) list"

record Email =
  eID :: uuid
  eTeamID :: uuid
  eAPIKeyID :: "uuid option"
  eFrom :: string
  eTo :: "string list"
  eCC :: "string list"
  eBCC :: "string list"
  eSubject :: string
  eCategory :: string
  eHTML :: string
  eText :: string
  eReplyTo :: "string list"
  eAttachments :: "Attachment list"
  eStatus :: EmailStatus
  eTags :: "Tag list"
  eMetadata :: string_map
  eHeaders :: string_map
  eIdempotencyKey :: "string option"
  eIdempotencyHash :: "string option"
  eProviderMessageID :: "string option"
  eSendAttemptID :: "uuid option"
  eSendFenceToken :: "uuid option"
  eSendAttemptState :: SendAttemptState
  eSendLeaseUntil :: "instant option"
  eSendingAt :: "instant option"
  eAmbiguousAt :: "instant option"
  eQueueRecoveryPending :: bool
  eScheduledAt :: "instant option"
  eSentAt :: "instant option"
  eCreatedAt :: instant

text \<open>A row with nothing but an identity, used by the examples.\<close>

definition blank_email :: "uuid \<Rightarrow> uuid \<Rightarrow> Email" where
  "blank_email i team = \<lparr>eID = i, eTeamID = team, eAPIKeyID = None, eFrom = [], eTo = [], eCC = [],
     eBCC = [], eSubject = [], eCategory = ''transactional'', eHTML = [], eText = [],
     eReplyTo = [], eAttachments = [], eStatus = EmailStatusQueued, eTags = [], eMetadata = [],
     eHeaders = [], eIdempotencyKey = None, eIdempotencyHash = None, eProviderMessageID = None,
     eSendAttemptID = None, eSendFenceToken = None, eSendAttemptState = SendAttemptNone,
     eSendLeaseUntil = None, eSendingAt = None, eAmbiguousAt = None, eQueueRecoveryPending = False,
     eScheduledAt = None, eSentAt = None, eCreatedAt = 0\<rparr>"

record SendEmailRequest =
  rFrom :: string
  rTo :: "string list"
  rCC :: "string list"
  rBCC :: "string list"
  rSubject :: string
  rCategory :: string
  rHTML :: string
  rText :: string
  rReplyTo :: "string list"
  rHeaders :: string_map
  rTags :: "Tag list"
  rMetadata :: string_map
  rAttachments :: "Attachment list"
  rScheduledAt :: "instant option"

record EmailResponse =
  respID :: uuid
  respIdempotent :: bool

record EmailEvent =
  evID :: uuid
  evEmailID :: uuid
  evEvent :: string
  evData :: string

datatype RetentionClass = RetentionOutbound | RetentionInbound

record WebhookOutboxEvent =
  obID :: uuid
  obTeamID :: uuid
  obEventID :: uuid
  obEvent :: string
  obPayload :: string
  obRetentionClass :: RetentionClass

record SendAttemptClaim =
  claimEmailID :: uuid
  claimAttemptID :: uuid
  claimFenceToken :: uuid
  claimLeaseUntil :: instant

definition NormalizeEmail :: "string \<Rightarrow> string" where
  "NormalizeEmail email = ToLower (TrimSpace email)"

lemma NormalizeEmail_idem [simp]: "NormalizeEmail (NormalizeEmail a) = NormalizeEmail a"
  by (simp add: NormalizeEmail_def TrimSpace_ToLower)

section \<open>Provider callbacks and the delivery status\<close>

definition ProviderStatusRank :: "EmailStatus \<Rightarrow> int" where
  "ProviderStatusRank status =
     (case status of
        EmailStatusQueued \<Rightarrow> 0
      | EmailStatusSending \<Rightarrow> 1
      | EmailStatusAmbiguous \<Rightarrow> 1
      | EmailStatusFailed \<Rightarrow> 1
      | EmailStatusSent \<Rightarrow> 2
      | EmailStatusDelivered \<Rightarrow> 3
      | EmailStatusOpened \<Rightarrow> 4
      | EmailStatusClicked \<Rightarrow> 5
      | _ \<Rightarrow> - 1)"

text \<open>The target \<open>""\<close> of the source is \<open>None\<close>: the event carries no status.\<close>

definition ShouldApplyProviderStatus :: "EmailStatus \<Rightarrow> EmailStatus option \<Rightarrow> bool" where
  "ShouldApplyProviderStatus current target =
     (case target of
        None \<Rightarrow> False
      | Some t \<Rightarrow>
          if current = EmailStatusCancelled then False
          else if current = EmailStatusComplained then False
          else if t = EmailStatusComplained then True
          else if current = EmailStatusBounced then False
          else if t = EmailStatusBounced then True
          else if current = EmailStatusFailed then False
          else if t = EmailStatusFailed then
            ProviderStatusRank current < ProviderStatusRank EmailStatusDelivered
          else ProviderStatusRank t > ProviderStatusRank current)"

definition apply_provider_status :: "EmailStatus \<Rightarrow> EmailStatus option \<Rightarrow> EmailStatus" where
  "apply_provider_status current target =
     (if ShouldApplyProviderStatus current target then the target else current)"

text \<open>
  The order in which callbacks move a status. It refines \<open>ProviderStatusRank\<close>: failure,
  bounce and complaint lie above every delivery state, cancellation above everything.
\<close>

definition status_weight :: "EmailStatus \<Rightarrow> nat" where
  "status_weight s =
     (case s of
        EmailStatusQueued \<Rightarrow> 0
      | EmailStatusSending \<Rightarrow> 1
      | EmailStatusAmbiguous \<Rightarrow> 1
      | EmailStatusSent \<Rightarrow> 2
      | EmailStatusDelivered \<Rightarrow> 3
      | EmailStatusOpened \<Rightarrow> 4
      | EmailStatusClicked \<Rightarrow> 5
      | EmailStatusFailed \<Rightarrow> 6
      | EmailStatusBounced \<Rightarrow> 7
      | EmailStatusComplained \<Rightarrow> 8
      | EmailStatusCancelled \<Rightarrow> 9)"

lemmas provider_status_defs =
  ShouldApplyProviderStatus_def ProviderStatusRank_def status_weight_def

lemma ShouldApplyProviderStatus_None [simp]: "\<not> ShouldApplyProviderStatus c None"
  by (simp add: ShouldApplyProviderStatus_def)

lemma should_apply_increases:
  "ShouldApplyProviderStatus c (Some t) \<Longrightarrow> status_weight c < status_weight t"
  by (cases c; cases t) (simp_all add: provider_status_defs)

lemma apply_provider_status_mono: "status_weight c \<le> status_weight (apply_provider_status c t)"
  using should_apply_increases
  by (cases t) (auto simp: apply_provider_status_def ShouldApplyProviderStatus_def less_imp_le)

lemma should_apply_never_queued: "\<not> ShouldApplyProviderStatus c (Some EmailStatusQueued)"
  by (cases c) (simp_all add: provider_status_defs)

lemma should_apply_never_cancelled: "\<not> ShouldApplyProviderStatus c (Some EmailStatusCancelled)"
  by (cases c) (simp_all add: provider_status_defs)

lemma apply_provider_status_queued:
  "apply_provider_status c t = EmailStatusQueued \<longleftrightarrow> c = EmailStatusQueued \<and>
     \<not> ShouldApplyProviderStatus c t"
  by (cases t) (auto simp: apply_provider_status_def should_apply_never_queued)

fun apply_callbacks :: "EmailStatus \<Rightarrow> EmailStatus option list \<Rightarrow> EmailStatus" where
  "apply_callbacks c [] = c"
| "apply_callbacks c (t # ts) = apply_callbacks (apply_provider_status c t) ts"

fun status_changes :: "EmailStatus \<Rightarrow> EmailStatus option list \<Rightarrow> nat" where
  "status_changes c [] = 0"
| "status_changes c (t # ts) =
     (if ShouldApplyProviderStatus c t then 1 else 0) +
     status_changes (apply_provider_status c t) ts"

lemma status_changes_weight:
  "status_changes c ts + status_weight c \<le> status_weight (apply_callbacks c ts)"
proof (induction ts arbitrary: c)
  case Nil
  then show ?case by simp
next
  case (Cons t ts)
  have IH: "status_changes (apply_provider_status c t) ts + status_weight (apply_provider_status c t)
      \<le> status_weight (apply_callbacks (apply_provider_status c t) ts)"
    by (rule Cons.IH)
  show ?case
  proof (cases "ShouldApplyProviderStatus c t")
    case True
    then obtain u where u: "t = Some u"
      by (cases t) (auto simp: ShouldApplyProviderStatus_def)
    with True have "status_weight c < status_weight (apply_provider_status c t)"
      using should_apply_increases by (auto simp: apply_provider_status_def)
    with IH True show ?thesis by simp
  next
    case False
    with IH show ?thesis by (simp add: apply_provider_status_def)
  qed
qed

text \<open>A list of provider callbacks, in any order and with any repetitions, changes the
  status of a message at most eight times, never lowers it in the order above, never makes
  it \<open>queued\<close> or \<open>cancelled\<close>, and leaves cancelled and complained messages untouched.\<close>

theorem callbacks_bounded_and_monotone:
  "status_changes c ts \<le> 8 \<and>
   status_weight c \<le> status_weight (apply_callbacks c ts) \<and>
   (apply_callbacks c ts = EmailStatusQueued \<longrightarrow> c = EmailStatusQueued) \<and>
   (apply_callbacks c ts = EmailStatusCancelled \<longleftrightarrow> c = EmailStatusCancelled) \<and>
   (c = EmailStatusComplained \<longrightarrow> apply_callbacks c ts = EmailStatusComplained)"
proof -
  have cancelled: "apply_callbacks EmailStatusCancelled ts = EmailStatusCancelled"
    "status_changes EmailStatusCancelled ts = 0" for ts
    by (induction ts)
      (auto simp: apply_provider_status_def ShouldApplyProviderStatus_def split: option.split)
  have complained: "apply_callbacks EmailStatusComplained ts = EmailStatusComplained" for ts
    by (induction ts)
      (auto simp: apply_provider_status_def ShouldApplyProviderStatus_def split: option.split)
  have keep: "c \<noteq> EmailStatusCancelled \<Longrightarrow> apply_callbacks c ts \<noteq> EmailStatusCancelled" for c ts
  proof (induction ts arbitrary: c)
    case (Cons t ts)
    have "apply_provider_status c t \<noteq> EmailStatusCancelled"
      using Cons.prems
      by (cases t) (auto simp: apply_provider_status_def should_apply_never_cancelled)
    with Cons.IH show ?case by simp
  qed simp
  have queued: "apply_callbacks c ts = EmailStatusQueued \<Longrightarrow> c = EmailStatusQueued" for c ts
    by (induction ts arbitrary: c) (simp, metis apply_callbacks.simps(2) apply_provider_status_queued)
  have bound: "status_changes c ts \<le> 8"
  proof (cases "c = EmailStatusCancelled")
    case True
    then show ?thesis by (simp add: cancelled)
  next
    case False
    then have "status_weight (apply_callbacks c ts) \<le> 8"
      using keep [OF False] by (cases "apply_callbacks c ts") (auto simp: status_weight_def)
    with status_changes_weight [of c ts] show ?thesis by linarith
  qed
  have "status_weight c \<le> status_weight (apply_callbacks c ts)"
    using status_changes_weight [of c ts] by linarith
  moreover have "apply_callbacks c ts = EmailStatusCancelled \<longleftrightarrow> c = EmailStatusCancelled"
    using cancelled(1) [of ts] keep [of c ts] by blast
  ultimately show ?thesis
    using bound complained [of ts] queued [of c ts] by blast
qed

theorem callbacks_bounded_and_monotone_witness:
  "status_changes EmailStatusSending [Some EmailStatusDelivered, None, Some EmailStatusSent] \<le> 8 \<and>
   apply_callbacks EmailStatusSending [Some EmailStatusDelivered, None, Some EmailStatusSent]
     \<noteq> EmailStatusQueued"
  using callbacks_bounded_and_monotone
    [of EmailStatusSending "[Some EmailStatusDelivered, None, Some EmailStatusSent]"] by auto

text \<open>
  Out-of-order callbacks. Among delivery signals without a provider failure the rule is
  the maximum in \<open>status_weight\<close>, hence the result is the same for every order.
\<close>

definition delivery_signal :: "EmailStatus \<Rightarrow> bool" where
  "delivery_signal t \<longleftrightarrow> t \<in> {EmailStatusSent, EmailStatusDelivered, EmailStatusOpened,
     EmailStatusClicked, EmailStatusBounced, EmailStatusComplained}"

lemma apply_signal_max:
  "delivery_signal t \<Longrightarrow>
   status_weight (apply_provider_status c (Some t)) = max (status_weight c) (status_weight t)"
  by (cases c; cases t)
    (simp_all add: delivery_signal_def apply_provider_status_def provider_status_defs)

lemma apply_signal_commute:
  assumes "delivery_signal t" and "delivery_signal u"
  shows "apply_provider_status (apply_provider_status c (Some t)) (Some u) =
         apply_provider_status (apply_provider_status c (Some u)) (Some t)"
  using assms
  by (cases c; cases t; cases u)
    (simp_all add: delivery_signal_def apply_provider_status_def provider_status_defs)

lemma apply_callbacks_fold:
  "apply_callbacks c ts = fold (\<lambda>t c. apply_provider_status c t) ts c"
  by (induction ts arbitrary: c) auto

text \<open>Delivery, open, click, bounce and complaint callbacks converge: two arrivals of the
  same events in different orders leave the same status.\<close>

theorem callbacks_order_independent:
  assumes "mset ts = mset us"
    and "\<forall>t \<in> set ts. delivery_signal t"
  shows "apply_callbacks c (map Some ts) = apply_callbacks c (map Some us)"
proof -
  let ?f = "\<lambda>t c. apply_provider_status c (Some t)"
  have "?f x \<circ> ?f y = ?f y \<circ> ?f x" if "x \<in> set ts" "y \<in> set ts" for x y
    using that assms(2) apply_signal_commute by (auto simp: fun_eq_iff)
  then have "fold ?f ts = fold ?f us"
    using assms(1) by (rule fold_multiset_equiv)
  then show ?thesis
    by (simp add: apply_callbacks_fold fold_map o_def)
qed

theorem callbacks_order_independent_witness:
  "apply_callbacks EmailStatusSending (map Some [EmailStatusClicked, EmailStatusSent, EmailStatusBounced])
   = apply_callbacks EmailStatusSending (map Some [EmailStatusBounced, EmailStatusSent, EmailStatusClicked])"
  by (rule callbacks_order_independent) (simp_all add: delivery_signal_def add_mset_commute)

section \<open>Delivery errors\<close>

text \<open>An error value either wraps a \<open>DeliveryError\<close> (what \<open>errors.As\<close> finds) or it does not.\<close>

record DeliveryError =
  deErr :: string
  deRetryable :: bool
  deSMTPCode :: int
  deEnhancedStatusCode :: string
  deProviderCode :: string
  deOutcomeUnknown :: bool

datatype send_error = DeliveryErr DeliveryError | PlainErr string

definition DeliveryErrorDetails :: "send_error \<Rightarrow> DeliveryError option" where
  "DeliveryErrorDetails err = (case err of DeliveryErr d \<Rightarrow> Some d | PlainErr _ \<Rightarrow> None)"

definition DeliveryOutcomeUnknown :: "send_error \<Rightarrow> bool" where
  "DeliveryOutcomeUnknown err =
     (case DeliveryErrorDetails err of Some d \<Rightarrow> deOutcomeUnknown d | None \<Rightarrow> False)"

definition IsRetryableDeliveryError :: "send_error \<Rightarrow> bool" where
  "IsRetryableDeliveryError err =
     (case DeliveryErrorDetails err of Some d \<Rightarrow> deRetryable d | None \<Rightarrow> True)"

definition NewDeliveryErrorWithOutcomeDetails ::
  "string option \<Rightarrow> bool \<Rightarrow> bool \<Rightarrow> int \<Rightarrow> string \<Rightarrow> string \<Rightarrow> send_error" where
  "NewDeliveryErrorWithOutcomeDetails err retryable outcomeUnknown smtpCode enhanced providerCode =
     (case err of
        None \<Rightarrow> PlainErr ''email delivery failed''
      | Some e \<Rightarrow> DeliveryErr \<lparr>deErr = e, deRetryable = retryable, deSMTPCode = smtpCode,
          deEnhancedStatusCode = enhanced, deProviderCode = providerCode,
          deOutcomeUnknown = outcomeUnknown\<rparr>)"

definition errorText :: "send_error \<Rightarrow> string" where
  "errorText err = (case err of DeliveryErr d \<Rightarrow> deErr d | PlainErr s \<Rightarrow> s)"

end
