(* ===== verification/Database.thy ===== *)
theory Database
  imports Email
begin

text \<open>
  The PostgreSQL state the outbound pipeline works on: one record field per table, one
  record per row type, after all migrations. Columns are those the Go code reads or
  writes; a nullable column is an \<open>option\<close>. Uniqueness comes from the primary keys and the
  unique indexes the migrations create, and \<open>db_keys\<close> states them as an invariant.
\<close>

section \<open>Rows\<close>

datatype inbox_status = InboxPending | InboxProcessing | InboxProcessed | InboxIgnored
datatype outbox_status = OutboxPending | OutboxProcessing | OutboxDispatched | OutboxFailed

record ProviderEventInbox =
  ibEventID :: uuid
  ibProviderMessageID :: string
  ibEventType :: string
  ibPayload :: "string option"
  ibEmailID :: "uuid option"
  ibSendAttemptID :: "uuid option"
  ibStatus :: inbox_status
  ibAttempts :: nat
  ibNextAttemptAt :: instant
  ibLeaseUntil :: "instant option"
  ibLastError :: "string option"
  ibCreatedAt :: instant
  ibProcessedAt :: "instant option"

record outbox_row =
  oxID :: uuid
  oxTeamID :: uuid
  oxEventID :: uuid
  oxEvent :: string
  oxPayload :: "string option"
  oxRetentionClass :: RetentionClass
  oxStatus :: outbox_status
  oxAttempts :: nat
  oxNextAttemptAt :: instant
  oxLeaseUntil :: "instant option"
  oxLastError :: "string option"
  oxCreatedAt :: instant
  oxDispatchedAt :: "instant option"

datatype WebhookDeliveryStatus =
    WebhookDeliveryPending | WebhookDeliverySending | WebhookDeliveryDelivered | WebhookDeliveryFailed

record WebhookDelivery =
  wdID :: uuid
  wdWebhookID :: uuid
  wdEventID :: uuid
  wdEvent :: string
  wdPayload :: "string option"
  wdRetentionClass :: RetentionClass
  wdStatus :: WebhookDeliveryStatus
  wdAttempts :: nat
  wdNextAttemptAt :: instant
  wdLeaseUntil :: "instant option"
  wdLastError :: "string option"
  wdCreatedAt :: instant
  wdDeliveredAt :: "instant option"

record Webhook =
  whID :: uuid
  whTeamID :: uuid
  whURL :: string
  whEvents :: "string list"
  whSecret :: string
  whActive :: bool
  whCreatedAt :: instant

datatype SuppressionReason =
  SuppressionReasonUnsubscribe | SuppressionReasonBounce | SuppressionReasonComplaint

record Suppression =
  supID :: uuid
  supTeamID :: uuid
  supEmail :: string
  supReason :: SuppressionReason

record Contact =
  ctID :: uuid
  ctTeamID :: uuid
  ctEmail :: string
  ctFirstName :: "string option"
  ctLastName :: "string option"
  ctSubscribed :: bool
  ctProperties :: string_map
  ctCreatedAt :: instant
  ctUpdatedAt :: instant

record InboundEmail =
  inID :: uuid
  inTeamID :: uuid
  inMessageID :: "string option"
  inFrom :: string
  inTo :: "string list"
  inSubject :: "string option"
  inText :: "string option"
  inHTML :: "string option"
  inAttachments :: string
  inRawS3Key :: "string option"
  inHeaders :: string
  inCreatedAt :: instant

record db =
  emails :: "Email list"
  email_events :: "EmailEvent list"
  provider_event_inbox :: "ProviderEventInbox list"
  webhook_outbox :: "outbox_row list"
  webhook_deliveries :: "WebhookDelivery list"
  webhooks :: "Webhook list"
  suppressions :: "Suppression list"
  contacts :: "Contact list"
  inbound_emails :: "InboundEmail list"

definition empty_db :: db where
  "empty_db = \<lparr>emails = [], email_events = [], provider_event_inbox = [], webhook_outbox = [],
     webhook_deliveries = [], webhooks = [], suppressions = [], contacts = [], inbound_emails = []\<rparr>"

section \<open>Conditions on nullable columns\<close>

text \<open>A comparison with \<open>NULL\<close> is not true, so the row is not selected.\<close>

definition sql_lt :: "instant option \<Rightarrow> instant \<Rightarrow> bool" where
  "sql_lt c t = (case c of None \<Rightarrow> False | Some x \<Rightarrow> x < t)"

definition sql_ge :: "instant option \<Rightarrow> instant \<Rightarrow> bool" where
  "sql_ge c t = (case c of None \<Rightarrow> False | Some x \<Rightarrow> x \<ge> t)"

definition coalesce :: "'a option \<Rightarrow> 'a \<Rightarrow> 'a option" where
  "coalesce c d = (case c of None \<Rightarrow> Some d | Some x \<Rightarrow> Some x)"

lemmas sql_null_defs = sql_lt_def sql_ge_def coalesce_def

section \<open>Statements on the e-mail table\<close>

definition exec_emails :: "(Email \<Rightarrow> bool) \<Rightarrow> (Email \<Rightarrow> Email) \<Rightarrow> db \<Rightarrow> db \<times> nat" where
  "exec_emails p f s =
     (s\<lparr>emails := sql_update p f (emails s)\<rparr>, rows_affected p (emails s))"

definition exec_one :: "(Email \<Rightarrow> bool) \<Rightarrow> (Email \<Rightarrow> Email) \<Rightarrow> db \<Rightarrow> db \<times> bool result" where
  "exec_one p f s = (case exec_emails p f s of (s', n) \<Rightarrow> (s', Inr (n = 1)))"

text \<open>The unique index on \<open>provider_message_id\<close>: writing a value some other row has fails.\<close>

definition provider_id_taken :: "uuid \<Rightarrow> string \<Rightarrow> Email list \<Rightarrow> bool" where
  "provider_id_taken i m rows \<longleftrightarrow> (\<exists>r \<in> set rows. eID r \<noteq> i \<and> eProviderMessageID r = Some m)"

definition email_at :: "db \<Rightarrow> uuid \<Rightarrow> Email option" where
  "email_at s i = by_key eID i (emails s)"

lemma exec_emails_emails [simp]:
  "emails (fst (exec_emails p f s)) = sql_update p f (emails s)"
  by (simp add: exec_emails_def)

lemma exec_one_simps [simp]:
  "fst (exec_one p f s) = s\<lparr>emails := sql_update p f (emails s)\<rparr>"
  "snd (exec_one p f s) = Inr (rows_affected p (emails s) = 1)"
  by (simp_all add: exec_one_def exec_emails_def)

lemma email_at_SomeD: "email_at s i = Some e \<Longrightarrow> e \<in> set (emails s) \<and> eID e = i"
  unfolding email_at_def by (rule by_key_SomeD)

lemma email_at_update:
  "(\<And>e. eID (f e) = eID e) \<Longrightarrow>
   email_at (s\<lparr>emails := sql_update p f (emails s)\<rparr>) i =
     map_option (\<lambda>e. if p e then f e else e) (email_at s i)"
  by (simp add: email_at_def) (rule by_key_sql_update)

text \<open>
  The foreign keys: deleting an e-mail deletes its events and clears the reference of
  inbox rows; an event or an inbox row that names an unknown e-mail is refused.
\<close>

definition delete_emails :: "(Email \<Rightarrow> bool) \<Rightarrow> db \<Rightarrow> db" where
  "delete_emails p s =
     (let gone = map eID (filter p (emails s)) in
      s\<lparr>emails := sql_delete p (emails s),
        email_events := sql_delete (\<lambda>ev. evEmailID ev \<in> set gone) (email_events s),
        provider_event_inbox := sql_update (\<lambda>i. \<exists>x \<in> set gone. ibEmailID i = Some x)
          (\<lambda>i. i\<lparr>ibEmailID := None\<rparr>) (provider_event_inbox s)\<rparr>)"

lemma delete_emails_emails [simp]: "emails (delete_emails p s) = sql_delete p (emails s)"
  by (simp add: delete_emails_def Let_def)

section \<open>Keys\<close>

definition idempotency_unique :: "Email list \<Rightarrow> bool" where
  "idempotency_unique rows \<longleftrightarrow>
     (\<forall>i < length rows. \<forall>j < length rows. i \<noteq> j \<longrightarrow> eIdempotencyKey (rows ! i) \<noteq> None \<longrightarrow>
        \<not> (eTeamID (rows ! i) = eTeamID (rows ! j) \<and>
           eIdempotencyKey (rows ! i) = eIdempotencyKey (rows ! j)))"

definition db_keys :: "db \<Rightarrow> bool" where
  "db_keys s \<longleftrightarrow>
     keyed eID (emails s) \<and> keyed ibEventID (provider_event_inbox s) \<and>
     keyed oxEventID (webhook_outbox s) \<and> keyed oxID (webhook_outbox s) \<and>
     keyed (\<lambda>d. (wdWebhookID d, wdEventID d)) (webhook_deliveries s) \<and>
     keyed (\<lambda>x. (supTeamID x, supEmail x)) (suppressions s)"

lemma empty_db_keys [simp]: "db_keys empty_db"
  by (simp add: db_keys_def empty_db_def)

lemma db_keys_emails: "db_keys s \<Longrightarrow> keyed eID (emails s)"
  by (simp add: db_keys_def)

end
