(* ===== verification/EmailRepo.thy ===== *)
theory EmailRepo
  imports Database
begin

text \<open>
  \<open>internal/repository/email_repo.go\<close>. Each method is one SQL statement or one
  transaction; it is modelled by the condition of its \<open>WHERE\<close> clause, the assignments of
  its \<open>SET\<close> clause, and the operation that runs them and reports what the Go method
  reports. \<open>NOW()\<close> is the argument \<open>now\<close>. The locale \<open>fenced_statement\<close> states the
  contract all statements guarded by a claim share and is interpreted on each of them.
\<close>

section \<open>Insertion and lookup\<close>

definition new_row :: "instant \<Rightarrow> Email \<Rightarrow> Email" where
  "new_row now email = email\<lparr>
     eCategory := (if eCategory email = [] then EmailCategoryTransactional else eCategory email),
     eProviderMessageID := None, eSendAttemptID := None, eSendFenceToken := None,
     eSendAttemptState := SendAttemptNone, eSendLeaseUntil := None, eSendingAt := None,
     eAmbiguousAt := None, eQueueRecoveryPending := False, eSentAt := None, eCreatedAt := now\<rparr>"

definition insert_conflict :: "Email \<Rightarrow> Email list \<Rightarrow> bool" where
  "insert_conflict email rows \<longleftrightarrow>
     (\<exists>r \<in> set rows. eID r = eID email \<or>
        (eIdempotencyKey email \<noteq> None \<and> eTeamID r = eTeamID email \<and>
         eIdempotencyKey r = eIdempotencyKey email))"

definition EmailRepo_Create :: "instant \<Rightarrow> Email \<Rightarrow> db \<Rightarrow> db \<times> unit result" where
  "EmailRepo_Create now email s =
     (if insert_conflict email (emails s) then (s, Inl UniqueViolation)
      else (s\<lparr>emails := emails s @ [new_row now email]\<rparr>, Inr ()))"

definition GetByID :: "uuid \<Rightarrow> db \<Rightarrow> Email result" where
  "GetByID i s = (case email_at s i of None \<Rightarrow> Inl ErrNoRows | Some e \<Rightarrow> Inr e)"

definition GetByIDForTeam :: "uuid \<Rightarrow> uuid \<Rightarrow> db \<Rightarrow> Email result" where
  "GetByIDForTeam team i s =
     (case find (\<lambda>e. eID e = i \<and> eTeamID e = team) (emails s) of
        None \<Rightarrow> Inl ErrNoRows | Some e \<Rightarrow> Inr e)"

definition GetByIdempotencyKey :: "uuid \<Rightarrow> string \<Rightarrow> db \<Rightarrow> Email result" where
  "GetByIdempotencyKey team key s =
     (case find (\<lambda>e. eTeamID e = team \<and> eIdempotencyKey e = Some key) (emails s) of
        None \<Rightarrow> Inl ErrNoRows
      | Some e \<Rightarrow> GetByIDForTeam team (eID e) s)"

definition GetByProviderMessageID :: "string \<Rightarrow> db \<Rightarrow> Email result" where
  "GetByProviderMessageID m s =
     (case find (\<lambda>e. eProviderMessageID e = Some m) (emails s) of
        None \<Rightarrow> Inl ErrNoRows
      | Some e \<Rightarrow> GetByID (eID e) s)"

section \<open>Send attempts\<close>

definition claim_matches :: "SendAttemptClaim \<Rightarrow> Email \<Rightarrow> bool" where [row_defs]:
  "claim_matches c e \<longleftrightarrow> eID e = claimEmailID c \<and>
     eSendAttemptID e = Some (claimAttemptID c) \<and> eSendFenceToken e = Some (claimFenceToken c)"

definition ClaimSendAttempt_where :: "SendAttemptClaim \<Rightarrow> Email \<Rightarrow> bool" where [row_defs]:
  "ClaimSendAttempt_where c e \<longleftrightarrow> eID e = claimEmailID c \<and> eStatus e = EmailStatusQueued \<and>
     eSendAttemptState e \<in> {SendAttemptNone, SendAttemptFailedTerminal}"

definition ClaimSendAttempt_set :: "instant \<Rightarrow> SendAttemptClaim \<Rightarrow> Email \<Rightarrow> Email" where [row_defs]:
  "ClaimSendAttempt_set now c e = e\<lparr>
     eStatus := EmailStatusSending, eSendingAt := Some now,
     eSendAttemptID := Some (claimAttemptID c), eSendFenceToken := Some (claimFenceToken c),
     eSendAttemptState := SendAttemptLeased, eSendLeaseUntil := Some (claimLeaseUntil c),
     eAmbiguousAt := None, eQueueRecoveryPending := False\<rparr>"

definition ClaimSendAttempt :: "instant \<Rightarrow> SendAttemptClaim \<Rightarrow> db \<Rightarrow> db \<times> bool result" where
  "ClaimSendAttempt now c = exec_one (ClaimSendAttempt_where c) (ClaimSendAttempt_set now c)"

definition MarkSendStarted_where :: "instant \<Rightarrow> SendAttemptClaim \<Rightarrow> Email \<Rightarrow> bool" where [row_defs]:
  "MarkSendStarted_where now c e \<longleftrightarrow> claim_matches c e \<and>
     eStatus e = EmailStatusSending \<and> eSendAttemptState e = SendAttemptLeased"

definition MarkSendStarted_set :: "instant \<Rightarrow> SendAttemptClaim \<Rightarrow> Email \<Rightarrow> Email" where [row_defs]:
  "MarkSendStarted_set now c e = e\<lparr>
     eSendAttemptState := SendAttemptStarted, eSendLeaseUntil := Some (claimLeaseUntil c)\<rparr>"

definition MarkSendStarted :: "instant \<Rightarrow> SendAttemptClaim \<Rightarrow> db \<Rightarrow> db \<times> bool result" where
  "MarkSendStarted now c = exec_one (MarkSendStarted_where now c) (MarkSendStarted_set now c)"

definition MarkSendRetryable_where :: "instant \<Rightarrow> SendAttemptClaim \<Rightarrow> Email \<Rightarrow> bool" where [row_defs]:
  "MarkSendRetryable_where now c e \<longleftrightarrow> claim_matches c e \<and>
     eStatus e = EmailStatusSending \<and>
     eSendAttemptState e \<in> {SendAttemptLeased, SendAttemptStarted}"

definition MarkSendRetryable_set :: "instant \<Rightarrow> SendAttemptClaim \<Rightarrow> Email \<Rightarrow> Email" where [row_defs]:
  "MarkSendRetryable_set now c e = e\<lparr>
     eStatus := EmailStatusQueued, eSendingAt := None, eSendAttemptState := SendAttemptNone,
     eSendAttemptID := None, eSendFenceToken := None, eSendLeaseUntil := None,
     eAmbiguousAt := None, eQueueRecoveryPending := False\<rparr>"

definition MarkSendRetryable :: "instant \<Rightarrow> SendAttemptClaim \<Rightarrow> db \<Rightarrow> db \<times> bool result" where
  "MarkSendRetryable now c = exec_one (MarkSendRetryable_where now c) (MarkSendRetryable_set now c)"

definition MarkSendAmbiguous_where :: "instant \<Rightarrow> SendAttemptClaim \<Rightarrow> Email \<Rightarrow> bool" where [row_defs]:
  "MarkSendAmbiguous_where now c e \<longleftrightarrow> claim_matches c e \<and>
     eStatus e = EmailStatusSending \<and> eSendAttemptState e = SendAttemptStarted"

definition MarkSendAmbiguous_set :: "instant \<Rightarrow> SendAttemptClaim \<Rightarrow> Email \<Rightarrow> Email" where [row_defs]:
  "MarkSendAmbiguous_set now c e = e\<lparr>
     eStatus := EmailStatusAmbiguous, eSendingAt := None,
     eSendAttemptState := SendAttemptAmbiguous, eSendFenceToken := None,
     eSendLeaseUntil := None, eQueueRecoveryPending := False,
     eAmbiguousAt := coalesce (eAmbiguousAt e) now\<rparr>"

definition MarkSendAmbiguous :: "instant \<Rightarrow> SendAttemptClaim \<Rightarrow> db \<Rightarrow> db \<times> bool result" where
  "MarkSendAmbiguous now c = exec_one (MarkSendAmbiguous_where now c) (MarkSendAmbiguous_set now c)"

section \<open>Recovery\<close>

definition recover_leased_where :: "instant \<Rightarrow> Email \<Rightarrow> bool" where [row_defs]:
  "recover_leased_where now e \<longleftrightarrow> eStatus e = EmailStatusSending \<and>
     eSendAttemptState e = SendAttemptLeased \<and>
     eSendLeaseUntil e \<noteq> None \<and> sql_lt (eSendLeaseUntil e) now"

definition recover_leased_set :: "Email \<Rightarrow> Email" where [row_defs]:
  "recover_leased_set e = e\<lparr>
     eStatus := EmailStatusQueued, eSendingAt := None, eSendAttemptState := SendAttemptNone,
     eSendAttemptID := None, eSendFenceToken := None, eSendLeaseUntil := None,
     eAmbiguousAt := None, eQueueRecoveryPending := True\<rparr>"

definition recover_started_where :: "instant \<Rightarrow> Email \<Rightarrow> bool" where [row_defs]:
  "recover_started_where now e \<longleftrightarrow> eStatus e = EmailStatusSending \<and>
     (eSendAttemptState e = SendAttemptStarted \<or>
      (eSendAttemptState e = SendAttemptNone \<and> eProviderMessageID e = None)) \<and>
     (sql_lt (eSendLeaseUntil e) now \<or>
      (eSendLeaseUntil e = None \<and> sql_lt (eSendingAt e) (now - 10 * minute)))"

definition recover_started_set :: "instant \<Rightarrow> Email \<Rightarrow> Email" where [row_defs]:
  "recover_started_set now e = e\<lparr>
     eStatus := EmailStatusAmbiguous, eSendingAt := None,
     eSendAttemptState := SendAttemptAmbiguous, eSendFenceToken := None,
     eSendLeaseUntil := None, eQueueRecoveryPending := False,
     eAmbiguousAt := coalesce (eAmbiguousAt e) now\<rparr>"

definition RecoverExpiredSendAttempts :: "instant \<Rightarrow> db \<Rightarrow> db \<times> uuid list result" where
  "RecoverExpiredSendAttempts now s =
     (let recovered = map eID (filter (recover_leased_where now) (emails s));
          s1 = s\<lparr>emails := sql_update (recover_leased_where now) recover_leased_set (emails s)\<rparr>;
          s2 = s1\<lparr>emails := sql_update (recover_started_where now) (recover_started_set now) (emails s1)\<rparr>
      in (s2, Inr recovered))"

definition row_before :: "Email \<Rightarrow> Email \<Rightarrow> bool" where
  "row_before a b \<longleftrightarrow>
     eCreatedAt a < eCreatedAt b \<or> (eCreatedAt a = eCreatedAt b \<and> eID a \<le> eID b)"

fun insort_row :: "Email \<Rightarrow> Email list \<Rightarrow> Email list" where
  "insort_row a [] = [a]"
| "insort_row a (b # bs) = (if row_before a b then a # b # bs else b # insort_row a bs)"

definition ListQueueRecoveryPending :: "int \<Rightarrow> db \<Rightarrow> uuid list" where
  "ListQueueRecoveryPending limit s =
     (let l = (if limit < 1 then 1000 else if limit > 5000 then 5000 else limit)
      in map eID (take (nat l)
        (foldr insort_row
          (filter (\<lambda>e. eStatus e = EmailStatusQueued \<and> eQueueRecoveryPending e) (emails s)) [])))"

definition MarkQueueRecoveryEnqueued :: "uuid \<Rightarrow> db \<Rightarrow> db \<times> unit result" where
  "MarkQueueRecoveryEnqueued i s =
     (s\<lparr>emails := sql_update (\<lambda>e. eID e = i \<and> eQueueRecoveryPending e)
        (\<lambda>e. e\<lparr>eQueueRecoveryPending := False\<rparr>) (emails s)\<rparr>, Inr ())"

section \<open>Dead letters\<close>

definition fail_row :: "Email \<Rightarrow> Email" where [row_defs]:
  "fail_row e = e\<lparr>
     eStatus := EmailStatusFailed, eSendingAt := None,
     eSendAttemptState := SendAttemptFailedTerminal, eSendAttemptID := None,
     eSendFenceToken := None, eSendLeaseUntil := None, eAmbiguousAt := None,
     eQueueRecoveryPending := False\<rparr>"

definition MarkDeadLetterFailed_where :: "uuid \<Rightarrow> Email \<Rightarrow> bool" where [row_defs]:
  "MarkDeadLetterFailed_where i e \<longleftrightarrow> eID e = i \<and>
     ((eStatus e = EmailStatusQueued \<and> eSendAttemptState e = SendAttemptNone \<and>
       eSendAttemptID e = None \<and> eSendFenceToken e = None \<and> \<not> eQueueRecoveryPending e) \<or>
      (eStatus e = EmailStatusFailed \<and> eSendAttemptState e = SendAttemptFailedTerminal \<and>
       eSendAttemptID e = None \<and> eSendFenceToken e = None))"

definition MarkDeadLetterFailed :: "uuid \<Rightarrow> db \<Rightarrow> db \<times> unit result" where
  "MarkDeadLetterFailed i s =
     (case exec_emails (MarkDeadLetterFailed_where i) fail_row s of
        (s', n) \<Rightarrow> (s', if n = 1 then Inr () else Inl ErrBadArgument))"

definition PrepareDeadLetterReplay_where :: "uuid \<Rightarrow> uuid \<Rightarrow> Email \<Rightarrow> bool" where [row_defs]:
  "PrepareDeadLetterReplay_where team i e \<longleftrightarrow> eID e = i \<and> eTeamID e = team \<and>
     eStatus e = EmailStatusFailed \<and>
     eSendAttemptState e \<in> {SendAttemptNone, SendAttemptFailedTerminal}"

definition PrepareDeadLetterReplay_set :: "uuid \<Rightarrow> Email \<Rightarrow> Email" where [row_defs]:
  "PrepareDeadLetterReplay_set token e = e\<lparr>
     eStatus := EmailStatusQueued, eSendingAt := None, eSendAttemptState := SendAttemptNone,
     eSendAttemptID := Some token, eSendFenceToken := None, eSendLeaseUntil := None,
     eAmbiguousAt := None, eQueueRecoveryPending := False\<rparr>"

definition PrepareDeadLetterReplay :: "uuid \<Rightarrow> uuid \<Rightarrow> uuid \<Rightarrow> db \<Rightarrow> db \<times> bool result" where
  "PrepareDeadLetterReplay team i token =
     exec_one (PrepareDeadLetterReplay_where team i) (PrepareDeadLetterReplay_set token)"

definition CancelDeadLetterReplay_where :: "uuid \<Rightarrow> uuid \<Rightarrow> Email \<Rightarrow> bool" where [row_defs]:
  "CancelDeadLetterReplay_where i token e \<longleftrightarrow> eID e = i \<and> eStatus e = EmailStatusQueued \<and>
     eSendAttemptState e = SendAttemptNone \<and> eSendAttemptID e = Some token"

definition CancelDeadLetterReplay :: "uuid \<Rightarrow> uuid \<Rightarrow> db \<Rightarrow> db \<times> bool result" where
  "CancelDeadLetterReplay i token = exec_one (CancelDeadLetterReplay_where i token) fail_row"

section \<open>Statements that are not fenced\<close>

definition CancelQueued_where :: "uuid \<Rightarrow> uuid \<Rightarrow> Email \<Rightarrow> bool" where [row_defs]:
  "CancelQueued_where team i e \<longleftrightarrow>
     eID e = i \<and> eTeamID e = team \<and> eStatus e = EmailStatusQueued"

definition CancelQueued_set :: "Email \<Rightarrow> Email" where [row_defs]:
  "CancelQueued_set e = e\<lparr>eStatus := EmailStatusCancelled, eQueueRecoveryPending := False\<rparr>"

definition CancelQueued :: "uuid \<Rightarrow> uuid \<Rightarrow> db \<Rightarrow> db \<times> bool result" where
  "CancelQueued team i = exec_one (CancelQueued_where team i) CancelQueued_set"

definition UpdateStatus_set :: "instant \<Rightarrow> EmailStatus \<Rightarrow> Email \<Rightarrow> Email" where [row_defs]:
  "UpdateStatus_set now st e = e\<lparr>
     eStatus := st,
     eSendingAt := (if st = EmailStatusSending then Some now else None),
     eSentAt := (if st = EmailStatusSent then Some now else eSentAt e)\<rparr>"

definition UpdateStatus :: "instant \<Rightarrow> uuid \<Rightarrow> EmailStatus \<Rightarrow> db \<Rightarrow> db \<times> unit result" where
  "UpdateStatus now i st s =
     (s\<lparr>emails := sql_update (\<lambda>e. eID e = i) (UpdateStatus_set now st) (emails s)\<rparr>, Inr ())"

definition ClaimForSending :: "instant \<Rightarrow> uuid \<Rightarrow> db \<Rightarrow> db \<times> bool result" where
  "ClaimForSending now i =
     exec_one (\<lambda>e. eID e = i \<and> eStatus e = EmailStatusQueued)
       (\<lambda>e. e\<lparr>eStatus := EmailStatusSending, eSendingAt := Some now\<rparr>)"

definition SetProviderMessageID :: "uuid \<Rightarrow> string \<Rightarrow> db \<Rightarrow> db \<times> unit result" where
  "SetProviderMessageID i m s =
     (if provider_id_taken i m (emails s) \<and> email_at s i \<noteq> None then (s, Inl UniqueViolation)
      else (s\<lparr>emails := sql_update (\<lambda>e. eID e = i)
              (\<lambda>e. e\<lparr>eProviderMessageID := Some m\<rparr>) (emails s)\<rparr>, Inr ()))"

definition MarkProviderAccepted_where :: "uuid \<Rightarrow> Email \<Rightarrow> bool" where [row_defs]:
  "MarkProviderAccepted_where i e \<longleftrightarrow> eID e = i \<and>
     eStatus e \<in> {EmailStatusSending, EmailStatusSent, EmailStatusDelivered, EmailStatusOpened,
       EmailStatusClicked, EmailStatusBounced, EmailStatusComplained}"

definition MarkProviderAccepted_set :: "instant \<Rightarrow> string \<Rightarrow> Email \<Rightarrow> Email" where [row_defs]:
  "MarkProviderAccepted_set now m e = e\<lparr>
     eProviderMessageID := Some m,
     eStatus := (if eStatus e \<in> {EmailStatusSending, EmailStatusAmbiguous, EmailStatusFailed}
                 then EmailStatusSent else eStatus e),
     eSendAttemptState := SendAttemptAccepted, eSendLeaseUntil := None, eSendFenceToken := None,
     eQueueRecoveryPending := False, eSendingAt := None, eAmbiguousAt := None,
     eSentAt := coalesce (eSentAt e) now\<rparr>"

definition MarkProviderAccepted :: "instant \<Rightarrow> uuid \<Rightarrow> string \<Rightarrow> db \<Rightarrow> db \<times> unit result" where
  "MarkProviderAccepted now i m s =
     (if rows_affected (MarkProviderAccepted_where i) (emails s) \<noteq> 0 \<and> provider_id_taken i m (emails s)
      then (s, Inl UniqueViolation)
      else (case exec_emails (MarkProviderAccepted_where i) (MarkProviderAccepted_set now m) s of
              (s', n) \<Rightarrow> (s', if n = 1 then Inr () else Inl ErrBadArgument)))"

definition EmailRepo_Delete :: "uuid \<Rightarrow> db \<Rightarrow> db" where
  "EmailRepo_Delete i = delete_emails (\<lambda>e. eID e = i)"

definition DeleteForTeam :: "uuid \<Rightarrow> uuid \<Rightarrow> db \<Rightarrow> db" where
  "DeleteForTeam team i = delete_emails (\<lambda>e. eID e = i \<and> eTeamID e = team)"

definition purge_where :: "instant \<Rightarrow> Email \<Rightarrow> bool" where
  "purge_where before e \<longleftrightarrow> eCreatedAt e < before \<and>
     eStatus e \<in> {EmailStatusSent, EmailStatusDelivered, EmailStatusOpened, EmailStatusClicked,
       EmailStatusBounced, EmailStatusComplained, EmailStatusFailed, EmailStatusCancelled,
       EmailStatusAmbiguous}"

definition PurgeEmailsBefore :: "instant \<Rightarrow> db \<Rightarrow> db \<times> nat" where
  "PurgeEmailsBefore before s =
     (delete_emails (purge_where before) s,
      rows_affected (purge_where before) (emails s))"

section \<open>Events\<close>

definition AddEvent :: "EmailEvent \<Rightarrow> db \<Rightarrow> db \<times> unit result" where
  "AddEvent ev s =
     (if by_key evID (evID ev) (email_events s) \<noteq> None then (s, Inl UniqueViolation)
      else if email_at s (evEmailID ev) = None then (s, Inl ForeignKeyViolation)
      else (s\<lparr>email_events := email_events s @ [ev]\<rparr>, Inr ()))"

definition event_retention :: "string \<Rightarrow> RetentionClass" where
  "event_retention event = (if isPrefix ''inbound.'' event then RetentionInbound else RetentionOutbound)"

definition pending_delivery ::
  "instant \<Rightarrow> uuid \<Rightarrow> uuid \<Rightarrow> uuid \<Rightarrow> string \<Rightarrow> string option \<Rightarrow> RetentionClass \<Rightarrow> WebhookDelivery" where
  "pending_delivery now i wh ev name payload cls = \<lparr>
     wdID = i, wdWebhookID = wh, wdEventID = ev, wdEvent = name, wdPayload = payload,
     wdRetentionClass = cls, wdStatus = WebhookDeliveryPending, wdAttempts = 0,
     wdNextAttemptAt = now, wdLeaseUntil = None, wdLastError = None, wdCreatedAt = now,
     wdDeliveredAt = None\<rparr>"

text \<open>\<open>INSERT \<dots> ON CONFLICT (webhook_id, event_id) DO NOTHING\<close>.\<close>

definition insert_delivery :: "WebhookDelivery \<Rightarrow> WebhookDelivery list \<Rightarrow> WebhookDelivery list" where
  "insert_delivery d rows =
     (if by_key (\<lambda>r. (wdWebhookID r, wdEventID r)) (wdWebhookID d, wdEventID d) rows = None
      then rows @ [d] else rows)"

definition AddEventWithDeliveries ::
  "instant \<Rightarrow> EmailEvent \<Rightarrow> WebhookDelivery list \<Rightarrow> db \<Rightarrow> db \<times> unit result" where
  "AddEventWithDeliveries now ev ds s =
     (case AddEvent ev s of
        (s1, Inl e) \<Rightarrow> (s, Inl e)
      | (s1, Inr _) \<Rightarrow>
          (s1\<lparr>webhook_deliveries := fold (\<lambda>d rows. insert_delivery
              (pending_delivery now (wdID d) (wdWebhookID d) (wdEventID d) (wdEvent d) (wdPayload d)
                 (event_retention (wdEvent d))) rows) ds (webhook_deliveries s1)\<rparr>, Inr ()))"

definition GetEventsForTeam :: "uuid \<Rightarrow> uuid \<Rightarrow> db \<Rightarrow> EmailEvent list" where
  "GetEventsForTeam team i s =
     (if \<exists>e \<in> set (emails s). eID e = i \<and> eTeamID e = team
      then rev (filter (\<lambda>ev. evEmailID ev = i) (email_events s)) else [])"

lemma keyed_insert_delivery:
  "keyed (\<lambda>r. (wdWebhookID r, wdEventID r)) rows \<Longrightarrow>
   keyed (\<lambda>r. (wdWebhookID r, wdEventID r)) (insert_delivery d rows)"
  by (simp add: insert_delivery_def keyed_append_one)

section \<open>The contract of a fenced statement\<close>

text \<open>
  A statement that presents a claim selects only the row whose attempt id and fence token
  are the claim's, and never invents a fence: it keeps the row's identity and leaves the
  fence as it was or clears it. From this follow the facts a worker relies on: a stale
  claim changes nothing and is told so, and no other message is touched.
\<close>

locale fenced_statement =
  fixes guard :: "instant \<Rightarrow> SendAttemptClaim \<Rightarrow> Email \<Rightarrow> bool"
    and assign :: "instant \<Rightarrow> SendAttemptClaim \<Rightarrow> Email \<Rightarrow> Email"
  assumes guard_claim: "guard now c e \<Longrightarrow> claim_matches c e"
    and assign_id: "eID (assign now c e) = eID e"
    and assign_team: "eTeamID (assign now c e) = eTeamID e"
    and assign_fence: "eSendFenceToken (assign now c e) = None \<or>
          eSendFenceToken (assign now c e) = eSendFenceToken e"
begin

lemma guard_id: "guard now c e \<Longrightarrow> eID e = claimEmailID c"
  by (auto dest: guard_claim simp: claim_matches_def)

lemma stale_claim_unselected:
  assumes "keyed eID (emails s)"
    and "\<And>e. email_at s (claimEmailID c) = Some e \<Longrightarrow> \<not> claim_matches c e"
  shows "rows_affected (guard now c) (emails s) = 0"
proof -
  have "\<not> guard now c r" if "r \<in> set (emails s)" for r
  proof
    assume g: "guard now c r"
    then have "email_at s (claimEmailID c) = Some r"
      using keyed_by_key [OF assms(1) that] guard_id by (simp add: email_at_def)
    with assms(2) guard_claim [OF g] show False by blast
  qed
  then show ?thesis by (simp add: rows_affected_0_iff)
qed

lemma stale_claim_refused:
  assumes "keyed eID (emails s)"
    and "\<And>e. email_at s (claimEmailID c) = Some e \<Longrightarrow> \<not> claim_matches c e"
  shows "exec_one (guard now c) (assign now c) s = (s, Inr False)"
  using stale_claim_unselected [OF assms] by (simp add: prod_eq_iff rows_affected_0_update)

lemma other_rows_kept:
  assumes "j \<noteq> claimEmailID c"
  shows "email_at (fst (exec_one (guard now c) (assign now c) s)) j = email_at s j"
proof (cases "email_at s j")
  case None
  then show ?thesis by (simp add: email_at_update assign_id)
next
  case (Some e)
  then have "\<not> guard now c e"
    using assms guard_id email_at_SomeD by metis
  with Some show ?thesis by (simp add: email_at_update assign_id)
qed

lemma answer_iff:
  assumes "keyed eID (emails s)"
  shows "snd (exec_one (guard now c) (assign now c) s) = Inr True \<longleftrightarrow>
    (\<exists>e. email_at s (claimEmailID c) = Some e \<and> guard now c e)"
  using rows_affected_keyed(1) [OF assms guard_id] by (auto simp: email_at_def)

lemma winner_row:
  assumes "keyed eID (emails s)"
    and "exec_one (guard now c) (assign now c) s = (s', Inr True)"
  obtains e where "email_at s (claimEmailID c) = Some e" "guard now c e"
    "email_at s' (claimEmailID c) = Some (assign now c e)"
proof -
  from assms obtain e where e: "email_at s (claimEmailID c) = Some e" "guard now c e"
    using answer_iff [OF assms(1), of now c] by auto
  moreover have "s' = fst (exec_one (guard now c) (assign now c) s)"
    using assms(2) by simp
  ultimately have "email_at s' (claimEmailID c) = Some (assign now c e)"
    by (simp add: email_at_update assign_id)
  with e show ?thesis using that by blast
qed

end

interpretation started: fenced_statement MarkSendStarted_where MarkSendStarted_set
  by unfold_locales (auto simp: row_defs)

interpretation retryable: fenced_statement MarkSendRetryable_where MarkSendRetryable_set
  by unfold_locales (auto simp: row_defs)

interpretation ambiguous: fenced_statement MarkSendAmbiguous_where MarkSendAmbiguous_set
  by unfold_locales (auto simp: row_defs)

end
