(* ===== verification/Suppressions.thy ===== *)
theory Suppressions
  imports Database
begin

text \<open>
  \<open>internal/repository/suppression_repo.go\<close> and the recipient look-ups of
  \<open>contact_repo.go\<close>: who may not be mailed. The upsert keeps the strongest reason seen for
  an address (complaint, then bounce, then unsubscribe), so the table is a join
  semilattice per team and address; the locale \<open>suppression_list\<close> states what the senders
  rely on and is interpreted on these definitions.
\<close>

section \<open>Upsert\<close>

definition merge_reason :: "SuppressionReason \<Rightarrow> SuppressionReason \<Rightarrow> SuppressionReason" where
  "merge_reason old new =
     (if old = SuppressionReasonComplaint \<or> new = SuppressionReasonComplaint
      then SuppressionReasonComplaint
      else if old = SuppressionReasonBounce \<or> new = SuppressionReasonBounce
      then SuppressionReasonBounce
      else SuppressionReasonUnsubscribe)"

definition sup_key :: "Suppression \<Rightarrow> uuid \<times> string" where
  "sup_key x = (supTeamID x, supEmail x)"

definition upsert_suppression :: "Suppression \<Rightarrow> Suppression list \<Rightarrow> Suppression list" where
  "upsert_suppression x rows =
     (let y = x\<lparr>supEmail := NormalizeEmail (supEmail x)\<rparr> in
      if by_key sup_key (sup_key y) rows = None then rows @ [y]
      else sql_update (\<lambda>r. sup_key r = sup_key y)
             (\<lambda>r. r\<lparr>supReason := merge_reason (supReason r) (supReason y)\<rparr>) rows)"

definition Suppression_Upsert :: "Suppression \<Rightarrow> db \<Rightarrow> db \<times> unit result" where
  "Suppression_Upsert x s = (s\<lparr>suppressions := upsert_suppression x (suppressions s)\<rparr>, Inr ())"

section \<open>Lookup\<close>

fun canonical_emails :: "string list \<Rightarrow> string list \<Rightarrow> string list" where
  "canonical_emails seen [] = []"
| "canonical_emails seen (a # as) =
     (let n = NormalizeEmail a in
      if n = [] then canonical_emails seen as
      else if n \<in> set seen then canonical_emails seen as
      else n # canonical_emails (n # seen) as)"

definition GetByEmails :: "uuid \<Rightarrow> string list \<Rightarrow> db \<Rightarrow> Suppression list" where
  "GetByEmails team as s =
     (let canonical = canonical_emails [] as in
      if canonical = [] then []
      else filter (\<lambda>x. supTeamID x = team \<and> supEmail x \<in> set canonical) (suppressions s))"

definition GetUnsubscribedByEmails :: "uuid \<Rightarrow> string list \<Rightarrow> db \<Rightarrow> string list" where
  "GetUnsubscribedByEmails team as s =
     (if as = [] then []
      else map ctEmail (filter (\<lambda>c. ctTeamID c = team \<and> \<not> ctSubscribed c \<and>
             ToLower (ctEmail c) \<in> set (map NormalizeEmail as)) (contacts s)))"

section \<open>Lemmas\<close>

lemma merge_reason_semilattice:
  "merge_reason a a = a" "merge_reason a b = merge_reason b a"
  "merge_reason (merge_reason a b) c = merge_reason a (merge_reason b c)"
  by (cases a; cases b; cases c; simp add: merge_reason_def)+

lemma merge_reason_absorb [simp]: "merge_reason (merge_reason a b) b = merge_reason a b"
  by (cases a; cases b; simp add: merge_reason_def)

definition reason_at :: "db \<Rightarrow> uuid \<Rightarrow> string \<Rightarrow> SuppressionReason option" where
  "reason_at s team a = map_option supReason (by_key sup_key (team, NormalizeEmail a) (suppressions s))"

lemma sup_key_reason [simp]: "sup_key (r\<lparr>supReason := x\<rparr>) = sup_key r"
  by (simp add: sup_key_def)

lemma upsert_keyed: "keyed sup_key rows \<Longrightarrow> keyed sup_key (upsert_suppression x rows)"
  by (simp add: upsert_suppression_def Let_def keyed_append_one keyed_sql_update)

lemma upsert_lookup:
  "by_key sup_key k (upsert_suppression x rows) =
     (if k = (supTeamID x, NormalizeEmail (supEmail x)) then
        Some (case by_key sup_key k rows of
                None \<Rightarrow> x\<lparr>supEmail := NormalizeEmail (supEmail x)\<rparr>
              | Some r \<Rightarrow> r\<lparr>supReason := merge_reason (supReason r) (supReason x)\<rparr>)
      else by_key sup_key k rows)"
proof (cases "by_key sup_key (supTeamID x, NormalizeEmail (supEmail x)) rows")
  case None
  then show ?thesis
    by (auto simp: upsert_suppression_def sup_key_def by_key_append split: option.splits)
next
  case (Some r)
  have "sup_key r' = k" if "by_key sup_key k rows = Some r'" for r'
    using that by_key_SomeD by metis
  with Some show ?thesis
    by (cases "by_key sup_key k rows")
      (auto simp: upsert_suppression_def sup_key_def by_key_sql_update)
qed

lemma set_canonical_emails:
  "set (canonical_emails seen as) = {n \<in> NormalizeEmail ` set as. n \<noteq> [] \<and> n \<notin> set seen}"
  by (induction seen as rule: canonical_emails.induct) (auto simp: Let_def)

lemma distinct_canonical_emails: "distinct (canonical_emails seen as)"
proof (induction seen as rule: canonical_emails.induct)
  case (2 seen a as)
  then show ?case by (simp add: Let_def set_canonical_emails)
qed simp

lemma GetByEmails_iff:
  "x \<in> set (GetByEmails team as s) \<longleftrightarrow>
     x \<in> set (suppressions s) \<and> supTeamID x = team \<and>
     supEmail x \<noteq> [] \<and> supEmail x \<in> NormalizeEmail ` set as"
  unfolding GetByEmails_def Let_def
  using set_canonical_emails [of "[]" as] by (auto simp: filter_empty_conv split: if_splits)

lemma reason_at_iff_listed:
  assumes "NormalizeEmail a \<noteq> []" and "a \<in> set as" and "reason_at s team a \<noteq> None"
  shows "GetByEmails team as s \<noteq> []"
proof -
  from assms(3) obtain r where "by_key sup_key (team, NormalizeEmail a) (suppressions s) = Some r"
    by (auto simp: reason_at_def)
  then have "r \<in> set (suppressions s)" "supTeamID r = team" "supEmail r = NormalizeEmail a"
    using by_key_SomeD by (fastforce simp: sup_key_def)+
  with assms(1,2) have "r \<in> set (GetByEmails team as s)"
    by (simp add: GetByEmails_iff)
  then show ?thesis by auto
qed

section \<open>The contract\<close>

text \<open>
  What a sender needs of a suppression store: recording an address makes the next check
  of any list containing it fail, recording never weakens or removes an entry, and
  entries of other addresses and teams stay as they are.
\<close>

locale suppression_list =
  fixes record_sup :: "Suppression \<Rightarrow> 's \<Rightarrow> 's"
    and reason_of :: "'s \<Rightarrow> uuid \<Rightarrow> string \<Rightarrow> SuppressionReason option"
    and blocked :: "uuid \<Rightarrow> string list \<Rightarrow> 's \<Rightarrow> bool"
  assumes record_same: "NormalizeEmail a = NormalizeEmail (supEmail x) \<Longrightarrow>
      reason_of (record_sup x s) (supTeamID x) a =
        Some (case reason_of s (supTeamID x) a of
                None \<Rightarrow> supReason x | Some r \<Rightarrow> merge_reason r (supReason x))"
    and record_other: "team \<noteq> supTeamID x \<or> NormalizeEmail a \<noteq> NormalizeEmail (supEmail x) \<Longrightarrow>
      reason_of (record_sup x s) team a = reason_of s team a"
    and blocked_if: "NormalizeEmail a \<noteq> [] \<Longrightarrow> a \<in> set as \<Longrightarrow> reason_of s team a \<noteq> None \<Longrightarrow>
      blocked team as s"
begin

lemma record_never_removes:
  "reason_of s team a \<noteq> None \<Longrightarrow> reason_of (record_sup x s) team a \<noteq> None"
  using record_same record_other by (metis option.distinct(1))

lemma record_all_never_removes:
  "reason_of s team a \<noteq> None \<Longrightarrow> reason_of (fold record_sup xs s) team a \<noteq> None"
  by (induction xs arbitrary: s) (use record_never_removes in auto)

lemma recorded_is_blocked:
  assumes "x \<in> set xs" and "NormalizeEmail a = NormalizeEmail (supEmail x)"
    and "NormalizeEmail a \<noteq> []" and "a \<in> set as"
  shows "blocked (supTeamID x) as (fold record_sup xs s)"
proof -
  have "reason_of (fold record_sup xs s) (supTeamID x) a \<noteq> None"
    using assms(1)
  proof (induction xs arbitrary: s)
    case (Cons y ys)
    show ?case
    proof (cases "x = y")
      case True
      then have "reason_of (record_sup y s) (supTeamID x) a \<noteq> None"
        using record_same assms(2) by (metis option.distinct(1))
      then show ?thesis by (simp add: record_all_never_removes)
    next
      case False
      with Cons show ?thesis by simp
    qed
  qed simp
  with assms(3,4) show ?thesis by (rule blocked_if)
qed

lemma record_order_irrelevant:
  "reason_of (record_sup x (record_sup y s)) team a = reason_of (record_sup y (record_sup x s)) team a"
proof (cases "team = supTeamID x \<and> NormalizeEmail a = NormalizeEmail (supEmail x)")
  case x: True
  show ?thesis
  proof (cases "team = supTeamID y \<and> NormalizeEmail a = NormalizeEmail (supEmail y)")
    case True
    with x show ?thesis
      using record_same [of a x] record_same [of a y]
      by (auto split: option.splits) (metis merge_reason_semilattice(2,3))+
  next
    case False
    with x show ?thesis using record_same [of a x] record_other [of team y a] by auto
  qed
next
  case False
  then show ?thesis
    using record_other [of team x a]
      record_same [of a y] record_other [of team y a]
    by (cases "team = supTeamID y \<and> NormalizeEmail a = NormalizeEmail (supEmail y)") auto
qed

end

interpretation sl: suppression_list
  "\<lambda>x s. fst (Suppression_Upsert x s)" reason_at "\<lambda>team as s. GetByEmails team as s \<noteq> []"
proof unfold_locales
  fix a and x :: Suppression and s :: db
  assume "NormalizeEmail a = NormalizeEmail (supEmail x)"
  then show "reason_at (fst (Suppression_Upsert x s)) (supTeamID x) a =
      Some (case reason_at s (supTeamID x) a of
              None \<Rightarrow> supReason x | Some r \<Rightarrow> merge_reason r (supReason x))"
    by (auto simp: reason_at_def Suppression_Upsert_def upsert_lookup split: option.splits)
next
  fix team a and x :: Suppression and s :: db
  assume "team \<noteq> supTeamID x \<or> NormalizeEmail a \<noteq> NormalizeEmail (supEmail x)"
  then show "reason_at (fst (Suppression_Upsert x s)) team a = reason_at s team a"
    by (auto simp: reason_at_def Suppression_Upsert_def upsert_lookup)
next
  fix a as and s :: db and team
  assume "NormalizeEmail a \<noteq> []" "a \<in> set as" "reason_at s team a \<noteq> None"
  then show "GetByEmails team as s \<noteq> []" by (rule reason_at_iff_listed)
qed

section \<open>Properties\<close>

text \<open>Once an address has been recorded, by whatever spelling, every later check of a
  recipient list that contains a spelling of it finds a suppression, whatever else is
  recorded before or after.\<close>

theorem suppressed_address_blocked:
  assumes "x \<in> set xs"
    and "NormalizeEmail a = NormalizeEmail (supEmail x)" and "NormalizeEmail a \<noteq> []"
    and "a \<in> set recipients"
  shows "GetByEmails (supTeamID x) recipients (fold (\<lambda>x s. fst (Suppression_Upsert x s)) xs s) \<noteq> []"
  using assms by (rule sl.recorded_is_blocked)

theorem suppressed_address_blocked_witness:
  "GetByEmails 7 ['' Bob@X.org'']
     (fold (\<lambda>x s. fst (Suppression_Upsert x s))
       [\<lparr>supID = 1, supTeamID = 7, supEmail = ''bob@x.org'', supReason = SuppressionReasonBounce\<rparr>]
       empty_db) \<noteq> []"
proof -
  let ?x = "\<lparr>supID = 1, supTeamID = 7, supEmail = ''bob@x.org'', supReason = SuppressionReasonBounce\<rparr>"
  have "NormalizeEmail '' Bob@X.org'' = ''bob@x.org''" "NormalizeEmail ''bob@x.org'' = ''bob@x.org''"
    by code_simp+
  then show ?thesis
    using suppressed_address_blocked [of ?x "[?x]" "'' Bob@X.org''" "['' Bob@X.org'']" empty_db]
    by simp
qed

text \<open>The upsert is a join: recording twice is recording once, the order of two records
  does not matter, and the stored reason is the stronger of the old and the new one.\<close>

theorem suppression_upsert_join:
  "reason_at (fst (Suppression_Upsert x (fst (Suppression_Upsert x s)))) team a =
     reason_at (fst (Suppression_Upsert x s)) team a \<and>
   reason_at (fst (Suppression_Upsert x (fst (Suppression_Upsert y s)))) team a =
     reason_at (fst (Suppression_Upsert y (fst (Suppression_Upsert x s)))) team a \<and>
   reason_at (fst (Suppression_Upsert x s)) (supTeamID x) (supEmail x) =
     Some (case reason_at s (supTeamID x) (supEmail x) of
             None \<Rightarrow> supReason x | Some r \<Rightarrow> merge_reason r (supReason x))"
proof (intro conjI)
  show "reason_at (fst (Suppression_Upsert x (fst (Suppression_Upsert x s)))) team a =
     reason_at (fst (Suppression_Upsert x s)) team a"
    by (cases "team = supTeamID x \<and> NormalizeEmail a = NormalizeEmail (supEmail x)")
      (auto simp: sl.record_same sl.record_other merge_reason_semilattice(1) split: option.splits)
qed (rule sl.record_order_irrelevant, rule sl.record_same, rule refl)

end
