(* ===== verification/DeliveryPipeline.thy ===== *)
theory DeliveryPipeline
  imports EmailRepo Suppressions
begin

text \<open>
  \<open>internal/repository/delivery_pipeline_repo.go\<close>: the transactions that settle a send
  attempt, the inbox of provider callbacks and the webhook outbox. Every method is one
  transaction, so an error rolls every statement back: the models return the old state
  in every error branch. The three finalizers are further instances of the contract
  \<open>fenced_statement\<close>, and each commits its outbox item together with the new status.
\<close>

section \<open>Events and outbox items of a transaction\<close>

definition insertEmailEvent :: "EmailEvent option \<Rightarrow> db \<Rightarrow> db result" where
  "insertEmailEvent event s =
     (case event of
        None \<Rightarrow> Inr s
      | Some ev \<Rightarrow>
          (let row = ev\<lparr>evData := (if evData ev = [] then ''{}'' else evData ev)\<rparr> in
           if by_key evID (evID row) (email_events s) \<noteq> None then Inr s
           else if email_at s (evEmailID row) = None then Inl ForeignKeyViolation
           else Inr (s\<lparr>email_events := email_events s @ [row]\<rparr>)))"

definition outbox_row_of :: "instant \<Rightarrow> WebhookOutboxEvent \<Rightarrow> outbox_row" where
  "outbox_row_of now ob = \<lparr>
     oxID = obID ob, oxTeamID = obTeamID ob, oxEventID = obEventID ob, oxEvent = obEvent ob,
     oxPayload = Some (if obPayload ob = [] then ''{}'' else obPayload ob),
     oxRetentionClass = obRetentionClass ob, oxStatus = OutboxPending, oxAttempts = 0,
     oxNextAttemptAt = now, oxLeaseUntil = None, oxLastError = None, oxCreatedAt = now,
     oxDispatchedAt = None\<rparr>"

definition insertOutbox :: "instant \<Rightarrow> WebhookOutboxEvent option \<Rightarrow> db \<Rightarrow> db result" where
  "insertOutbox now outbox s =
     (case outbox of
        None \<Rightarrow> Inr s
      | Some ob \<Rightarrow>
          if by_key oxEventID (obEventID ob) (webhook_outbox s) \<noteq> None then Inr s
          else if by_key oxID (obID ob) (webhook_outbox s) \<noteq> None then Inl UniqueViolation
          else Inr (s\<lparr>webhook_outbox := webhook_outbox s @ [outbox_row_of now ob]\<rparr>))"

definition record_work :: "instant \<Rightarrow> EmailEvent option \<Rightarrow> WebhookOutboxEvent option \<Rightarrow> db \<Rightarrow> db result" where
  "record_work now event outbox s =
     (case insertEmailEvent event s of
        Inl e \<Rightarrow> Inl e
      | Inr s1 \<Rightarrow> insertOutbox now outbox s1)"

section \<open>Settling a send attempt\<close>

definition FinalizeAccepted_where :: "string \<Rightarrow> instant \<Rightarrow> SendAttemptClaim \<Rightarrow> Email \<Rightarrow> bool" where [row_defs]:
  "FinalizeAccepted_where m now c e \<longleftrightarrow> claim_matches c e \<and>
     ((eStatus e = EmailStatusSending \<and> eSendAttemptState e = SendAttemptStarted \<and>
       sql_ge (eSendLeaseUntil e) now) \<or>
      (eSendAttemptState e = SendAttemptAccepted \<and> eProviderMessageID e = Some m))"

definition FinalizeAccepted_set :: "string \<Rightarrow> instant \<Rightarrow> SendAttemptClaim \<Rightarrow> Email \<Rightarrow> Email" where [row_defs]:
  "FinalizeAccepted_set m now c e = e\<lparr>
     eProviderMessageID := Some m,
     eStatus := (if eStatus e = EmailStatusSending then EmailStatusSent else eStatus e),
     eSendAttemptState := SendAttemptAccepted, eSendLeaseUntil := None,
     eQueueRecoveryPending := False, eSendingAt := None, eAmbiguousAt := None,
     eSentAt := coalesce (eSentAt e) now\<rparr>"

definition wake_inbox :: "instant \<Rightarrow> SendAttemptClaim \<Rightarrow> string \<Rightarrow> ProviderEventInbox list \<Rightarrow> ProviderEventInbox list" where
  "wake_inbox now c m =
     sql_update
       (\<lambda>i. ibStatus i \<in> {InboxPending, InboxProcessing} \<and>
          (ibEmailID i = Some (claimEmailID c) \<or> ibSendAttemptID i = Some (claimAttemptID c) \<or>
           ibProviderMessageID i = m))
       (\<lambda>i. let held = (ibStatus i = InboxProcessing \<and> sql_ge (ibLeaseUntil i) now) in
          i\<lparr>ibStatus := (if held then ibStatus i else InboxPending), ibNextAttemptAt := now,
            ibLeaseUntil := (if held then ibLeaseUntil i else None)\<rparr>)"

definition FinalizeAccepted ::
  "instant \<Rightarrow> SendAttemptClaim \<Rightarrow> string \<Rightarrow> EmailEvent option \<Rightarrow> WebhookOutboxEvent option \<Rightarrow>
   db \<Rightarrow> db \<times> bool result" where
  "FinalizeAccepted now c m event outbox s =
     (if rows_affected (FinalizeAccepted_where m now c) (emails s) \<noteq> 0 \<and>
         provider_id_taken (claimEmailID c) m (emails s)
      then (s, Inl UniqueViolation)
      else case exec_one (FinalizeAccepted_where m now c) (FinalizeAccepted_set m now c) s of
             (s1, Inl e) \<Rightarrow> (s, Inl e)
           | (s1, Inr False) \<Rightarrow> (s, Inr False)
           | (s1, Inr True) \<Rightarrow>
               (case record_work now event outbox s1 of
                  Inl e \<Rightarrow> (s, Inl e)
                | Inr s2 \<Rightarrow>
                    (s2\<lparr>provider_event_inbox := wake_inbox now c m (provider_event_inbox s2)\<rparr>,
                     Inr True)))"

definition FinalizeFailed_where :: "instant \<Rightarrow> SendAttemptClaim \<Rightarrow> Email \<Rightarrow> bool" where [row_defs]:
  "FinalizeFailed_where now c e \<longleftrightarrow> claim_matches c e \<and> eStatus e = EmailStatusSending \<and>
     eSendAttemptState e \<in> {SendAttemptLeased, SendAttemptStarted}"

definition FinalizeFailed_set :: "instant \<Rightarrow> SendAttemptClaim \<Rightarrow> Email \<Rightarrow> Email" where [row_defs]:
  "FinalizeFailed_set now c e = e\<lparr>
     eStatus := EmailStatusFailed, eSendAttemptState := SendAttemptFailedTerminal,
     eSendFenceToken := None, eSendLeaseUntil := None, eQueueRecoveryPending := False,
     eSendingAt := None, eAmbiguousAt := None\<rparr>"

definition settle ::
  "(Email \<Rightarrow> bool) \<Rightarrow> (Email \<Rightarrow> Email) \<Rightarrow> instant \<Rightarrow> EmailEvent option \<Rightarrow> WebhookOutboxEvent option \<Rightarrow>
   db \<Rightarrow> db \<times> bool result" where
  "settle p f now event outbox s =
     (case exec_one p f s of
        (s1, Inl e) \<Rightarrow> (s, Inl e)
      | (s1, Inr False) \<Rightarrow> (s, Inr False)
      | (s1, Inr True) \<Rightarrow>
          (case record_work now event outbox s1 of
             Inl e \<Rightarrow> (s, Inl e)
           | Inr s2 \<Rightarrow> (s2, Inr True)))"

definition FinalizeFailed ::
  "instant \<Rightarrow> SendAttemptClaim \<Rightarrow> EmailEvent option \<Rightarrow> WebhookOutboxEvent option \<Rightarrow>
   db \<Rightarrow> db \<times> bool result" where
  "FinalizeFailed now c = settle (FinalizeFailed_where now c) (FinalizeFailed_set now c) now"

definition FinalizeAmbiguous ::
  "instant \<Rightarrow> SendAttemptClaim \<Rightarrow> EmailEvent option \<Rightarrow> WebhookOutboxEvent option \<Rightarrow>
   db \<Rightarrow> db \<times> bool result" where
  "FinalizeAmbiguous now c = settle (MarkSendAmbiguous_where now c) (MarkSendAmbiguous_set now c) now"

section \<open>Reconciling an ambiguous attempt\<close>

definition btrim :: "string \<Rightarrow> string" where
  "btrim s = (let sp = (\<lambda>c. c = CHR '' '') in rev (dropWhile sp (rev (dropWhile sp s))))"

definition confirmation :: "string \<Rightarrow> bool" where
  "confirmation event_type \<longleftrightarrow>
     ToLower (ReplaceByte (CHR '' '') (CHR ''_'') (btrim event_type)) \<in> {''send'', ''delivery''}"

definition confirms :: "uuid \<Rightarrow> uuid option \<Rightarrow> ProviderEventInbox \<Rightarrow> bool" where
  "confirms i attempt r \<longleftrightarrow> ibStatus r \<noteq> InboxIgnored \<and> confirmation (ibEventType r) \<and>
     (ibEmailID r = Some i \<or> (attempt \<noteq> None \<and> ibSendAttemptID r = attempt))"

text \<open>\<open>COUNT(DISTINCT provider_message_id) = 1\<close>: then \<open>MIN\<close> is the one value there is.\<close>

definition sole_candidate :: "uuid \<Rightarrow> uuid option \<Rightarrow> db \<Rightarrow> string option" where
  "sole_candidate i attempt s =
     (case remdups (map ibProviderMessageID (filter (confirms i attempt) (provider_event_inbox s))) of
        [m] \<Rightarrow> Some m
      | _ \<Rightarrow> None)"

definition chosen_provider_id :: "string \<Rightarrow> Email \<Rightarrow> db \<Rightarrow> string" where
  "chosen_provider_id given e s =
     (let a = TrimSpace given;
          b = (if a = [] then (case eProviderMessageID e of Some m \<Rightarrow> TrimSpace m | None \<Rightarrow> []) else a)
      in if b = [] then (case sole_candidate (eID e) (eSendAttemptID e) s of
                           Some m \<Rightarrow> TrimSpace m | None \<Rightarrow> [])
         else b)"

definition Reconcile_accept :: "instant \<Rightarrow> string \<Rightarrow> Email \<Rightarrow> Email" where [row_defs]:
  "Reconcile_accept now m e = e\<lparr>
     eProviderMessageID := Some m, eStatus := EmailStatusSent,
     eSendAttemptState := SendAttemptAccepted, eSendFenceToken := None, eSendLeaseUntil := None,
     eQueueRecoveryPending := False, eSendingAt := None, eAmbiguousAt := None,
     eSentAt := coalesce (eSentAt e) now\<rparr>"

definition Reconcile_fail :: "Email \<Rightarrow> Email" where [row_defs]:
  "Reconcile_fail e = e\<lparr>
     eStatus := EmailStatusFailed, eSendAttemptState := SendAttemptFailedTerminal,
     eSendFenceToken := None, eSendLeaseUntil := None, eQueueRecoveryPending := False,
     eSendingAt := None, eAmbiguousAt := None\<rparr>"

definition ReconcileAmbiguous ::
  "instant \<Rightarrow> uuid \<Rightarrow> uuid \<Rightarrow> string \<Rightarrow> string \<Rightarrow> EmailEvent option \<Rightarrow> WebhookOutboxEvent option \<Rightarrow>
   db \<Rightarrow> db \<times> bool result" where
  "ReconcileAmbiguous now team i action given event outbox s =
     (let act = ToLower (TrimSpace action);
          finish = (\<lambda>s1. case record_work now event outbox s1 of
                           Inl e \<Rightarrow> (s, Inl e) | Inr s2 \<Rightarrow> (s2, Inr True))
      in if act \<noteq> ''accepted'' \<and> act \<noteq> ''failed'' then (s, Inl ErrBadArgument)
      else case find (\<lambda>e. eID e = i \<and> eTeamID e = team \<and> eStatus e = EmailStatusAmbiguous \<and>
                        eSendAttemptState e = SendAttemptAmbiguous) (emails s) of
             None \<Rightarrow> (s, Inr False)
           | Some e \<Rightarrow>
               if act = ''accepted'' then
                 (let m = chosen_provider_id given e s in
                  if m = [] then (s, Inl ErrDeliveryConfirmationUnavailable)
                  else if \<not> (\<exists>r \<in> set (provider_event_inbox s).
                             ibProviderMessageID r = m \<and> confirms i (eSendAttemptID e) r)
                  then (s, Inl ErrDeliveryConfirmationUnavailable)
                  else if provider_id_taken i m (emails s) then (s, Inl UniqueViolation)
                  else finish (s\<lparr>emails := sql_update (\<lambda>e. eID e = i) (Reconcile_accept now m) (emails s)\<rparr>))
               else finish (s\<lparr>emails := sql_update (\<lambda>e. eID e = i) Reconcile_fail (emails s)\<rparr>))"

section \<open>The inbox of provider callbacks\<close>

definition StoreProviderEvent :: "instant \<Rightarrow> ProviderEventInbox \<Rightarrow> db \<Rightarrow> db \<times> unit result" where
  "StoreProviderEvent now ev s =
     (if by_key ibEventID (ibEventID ev) (provider_event_inbox s) \<noteq> None then (s, Inr ())
      else if (case ibEmailID ev of None \<Rightarrow> False | Some i \<Rightarrow> email_at s i = None)
      then (s, Inl ForeignKeyViolation)
      else (s\<lparr>provider_event_inbox := provider_event_inbox s @
              [ev\<lparr>ibStatus := InboxPending, ibAttempts := 0, ibNextAttemptAt := now,
                  ibLeaseUntil := None, ibLastError := None, ibCreatedAt := now,
                  ibProcessedAt := None\<rparr>]\<rparr>, Inr ()))"

text \<open>\<open>ORDER BY \<dots> LIMIT 1\<close>: the first row with the least key.\<close>

fun first_min :: "('r \<Rightarrow> 'k::linorder) \<Rightarrow> 'r list \<Rightarrow> 'r option" where
  "first_min key [] = None"
| "first_min key (r # rows) =
     (case first_min key rows of
        None \<Rightarrow> Some r
      | Some q \<Rightarrow> Some (if key q < key r then q else r))"

definition inbox_due :: "instant \<Rightarrow> uuid option \<Rightarrow> ProviderEventInbox \<Rightarrow> bool" where
  "inbox_due now wanted i \<longleftrightarrow> ibStatus i = InboxPending \<and> ibNextAttemptAt i \<le> now \<and>
     ibPayload i \<noteq> None \<and> (case wanted of None \<Rightarrow> True | Some k \<Rightarrow> ibEventID i = k)"

definition ClaimProviderEvent ::
  "instant \<Rightarrow> uuid option \<Rightarrow> db \<Rightarrow> db \<times> ProviderEventInbox result" where
  "ClaimProviderEvent now wanted s =
     (case first_min ibCreatedAt (filter (inbox_due now wanted) (provider_event_inbox s)) of
        None \<Rightarrow> (s, Inl ErrNoRows)
      | Some i \<Rightarrow>
          (let f = (\<lambda>r. r\<lparr>ibStatus := InboxProcessing, ibAttempts := ibAttempts r + 1,
                         ibLeaseUntil := Some (now + minute)\<rparr>)
           in (s\<lparr>provider_event_inbox :=
                  sql_update (\<lambda>r. ibEventID r = ibEventID i) f (provider_event_inbox s)\<rparr>,
               Inr (f i))))"

definition RetryProviderEvent ::
  "instant \<Rightarrow> uuid \<Rightarrow> string \<Rightarrow> instant \<Rightarrow> bool \<Rightarrow> db \<Rightarrow> db \<times> unit result" where
  "RetryProviderEvent now k reason retryAt terminal s =
     (s\<lparr>provider_event_inbox :=
        sql_update (\<lambda>r. ibEventID r = k \<and> ibStatus r = InboxProcessing)
          (\<lambda>r. r\<lparr>ibStatus := (if terminal then InboxIgnored else InboxPending),
                 ibNextAttemptAt := retryAt, ibLeaseUntil := None, ibLastError := Some reason,
                 ibProcessedAt := (if terminal then Some now else None)\<rparr>)
          (provider_event_inbox s)\<rparr>, Inr ())"

definition ApplyProvider_set :: "instant \<Rightarrow> string \<Rightarrow> EmailStatus option \<Rightarrow> Email \<Rightarrow> Email" where [row_defs]:
  "ApplyProvider_set now m target e =
     (let app = ShouldApplyProviderStatus (eStatus e) target;
          set = app \<and> target \<noteq> None
      in e\<lparr>eProviderMessageID := coalesce (eProviderMessageID e) m,
          eStatus := (if app then the target else eStatus e),
          eSendAttemptState :=
            (if app \<and> target = Some EmailStatusFailed then SendAttemptFailedTerminal
             else if set then SendAttemptAccepted else eSendAttemptState e),
          eSendLeaseUntil := (if set then None else eSendLeaseUntil e),
          eSendFenceToken := (if set then None else eSendFenceToken e),
          eQueueRecoveryPending := (if set then False else eQueueRecoveryPending e),
          eSendingAt := (if set then None else eSendingAt e),
          eAmbiguousAt := (if set then None else eAmbiguousAt e),
          eSentAt := (if set \<and> target \<noteq> Some EmailStatusFailed then coalesce (eSentAt e) now
                      else eSentAt e)\<rparr>)"

definition mark_processed :: "instant \<Rightarrow> uuid \<Rightarrow> uuid \<Rightarrow> ProviderEventInbox list \<Rightarrow> ProviderEventInbox list" where
  "mark_processed now k i =
     sql_update (\<lambda>r. ibEventID r = k \<and> ibStatus r = InboxProcessing)
       (\<lambda>r. r\<lparr>ibStatus := InboxProcessed, ibEmailID := Some i, ibLeaseUntil := None,
              ibLastError := None, ibProcessedAt := Some now\<rparr>)"

definition ApplyProviderEvent ::
  "instant \<Rightarrow> uuid \<Rightarrow> uuid \<Rightarrow> string \<Rightarrow> EmailStatus option \<Rightarrow> EmailEvent option \<Rightarrow>
   WebhookOutboxEvent option \<Rightarrow> Suppression list \<Rightarrow> db \<Rightarrow> db \<times> unit result" where
  "ApplyProviderEvent now inbox i m target event outbox sups s =
     (case email_at s i of
        None \<Rightarrow> (s, Inl ErrNoRows)
      | Some e \<Rightarrow>
          if eProviderMessageID e \<noteq> None \<and> eProviderMessageID e \<noteq> Some m
          then (s, Inl ErrProviderCorrelationMismatch)
          else if eProviderMessageID e = None \<and> provider_id_taken i m (emails s)
          then (s, Inl UniqueViolation)
          else
            (let s1 = s\<lparr>emails := sql_update (\<lambda>e. eID e = i) (ApplyProvider_set now m target) (emails s),
                       suppressions := fold upsert_suppression sups (suppressions s)\<rparr>
             in case record_work now event outbox s1 of
                  Inl er \<Rightarrow> (s, Inl er)
                | Inr s2 \<Rightarrow>
                    (s2\<lparr>provider_event_inbox := mark_processed now inbox i (provider_event_inbox s2)\<rparr>,
                     Inr ())))"

section \<open>The webhook outbox\<close>

text \<open>\<open>uuid.NewSHA1\<close>, which names a delivery after its event and endpoint, is the argument
  \<open>newSHA1\<close>; the table's own key is the pair of endpoint and event.\<close>

definition outbox_due :: "instant \<Rightarrow> outbox_row \<Rightarrow> bool" where
  "outbox_due now o' \<longleftrightarrow> oxStatus o' = OutboxPending \<and> oxNextAttemptAt o' \<le> now \<and> oxPayload o' \<noteq> None"

fun outbox_first :: "outbox_row list \<Rightarrow> outbox_row option" where
  "outbox_first [] = None"
| "outbox_first (r # rows) =
     (case outbox_first rows of
        None \<Rightarrow> Some r
      | Some q \<Rightarrow> Some (if oxNextAttemptAt q < oxNextAttemptAt r \<or>
                          (oxNextAttemptAt q = oxNextAttemptAt r \<and> oxCreatedAt q < oxCreatedAt r)
                       then q else r))"

definition subscribed :: "outbox_row \<Rightarrow> Webhook \<Rightarrow> bool" where
  "subscribed item w \<longleftrightarrow> whTeamID w = oxTeamID item \<and> whActive w \<and> oxEvent item \<in> set (whEvents w)"

definition DispatchNextOutbox ::
  "(uuid \<Rightarrow> uuid \<Rightarrow> uuid) \<Rightarrow> instant \<Rightarrow> db \<Rightarrow> db \<times> bool result" where
  "DispatchNextOutbox newSHA1 now s =
     (case outbox_first (filter (outbox_due now) (webhook_outbox s)) of
        None \<Rightarrow> (s, Inr False)
      | Some item \<Rightarrow>
          (let processing = sql_update (\<lambda>r. oxID r = oxID item)
                 (\<lambda>r. r\<lparr>oxStatus := OutboxProcessing, oxAttempts := oxAttempts r + 1,
                        oxLeaseUntil := Some (now + minute)\<rparr>) (webhook_outbox s);
               hooks = map whID (filter (subscribed item) (webhooks s));
               deliveries = fold (\<lambda>w. insert_delivery
                 (pending_delivery now (newSHA1 (oxEventID item) w) w (oxEventID item) (oxEvent item)
                   (oxPayload item) (oxRetentionClass item))) hooks (webhook_deliveries s);
               dispatched = sql_update (\<lambda>r. oxID r = oxID item \<and> oxStatus r = OutboxProcessing)
                 (\<lambda>r. r\<lparr>oxStatus := OutboxDispatched, oxLeaseUntil := None,
                        oxDispatchedAt := Some now, oxLastError := None\<rparr>) processing
           in (s\<lparr>webhook_outbox := dispatched, webhook_deliveries := deliveries\<rparr>, Inr True)))"

text \<open>Two statements, each on its own: the second may fail after the first took effect.\<close>

definition recover_inbox_leases :: "instant \<Rightarrow> db \<Rightarrow> db" where
  "recover_inbox_leases now s =
     s\<lparr>provider_event_inbox :=
          sql_update (\<lambda>r. ibStatus r = InboxProcessing \<and> sql_lt (ibLeaseUntil r) now)
            (\<lambda>r. r\<lparr>ibStatus := InboxPending, ibLeaseUntil := None\<rparr>) (provider_event_inbox s)\<rparr>"

definition recover_outbox_leases :: "instant \<Rightarrow> db \<Rightarrow> db" where
  "recover_outbox_leases now s =
     s\<lparr>webhook_outbox :=
          sql_update (\<lambda>r. oxStatus r = OutboxProcessing \<and> sql_lt (oxLeaseUntil r) now)
            (\<lambda>r. r\<lparr>oxStatus := OutboxPending, oxLeaseUntil := None\<rparr>) (webhook_outbox s)\<rparr>"

definition RecoverStalePipelineWork :: "fault \<Rightarrow> instant \<Rightarrow> db \<Rightarrow> db \<times> unit result" where
  "RecoverStalePipelineWork x now s =
     run_call x (\<lambda>s1. (recover_outbox_leases now s1, Inr ())) (recover_inbox_leases now s)"

lemma recover_pipeline_frame:
  "provider_event_inbox (fst (RecoverStalePipelineWork x now s)) = provider_event_inbox (recover_inbox_leases now s)"
  "emails (fst (RecoverStalePipelineWork x now s)) = emails s"
  by (cases x; simp add: RecoverStalePipelineWork_def run_call_def recover_inbox_leases_def recover_outbox_leases_def)+

section \<open>Inbound mail\<close>

definition inbound_conflict :: "InboundEmail \<Rightarrow> InboundEmail list \<Rightarrow> bool" where
  "inbound_conflict m rows \<longleftrightarrow> (\<exists>r \<in> set rows. inID r = inID m \<or>
     (inMessageID m \<noteq> None \<and> inTeamID r = inTeamID m \<and> inMessageID r = inMessageID m))"

definition CreateInboundWithOutbox ::
  "instant \<Rightarrow> InboundEmail \<Rightarrow> WebhookOutboxEvent option \<Rightarrow> db \<Rightarrow> db \<times> unit result" where
  "CreateInboundWithOutbox now m outbox s =
     (let row = m\<lparr>inAttachments := (if inAttachments m = [] then ''[]'' else inAttachments m),
                  inHeaders := (if inHeaders m = [] then ''{}'' else inHeaders m),
                  inCreatedAt := now\<rparr>
      in if inbound_conflict row (inbound_emails s) then (s, Inl UniqueViolation)
      else case insertOutbox now outbox (s\<lparr>inbound_emails := inbound_emails s @ [row]\<rparr>) of
             Inl e \<Rightarrow> (s, Inl e)
           | Inr s1 \<Rightarrow> (s1, Inr ()))"

section \<open>What a transaction records\<close>

lemma insertEmailEvent_frame:
  "insertEmailEvent ev s = Inr s' \<Longrightarrow>
   emails s' = emails s \<and> provider_event_inbox s' = provider_event_inbox s \<and>
   webhook_outbox s' = webhook_outbox s \<and> suppressions s' = suppressions s"
  by (auto simp: insertEmailEvent_def Let_def split: option.splits if_splits)

lemma insertOutbox_frame:
  "insertOutbox now ob s = Inr s' \<Longrightarrow>
   emails s' = emails s \<and> provider_event_inbox s' = provider_event_inbox s \<and>
   email_events s' = email_events s \<and> suppressions s' = suppressions s"
  by (auto simp: insertOutbox_def split: option.splits if_splits)

lemma record_work_frame:
  "record_work now ev ob s = Inr s' \<Longrightarrow>
   emails s' = emails s \<and> provider_event_inbox s' = provider_event_inbox s \<and>
   suppressions s' = suppressions s"
  by (auto simp: record_work_def insertEmailEvent_frame insertOutbox_frame split: sum.splits)

lemma record_work_email_at:
  "record_work now ev ob s = Inr s' \<Longrightarrow> email_at s' i = email_at s i"
  by (simp add: email_at_def record_work_frame)

text \<open>Work is recorded when the log has the event and the outbox an item for it.\<close>

definition recorded :: "EmailEvent option \<Rightarrow> WebhookOutboxEvent option \<Rightarrow> db \<Rightarrow> bool" where
  "recorded ev ob s \<longleftrightarrow>
     (case ev of None \<Rightarrow> True | Some e \<Rightarrow> evID e \<in> evID ` set (email_events s)) \<and>
     (case ob of None \<Rightarrow> True | Some w \<Rightarrow> obEventID w \<in> oxEventID ` set (webhook_outbox s))"

lemma insertEmailEvent_recorded: "insertEmailEvent ev s = Inr s' \<Longrightarrow> recorded ev None s'"
  by (auto simp: insertEmailEvent_def recorded_def Let_def by_key_None_iff
      split: option.splits if_splits)

lemma insertOutbox_recorded: "insertOutbox now ob s = Inr s' \<Longrightarrow> recorded None ob s'"
  by (auto simp: insertOutbox_def recorded_def outbox_row_of_def by_key_None_iff
      split: option.splits if_splits)

lemma recorded_inbox [simp]:
  "recorded ev ob (s\<lparr>provider_event_inbox := x\<rparr>) = recorded ev ob s"
  by (simp add: recorded_def split: option.split)

lemma recorded_iff: "recorded ev ob s \<longleftrightarrow> recorded ev None s \<and> recorded None ob s"
  by (simp add: recorded_def)

lemma recorded_event_cong: "email_events s' = email_events s \<Longrightarrow> recorded ev None s' = recorded ev None s"
  by (simp add: recorded_def split: option.split)

lemma record_work_recorded:
  assumes "record_work now ev ob s = Inr s'"
  shows "recorded ev ob s'"
proof -
  from assms obtain s1 where s1: "insertEmailEvent ev s = Inr s1" "insertOutbox now ob s1 = Inr s'"
    by (auto simp: record_work_def split: sum.splits)
  then have "recorded ev None s'"
    using insertEmailEvent_recorded [OF s1(1)] insertOutbox_frame [OF s1(2)]
    by (metis recorded_event_cong)
  with insertOutbox_recorded [OF s1(2)] show ?thesis by (simp add: recorded_iff [of ev ob])
qed

text \<open>It can only fail on an unknown message or a colliding outbox identifier.\<close>

lemma record_work_total:
  assumes "\<And>e. ev = Some e \<Longrightarrow> email_at s (evEmailID e) \<noteq> None"
    and "\<And>w. ob = Some w \<Longrightarrow> obID w \<notin> oxID ` set (webhook_outbox s)"
  shows "\<exists>s'. record_work now ev ob s = Inr s'"
proof -
  obtain s1 where s1: "insertEmailEvent ev s = Inr s1"
    using assms(1) by (cases "insertEmailEvent ev s")
      (auto simp: insertEmailEvent_def Let_def split: option.splits if_splits)
  then have "webhook_outbox s1 = webhook_outbox s" by (simp add: insertEmailEvent_frame)
  then have "\<exists>s2. insertOutbox now ob s1 = Inr s2"
    using assms(2) by (cases ob) (auto simp: insertOutbox_def by_key_None_iff)
  with s1 show ?thesis by (simp add: record_work_def)
qed

lemma record_work_keys: "record_work now ev ob s = Inr s' \<Longrightarrow> db_keys s \<Longrightarrow> db_keys s'"
  by (auto simp: record_work_def insertEmailEvent_def insertOutbox_def Let_def db_keys_def
      outbox_row_of_def keyed_append_one split: option.splits if_splits sum.splits)

section \<open>The finalizers are fenced\<close>

interpretation accepted: fenced_statement "FinalizeAccepted_where m" "FinalizeAccepted_set m" for m
  by unfold_locales (auto simp: row_defs)

interpretation failed: fenced_statement FinalizeFailed_where FinalizeFailed_set
  by unfold_locales (auto simp: row_defs)

lemma settle_False: "exec_one p f s = (s, Inr False) \<Longrightarrow> settle p f now ev ob s = (s, Inr False)"
  by (simp add: settle_def)

lemma settle_cases:
  assumes "settle p f now ev ob s = (s', r)"
  obtains (unchanged) "s' = s" "r \<noteq> Inr True"
  | (settled) s1 where "exec_one p f s = (s1, Inr True)" "record_work now ev ob s1 = Inr s'" "r = Inr True"
  using assms by (auto simp: settle_def split: prod.splits sum.splits bool.splits)

lemma FinalizeAccepted_cases:
  assumes "FinalizeAccepted now c m ev ob s = (s', r)"
  obtains (unchanged) "s' = s" "r \<noteq> Inr True"
  | (settled) s1 s2 where
      "exec_one (FinalizeAccepted_where m now c) (FinalizeAccepted_set m now c) s = (s1, Inr True)"
      "record_work now ev ob s1 = Inr s2"
      "s' = s2\<lparr>provider_event_inbox := wake_inbox now c m (provider_event_inbox s2)\<rparr>"
      "r = Inr True"
  using assms
  by (auto simp: FinalizeAccepted_def split: prod.splits sum.splits bool.splits if_splits)

context fenced_statement
begin

text \<open>The claimed row and every other row after a fenced update that was answered yes,
  whatever the rest of the transaction records.\<close>

lemma settled_rows:
  assumes "keyed eID (emails s)"
    and "exec_one (guard now c) (assign now c) s = (s1, Inr True)"
    and "record_work now ev ob s1 = Inr s2"
  shows "\<exists>e. email_at s (claimEmailID c) = Some e \<and> guard now c e \<and>
           email_at s2 (claimEmailID c) = Some (assign now c e)"
    and "j \<noteq> claimEmailID c \<Longrightarrow> email_at s2 j = email_at s j"
proof -
  show "\<exists>e. email_at s (claimEmailID c) = Some e \<and> guard now c e \<and>
           email_at s2 (claimEmailID c) = Some (assign now c e)"
    using winner_row [OF assms(1,2)] record_work_email_at [OF assms(3)] by metis
  show "email_at s2 j = email_at s j" if "j \<noteq> claimEmailID c"
    using other_rows_kept [OF that, of now s] record_work_email_at [OF assms(3)] assms(2) by simp
qed

end

section \<open>Properties\<close>

text \<open>A worker whose claim no longer matches the row (it was recovered, reclaimed or
  settled by someone else) cannot settle the attempt: each finalizer answers no and
  changes nothing, neither the row nor the event log, the outbox or the inbox.\<close>

theorem stale_claim_cannot_settle:
  assumes "keyed eID (emails s)"
    and "\<And>e. email_at s (claimEmailID c) = Some e \<Longrightarrow> \<not> claim_matches c e"
  shows "FinalizeAccepted now c m ev ob s = (s, Inr False) \<and>
    FinalizeFailed now c ev ob s = (s, Inr False) \<and>
    FinalizeAmbiguous now c ev ob s = (s, Inr False)"
proof -
  have "rows_affected (FinalizeAccepted_where m now c) (emails s) = 0"
    by (rule accepted.stale_claim_unselected [OF assms])
  then show ?thesis
    using accepted.stale_claim_refused [OF assms] failed.stale_claim_refused [OF assms]
      ambiguous.stale_claim_refused [OF assms]
    by (simp add: FinalizeAccepted_def FinalizeFailed_def FinalizeAmbiguous_def settle_False)
qed

definition demo_claim :: SendAttemptClaim where
  "demo_claim = \<lparr>claimEmailID = 1, claimAttemptID = 2, claimFenceToken = 3, claimLeaseUntil = 100\<rparr>"

definition demo_started :: db where
  "demo_started = empty_db\<lparr>emails := [(blank_email 1 9)\<lparr>eStatus := EmailStatusSending,
     eSendAttemptID := Some 2, eSendFenceToken := Some 3, eSendAttemptState := SendAttemptStarted,
     eSendLeaseUntil := Some 100\<rparr>]\<rparr>"

theorem stale_claim_cannot_settle_witness:
  "FinalizeAccepted 50 (demo_claim\<lparr>claimFenceToken := 4\<rparr>) ''m'' None None demo_started =
     (demo_started, Inr False)"
  using stale_claim_cannot_settle [of demo_started "demo_claim\<lparr>claimFenceToken := 4\<rparr>" 50 "''m''" None None]
  by (simp add: demo_started_def demo_claim_def blank_email_def claim_matches_def email_at_def empty_db_def)

text \<open>C6: Settling is transactional. A finalizer that answers yes has moved exactly the claimed
  row to its final status, and the event and the outbox item that announce it are
  recorded in the same commit; one that does not answer yes has changed nothing.\<close>

theorem settlement_is_atomic:
  assumes "keyed eID (emails s)" and "(s', r) \<in> {FinalizeAccepted now c m ev ob s,
    FinalizeFailed now c ev ob s, FinalizeAmbiguous now c ev ob s}"
  shows "(r \<noteq> Inr True \<longrightarrow> s' = s) \<and>
    (r = Inr True \<longrightarrow> recorded ev ob s' \<and>
       (\<exists>e'. email_at s' (claimEmailID c) = Some e' \<and>
          eSendAttemptState e' \<in> {SendAttemptAccepted, SendAttemptFailedTerminal, SendAttemptAmbiguous} \<and>
          eStatus e' \<noteq> EmailStatusSending) \<and>
       (\<forall>j. j \<noteq> claimEmailID c \<longrightarrow> email_at s' j = email_at s j))"
proof -
  let ?done = "\<lambda>e'. eSendAttemptState e' \<in> {SendAttemptAccepted, SendAttemptFailedTerminal, SendAttemptAmbiguous}
      \<and> eStatus e' \<noteq> EmailStatusSending"
  have final: "?done (FinalizeAccepted_set m now c e)" "?done (FinalizeFailed_set now c e)"
    "?done (MarkSendAmbiguous_set now c e)" for e
    by (auto simp: row_defs)
  have acc: ?thesis if "FinalizeAccepted now c m ev ob s = (s', r)"
    using that
  proof (cases rule: FinalizeAccepted_cases)
    case (settled s1 s2)
    have at: "email_at s' j = email_at s2 j" for j
      using settled(3) by (simp add: email_at_def)
    have "recorded ev ob s'"
      using settled(3) record_work_recorded [OF settled(2)] by simp
    moreover have "\<exists>e'. email_at s' (claimEmailID c) = Some e' \<and> ?done e'"
      using accepted.settled_rows(1) [OF assms(1) settled(1,2)] final(1) unfolding at by blast
    moreover have "email_at s' j = email_at s j" if "j \<noteq> claimEmailID c" for j
      using accepted.settled_rows(2) [OF assms(1) settled(1,2) that] unfolding at .
    ultimately show ?thesis using settled(4) by blast
  qed auto
  have other: ?thesis if "settle p f now ev ob s = (s', r)"
    and rows: "\<And>s1. exec_one p f s = (s1, Inr True) \<Longrightarrow> record_work now ev ob s1 = Inr s' \<Longrightarrow>
      (\<exists>e'. email_at s' (claimEmailID c) = Some e' \<and> ?done e') \<and>
      (\<forall>j. j \<noteq> claimEmailID c \<longrightarrow> email_at s' j = email_at s j)" for p f
    using that(1)
  proof (cases rule: settle_cases)
    case (settled s1)
    then show ?thesis using rows record_work_recorded by blast
  qed auto
  have fai: ?thesis if "FinalizeFailed now c ev ob s = (s', r)"
    using that unfolding FinalizeFailed_def
    by (rule other) (metis failed.settled_rows [OF assms(1)] final(2))
  have amb: ?thesis if "FinalizeAmbiguous now c ev ob s = (s', r)"
    using that unfolding FinalizeAmbiguous_def
    by (rule other) (metis ambiguous.settled_rows [OF assms(1)] final(3))
  from assms(2) consider "(s', r) = FinalizeAccepted now c m ev ob s" | "(s', r) = FinalizeFailed now c ev ob s" | "(s', r) = FinalizeAmbiguous now c ev ob s"
    by blast
  then show ?thesis by cases (rule acc fai amb, rule sym, assumption)+
qed

theorem settlement_is_atomic_witness:
  "\<exists>s'. FinalizeFailed 50 demo_claim None None demo_started = (s', Inr True) \<and>
     (\<exists>e'. email_at s' 1 = Some e' \<and> eStatus e' \<noteq> EmailStatusSending)"
proof -
  have "snd (FinalizeFailed 50 demo_claim None None demo_started) = Inr True"
    by code_simp
  then obtain s' where s': "FinalizeFailed 50 demo_claim None None demo_started = (s', Inr True)"
    by (metis prod.collapse)
  have "keyed eID (emails demo_started)"
    by (simp add: demo_started_def empty_db_def)
  from settlement_is_atomic [OF this, of s' "Inr True" 50 demo_claim "''m''" None None] s'
  show ?thesis by (auto simp: demo_claim_def)
qed

section \<open>Reconciliation\<close>

lemma find_keyed:
  "keyed eID (emails s) \<Longrightarrow> (\<And>e. p e \<Longrightarrow> eID e = i) \<Longrightarrow>
   find p (emails s) = Some e \<longleftrightarrow> email_at s i = Some e \<and> p e"
  unfolding email_at_def
proof (induction "emails s" arbitrary: s)
  case Nil
  then show ?case by (metis by_key_Nil find.simps(1) option.distinct(1))
next
  case (Cons r rows)
  from Cons.hyps(2) have r: "emails s = r # rows" by simp
  have IH: "find p rows = Some e \<longleftrightarrow> by_key eID i rows = Some e \<and> p e"
    using Cons.hyps(1) [of "s\<lparr>emails := rows\<rparr>"] Cons.prems r by simp
  have "by_key eID i rows = None" if "eID r = i"
    using Cons.prems(1) r that by (auto simp: by_key_None_iff)
  with IH Cons.prems(2) r show ?case by auto
qed

text \<open>Reconciliation only ever touches a message of the caller's team that is ambiguous,
  and settles it as sent only on the evidence of a provider callback: a stored, not
  ignored, send or delivery event that carries the very provider id written to the row
  and belongs to the message or its attempt. In every other case nothing changes.\<close>

theorem reconcile_needs_confirmation:
  assumes "keyed eID (emails s)"
    and "ReconcileAmbiguous now team i action given ev ob s = (s', r)"
  shows "(r \<noteq> Inr True \<longrightarrow> s' = s) \<and>
    (r = Inr True \<longrightarrow> recorded ev ob s' \<and>
      (\<exists>e e'. email_at s i = Some e \<and> eTeamID e = team \<and> eStatus e = EmailStatusAmbiguous \<and>
         eSendAttemptState e = SendAttemptAmbiguous \<and> email_at s' i = Some e' \<and>
         (ToLower (TrimSpace action) = ''failed'' \<and> eStatus e' = EmailStatusFailed \<or>
          eStatus e' = EmailStatusSent \<and>
          (\<exists>q \<in> set (provider_event_inbox s). eProviderMessageID e' = Some (ibProviderMessageID q) \<and>
             ibProviderMessageID q \<noteq> [] \<and> confirms i (eSendAttemptID e) q))))"
proof (cases "r = Inr True")
  case False
  with assms(2) show ?thesis
    by (auto simp: ReconcileAmbiguous_def Let_def split: if_splits option.splits sum.splits)
next
  case True
  let ?p = "\<lambda>e. eID e = i \<and> eTeamID e = team \<and> eStatus e = EmailStatusAmbiguous \<and>
              eSendAttemptState e = SendAttemptAmbiguous"
  let ?upd = "\<lambda>f. s\<lparr>emails := sql_update (\<lambda>e. eID e = i) f (emails s)\<rparr>"
  have found: "email_at s i = Some e \<and> ?p e" if "find ?p (emails s) = Some e" for e
    using find_keyed [OF assms(1), of ?p i] that by blast
  have row: "email_at s' i = Some (f e) \<and> recorded ev ob s'"
    if "record_work now ev ob (?upd f) = Inr s'" "email_at s i = Some e" "\<And>x. eID (f x) = eID x" "eID e = i" for f e
    using record_work_email_at [OF that(1), of i] record_work_recorded [OF that(1)] that(2-4)
    by (simp add: email_at_update)
  from True assms(2) obtain e where e: "find ?p (emails s) = Some e"
    by (auto simp: ReconcileAmbiguous_def Let_def split: if_splits option.splits)
  consider (fail) "ToLower (TrimSpace action) = ''failed''" "record_work now ev ob (?upd Reconcile_fail) = Inr s'"
    | (accept) q where "q \<in> set (provider_event_inbox s)" "ibProviderMessageID q \<noteq> []"
        "confirms i (eSendAttemptID e) q"
        "record_work now ev ob (?upd (Reconcile_accept now (ibProviderMessageID q))) = Inr s'"
    using True assms(2) e
    by (auto simp: ReconcileAmbiguous_def Let_def split: if_splits sum.splits)
  then show ?thesis
  proof cases
    case fail
    with row [OF fail(2)] found [OF e] True show ?thesis
      by (auto simp: Reconcile_fail_def)
  next
    case (accept q)
    with row [OF accept(4)] found [OF e] True show ?thesis
      by (auto simp: Reconcile_accept_def)
  qed
qed

definition demo_callback :: "inbox_status \<Rightarrow> ProviderEventInbox" where
  "demo_callback st = \<lparr>ibEventID = 5, ibProviderMessageID = ''ses-1'', ibEventType = ''Delivery'',
     ibPayload = Some ''{}'', ibEmailID = Some 1, ibSendAttemptID = Some 2, ibStatus = st,
     ibAttempts = 0, ibNextAttemptAt = 0, ibLeaseUntil = None, ibLastError = None, ibCreatedAt = 0,
     ibProcessedAt = None\<rparr>"

definition demo_ambiguous :: db where
  "demo_ambiguous = empty_db\<lparr>emails := [(blank_email 1 9)\<lparr>eStatus := EmailStatusAmbiguous,
     eSendAttemptID := Some 2, eSendAttemptState := SendAttemptAmbiguous\<rparr>],
     provider_event_inbox := [demo_callback InboxPending]\<rparr>"

theorem reconcile_needs_confirmation_witness:
  "\<exists>s'. ReconcileAmbiguous 7 9 1 '' Accepted'' [] None None demo_ambiguous = (s', Inr True) \<and>
     (\<exists>e'. email_at s' 1 = Some e' \<and> eStatus e' \<in> {EmailStatusSent, EmailStatusFailed})"
proof -
  have "snd (ReconcileAmbiguous 7 9 1 '' Accepted'' [] None None demo_ambiguous) = Inr True"
    by code_simp
  then obtain s' where s': "ReconcileAmbiguous 7 9 1 '' Accepted'' [] None None demo_ambiguous = (s', Inr True)"
    by (metis prod.collapse)
  have "keyed eID (emails demo_ambiguous)"
    by (simp add: demo_ambiguous_def empty_db_def)
  from reconcile_needs_confirmation [OF this s'] s' show ?thesis by auto
qed

section \<open>Provider callbacks\<close>

text \<open>A second application of the same callback finds its suppressions absorbed.\<close>

definition absorbed :: "Suppression list \<Rightarrow> Suppression \<Rightarrow> bool" where
  "absorbed rows x \<longleftrightarrow>
     (let k = (supTeamID x, NormalizeEmail (supEmail x)) in
      by_key sup_key k rows \<noteq> None \<and>
      (\<forall>r \<in> set rows. sup_key r = k \<longrightarrow> merge_reason (supReason r) (supReason x) = supReason r))"

lemma upsert_absorbed_id: "absorbed rows x \<Longrightarrow> upsert_suppression x rows = rows"
  by (auto simp: absorbed_def upsert_suppression_def sup_key_def Let_def sql_update_def
      intro!: map_idI)

lemma upsert_absorbs: "absorbed (upsert_suppression x rows) x"
  unfolding absorbed_def Let_def
proof (intro conjI ballI impI)
  show "by_key sup_key (supTeamID x, NormalizeEmail (supEmail x)) (upsert_suppression x rows) \<noteq> None"
    by (simp add: upsert_lookup)
  fix r
  assume "r \<in> set (upsert_suppression x rows)" "sup_key r = (supTeamID x, NormalizeEmail (supEmail x))"
  then consider "supReason r = supReason x" | a where "supReason r = merge_reason a (supReason x)"
    by (auto simp: upsert_suppression_def Let_def sup_key_def set_sql_update by_key_None_iff
        image_iff split: if_splits)
  then show "merge_reason (supReason r) (supReason x) = supReason r"
    by cases (simp_all add: merge_reason_semilattice(1))
qed

lemma upsert_keeps_absorbed:
  assumes "absorbed rows x"
  shows "absorbed (upsert_suppression z rows) x"
  unfolding absorbed_def Let_def
proof (intro conjI ballI impI)
  show "by_key sup_key (supTeamID x, NormalizeEmail (supEmail x)) (upsert_suppression z rows) \<noteq> None"
    using assms by (auto simp: upsert_lookup absorbed_def Let_def)
  fix r
  assume r: "r \<in> set (upsert_suppression z rows)" "sup_key r = (supTeamID x, NormalizeEmail (supEmail x))"
  have "merge_reason (merge_reason a b) d = merge_reason a b" if "merge_reason a d = a" for a b d
    using that by (metis merge_reason_semilattice(2,3))
  with r assms show "merge_reason (supReason r) (supReason x) = supReason r"
    by (auto simp: upsert_suppression_def Let_def sup_key_def absorbed_def in_sql_update
        by_key_None_iff split: if_splits)
qed

lemma fold_upsert_absorbed: "x \<in> set xs \<union> {x. absorbed rows x} \<Longrightarrow> absorbed (fold upsert_suppression xs rows) x"
proof (induction xs arbitrary: rows)
  case (Cons y ys)
  then show ?case using upsert_absorbs upsert_keeps_absorbed by fastforce
qed simp

lemma fold_absorbed_id: "\<forall>x \<in> set xs. absorbed rows x \<Longrightarrow> fold upsert_suppression xs rows = rows"
  by (induction xs) (auto simp: upsert_absorbed_id)

lemma fold_upsert_idem:
  "fold upsert_suppression xs (fold upsert_suppression xs rows) = fold upsert_suppression xs rows"
  by (rule fold_absorbed_id) (simp add: fold_upsert_absorbed)

lemma should_apply_irrefl: "\<not> ShouldApplyProviderStatus t (Some t)"
  using should_apply_increases by blast

lemma ApplyProvider_set_idem:
  assumes "eProviderMessageID e = None \<or> eProviderMessageID e = Some m"
  shows "ApplyProvider_set now' m target (ApplyProvider_set now m target e) = ApplyProvider_set now m target e"
proof (cases "ShouldApplyProviderStatus (eStatus e) target")
  case True
  then obtain t where "target = Some t" by (cases target) auto
  with True assms show ?thesis
    by (cases "eProviderMessageID e")
      (simp_all add: ApplyProvider_set_def Let_def coalesce_def should_apply_irrefl)
next
  case False
  with assms show ?thesis
    by (cases "eProviderMessageID e") (simp_all add: ApplyProvider_set_def Let_def coalesce_def)
qed

lemma ApplyProvider_set_id [simp]:
  "eID (ApplyProvider_set now m target e) = eID e" "eTeamID (ApplyProvider_set now m target e) = eTeamID e"
  by (simp_all add: ApplyProvider_set_def Let_def)

lemma record_work_again:
  assumes "recorded ev ob s"
  shows "record_work now ev ob s = Inr s"
  using assms
  by (auto simp: recorded_def record_work_def insertEmailEvent_def insertOutbox_def Let_def
      by_key_None_iff split: option.splits)

lemma sql_update_again:
  assumes "\<And>r. p (f r) \<Longrightarrow> p r \<Longrightarrow> g (f r) = f r"
  shows "sql_update p g (sql_update p f rows) = sql_update p f rows"
  using assms by (induction rows) auto

lemma mark_processed_again: "mark_processed now' k i (mark_processed now k i rows) = mark_processed now k i rows"
  unfolding mark_processed_def by (rule sql_update_again) simp

lemma ApplyProviderEvent_cases:
  assumes "ApplyProviderEvent now k i m target ev ob sups s = (s', r)"
  obtains (unchanged) "s' = s" "r \<noteq> Inr ()"
  | (applied) e s2 where "email_at s i = Some e"
      "eProviderMessageID e = None \<or> eProviderMessageID e = Some m"
      "record_work now ev ob (s\<lparr>emails := sql_update (\<lambda>e. eID e = i) (ApplyProvider_set now m target) (emails s),
         suppressions := fold upsert_suppression sups (suppressions s)\<rparr>) = Inr s2"
      "s' = s2\<lparr>provider_event_inbox := mark_processed now k i (provider_event_inbox s2)\<rparr>"
      "r = Inr ()"
  using assms
  by (auto simp: ApplyProviderEvent_def Let_def split: option.splits if_splits sum.splits)

text \<open>A provider callback is applied exactly once. Its commit moves the status by the rule
  of \<open>ShouldApplyProviderStatus\<close>, binds the provider id for good, clears the fence when
  the status changed and records the event; applying the same callback again, at any
  later time, changes nothing; and a callback that is refused changes nothing either.\<close>

theorem provider_event_applied_once:
  assumes "keyed eID (emails s)"
    and "ApplyProviderEvent now k i m target ev ob sups s = (s', r)"
  shows "(r \<noteq> Inr () \<longrightarrow> s' = s) \<and>
    (r = Inr () \<longrightarrow>
       (\<exists>e e'. email_at s i = Some e \<and> email_at s' i = Some e' \<and>
          eStatus e' = apply_provider_status (eStatus e) target \<and> eProviderMessageID e' = Some m \<and>
          (eStatus e' \<noteq> eStatus e \<longrightarrow> eSendFenceToken e' = None)) \<and>
       recorded ev ob s' \<and>
       ApplyProviderEvent now' k i m target ev ob sups s' = (s', Inr ()))"
  using assms(2)
proof (cases rule: ApplyProviderEvent_cases)
  case (applied e s2)
  let ?f = "ApplyProvider_set now m target"
  have fr: "emails s' = sql_update (\<lambda>e. eID e = i) ?f (emails s)"
    "suppressions s' = fold upsert_suppression sups (suppressions s)"
    "provider_event_inbox s' = mark_processed now k i (provider_event_inbox s)"
    using record_work_frame [OF applied(3)] applied(4) by simp_all
  have id: "eID e = i" using applied(1) by (auto dest: email_at_SomeD)
  have at: "email_at s' i = Some (?f e)"
    using email_at_update [where f = ?f and s = s and p = "\<lambda>e. eID e = i" and i = i] applied(1) fr(1) id by (simp add: email_at_def)
  have rec: "recorded ev ob s'"
    using record_work_recorded [OF applied(3)] applied(4) by simp
  have pid: "eProviderMessageID (?f e) = Some m"
    using applied(2) by (auto simp: ApplyProvider_set_def Let_def coalesce_def)
  have "sql_update (\<lambda>e. eID e = i) (ApplyProvider_set now' m target) (emails s') = emails s'"
  proof -
    have "r = e" if "r \<in> set (emails s)" "eID r = i" for r
      using keyed_by_key [OF assms(1) that(1)] that(2) applied(1) by (simp add: email_at_def)
    then show ?thesis
      unfolding fr(1) sql_update_def using ApplyProvider_set_idem [OF applied(2)] by auto
  qed
  moreover have "fold upsert_suppression sups (suppressions s') = suppressions s'"
    "mark_processed now' k i (provider_event_inbox s') = provider_event_inbox s'"
    unfolding fr(2,3) by (rule fold_upsert_idem, rule mark_processed_again)
  ultimately have "ApplyProviderEvent now' k i m target ev ob sups s' = (s', Inr ())"
    using at pid record_work_again [OF rec] by (simp add: ApplyProviderEvent_def)
  moreover have "eStatus (?f e) = apply_provider_status (eStatus e) target"
    "eStatus (?f e) \<noteq> eStatus e \<Longrightarrow> eSendFenceToken (?f e) = None"
    by (auto simp: ApplyProvider_set_def Let_def apply_provider_status_def split: if_splits)
  ultimately show ?thesis using applied(1,5) at pid rec by blast
qed auto

theorem provider_event_applied_once_witness:
  "\<exists>s'. ApplyProviderEvent 7 5 1 ''ses-1'' (Some EmailStatusDelivered) None None [] demo_ambiguous = (s', Inr ()) \<and>
     ApplyProviderEvent 8 5 1 ''ses-1'' (Some EmailStatusDelivered) None None [] s' = (s', Inr ())"
proof -
  let ?run = "ApplyProviderEvent 7 5 1 ''ses-1'' (Some EmailStatusDelivered) None None [] demo_ambiguous"
  have "snd ?run = Inr ()" by code_simp
  then obtain s' where s': "?run = (s', Inr ())" by (metis prod.collapse)
  have "keyed eID (emails demo_ambiguous)"
    by (simp add: demo_ambiguous_def empty_db_def)
  from provider_event_applied_once [OF this s', of 8] s' show ?thesis by blast
qed

section \<open>Leases of the inbox\<close>

lemma first_min_None [simp]: "first_min key rows = None \<longleftrightarrow> rows = []"
  by (induction rows) (auto split: option.splits)

lemma first_min_SomeD: "first_min key rows = Some r \<Longrightarrow> r \<in> set rows \<and> (\<forall>q \<in> set rows. key r \<le> key q)"
  by (induction rows arbitrary: r) (auto split: option.splits if_splits)

lemma claim_none_due:
  "(\<And>r. r \<in> set (provider_event_inbox s) \<Longrightarrow> \<not> inbox_due now w r) \<Longrightarrow>
   ClaimProviderEvent now w s = (s, Inl ErrNoRows)"
proof -
  assume "\<And>r. r \<in> set (provider_event_inbox s) \<Longrightarrow> \<not> inbox_due now w r"
  then have "filter (inbox_due now w) (provider_event_inbox s) = []"
    by (simp add: filter_empty_conv)
  then show ?thesis by (simp add: ClaimProviderEvent_def)
qed

lemma claim_row:
  assumes "ClaimProviderEvent now w s = (s', Inr i)" and "keyed ibEventID (provider_event_inbox s)"
  shows "by_key ibEventID (ibEventID i) (provider_event_inbox s') = Some i"
    and "ibStatus i = InboxProcessing" and "ibLeaseUntil i = Some (now + minute)"
    and "keyed ibEventID (provider_event_inbox s')"
    and "ibPayload i \<noteq> None" and "ibNextAttemptAt i \<le> now"
proof -
  let ?f = "\<lambda>r. r\<lparr>ibStatus := InboxProcessing, ibAttempts := ibAttempts r + 1, ibLeaseUntil := Some (now + minute)\<rparr>"
  from assms(1) obtain q where q: "first_min ibCreatedAt (filter (inbox_due now w) (provider_event_inbox s)) = Some q"
    "i = ?f q" "provider_event_inbox s' = sql_update (\<lambda>r. ibEventID r = ibEventID q) ?f (provider_event_inbox s)"
    by (auto simp: ClaimProviderEvent_def Let_def split: option.splits)
  then have mem: "q \<in> set (provider_event_inbox s)" "inbox_due now w q"
    using first_min_SomeD by fastforce+
  have "by_key ibEventID (ibEventID q) (provider_event_inbox s') = Some (?f q)"
    unfolding q(3) using keyed_by_key [OF assms(2) mem(1)] by (subst by_key_sql_update) simp_all
  then show "by_key ibEventID (ibEventID i) (provider_event_inbox s') = Some i" using q(2) by simp
  show "ibStatus i = InboxProcessing" "ibLeaseUntil i = Some (now + minute)" using q(2) by simp_all
  show "keyed ibEventID (provider_event_inbox s')"
    unfolding q(3) by (rule keyed_sql_update [OF _ assms(2)]) simp
  show "ibPayload i \<noteq> None" "ibNextAttemptAt i \<le> now" using mem(2) q(2) by (auto simp: inbox_due_def)
qed

text \<open>A claimed callback belongs to one processor for a minute: until the lease runs out
  nobody else can claim it, also after a recovery sweep; once it has run out a recovery
  sweep makes it claimable again, so a crashed processor does not lose a callback.\<close>

theorem inbox_lease_exclusive_then_recovered:
  assumes "keyed ibEventID (provider_event_inbox s)"
    and "ClaimProviderEvent now w s = (s', Inr i)"
  shows "(t \<le> now + minute \<longrightarrow>
      ClaimProviderEvent t' (Some (ibEventID i)) (fst (RecoverStalePipelineWork x t s')) =
        (fst (RecoverStalePipelineWork x t s'), Inl ErrNoRows)) \<and>
    (t > now + minute \<longrightarrow>
      (\<exists>s'' j. ClaimProviderEvent t (Some (ibEventID i)) (fst (RecoverStalePipelineWork x t s')) = (s'', Inr j) \<and>
        ibEventID j = ibEventID i \<and> ibAttempts j = ibAttempts i + 1))"
proof -
  note c = claim_row [OF assms(2,1)]
  let ?p = "\<lambda>r. ibStatus r = InboxProcessing \<and> sql_lt (ibLeaseUntil r) t"
  let ?f = "\<lambda>r. r\<lparr>ibStatus := InboxPending, ibLeaseUntil := None\<rparr>"
  let ?s = "fst (RecoverStalePipelineWork x t s')"
  have rec: "provider_event_inbox ?s = sql_update ?p ?f (provider_event_inbox s')"
    by (simp add: recover_pipeline_frame recover_inbox_leases_def)
  have row: "by_key ibEventID (ibEventID i) (provider_event_inbox ?s) = Some (if ?p i then ?f i else i)"
    unfolding rec using c(1) by (subst by_key_sql_update) simp_all
  have keys: "keyed ibEventID (provider_event_inbox ?s)"
    unfolding rec by (rule keyed_sql_update [OF _ c(4)]) simp
  have only: "r = (if ?p i then ?f i else i)" if "r \<in> set (provider_event_inbox ?s)" "ibEventID r = ibEventID i" for r
    using keyed_by_key [OF keys that(1)] row that(2) by simp
  have "ClaimProviderEvent t' (Some (ibEventID i)) ?s = (?s, Inl ErrNoRows)" if "t \<le> now + minute"
  proof (rule claim_none_due)
    fix r assume r: "r \<in> set (provider_event_inbox ?s)"
    show "\<not> inbox_due t' (Some (ibEventID i)) r"
      using only [OF r] that c(2,3) by (auto simp: inbox_due_def sql_lt_def)
  qed
  moreover have "\<exists>s'' j. ClaimProviderEvent t (Some (ibEventID i)) ?s = (s'', Inr j) \<and>
      ibEventID j = ibEventID i \<and> ibAttempts j = ibAttempts i + 1" if "t > now + minute"
  proof -
    have "?p i" using that c(2,3) by (simp add: sql_lt_def)
    then have mem: "?f i \<in> set (filter (inbox_due t (Some (ibEventID i))) (provider_event_inbox ?s))"
      using by_key_SomeD [OF row] c(5,6) that by (simp add: inbox_due_def minute_def second_def)
    then obtain q where q: "first_min ibCreatedAt (filter (inbox_due t (Some (ibEventID i))) (provider_event_inbox ?s)) = Some q"
      by (metis (no_types, lifting) first_min_None empty_iff list.set(1) not_None_eq)
    then have "q = ?f i"
      using only [of q] first_min_SomeD [OF q] \<open>?p i\<close> by (auto simp: inbox_due_def)
    with q show ?thesis by (simp add: ClaimProviderEvent_def Let_def)
  qed
  ultimately show ?thesis by blast
qed

theorem inbox_lease_exclusive_then_recovered_witness:
  "\<exists>s' i. ClaimProviderEvent 7 None demo_ambiguous = (s', Inr i) \<and>
     ClaimProviderEvent 9 (Some (ibEventID i)) (fst (RecoverStalePipelineWork NoFault 8 s')) =
       (fst (RecoverStalePipelineWork NoFault 8 s'), Inl ErrNoRows)"
proof -
  have "\<exists>i. snd (ClaimProviderEvent 7 None demo_ambiguous) = Inr i"
    by (simp add: ClaimProviderEvent_def demo_ambiguous_def empty_db_def demo_callback_def inbox_due_def Let_def)
  then obtain s' i where s': "ClaimProviderEvent 7 None demo_ambiguous = (s', Inr i)"
    by (metis prod.collapse)
  have "keyed ibEventID (provider_event_inbox demo_ambiguous)"
    by (simp add: demo_ambiguous_def empty_db_def)
  from inbox_lease_exclusive_then_recovered [OF this s', of 8 9 NoFault] s' show ?thesis
    by (auto simp: duration_defs)
qed

section \<open>Dispatching the outbox\<close>

lemma outbox_first_SomeD: "outbox_first rows = Some r \<Longrightarrow> r \<in> set rows"
  by (induction rows arbitrary: r) (auto split: option.splits if_splits)

lemma outbox_first_None [simp]: "outbox_first rows = None \<longleftrightarrow> rows = []"
  by (induction rows) (auto split: option.splits)

text \<open>The endpoint and the event of a delivery, the key of its table.\<close>

definition delivery_key :: "WebhookDelivery \<Rightarrow> uuid \<times> uuid" where
  "delivery_key d = (wdWebhookID d, wdEventID d)"

lemma insert_delivery_keys:
  "delivery_key ` set (insert_delivery d rows) = insert (delivery_key d) (delivery_key ` set rows)"
proof (cases "by_key delivery_key (delivery_key d) rows")
  case None
  then show ?thesis by (simp add: insert_delivery_def delivery_key_def [abs_def])
next
  case (Some r)
  then have "delivery_key d \<in> delivery_key ` set rows"
    by (metis by_key_None_iff option.distinct(1))
  with Some show ?thesis by (auto simp: insert_delivery_def delivery_key_def [abs_def])
qed

lemma insert_delivery_prefix: "\<exists>new. insert_delivery d rows = rows @ new"
  by (simp add: insert_delivery_def)

lemma fold_insert_delivery:
  assumes "\<And>w. delivery_key (mk w) = (w, ev)"
  shows "delivery_key ` set (fold (\<lambda>w. insert_delivery (mk w)) ws rows) =
      (\<lambda>w. (w, ev)) ` set ws \<union> delivery_key ` set rows"
    and "keyed delivery_key rows \<Longrightarrow> keyed delivery_key (fold (\<lambda>w. insert_delivery (mk w)) ws rows)"
    and "\<exists>new. fold (\<lambda>w. insert_delivery (mk w)) ws rows = rows @ new"
proof -
  show "delivery_key ` set (fold (\<lambda>w. insert_delivery (mk w)) ws rows) =
      (\<lambda>w. (w, ev)) ` set ws \<union> delivery_key ` set rows"
    by (induction ws arbitrary: rows) (auto simp: insert_delivery_keys assms)
  show "keyed delivery_key (fold (\<lambda>w. insert_delivery (mk w)) ws rows)" if "keyed delivery_key rows"
    using that by (induction ws arbitrary: rows)
      (simp_all add: keyed_insert_delivery delivery_key_def [abs_def])
  show "\<exists>new. fold (\<lambda>w. insert_delivery (mk w)) ws rows = rows @ new"
  proof (induction ws arbitrary: rows)
    case (Cons w ws)
    then show ?case using insert_delivery_prefix [of "mk w" rows] by (metis append.assoc fold_simps(2))
  qed simp
qed

lemma length_filter_update_one:
  assumes "keyed key rows" and "r \<in> set rows" and "p r" and "\<not> p (f r)" and "\<And>x. key (f x) = key x"
  shows "length (filter p (sql_update (\<lambda>x. key x = key r) f rows)) + 1 = length (filter p rows)"
  using assms(1,2)
proof (induction rows)
  case (Cons x xs)
  show ?case
  proof (cases "x = r")
    case True
    then have "sql_update (\<lambda>x. key x = key r) f xs = xs"
      using Cons.prems
      by (intro rows_affected_0_update) (auto simp: rows_affected_0_iff, metis imageI)
    with True assms(3,4) show ?thesis by simp
  next
    case False
    with Cons.prems have "key x \<noteq> key r" "r \<in> set xs" by auto
    with Cons show ?thesis by simp
  qed
qed simp

lemma dispatch_update_twice:
  "sql_update (\<lambda>r. oxID r = x \<and> oxStatus r = OutboxProcessing) g
     (sql_update (\<lambda>r. oxID r = x) (\<lambda>r. r\<lparr>oxStatus := OutboxProcessing, oxAttempts := n r,
        oxLeaseUntil := l\<rparr>) rows) =
   sql_update (\<lambda>r. oxID r = x \<and> oxStatus r = OutboxProcessing \<or> oxID r = x)
     (\<lambda>r. g (r\<lparr>oxStatus := OutboxProcessing, oxAttempts := n r, oxLeaseUntil := l\<rparr>)) rows"
  by (induction rows) auto

text \<open>Dispatching an outbox item fans it out exactly: one delivery for every active endpoint
  of the team that subscribes to the event and for no other, never a second one for an
  endpoint and event that has one, all existing deliveries untouched. The item leaves the
  due work, so a dispatcher that repeats the step drains the outbox.\<close>

theorem dispatch_fans_out_exactly:
  assumes "db_keys s"
    and "DispatchNextOutbox newSHA1 now s = (s', r)"
  shows "(filter (outbox_due now) (webhook_outbox s) = [] \<longrightarrow> s' = s \<and> r = Inr False) \<and>
    (filter (outbox_due now) (webhook_outbox s) \<noteq> [] \<longrightarrow> r = Inr True \<and>
      (\<exists>item \<in> set (webhook_outbox s). outbox_due now item \<and>
         delivery_key ` set (webhook_deliveries s') =
           delivery_key ` set (webhook_deliveries s) \<union>
           {(whID w, oxEventID item) | w. w \<in> set (webhooks s) \<and> subscribed item w}) \<and>
      keyed delivery_key (webhook_deliveries s') \<and>
      (\<exists>new. webhook_deliveries s' = webhook_deliveries s @ new) \<and>
      length (filter (outbox_due now) (webhook_outbox s')) + 1 =
        length (filter (outbox_due now) (webhook_outbox s)))"
proof (cases "outbox_first (filter (outbox_due now) (webhook_outbox s))")
  case None
  with assms(2) show ?thesis by (auto simp: DispatchNextOutbox_def)
next
  case (Some item)
  let ?mk = "\<lambda>w. pending_delivery now (newSHA1 (oxEventID item) w) w (oxEventID item) (oxEvent item)
    (oxPayload item) (oxRetentionClass item)"
  let ?ws = "map whID (filter (subscribed item) (webhooks s))"
  let ?g = "\<lambda>r. r\<lparr>oxStatus := OutboxDispatched, oxAttempts := oxAttempts r + 1, oxLeaseUntil := None,
    oxDispatchedAt := Some now, oxLastError := None\<rparr>"
  from outbox_first_SomeD [OF Some] have item: "item \<in> set (webhook_outbox s)" "outbox_due now item"
    by auto
  have res: "r = Inr True" "webhook_deliveries s' = fold (\<lambda>w. insert_delivery (?mk w)) ?ws (webhook_deliveries s)"
    "webhook_outbox s' = sql_update (\<lambda>x. oxID x = oxID item) ?g (webhook_outbox s)"
    using assms(2) Some by (auto simp: DispatchNextOutbox_def Let_def dispatch_update_twice sql_update_def)
  have mk: "delivery_key (?mk w) = (w, oxEventID item)" for w
    by (simp add: delivery_key_def pending_delivery_def)
  have keys: "keyed delivery_key (webhook_deliveries s)" "keyed oxID (webhook_outbox s)"
    using assms(1) by (simp_all add: db_keys_def delivery_key_def [abs_def])
  have "length (filter (outbox_due now) (webhook_outbox s')) + 1 = length (filter (outbox_due now) (webhook_outbox s))"
    unfolding res(3) using keys(2) item
    by (rule length_filter_update_one) (simp_all add: outbox_due_def)
  moreover have "(\<lambda>w. (w, oxEventID item)) ` set ?ws =
      {(whID w, oxEventID item) | w. w \<in> set (webhooks s) \<and> subscribed item w}"
    by auto
  moreover note fold_insert_delivery [where mk = ?mk and ws = ?ws and rows = "webhook_deliveries s", OF mk]
  ultimately show ?thesis
    using res(1) item keys(1) unfolding res(2) by (auto simp: filter_empty_conv Un_commute)
qed

definition demo_outbox :: db where
  "demo_outbox = empty_db\<lparr>
     webhook_outbox := [outbox_row_of 0 \<lparr>obID = 1, obTeamID = 9, obEventID = 2, obEvent = ''email.sent'',
       obPayload = [], obRetentionClass = RetentionOutbound\<rparr>],
     webhooks := [\<lparr>whID = 4, whTeamID = 9, whURL = [], whEvents = [''email.sent''], whSecret = [], whActive = True, whCreatedAt = 0\<rparr>,
       \<lparr>whID = 5, whTeamID = 8, whURL = [], whEvents = [''email.sent''], whSecret = [], whActive = True, whCreatedAt = 0\<rparr>]\<rparr>"

theorem dispatch_fans_out_exactly_witness:
  "\<exists>s'. DispatchNextOutbox (\<lambda>a b. a + b) 7 demo_outbox = (s', Inr True) \<and>
     keyed delivery_key (webhook_deliveries s')"
proof -
  have "snd (DispatchNextOutbox (\<lambda>a b. a + b) 7 demo_outbox) = Inr True" by code_simp
  then obtain s' where s': "DispatchNextOutbox (\<lambda>a b. a + b) 7 demo_outbox = (s', Inr True)"
    by (metis prod.collapse)
  have "db_keys demo_outbox" by (simp add: demo_outbox_def empty_db_def db_keys_def)
  from dispatch_fans_out_exactly [OF this s'] s' show ?thesis by auto
qed

end
