(* ===== verification/SendAttempts.thy ===== *)
theory SendAttempts
  imports DeliveryPipeline
begin

text \<open>
  The send-attempt state machine as a whole. \<open>repo_op\<close> lists the repository operations of
  the durable pipeline, \<open>exec_op\<close> runs one on the database, \<open>row_step\<close> is the state
  machine of a single message: one rule per SQL statement that writes its row. The
  refinement lemma \<open>exec_op_row\<close> shows that every operation on the database is, for every
  message, a step of this machine or leaves the row alone. The invariant and the two
  safety theorems are then rule inductions over \<open>row_step\<close>: an expired, stale or crashed
  worker can never cause a second submission, and a lease is exclusive while it lasts.
\<close>

section \<open>Operations\<close>

datatype repo_op =
    OpCreate instant Email
  | OpClaim instant SendAttemptClaim
  | OpStarted instant SendAttemptClaim
  | OpRetryable instant SendAttemptClaim
  | OpMarkAmbiguous instant SendAttemptClaim
  | OpAccepted instant SendAttemptClaim string "EmailEvent option" "WebhookOutboxEvent option"
  | OpFailed instant SendAttemptClaim "EmailEvent option" "WebhookOutboxEvent option"
  | OpAmbiguous instant SendAttemptClaim "EmailEvent option" "WebhookOutboxEvent option"
  | OpReconcile instant uuid uuid string string "EmailEvent option" "WebhookOutboxEvent option"
  | OpRecover instant
  | OpEnqueued uuid
  | OpDeadLetter uuid
  | OpPrepareReplay uuid uuid uuid
  | OpCancelReplay uuid uuid
  | OpCancel uuid uuid
  | OpEnqueueFailed instant uuid
  | OpApplyEvent instant uuid uuid string "EmailStatus option" "EmailEvent option"
      "WebhookOutboxEvent option" "Suppression list"
  | OpStoreEvent instant ProviderEventInbox
  | OpClaimEvent instant "uuid option"
  | OpRetryEvent instant uuid string instant bool
  | OpRecoverPipeline fault instant
  | OpSuppress Suppression
  | OpAddEvent EmailEvent
  | OpDelete uuid uuid
  | OpPurge instant

fun exec_op :: "repo_op \<Rightarrow> db \<Rightarrow> db" where
  "exec_op (OpCreate now e) s = fst (EmailRepo_Create now e s)"
| "exec_op (OpClaim now c) s = fst (ClaimSendAttempt now c s)"
| "exec_op (OpStarted now c) s = fst (MarkSendStarted now c s)"
| "exec_op (OpRetryable now c) s = fst (MarkSendRetryable now c s)"
| "exec_op (OpMarkAmbiguous now c) s = fst (MarkSendAmbiguous now c s)"
| "exec_op (OpAccepted now c m ev ob) s = fst (FinalizeAccepted now c m ev ob s)"
| "exec_op (OpFailed now c ev ob) s = fst (FinalizeFailed now c ev ob s)"
| "exec_op (OpAmbiguous now c ev ob) s = fst (FinalizeAmbiguous now c ev ob s)"
| "exec_op (OpReconcile now team i action given ev ob) s =
     fst (ReconcileAmbiguous now team i action given ev ob s)"
| "exec_op (OpRecover now) s = fst (RecoverExpiredSendAttempts now s)"
| "exec_op (OpEnqueued i) s = fst (MarkQueueRecoveryEnqueued i s)"
| "exec_op (OpDeadLetter i) s = fst (MarkDeadLetterFailed i s)"
| "exec_op (OpPrepareReplay team i token) s = fst (PrepareDeadLetterReplay team i token s)"
| "exec_op (OpCancelReplay i token) s = fst (CancelDeadLetterReplay i token s)"
| "exec_op (OpCancel team i) s = fst (CancelQueued team i s)"
| "exec_op (OpEnqueueFailed now i) s = fst (UpdateStatus now i EmailStatusFailed s)"
| "exec_op (OpApplyEvent now k i m target ev ob sups) s =
     fst (ApplyProviderEvent now k i m target ev ob sups s)"
| "exec_op (OpStoreEvent now ev) s = fst (StoreProviderEvent now ev s)"
| "exec_op (OpClaimEvent now w) s = fst (ClaimProviderEvent now w s)"
| "exec_op (OpRetryEvent now k reason at terminal) s = fst (RetryProviderEvent now k reason at terminal s)"
| "exec_op (OpRecoverPipeline x now) s = fst (RecoverStalePipelineWork x now s)"
| "exec_op (OpSuppress x) s = fst (Suppression_Upsert x s)"
| "exec_op (OpAddEvent ev) s = fst (AddEvent ev s)"
| "exec_op (OpDelete team i) s = DeleteForTeam team i s"
| "exec_op (OpPurge before) s = fst (PurgeEmailsBefore before s)"

definition run_ops :: "repo_op list \<Rightarrow> db \<Rightarrow> db" where
  "run_ops ops s = fold exec_op ops s"

text \<open>Provider events carry one of the statuses \<open>providerEventDetails\<close> knows, or none.\<close>

definition op_ok :: "repo_op \<Rightarrow> bool" where
  "op_ok op = (case op of
     OpCreate now e \<Rightarrow> eStatus e = EmailStatusQueued
   | OpApplyEvent _ _ _ _ target _ _ _ \<Rightarrow>
       (case target of None \<Rightarrow> True | Some t \<Rightarrow> delivery_signal t \<or> t = EmailStatusFailed)
   | _ \<Rightarrow> True)"

section \<open>The state machine of one message\<close>

inductive row_step :: "repo_op \<Rightarrow> Email \<Rightarrow> Email \<Rightarrow> bool" where
  rs_claim: "ClaimSendAttempt_where c e \<Longrightarrow> row_step (OpClaim now c) e (ClaimSendAttempt_set now c e)"
| rs_started: "MarkSendStarted_where now c e \<Longrightarrow> row_step (OpStarted now c) e (MarkSendStarted_set now c e)"
| rs_retryable: "MarkSendRetryable_where now c e \<Longrightarrow> row_step (OpRetryable now c) e (MarkSendRetryable_set now c e)"
| rs_mark_ambiguous: "MarkSendAmbiguous_where now c e \<Longrightarrow> row_step (OpMarkAmbiguous now c) e (MarkSendAmbiguous_set now c e)"
| rs_accepted: "FinalizeAccepted_where m now c e \<Longrightarrow> row_step (OpAccepted now c m ev ob) e (FinalizeAccepted_set m now c e)"
| rs_failed: "FinalizeFailed_where now c e \<Longrightarrow> row_step (OpFailed now c ev ob) e (FinalizeFailed_set now c e)"
| rs_ambiguous: "MarkSendAmbiguous_where now c e \<Longrightarrow> row_step (OpAmbiguous now c ev ob) e (MarkSendAmbiguous_set now c e)"
| rs_reconcile_accept: "eID e = i \<Longrightarrow> eStatus e = EmailStatusAmbiguous \<Longrightarrow> eSendAttemptState e = SendAttemptAmbiguous \<Longrightarrow>
    row_step (OpReconcile now team i action given ev ob) e (Reconcile_accept now m e)"
| rs_reconcile_fail: "eID e = i \<Longrightarrow> eStatus e = EmailStatusAmbiguous \<Longrightarrow> eSendAttemptState e = SendAttemptAmbiguous \<Longrightarrow>
    row_step (OpReconcile now team i action given ev ob) e (Reconcile_fail e)"
| rs_recover_leased: "recover_leased_where now e \<Longrightarrow> row_step (OpRecover now) e (recover_leased_set e)"
| rs_recover_started: "recover_started_where now e \<Longrightarrow> row_step (OpRecover now) e (recover_started_set now e)"
| rs_enqueued: "eID e = i \<Longrightarrow> eQueueRecoveryPending e \<Longrightarrow>
    row_step (OpEnqueued i) e (e\<lparr>eQueueRecoveryPending := False\<rparr>)"
| rs_dead_letter: "MarkDeadLetterFailed_where i e \<Longrightarrow> row_step (OpDeadLetter i) e (fail_row e)"
| rs_prepare_replay: "PrepareDeadLetterReplay_where team i e \<Longrightarrow>
    row_step (OpPrepareReplay team i token) e (PrepareDeadLetterReplay_set token e)"
| rs_cancel_replay: "CancelDeadLetterReplay_where i token e \<Longrightarrow> row_step (OpCancelReplay i token) e (fail_row e)"
| rs_cancel: "CancelQueued_where team i e \<Longrightarrow> row_step (OpCancel team i) e (CancelQueued_set e)"
| rs_enqueue_failed: "eID e = i \<Longrightarrow> row_step (OpEnqueueFailed now i) e (UpdateStatus_set now EmailStatusFailed e)"
| rs_apply_event: "eID e = i \<Longrightarrow>
    row_step (OpApplyEvent now k i m target ev ob sups) e (ApplyProvider_set now m target e)"

inductive_cases row_stepE: "row_step op e e'"

lemma assignments_keep_id [simp]:
  "eID (ClaimSendAttempt_set now c e) = eID e" "eID (recover_leased_set e) = eID e"
  "eID (recover_started_set now e) = eID e" "eID (fail_row e) = eID e"
  "eID (PrepareDeadLetterReplay_set token e) = eID e" "eID (CancelQueued_set e) = eID e"
  "eID (UpdateStatus_set now st e) = eID e" "eID (Reconcile_accept now m e) = eID e"
  "eID (Reconcile_fail e) = eID e" "eID (MarkSendStarted_set now c e) = eID e"
  "eID (MarkSendRetryable_set now c e) = eID e" "eID (MarkSendAmbiguous_set now c e) = eID e"
  "eID (FinalizeAccepted_set m now c e) = eID e" "eID (FinalizeFailed_set now c e) = eID e"
  by (simp_all add: row_defs)

lemma row_step_id: "row_step op e e' \<Longrightarrow> eID e' = eID e \<and> eTeamID e' = eTeamID e"
  by (erule row_stepE) (auto simp: row_defs Let_def)

section \<open>Every operation refines the row machine\<close>

text \<open>The row a sequence of statements leaves behind, read by its key.\<close>

lemma email_at_sql_update:
  assumes "emails s' = sql_update p f (emails s)" and "\<And>e. eID (f e) = eID e"
  shows "email_at s' i = map_option (\<lambda>e. if p e then f e else e) (email_at s i)"
  unfolding email_at_def assms(1) by (rule by_key_sql_update) (rule assms(2))

definition steps_rows :: "repo_op \<Rightarrow> db \<Rightarrow> db \<Rightarrow> bool" where
  "steps_rows op s s' \<longleftrightarrow>
     (keyed eID (emails s) \<longrightarrow> keyed eID (emails s')) \<and>
     (\<forall>i e'. email_at s' i = Some e' \<longrightarrow>
       (\<exists>e. email_at s i = Some e \<and> (e' = e \<or> row_step op e e')))"

lemma steps_rowsI:
  assumes "emails s' = sql_update p f (emails s)" and "\<And>e. eID (f e) = eID e"
    and "\<And>e. p e \<Longrightarrow> row_step op e (f e)"
  shows "steps_rows op s s'"
  using email_at_sql_update [OF assms(1,2)] assms(3) keyed_sql_update [where key = eID and f = f, OF assms(2)]
  by (auto simp: steps_rows_def assms(1) split: if_splits)

lemma steps_rows_same: "emails s' = emails s \<Longrightarrow> steps_rows op s s'"
  by (simp add: steps_rows_def email_at_def)

lemma steps_rows_delete:
  assumes "keyed eID (emails s)" and "emails s' = sql_delete p (emails s)"
  shows "steps_rows op s s'"
  unfolding steps_rows_def email_at_def assms(2)
proof (intro conjI allI impI)
  show "keyed eID (sql_delete p (emails s))" using assms(1) by (rule keyed_sql_delete)
next
  fix i e'
  assume "by_key eID i (sql_delete p (emails s)) = Some e'"
  then have "e' \<in> set (emails s)" "eID e' = i"
    by (auto simp: sql_delete_def dest!: by_key_SomeD)
  then show "\<exists>e. by_key eID i (emails s) = Some e \<and> (e' = e \<or> row_step op e e')"
    using keyed_by_key [OF assms(1)] by blast
qed

lemma settle_emails:
  "emails (fst (settle p f now ev ob s)) = emails s \<or>
   emails (fst (settle p f now ev ob s)) = sql_update p f (emails s)"
proof -
  obtain s' r where sr: "settle p f now ev ob s = (s', r)" by (cases "settle p f now ev ob s")
  then show ?thesis
  proof (cases rule: settle_cases)
    case (settled s1)
    then have "emails s1 = sql_update p f (emails s)"
      using exec_one_simps(1) [of p f s] by simp
    with settled sr show ?thesis by (simp add: record_work_frame)
  qed (simp add: sr)
qed

lemma steps_rows_settle:
  assumes "\<And>e. eID (f e) = eID e" and "\<And>e. p e \<Longrightarrow> row_step op e (f e)"
  shows "steps_rows op s (fst (settle p f now ev ob s))"
  using settle_emails [of p f now ev ob s] steps_rowsI [OF _ assms] steps_rows_same by blast

lemma accepted_emails:
  "emails (fst (FinalizeAccepted now c m ev ob s)) = emails s \<or>
   emails (fst (FinalizeAccepted now c m ev ob s)) =
     sql_update (FinalizeAccepted_where m now c) (FinalizeAccepted_set m now c) (emails s)"
proof -
  obtain s' r where sr: "FinalizeAccepted now c m ev ob s = (s', r)"
    by (cases "FinalizeAccepted now c m ev ob s")
  then show ?thesis
  proof (cases rule: FinalizeAccepted_cases)
    case (settled s1 s2)
    then have "emails s1 = sql_update (FinalizeAccepted_where m now c) (FinalizeAccepted_set m now c) (emails s)"
      using exec_one_simps(1) [of "FinalizeAccepted_where m now c" "FinalizeAccepted_set m now c" s] by simp
    with settled sr show ?thesis by (simp add: record_work_frame)
  qed (simp add: sr)
qed

lemma recover_rows: "steps_rows (OpRecover now) s (fst (RecoverExpiredSendAttempts now s))"
  unfolding steps_rows_def
proof (intro conjI allI impI)
  assume "keyed eID (emails s)"
  then show "keyed eID (emails (fst (RecoverExpiredSendAttempts now s)))"
    by (simp add: RecoverExpiredSendAttempts_def Let_def keyed_sql_update)
next
  fix i e'
  assume e': "email_at (fst (RecoverExpiredSendAttempts now s)) i = Some e'"
  let ?s1 = "s\<lparr>emails := sql_update (recover_leased_where now) recover_leased_set (emails s)\<rparr>"
  have "email_at (fst (RecoverExpiredSendAttempts now s)) i =
    map_option (\<lambda>e. if recover_started_where now e then recover_started_set now e else e) (email_at ?s1 i)"
    by (rule email_at_sql_update) (simp_all add: RecoverExpiredSendAttempts_def Let_def)
  moreover have "email_at ?s1 i =
    map_option (\<lambda>e. if recover_leased_where now e then recover_leased_set e else e) (email_at s i)"
    by (rule email_at_sql_update) simp_all
  moreover have "\<not> recover_started_where now (recover_leased_set e)" for e
    by (simp add: recover_started_where_def recover_leased_set_def)
  ultimately show "\<exists>e. email_at s i = Some e \<and> (e' = e \<or> row_step (OpRecover now) e e')"
    using e' rs_recover_leased rs_recover_started
    by (cases "email_at s i") (auto split: if_splits)
qed

lemma reconcile_rows:
  assumes "keyed eID (emails s)"
  shows "steps_rows (OpReconcile now team i action given ev ob) s
    (fst (ReconcileAmbiguous now team i action given ev ob s))"
proof -
  let ?op = "OpReconcile now team i action given ev ob"
  let ?s' = "fst (ReconcileAmbiguous now team i action given ev ob s)"
  let ?p = "\<lambda>e. eID e = i \<and> eTeamID e = team \<and> eStatus e = EmailStatusAmbiguous \<and>
              eSendAttemptState e = SendAttemptAmbiguous"
  have upd: "steps_rows ?op s s'"
    if "find ?p (emails s) = Some e" "emails s' = sql_update (\<lambda>e. eID e = i) f (emails s)"
      "\<And>e. eID (f e) = eID e" "\<And>e. ?p e \<Longrightarrow> row_step ?op e (f e)" for s' f e
  proof -
    have e: "email_at s i = Some e" "?p e"
      using find_keyed [OF assms, of ?p i] that(1) by auto
    have "row_step ?op z (f z)" if "email_at s j = Some z" "eID z = i" for j z
    proof -
      have "z = e" using that e(1) email_at_SomeD [OF that(1)] by simp
      with e(2) \<open>\<And>e. ?p e \<Longrightarrow> row_step ?op e (f e)\<close> show ?thesis by blast
    qed
    with email_at_sql_update [OF that(2,3)] keyed_sql_update [where key = eID and f = f, OF that(3)] show ?thesis
      by (auto simp: steps_rows_def that(2) split: if_splits)
  qed
  have acc: "row_step ?op e (Reconcile_accept now m e)" "row_step ?op e (Reconcile_fail e)" if "?p e" for e m
    using that rs_reconcile_accept rs_reconcile_fail by blast+
  have "emails ?s' = emails s \<or>
    (\<exists>e. find ?p (emails s) = Some e) \<and>
    ((\<exists>m. emails ?s' = sql_update (\<lambda>e. eID e = i) (Reconcile_accept now m) (emails s)) \<or>
     emails ?s' = sql_update (\<lambda>e. eID e = i) Reconcile_fail (emails s))"
    by (auto simp: ReconcileAmbiguous_def Let_def split: option.splits sum.splits dest!: record_work_frame)
  then consider "emails ?s' = emails s"
    | e m where "find ?p (emails s) = Some e"
        "emails ?s' = sql_update (\<lambda>e. eID e = i) (Reconcile_accept now m) (emails s)"
    | e where "find ?p (emails s) = Some e"
        "emails ?s' = sql_update (\<lambda>e. eID e = i) Reconcile_fail (emails s)"
    by blast
  then show ?thesis
  proof cases
    case 1
    then show ?thesis by (rule steps_rows_same)
  next
    case 2
    then show ?thesis by (rule upd) (simp_all add: acc)
  next
    case 3
    then show ?thesis by (rule upd) (simp_all add: acc)
  qed
qed

lemma apply_event_rows:
  "steps_rows (OpApplyEvent now k i m target ev ob sups) s
     (fst (ApplyProviderEvent now k i m target ev ob sups s))"
proof -
  obtain s' r where sr: "ApplyProviderEvent now k i m target ev ob sups s = (s', r)"
    by (cases "ApplyProviderEvent now k i m target ev ob sups s")
  then show ?thesis
  proof (cases rule: ApplyProviderEvent_cases)
    case (applied e s2)
    have "emails s' = sql_update (\<lambda>e. eID e = i) (ApplyProvider_set now m target) (emails s)"
      using record_work_frame [OF applied(3)] applied(4) by simp
    then show ?thesis
      unfolding sr fst_conv by (rule steps_rowsI) (simp_all add: rs_apply_event)
  qed (simp add: sr steps_rows_same)
qed

lemma exec_op_row:
  assumes "keyed eID (emails s)" and "\<And>now e. op \<noteq> OpCreate now e"
  shows "steps_rows op s (exec_op op s)"
proof (cases op)
  case (OpAccepted now c m ev ob)
  then show ?thesis
    using accepted_emails [of now c m ev ob s] steps_rowsI [OF _ accepted.assign_id rs_accepted]
      steps_rows_same by (metis exec_op.simps(6))
next
  case (OpFailed now c ev ob)
  then show ?thesis
    using steps_rows_settle [OF failed.assign_id rs_failed] by (simp add: FinalizeFailed_def)
next
  case (OpAmbiguous now c ev ob)
  then show ?thesis
    using steps_rows_settle [OF ambiguous.assign_id rs_ambiguous] by (simp add: FinalizeAmbiguous_def)
next
  case OpReconcile
  then show ?thesis using reconcile_rows [OF assms(1)] by simp
next
  case OpRecover
  then show ?thesis using recover_rows by simp
next
  case OpApplyEvent
  then show ?thesis using apply_event_rows by simp
next
  case OpDelete
  then show ?thesis using steps_rows_delete [OF assms(1)] by (simp add: DeleteForTeam_def)
next
  case OpPurge
  then show ?thesis using steps_rows_delete [OF assms(1)] by (simp add: PurgeEmailsBefore_def)
next
  case OpCreate
  with assms(2) show ?thesis by blast
next
  case (OpClaim now c)
  show ?thesis unfolding OpClaim
    by (rule steps_rowsI [OF _ _ rs_claim]) (simp_all add: ClaimSendAttempt_def)
next
  case (OpStarted now c)
  show ?thesis unfolding OpStarted
    by (rule steps_rowsI [OF _ _ rs_started]) (simp_all add: MarkSendStarted_def started.assign_id)
next
  case (OpRetryable now c)
  show ?thesis unfolding OpRetryable
    by (rule steps_rowsI [OF _ _ rs_retryable]) (simp_all add: MarkSendRetryable_def retryable.assign_id)
next
  case (OpMarkAmbiguous now c)
  show ?thesis unfolding OpMarkAmbiguous
    by (rule steps_rowsI [OF _ _ rs_mark_ambiguous]) (simp_all add: MarkSendAmbiguous_def ambiguous.assign_id)
next
  case (OpEnqueued i)
  show ?thesis unfolding OpEnqueued
    by (rule steps_rowsI [where p = "\<lambda>e. eID e = i \<and> eQueueRecoveryPending e"
          and f = "\<lambda>e. e\<lparr>eQueueRecoveryPending := False\<rparr>"])
      (auto simp: MarkQueueRecoveryEnqueued_def intro: rs_enqueued)
next
  case (OpDeadLetter i)
  show ?thesis unfolding OpDeadLetter
    by (rule steps_rowsI [OF _ _ rs_dead_letter])
      (simp_all add: MarkDeadLetterFailed_def exec_emails_def)
next
  case (OpPrepareReplay team i token)
  show ?thesis unfolding OpPrepareReplay
    by (rule steps_rowsI [OF _ _ rs_prepare_replay])
      (simp_all add: PrepareDeadLetterReplay_def)
next
  case (OpCancelReplay i token)
  show ?thesis unfolding OpCancelReplay
    by (rule steps_rowsI [OF _ _ rs_cancel_replay]) (simp_all add: CancelDeadLetterReplay_def)
next
  case (OpCancel team i)
  show ?thesis unfolding OpCancel
    by (rule steps_rowsI [OF _ _ rs_cancel]) (simp_all add: CancelQueued_def)
next
  case (OpEnqueueFailed now i)
  show ?thesis unfolding OpEnqueueFailed
    by (rule steps_rowsI [OF _ _ rs_enqueue_failed]) (simp_all add: UpdateStatus_def)
qed (auto intro!: steps_rows_same simp: StoreProviderEvent_def ClaimProviderEvent_def
    RetryProviderEvent_def recover_pipeline_frame Suppression_Upsert_def AddEvent_def Let_def
    split: option.splits)

lemma create_rows:
  assumes "email_at (exec_op (OpCreate now e) s) i = Some e'"
  shows "email_at s i = Some e' \<or> (email_at s i = None \<and> i = eID e \<and> e' = new_row now e)"
  using assms
  by (auto simp: EmailRepo_Create_def email_at_def by_key_append new_row_def
      split: option.splits if_splits)

lemma keyed_exec_op:
  assumes "keyed eID (emails s)"
  shows "keyed eID (emails (exec_op op s))"
proof (cases "\<exists>now e. op = OpCreate now e")
  case True
  then obtain now e where op: "op = OpCreate now e" by blast
  have "eID (new_row now e) = eID e" by (simp add: new_row_def)
  moreover have "\<not> insert_conflict e (emails s) \<Longrightarrow> by_key eID (eID e) (emails s) = None"
    by (auto simp: insert_conflict_def by_key_None_iff)
  ultimately show ?thesis
    using assms by (simp add: op EmailRepo_Create_def keyed_append_one)
next
  case False
  then show ?thesis using exec_op_row [OF assms, of op] assms by (auto simp: steps_rows_def)
qed

lemma keyed_run_ops: "keyed eID (emails s) \<Longrightarrow> keyed eID (emails (run_ops ops s))"
  by (induction ops arbitrary: s) (simp_all add: run_ops_def keyed_exec_op)

section \<open>The invariant\<close>

text \<open>
  What holds of every row at any time: an attempt under way carries its identity, its fence
  and its lease; a fence exists only while an attempt is under way or was accepted by its
  owner; a queued message has no attempt under way; a message in state sending
  has one under way; an ambiguous message is in the ambiguous attempt state; only queued and
  failed messages are marked for recovery.
\<close>

definition attempt_ok :: "Email \<Rightarrow> bool" where
  "attempt_ok e \<longleftrightarrow>
     (eSendAttemptState e \<in> {SendAttemptLeased, SendAttemptStarted} \<longrightarrow>
        eSendAttemptID e \<noteq> None \<and> eSendFenceToken e \<noteq> None \<and> eSendLeaseUntil e \<noteq> None) \<and>
     (eSendFenceToken e \<noteq> None \<longrightarrow>
        eSendAttemptState e \<in> {SendAttemptLeased, SendAttemptStarted, SendAttemptAccepted}) \<and>
     (eStatus e = EmailStatusQueued \<longrightarrow> eSendAttemptState e = SendAttemptNone) \<and>
     (eStatus e = EmailStatusSending \<longrightarrow>
        eSendAttemptState e \<in> {SendAttemptLeased, SendAttemptStarted}) \<and>
     (eStatus e = EmailStatusAmbiguous \<longrightarrow> eSendAttemptState e = SendAttemptAmbiguous) \<and>
     (eQueueRecoveryPending e \<longrightarrow> eStatus e \<in> {EmailStatusQueued, EmailStatusFailed})"

lemma attempt_ok_new: "eStatus e = EmailStatusQueued \<Longrightarrow> attempt_ok (new_row now e)"
  by (simp add: attempt_ok_def new_row_def)

lemma apply_event_ok:
  assumes "attempt_ok e" and "op_ok (OpApplyEvent now k i m target ev ob sups)"
  shows "attempt_ok (ApplyProvider_set now m target e)"
proof (cases "ShouldApplyProviderStatus (eStatus e) target")
  case True
  then obtain t where "target = Some t" by (cases target) auto
  with True assms(2) show ?thesis
    by (auto simp: attempt_ok_def ApplyProvider_set_def Let_def op_ok_def delivery_signal_def)
next
  case False
  with assms(1) show ?thesis by (simp add: attempt_ok_def ApplyProvider_set_def Let_def)
qed

lemma row_step_ok:
  assumes "row_step op e e'" and "op_ok op" and "attempt_ok e"
  shows "attempt_ok e'"
  using assms
proof (induction rule: row_step.induct)
  case (rs_apply_event e i now k m target ev ob sups)
  then show ?case using apply_event_ok by blast
qed (auto simp: attempt_ok_def row_defs)

section \<open>Reachable databases\<close>

inductive reachable :: "db \<Rightarrow> bool" where
  reach_init: "reachable empty_db"
| reach_step: "reachable s \<Longrightarrow> op_ok op \<Longrightarrow> reachable (exec_op op s)"

definition db_ok :: "db \<Rightarrow> bool" where
  "db_ok s \<longleftrightarrow> keyed eID (emails s) \<and> (\<forall>e \<in> set (emails s). attempt_ok e)"

lemma db_ok_iff: "db_ok s \<longleftrightarrow> keyed eID (emails s) \<and> (\<forall>i e. email_at s i = Some e \<longrightarrow> attempt_ok e)"
  unfolding db_ok_def using keyed_by_key email_at_SomeD by (metis email_at_def)

lemma exec_op_ok:
  assumes "db_ok s" and "op_ok op"
  shows "db_ok (exec_op op s)"
proof -
  from assms(1) have key: "keyed eID (emails s)" and rows: "\<And>i e. email_at s i = Some e \<Longrightarrow> attempt_ok e"
    by (auto simp: db_ok_iff)
  have "attempt_ok e'" if e': "email_at (exec_op op s) i = Some e'" for i e'
  proof (cases "\<exists>now e. op = OpCreate now e")
    case True
    then obtain now e where op: "op = OpCreate now e" by blast
    with assms(2) have "attempt_ok (new_row now e)" by (simp add: op_ok_def attempt_ok_new)
    with create_rows e' rows op show ?thesis by blast
  next
    case False
    then have "steps_rows op s (exec_op op s)" using exec_op_row [OF key] by blast
    with e' obtain e where "email_at s i = Some e" "e' = e \<or> row_step op e e'"
      by (auto simp: steps_rows_def)
    with rows row_step_ok assms(2) show ?thesis by blast
  qed
  with keyed_exec_op [OF key] show ?thesis by (simp add: db_ok_iff)
qed

lemma run_ops_ok: "db_ok s \<Longrightarrow> \<forall>op \<in> set ops. op_ok op \<Longrightarrow> db_ok (run_ops ops s)"
  by (induction ops arbitrary: s) (auto simp: run_ops_def exec_op_ok)

text \<open>C5: In every database that the pipeline's operations can produce, from the empty one
  and in any order, message identifiers are unique and every row satisfies the
  send-attempt invariant.\<close>

theorem reachable_attempts_ok:
  assumes "reachable s"
  shows "keyed eID (emails s) \<and> (\<forall>e \<in> set (emails s). attempt_ok e)"
proof -
  from assms have "db_ok s"
    by induction (simp add: db_ok_def empty_db_def, rule exec_op_ok)
  then show ?thesis by (simp add: db_ok_def)
qed

theorem reachable_attempts_ok_witness:
  "attempt_ok (new_row 5 (blank_email 1 9))"
proof -
  have "reachable (exec_op (OpCreate 5 (blank_email 1 9)) empty_db)"
    by (intro reachable.intros) (simp add: op_ok_def blank_email_def)
  from reachable_attempts_ok [OF this] show ?thesis
    by (simp add: EmailRepo_Create_def empty_db_def insert_conflict_def)
qed

section \<open>Properties of one message along a trace\<close>

text \<open>
  A property of one row that every allowed step of the row machine keeps is kept by every
  trace of allowed operations on the database.
\<close>

locale row_property =
  fixes i :: uuid
    and allowed :: "repo_op \<Rightarrow> bool"
    and holds :: "Email \<Rightarrow> bool"
  assumes step: "row_step op e e' \<Longrightarrow> eID e = i \<Longrightarrow> allowed op \<Longrightarrow> holds e \<Longrightarrow> holds e'"
    and no_create: "allowed (OpCreate now e) \<Longrightarrow> eID e \<noteq> i"
begin

lemma exec_op_holds:
  assumes "keyed eID (emails s)" and "allowed op"
    and "\<And>e. email_at s i = Some e \<Longrightarrow> holds e" and "email_at (exec_op op s) i = Some e'"
  shows "holds e'"
proof (cases "\<exists>now e. op = OpCreate now e")
  case True
  then obtain now e where "op = OpCreate now e" by blast
  then show ?thesis using assms(2-4) create_rows no_create by metis
next
  case False
  then have "steps_rows op s (exec_op op s)" using exec_op_row [OF assms(1)] by blast
  with assms(4) obtain e where "email_at s i = Some e" "e' = e \<or> row_step op e e'"
    by (auto simp: steps_rows_def)
  then show ?thesis using assms(2,3) step email_at_SomeD by blast
qed

lemma run_ops_holds:
  assumes "keyed eID (emails s)" and "\<forall>op \<in> set ops. allowed op"
    and "\<And>e. email_at s i = Some e \<Longrightarrow> holds e"
  shows "keyed eID (emails (run_ops ops s)) \<and> (\<forall>e. email_at (run_ops ops s) i = Some e \<longrightarrow> holds e)"
  using assms
proof (induction ops arbitrary: s)
  case (Cons op ops)
  have "keyed eID (emails (run_ops ops (exec_op op s))) \<and>
      (\<forall>e. email_at (run_ops ops (exec_op op s)) i = Some e \<longrightarrow> holds e)"
  proof (rule Cons.IH)
    show "keyed eID (emails (exec_op op s))" using Cons.prems(1) by (rule keyed_exec_op)
    show "\<forall>op \<in> set ops. allowed op" using Cons.prems(2) by simp
    show "holds e" if "email_at (exec_op op s) i = Some e" for e
      using Cons.prems that by (meson exec_op_holds list.set_intros(1))
  qed
  then show ?case by (simp add: run_ops_def)
qed (simp add: run_ops_def)

end

section \<open>No second submission\<close>

text \<open>
  Once an attempt is started its worker may hand the message to the provider. From then on
  only two operations may make the message claimable again: the owner itself reporting that
  the provider refused, and an operator replaying a terminally failed message.
\<close>

definition releases :: "uuid \<Rightarrow> SendAttemptClaim \<Rightarrow> repo_op \<Rightarrow> bool" where
  "releases i c op = (case op of
     OpRetryable now c' \<Rightarrow> claimEmailID c' = i \<and> claimAttemptID c' = claimAttemptID c \<and>
       claimFenceToken c' = claimFenceToken c
   | OpPrepareReplay team j token \<Rightarrow> j = i
   | OpCreate now e \<Rightarrow> eID e = i
   | _ \<Rightarrow> False)"

definition spent :: "SendAttemptClaim \<Rightarrow> Email \<Rightarrow> bool" where
  "spent c e \<longleftrightarrow> eStatus e \<noteq> EmailStatusQueued \<and> eSendAttemptState e \<noteq> SendAttemptLeased \<and>
     (eSendAttemptState e = SendAttemptStarted \<longrightarrow>
        eSendAttemptID e = Some (claimAttemptID c) \<and> eSendFenceToken e = Some (claimFenceToken c))"

lemma spent_apply_event: "spent c e \<Longrightarrow> spent c (ApplyProvider_set now m target e)"
proof (cases "ShouldApplyProviderStatus (eStatus e) target")
  case True
  then obtain t where "target = Some t" "t \<noteq> EmailStatusQueued"
    using should_apply_never_queued by (cases target) auto
  with True show ?thesis by (simp add: spent_def ApplyProvider_set_def Let_def)
qed (simp add: spent_def ApplyProvider_set_def)

lemma row_step_spent:
  assumes "row_step op e e'" and "eID e = i" and "\<not> releases i c op" and "spent c e"
  shows "spent c e'"
  using assms
proof (induction rule: row_step.induct)
  case (rs_apply_event e i now k m target ev ob sups)
  then show ?case using spent_apply_event by blast
qed (auto simp: spent_def row_defs releases_def)

interpretation spent: row_property i "\<lambda>op. \<not> releases i c op" "spent c" for i c
  by unfold_locales (auto intro: row_step_spent simp: releases_def)

lemma exec_one_refused:
  assumes "keyed eID (emails s)" and "\<And>e. p e \<Longrightarrow> eID e = i"
    and "\<And>e. email_at s i = Some e \<Longrightarrow> \<not> p e"
  shows "exec_one p f s = (s, Inr False)"
proof -
  have "rows_affected p (emails s) \<noteq> 1"
    using rows_affected_keyed(1) [OF assms(1,2)] assms(3) by (auto simp: email_at_def)
  then have "rows_affected p (emails s) = 0"
    using rows_affected_keyed(2) [where p = p, OF assms(1,2)] by linarith
  then show ?thesis by (simp add: prod_eq_iff rows_affected_0_update)
qed

lemma claim_refused_once_started:
  assumes "keyed eID (emails s)" and "email_at s i = Some e"
    and "eStatus e \<noteq> EmailStatusQueued" and "eSendAttemptState e = SendAttemptStarted"
    and "eSendAttemptID e = Some (claimAttemptID c)" and "eSendFenceToken e = Some (claimFenceToken c)"
    and "\<forall>op \<in> set ops. \<not> releases i c op"
    and "claimEmailID c' = i"
  shows "ClaimSendAttempt now c' (run_ops ops s) = (run_ops ops s, Inr False) \<and>
    MarkSendStarted now c' (run_ops ops s) = (run_ops ops s, Inr False)"
proof -
  have "spent c e'" if "email_at s i = Some e'" for e'
    using that assms(2-6) by (simp add: spent_def)
  from spent.run_ops_holds [OF assms(1,7) this]
  have key: "keyed eID (emails (run_ops ops s))"
    and spent: "\<And>e. email_at (run_ops ops s) i = Some e \<Longrightarrow> spent c e" by auto
  have "ClaimSendAttempt now c' (run_ops ops s) = (run_ops ops s, Inr False)"
    unfolding ClaimSendAttempt_def
    by (rule exec_one_refused [OF key, where i = i])
      (use assms(8) spent in \<open>auto simp: ClaimSendAttempt_where_def spent_def\<close>)
  moreover have "MarkSendStarted now c' (run_ops ops s) = (run_ops ops s, Inr False)"
    unfolding MarkSendStarted_def
    by (rule exec_one_refused [OF key, where i = i])
      (use assms(8) spent in \<open>auto simp: MarkSendStarted_where_def claim_matches_def spent_def\<close>)
  ultimately show ?thesis by blast
qed

text \<open>No duplicate submission. Take a message whose attempt has been started by the worker
  holding claim \<open>c\<close>, and let any operations follow: other workers, expired leases, recovery
  sweeps, provider callbacks, cancellation, crashes. As long as that worker does not itself
  report a refusal and no operator replays the message, every later claim and every later
  start on it is refused, so no worker gets to call the provider for it again.\<close>

theorem no_second_submission:
  assumes "keyed eID (emails s)" and "email_at s i = Some e"
    and "eStatus e \<noteq> EmailStatusQueued" and "eSendAttemptState e = SendAttemptStarted"
    and "eSendAttemptID e = Some (claimAttemptID c)" and "eSendFenceToken e = Some (claimFenceToken c)"
    and "\<forall>op \<in> set ops. \<not> releases i c op"
    and "claimEmailID c' = i"
  shows "ClaimSendAttempt now c' (run_ops ops s) = (run_ops ops s, Inr False) \<and>
    MarkSendStarted now c' (run_ops ops s) = (run_ops ops s, Inr False)"
  using assms by (rule claim_refused_once_started)

theorem no_second_submission_witness:
  "ClaimSendAttempt 900 (demo_claim\<lparr>claimAttemptID := 7, claimFenceToken := 8\<rparr>)
     (run_ops [OpRecover 500, OpCancel 9 1, OpDeadLetter 1] demo_started) =
   (run_ops [OpRecover 500, OpCancel 9 1, OpDeadLetter 1] demo_started, Inr False)"
proof -
  have "keyed eID (emails demo_started)" by (simp add: demo_started_def empty_db_def)
  moreover have "\<exists>e. email_at demo_started 1 = Some e \<and> eStatus e \<noteq> EmailStatusQueued \<and>
      eSendAttemptState e = SendAttemptStarted \<and> eSendAttemptID e = Some (claimAttemptID demo_claim) \<and>
      eSendFenceToken e = Some (claimFenceToken demo_claim)"
    by (simp add: demo_started_def demo_claim_def email_at_def blank_email_def empty_db_def)
  ultimately show ?thesis
    using no_second_submission [where s = demo_started and i = 1 and c = demo_claim
        and ops = "[OpRecover 500, OpCancel 9 1, OpDeadLetter 1]" and now = 900
        and c' = "demo_claim\<lparr>claimAttemptID := 7, claimFenceToken := 8\<rparr>"]
    by (auto simp: releases_def demo_claim_def)
qed

section \<open>Exclusive leases\<close>

text \<open>
  What may end or shorten the lease of claim \<open>c\<close> on message \<open>i\<close> before time \<open>until\<close>: a
  recovery sweep after that time, and the owner giving the attempt up or renewing it to an
  earlier time.
\<close>

definition ends_lease :: "uuid \<Rightarrow> SendAttemptClaim \<Rightarrow> instant \<Rightarrow> repo_op \<Rightarrow> bool" where
  "ends_lease i c until op = (case op of
     OpRecover now \<Rightarrow> now > until
   | OpStarted now c' \<Rightarrow> claimEmailID c' = i \<and> claimAttemptID c' = claimAttemptID c \<and>
       claimFenceToken c' = claimFenceToken c \<and> claimLeaseUntil c' < until
   | _ \<Rightarrow> releases i c op)"

definition held :: "SendAttemptClaim \<Rightarrow> instant \<Rightarrow> Email \<Rightarrow> bool" where
  "held c until e \<longleftrightarrow> eStatus e \<noteq> EmailStatusQueued \<and>
     (eSendAttemptState e \<in> {SendAttemptLeased, SendAttemptStarted} \<longrightarrow>
        eSendAttemptID e = Some (claimAttemptID c) \<and> eSendFenceToken e = Some (claimFenceToken c) \<and>
        sql_ge (eSendLeaseUntil e) until)"

lemma held_apply_event: "held c until e \<Longrightarrow> held c until (ApplyProvider_set now m target e)"
proof (cases "ShouldApplyProviderStatus (eStatus e) target")
  case True
  then obtain t where "target = Some t" "t \<noteq> EmailStatusQueued"
    using should_apply_never_queued by (cases target) auto
  with True show ?thesis by (simp add: held_def ApplyProvider_set_def Let_def)
qed (simp add: held_def ApplyProvider_set_def)

lemma row_step_held:
  assumes "row_step op e e'" and "eID e = i" and "\<not> ends_lease i c until op" and "held c until e"
  shows "held c until e'"
  using assms
proof (induction rule: row_step.induct)
  case (rs_apply_event e i now k m target ev ob sups)
  then show ?case using held_apply_event by blast
qed (auto simp: held_def row_defs ends_lease_def releases_def sql_null_defs)

interpretation held: row_property i "\<lambda>op. \<not> ends_lease i c until op" "held c until" for i c until
  by unfold_locales (auto intro: row_step_held simp: ends_lease_def releases_def)

text \<open>A lease is exclusive. From the moment a worker's claim succeeded until its lease time,
  no other worker obtains the message, whatever else happens to the database, unless the
  owner gives the attempt up.\<close>

theorem lease_is_exclusive:
  assumes "keyed eID (emails s)" and "ClaimSendAttempt now c s = (s', Inr True)"
    and "\<forall>op \<in> set ops. \<not> ends_lease (claimEmailID c) c (claimLeaseUntil c) op"
    and "claimEmailID c' = claimEmailID c"
  shows "ClaimSendAttempt now' c' (run_ops ops s') = (run_ops ops s', Inr False)"
proof -
  have s': "s' = exec_op (OpClaim now c) s" using assms(2) by simp
  have key: "keyed eID (emails s')" unfolding s' using assms(1) by (rule keyed_exec_op)
  have "rows_affected (ClaimSendAttempt_where c) (emails s) = 1"
    using assms(2) exec_one_simps(2) [of "ClaimSendAttempt_where c" "ClaimSendAttempt_set now c" s]
    by (simp add: ClaimSendAttempt_def)
  then obtain e where e: "email_at s (claimEmailID c) = Some e" "ClaimSendAttempt_where c e"
    using rows_affected_keyed(1) [OF assms(1), of "ClaimSendAttempt_where c" "claimEmailID c"]
    by (auto simp: email_at_def ClaimSendAttempt_where_def)
  have "email_at s' (claimEmailID c) = Some (ClaimSendAttempt_set now c e)"
    using email_at_sql_update [of s' "ClaimSendAttempt_where c" "ClaimSendAttempt_set now c" s] e s'
    by (simp add: ClaimSendAttempt_def)
  then have "held c (claimLeaseUntil c) e'" if "email_at s' (claimEmailID c) = Some e'" for e'
    using that by (auto simp: held_def ClaimSendAttempt_set_def sql_ge_def)
  from held.run_ops_holds [OF key assms(3) this]
  have "keyed eID (emails (run_ops ops s'))"
    "\<And>e. email_at (run_ops ops s') (claimEmailID c) = Some e \<Longrightarrow> held c (claimLeaseUntil c) e" by auto
  then show ?thesis
    unfolding ClaimSendAttempt_def
    by (intro exec_one_refused [where i = "claimEmailID c"])
      (use assms(4) in \<open>auto simp: ClaimSendAttempt_where_def held_def\<close>)
qed

theorem lease_is_exclusive_witness:
  "let s' = fst (ClaimSendAttempt 5 demo_claim (exec_op (OpCreate 5 (blank_email 1 9)) empty_db)) in
   ClaimSendAttempt 60 (demo_claim\<lparr>claimFenceToken := 8\<rparr>) (run_ops [OpRecover 99, OpCancel 9 1] s') =
     (run_ops [OpRecover 99, OpCancel 9 1] s', Inr False)"
proof -
  let ?s = "exec_op (OpCreate 5 (blank_email 1 9)) empty_db"
  have "keyed eID (emails ?s)" by (rule keyed_exec_op) (simp add: empty_db_def)
  moreover have "snd (ClaimSendAttempt 5 demo_claim ?s) = Inr True" by code_simp
  then have "ClaimSendAttempt 5 demo_claim ?s = (fst (ClaimSendAttempt 5 demo_claim ?s), Inr True)"
    by (metis prod.collapse)
  ultimately show ?thesis
    using lease_is_exclusive [of ?s 5 demo_claim "fst (ClaimSendAttempt 5 demo_claim ?s)"
        "[OpRecover 99, OpCancel 9 1]" "demo_claim\<lparr>claimFenceToken := 8\<rparr>" 60]
    by (simp add: Let_def ends_lease_def releases_def demo_claim_def)
qed

section \<open>Recovery\<close>

lemma insort_row_mset [simp]: "mset (insort_row a xs) = add_mset a (mset xs)"
  by (induction xs) auto

lemma foldr_insort_mset: "mset (foldr insort_row xs []) = mset xs"
  by (induction xs) auto

lemma foldr_insort_set: "set (foldr insort_row xs []) = set xs"
  using foldr_insort_mset mset_eq_setD by blast

lemma recover_email_at:
  "email_at (fst (RecoverExpiredSendAttempts now s)) i =
     map_option (\<lambda>e. if recover_leased_where now e then recover_leased_set e
       else if recover_started_where now e then recover_started_set now e else e) (email_at s i)"
proof -
  have "\<not> recover_started_where now (recover_leased_set e)" for e
    by (simp add: recover_started_where_def recover_leased_set_def)
  then show ?thesis
    using email_at_sql_update [of "fst (RecoverExpiredSendAttempts now s)" "recover_started_where now"
        "recover_started_set now" "s\<lparr>emails := sql_update (recover_leased_where now) recover_leased_set (emails s)\<rparr>" i]
      email_at_update [where f = recover_leased_set and s = s and p = "recover_leased_where now" and i = i]
    by (cases "email_at s i") (simp_all add: RecoverExpiredSendAttempts_def Let_def)
qed

lemma pending_is_listed:
  assumes "email_at s i = Some e" and "eStatus e = EmailStatusQueued" and "eQueueRecoveryPending e"
    and "length (filter (\<lambda>e. eStatus e = EmailStatusQueued \<and> eQueueRecoveryPending e) (emails s)) \<le> 5000"
  shows "i \<in> set (ListQueueRecoveryPending 5000 s)"
proof -
  let ?l = "filter (\<lambda>e. eStatus e = EmailStatusQueued \<and> eQueueRecoveryPending e) (emails s)"
  have e: "e \<in> set ?l" "eID e = i" using assms(2,3) email_at_SomeD [OF assms(1)] by auto
  have "length (foldr insort_row ?l []) \<le> 5000"
    using assms(4) by (metis foldr_insort_mset size_mset)
  then have "ListQueueRecoveryPending 5000 s = map eID (foldr insort_row ?l [])"
    by (simp add: ListQueueRecoveryPending_def)
  then have "set (ListQueueRecoveryPending 5000 s) = eID ` set ?l"
    by (simp only: set_map foldr_insort_set)
  with e show ?thesis by blast
qed

text \<open>The recovery sweep settles every expired attempt the safe way: one that had not reached
  the provider goes back to the queue, flagged so that it is enqueued again even if the process
  dies before it does so; one that may have reached the provider becomes ambiguous and is not
  resubmitted; an attempt whose lease runs is left alone.\<close>

theorem recovery_requeues_or_parks:
  assumes "db_ok s" and "email_at s i = Some e" and "eStatus e = EmailStatusSending"
    and "eSendLeaseUntil e = Some l" and "RecoverExpiredSendAttempts now s = (s', Inr ids)"
  shows "\<exists>e'. email_at s' i = Some e' \<and>
    (l \<ge> now \<longrightarrow> e' = e) \<and>
    (l < now \<and> eSendAttemptState e = SendAttemptLeased \<longrightarrow>
       i \<in> set ids \<and> eStatus e' = EmailStatusQueued \<and> eSendFenceToken e' = None \<and>
       (length (filter (\<lambda>e. eStatus e = EmailStatusQueued \<and> eQueueRecoveryPending e) (emails s')) \<le> 5000 \<longrightarrow>
          i \<in> set (ListQueueRecoveryPending 5000 s'))) \<and>
    (l < now \<and> eSendAttemptState e = SendAttemptStarted \<longrightarrow>
       i \<notin> set ids \<and> eStatus e' = EmailStatusAmbiguous \<and> eSendFenceToken e' = None \<and>
       eSendAttemptID e' = eSendAttemptID e)"
proof -
  have mem: "e \<in> set (emails s)" "eID e = i" using assms(2) by (auto dest: email_at_SomeD)
  from assms(1) have key: "keyed eID (emails s)" by (simp add: db_ok_def)
  let ?e' = "if recover_leased_where now e then recover_leased_set e
       else if recover_started_where now e then recover_started_set now e else e"
  have at: "email_at s' i = Some ?e'"
    using recover_email_at [of now s i] assms(2,5) by simp
  have ids: "ids = map eID (filter (recover_leased_where now) (emails s))"
    using assms(5) by (simp add: RecoverExpiredSendAttempts_def Let_def)
  have "i \<in> set ids \<longleftrightarrow> recover_leased_where now e"
  proof -
    have "x = e" if "x \<in> set (emails s)" "eID x = i" for x
      using keyed_by_key [OF key that(1)] keyed_by_key [OF key mem(1)] that(2) mem(2) by simp
    moreover have "i \<in> set ids \<longleftrightarrow> (\<exists>x \<in> set (emails s). eID x = i \<and> recover_leased_where now x)"
      unfolding ids by auto
    ultimately show ?thesis using mem by metis
  qed
  moreover have listed: "i \<in> set (ListQueueRecoveryPending 5000 s')"
    if "eStatus ?e' = EmailStatusQueued" "eQueueRecoveryPending ?e'"
      "length (filter (\<lambda>e. eStatus e = EmailStatusQueued \<and> eQueueRecoveryPending e) (emails s')) \<le> 5000"
    using pending_is_listed [OF at that] .
  moreover have "attempt_ok e" using assms(1) mem(1) by (simp add: db_ok_def)
  ultimately show ?thesis
    using at assms(3,4)
    by (intro exI [of _ ?e'])
      (auto simp: row_defs sql_lt_def attempt_ok_def)
qed

theorem recovery_requeues_or_parks_witness:
  "\<exists>e'. email_at (fst (RecoverExpiredSendAttempts 500 demo_started)) 1 = Some e' \<and>
     eStatus e' = EmailStatusAmbiguous"
proof -
  let ?e = "(blank_email 1 9)\<lparr>eStatus := EmailStatusSending,
     eSendAttemptID := Some 2, eSendFenceToken := Some 3, eSendAttemptState := SendAttemptStarted,
     eSendLeaseUntil := Some 100\<rparr>"
  have "db_ok demo_started"
    by (simp add: db_ok_def demo_started_def empty_db_def attempt_ok_def blank_email_def)
  moreover have "email_at demo_started 1 = Some ?e"
    by (simp add: email_at_def demo_started_def empty_db_def blank_email_def)
  moreover obtain ids where "RecoverExpiredSendAttempts 500 demo_started =
      (fst (RecoverExpiredSendAttempts 500 demo_started), Inr ids)"
    by (simp add: RecoverExpiredSendAttempts_def Let_def)
  ultimately show ?thesis
    using recovery_requeues_or_parks [of demo_started 1 ?e 100 500] by fastforce
qed

end
