(* ===== verification/RedisQueue.thy ===== *)
theory RedisQueue
  imports Prelude "HOL-Library.Char_ord" "HOL-Library.List_Lexorder" "HOL-Library.Product_Lexorder"
begin

text \<open>
  \<open>internal/queue/redis.go\<close>: the wake-up queue. The record \<open>redis\<close> has one field per
  Redis key; every Lua script runs atomically and is one function. A Redis list is a list
  with its left end first (\<open>LPUSH\<close> is Cons, \<open>RPOP\<close> takes the last element), a sorted set
  an association list read in the order of score and then member. Times are Unix seconds.
  The locale \<open>work_queue\<close> states what the workers rely on and is interpreted on these
  scripts.
\<close>

section \<open>State\<close>

type_synonym zset = "(string \<times> int) list"

record redis =
  pending :: "string list"
  processing :: "string list"
  scheduled :: zset
  dead :: "string list"
  leases :: zset
  attempts :: "string \<Rightarrow> (nat \<times> int) option"

record QueueReceipt =
  qrEmailID :: string
  qrToken :: string
  qrLeaseUntil :: int

datatype queue_error = ErrReceiptNotOwned | ErrDeadLettered | ErrDeadLetterNotFound
  | ErrEmptyQueueItem | ErrNilReceipt | ErrRedis

definition empty_redis :: redis where
  "empty_redis = \<lparr>pending = [], processing = [], scheduled = [], dead = [], leases = [], attempts = (\<lambda>_. None)\<rparr>"

definition maxEmailAttempts :: nat where "maxEmailAttempts = 5"
definition emailLeaseSeconds :: int where "emailLeaseSeconds = 300"

section \<open>Redis commands\<close>

definition zrem :: "string \<Rightarrow> zset \<Rightarrow> zset" where
  "zrem m z = filter (\<lambda>p. fst p \<noteq> m) z"

definition zadd :: "int \<Rightarrow> string \<Rightarrow> zset \<Rightarrow> zset" where
  "zadd score m z = (m, score) # zrem m z"

definition zscore :: "zset \<Rightarrow> string \<Rightarrow> int option" where
  "zscore z m = map_of z m"

definition zrangebyscore :: "int \<Rightarrow> nat \<Rightarrow> zset \<Rightarrow> string list" where
  "zrangebyscore highest limit z =
     take limit (map fst (sort_key (\<lambda>p. (snd p, fst p)) (filter (\<lambda>p. snd p \<le> highest) z)))"

section \<open>Receipts\<close>

definition encodeReceipt :: "QueueReceipt \<Rightarrow> string" where
  "encodeReceipt r = qrToken r @ CHR ''|'' # qrEmailID r"

definition has_separator :: "string \<Rightarrow> bool" where
  "has_separator item \<longleftrightarrow> CHR ''|'' \<in> set item"

definition after_separator :: "string \<Rightarrow> string" where
  "after_separator item = tl (dropWhile (\<lambda>c. c \<noteq> CHR ''|'') item)"

definition is_hex :: "char \<Rightarrow> bool" where
  "is_hex c \<longleftrightarrow> (let n = (of_char c :: nat) in
     (48 \<le> n \<and> n \<le> 57) \<or> (97 \<le> n \<and> n \<le> 102) \<or> (65 \<le> n \<and> n \<le> 70))"

fun split_on :: "char \<Rightarrow> string \<Rightarrow> string list" where
  "split_on sep [] = [[]]"
| "split_on sep (c # s) =
     (if c = sep then [] # split_on sep s
      else (case split_on sep s of w # ws \<Rightarrow> (c # w) # ws | [] \<Rightarrow> [[c]]))"

text \<open>The pattern of five runs of hexadecimal digits separated by dashes.\<close>

definition raw_uuid :: "string \<Rightarrow> bool" where
  "raw_uuid item \<longleftrightarrow> (let parts = split_on (CHR ''-'') item in
     length parts = 5 \<and> (\<forall>p \<in> set parts. p \<noteq> [] \<and> (\<forall>c \<in> set p. is_hex c)))"

section \<open>Scripts\<close>

definition Enqueue :: "string \<Rightarrow> redis \<Rightarrow> redis" where
  "Enqueue i q = q\<lparr>pending := i # pending q\<rparr>"

definition Schedule :: "string \<Rightarrow> int \<Rightarrow> redis \<Rightarrow> redis" where
  "Schedule i at q = q\<lparr>scheduled := zadd at i (scheduled q)\<rparr>"

definition Reschedule :: "string \<Rightarrow> int \<Rightarrow> redis \<Rightarrow> redis" where
  "Reschedule i at q = q\<lparr>processing := remove1 i (processing q), scheduled := zadd at i (scheduled q)\<rparr>"

definition PromoteScheduled :: "int \<Rightarrow> redis \<Rightarrow> redis" where
  "PromoteScheduled now q =
     fold (\<lambda>i q. q\<lparr>scheduled := zrem i (scheduled q), pending := i # pending q\<rparr>)
       (zrangebyscore now 100 (scheduled q)) q"

definition Dequeue :: "string \<Rightarrow> int \<Rightarrow> redis \<Rightarrow> redis \<times> (queue_error + QueueReceipt option)" where
  "Dequeue token now q =
     (if pending q = [] then (q, Inr None)
      else
        (let i = last (pending q);
             r = \<lparr>qrEmailID = i, qrToken = token, qrLeaseUntil = now + emailLeaseSeconds\<rparr>;
             item = encodeReceipt r
         in (q\<lparr>pending := butlast (pending q), processing := item # processing q,
               leases := zadd (now + emailLeaseSeconds) item (leases q)\<rparr>,
             if i = [] then Inl ErrEmptyQueueItem else Inr (Some r))))"

definition Ack :: "QueueReceipt option \<Rightarrow> redis \<Rightarrow> redis \<times> (queue_error + unit)" where
  "Ack receipt q =
     (case receipt of
        None \<Rightarrow> (q, Inl ErrNilReceipt)
      | Some r \<Rightarrow>
          (let item = encodeReceipt r in
           if item \<in> set (processing q)
           then (q\<lparr>processing := remove1 item (processing q), leases := zrem item (leases q)\<rparr>, Inr ())
           else (q, Inl ErrReceiptNotOwned)))"

text \<open>\<open>INCR\<close> starts from zero when the counter has expired; \<open>EXPIRE\<close> renews its day.\<close>

definition live_attempts :: "int \<Rightarrow> redis \<Rightarrow> string \<Rightarrow> nat" where
  "live_attempts now q i =
     (case attempts q i of None \<Rightarrow> 0 | Some (n, expires) \<Rightarrow> if now < expires then n else 0)"

definition requeue_delay :: "nat \<Rightarrow> int" where
  "requeue_delay n = (let d = (if n > 1 then 2 ^ (n - 1) else 1) in if d > 300 then 300 else d)"

definition Requeue :: "QueueReceipt option \<Rightarrow> bool \<Rightarrow> int \<Rightarrow> redis \<Rightarrow> redis \<times> (queue_error + unit)" where
  "Requeue receipt countAttempt now q =
     (case receipt of
        None \<Rightarrow> (q, Inl ErrNilReceipt)
      | Some r \<Rightarrow>
          (let item = encodeReceipt r; i = qrEmailID r in
           if item \<notin> set (processing q) then (q, Inl ErrReceiptNotOwned)
           else
             (let q1 = q\<lparr>processing := remove1 item (processing q), leases := zrem item (leases q)\<rparr>;
                  n = (if countAttempt then live_attempts now q1 i + 1 else 0);
                  q2 = (if countAttempt then q1\<lparr>attempts := (attempts q1)(i \<mapsto> (n, now + 86400))\<rparr> else q1)
              in if countAttempt \<and> n \<ge> maxEmailAttempts
                 then (q2\<lparr>dead := take 10000 (i # dead q2)\<rparr>, Inl ErrDeadLettered)
                 else (q2\<lparr>scheduled := zadd (now + requeue_delay n) i (scheduled q2)\<rparr>, Inr ()))))"

definition RescheduleReceipt :: "QueueReceipt option \<Rightarrow> int \<Rightarrow> redis \<Rightarrow> redis \<times> (queue_error + unit)" where
  "RescheduleReceipt receipt at q =
     (case receipt of
        None \<Rightarrow> (q, Inl ErrNilReceipt)
      | Some r \<Rightarrow>
          (let item = encodeReceipt r in
           if item \<notin> set (processing q) then (q, Inl ErrReceiptNotOwned)
           else (q\<lparr>processing := remove1 item (processing q), leases := zrem item (leases q),
                   scheduled := zadd at (qrEmailID r) (scheduled q)\<rparr>, Inr ())))"

definition ListDead :: "int \<Rightarrow> redis \<Rightarrow> string list" where
  "ListDead limit q =
     (let l = (if limit < 1 then 50 else limit); l' = (if l > 100 then 100 else l)
      in take (nat l') (dead q))"

definition ReplayDead :: "string \<Rightarrow> redis \<Rightarrow> redis \<times> (queue_error + unit)" where
  "ReplayDead i q =
     (if i \<notin> set (dead q) then (q, Inl ErrDeadLetterNotFound)
      else (q\<lparr>dead := remove1 i (dead q), attempts := (attempts q)(i := None),
              pending := i # pending q\<rparr>, Inr ()))"

definition expired_lease :: "int \<Rightarrow> zset \<Rightarrow> string \<Rightarrow> bool" where
  "expired_lease now z item = (case zscore z item of None \<Rightarrow> False | Some l \<Rightarrow> l \<le> now)"

definition recover_item :: "int \<Rightarrow> string \<Rightarrow> redis \<Rightarrow> redis" where
  "recover_item now item q =
     (if has_separator item \<and> expired_lease now (leases q) item
      then q\<lparr>pending := pending q @ [after_separator item], leases := zrem item (leases q)\<rparr>
      else if \<not> has_separator item \<and> raw_uuid item then
        (if expired_lease now (leases q) item
         then q\<lparr>pending := pending q @ [item], leases := zrem item (leases q)\<rparr>
         else q\<lparr>leases := (if zscore (leases q) item = None
                           then zadd (now + emailLeaseSeconds) item (leases q) else leases q),
                processing := processing q @ [item]\<rparr>)
      else q\<lparr>processing := processing q @ [item]\<rparr>)"

text \<open>The script pushes the kept items back after the loop; nothing reads that list meanwhile.\<close>

definition Recover :: "int \<Rightarrow> redis \<Rightarrow> redis" where
  "Recover now q = fold (recover_item now) (processing q) (q\<lparr>processing := []\<rparr>)"

section \<open>Jobs\<close>

text \<open>An e-mail is in the queue's care while it is pending, leased, scheduled or dead-lettered. The workers poll the first three; a dead
  letter waits for an operator.\<close>

definition item_id :: "string \<Rightarrow> string" where
  "item_id item = (if has_separator item then after_separator item else item)"

definition jobs :: "redis \<Rightarrow> string set" where
  "jobs q = set (pending q) \<union> item_id ` set (processing q) \<union> fst ` set (scheduled q) \<union> set (dead q)"

datatype queue_op =
    QEnqueue string
  | QSchedule string int
  | QReschedule string int
  | QPromote int
  | QDequeue string int
  | QAck QueueReceipt
  | QRequeue QueueReceipt bool int
  | QRescheduleReceipt QueueReceipt int
  | QReplay string
  | QRecover int

fun exec_q :: "queue_op \<Rightarrow> redis \<Rightarrow> redis" where
  "exec_q (QEnqueue i) q = Enqueue i q"
| "exec_q (QSchedule i at) q = Schedule i at q"
| "exec_q (QReschedule i at) q = Reschedule i at q"
| "exec_q (QPromote now) q = PromoteScheduled now q"
| "exec_q (QDequeue token now) q = fst (Dequeue token now q)"
| "exec_q (QAck r) q = fst (Ack (Some r) q)"
| "exec_q (QRequeue r cnt now) q = fst (Requeue (Some r) cnt now q)"
| "exec_q (QRescheduleReceipt r at) q = fst (RescheduleReceipt (Some r) at q)"
| "exec_q (QReplay i) q = fst (ReplayDead i q)"
| "exec_q (QRecover now) q = Recover now q"

text \<open>Tokens are UUID strings and e-mail ids are too: neither contains the separator.\<close>

definition no_sep :: "string \<Rightarrow> bool" where
  "no_sep s \<longleftrightarrow> CHR ''|'' \<notin> set s"

definition q_ok :: "queue_op \<Rightarrow> bool" where
  "q_ok op = (case op of
     QReschedule i at \<Rightarrow> no_sep i
   | QDequeue token now \<Rightarrow> no_sep token
   | QAck r \<Rightarrow> no_sep (qrToken r)
   | QRequeue r cnt now \<Rightarrow> no_sep (qrToken r)
   | QRescheduleReceipt r at \<Rightarrow> no_sep (qrToken r)
   | _ \<Rightarrow> True)"

definition finishes :: "queue_op \<Rightarrow> redis \<Rightarrow> string \<Rightarrow> bool" where
  "finishes op q i = (case op of
     QAck r \<Rightarrow> qrEmailID r = i
   | QRequeue r cnt now \<Rightarrow> cnt \<and> length (dead q) \<ge> 10000
   | _ \<Rightarrow> False)"

lemma after_separator_encode: "no_sep t \<Longrightarrow> after_separator (t @ CHR ''|'' # i) = i"
  by (induction t) (auto simp: after_separator_def no_sep_def)

lemma item_id_encode [simp]: "no_sep (qrToken r) \<Longrightarrow> item_id (encodeReceipt r) = qrEmailID r"
  by (simp add: item_id_def encodeReceipt_def has_separator_def after_separator_encode)

lemma item_id_raw: "no_sep i \<Longrightarrow> item_id i = i"
  by (simp add: item_id_def has_separator_def no_sep_def)

lemma zadd_fst [simp]: "fst ` set (zadd x m z) = insert m (fst ` set z)"
  by (force simp: zadd_def zrem_def)

lemma zrem_fst [simp]: "fst ` set (zrem m z) = fst ` set z - {m}"
  by (force simp: zrem_def)

lemma zscore_zrem: "zscore (zrem m z) k = (if k = m then None else zscore z k)"
  by (induction z) (auto simp: zscore_def zrem_def)

lemma zscore_zadd: "zscore (zadd x m z) k = (if k = m then Some x else zscore z k)"
  using zscore_zrem [of m z k] by (auto simp: zscore_def zadd_def)

lemma remove1_image: "f ` set xs \<subseteq> insert (f x) (f ` set (remove1 x xs))"
proof
  fix y assume "y \<in> f ` set xs"
  then obtain z where "z \<in> set xs" "y = f z" by blast
  then show "y \<in> insert (f x) (f ` set (remove1 x xs))"
    by (cases "z = x") (auto simp: in_set_remove1)
qed

lemma promote_fold:
  "let q' = fold (\<lambda>i q. q\<lparr>scheduled := zrem i (scheduled q), pending := i # pending q\<rparr>) is q in
   pending q' = rev is @ pending q \<and>
   fst ` set (scheduled q') = fst ` set (scheduled q) - set is \<and>
   scheduled q' = filter (\<lambda>p. fst p \<notin> set is) (scheduled q) \<and>
   processing q' = processing q \<and> dead q' = dead q \<and> leases q' = leases q \<and> attempts q' = attempts q"
proof (induction "is" arbitrary: q)
  case (Cons i "is")
  have "filter (\<lambda>p. fst p \<notin> set is) (zrem i z) = filter (\<lambda>p. fst p \<noteq> i \<and> fst p \<notin> set is) z" for z
    unfolding zrem_def by (simp add: conj_commute)
  with Cons [of "q\<lparr>scheduled := zrem i (scheduled q), pending := i # pending q\<rparr>"] show ?case
    by (auto simp: Let_def)
qed simp

lemma recover_item_jobs: "insert (item_id item) (jobs q) \<subseteq> jobs (recover_item now item q)"
  by (auto simp: recover_item_def jobs_def item_id_def)

lemma recover_fold_jobs:
  "item_id ` set items \<union> jobs q \<subseteq> jobs (fold (recover_item now) items q)"
proof (induction items arbitrary: q)
  case (Cons item items)
  then show ?case using recover_item_jobs [of item q now] by fastforce
qed simp

lemma recover_jobs: "jobs q \<subseteq> jobs (Recover now q)"
  unfolding Recover_def
  using recover_fold_jobs [of "processing q" "q\<lparr>processing := []\<rparr>" now] by (auto simp: jobs_def)

lemma dequeue_jobs: "no_sep token \<Longrightarrow> jobs q \<subseteq> jobs (fst (Dequeue token now q))"
  by (cases "pending q" rule: rev_cases) (auto simp: Dequeue_def jobs_def Let_def)

lemma requeue_jobs:
  assumes "no_sep (qrToken r)" and "\<not> (cnt \<and> length (dead q) \<ge> 10000)"
  shows "jobs q \<subseteq> jobs (fst (Requeue (Some r) cnt now q))"
proof -
  have "item_id ` set (processing q) \<subseteq>
      insert (qrEmailID r) (item_id ` set (remove1 (encodeReceipt r) (processing q)))"
    using remove1_image [of item_id "processing q" "encodeReceipt r"] assms(1) by simp
  moreover have "take 10000 (i # dead q) = i # dead q" if cnt for i
    using that assms(2) by simp
  ultimately show ?thesis
    by (auto simp: Requeue_def Let_def jobs_def)
qed

lemma release_jobs:
  assumes "no_sep (qrToken r)"
  shows "jobs q \<subseteq> jobs (fst (RescheduleReceipt (Some r) at q))"
    and "jobs q - {qrEmailID r} \<subseteq> jobs (fst (Ack (Some r) q))"
  using remove1_image [of item_id "processing q" "encodeReceipt r"] assms
  by (auto simp: RescheduleReceipt_def Ack_def Let_def jobs_def)

lemma exec_q_keeps:
  assumes "q_ok op" and "i \<in> jobs q" and "\<not> finishes op q i"
  shows "i \<in> jobs (exec_q op q)"
proof (cases op)
  case (QPromote now)
  then show ?thesis
    using assms(2) promote_fold [of "zrangebyscore now 100 (scheduled q)" q]
    by (auto simp: PromoteScheduled_def jobs_def Let_def)
next
  case (QReschedule j at)
  then show ?thesis
    using assms(1,2) remove1_image [of item_id "processing q" j]
    by (auto simp: Reschedule_def jobs_def q_ok_def item_id_raw)
next
  case (QReplay j)
  then show ?thesis
    using assms(2) remove1_image [of "\<lambda>x. x" "dead q" j] by (auto simp: ReplayDead_def jobs_def)
next
  case (QDequeue token now)
  then show ?thesis using assms(1,2) dequeue_jobs [of token q now] by (auto simp: q_ok_def)
next
  case (QAck r)
  then show ?thesis using assms release_jobs(2) [of r q] by (auto simp: q_ok_def finishes_def)
next
  case (QRequeue r cnt now)
  then show ?thesis using assms requeue_jobs [of r cnt q now] by (auto simp: q_ok_def finishes_def)
next
  case (QRescheduleReceipt r at)
  then show ?thesis using assms release_jobs(1) [of r q at] by (auto simp: q_ok_def)
next
  case (QRecover now)
  then show ?thesis using assms(2) recover_jobs [of q now] by auto
qed (use assms(2) in \<open>simp_all add: Enqueue_def Schedule_def jobs_def\<close>)

text \<open>A call to Redis can fail without effect, or after it took effect.\<close>

definition redis_call :: "fault \<Rightarrow> (redis \<Rightarrow> redis \<times> (queue_error + 'a)) \<Rightarrow> redis \<Rightarrow> redis \<times> (queue_error + 'a)" where
  "redis_call x f q = (case x of
     NoFault \<Rightarrow> f q | FailLost \<Rightarrow> (q, Inl ErrRedis) | FailApplied \<Rightarrow> (fst (f q), Inl ErrRedis))"

lemma redis_call_state: "fst (redis_call x f q) = q \<or> fst (redis_call x f q) = fst (f q)"
  by (cases x) (simp_all add: redis_call_def)

section \<open>Receipts\<close>

definition owned :: "redis \<Rightarrow> QueueReceipt \<Rightarrow> bool" where
  "owned q r \<longleftrightarrow> encodeReceipt r \<in> set (processing q)"

definition settles :: "QueueReceipt \<Rightarrow> queue_op \<Rightarrow> bool" where
  "settles r op = (case op of
     QAck r' \<Rightarrow> r' = r | QRequeue r' _ _ \<Rightarrow> r' = r | QRescheduleReceipt r' _ \<Rightarrow> r' = r | _ \<Rightarrow> False)"

definition reissues :: "QueueReceipt \<Rightarrow> queue_op \<Rightarrow> bool" where
  "reissues r op = (case op of QDequeue token now \<Rightarrow> token = qrToken r | _ \<Rightarrow> False)"

lemma encode_eq:
  "no_sep t \<Longrightarrow> no_sep t' \<Longrightarrow> t @ CHR ''|'' # i = t' @ CHR ''|'' # i' \<longleftrightarrow> t = t' \<and> i = i'"
proof (induction t arbitrary: t')
  case Nil
  then show ?case by (cases t') (auto simp: no_sep_def)
next
  case (Cons c t)
  then show ?case by (cases t') (auto simp: no_sep_def)
qed

lemma recover_item_processing:
  "mset (processing (recover_item now item q)) \<subseteq># add_mset item (mset (processing q))"
  by (simp add: recover_item_def)

lemma recover_processing: "mset (processing (Recover now q)) \<subseteq># mset (processing q)"
proof -
  have "mset (processing (fold (recover_item now) items q)) \<subseteq># mset items + mset (processing q)" for items q
  proof (induction items arbitrary: q)
    case (Cons item items)
    have "mset (processing (fold (recover_item now) items (recover_item now item q))) \<subseteq>#
        mset items + mset (processing (recover_item now item q))" by (rule Cons)
    also have "\<dots> \<subseteq># mset items + add_mset item (mset (processing q))"
      using recover_item_processing by (rule subset_mset.add_left_mono)
    finally show ?case by simp
  qed simp
  from this [of "processing q" "q\<lparr>processing := []\<rparr>"] show ?thesis by (simp add: Recover_def)
qed

text \<open>How often the item of a receipt is in the processing list.\<close>

definition copies :: "redis \<Rightarrow> QueueReceipt \<Rightarrow> nat" where
  "copies q r = count (mset (processing q)) (encodeReceipt r)"

lemma owned_copies: "owned q r \<longleftrightarrow> copies q r > 0"
  by (simp add: owned_def copies_def)

lemma copies_step:
  assumes "q_ok op" and "no_sep (qrToken r)" and "\<not> reissues r op"
  shows "copies (exec_q op q) r \<le> copies q r"
proof (cases op)
  case (QDequeue token now)
  with assms have "token \<noteq> qrToken r" "no_sep token" by (auto simp: reissues_def q_ok_def)
  then have "token @ CHR ''|'' # i \<noteq> encodeReceipt r" for i
    using encode_eq [OF _ assms(2)] by (simp add: encodeReceipt_def)
  with QDequeue show ?thesis
    by (simp add: Dequeue_def copies_def Let_def encodeReceipt_def)
next
  case (QPromote now)
  then show ?thesis
    using promote_fold [of "zrangebyscore now 100 (scheduled q)" q]
    by (simp add: PromoteScheduled_def copies_def Let_def)
next
  case (QRecover now)
  then show ?thesis using recover_processing [of now q] by (simp add: copies_def mset_subset_eq_count)
qed (simp_all add: Enqueue_def Schedule_def Reschedule_def Ack_def Requeue_def RescheduleReceipt_def
    ReplayDead_def copies_def Let_def)

lemma settles_step:
  assumes "settles r op" and "owned q r"
  shows "copies (exec_q op q) r = copies q r - 1"
  using assms
  by (cases op) (auto simp: settles_def owned_def copies_def Ack_def Requeue_def
      RescheduleReceipt_def Let_def)

section \<open>The contract\<close>

text \<open>
  What the workers need of a queue: a job stays in its care until it is finished, a receipt
  that has been settled is not owned again, and a settlement without ownership is refused.
\<close>

locale work_queue =
  fixes step :: "'op \<Rightarrow> 'q \<Rightarrow> 'q"
    and ok :: "'op \<Rightarrow> bool"
    and jobs_of :: "'q \<Rightarrow> 'j set"
    and ends :: "'op \<Rightarrow> 'q \<Rightarrow> 'j \<Rightarrow> bool"
    and weight :: "'q \<Rightarrow> 'r \<Rightarrow> nat"
    and settling :: "'r \<Rightarrow> 'op \<Rightarrow> bool"
    and issues :: "'r \<Rightarrow> 'op \<Rightarrow> bool"
    and valid :: "'r \<Rightarrow> bool"
  assumes keeps: "ok op \<Longrightarrow> j \<in> jobs_of q \<Longrightarrow> \<not> ends op q j \<Longrightarrow> j \<in> jobs_of (step op q)"
    and decreasing: "ok op \<Longrightarrow> valid r \<Longrightarrow> \<not> issues r op \<Longrightarrow> weight (step op q) r \<le> weight q r"
    and settled: "settling r op \<Longrightarrow> weight q r > 0 \<Longrightarrow> weight (step op q) r = weight q r - 1"
begin

text \<open>If a job has left the queue, some operation of the trace finished it.\<close>

lemma lost_only_if_finished:
  assumes "\<forall>op \<in> set ops. ok op" and "j \<in> jobs_of q" and "j \<notin> jobs_of (fold step ops q)"
  shows "\<exists>done op rest. ops = done @ op # rest \<and> ends op (fold step done q) j"
  using assms
proof (induction ops arbitrary: q)
  case (Cons op ops)
  show ?case
  proof (cases "ends op q j")
    case True
    then show ?thesis by (metis append_Nil fold_Nil id_apply)
  next
    case False
    then have "j \<in> jobs_of (step op q)" using Cons.prems(1,2) keeps by simp
    then obtain d o' r where "ops = d @ o' # r" "ends o' (fold step d (step op q)) j"
      using Cons.IH [of "step op q"] Cons.prems by auto
    then show ?thesis by (intro exI [of _ "op # d"]) auto
  qed
qed simp

lemma fold_decreasing:
  assumes "\<forall>op \<in> set ops. ok op \<and> \<not> issues r op" and "valid r"
  shows "weight (fold step ops q) r \<le> weight q r"
  using assms(1)
proof (induction ops arbitrary: q)
  case (Cons op ops)
  then have "weight (fold step ops (step op q)) r \<le> weight (step op q) r" by simp
  also have "\<dots> \<le> weight q r" using Cons.prems decreasing assms(2) by simp
  finally show ?case by simp
qed simp

lemma settled_once:
  assumes "weight q r = 1" and "settling r op"
    and "\<forall>op \<in> set ops. ok op \<and> \<not> issues r op" and "valid r"
  shows "weight (fold step ops (step op q)) r = 0"
  using fold_decreasing [OF assms(3,4), of "step op q"] settled [OF assms(2)] assms(1) by simp

end

interpretation rq: work_queue exec_q q_ok jobs finishes copies settles reissues "\<lambda>r. no_sep (qrToken r)"
  by unfold_locales (auto intro: exec_q_keeps copies_step simp: settles_step owned_copies)

section \<open>Properties\<close>

text \<open>C7: The queue loses no work. If an e-mail was in its care and after some operations, in any
  order, it is not, then one of them was the acknowledgement of a receipt for that
  e-mail, or a counted requeue while the dead-letter list held its 10000 entries.\<close>

theorem queue_loses_no_work:
  assumes "\<forall>op \<in> set ops. q_ok op" and "i \<in> jobs q" and "i \<notin> jobs (fold exec_q ops q)"
  shows "\<exists>done op rest. ops = done @ op # rest \<and> finishes op (fold exec_q done q) i"
  using assms by (rule rq.lost_only_if_finished)

definition demo_receipt :: QueueReceipt where
  "demo_receipt = \<lparr>qrEmailID = ''e1'', qrToken = ''t1'', qrLeaseUntil = 300\<rparr>"

theorem queue_loses_no_work_witness:
  "\<exists>done op rest. [QDequeue ''t1'' 0, QAck demo_receipt] = done @ op # rest \<and>
     finishes op (fold exec_q done (Enqueue ''e1'' empty_redis)) ''e1''"
  by (rule queue_loses_no_work)
    (auto simp: q_ok_def no_sep_def demo_receipt_def jobs_def Enqueue_def empty_redis_def Dequeue_def
      Ack_def Let_def encodeReceipt_def)

text \<open>A receipt settles its job once. After a worker acknowledged, requeued or rescheduled
  the one item its receipt stands for, every further use of the receipt is refused and changes
  nothing, whatever happened in between, including recovery.\<close>

theorem receipt_settles_once:
  assumes "copies q r = 1" and "settles r op" and "no_sep (qrToken r)"
    and "\<forall>op \<in> set ops. q_ok op \<and> \<not> reissues r op"
  shows "let q' = fold exec_q ops (exec_q op q) in
    Ack (Some r) q' = (q', Inl ErrReceiptNotOwned) \<and>
    Requeue (Some r) cnt now q' = (q', Inl ErrReceiptNotOwned) \<and>
    RescheduleReceipt (Some r) at q' = (q', Inl ErrReceiptNotOwned)"
proof -
  have "copies (fold exec_q ops (exec_q op q)) r = 0"
    using assms by (intro rq.settled_once) auto
  then have "\<not> owned (fold exec_q ops (exec_q op q)) r" by (simp add: owned_copies)
  then show ?thesis
    by (simp add: owned_def Ack_def Requeue_def RescheduleReceipt_def Let_def)
qed

theorem receipt_settles_once_witness:
  "let q' = fold exec_q [QRecover 900] (exec_q (QAck demo_receipt)
       (fst (Dequeue ''t1'' 0 (Enqueue ''e1'' empty_redis)))) in
   Ack (Some demo_receipt) q' = (q', Inl ErrReceiptNotOwned)"
  using receipt_settles_once [of "fst (Dequeue ''t1'' 0 (Enqueue ''e1'' empty_redis))" demo_receipt
      "QAck demo_receipt" "[QRecover 900]"]
  by (simp add: Let_def copies_def Dequeue_def Enqueue_def empty_redis_def encodeReceipt_def
      demo_receipt_def settles_def q_ok_def reissues_def no_sep_def)

section \<open>Retries and dead letters\<close>

text \<open>A counted requeue backs off and gives up. With \<open>n\<close> attempts counted within the last
  day, the next one is scheduled \<open>2^n\<close> seconds later while fewer than five are counted, and the
  fifth moves the e-mail to the dead-letter list and schedules nothing; the receipt is released
  either way and the list never holds more than 10000 entries.\<close>

theorem requeue_backs_off_then_dead_letters:
  assumes "owned q r" and "live_attempts now q (qrEmailID r) = n" and "length (dead q) \<le> 10000"
  shows "let (q', res) = Requeue (Some r) True now q; i = qrEmailID r in
      live_attempts now q' i = n + 1 \<and> copies q' r = copies q r - 1 \<and> length (dead q') \<le> 10000 \<and>
      (if n + 1 < 5 then res = Inr () \<and> zscore (scheduled q') i = Some (now + 2 ^ n) \<and> dead q' = dead q
       else res = Inl ErrDeadLettered \<and> hd (dead q') = i \<and> scheduled q' = scheduled q)"
proof -
  have "requeue_delay (Suc n) = 2 ^ n" if "n < 4"
  proof -
    from that have "n \<in> {0, 1, 2, 3}" by auto
    then show ?thesis by (auto simp: requeue_delay_def)
  qed
  with assms show ?thesis
    by (auto simp: Requeue_def Let_def owned_def copies_def live_attempts_def maxEmailAttempts_def
        zscore_zadd min_def)
qed

theorem requeue_backs_off_then_dead_letters_witness:
  "let (q', res) = Requeue (Some demo_receipt) True 10
       ((fst (Dequeue ''t1'' 0 (Enqueue ''e1'' empty_redis)))\<lparr>attempts := [''e1'' \<mapsto> (4, 99)]\<rparr>) in
   res = Inl ErrDeadLettered \<and> hd (dead q') = ''e1''"
  using requeue_backs_off_then_dead_letters
    [of "(fst (Dequeue ''t1'' 0 (Enqueue ''e1'' empty_redis)))\<lparr>attempts := [''e1'' \<mapsto> (4, 99)]\<rparr>"
      demo_receipt 10 4]
  by (simp add: Let_def owned_def live_attempts_def Dequeue_def Enqueue_def empty_redis_def
      encodeReceipt_def demo_receipt_def split: prod.splits)

section \<open>Recovery\<close>

definition recoverable :: "int \<Rightarrow> redis \<Rightarrow> string \<Rightarrow> bool" where
  "recoverable now q item \<longleftrightarrow> expired_lease now (leases q) item \<and> (has_separator item \<or> raw_uuid item)"

lemma recover_item_leases:
  "k \<noteq> item \<Longrightarrow> zscore (leases (recover_item now item q)) k = zscore (leases q) k"
  by (simp add: recover_item_def zscore_zrem zscore_zadd)

lemma recover_item_other:
  "k \<noteq> item \<Longrightarrow> recoverable now (recover_item now item q) k = recoverable now q k"
  by (simp add: recoverable_def expired_lease_def recover_item_leases)

lemma recover_item_split:
  "recover_item now item q =
     (recover_item now item q)\<lparr>
       pending := pending q @ (if recoverable now q item then [item_id item] else []),
       processing := processing q @ (if recoverable now q item then [] else [item])\<rparr>"
  by (auto simp: recover_item_def recoverable_def item_id_def)

lemma recover_item_lists:
  "pending (recover_item now item q) = pending q @ (if recoverable now q item then [item_id item] else [])"
  "processing (recover_item now item q) = processing q @ (if recoverable now q item then [] else [item])"
  by (subst recover_item_split, simp)+

lemma recover_fold_lists:
  assumes "distinct items"
  shows "pending (fold (recover_item now) items q) =
      pending q @ map item_id (filter (recoverable now q) items) \<and>
    processing (fold (recover_item now) items q) =
      processing q @ filter (\<lambda>x. \<not> recoverable now q x) items"
  using assms
proof (induction items arbitrary: q)
  case (Cons item items)
  have other: "recoverable now (recover_item now item q) x = recoverable now q x" if "x \<in> set items" for x
    using that Cons.prems by (intro recover_item_other) auto
  have "filter (recoverable now (recover_item now item q)) items = filter (recoverable now q) items"
    "filter (\<lambda>x. \<not> recoverable now (recover_item now item q) x) items =
       filter (\<lambda>x. \<not> recoverable now q x) items"
    using other by (auto intro!: filter_cong)
  with Cons.IH [of "recover_item now item q"] Cons.prems show ?case
    by (simp add: recover_item_lists)
qed simp

text \<open>Recovery takes back exactly the expired work: every processing item whose lease has
  run out returns to the pending list under its e-mail id, every other item stays with its
  worker in its place, and nothing else moves.\<close>

theorem recover_returns_expired_only:
  assumes "distinct (processing q)"
  shows "pending (Recover now q) = pending q @ map item_id (filter (recoverable now q) (processing q)) \<and>
    processing (Recover now q) = filter (\<lambda>x. \<not> recoverable now q x) (processing q)"
proof -
  have "recoverable now (q\<lparr>processing := []\<rparr>) = recoverable now q"
    by (simp add: recoverable_def fun_eq_iff)
  then show ?thesis
    using recover_fold_lists [OF assms, of now "q\<lparr>processing := []\<rparr>"] by (simp add: Recover_def)
qed

theorem recover_returns_expired_only_witness:
  "pending (Recover 300 (fst (Dequeue ''t1'' 0 (Enqueue ''e1'' empty_redis)))) = [''e1'']"
  using recover_returns_expired_only [of "fst (Dequeue ''t1'' 0 (Enqueue ''e1'' empty_redis))" 300]
  by (simp add: Dequeue_def Enqueue_def empty_redis_def Let_def encodeReceipt_def recoverable_def
      expired_lease_def zscore_zadd emailLeaseSeconds_def has_separator_def item_id_def after_separator_def)

section \<open>Promotion\<close>

text \<open>Promotion moves at most 100 due items, earliest first, from the schedule to the pending
  list: everything moved was due, everything not due stays, and if no more than 100 were
  due no due item stays behind.\<close>

theorem promote_moves_due_items:
  "\<exists>moved. pending (PromoteScheduled now q) = rev moved @ pending q \<and>
     scheduled (PromoteScheduled now q) = filter (\<lambda>p. fst p \<notin> set moved) (scheduled q) \<and>
     length moved \<le> 100 \<and>
     set moved \<subseteq> fst ` {p \<in> set (scheduled q). snd p \<le> now} \<and>
     (length (filter (\<lambda>p. snd p \<le> now) (scheduled q)) \<le> 100 \<longrightarrow>
        (\<forall>p \<in> set (scheduled (PromoteScheduled now q)). now < snd p))"
proof -
  let ?due = "filter (\<lambda>p. snd p \<le> now) (scheduled q)"
  let ?moved = "zrangebyscore now 100 (scheduled q)"
  have "pending (PromoteScheduled now q) = rev ?moved @ pending q"
    "scheduled (PromoteScheduled now q) = filter (\<lambda>p. fst p \<notin> set ?moved) (scheduled q)"
    using promote_fold [of ?moved q] by (simp_all add: PromoteScheduled_def Let_def)
  moreover have "length ?moved \<le> 100" by (simp add: zrangebyscore_def)
  moreover have "set ?moved \<subseteq> fst ` {p \<in> set (scheduled q). snd p \<le> now}"
    by (auto simp: zrangebyscore_def dest!: in_set_takeD)
  moreover have "set ?moved = fst ` set ?due" if "length ?due \<le> 100"
    using that by (simp add: zrangebyscore_def)
  ultimately show ?thesis
    by (intro exI [of _ ?moved]) (auto simp: image_iff)
qed

theorem promote_moves_due_items_witness:
  "\<exists>moved. pending (PromoteScheduled 9 (Schedule ''a'' 5 empty_redis)) = rev moved \<and>
     scheduled (PromoteScheduled 9 (Schedule ''a'' 5 empty_redis)) =
       filter (\<lambda>p. fst p \<notin> set moved) [(''a'', 5)] \<and> length moved \<le> 100"
  using promote_moves_due_items [of 9 "Schedule ''a'' 5 empty_redis"]
  by (auto simp: Schedule_def empty_redis_def zadd_def zrem_def)

end
