(* ===== verification/EmailProcessing.thy ===== *)
theory EmailProcessing
  imports SendAttempts RedisQueue
begin

text \<open>
  \<open>processFromQueueDurable\<close> and its helpers in \<open>internal/service/email_service.go\<close>, and
  \<open>processNext\<close> of \<open>internal/worker/email_worker.go\<close>. A run is a function of the world (the
  database and the log of submissions to the provider) and of an environment that fixes
  what the run cannot control: clocks, fresh identifiers, which call to the store fails
  and whether it had taken effect, the provider's answer, and the JSON encoder. The main
  lemma \<open>process_trace\<close> decomposes a run into repository operations before and after the
  submission, which carries the theorems on the send-attempt machine over to the service.
\<close>

section \<open>Environment and results\<close>

datatype site =
    SGet | SClaim | SSuppressions | SContacts | SPolicyRetry | SPolicyFail | SStart | SEvent
  | SRetry | SRetryEvent | SFail | SAmbiguous nat | SAccept nat | SLastAmbiguous
  | SDeadLetter | SDeadLetterEvent

text \<open>The values that occur in event data.\<close>

datatype json_value = JString string | JBool bool | JInt int

type_synonym event_data = "(string \<times> json_value) list"

record submission =
  subEmail :: uuid
  subAttempt :: uuid
  subFence :: uuid

record world =
  wdb :: db
  wsent :: "submission list"

record proc_env =
  penvParse :: "string \<Rightarrow> uuid option"
  penvFault :: "site \<Rightarrow> fault"
  penvNow :: "site \<Rightarrow> instant"
  penvCheckTime :: instant
  penvLeaseTime :: instant
  penvStartTime :: instant
  penvAttemptID :: uuid
  penvFenceToken :: uuid
  penvEventID :: "site \<Rightarrow> uuid"
  penvOutboxID :: "site \<Rightarrow> uuid"
  penvCtxDone :: "nat \<Rightarrow> bool"
  penvMarshalEmail :: "Email \<Rightarrow> string option"
  penvMarshalData :: "event_data \<Rightarrow> string option"
  penvSend :: "Email \<Rightarrow> send_error + string"
  penvSuppressionRepo :: bool
  penvContactRepo :: bool

datatype proc_error =
    ErrInvalidEmailID
  | ErrEmailNotFound
  | ErrEmailNotQueued
  | ErrEmailNotDue instant
  | ErrEmailDeliveryFailed
  | ErrEmailDeliveryRetryable
  | ErrEmailOutcomeAmbiguous
  | ErrEmailAccepted
  | ErrOther

type_synonym outcome = "world \<times> (proc_error + unit)"

definition db_call :: "proc_env \<Rightarrow> site \<Rightarrow> (db \<Rightarrow> db \<times> 'a result) \<Rightarrow> world \<Rightarrow> world \<times> 'a result" where
  "db_call env st f w =
     (case run_call (penvFault env st) f (wdb w) of (s, r) \<Rightarrow> (w\<lparr>wdb := s\<rparr>, r))"

section \<open>Recipient policy\<close>

datatype policy =
  PolicyOk | PolicySuppressed string SuppressionReason | PolicyUnsubscribed string | PolicyUnavailable

definition normalizeEmailRecipients :: "Email \<Rightarrow> string list" where
  "normalizeEmailRecipients e = map NormalizeEmail (eTo e @ eCC e @ eBCC e)"

definition checkRecipientSuppression ::
  "bool \<Rightarrow> bool \<Rightarrow> fault \<Rightarrow> fault \<Rightarrow> uuid \<Rightarrow> string list \<Rightarrow> db \<Rightarrow> policy" where
  "checkRecipientSuppression supRepo conRepo x y team recipients s =
     (let contacts_part =
        (if conRepo then
           (case run_call y (\<lambda>s. (s, Inr (GetUnsubscribedByEmails team recipients s))) s of
              (_, Inl _) \<Rightarrow> PolicyUnavailable
            | (_, Inr found) \<Rightarrow> case found of [] \<Rightarrow> PolicyOk | a # _ \<Rightarrow> PolicyUnsubscribed a)
         else PolicyOk)
      in if supRepo then
           (case run_call x (\<lambda>s. (s, Inr (GetByEmails team recipients s))) s of
              (_, Inl _) \<Rightarrow> PolicyUnavailable
            | (_, Inr found) \<Rightarrow> case found of [] \<Rightarrow> contacts_part
                | x # _ \<Rightarrow> PolicySuppressed (supEmail x) (supReason x))
         else contacts_part)"

definition reason_text :: "SuppressionReason \<Rightarrow> string" where
  "reason_text r = (case r of SuppressionReasonUnsubscribe \<Rightarrow> ''unsubscribe''
     | SuppressionReasonBounce \<Rightarrow> ''bounce'' | SuppressionReasonComplaint \<Rightarrow> ''complaint'')"

definition policy_text :: "policy \<Rightarrow> string" where
  "policy_text p = (case p of
     PolicySuppressed a r \<Rightarrow> ''recipient is suppressed: '' @ a @ '' ('' @ reason_text r @ '')''
   | PolicyUnsubscribed a \<Rightarrow> ''recipient is unsubscribed: '' @ a
   | _ \<Rightarrow> [])"

section \<open>Events\<close>

definition deliveryErrorEventData :: "send_error \<Rightarrow> event_data" where
  "deliveryErrorEventData err =
     [(''reason'', JString (errorText err)), (''retryable'', JBool (IsRetryableDeliveryError err))] @
     (case DeliveryErrorDetails err of
        None \<Rightarrow> []
      | Some d \<Rightarrow>
          (if deSMTPCode d \<noteq> 0 then [(''smtp_code'', JInt (deSMTPCode d))] else []) @
          (if deEnhancedStatusCode d \<noteq> [] then [(''enhanced_status_code'', JString (deEnhancedStatusCode d))] else []) @
          (if deProviderCode d \<noteq> [] then [(''provider_code'', JString (deProviderCode d))] else []))"

definition durable_event ::
  "(event_data \<Rightarrow> string option) \<Rightarrow> (Email \<Rightarrow> string option) \<Rightarrow> uuid \<Rightarrow> uuid \<Rightarrow>
   Email \<Rightarrow> string \<Rightarrow> event_data option \<Rightarrow> RetentionClass \<Rightarrow> (EmailEvent \<times> WebhookOutboxEvent) option" where
  "durable_event marshalData marshalEmail eventID outboxID email name data cls =
     (case (case data of None \<Rightarrow> Some ''{}'' | Some d \<Rightarrow> marshalData d) of
        None \<Rightarrow> None
      | Some dataJSON \<Rightarrow>
          (case marshalEmail email of
             None \<Rightarrow> None
           | Some payload \<Rightarrow> Some
               (\<lparr>evID = eventID, evEmailID = eID email, evEvent = name, evData = dataJSON\<rparr>,
                \<lparr>obID = outboxID, obTeamID = eTeamID email, obEventID = eventID,
                 obEvent = name, obPayload = payload, obRetentionClass = cls\<rparr>)))"

definition buildDurableEvent ::
  "proc_env \<Rightarrow> site \<Rightarrow> Email \<Rightarrow> string \<Rightarrow> event_data option \<Rightarrow> RetentionClass \<Rightarrow>
   (EmailEvent \<times> WebhookOutboxEvent) option" where
  "buildDurableEvent env st = durable_event (penvMarshalData env) (penvMarshalEmail env) (penvEventID env st) (penvOutboxID env st)"

text \<open>\<open>recordEvent\<close> logs a failure and goes on, so only its effect on the store matters.\<close>

definition recordEvent :: "proc_env \<Rightarrow> site \<Rightarrow> uuid \<Rightarrow> string \<Rightarrow> event_data option \<Rightarrow> world \<Rightarrow> world" where
  "recordEvent env st i name data w =
     (let dataJSON = (case data of None \<Rightarrow> ''null''
        | Some d \<Rightarrow> (case penvMarshalData env d of Some j \<Rightarrow> j | None \<Rightarrow> ''null''))
      in fst (db_call env st
           (AddEvent \<lparr>evID = penvEventID env st, evEmailID = i, evEvent = name, evData = dataJSON\<rparr>) w))"

section \<open>Settling loops\<close>

text \<open>Three tries; the argument is the number of tries left, the caller starts with three.\<close>

fun finalizeAmbiguousOutcome ::
  "proc_env \<Rightarrow> SendAttemptClaim \<Rightarrow> EmailEvent \<Rightarrow> WebhookOutboxEvent \<Rightarrow> nat \<Rightarrow> world \<Rightarrow> world \<times> bool result" where
  "finalizeAmbiguousOutcome env c ev ob 0 w = (w, Inl ConnFailure)"
| "finalizeAmbiguousOutcome env c ev ob (Suc n) w =
     (let attempt = 2 - n in
      case db_call env (SAmbiguous attempt)
             (FinalizeAmbiguous (penvNow env (SAmbiguous attempt)) c (Some ev) (Some ob)) w of
        (w1, Inr persisted) \<Rightarrow> (w1, Inr persisted)
      | (w1, Inl e) \<Rightarrow>
          if n = 0 \<or> penvCtxDone env attempt then (w1, Inl e)
          else finalizeAmbiguousOutcome env c ev ob n w1)"

fun accept_loop ::
  "proc_env \<Rightarrow> SendAttemptClaim \<Rightarrow> string \<Rightarrow> EmailEvent \<Rightarrow> WebhookOutboxEvent \<Rightarrow> nat \<Rightarrow> world \<Rightarrow> world \<times> bool" where
  "accept_loop env c m ev ob 0 w = (w, False)"
| "accept_loop env c m ev ob (Suc n) w =
     (let attempt = 2 - n in
      case db_call env (SAccept attempt)
             (FinalizeAccepted (penvNow env (SAccept attempt)) c m (Some ev) (Some ob)) w of
        (w1, Inr True) \<Rightarrow> (w1, True)
      | (w1, Inr False) \<Rightarrow> (w1, False)
      | (w1, Inl e) \<Rightarrow>
          if n = 0 \<or> penvCtxDone env attempt then (w1, False)
          else accept_loop env c m ev ob n w1)"

section \<open>One run\<close>

definition refuse_by_policy :: "proc_env \<Rightarrow> SendAttemptClaim \<Rightarrow> Email \<Rightarrow> policy \<Rightarrow> world \<Rightarrow> outcome" where
  "refuse_by_policy env c email p w =
     (if p = PolicyUnavailable then
        (case db_call env SPolicyRetry (MarkSendRetryable (penvNow env SPolicyRetry) c) w of
           (w1, Inl _) \<Rightarrow> (w1, Inl ErrOther)
         | (w1, Inr False) \<Rightarrow> (w1, Inl ErrEmailNotQueued)
         | (w1, Inr True) \<Rightarrow> (w1, Inl ErrEmailDeliveryRetryable))
      else
        (case buildDurableEvent env SPolicyFail email ''email.failed'' (Some [(''reason'', JString (policy_text p))])
                RetentionOutbound of
           None \<Rightarrow> (w, Inl ErrOther)
         | Some (ev, ob) \<Rightarrow>
             (case db_call env SPolicyFail (FinalizeFailed (penvNow env SPolicyFail) c (Some ev) (Some ob)) w of
                (w1, Inl _) \<Rightarrow> (w1, Inl ErrOther)
              | (w1, Inr False) \<Rightarrow> (w1, Inl ErrEmailNotQueued)
              | (w1, Inr True) \<Rightarrow> (w1, Inl ErrEmailDeliveryFailed))))"

definition park_ambiguous ::
  "proc_env \<Rightarrow> SendAttemptClaim \<Rightarrow> Email \<Rightarrow> event_data \<Rightarrow> world \<Rightarrow> outcome" where
  "park_ambiguous env c email data w =
     (case buildDurableEvent env (SAmbiguous 0) email ''email.ambiguous'' (Some data) RetentionOutbound of
        None \<Rightarrow> (w, Inl ErrEmailOutcomeAmbiguous)
      | Some (ev, ob) \<Rightarrow> (fst (finalizeAmbiguousOutcome env c ev ob 3 w), Inl ErrEmailOutcomeAmbiguous))"

definition handle_send_error :: "proc_env \<Rightarrow> SendAttemptClaim \<Rightarrow> Email \<Rightarrow> send_error \<Rightarrow> world \<Rightarrow> outcome" where
  "handle_send_error env c email err w =
     (let data = deliveryErrorEventData err in
      if DeliveryOutcomeUnknown err then park_ambiguous env c email data w
      else if IsRetryableDeliveryError err then
        (case db_call env SRetry (MarkSendRetryable (penvNow env SRetry) c) w of
           (w1, Inl _) \<Rightarrow> (w1, Inl ErrOther)
         | (w1, Inr False) \<Rightarrow> (w1, Inl ErrEmailNotQueued)
         | (w1, Inr True) \<Rightarrow>
             (recordEvent env SRetryEvent (eID email) ''email.retrying'' (Some data) w1, Inl ErrEmailDeliveryRetryable))
      else
        (case buildDurableEvent env SFail email ''email.failed'' (Some data) RetentionOutbound of
           None \<Rightarrow> (w, Inl ErrOther)
         | Some (ev, ob) \<Rightarrow>
             (case db_call env SFail (FinalizeFailed (penvNow env SFail) c (Some ev) (Some ob)) w of
                (w1, Inl _) \<Rightarrow> (w1, Inl ErrOther)
              | (w1, Inr False) \<Rightarrow> (w1, Inl ErrEmailNotQueued)
              | (w1, Inr True) \<Rightarrow> (w1, Inl ErrEmailDeliveryFailed))))"

definition handle_accepted :: "proc_env \<Rightarrow> SendAttemptClaim \<Rightarrow> Email \<Rightarrow> string \<Rightarrow> world \<Rightarrow> outcome" where
  "handle_accepted env c email m w =
     (let sent = email\<lparr>eProviderMessageID := Some m, eStatus := EmailStatusSent,
                       eSendAttemptState := SendAttemptAccepted\<rparr> in
      case buildDurableEvent env (SAccept 0) sent ''email.sent'' None RetentionOutbound of
        None \<Rightarrow> (w, Inl ErrOther)
      | Some (ev, ob) \<Rightarrow>
          (case accept_loop env c m ev ob 3 w of
             (w1, True) \<Rightarrow> (w1, Inr ())
           | (w1, False) \<Rightarrow>
               (let amb = sent\<lparr>eStatus := EmailStatusAmbiguous, eSendAttemptState := SendAttemptAmbiguous\<rparr> in
                case buildDurableEvent env SLastAmbiguous amb ''email.ambiguous''
                       (Some [(''reason'', JString ''provider acceptance needs local reconciliation'')]) RetentionOutbound of
                  None \<Rightarrow> (w1, Inl ErrEmailAccepted)
                | Some (ev2, ob2) \<Rightarrow>
                    (fst (db_call env SLastAmbiguous
                       (FinalizeAmbiguous (penvNow env SLastAmbiguous) c (Some ev2) (Some ob2)) w1),
                     Inl ErrEmailAccepted))))"

definition submit :: "proc_env \<Rightarrow> SendAttemptClaim \<Rightarrow> Email \<Rightarrow> world \<Rightarrow> outcome" where
  "submit env c email w =
     (let w1 = w\<lparr>wsent := wsent w @ [\<lparr>subEmail = claimEmailID c, subAttempt = claimAttemptID c,
                                       subFence = claimFenceToken c\<rparr>]\<rparr> in
      case penvSend env email of
        Inl err \<Rightarrow> handle_send_error env c email err w1
      | Inr raw \<Rightarrow>
          (let m = TrimSpace raw in
           if m = [] then park_ambiguous env c email [(''reason'', JString ''provider returned no message id'')] w1
           else handle_accepted env c email m w1))"

definition run_claimed :: "proc_env \<Rightarrow> SendAttemptClaim \<Rightarrow> Email \<Rightarrow> world \<Rightarrow> outcome" where
  "run_claimed env c email w =
     (let p = checkRecipientSuppression (penvSuppressionRepo env) (penvContactRepo env)
                (penvFault env SSuppressions) (penvFault env SContacts)
                (eTeamID email) (normalizeEmailRecipients email) (wdb w)
      in if p \<noteq> PolicyOk then refuse_by_policy env c email p w
      else
        (let c2 = c\<lparr>claimLeaseUntil := penvStartTime env + 2 * minute\<rparr> in
         case db_call env SStart (MarkSendStarted (penvNow env SStart) c2) w of
           (w1, Inl _) \<Rightarrow> (w1, Inl ErrOther)
         | (w1, Inr False) \<Rightarrow> (w1, Inl ErrEmailNotQueued)
         | (w1, Inr True) \<Rightarrow>
             submit env c2
               (email\<lparr>eSendAttemptState := SendAttemptStarted, eSendLeaseUntil := Some (claimLeaseUntil c2)\<rparr>)
               (recordEvent env SEvent (claimEmailID c) ''email.sending'' None w1)))"

definition env_claim :: "proc_env \<Rightarrow> uuid \<Rightarrow> SendAttemptClaim" where
  "env_claim env i = \<lparr>claimEmailID = i, claimAttemptID = penvAttemptID env,
     claimFenceToken = penvFenceToken env, claimLeaseUntil = penvLeaseTime env + 2 * minute\<rparr>"

definition processFromQueueDurable :: "proc_env \<Rightarrow> string \<Rightarrow> world \<Rightarrow> outcome" where
  "processFromQueueDurable env emailID w =
     (case penvParse env emailID of
        None \<Rightarrow> (w, Inl ErrInvalidEmailID)
      | Some i \<Rightarrow>
          (case snd (run_call (penvFault env SGet) (\<lambda>s. (s, GetByID i s)) (wdb w)) of
             Inl _ \<Rightarrow> (w, Inl ErrEmailNotFound)
           | Inr email \<Rightarrow>
               if eStatus email \<noteq> EmailStatusQueued then (w, Inl ErrEmailNotQueued)
               else if (case eScheduledAt email of None \<Rightarrow> False | Some at \<Rightarrow> penvCheckTime env < at)
               then (w, Inl (ErrEmailNotDue (the (eScheduledAt email))))
               else
                 (let c = env_claim env i in
                  case db_call env SClaim (ClaimSendAttempt (penvNow env SClaim) c) w of
                    (w1, Inl _) \<Rightarrow> (w1, Inl ErrOther)
                  | (w1, Inr False) \<Rightarrow> (w1, Inl ErrEmailNotQueued)
                  | (w1, Inr True) \<Rightarrow>
                      run_claimed env c
                        (email\<lparr>eStatus := EmailStatusSending, eSendAttemptID := Some (claimAttemptID c),
                               eSendFenceToken := Some (claimFenceToken c),
                               eSendAttemptState := SendAttemptLeased,
                               eSendLeaseUntil := Some (claimLeaseUntil c)\<rparr>) w1)))"

definition MarkFailedFromQueue :: "proc_env \<Rightarrow> string \<Rightarrow> string \<Rightarrow> world \<Rightarrow> world \<times> bool" where
  "MarkFailedFromQueue env emailID reason w =
     (case penvParse env emailID of
        None \<Rightarrow> (w, False)
      | Some i \<Rightarrow>
          (case db_call env SDeadLetter (MarkDeadLetterFailed i) w of
             (w1, Inl _) \<Rightarrow> (w1, False)
           | (w1, Inr _) \<Rightarrow>
               (recordEvent env SDeadLetterEvent i ''email.failed'' (Some [(''reason'', JString reason)]) w1, True)))"

section \<open>A run as a trace of repository operations\<close>

definition reaches :: "(repo_op \<Rightarrow> bool) \<Rightarrow> world \<Rightarrow> world \<Rightarrow> bool" where
  "reaches P w w' \<longleftrightarrow> wsent w' = wsent w \<and>
     (\<exists>ops. wdb w' = run_ops ops (wdb w) \<and> (\<forall>op \<in> set ops. P op))"

lemma run_ops_append: "run_ops (xs @ ys) s = run_ops ys (run_ops xs s)"
  by (simp add: run_ops_def)

lemma reaches_refl [simp]: "reaches P w w"
  unfolding reaches_def by (intro conjI refl exI [of _ "[]"]) (simp_all add: run_ops_def)

lemma reaches_trans: "reaches P w w1 \<Longrightarrow> reaches P w1 w2 \<Longrightarrow> reaches P w w2"
  unfolding reaches_def by (metis (no_types, lifting) run_ops_append set_append Un_iff)

lemma db_call_reaches:
  assumes "\<And>s. fst (f s) = exec_op op s" and "P op"
  shows "reaches P w (fst (db_call env st f w))"
proof -
  have "wdb (fst (db_call env st f w)) = wdb w \<or> wdb (fst (db_call env st f w)) = exec_op op (wdb w)"
    using run_call_state [of "penvFault env st" f "wdb w"] assms(1)
    by (auto simp: db_call_def split: prod.splits)
  moreover have "wsent (fst (db_call env st f w)) = wsent w"
    by (simp add: db_call_def split: prod.splits)
  ultimately show ?thesis
    unfolding reaches_def using assms(2)
    by (metis (no_types, lifting) empty_iff empty_set fold_simps list.set_intros(1) run_ops_def set_ConsD)
qed

lemma db_call_reaches':
  "db_call env st f w = (w1, r) \<Longrightarrow> (\<And>s. fst (f s) = exec_op op s) \<Longrightarrow> P op \<Longrightarrow> reaches P w w1"
  using db_call_reaches [of f op P w env st] by simp

text \<open>Operations of a run after its submission that cannot release the message.\<close>

definition settling_op :: "SendAttemptClaim \<Rightarrow> repo_op \<Rightarrow> bool" where
  "settling_op c op = (case op of
     OpAccepted _ c' _ _ _ \<Rightarrow> c' = c | OpFailed _ c' _ _ \<Rightarrow> c' = c | OpAmbiguous _ c' _ _ \<Rightarrow> c' = c
   | OpAddEvent _ \<Rightarrow> True | _ \<Rightarrow> False)"

lemma finalizeAmbiguousOutcome_reaches:
  "reaches (settling_op c) w (fst (finalizeAmbiguousOutcome env c ev ob n w))"
proof (induction n arbitrary: w)
  case (Suc n)
  let ?st = "SAmbiguous (2 - n)"
  have step: "reaches (settling_op c) w (fst (db_call env ?st (FinalizeAmbiguous (penvNow env ?st) c (Some ev) (Some ob)) w))"
    by (rule db_call_reaches [where op = "OpAmbiguous (penvNow env ?st) c (Some ev) (Some ob)"])
      (simp_all add: settling_op_def)
  show ?case
  proof (cases "db_call env ?st (FinalizeAmbiguous (penvNow env ?st) c (Some ev) (Some ob)) w")
    case (Pair w1 r)
    with step have "reaches (settling_op c) w w1" by simp
    with Pair Suc [of w1] show ?thesis
      by (auto simp: Let_def intro: reaches_trans split: sum.splits)
  qed
qed simp

lemma accept_loop_reaches: "reaches (settling_op c) w (fst (accept_loop env c m ev ob n w))"
proof (induction n arbitrary: w)
  case (Suc n)
  let ?st = "SAccept (2 - n)"
  have step: "reaches (settling_op c) w (fst (db_call env ?st (FinalizeAccepted (penvNow env ?st) c m (Some ev) (Some ob)) w))"
    by (rule db_call_reaches [where op = "OpAccepted (penvNow env ?st) c m (Some ev) (Some ob)"])
      (simp_all add: settling_op_def)
  show ?case
  proof (cases "db_call env ?st (FinalizeAccepted (penvNow env ?st) c m (Some ev) (Some ob)) w")
    case (Pair w1 r)
    with step have "reaches (settling_op c) w w1" by simp
    with Pair Suc [of w1] show ?thesis
      by (auto simp: Let_def intro: reaches_trans split: sum.splits bool.splits)
  qed
qed simp

lemma recordEvent_reaches:
  assumes "\<And>ev. P (OpAddEvent ev)"
  shows "reaches P w (recordEvent env st i name data w)"
  unfolding recordEvent_def Let_def using assms by (intro db_call_reaches) (rule exec_op.simps(23) [symmetric])

lemma park_ambiguous_reaches: "reaches (settling_op c) w (fst (park_ambiguous env c email data w))"
  using finalizeAmbiguousOutcome_reaches
  by (auto simp: park_ambiguous_def split: option.splits prod.splits)

lemma handle_accepted_reaches: "reaches (settling_op c) w (fst (handle_accepted env c email m w))"
proof (cases "buildDurableEvent env (SAccept 0) (email\<lparr>eProviderMessageID := Some m, eStatus := EmailStatusSent,
    eSendAttemptState := SendAttemptAccepted\<rparr>) ''email.sent'' None RetentionOutbound")
  case (Some b)
  obtain ev ob where b: "b = (ev, ob)" by (cases b)
  obtain w1 fin where l: "accept_loop env c m ev ob 3 w = (w1, fin)" by (cases "accept_loop env c m ev ob 3 w")
  then have r1: "reaches (settling_op c) w w1" using accept_loop_reaches [of c w env m ev ob 3] by simp
  have "reaches (settling_op c) w1 (fst (db_call env SLastAmbiguous
      (FinalizeAmbiguous (penvNow env SLastAmbiguous) c (Some x) (Some y)) w1))" for x y
    by (rule db_call_reaches [where op = "OpAmbiguous (penvNow env SLastAmbiguous) c (Some x) (Some y)"])
      (simp_all add: settling_op_def)
  with Some b l r1 show ?thesis
    by (auto simp: handle_accepted_def Let_def intro: reaches_trans split: option.splits bool.splits prod.splits)
qed (simp add: handle_accepted_def)

lemma reaches_mono: "reaches P w w' \<Longrightarrow> (\<And>op. P op \<Longrightarrow> Q op) \<Longrightarrow> reaches Q w w'"
  unfolding reaches_def by blast

text \<open>The provider may have the message unless it definitely refused it for now.\<close>

definition may_be_out :: "send_error + string \<Rightarrow> bool" where
  "may_be_out answer = (case answer of
     Inr _ \<Rightarrow> True
   | Inl err \<Rightarrow> DeliveryOutcomeUnknown err \<or> \<not> IsRetryableDeliveryError err)"

lemma finalize_failed_reaches:
  "reaches (settling_op c) w (fst (db_call env st (FinalizeFailed now c ev ob) w))"
  by (rule db_call_reaches [where op = "OpFailed now c ev ob"]) (simp_all add: settling_op_def)

lemma handle_send_error_settles:
  assumes "may_be_out (Inl err)"
  shows "reaches (settling_op c) w (fst (handle_send_error env c email err w))"
proof (cases "DeliveryOutcomeUnknown err")
  case True
  then show ?thesis by (simp add: handle_send_error_def Let_def park_ambiguous_reaches)
next
  case False
  with assms have nr: "\<not> IsRetryableDeliveryError err" by (simp add: may_be_out_def)
  show ?thesis
  proof (cases "buildDurableEvent env SFail email ''email.failed'' (Some (deliveryErrorEventData err)) RetentionOutbound")
    case None
    with False nr show ?thesis by (simp add: handle_send_error_def Let_def)
  next
    case (Some b)
    obtain ev ob where b: "b = (ev, ob)" by (cases b)
    obtain w1 x where f: "db_call env SFail (FinalizeFailed (penvNow env SFail) c (Some ev) (Some ob)) w = (w1, x)"
      by (cases "db_call env SFail (FinalizeFailed (penvNow env SFail) c (Some ev) (Some ob)) w")
    then have "reaches (settling_op c) w w1"
      using finalize_failed_reaches [of c w env SFail "penvNow env SFail" "Some ev" "Some ob"] by simp
    with False nr Some b f show ?thesis
      by (simp add: handle_send_error_def Let_def split: sum.split bool.split)
  qed
qed

lemma retry_reaches:
  "db_call env SRetry (MarkSendRetryable (penvNow env SRetry) c) w = (w1, r) \<Longrightarrow> reaches (\<lambda>_. True) w w1"
  by (rule db_call_reaches' [where op = "OpRetryable (penvNow env SRetry) c"]) simp_all

lemma handle_send_error_reaches: "reaches (\<lambda>_. True) w (fst (handle_send_error env c email err w))"
proof (cases "may_be_out (Inl err)")
  case True
  show ?thesis by (rule reaches_mono [OF handle_send_error_settles [OF True]]) simp
next
  case False
  have ev: "reaches (\<lambda>_. True) w1 (recordEvent env st i name d w1)" for w1 st i name d
    by (rule recordEvent_reaches) simp
  obtain w1 x where r: "db_call env SRetry (MarkSendRetryable (penvNow env SRetry) c) w = (w1, x)"
    by (cases "db_call env SRetry (MarkSendRetryable (penvNow env SRetry) c) w")
  from False r retry_reaches [OF r] reaches_trans [OF retry_reaches [OF r] ev] show ?thesis
    by (simp add: handle_send_error_def may_be_out_def Let_def split: sum.split bool.split)
qed

definition claim_submission :: "SendAttemptClaim \<Rightarrow> submission" where
  "claim_submission c = \<lparr>subEmail = claimEmailID c, subAttempt = claimAttemptID c, subFence = claimFenceToken c\<rparr>"

lemma submit_reaches:
  "reaches (\<lambda>_. True) (w\<lparr>wsent := wsent w @ [claim_submission c]\<rparr>) (fst (submit env c email w))"
  using handle_send_error_reaches
    park_ambiguous_reaches [THEN reaches_mono, where Q = "\<lambda>_. True"]
    handle_accepted_reaches [THEN reaches_mono, where Q = "\<lambda>_. True"]
  by (auto simp: submit_def claim_submission_def Let_def split: sum.splits)

lemma submit_settles:
  "may_be_out (penvSend env email) \<Longrightarrow>
   reaches (settling_op c) (w\<lparr>wsent := wsent w @ [claim_submission c]\<rparr>) (fst (submit env c email w))"
  using handle_send_error_settles park_ambiguous_reaches handle_accepted_reaches
  by (auto simp: submit_def claim_submission_def Let_def split: sum.splits)

lemma refuse_by_policy_sent: "wsent (fst (refuse_by_policy env c email p w)) = wsent w"
  by (auto simp: refuse_by_policy_def db_call_def split: prod.splits sum.splits bool.splits option.splits)

text \<open>
  What holds when the provider is called: the row was put into the started state under this
  run's claim, and only settling operations of this claim follow when the message may be out.
\<close>

definition submitted_under :: "proc_env \<Rightarrow> SendAttemptClaim \<Rightarrow> world \<Rightarrow> world \<Rightarrow> bool" where
  "submitted_under env c w w' \<longleftrightarrow> wsent w' = wsent w @ [claim_submission c] \<and>
     (\<exists>s1 e. keyed eID (emails s1) \<and> email_at s1 (claimEmailID c) = Some e \<and>
        eStatus e = EmailStatusSending \<and> eSendAttemptState e = SendAttemptStarted \<and>
        eSendAttemptID e = Some (claimAttemptID c) \<and> eSendFenceToken e = Some (claimFenceToken c) \<and>
        ((\<forall>x. may_be_out (penvSend env x)) \<longrightarrow>
           (\<exists>ops. wdb w' = run_ops ops s1 \<and> (\<forall>op \<in> set ops. settling_op c op))))"

lemma db_call_emails:
  "(\<And>s. emails (fst (f s)) = emails s) \<Longrightarrow> emails (wdb (fst (db_call env st f w))) = emails (wdb w)"
  by (cases "penvFault env st") (auto simp: db_call_def split: prod.splits, metis fst_conv)

lemma recordEvent_rows:
  "emails (wdb (recordEvent env st i name data w)) = emails (wdb w)"
  "wsent (recordEvent env st i name data w) = wsent w"
proof -
  have "emails (fst (AddEvent ev s)) = emails s" for ev s by (simp add: AddEvent_def)
  then show "emails (wdb (recordEvent env st i name data w)) = emails (wdb w)"
    by (simp add: recordEvent_def Let_def db_call_emails)
  show "wsent (recordEvent env st i name data w) = wsent w"
    by (simp add: recordEvent_def db_call_def Let_def split: prod.splits)
qed

lemma run_claimed_cases:
  assumes "keyed eID (emails (wdb w))" and "run_claimed env c email w = (w', r)"
  shows "wsent w' = wsent w \<or> submitted_under env (c\<lparr>claimLeaseUntil := penvStartTime env + 2 * minute\<rparr>) w w'"
proof -
  let ?c = "c\<lparr>claimLeaseUntil := penvStartTime env + 2 * minute\<rparr>"
  let ?p = "checkRecipientSuppression (penvSuppressionRepo env) (penvContactRepo env)
    (penvFault env SSuppressions) (penvFault env SContacts) (eTeamID email) (normalizeEmailRecipients email) (wdb w)"
  let ?email = "email\<lparr>eSendAttemptState := SendAttemptStarted, eSendLeaseUntil := Some (claimLeaseUntil ?c)\<rparr>"
  obtain w1 x where st: "db_call env SStart (MarkSendStarted (penvNow env SStart) ?c) w = (w1, x)"
    by (cases "db_call env SStart (MarkSendStarted (penvNow env SStart) ?c) w")
  then have sent1: "wsent w1 = wsent w" by (auto simp: db_call_def split: prod.splits)
  show ?thesis
  proof (cases "?p = PolicyOk \<and> x = Inr True")
    case False
    then show ?thesis
      using assms(2) st sent1 refuse_by_policy_sent [of env c email ?p w]
      by (cases "?p = PolicyOk") (auto simp: run_claimed_def Let_def split: sum.splits bool.splits)
  next
    case True
    let ?w2 = "recordEvent env SEvent (claimEmailID c) ''email.sending'' None w1"
    from True assms(2) st have w': "w' = fst (submit env ?c ?email ?w2)"
      by (simp add: run_claimed_def Let_def)
    from True st have "MarkSendStarted (penvNow env SStart) ?c (wdb w) = (wdb w1, Inr True)"
      by (auto simp: db_call_def split: prod.splits dest: run_call_InrD)
    then have ex: "exec_one (MarkSendStarted_where (penvNow env SStart) ?c)
        (MarkSendStarted_set (penvNow env SStart) ?c) (wdb w) = (wdb w1, Inr True)"
      by (simp add: MarkSendStarted_def)
    obtain e where e: "MarkSendStarted_where (penvNow env SStart) ?c e"
      "email_at (wdb w1) (claimEmailID ?c) = Some (MarkSendStarted_set (penvNow env SStart) ?c e)"
      using started.winner_row [OF assms(1) ex] by metis
    have at: "email_at (wdb ?w2) i = email_at (wdb w1) i" for i
      by (simp add: email_at_def recordEvent_rows)
    have "keyed eID (emails (wdb w1))"
      using keyed_exec_op [OF assms(1), of "OpStarted (penvNow env SStart) ?c"] ex
      by (simp add: MarkSendStarted_def)
    then have "keyed eID (emails (wdb ?w2))" by (simp add: recordEvent_rows)
    moreover have "wsent w' = wsent w @ [claim_submission ?c]"
      using submit_reaches [of ?w2 ?c env ?email] sent1 w' by (simp add: reaches_def recordEvent_rows)
    moreover have "\<exists>ops. wdb w' = run_ops ops (wdb ?w2) \<and> (\<forall>op \<in> set ops. settling_op ?c op)"
      if "\<forall>x. may_be_out (penvSend env x)"
      using submit_settles [of env ?email ?c ?w2] that w' by (auto simp: reaches_def)
    ultimately show ?thesis
      using e at unfolding submitted_under_def
      by (intro disjI2 conjI exI [of _ "wdb ?w2"]
            exI [of _ "MarkSendStarted_set (penvNow env SStart) ?c e"])
        (auto simp: MarkSendStarted_where_def MarkSendStarted_set_def claim_matches_def)
  qed
qed

lemma process_trace:
  assumes "keyed eID (emails (wdb w))" and "processFromQueueDurable env emailID w = (w', r)"
  shows "wsent w' = wsent w \<or>
    (\<exists>i. penvParse env emailID = Some i \<and>
       submitted_under env ((env_claim env i)\<lparr>claimLeaseUntil := penvStartTime env + 2 * minute\<rparr>) w w')"
proof (cases "penvParse env emailID")
  case (Some i)
  let ?c = "env_claim env i"
  obtain w1 x where cl: "db_call env SClaim (ClaimSendAttempt (penvNow env SClaim) ?c) w = (w1, x)"
    by (cases "db_call env SClaim (ClaimSendAttempt (penvNow env SClaim) ?c) w")
  then have sent1: "wsent w1 = wsent w" by (auto simp: db_call_def split: prod.splits)
  have "reaches (\<lambda>_. True) w w1"
    using cl by (rule db_call_reaches' [where op = "OpClaim (penvNow env SClaim) ?c"]) simp_all
  then obtain ops where "wdb w1 = run_ops ops (wdb w)" by (auto simp: reaches_def)
  then have key1: "keyed eID (emails (wdb w1))"
    using assms(1) by (simp add: keyed_run_ops)
  from assms(2) Some cl consider "wsent w' = wsent w"
    | email where "run_claimed env ?c email w1 = (w', r)"
    using sent1
    by (auto simp: processFromQueueDurable_def Let_def split: sum.splits bool.splits if_splits)
  then show ?thesis
  proof cases
    case 2
    from run_claimed_cases [OF key1 this] sent1 Some show ?thesis
      by (auto simp: submitted_under_def)
  qed simp
qed (use assms(2) in \<open>simp add: processFromQueueDurable_def\<close>)

section \<open>Properties of a run\<close>

lemma settling_no_release: "settling_op c op \<Longrightarrow> \<not> releases i c op"
  by (cases op) (simp_all add: settling_op_def releases_def)

lemma releases_lease [simp]: "releases i (c\<lparr>claimLeaseUntil := l\<rparr>) op = releases i c op"
  by (cases op) (simp_all add: releases_def)

lemma process_without_claim:
  assumes "penvParse env emailID = Some i"
    and "\<And>now c. claimEmailID c = i \<Longrightarrow> ClaimSendAttempt now c (wdb w) = (wdb w, Inr False)"
  shows "wsent (fst (processFromQueueDurable env emailID w)) = wsent w"
proof -
  have "ClaimSendAttempt now (env_claim env i) (wdb w) = (wdb w, Inr False)" for now
    by (rule assms(2)) (simp add: env_claim_def)
  then have "db_call env SClaim (ClaimSendAttempt (penvNow env SClaim) (env_claim env i)) w \<in>
      {(w, Inr False), (w, Inl ConnFailure)}"
    by (cases "penvFault env SClaim") (simp_all add: db_call_def)
  then show ?thesis
    using assms(1)
    by (auto simp: processFromQueueDurable_def Let_def split: sum.splits)
qed

text \<open>A message is handed to the provider at most once per run, and never without the row
  being in the started state under this run's own claim at that moment, whichever calls to
  the database fail and whether or not they had taken effect.\<close>

theorem one_submission_per_run:
  assumes "keyed eID (emails (wdb w))" and "processFromQueueDurable env emailID w = (w', r)"
  shows "wsent w' = wsent w \<or>
    (\<exists>i x s1 e. penvParse env emailID = Some i \<and> wsent w' = wsent w @ [x] \<and>
       x = \<lparr>subEmail = i, subAttempt = penvAttemptID env, subFence = penvFenceToken env\<rparr> \<and>
       email_at s1 i = Some e \<and> eStatus e = EmailStatusSending \<and>
       eSendAttemptState e = SendAttemptStarted \<and>
       eSendAttemptID e = Some (penvAttemptID env) \<and> eSendFenceToken e = Some (penvFenceToken env))"
  using process_trace [OF assms]
  by (auto simp: submitted_under_def claim_submission_def env_claim_def)

definition demo_env :: proc_env where
  "demo_env = \<lparr>penvParse = (\<lambda>_. Some 1), penvFault = (\<lambda>_. NoFault), penvNow = (\<lambda>_. 10), penvCheckTime = 10,
     penvLeaseTime = 10, penvStartTime = 10, penvAttemptID = 2, penvFenceToken = 3,
     penvEventID = (\<lambda>_. 4), penvOutboxID = (\<lambda>_. 5), penvCtxDone = (\<lambda>_. False),
     penvMarshalEmail = (\<lambda>_. Some ''{}''), penvMarshalData = (\<lambda>_. Some ''{}''),
     penvSend = (\<lambda>_. Inr ''ses-1''), penvSuppressionRepo = True, penvContactRepo = True\<rparr>"

definition demo_world :: world where
  "demo_world = \<lparr>wdb = empty_db\<lparr>emails := [blank_email 1 9]\<rparr>, wsent = []\<rparr>"

lemma demo_run: "wsent (fst (processFromQueueDurable demo_env [] demo_world)) =
    [\<lparr>subEmail = 1, subAttempt = 2, subFence = 3\<rparr>]"
  by code_simp

lemma demo_world_keyed: "keyed eID (emails (wdb demo_world))"
  by (simp add: demo_world_def)

theorem one_submission_per_run_witness:
  "\<exists>x. wsent (fst (processFromQueueDurable demo_env [] demo_world)) = wsent demo_world @ [x]"
  using one_submission_per_run [OF demo_world_keyed, of demo_env "[]"] demo_run
  by (cases "processFromQueueDurable demo_env [] demo_world") (auto simp: demo_world_def)

text \<open>Once a run handed the message over, no later run can claim it.\<close>

lemma handed_over_once:
  assumes "keyed eID (emails (wdb w))" and "penvParse env emailID = Some i"
    and "processFromQueueDurable env emailID w = (w', r)" and "wsent w' \<noteq> wsent w"
    and "\<forall>x. may_be_out (penvSend env x)"
    and "\<forall>op \<in> set ops. \<not> releases i (env_claim env i) op"
    and "penvParse env' emailID' = Some i"
  shows "wsent (fst (processFromQueueDurable env' emailID' (w'\<lparr>wdb := run_ops ops (wdb w')\<rparr>))) = wsent w'"
proof -
  let ?c = "(env_claim env i)\<lparr>claimLeaseUntil := penvStartTime env + 2 * minute\<rparr>"
  have "submitted_under env ?c w w'"
    using process_trace [OF assms(1,3)] assms(2,4) by auto
  then obtain s1 e ops1 where s1: "keyed eID (emails s1)" "email_at s1 i = Some e"
    "eStatus e = EmailStatusSending" "eSendAttemptState e = SendAttemptStarted"
    "eSendAttemptID e = Some (claimAttemptID ?c)" "eSendFenceToken e = Some (claimFenceToken ?c)"
    "wdb w' = run_ops ops1 s1" "\<forall>op \<in> set ops1. settling_op ?c op"
    using assms(5) by (auto simp: submitted_under_def env_claim_def)
  have queued: "eStatus e \<noteq> EmailStatusQueued" using s1(3) by simp
  have all: "\<forall>op \<in> set (ops1 @ ops). \<not> releases i ?c op"
    using s1(8) assms(6) settling_no_release [of ?c] by auto
  have "ClaimSendAttempt now c' (run_ops ops (wdb w')) = (run_ops ops (wdb w'), Inr False)"
    if "claimEmailID c' = i" for now c'
    using claim_refused_once_started [OF s1(1,2) queued s1(4-6) all that, of now]
    by (simp only: s1(7) run_ops_append)
  then show ?thesis
    using process_without_claim [OF assms(7), of "w'\<lparr>wdb := run_ops ops (wdb w')\<rparr>"] by simp
qed

text \<open>C1: End to end, no message is sent twice. Let a run hand a message to a provider that took it,
  may have taken it, or refused it for good. Then after that run, however its own writes fared,
  and after any further operations on the database other than an operator's replay, no later run for
  the same message, by any worker, calls the provider again.\<close>

theorem no_duplicate_send:
  assumes "keyed eID (emails (wdb w))" and "penvParse env emailID = Some i"
    and "processFromQueueDurable env emailID w = (w', r)" and "wsent w' \<noteq> wsent w"
    and "\<forall>x. may_be_out (penvSend env x)"
    and "\<forall>op \<in> set ops. \<not> releases i (env_claim env i) op"
    and "penvParse env' emailID' = Some i"
  shows "wsent (fst (processFromQueueDurable env' emailID' (w'\<lparr>wdb := run_ops ops (wdb w')\<rparr>))) = wsent w'"
  using assms by (rule handed_over_once)

theorem no_duplicate_send_witness:
  "let w' = fst (processFromQueueDurable demo_env [] demo_world) in
   wsent (fst (processFromQueueDurable (demo_env\<lparr>penvAttemptID := 7, penvFenceToken := 8\<rparr>) []
     (w'\<lparr>wdb := run_ops [OpRecover 900, OpCancel 9 1] (wdb w')\<rparr>))) = wsent w'"
proof -
  obtain w' r where run: "processFromQueueDurable demo_env [] demo_world = (w', r)"
    by (cases "processFromQueueDurable demo_env [] demo_world")
  then have "wsent w' \<noteq> wsent demo_world" using demo_run by (auto simp: demo_world_def)
  moreover have "penvParse demo_env [] = Some 1" "\<forall>x. may_be_out (penvSend demo_env x)"
    "penvParse (demo_env\<lparr>penvAttemptID := 7, penvFenceToken := 8\<rparr>) [] = Some 1"
    by (simp_all add: demo_env_def may_be_out_def)
  moreover have "\<forall>op \<in> set [OpRecover 900, OpCancel 9 1]. \<not> releases 1 (env_claim demo_env 1) op"
    by (simp add: releases_def)
  ultimately show ?thesis
    unfolding run Let_def fst_conv using no_duplicate_send [OF demo_world_keyed _ run] by blast
qed

end
