(* ===== verification/EmailWorker.thy ===== *)
theory EmailWorker
  imports EmailProcessing
begin

text \<open>
  \<open>processNext\<close> of \<open>internal/worker/email_worker.go\<close>: take one item from the queue, run the
  send service on it, and settle the receipt by the class of the result. The theorem says
  that a worker drops an item only when its message is not queued any more.
\<close>

section \<open>One iteration\<close>

datatype qsite = QDeq | QAckTerminal | QResched | QFallback | QReq | QAckDone

record worker_env =
  wkProc :: proc_env
  wkToken :: string
  wkNow :: int
  wkFault :: "qsite \<Rightarrow> fault"
  wkUnix :: "instant \<Rightarrow> int"

record system =
  sysWorld :: world
  sysQueue :: redis

definition terminal_result :: "proc_error \<Rightarrow> bool" where
  "terminal_result e \<longleftrightarrow> e \<in> {ErrEmailDeliveryFailed, ErrEmailNotQueued, ErrEmailAccepted, ErrEmailOutcomeAmbiguous}"

definition q_call :: "worker_env \<Rightarrow> qsite \<Rightarrow> (redis \<Rightarrow> redis \<times> (queue_error + 'a)) \<Rightarrow> system \<Rightarrow>
    system \<times> (queue_error + 'a)" where
  "q_call env st f y = (case redis_call (wkFault env st) f (sysQueue y) of (q, r) \<Rightarrow> (y\<lparr>sysQueue := q\<rparr>, r))"

text \<open>The part after the service returned an error.\<close>

definition settle_error :: "worker_env \<Rightarrow> QueueReceipt \<Rightarrow> proc_error \<Rightarrow> system \<Rightarrow> system \<times> bool" where
  "settle_error env r e y =
     (if terminal_result e then
        (case q_call env QAckTerminal (Ack (Some r)) y of (y1, res) \<Rightarrow> (y1, \<not> isl res))
      else case e of
        ErrEmailNotDue at \<Rightarrow>
          (case q_call env QResched (RescheduleReceipt (Some r) (wkUnix env at)) y of
             (y1, Inr _) \<Rightarrow> (y1, True)
           | (y1, Inl _) \<Rightarrow>
               (case q_call env QFallback (Requeue (Some r) False (wkNow env)) y1 of
                  (y2, res) \<Rightarrow> (y2, \<not> isl res)))
      | _ \<Rightarrow>
          (case q_call env QReq (Requeue (Some r) True (wkNow env)) y of
             (y1, Inr _) \<Rightarrow> (y1, True)
           | (y1, Inl ErrDeadLettered) \<Rightarrow>
               (case MarkFailedFromQueue (wkProc env) (qrEmailID r) ''delivery retry limit exceeded'' (sysWorld y1) of
                  (w, ok) \<Rightarrow> (y1\<lparr>sysWorld := w\<rparr>, ok))
           | (y1, Inl _) \<Rightarrow> (y1, False)))"

definition processNext :: "worker_env \<Rightarrow> system \<Rightarrow> system \<times> bool" where
  "processNext env y =
     (case q_call env QDeq (Dequeue (wkToken env) (wkNow env)) y of
        (y1, Inl _) \<Rightarrow> (y1, False)
      | (y1, Inr None) \<Rightarrow> (y1, True)
      | (y1, Inr (Some r)) \<Rightarrow>
          (if qrEmailID r = [] then (y1, True)
           else
             (case processFromQueueDurable (wkProc env) (qrEmailID r) (sysWorld y1) of
                (w, Inl e) \<Rightarrow> settle_error env r e (y1\<lparr>sysWorld := w\<rparr>)
              | (w, Inr _) \<Rightarrow>
                  (case q_call env QAckDone (Ack (Some r)) (y1\<lparr>sysWorld := w\<rparr>) of
                     (y2, res) \<Rightarrow> (y2, \<not> isl res)))))"

section \<open>Results that settle a message\<close>

text \<open>The rows of a run that ended with a result the worker acknowledges.\<close>

definition unclaimable :: "uuid \<Rightarrow> db \<Rightarrow> bool" where
  "unclaimable i s \<longleftrightarrow> (\<forall>e. email_at s i = Some e \<longrightarrow> eStatus e \<noteq> EmailStatusQueued)"

definition keeps_claimed :: "uuid \<Rightarrow> repo_op \<Rightarrow> bool" where
  "keeps_claimed i op = (case op of
     OpRetryable _ _ \<Rightarrow> False | OpRecover _ \<Rightarrow> False | OpPrepareReplay _ _ _ \<Rightarrow> False
   | OpCreate _ e \<Rightarrow> eID e \<noteq> i | _ \<Rightarrow> True)"

lemma row_step_not_queued:
  assumes "row_step op e e'" and "keeps_claimed i op" and "eStatus e \<noteq> EmailStatusQueued"
  shows "eStatus e' \<noteq> EmailStatusQueued"
  using assms
proof (induction rule: row_step.induct)
  case (rs_apply_event e j now k m target ev ob sups)
  then show ?case
    using apply_provider_status_queued [of "eStatus e" target]
    by (auto simp: ApplyProvider_set_def Let_def apply_provider_status_def split: if_splits)
qed (auto simp: row_defs keeps_claimed_def)

interpretation nq: row_property i "keeps_claimed i" "\<lambda>e. eStatus e \<noteq> EmailStatusQueued" for i
proof unfold_locales
  show "eStatus e' \<noteq> EmailStatusQueued"
    if "row_step op e e'" "keeps_claimed i op" "eStatus e \<noteq> EmailStatusQueued" for op e e'
    using that by (rule row_step_not_queued)
qed (simp add: keeps_claimed_def)

lemma settling_keeps: "settling_op c op \<Longrightarrow> keeps_claimed i op"
  by (cases op) (simp_all add: settling_op_def keeps_claimed_def)

lemma reaches_unclaimable:
  assumes "reaches (keeps_claimed i) w w'" and "keyed eID (emails (wdb w))" and "unclaimable i (wdb w)"
  shows "keyed eID (emails (wdb w')) \<and> unclaimable i (wdb w')"
  using assms nq.run_ops_holds [where i = i] by (auto simp: reaches_def unclaimable_def)

lemma settles_unclaimable:
  assumes "reaches (settling_op c) w w'" and "keyed eID (emails (wdb w))" and "unclaimable i (wdb w)"
  shows "unclaimable i (wdb w')"
proof -
  have "reaches (keeps_claimed i) w w'"
    using assms(1) by (rule reaches_mono) (rule settling_keeps)
  then show ?thesis using reaches_unclaimable assms(2,3) by blast
qed

text \<open>A refused statement changes no row.\<close>

lemma refused_unchanged:
  assumes "keyed eID (emails s)" and "\<And>e. p e \<Longrightarrow> eID e = i" and "exec_one p f s = (s', Inr False)"
  shows "s' = s \<and> (\<forall>e. email_at s i = Some e \<longrightarrow> \<not> p e)"
proof -
  have n: "rows_affected p (emails s) \<noteq> 1"
    using assms(3) exec_one_simps(2) [of p f s] by simp
  then have "rows_affected p (emails s) = 0"
    using rows_affected_keyed(2) [where p = p, OF assms(1,2)] by linarith
  then have "s' = s"
    using assms(3) exec_one_simps(1) [of p f s] by (simp add: rows_affected_0_update)
  moreover have "\<not> p e" if "email_at s i = Some e" for e
    using n rows_affected_keyed(1) [where p = p and k = i, OF assms(1,2)] that by (auto simp: email_at_def)
  ultimately show ?thesis by blast
qed

lemma db_call_refused:
  assumes "db_call env st (exec_one p f) w = (w1, Inr False)"
    and "keyed eID (emails (wdb w))" and "\<And>e. p e \<Longrightarrow> eID e = i"
  shows "wdb w1 = wdb w \<and> (\<forall>e. email_at (wdb w) i = Some e \<longrightarrow> \<not> p e)"
proof -
  have "exec_one p f (wdb w) = (wdb w1, Inr False)"
    using assms(1) by (auto simp: db_call_def split: prod.splits dest: run_call_InrD)
  then show ?thesis using refused_unchanged [OF assms(2,3)] by blast
qed

lemma retry_refused:
  "db_call env st (MarkSendRetryable now c) w = (w1, Inr False) \<Longrightarrow> keyed eID (emails (wdb w)) \<Longrightarrow> wdb w1 = wdb w"
  unfolding MarkSendRetryable_def using db_call_refused retryable.guard_id by metis

lemma refuse_by_policy_terminal:
  assumes "refuse_by_policy env c email p w = (w', Inl e)" and "terminal_result e"
    and "keyed eID (emails (wdb w))" and "unclaimable i (wdb w)"
  shows "unclaimable i (wdb w')"
proof (cases "p = PolicyUnavailable")
  case True
  obtain w1 x where r: "db_call env SPolicyRetry (MarkSendRetryable (penvNow env SPolicyRetry) c) w = (w1, x)"
    by (cases "db_call env SPolicyRetry (MarkSendRetryable (penvNow env SPolicyRetry) c) w")
  with True assms(1,2) have "x = Inr False" "w' = w1"
    by (auto simp: refuse_by_policy_def terminal_result_def split: sum.splits bool.splits)
  with retry_refused r assms(3,4) show ?thesis by metis
next
  case False
  then have "reaches (settling_op c) w (fst (refuse_by_policy env c email p w))"
    using finalize_failed_reaches [of c w env SPolicyFail "penvNow env SPolicyFail"]
    by (auto simp: refuse_by_policy_def split: option.split prod.split sum.split bool.split)
      (metis fst_conv)+
  then show ?thesis using assms settles_unclaimable by simp
qed

lemma submit_terminal:
  assumes "submit env c email w = (w', r)" and "\<And>e. r = Inl e \<Longrightarrow> terminal_result e"
    and "keyed eID (emails (wdb w))" and "unclaimable i (wdb w)"
  shows "unclaimable i (wdb w')"
proof (cases "may_be_out (penvSend env email)")
  case True
  let ?w = "w\<lparr>wsent := wsent w @ [claim_submission c]\<rparr>"
  have "reaches (settling_op c) ?w w'" using submit_settles [OF True, of c w] assms(1) by simp
  then show ?thesis using settles_unclaimable [of c ?w w' i] assms(3,4) by simp
next
  case False
  then obtain err where err: "penvSend env email = Inl err" "\<not> DeliveryOutcomeUnknown err" "IsRetryableDeliveryError err"
    by (auto simp: may_be_out_def split: sum.splits)
  let ?w = "w\<lparr>wsent := wsent w @ [claim_submission c]\<rparr>"
  obtain w1 x where r: "db_call env SRetry (MarkSendRetryable (penvNow env SRetry) c) ?w = (w1, x)"
    by (cases "db_call env SRetry (MarkSendRetryable (penvNow env SRetry) c) ?w")
  with err assms(1,2) have "x = Inr False" "w' = w1"
    by (auto simp: submit_def handle_send_error_def claim_submission_def terminal_result_def Let_def
        split: sum.splits bool.splits)
  with retry_refused [of env SRetry _ c ?w w1] r assms(3,4) show ?thesis by simp
qed

lemma run_claimed_terminal:
  assumes "run_claimed env c email w = (w', r)" and "\<And>e. r = Inl e \<Longrightarrow> terminal_result e"
    and "keyed eID (emails (wdb w))" and "unclaimable i (wdb w)"
  shows "unclaimable i (wdb w')"
proof -
  let ?c = "c\<lparr>claimLeaseUntil := penvStartTime env + 2 * minute\<rparr>"
  let ?p = "checkRecipientSuppression (penvSuppressionRepo env) (penvContactRepo env)
    (penvFault env SSuppressions) (penvFault env SContacts) (eTeamID email) (normalizeEmailRecipients email) (wdb w)"
  obtain w1 x where st: "db_call env SStart (MarkSendStarted (penvNow env SStart) ?c) w = (w1, x)"
    by (cases "db_call env SStart (MarkSendStarted (penvNow env SStart) ?c) w")
  have "reaches (keeps_claimed i) w w1"
    using st by (rule db_call_reaches' [where op = "OpStarted (penvNow env SStart) ?c"])
      (simp_all add: keeps_claimed_def)
  from reaches_unclaimable [OF this assms(3,4)]
  have w1: "keyed eID (emails (wdb w1))" "unclaimable i (wdb w1)" by auto
  show ?thesis
  proof (cases "?p = PolicyOk")
    case False
    then have run: "refuse_by_policy env c email ?p w = (w', r)"
      using assms(1) by (simp add: run_claimed_def Let_def)
    then obtain e where "r = Inl e"
      by (auto simp: refuse_by_policy_def split: if_splits option.splits prod.splits sum.splits bool.splits)
    with refuse_by_policy_terminal [of env c email ?p w w' e i] run assms(2-4) show ?thesis by simp
  next
    case ok: True
    show ?thesis
    proof (cases "x = Inr True")
      case True
      let ?w2 = "recordEvent env SEvent (claimEmailID c) ''email.sending'' None w1"
      let ?email = "email\<lparr>eSendAttemptState := SendAttemptStarted, eSendLeaseUntil := Some (claimLeaseUntil ?c)\<rparr>"
      have run: "submit env ?c ?email ?w2 = (w', r)"
        using True ok st assms(1) by (simp add: run_claimed_def Let_def)
      have "keyed eID (emails (wdb ?w2))" "unclaimable i (wdb ?w2)"
        using w1 by (simp_all add: recordEvent_rows unclaimable_def email_at_def)
      with submit_terminal [OF run assms(2)] show ?thesis by blast
    next
      case False
      then have "w' = w1"
        using ok st assms(1) by (auto simp: run_claimed_def Let_def split: sum.splits bool.splits)
      with w1 show ?thesis by simp
    qed
  qed
qed

lemma claim_refused_unclaimable:
  assumes "db_ok s" and "exec_one (ClaimSendAttempt_where c) f s = (s', Inr False)"
  shows "s' = s \<and> unclaimable (claimEmailID c) s"
proof -
  have key: "keyed eID (emails s)" using assms(1) by (simp add: db_ok_def)
  have r: "s' = s \<and> (\<forall>e. email_at s (claimEmailID c) = Some e \<longrightarrow> \<not> ClaimSendAttempt_where c e)"
    by (rule refused_unchanged [OF key _ assms(2)]) (simp add: ClaimSendAttempt_where_def)
  have "eStatus e \<noteq> EmailStatusQueued" if "email_at s (claimEmailID c) = Some e" for e
    using that r assms(1) email_at_SomeD [OF that]
    by (auto simp: db_ok_iff attempt_ok_def ClaimSendAttempt_where_def)
  with r show ?thesis by (simp add: unclaimable_def)
qed

lemma process_terminal:
  assumes "db_ok (wdb w)" and "penvParse env emailID = Some i"
    and "processFromQueueDurable env emailID w = (w', r)" and "\<And>e. r = Inl e \<Longrightarrow> terminal_result e"
  shows "unclaimable i (wdb w')"
proof -
  let ?c = "env_claim env i"
  have key: "keyed eID (emails (wdb w))" using assms(1) by (simp add: db_ok_def)
  have ci: "claimEmailID ?c = i" by (simp add: env_claim_def)
  obtain w1 x where cl: "db_call env SClaim (ClaimSendAttempt (penvNow env SClaim) ?c) w = (w1, x)"
    by (cases "db_call env SClaim (ClaimSendAttempt (penvNow env SClaim) ?c) w")
  obtain email where email: "GetByID i (wdb w) = Inr email" "penvFault env SGet = NoFault"
    using assms(2-4)
    by (cases "penvFault env SGet"; cases "GetByID i (wdb w)")
      (auto simp: processFromQueueDurable_def terminal_result_def)
  then have at: "email_at (wdb w) i = Some email" by (auto simp: GetByID_def split: option.splits)
  show ?thesis
  proof (cases "eStatus email = EmailStatusQueued")
    case False
    with at assms(2,3) email have "w' = w" by (simp add: processFromQueueDurable_def)
    with at False show ?thesis by (simp add: unclaimable_def)
  next
    case queued: True
    consider (claimed) e2 where "x = Inr True" "run_claimed env ?c e2 w1 = (w', r)"
      | (refused) "x = Inr False" "w' = w1"
      using assms(2-4) email queued cl
      by (auto simp: processFromQueueDurable_def Let_def terminal_result_def
          split: if_splits sum.splits bool.splits)
    then show ?thesis
    proof cases
      case refused
      then have "exec_one (ClaimSendAttempt_where ?c) (ClaimSendAttempt_set (penvNow env SClaim) ?c) (wdb w) = (wdb w1, Inr False)"
        using cl by (auto simp: db_call_def ClaimSendAttempt_def split: prod.splits dest: run_call_InrD)
      from claim_refused_unclaimable [OF assms(1) this] refused(2) ci show ?thesis by simp
    next
      case (claimed e2)
      have ex: "ClaimSendAttempt (penvNow env SClaim) ?c (wdb w) = (wdb w1, Inr True)"
        using cl claimed(1) by (auto simp: db_call_def split: prod.splits dest: run_call_InrD)
      then have w1: "wdb w1 = exec_op (OpClaim (penvNow env SClaim) ?c) (wdb w)" by simp
      then have key1: "keyed eID (emails (wdb w1))" using keyed_exec_op [OF key] by metis
      have "rows_affected (ClaimSendAttempt_where ?c) (emails (wdb w)) = 1"
        using ex exec_one_simps(2) [of "ClaimSendAttempt_where ?c" "ClaimSendAttempt_set (penvNow env SClaim) ?c" "wdb w"]
        by (simp add: ClaimSendAttempt_def)
      then have "ClaimSendAttempt_where ?c email"
        using rows_affected_keyed(1) [OF key, of "ClaimSendAttempt_where ?c" i] at ci
        by (auto simp: email_at_def ClaimSendAttempt_where_def)
      then have "email_at (wdb w1) i = Some (ClaimSendAttempt_set (penvNow env SClaim) ?c email)"
        using email_at_sql_update [of "wdb w1" "ClaimSendAttempt_where ?c" "ClaimSendAttempt_set (penvNow env SClaim) ?c" "wdb w" i]
          at w1 by (simp add: ClaimSendAttempt_def)
      then have "unclaimable i (wdb w1)" by (simp add: unclaimable_def ClaimSendAttempt_set_def)
      with run_claimed_terminal [OF claimed(2) assms(4) key1] show ?thesis by blast
    qed
  qed
qed

section \<open>The worker\<close>

lemma q_call_jobs:
  assumes "q_call env st f y = (y1, res)" and "\<And>q. jobs q - A \<subseteq> jobs (fst (f q))"
  shows "jobs (sysQueue y) - A \<subseteq> jobs (sysQueue y1) \<and> sysWorld y1 = sysWorld y"
  using assms(1) assms(2) [of "sysQueue y"] redis_call_state [of "wkFault env st" f "sysQueue y"]
  by (auto simp: q_call_def split: prod.splits)

lemma q_call_requeue:
  assumes "q_call env st (Requeue (Some r) cnt now) y = (y1, res)" and "no_sep (qrToken r)"
    and "\<not> (cnt \<and> length (dead (sysQueue y)) \<ge> 10000)"
  shows "jobs (sysQueue y) \<subseteq> jobs (sysQueue y1)"
  using assms(1) requeue_jobs [OF assms(2,3), of now] redis_call_state [of "wkFault env st" "Requeue (Some r) cnt now" "sysQueue y"]
  by (auto simp: q_call_def split: prod.splits)

lemma settle_error_jobs:
  assumes "settle_error env r e y = (y', ok)" and "no_sep (qrToken r)" and "length (dead (sysQueue y)) < 10000"
    and "\<not> terminal_result e"
  shows "jobs (sysQueue y) \<subseteq> jobs (sysQueue y')"
proof (cases "\<exists>at. e = ErrEmailNotDue at")
  case True
  then obtain at where e: "e = ErrEmailNotDue at" by blast
  obtain y1 x where r1: "q_call env QResched (RescheduleReceipt (Some r) (wkUnix env at)) y = (y1, x)"
    by (cases "q_call env QResched (RescheduleReceipt (Some r) (wkUnix env at)) y")
  obtain y2 z where r2: "q_call env QFallback (Requeue (Some r) False (wkNow env)) y1 = (y2, z)"
    by (cases "q_call env QFallback (Requeue (Some r) False (wkNow env)) y1")
  have "jobs (sysQueue y) \<subseteq> jobs (sysQueue y1)"
    using q_call_jobs [OF r1, of "{}"] release_jobs(1) [OF assms(2)] by simp
  moreover have "jobs (sysQueue y1) \<subseteq> jobs (sysQueue y2)"
    using q_call_requeue [OF r2 assms(2)] by simp
  moreover have "y' = y1 \<or> y' = y2"
    using assms(1,4) e r1 r2 by (auto simp: settle_error_def split: sum.splits)
  ultimately show ?thesis by blast
next
  case False
  obtain y1 x where r1: "q_call env QReq (Requeue (Some r) True (wkNow env)) y = (y1, x)"
    by (cases "q_call env QReq (Requeue (Some r) True (wkNow env)) y")
  have "jobs (sysQueue y) \<subseteq> jobs (sysQueue y1)"
    using q_call_requeue [OF r1 assms(2)] assms(3) by simp
  moreover have "sysQueue y' = sysQueue y1"
    using assms(1,4) False r1
    by (auto simp: settle_error_def split: proc_error.splits sum.splits queue_error.splits prod.splits)
  ultimately show ?thesis by simp
qed

lemma drops_only_settled:
  assumes "db_ok (wdb (sysWorld y))" and "no_sep (wkToken env)" and "length (dead (sysQueue y)) < 10000"
    and "j \<in> jobs (sysQueue y)" and "processNext env y = (y', ok)" and "j \<notin> jobs (sysQueue y')"
  shows "\<exists>i. penvParse (wkProc env) j = Some i \<and> unclaimable i (wdb (sysWorld y'))"
proof -
  obtain y1 x where d: "q_call env QDeq (Dequeue (wkToken env) (wkNow env)) y = (y1, x)"
    by (cases "q_call env QDeq (Dequeue (wkToken env) (wkNow env)) y")
  have y1: "j \<in> jobs (sysQueue y1)" "sysWorld y1 = sysWorld y"
    using q_call_jobs [OF d, of "{}"] dequeue_jobs [OF assms(2)] assms(4) by auto
  have dead1: "length (dead (sysQueue y1)) < 10000"
    using d assms(3) by (auto simp: q_call_def redis_call_def Dequeue_def Let_def split: fault.splits prod.splits if_splits)
  have "\<exists>r. x = Inr (Some r) \<and> qrEmailID r \<noteq> []"
    using assms(5,6) d y1(1) by (auto simp: processNext_def split: sum.splits option.splits if_splits)
  then obtain r where r: "x = Inr (Some r)" "qrEmailID r \<noteq> []" by blast
  then have tok: "no_sep (qrToken r)"
    using d assms(2) by (auto simp: q_call_def redis_call_def Dequeue_def Let_def split: fault.splits prod.splits if_splits)
  obtain w res where p: "processFromQueueDurable (wkProc env) (qrEmailID r) (sysWorld y1) = (w, res)"
    by (cases "processFromQueueDurable (wkProc env) (qrEmailID r) (sysWorld y1)")
  let ?y2 = "y1\<lparr>sysWorld := w\<rparr>"
  have ack: "jobs (sysQueue y1) - {qrEmailID r} \<subseteq> jobs (sysQueue y3) \<and> sysWorld y3 = w"
    if "q_call env st (Ack (Some r)) ?y2 = (y3, z)" for st y3 z
    using q_call_jobs [OF that, of "{qrEmailID r}"] release_jobs(2) [OF tok] by simp
  have final: "terminal_result e" if "res = Inl e" for e
  proof (rule ccontr)
    assume "\<not> terminal_result e"
    moreover have "settle_error env r e ?y2 = (y', ok)"
      using assms(5) d r p that by (simp add: processNext_def)
    ultimately show False
      using settle_error_jobs [of env r e ?y2 y' ok] tok dead1 y1(1) assms(6) by auto
  qed
  have fin: "sysWorld y' = w \<and> j = qrEmailID r"
    using assms(5,6) d r p ack y1(1) final
    by (auto simp: processNext_def settle_error_def split: sum.splits prod.splits) blast+
  moreover obtain i where "penvParse (wkProc env) (qrEmailID r) = Some i"
    using p final by (cases "penvParse (wkProc env) (qrEmailID r)")
      (auto simp: processFromQueueDurable_def terminal_result_def)
  ultimately show ?thesis
    using process_terminal [of "sysWorld y1" "wkProc env" "qrEmailID r" i w res] p final y1(2) assms(1) by auto
qed

text \<open>C2: A worker drops an item only when there is nothing left to do for it. Let the rows be
  well-formed, the lease token free of the separator and the dead-letter list not full (fewer than
  10000 items; a full list is trimmed, and the item at its end is lost). If an e-mail was pending,
  leased, scheduled or dead-lettered before an iteration and is none of these after it, then its
  message is no longer queued in the database: it was sent, failed, parked as ambiguous,
  cancelled, is held by an attempt that recovery will settle, or has no row. This holds for every
  pattern of store failures.\<close>

theorem worker_drops_only_settled:
  assumes "db_ok (wdb (sysWorld y))" and "no_sep (wkToken env)" and "length (dead (sysQueue y)) < 10000"
    and "j \<in> jobs (sysQueue y)" and "processNext env y = (y', ok)" and "j \<notin> jobs (sysQueue y')"
  shows "\<exists>i. penvParse (wkProc env) j = Some i \<and> unclaimable i (wdb (sysWorld y'))"
  using assms by (rule drops_only_settled)

definition demo_worker :: worker_env where
  "demo_worker = \<lparr>wkProc = demo_env, wkToken = ''t1'', wkNow = 0, wkFault = (\<lambda>_. NoFault), wkUnix = (\<lambda>t. t div second)\<rparr>"

theorem worker_drops_only_settled_witness:
  "unclaimable 1 (wdb (sysWorld (fst (processNext demo_worker
     \<lparr>sysWorld = demo_world, sysQueue = Enqueue ''e1'' empty_redis\<rparr>))))"
proof -
  let ?y = "\<lparr>sysWorld = demo_world, sysQueue = Enqueue ''e1'' empty_redis\<rparr>"
  obtain y' ok where run: "processNext demo_worker ?y = (y', ok)" by (cases "processNext demo_worker ?y")
  have "pending (sysQueue (fst (processNext demo_worker ?y))) = [] \<and>
    processing (sysQueue (fst (processNext demo_worker ?y))) = [] \<and>
    scheduled (sysQueue (fst (processNext demo_worker ?y))) = [] \<and>
    dead (sysQueue (fst (processNext demo_worker ?y))) = []"
    by code_simp
  then have "''e1'' \<notin> jobs (sysQueue y')" by (simp add: jobs_def run)
  moreover have "db_ok (wdb demo_world)"
    by (simp add: db_ok_def demo_world_def attempt_ok_def blank_email_def)
  ultimately show ?thesis
    unfolding run fst_conv
    using worker_drops_only_settled [OF _ _ _ _ run, of "''e1''"]
    by (simp add: run demo_worker_def demo_env_def no_sep_def jobs_def Enqueue_def empty_redis_def)
qed

end
