(* ===== verification/UsageLimiter.thy ===== *)
theory UsageLimiter
  imports Prelude
begin

text \<open>
  \<open>internal/queue/usage.go\<close>: the daily recipient quota. A counter lives under the key of a
  team and a UTC day and expires at the next midnight; \<open>Reserve\<close> and \<open>Release\<close> are atomic
  scripts. The locale \<open>quota\<close> states what the send service relies on.
\<close>

section \<open>Counters\<close>

text \<open>The formatted date stands for the number of the UTC day.\<close>

type_synonym usage_key = "uuid \<times> int"
type_synonym usage_store = "usage_key \<Rightarrow> (int \<times> int) option"

definition day_seconds :: int where "day_seconds = 86400"

definition usageKey :: "uuid \<Rightarrow> int \<Rightarrow> usage_key \<times> int" where
  "usageKey team now = ((team, now div day_seconds), (now div day_seconds) * day_seconds + day_seconds)"

definition live :: "int \<Rightarrow> usage_store \<Rightarrow> usage_key \<Rightarrow> int option" where
  "live now u k = (case u k of None \<Rightarrow> None | Some (v, expires) \<Rightarrow> if now < expires then Some v else None)"

definition used :: "int \<Rightarrow> usage_store \<Rightarrow> usage_key \<Rightarrow> int" where
  "used now u k = (case live now u k of None \<Rightarrow> 0 | Some v \<Rightarrow> v)"

text \<open>A missing counter has no expiry until \<open>EXPIREAT\<close> gives it one; a live one keeps its own.\<close>

definition Reserve :: "uuid \<Rightarrow> int \<Rightarrow> int \<Rightarrow> int \<Rightarrow> usage_store \<Rightarrow> usage_store \<times> bool" where
  "Reserve team units limit now u =
     (if units \<le> 0 \<or> limit \<le> 0 then (u, True)
      else
        (let (k, expiresAt) = usageKey team now;
             current = used now u k + units;
             expires = (if current = units then expiresAt
                        else case u k of Some (_, x) \<Rightarrow> x | None \<Rightarrow> expiresAt);
             u1 = u(k \<mapsto> (current, expires))
         in if current > limit then (u(k \<mapsto> (current - units, expires)), False)
            else (u1, True)))"

definition Release :: "uuid \<Rightarrow> int \<Rightarrow> int \<Rightarrow> int \<Rightarrow> usage_store \<Rightarrow> usage_store" where
  "Release team units reservedAt now u =
     (if units \<le> 0 then u
      else
        (let (k, _) = usageKey team reservedAt in
         case live now u k of
           None \<Rightarrow> u
         | Some v \<Rightarrow> u(k \<mapsto> (max 0 (v - units), snd (the (u k))))))"

section \<open>The contract\<close>

text \<open>
  A quota counter: a granted reservation is counted and fits the limit, a refused one counts
  nothing, other counters are not touched, and releasing what was granted restores the count.
\<close>

locale quota =
  fixes usage :: "'s \<Rightarrow> 'k \<Rightarrow> int"
    and reserve :: "'k \<Rightarrow> int \<Rightarrow> int \<Rightarrow> 's \<Rightarrow> 's \<times> bool"
    and release :: "'k \<Rightarrow> int \<Rightarrow> 's \<Rightarrow> 's"
  assumes granted: "0 < n \<Longrightarrow> 0 < limit \<Longrightarrow> reserve k n limit s = (s', True) \<Longrightarrow>
      usage s' k = usage s k + n \<and> usage s' k \<le> limit"
    and refused: "reserve k n limit s = (s', False) \<Longrightarrow> usage s' k = usage s k \<and> usage s k + n > limit"
    and reserve_other: "k \<noteq> k' \<Longrightarrow> reserve k n limit s = (s', r) \<Longrightarrow> usage s' k' = usage s k'"
    and released: "0 < n \<Longrightarrow> 0 \<le> usage s k \<Longrightarrow> usage (release k n s) k = max 0 (usage s k - n)"
    and release_other: "k \<noteq> k' \<Longrightarrow> usage (release k n s) k' = usage s k'"
begin

lemma reserve_release:
  assumes "0 < n" and "0 < limit" and "0 \<le> usage s k" and "reserve k n limit s = (s', True)"
  shows "usage (release k n s') k' = usage s k'"
  using granted [OF assms(1,2,4)] released [OF assms(1), of s' k] reserve_other [OF _ assms(4)]
    release_other [of k k' n s'] assms(1,3) by (cases "k = k'") auto

end

lemma used_fst [simp]: "fst (usageKey team now) = (team, now div day_seconds)"
  by (simp add: usageKey_def)

lemma before_midnight: "now < now div day_seconds * day_seconds + day_seconds"
proof -
  have "now mod day_seconds < day_seconds" by (simp add: day_seconds_def)
  then show ?thesis using div_mult_mod_eq [of now day_seconds] by linarith
qed

text \<open>At one instant the counters are those of the current day.\<close>

interpretation rl: quota "\<lambda>u team. used now u (team, now div day_seconds)"
  "\<lambda>team n limit u. Reserve team n limit now u" "\<lambda>team n u. Release team n now now u" for now
proof unfold_locales
  have later: "now < now div day_seconds * day_seconds + day_seconds"
    by (rule before_midnight)
  { fix n limit k and s s' :: usage_store
    assume "0 < n" "0 < limit" "Reserve k n limit now s = (s', True)"
    then show "used now s' (k, now div day_seconds) = used now s (k, now div day_seconds) + n \<and>
        used now s' (k, now div day_seconds) \<le> limit"
      using later
      by (auto simp: Reserve_def usageKey_def used_def live_def Let_def
          split: option.splits if_splits prod.splits) }
  { fix n limit k and s s' :: usage_store
    assume "Reserve k n limit now s = (s', False)"
    then show "used now s' (k, now div day_seconds) = used now s (k, now div day_seconds) \<and>
        limit < used now s (k, now div day_seconds) + n"
      using later
      by (auto simp: Reserve_def usageKey_def used_def live_def Let_def
          split: option.splits if_splits prod.splits) }
qed (auto simp: Reserve_def Release_def usageKey_def used_def live_def Let_def
    split: option.splits if_splits prod.splits)

section \<open>Properties\<close>

text \<open>A day's requests of one team, each at its own time; the second component is what was granted.\<close>

fun reserve_all :: "uuid \<Rightarrow> int \<Rightarrow> (int \<times> int) list \<Rightarrow> usage_store \<Rightarrow> usage_store \<times> int" where
  "reserve_all team limit [] u = (u, 0)"
| "reserve_all team limit ((units, now) # xs) u =
     (case Reserve team units limit now u of
        (u1, ok) \<Rightarrow> (case reserve_all team limit xs u1 of
           (u2, g) \<Rightarrow> (u2, g + (if ok then units else 0))))"

text \<open>The counter of a day holds some number and expires when the day ends.\<close>

definition day_counter :: "usage_store \<Rightarrow> uuid \<Rightarrow> int \<Rightarrow> int \<Rightarrow> bool" where
  "day_counter u team d v \<longleftrightarrow>
     (case u (team, d) of None \<Rightarrow> v = 0 | Some (x, e) \<Rightarrow> x = v \<and> e = d * day_seconds + day_seconds)"

lemma Reserve_day_counter:
  assumes "day_counter u team (now div day_seconds) v" and "0 < units" and "0 < limit"
    and "Reserve team units limit now u = (u', ok)"
  shows "day_counter u' team (now div day_seconds) (v + (if ok then units else 0))"
    and "ok \<longleftrightarrow> v + units \<le> limit"
  using assms before_midnight [of now]
  by (auto simp: Reserve_def day_counter_def usageKey_def used_def live_def Let_def
      split: option.splits if_splits prod.splits)

lemma reserve_all_counter:
  assumes "0 < limit" and "\<forall>(units, now) \<in> set xs. 0 < units \<and> now div day_seconds = d"
    and "day_counter u team d v" and "v \<le> limit"
  shows "day_counter (fst (reserve_all team limit xs u)) team d (v + snd (reserve_all team limit xs u)) \<and>
    v + snd (reserve_all team limit xs u) \<le> limit"
  using assms(2-)
proof (induction xs arbitrary: u v)
  case (Cons x xs)
  obtain units now where x: "x = (units, now)" by (cases x)
  obtain u1 ok where r: "Reserve team units limit now u = (u1, ok)" by (cases "Reserve team units limit now u")
  from Cons.prems x have d: "now div day_seconds = d" "0 < units" by auto
  note step = Reserve_day_counter [OF _ d(2) assms(1) r, unfolded d(1), OF Cons.prems(2)]
  have "v + (if ok then units else 0) \<le> limit" using step(2) Cons.prems(3) by simp
  from Cons.IH [OF _ step(1) this] Cons.prems(1) show ?case
    by (cases ok) (simp_all add: x r case_prod_beta ac_simps)
qed simp

text \<open>C8: The daily quota holds. Whatever requests a team makes during a day, the units granted
  never exceed the limit, and the counter at the end is exactly what was granted: a refused
  request leaves no trace.\<close>

theorem quota_never_exceeded:
  assumes "0 < limit" and "\<forall>(units, now) \<in> set xs. 0 < units \<and> now div day_seconds = d"
    and "u (team, d) = None" and "reserve_all team limit xs u = (u', granted)"
    and "later div day_seconds = d"
  shows "granted \<le> limit \<and> used later u' (team, d) = granted"
proof -
  have "day_counter u team d 0" using assms(3) by (simp add: day_counter_def)
  from reserve_all_counter [OF assms(1,2) this] assms(1,4)
  have "day_counter u' team d granted" "granted \<le> limit" by auto
  moreover have "later < d * day_seconds + day_seconds"
    using before_midnight [of later] assms(5) by simp
  ultimately show ?thesis
    by (auto simp: day_counter_def used_def live_def split: option.splits)
qed

theorem quota_never_exceeded_witness:
  "snd (reserve_all 7 100 [(60, 10), (50, 20), (40, 30)] (\<lambda>_. None)) \<le> 100 \<and>
   snd (reserve_all 7 100 [(60, 10), (50, 20), (40, 30)] (\<lambda>_. None)) = 100"
proof -
  let ?xs = "[(60, 10), (50, 20), (40, 30)] :: (int \<times> int) list"
  obtain u' g where r: "reserve_all 7 100 ?xs (\<lambda>_. None) = (u', g)"
    by (cases "reserve_all 7 100 ?xs (\<lambda>_. None)")
  have "snd (reserve_all 7 100 ?xs (\<lambda>_. None)) = 100" by code_simp
  then show ?thesis
    using quota_never_exceeded [OF _ _ _ r, of 0 40] r by (simp add: day_seconds_def)
qed

text \<open>Giving a reservation back on the same day restores every counter, so a send that fails
  after its quota was reserved costs nothing.\<close>

theorem release_undoes_reserve:
  assumes "0 < units" and "0 < limit" and "0 \<le> used now u (team, now div day_seconds)"
    and "Reserve team units limit now u = (u', True)"
  shows "used now (Release team units now now u') (other, now div day_seconds) =
    used now u (other, now div day_seconds)"
  using assms by (rule rl.reserve_release)

theorem release_undoes_reserve_witness:
  "used 5 (Release 7 3 5 5 (fst (Reserve 7 3 10 5 (\<lambda>_. None)))) (7, 0) = 0"
proof -
  have "Reserve 7 3 10 5 (\<lambda>_. None) = (fst (Reserve 7 3 10 5 (\<lambda>_. None)), True)"
    by (simp add: Reserve_def usageKey_def used_def live_def Let_def)
  from release_undoes_reserve [OF _ _ _ this, of 7] show ?thesis
    by (simp add: day_seconds_def used_def live_def)
qed

end
