(* ===== verification/Validator.thy ===== *)
theory Validator
  imports Prelude "HOL-Library.Word"
begin

unbundle bit_operations_syntax

text \<open>
  \<open>pkg/validator/validator.go\<close>: syntactic checks on addresses, domain names and slugs, and the
  guard that keeps webhook traffic away from internal networks. An address of the network is
  a 32-bit or a 128-bit word. \<open>mail.ParseAddress\<close> is modelled on the texts that match
  \<open>emailRegex\<close>, the only ones for which \<open>IsValidEmail\<close> depends on it: there it accepts
  exactly a dot-atom on either side of the sign. \<open>net.ParseIP\<close> and \<open>url.Parse\<close> are arguments.
\<close>

section \<open>Characters\<close>

definition char_in :: "nat \<Rightarrow> nat \<Rightarrow> char \<Rightarrow> bool" where
  "char_in lo hi c \<longleftrightarrow> lo \<le> of_char c \<and> of_char c \<le> hi"

definition is_digit :: "char \<Rightarrow> bool" where "is_digit = char_in 48 57"
definition is_lower :: "char \<Rightarrow> bool" where "is_lower = char_in 97 122"
definition is_upper :: "char \<Rightarrow> bool" where "is_upper = char_in 65 90"
definition is_letter :: "char \<Rightarrow> bool" where "is_letter c \<longleftrightarrow> is_lower c \<or> is_upper c"

fun split_at :: "char \<Rightarrow> string \<Rightarrow> string list" where
  "split_at sep [] = [[]]"
| "split_at sep (c # s) =
     (if c = sep then [] # split_at sep s
      else (case split_at sep s of w # ws \<Rightarrow> (c # w) # ws | [] \<Rightarrow> [[c]]))"

lemma split_at_ne [simp]: "split_at sep s \<noteq> []"
  by (induction s) (auto split: list.splits)

lemma split_at_parts: "p \<in> set (split_at sep s) \<Longrightarrow> sep \<notin> set p"
proof (induction s arbitrary: p)
  case (Cons c s)
  obtain w ws where "split_at sep s = w # ws" by (cases "split_at sep s") auto
  with Cons show ?case by (auto split: if_splits)
qed simp

lemma split_at_one: "split_at sep s = [w] \<Longrightarrow> sep \<notin> set s"
proof (induction s arbitrary: w)
  case (Cons c s)
  obtain v vs where "split_at sep s = v # vs" by (cases "split_at sep s") auto
  with Cons show ?case by (auto split: if_splits)
qed simp

lemma split_at_set: "set s \<subseteq> insert sep (\<Union>p \<in> set (split_at sep s). set p)"
proof (induction s)
  case (Cons c s)
  obtain w ws where "split_at sep s = w # ws" by (cases "split_at sep s") auto
  with Cons show ?case by auto
qed simp

section \<open>E-mail addresses\<close>

definition local_char :: "char \<Rightarrow> bool" where
  "local_char c \<longleftrightarrow> is_letter c \<or> is_digit c \<or> c \<in> set ''._%+-''"

definition domain_char :: "char \<Rightarrow> bool" where
  "domain_char c \<longleftrightarrow> is_letter c \<or> is_digit c \<or> c \<in> set ''.-''"

text \<open>The regular expression: the last label is found at the last dot, since it has no dot.\<close>

definition emailRegex :: "string \<Rightarrow> bool" where
  "emailRegex s =
     (case split_at (CHR ''@'') s of
        [l, d] \<Rightarrow>
          l \<noteq> [] \<and> list_all local_char l \<and> list_all domain_char d \<and>
          (let labels = split_at (CHR ''.'') d; tld = last labels in
           length labels \<ge> 2 \<and> length tld \<ge> 2 \<and> list_all is_letter tld \<and>
           length d > length tld + 1)
      | _ \<Rightarrow> False)"

definition dot_atom :: "string \<Rightarrow> bool" where
  "dot_atom s \<longleftrightarrow> list_all (\<lambda>p. p \<noteq> []) (split_at (CHR ''.'') s)"

definition ParseAddress_plain :: "string \<Rightarrow> bool" where
  "ParseAddress_plain s = (case split_at (CHR ''@'') s of [l, d] \<Rightarrow> dot_atom l \<and> dot_atom d | _ \<Rightarrow> False)"

definition IsValidEmail :: "string \<Rightarrow> bool" where
  "IsValidEmail email \<longleftrightarrow> email \<noteq> [] \<and> \<not> ContainsAny email CRLF \<and> ParseAddress_plain email \<and> emailRegex email"

section \<open>Slugs and domain names\<close>

definition IsValidSlug :: "string \<Rightarrow> bool" where
  "IsValidSlug s \<longleftrightarrow>
     list_all (\<lambda>p. p \<noteq> [] \<and> list_all (\<lambda>c. is_lower c \<or> is_digit c) p) (split_at (CHR ''-'') s)"

definition TrimSuffix :: "string \<Rightarrow> string \<Rightarrow> string" where
  "TrimSuffix s suf =
     (if length suf \<le> length s \<and> drop (length s - length suf) s = suf
      then take (length s - length suf) s else s)"

text \<open>The parser yields the address without its display name, or fails.\<close>

definition EmailDomain :: "(string \<Rightarrow> string option) \<Rightarrow> string \<Rightarrow> string" where
  "EmailDomain parse email =
     (case parse (TrimSpace email) of
        None \<Rightarrow> []
      | Some a \<Rightarrow>
          (let parts = split_at (CHR ''@'') a in
           if length parts < 2 \<or> last parts = [] then []
           else ToLower (TrimSuffix (last parts) ''.'')))"

definition parse_plain :: "string \<Rightarrow> string option" where
  "parse_plain s = (if ParseAddress_plain s then Some s else None)"

definition HasSuffix :: "string \<Rightarrow> string \<Rightarrow> bool" where
  "HasSuffix s suf \<longleftrightarrow> length suf \<le> length s \<and> drop (length s - length suf) s = suf"

definition domain_label :: "string \<Rightarrow> bool" where
  "domain_label p \<longleftrightarrow> p \<noteq> [] \<and> length p \<le> 63 \<and> hd p \<noteq> CHR ''-'' \<and> last p \<noteq> CHR ''-'' \<and>
     list_all (\<lambda>c. is_lower c \<or> is_digit c \<or> c = CHR ''-'') p"

definition IsValidDomain :: "(string \<Rightarrow> bool) \<Rightarrow> string \<Rightarrow> bool" where
  "IsValidDomain isIP name =
     (let d = TrimSuffix (ToLower (TrimSpace name)) ''.'' in
      if d = [] \<or> isIP d then False
      else
        (let parts = split_at (CHR ''.'') d in
         length parts \<ge> 2 \<and> list_all domain_label parts \<and> length (last parts) \<ge> 2))"

section \<open>Restricted networks\<close>

datatype ip = IPv4 "32 word" | IPv6 "128 word"

definition ip4 :: "nat \<Rightarrow> nat \<Rightarrow> nat \<Rightarrow> nat \<Rightarrow> 32 word" where
  "ip4 a b c d = word_of_nat (((a * 256 + b) * 256 + c) * 256 + d)"

definition in_net4 :: "32 word \<Rightarrow> nat \<Rightarrow> 32 word \<Rightarrow> bool" where
  "in_net4 base bits a \<longleftrightarrow> drop_bit (32 - bits) a = drop_bit (32 - bits) base"

definition in_net6 :: "128 word \<Rightarrow> nat \<Rightarrow> 128 word \<Rightarrow> bool" where
  "in_net6 base bits a \<longleftrightarrow> drop_bit (128 - bits) a = drop_bit (128 - bits) base"

definition webhookRestrictedNetworks4 :: "(32 word \<times> nat) list" where
  "webhookRestrictedNetworks4 =
     [(ip4 0 0 0 0, 8), (ip4 10 0 0 0, 8), (ip4 100 64 0 0, 10), (ip4 127 0 0 0, 8),
      (ip4 169 254 0 0, 16), (ip4 172 16 0 0, 12), (ip4 192 0 0 0, 24), (ip4 192 0 2 0, 24),
      (ip4 192 88 99 0, 24), (ip4 192 168 0 0, 16), (ip4 198 18 0 0, 15), (ip4 198 51 100 0, 24),
      (ip4 203 0 113 0, 24), (ip4 224 0 0 0, 4), (ip4 240 0 0 0, 4)]"

text \<open>The groups of an IPv6 prefix, shifted to the top of the word.\<close>

definition ip6 :: "nat list \<Rightarrow> 128 word" where
  "ip6 groups = word_of_nat (foldl (\<lambda>n g. n * 65536 + g) 0 (groups @ replicate (8 - length groups) 0))"

definition webhookRestrictedNetworks6 :: "(128 word \<times> nat) list" where
  "webhookRestrictedNetworks6 =
     [(0, 128), (1, 128), (ip6 [0x100], 64), (ip6 [0x2001, 2], 48), (ip6 [0x2001, 0x10], 28),
      (ip6 [0x2001, 0x20], 28), (ip6 [0x2001, 0xdb8], 32), (ip6 [0xfc00], 7), (ip6 [0xfe80], 10),
      (ip6 [0xff00], 8)]"

text \<open>\<open>To4\<close> recognises the IPv4 form embedded in an IPv6 address.\<close>

definition To4 :: "ip \<Rightarrow> 32 word option" where
  "To4 a = (case a of
     IPv4 w \<Rightarrow> Some w
   | IPv6 w \<Rightarrow> if drop_bit 32 w = 0xffff then Some (ucast w) else None)"

definition IsGlobalUnicast :: "ip \<Rightarrow> bool" where
  "IsGlobalUnicast a = (case a of
     IPv4 w \<Rightarrow> w \<noteq> ip4 255 255 255 255 \<and> w \<noteq> 0 \<and> \<not> in_net4 (ip4 127 0 0 0) 8 w \<and>
       \<not> in_net4 (ip4 224 0 0 0) 4 w \<and> \<not> in_net4 (ip4 169 254 0 0) 16 w
   | IPv6 w \<Rightarrow> w \<noteq> 0 \<and> w \<noteq> 1 \<and> \<not> in_net6 (ip6 [0xff00]) 8 w \<and> \<not> in_net6 (ip6 [0xfe80]) 10 w)"

definition in_restricted :: "ip \<Rightarrow> bool" where
  "in_restricted a = (case a of
     IPv4 w \<Rightarrow> list_ex (\<lambda>(b, n). in_net4 b n w) webhookRestrictedNetworks4
   | IPv6 w \<Rightarrow> list_ex (\<lambda>(b, n). in_net6 b n w) webhookRestrictedNetworks6)"

definition IsPrivateIP :: "ip option \<Rightarrow> bool" where
  "IsPrivateIP address =
     (case address of
        None \<Rightarrow> True
      | Some a \<Rightarrow>
          (let b = (case To4 a of Some w \<Rightarrow> IPv4 w | None \<Rightarrow> a) in
           if \<not> IsGlobalUnicast b then True else in_restricted b))"

definition IsPrivateHost :: "(string \<Rightarrow> ip option) \<Rightarrow> string \<Rightarrow> bool" where
  "IsPrivateHost parseIP host =
     (let h = ToLower (TrimSuffix host ''.'') in
      if h = ''localhost'' \<or> HasSuffix h ''.localhost'' \<or> HasSuffix h ''.local'' \<or> HasSuffix h ''.internal''
      then True
      else (case parseIP h of None \<Rightarrow> False | Some a \<Rightarrow> IsPrivateIP (Some a)))"

text \<open>The parts of a URL the checks read: \<open>url.Parse\<close> returns them or fails.\<close>

record parsed_url =
  urlScheme :: string
  urlHostname :: string
  urlHasUser :: bool
  urlFragment :: string

definition IsValidURL :: "(string \<Rightarrow> parsed_url option) \<Rightarrow> (string \<Rightarrow> ip option) \<Rightarrow> string \<Rightarrow> bool" where
  "IsValidURL parse parseIP raw =
     (case parse raw of
        None \<Rightarrow> False
      | Some u \<Rightarrow>
          if length raw > 2048 \<or> (ToLower (urlScheme u) \<noteq> ''http'' \<and> ToLower (urlScheme u) \<noteq> ''https'') \<or>
             urlHostname u = [] \<or> urlHasUser u \<or> urlFragment u \<noteq> []
          then False else \<not> IsPrivateHost parseIP (urlHostname u))"

definition IsValidHTTPSURL :: "(string \<Rightarrow> parsed_url option) \<Rightarrow> (string \<Rightarrow> ip option) \<Rightarrow> string \<Rightarrow> bool" where
  "IsValidHTTPSURL parse parseIP raw =
     (case parse raw of
        None \<Rightarrow> False
      | Some u \<Rightarrow> ToLower (urlScheme u) = ''https'' \<and> IsValidURL parse parseIP raw)"

section \<open>Address properties\<close>

lemma in_net4_interval:
  assumes "bits \<le> 32" and "unat base mod 2 ^ (32 - bits) = 0"
  shows "in_net4 base bits a \<longleftrightarrow> unat base \<le> unat a \<and> unat a < unat base + 2 ^ (32 - bits)"
proof -
  let ?k = "2 ^ (32 - bits) :: nat"
  have "in_net4 base bits a \<longleftrightarrow> unat a div ?k = unat base div ?k"
    unfolding in_net4_def word_unat_eq_iff unat_drop_bit_eq by (simp add: drop_bit_eq_div)
  also have "\<dots> \<longleftrightarrow> unat base \<le> unat a \<and> unat a < unat base + ?k"
  proof
    assume d: "unat a div ?k = unat base div ?k"
    have b: "unat base = unat base div ?k * ?k" using assms(2) by (metis add.right_neutral div_mult_mod_eq)
    have "unat a = unat base div ?k * ?k + unat a mod ?k" by (metis d div_mult_mod_eq)
    moreover have "unat a mod ?k < ?k" by simp
    ultimately show "unat base \<le> unat a \<and> unat a < unat base + ?k" using b by linarith
  next
    assume i: "unat base \<le> unat a \<and> unat a < unat base + ?k"
    have "unat base = unat base div ?k * ?k" using assms(2) by (metis add.right_neutral div_mult_mod_eq)
    with i show "unat a div ?k = unat base div ?k"
      by (metis div_nat_eqI mult.commute mult_Suc_right add.commute)
  qed
  finally show ?thesis .
qed

lemma unat_ip4: "((a * 256 + b) * 256 + c) * 256 + d < 2 ^ 32 \<Longrightarrow>
    unat (ip4 a b c d) = ((a * 256 + b) * 256 + c) * 256 + d"
  unfolding ip4_def unat_of_nat by simp

text \<open>An address as four bytes, and the ranges that must never be contacted.\<close>

definition dotted :: "nat \<Rightarrow> nat \<Rightarrow> nat \<Rightarrow> nat \<Rightarrow> nat" where
  "dotted a b c d = ((a * 256 + b) * 256 + c) * 256 + d"

definition forbidden4 :: "(nat \<times> nat) list" where
  "forbidden4 =
     [(dotted 0 0 0 0, dotted 0 255 255 255), (dotted 10 0 0 0, dotted 10 255 255 255),
      (dotted 100 64 0 0, dotted 100 127 255 255), (dotted 127 0 0 0, dotted 127 255 255 255),
      (dotted 169 254 0 0, dotted 169 254 255 255), (dotted 172 16 0 0, dotted 172 31 255 255),
      (dotted 192 0 0 0, dotted 192 0 0 255), (dotted 192 0 2 0, dotted 192 0 2 255),
      (dotted 192 88 99 0, dotted 192 88 99 255), (dotted 192 168 0 0, dotted 192 168 255 255),
      (dotted 198 18 0 0, dotted 198 19 255 255), (dotted 198 51 100 0, dotted 198 51 100 255),
      (dotted 203 0 113 0, dotted 203 0 113 255), (dotted 224 0 0 0, dotted 239 255 255 255),
      (dotted 240 0 0 0, dotted 255 255 255 255)]"

lemma drop_mapped: "drop_bit 32 (push_bit 32 (x :: 128 word) OR ucast (w :: 32 word)) = drop_bit 32 (push_bit 32 x)"
  by (rule bit_word_eqI) (auto simp: bit_simps dest: bit_imp_le_length)

lemma ucast_mapped: "ucast (push_bit 32 (x :: 128 word) OR ucast (w :: 32 word)) = w"
  by (rule bit_word_eqI) (auto simp: bit_simps)

lemma To4_mapped: "To4 (IPv6 (push_bit 32 0xffff OR ucast (w :: 32 word))) = Some w"
  unfolding To4_def ip.case drop_mapped ucast_mapped by simp

lemma restricted4_ranges:
  "map (\<lambda>(b, n). (unat b, unat b + 2 ^ (32 - n) - 1)) webhookRestrictedNetworks4 = forbidden4"
  by (simp add: webhookRestrictedNetworks4_def forbidden4_def dotted_def unat_ip4)

lemma restricted4_aligned:
  "list_all (\<lambda>(b, n). n \<le> 32 \<and> unat b mod 2 ^ (32 - n) = 0) webhookRestrictedNetworks4"
  by (simp add: webhookRestrictedNetworks4_def unat_ip4)

lemma restricted4_intervals:
  "in_restricted (IPv4 w) \<longleftrightarrow> list_ex (\<lambda>(lo, hi). lo \<le> unat w \<and> unat w \<le> hi) forbidden4"
proof -
  have "in_net4 b n w \<longleftrightarrow> unat b \<le> unat w \<and> unat w \<le> unat b + 2 ^ (32 - n) - 1"
    if "(b, n) \<in> set webhookRestrictedNetworks4" for b n
  proof -
    have "n \<le> 32" "unat b mod 2 ^ (32 - n) = 0"
      using that restricted4_aligned by (auto simp: list_all_iff)
    moreover have "x < y + 2 ^ k \<longleftrightarrow> x \<le> y + 2 ^ k - 1" for x y k :: nat
      by (metis Suc_diff_1 add_gr_0 less_Suc_eq_le zero_less_numeral zero_less_power)
    ultimately show ?thesis by (simp only: in_net4_interval)
  qed
  then show ?thesis
    unfolding restricted4_ranges [symmetric] in_restricted_def ip.case list_ex_iff by force
qed

lemma not_global4_restricted:
  assumes "\<not> IsGlobalUnicast (IPv4 w)"
  shows "in_restricted (IPv4 w)"
proof -
  have edge: "in_net4 (ip4 0 0 0 0) 8 0" "in_net4 (ip4 240 0 0 0) 4 (ip4 255 255 255 255)"
    by (simp_all add: in_net4_interval unat_ip4)
  have listed: "{(ip4 0 0 0 0, 8), (ip4 127 0 0 0, 8), (ip4 169 254 0 0, 16), (ip4 224 0 0 0, 4), (ip4 240 0 0 0, 4)}
      \<subseteq> set webhookRestrictedNetworks4"
    by (simp add: webhookRestrictedNetworks4_def)
  from assms consider "w = ip4 255 255 255 255" | "w = 0" | "in_net4 (ip4 127 0 0 0) 8 w"
    | "in_net4 (ip4 224 0 0 0) 4 w" | "in_net4 (ip4 169 254 0 0) 16 w"
    by (auto simp only: IsGlobalUnicast_def ip.case)
  then show ?thesis
    unfolding in_restricted_def ip.case list_ex_iff using listed edge by cases blast+
qed

text \<open>The webhook guard is complete. An IPv4 address is refused exactly when it lies in one of
  the listed ranges (private, loopback, link-local, shared, test, multicast or reserved),
  and the IPv6 form of an IPv4 address is treated like the address itself, so neither form
  reaches an internal host.\<close>

theorem private_ip_exact:
  "(IsPrivateIP (Some (IPv4 w)) \<longleftrightarrow> list_ex (\<lambda>(lo, hi). lo \<le> unat w \<and> unat w \<le> hi) forbidden4) \<and>
   IsPrivateIP (Some (IPv6 (push_bit 32 0xffff OR ucast w))) = IsPrivateIP (Some (IPv4 w)) \<and>
   IsPrivateIP None"
proof -
  have "IsPrivateIP (Some (IPv4 w)) = in_restricted (IPv4 w)"
    using not_global4_restricted [of w] by (auto simp: IsPrivateIP_def To4_def Let_def)
  moreover have "IsPrivateIP (Some (IPv6 (push_bit 32 0xffff OR ucast w))) = IsPrivateIP (Some (IPv4 w))"
    unfolding IsPrivateIP_def option.case To4_mapped by (simp add: To4_def)
  ultimately show ?thesis by (simp add: restricted4_intervals) (simp add: IsPrivateIP_def)
qed

lemma last_split_at: "s \<noteq> [] \<Longrightarrow> last s = sep \<Longrightarrow> last (split_at sep s) = []"
proof (induction s)
  case (Cons c s)
  obtain w ws where w: "split_at sep s = w # ws" by (cases "split_at sep s") auto
  show ?case
  proof (cases s)
    case Nil
    with Cons show ?thesis by simp
  next
    case (Cons c' s')
    with Cons.IH Cons.prems have l: "last (split_at sep s) = []" by simp
    have "ws \<noteq> [] \<or> w = []" using l w by auto
    moreover have "ws \<noteq> []"
    proof
      assume "ws = []"
      then have "sep \<notin> set s" using l w split_at_set [of s sep] split_at_one [OF w [unfolded \<open>ws = []\<close>]] by simp
      with Cons.prems Cons show False by (metis last_ConsR last_in_set list.distinct(1))
    qed
    ultimately show ?thesis using l w by auto
  qed
qed simp

lemma TrimSuffix_last: "s \<noteq> [] \<Longrightarrow> last s \<noteq> c \<Longrightarrow> TrimSuffix s [c] = s"
  by (cases s rule: rev_cases) (auto simp: TrimSuffix_def)

lemma TrimSpace_no_space:
  assumes "\<And>c. c \<in> set s \<Longrightarrow> \<not> is_space c"
  shows "TrimSpace s = s"
proof -
  have "dropWhile is_space xs = xs" if "set xs \<subseteq> set s" for xs
    using that assms by (cases xs) auto
  then show ?thesis by (simp add: TrimSpace_def)
qed

lemma address_char_no_space:
  assumes "is_letter c \<or> is_digit c \<or> c \<in> set ''._%+-@''"
  shows "\<not> is_space c"
  using assms
proof (elim disjE)
  assume "is_letter c"
  then have "65 \<le> (of_char c :: nat)" by (auto simp: is_letter_def is_lower_def is_upper_def char_in_def)
  then show ?thesis by (simp add: is_space_def Let_def)
next
  assume "is_digit c"
  then have "48 \<le> (of_char c :: nat)" by (simp add: is_digit_def char_in_def)
  then show ?thesis by (simp add: is_space_def Let_def)
next
  assume "c \<in> set ''._%+-@''"
  then show ?thesis by (auto simp: is_space_def)
qed

lemma valid_email_chars:
  assumes "IsValidEmail s"
  shows "\<forall>c \<in> set s. is_letter c \<or> is_digit c \<or> c \<in> set ''._%+-@''"
proof -
  obtain l d where ld: "split_at (CHR ''@'') s = [l, d]" "list_all local_char l" "list_all domain_char d"
    using assms by (auto simp: IsValidEmail_def emailRegex_def split: list.splits)
  have "set s \<subseteq> insert (CHR ''@'') (set l \<union> set d)" using split_at_set [of s "CHR ''@''"] ld(1) by simp
  with ld(2,3) show ?thesis by (auto simp: list_all_iff local_char_def domain_char_def)
qed

text \<open>An accepted address cannot inject anything: it consists of letters, digits and the
  six characters of the pattern, hence has no line break, space, quote, bracket, comma or
  colon; it contains exactly one sign and names a non-empty domain.\<close>

theorem valid_email_safe:
  assumes "IsValidEmail s"
  shows "(\<forall>c \<in> set s. is_letter c \<or> is_digit c \<or> c \<in> set ''._%+-@'') \<and>
    length (split_at (CHR ''@'') s) = 2 \<and> EmailDomain parse_plain s \<noteq> []"
proof -
  have sp: "TrimSpace s = s"
    using valid_email_chars [OF assms] address_char_no_space by (blast intro: TrimSpace_no_space)
  obtain l d where ld: "split_at (CHR ''@'') s = [l, d]" "dot_atom d" "ParseAddress_plain s"
    using assms by (auto simp: IsValidEmail_def ParseAddress_plain_def split: list.splits)
  have tl: "last (split_at (CHR ''.'') d) \<noteq> []" "d \<noteq> []"
    using ld(2) by (auto simp: dot_atom_def list_all_iff)
  then have "TrimSuffix d ''.'' \<noteq> []"
    using last_split_at [of d "CHR ''.''"] TrimSuffix_last [of d "CHR ''.''"]
    by (cases "last d = CHR ''.''") simp_all
  then have "EmailDomain parse_plain s \<noteq> []"
    using ld tl(2) by (simp add: EmailDomain_def parse_plain_def sp)
  then show ?thesis using ld(1) valid_email_chars [OF assms] by simp
qed

theorem valid_email_safe_witness: "EmailDomain parse_plain ''bob.b@x-y.org'' \<noteq> []"
proof -
  have "IsValidEmail ''bob.b@x-y.org''" by code_simp
  from valid_email_safe [OF this] show ?thesis by blast
qed

end
