(* ===== verification/EmailService.thy ===== *)
theory EmailService
  imports EmailProcessing UsageLimiter Validator
begin

text \<open>
  The request side of \<open>internal/service/email_service.go\<close>: \<open>send\<close> with its validation,
  idempotency, recipient policy and quota, batches, cancellation, reconciliation, recovery
  and dead letters. The state is the database with the tables the service reads, the
  queue and the usage counters. An environment fixes the clock, fresh identifiers, which
  call fails and how, the request digest and the unsubscribe link.
\<close>

section \<open>State and environment\<close>

datatype Plan = PlanFree | PlanPro | PlanScale

datatype DomainStatus = DomainStatusPending | DomainStatusVerified | DomainStatusFailed

record domain_row =
  dmTeamID :: uuid
  dmName :: string
  dmStatus :: DomainStatus
  dmDMARCStatus :: string

record service =
  sdb :: db
  squeue :: redis
  susage :: usage_store
  sdomains :: "domain_row list"
  splan :: "uuid \<Rightarrow> (Plan \<times> string) option"
  sbatches :: "uuid \<times> string \<Rightarrow> string option"

datatype send_site =
    SeDomain | SeIdempotency | SeSuppressions | SeContacts | SeTeam | SeReserve | SeCreate
  | SeIdempotency2 | SeQueue | SeStatus | SeEvent | SeRelease | SeBatch | SeGet | SeCancel
  | SePrepare | SeReplay | SeRollback

record send_env =
  seFault :: "send_site \<Rightarrow> fault"
  seNow :: instant
  seReservationAt :: instant
  seReserveNow :: instant
  seReleaseNow :: instant
  seID :: uuid
  seEventID :: uuid
  seToken :: uuid
  seIDText :: "uuid \<Rightarrow> string"
  seHash :: "SendEmailRequest \<Rightarrow> string"
  seBatchHash :: "SendEmailRequest option list \<Rightarrow> string"
  seDigest :: "string \<Rightarrow> string"
  seLanding :: "uuid \<Rightarrow> string \<Rightarrow> string option"
  seDomainRepo :: bool
  seUnsubscribe :: bool
  seSuppressionRepo :: bool
  seContactRepo :: bool
  seUsageLimiter :: bool
  seDailyLimit :: int
  seTeamRepo :: bool
  sePlanLimits :: "Plan \<Rightarrow> int option"

datatype send_error_kind =
    SendInvalid string
  | ErrIdempotencyConflict
  | ErrIdempotencyLookup
  | ErrRecipientSuppressed
  | ErrRecipientUnsubscribed
  | ErrPolicyUnavailable
  | ErrUnsubscribeLink
  | ErrUsageUnavailable
  | ErrDailyRecipientLimit
  | ErrSaveFailed
  | ErrQueueUnavailable

definition unix :: "instant \<Rightarrow> int" where
  "unix t = t div second"

section \<open>Text checks\<close>

text \<open>\<open>utf8.ValidString\<close>: well-formed sequences, no surrogates, no overlong forms.\<close>

definition cont_byte :: "char \<Rightarrow> bool" where
  "cont_byte c \<longleftrightarrow> char_in 128 191 c"

fun ValidString :: "string \<Rightarrow> bool" where
  "ValidString [] = True"
| "ValidString (a # s) =
     (if of_char a < (128 :: nat) then ValidString s
      else if char_in 194 223 a then
        (case s of b # t \<Rightarrow> cont_byte b \<and> ValidString t | _ \<Rightarrow> False)
      else if char_in 224 239 a then
        (case s of b # c # t \<Rightarrow>
           (if of_char a = (224 :: nat) then char_in 160 191 b
            else if of_char a = (237 :: nat) then char_in 128 159 b else cont_byte b) \<and>
           cont_byte c \<and> ValidString t
         | _ \<Rightarrow> False)
      else if char_in 240 244 a then
        (case s of b # c # d # t \<Rightarrow>
           (if of_char a = (240 :: nat) then char_in 144 191 b
            else if of_char a = (244 :: nat) then char_in 128 143 b else cont_byte b) \<and>
           cont_byte c \<and> cont_byte d \<and> ValidString t
         | _ \<Rightarrow> False)
      else False)"

text \<open>\<open>filepath.Base\<close> on a system whose separator is the slash.\<close>

definition filepath_Base :: "string \<Rightarrow> string" where
  "filepath_Base p =
     (if p = [] then ''.''
      else
        (let q = rev (dropWhile (\<lambda>c. c = CHR ''/'') (rev p)) in
         if q = [] then ''/'' else last (split_at (CHR ''/'') q)))"

definition isRFCHeaderFieldName :: "string \<Rightarrow> bool" where
  "isRFCHeaderFieldName name \<longleftrightarrow> list_all (\<lambda>c. char_in 33 126 c \<and> c \<noteq> CHR '':'') name \<and> name \<noteq> []"

definition reserved_headers :: "string list" where
  "reserved_headers =
     [''from'', ''to'', ''cc'', ''bcc'', ''subject'', ''reply-to'', ''sender'', ''date'', ''message-id'',
      ''return-path'', ''received'', ''content-type'', ''content-transfer-encoding'', ''content-disposition'',
      ''mime-version'', ''list-unsubscribe'', ''list-unsubscribe-post'']"

definition header_ok :: "string \<times> string \<Rightarrow> bool" where
  "header_ok h = (case h of (name, value) \<Rightarrow>
     \<not> (name = [] \<or> length name > 100 \<or> TrimSpace name \<noteq> name \<or> \<not> isRFCHeaderFieldName name \<or>
        \<not> ValidString name \<or> \<not> ValidString value \<or> ContainsAny name (CRLF @ '':'') \<or>
        ContainsAny value CRLF \<or> length value > 998))"

definition header_reserved :: "string \<times> string \<Rightarrow> bool" where
  "header_reserved h \<longleftrightarrow> ToLower (TrimSpace (fst h)) \<in> set reserved_headers"

definition tag_ok :: "Tag \<Rightarrow> bool" where
  "tag_ok t \<longleftrightarrow> \<not> (TrimSpace (tagName t) = [] \<or> length (tagName t) > 100 \<or> length (tagValue t) > 500 \<or>
     ContainsAny (tagName t) CRLF \<or> ContainsAny (tagValue t) CRLF)"

definition metadata_ok :: "string \<times> string \<Rightarrow> bool" where
  "metadata_ok m = (case m of (key, value) \<Rightarrow>
     \<not> (TrimSpace key = [] \<or> length key > 100 \<or> length value > 1000 \<or>
        ContainsAny key CRLF \<or> ContainsAny value CRLF))"

definition attachment_ok :: "Attachment \<Rightarrow> bool" where
  "attachment_ok a \<longleftrightarrow> \<not> (attFilename a = [] \<or> filepath_Base (attFilename a) \<noteq> attFilename a)"

section \<open>Validation\<close>

definition recipient_count :: "SendEmailRequest \<Rightarrow> nat" where
  "recipient_count req = length (rTo req) + length (rCC req) + length (rBCC req)"

definition GetByName :: "uuid \<Rightarrow> string \<Rightarrow> service \<Rightarrow> domain_row option" where
  "GetByName team name s =
     (let canon = (\<lambda>n. ToLower (rev (dropWhile (\<lambda>c. c = CHR ''.'') (rev n)))) in
      find (\<lambda>d. dmTeamID d = team \<and> canon (dmName d) = canon name) (sdomains s))"

definition from_domain :: "send_env \<Rightarrow> uuid \<Rightarrow> string \<Rightarrow> service \<Rightarrow> domain_row option" where
  "from_domain env team from s =
     (case seFault env SeDomain of
        NoFault \<Rightarrow>
          (case GetByName team (EmailDomain parse_plain from) s of
             Some d \<Rightarrow> if dmStatus d = DomainStatusVerified then Some d else None
           | None \<Rightarrow> None)
      | _ \<Rightarrow> None)"

text \<open>The first block of checks, up to the sender's domain; it also fixes category and sender.\<close>

definition validate_head ::
  "send_env \<Rightarrow> uuid \<Rightarrow> SendEmailRequest \<Rightarrow> service \<Rightarrow> send_error_kind + SendEmailRequest" where
  "validate_head env team req0 s =
     (let category = (if rCategory req0 = [] then EmailCategoryTransactional else rCategory req0) in
      if category \<noteq> EmailCategoryTransactional \<and> category \<noteq> EmailCategoryMarketing
      then Inl (SendInvalid ''category must be transactional or marketing'')
      else
        (let req = req0\<lparr>rCategory := category, rFrom := NormalizeEmail (rFrom req0)\<rparr> in
         if rTo req = [] then Inl (SendInvalid ''at least one recipient is required'')
         else if recipient_count req > 50 then Inl (SendInvalid ''maximum 50 recipients allowed'')
         else if rSubject req = [] then Inl (SendInvalid ''subject is required'')
         else if length (rSubject req) > 998 then Inl (SendInvalid ''subject is too long'')
         else if \<not> ValidString (rSubject req) \<or> \<not> ValidString (rHTML req) \<or> \<not> ValidString (rText req)
         then Inl (SendInvalid ''email content must be valid UTF-8'')
         else if rHTML req = [] \<and> rText req = [] then Inl (SendInvalid ''html or text body is required'')
         else if rFrom req = [] then Inl (SendInvalid ''from address is required'')
         else if \<not> IsValidEmail (rFrom req) then Inl (SendInvalid ''invalid from address'')
         else if \<not> seDomainRepo env then Inl (SendInvalid ''sender domain authorization is not configured'')
         else case from_domain env team (rFrom req) s of
                None \<Rightarrow> Inl (SendInvalid ''from domain is not verified for this team'')
              | Some d \<Rightarrow>
                  if category = EmailCategoryMarketing then
                    (if recipient_count req \<noteq> 1
                     then Inl (SendInvalid ''marketing emails must have exactly one recipient'')
                     else if \<not> seUnsubscribe env
                     then Inl (SendInvalid ''marketing unsubscribe is not configured'')
                     else if dmDMARCStatus d \<noteq> ''verified''
                     then Inl (SendInvalid ''marketing emails require a verified DMARC policy'')
                     else Inr req)
                  else Inr req))"

datatype idem_answer = IdemFresh | IdemReplay EmailResponse

definition compare_hash :: "Email \<Rightarrow> string \<Rightarrow> send_error_kind + idem_answer" where
  "compare_hash e h =
     (if eIdempotencyHash e \<noteq> Some h then Inl ErrIdempotencyConflict
      else Inr (IdemReplay \<lparr>respID = eID e, respIdempotent = True\<rparr>))"

definition check_idempotency ::
  "send_env \<Rightarrow> uuid \<Rightarrow> SendEmailRequest \<Rightarrow> string \<Rightarrow> service \<Rightarrow> send_error_kind + idem_answer" where
  "check_idempotency env team req key s =
     (if key = [] then Inr IdemFresh
      else if length key > 255 \<or> ContainsAny key CRLF then Inl (SendInvalid ''invalid idempotency key'')
      else case snd (run_call (seFault env SeIdempotency) (\<lambda>d. (d, GetByIdempotencyKey team key d)) (sdb s)) of
             Inr e \<Rightarrow> compare_hash e (seHash env req)
           | Inl ErrNoRows \<Rightarrow> Inr IdemFresh
           | Inl _ \<Rightarrow> Inl ErrIdempotencyLookup)"

definition normalizeRecipients :: "SendEmailRequest \<Rightarrow> SendEmailRequest \<times> string list" where
  "normalizeRecipients req =
     (let req' = req\<lparr>rTo := map NormalizeEmail (rTo req), rCC := map NormalizeEmail (rCC req),
                     rBCC := map NormalizeEmail (rBCC req)\<rparr>
      in (req', rTo req' @ rCC req' @ rBCC req'))"

definition total_size :: "SendEmailRequest \<Rightarrow> nat" where
  "total_size req = length (rHTML req) + length (rText req) +
     sum_list (map (\<lambda>a. length (attContent a)) (rAttachments req))"

text \<open>The second block; the first failing check decides, as in the source.\<close>

definition validate_tail :: "SendEmailRequest \<Rightarrow> send_error_kind option" where
  "validate_tail req =
     (if \<not> list_all IsValidEmail (rReplyTo req) then Some (SendInvalid ''invalid reply-to address'')
      else if \<not> list_all attachment_ok (rAttachments req) then Some (SendInvalid ''invalid attachment filename'')
      else if length (rHeaders req) > 50 then Some (SendInvalid ''maximum 50 custom headers allowed'')
      else if length (rAttachments req) > 10 then Some (SendInvalid ''maximum 10 attachments allowed'')
      else if length (rTags req) > 50 then Some (SendInvalid ''maximum 50 tags allowed'')
      else if length (rMetadata req) > 50 then Some (SendInvalid ''maximum 50 metadata fields allowed'')
      else if \<not> list_all tag_ok (rTags req) then Some (SendInvalid ''invalid email tag'')
      else if \<not> list_all metadata_ok (rMetadata req) then Some (SendInvalid ''invalid email metadata'')
      else if \<not> list_all header_ok (rHeaders req) then Some (SendInvalid ''invalid custom header'')
      else if list_ex header_reserved (rHeaders req) then Some (SendInvalid ''reserved custom header'')
      else None)"

definition policy_error :: "policy \<Rightarrow> send_error_kind option" where
  "policy_error p = (case p of
     PolicyOk \<Rightarrow> None
   | PolicySuppressed _ _ \<Rightarrow> Some ErrRecipientSuppressed
   | PolicyUnsubscribed _ \<Rightarrow> Some ErrRecipientUnsubscribed
   | PolicyUnavailable \<Rightarrow> Some ErrPolicyUnavailable)"

definition set_header :: "string \<Rightarrow> string \<Rightarrow> string_map \<Rightarrow> string_map" where
  "set_header k v m = (k, v) # filter (\<lambda>p. fst p \<noteq> k) m"

definition marketing_headers ::
  "send_env \<Rightarrow> uuid \<Rightarrow> SendEmailRequest \<Rightarrow> send_error_kind + string_map" where
  "marketing_headers env team req =
     (if rCategory req = EmailCategoryMarketing then
        (case seLanding env team (hd (rTo req)) of
           None \<Rightarrow> Inl ErrUnsubscribeLink
         | Some url \<Rightarrow> Inr (set_header ''List-Unsubscribe-Post'' ''List-Unsubscribe=One-Click''
             (set_header ''List-Unsubscribe'' (''<'' @ url @ ''>'') (rHeaders req))))
      else Inr (rHeaders req))"

section \<open>Quota\<close>

definition recipientLimit :: "send_env \<Rightarrow> uuid \<Rightarrow> service \<Rightarrow> int option" where
  "recipientLimit env team s =
     (if \<not> seTeamRepo env then Some (seDailyLimit env)
      else case (if seFault env SeTeam = NoFault then splan s team else None) of
             None \<Rightarrow> None
           | Some (plan0, billing) \<Rightarrow>
               (let plan = (if plan0 \<noteq> PlanFree \<and> billing \<noteq> ''active'' \<and> billing \<noteq> ''trialing''
                            then PlanFree else plan0) in
                case sePlanLimits env plan of
                  Some l \<Rightarrow> if l > 0 then Some l else Some (seDailyLimit env)
                | None \<Rightarrow> Some (seDailyLimit env)))"

text \<open>The answer tells whether units were reserved.\<close>

definition reserve_quota :: "send_env \<Rightarrow> uuid \<Rightarrow> int \<Rightarrow> service \<Rightarrow> service \<times> (send_error_kind + bool)" where
  "reserve_quota env team units s =
     (if \<not> seUsageLimiter env then (s, Inr False)
      else case recipientLimit env team s of
             None \<Rightarrow> (s, Inl ErrUsageUnavailable)
           | Some limit \<Rightarrow>
               if limit > 0 then
                 (case run_call (seFault env SeReserve)
                         (\<lambda>u. case Reserve team units limit (unix (seReserveNow env)) u of (u', ok) \<Rightarrow> (u', Inr ok))
                         (susage s) of
                    (u', Inl _) \<Rightarrow> (s\<lparr>susage := u'\<rparr>, Inl ErrUsageUnavailable)
                  | (u', Inr False) \<Rightarrow> (s\<lparr>susage := u'\<rparr>, Inl ErrDailyRecipientLimit)
                  | (u', Inr True) \<Rightarrow> (s\<lparr>susage := u'\<rparr>, Inr True))
               else (s, Inr False))"

text \<open>The service reads the clock before it reserves and releases the day of that reading; the limiter reads its own clock when it
  reserves, and Redis its own when it releases.\<close>

definition release_quota :: "send_env \<Rightarrow> uuid \<Rightarrow> int \<Rightarrow> bool \<Rightarrow> service \<Rightarrow> service" where
  "release_quota env team units reserved s =
     (if reserved then
        s\<lparr>susage := fst (run_call (seFault env SeRelease)
           (\<lambda>u. (Release team units (unix (seReservationAt env)) (unix (seReleaseNow env)) u, Inr ())) (susage s))\<rparr>
      else s)"

section \<open>Saving and enqueueing\<close>

definition new_email :: "send_env \<Rightarrow> uuid \<Rightarrow> SendEmailRequest \<Rightarrow> string_map \<Rightarrow> string \<Rightarrow> string \<Rightarrow> Email" where
  "new_email env team req headers key hash =
     (blank_email (seID env) team)\<lparr>
       eFrom := rFrom req, eTo := rTo req, eCC := rCC req, eBCC := rBCC req, eSubject := rSubject req,
       eCategory := rCategory req, eHTML := rHTML req, eText := rText req, eReplyTo := rReplyTo req,
       eAttachments := rAttachments req, eStatus := EmailStatusQueued, eTags := rTags req,
       eMetadata := rMetadata req, eHeaders := headers,
       eIdempotencyKey := (if key = [] then None else Some key),
       eIdempotencyHash := (if key = [] then None else Some hash),
       eScheduledAt := rScheduledAt req\<rparr>"

definition enqueue_email :: "send_env \<Rightarrow> Email \<Rightarrow> service \<Rightarrow> service \<times> unit result" where
  "enqueue_email env e s =
     (case run_call (seFault env SeQueue)
             (\<lambda>q. (case eScheduledAt e of
                     Some at \<Rightarrow> if at > seNow env then Schedule (seIDText env (eID e)) (unix at) q
                               else Enqueue (seIDText env (eID e)) q
                   | None \<Rightarrow> Enqueue (seIDText env (eID e)) q, Inr ())) (squeue s) of
        (q, r) \<Rightarrow> (s\<lparr>squeue := q\<rparr>, r))"

definition db_step :: "send_env \<Rightarrow> send_site \<Rightarrow> (db \<Rightarrow> db \<times> 'a result) \<Rightarrow> service \<Rightarrow> service \<times> 'a result" where
  "db_step env st f s = (case run_call (seFault env st) f (sdb s) of (d, r) \<Rightarrow> (s\<lparr>sdb := d\<rparr>, r))"

definition log_event :: "send_env \<Rightarrow> uuid \<Rightarrow> string \<Rightarrow> string \<Rightarrow> service \<Rightarrow> service" where
  "log_event env i name data s =
     fst (db_step env SeEvent (AddEvent \<lparr>evID = seEventID env, evEmailID = i, evEvent = name, evData = data\<rparr>) s)"

definition queue_unavailable :: string where
  "queue_unavailable = ''{\"reason\":\"queue_unavailable\"}''"

definition commit_send ::
  "send_env \<Rightarrow> uuid \<Rightarrow> SendEmailRequest \<Rightarrow> string_map \<Rightarrow> string \<Rightarrow> string \<Rightarrow> bool \<Rightarrow> service \<Rightarrow>
   service \<times> (send_error_kind + EmailResponse \<times> bool)" where
  "commit_send env team req headers key hash reserved s =
     (let units = int (recipient_count req);
          release = release_quota env team units reserved;
          e = new_email env team req headers key hash
      in case db_step env SeCreate (EmailRepo_Create (seNow env) e) s of
           (s1, Inl _) \<Rightarrow>
             (case (if key = [] then Inl ErrNoRows
                    else snd (run_call (seFault env SeIdempotency2) (\<lambda>d. (d, GetByIdempotencyKey team key d)) (sdb s1))) of
                Inr existing \<Rightarrow>
                  (release s1,
                   case compare_hash existing hash of
                     Inl er \<Rightarrow> Inl er
                   | Inr (IdemReplay r) \<Rightarrow> Inr (r, False)
                   | Inr IdemFresh \<Rightarrow> Inl ErrSaveFailed)
              | Inl _ \<Rightarrow> (release s1, Inl ErrSaveFailed))
         | (s1, Inr _) \<Rightarrow>
             (case enqueue_email env e s1 of
                (s2, Inl _) \<Rightarrow>
                  (release (log_event env (eID e) ''email.failed'' queue_unavailable
                     (fst (db_step env SeStatus (UpdateStatus (seNow env) (eID e) EmailStatusFailed) s2))),
                   Inl ErrQueueUnavailable)
              | (s2, Inr _) \<Rightarrow> (s2, Inr (\<lparr>respID = eID e, respIdempotent = False\<rparr>, True))))"

definition send ::
  "send_env \<Rightarrow> uuid \<Rightarrow> SendEmailRequest option \<Rightarrow> string \<Rightarrow> service \<Rightarrow>
   service \<times> (send_error_kind + EmailResponse \<times> bool)" where
  "send env team request key s =
     (case request of
        None \<Rightarrow> (s, Inl (SendInvalid ''email request is required''))
      | Some req0 \<Rightarrow>
          (case validate_head env team req0 s of
             Inl er \<Rightarrow> (s, Inl er)
           | Inr req1 \<Rightarrow>
               (case check_idempotency env team req1 key s of
                  Inl er \<Rightarrow> (s, Inl er)
                | Inr (IdemReplay r) \<Rightarrow> (s, Inr (r, False))
                | Inr IdemFresh \<Rightarrow>
                    (case normalizeRecipients req1 of (req, recipients) \<Rightarrow>
                       if \<not> list_all IsValidEmail recipients then (s, Inl (SendInvalid ''invalid recipient address''))
                       else
                         (case policy_error (checkRecipientSuppression (seSuppressionRepo env) (seContactRepo env)
                                 (seFault env SeSuppressions) (seFault env SeContacts) team recipients (sdb s)) of
                            Some er \<Rightarrow> (s, Inl er)
                          | None \<Rightarrow>
                              (case validate_tail req of
                                 Some er \<Rightarrow> (s, Inl er)
                               | None \<Rightarrow>
                                   (case marketing_headers env team req of
                                      Inl er \<Rightarrow> (s, Inl er)
                                    | Inr headers \<Rightarrow>
                                        if total_size req > 7 * 1024 * 1024
                                        then (s, Inl (SendInvalid ''email payload is too large''))
                                        else
                                          (case reserve_quota env team (int (recipient_count req)) s of
                                             (s1, Inl er) \<Rightarrow> (s1, Inl er)
                                           | (s1, Inr reserved) \<Rightarrow>
                                               commit_send env team req headers key (seHash env req1)
                                                 reserved s1))))))))"

definition SendWithIdempotency ::
  "send_env \<Rightarrow> uuid \<Rightarrow> SendEmailRequest option \<Rightarrow> string \<Rightarrow> service \<Rightarrow>
   service \<times> (send_error_kind + EmailResponse \<times> bool)" where
  "SendWithIdempotency env team req key s = send env team req (TrimSpace key) s"

section \<open>How a send ends\<close>

lemma send_None [simp]: "send env team None key s = (s, Inl (SendInvalid ''email request is required''))"
  by (simp add: send_def)

definition early_error :: "send_error_kind \<Rightarrow> bool" where
  "early_error er \<longleftrightarrow> er \<notin> {ErrUsageUnavailable, ErrDailyRecipientLimit, ErrSaveFailed, ErrQueueUnavailable}"

lemma validate_head_early: "validate_head env team req s = Inl er \<Longrightarrow> early_error er"
  by (auto simp: validate_head_def Let_def early_error_def split: if_splits option.splits)

lemma check_idempotency_early: "check_idempotency env team req key s = Inl er \<Longrightarrow> early_error er"
  by (auto simp: check_idempotency_def compare_hash_def early_error_def
      split: if_splits sum.splits db_error.splits)

lemma validate_tail_early: "validate_tail req = Some er \<Longrightarrow> early_error er"
  by (auto simp: validate_tail_def early_error_def split: if_splits)

lemma policy_error_early: "policy_error p = Some er \<Longrightarrow> early_error er"
  by (auto simp: policy_error_def early_error_def split: policy.splits)

lemma marketing_headers_early: "marketing_headers env team req = Inl er \<Longrightarrow> early_error er"
  by (auto simp: marketing_headers_def early_error_def split: if_splits option.splits)

lemma reserve_quota_error:
  "reserve_quota env team n s = (s1, Inl er) \<Longrightarrow> er \<in> {ErrUsageUnavailable, ErrDailyRecipientLimit}"
  by (auto simp: reserve_quota_def split: if_splits option.splits prod.splits sum.splits bool.splits)

text \<open>What has been checked when a request reaches the quota.\<close>

definition admitted ::
  "send_env \<Rightarrow> uuid \<Rightarrow> SendEmailRequest \<Rightarrow> string \<Rightarrow> service \<Rightarrow> SendEmailRequest \<Rightarrow> SendEmailRequest \<Rightarrow> string_map \<Rightarrow> bool" where
  "admitted env team req0 key s req1 req headers \<longleftrightarrow>
     validate_head env team req0 s = Inr req1 \<and>
     check_idempotency env team req1 key s = Inr IdemFresh \<and>
     req = fst (normalizeRecipients req1) \<and>
     list_all IsValidEmail (snd (normalizeRecipients req1)) \<and>
     policy_error (checkRecipientSuppression (seSuppressionRepo env) (seContactRepo env)
       (seFault env SeSuppressions) (seFault env SeContacts) team (snd (normalizeRecipients req1)) (sdb s)) = None \<and>
     validate_tail req = None \<and> marketing_headers env team req = Inr headers \<and>
     total_size req \<le> 7 * 1024 * 1024"

lemma send_cases:
  assumes "send env team (Some req0) key s = (s', x)"
  obtains (early) er where "s' = s" "x = Inl er" "early_error er"
  | (replay) r req1 where "s' = s" "x = Inr (r, False)" "validate_head env team req0 s = Inr req1"
      "check_idempotency env team req1 key s = Inr (IdemReplay r)"
  | (quota) er req1 req headers where "admitted env team req0 key s req1 req headers"
      "reserve_quota env team (int (recipient_count req)) s = (s', Inl er)" "x = Inl er"
  | (commit) req1 req headers reserved s1 where "admitted env team req0 key s req1 req headers"
      "reserve_quota env team (int (recipient_count req)) s = (s1, Inr reserved)"
      "commit_send env team req headers key (seHash env req1) reserved s1 = (s', x)"
proof (cases "validate_head env team req0 s")
  case (Inl er)
  with assms that(1) validate_head_early show ?thesis by (auto simp: send_def)
next
  case (Inr req1)
  note h = this
  obtain req recipients where n: "normalizeRecipients req1 = (req, recipients)" by (cases "normalizeRecipients req1")
  let ?p = "checkRecipientSuppression (seSuppressionRepo env) (seContactRepo env)
       (seFault env SeSuppressions) (seFault env SeContacts) team recipients (sdb s)"
  show ?thesis
  proof (cases "check_idempotency env team req1 key s")
    case (Inl er)
    with h assms that(1) check_idempotency_early show ?thesis by (auto simp: send_def)
  next
    case idem: (Inr a)
    show ?thesis
    proof (cases a)
      case (IdemReplay r)
      with h idem assms that(2) show ?thesis by (auto simp: send_def)
    next
      case IdemFresh
      show ?thesis
      proof (cases "list_all IsValidEmail recipients \<and> policy_error ?p = None \<and> validate_tail req = None \<and>
          total_size req \<le> 7 * 1024 * 1024 \<and> (\<exists>headers. marketing_headers env team req = Inr headers)")
        case False
        have "s' = s \<and> (\<exists>er. x = Inl er \<and> early_error er)"
          using False assms h idem IdemFresh n
          by (auto simp: send_def early_error_def split: if_splits option.splits sum.splits
              dest: validate_tail_early policy_error_early marketing_headers_early)
        then show ?thesis using that(1) by blast
      next
        case True
        then obtain headers where hd: "marketing_headers env team req = Inr headers" by blast
        with True h idem IdemFresh n have adm: "admitted env team req0 key s req1 req headers"
          by (simp add: admitted_def)
        obtain s1 y where q: "reserve_quota env team (int (recipient_count req)) s = (s1, y)"
          by (cases "reserve_quota env team (int (recipient_count req)) s")
        show ?thesis
        proof (cases y)
          case (Inl er)
          with True hd h idem IdemFresh n q assms have "s' = s1" "x = Inl er" by (simp_all add: send_def)
          with that(3) [OF adm] q Inl show ?thesis by blast
        next
          case (Inr reserved)
          with True hd h idem IdemFresh n q assms
          have "commit_send env team req headers key (seHash env req1) reserved s1 = (s', x)"
            by (simp add: send_def)
          with that(4) [OF adm] q Inr show ?thesis by blast
        qed
      qed
    qed
  qed
qed

lemma commit_send_error:
  "commit_send env team req headers key h reserved s = (s', Inl er) \<Longrightarrow>
   er \<in> {ErrIdempotencyConflict, ErrSaveFailed, ErrQueueUnavailable}"
  by (auto simp: commit_send_def Let_def compare_hash_def
      split: prod.splits sum.splits idem_answer.splits if_splits)

lemma reserve_quota_frame:
  "reserve_quota env team n s = (s1, y) \<Longrightarrow>
   sdb s1 = sdb s \<and> squeue s1 = squeue s \<and> sdomains s1 = sdomains s \<and> splan s1 = splan s"
  by (auto simp: reserve_quota_def split: if_splits option.splits prod.splits sum.splits bool.splits)

lemma db_step_frame:
  "db_step env st f s = (s1, y) \<Longrightarrow>
   squeue s1 = squeue s \<and> susage s1 = susage s \<and> sdomains s1 = sdomains s \<and> splan s1 = splan s"
  by (auto simp: db_step_def split: prod.splits)

lemma db_step_Inr: "db_step env st f s = (s1, Inr a) \<Longrightarrow> f (sdb s) = (sdb s1, Inr a)"
  by (auto simp: db_step_def split: prod.splits dest: run_call_InrD)

lemma enqueue_email_frame:
  "enqueue_email env e s = (s1, y) \<Longrightarrow>
   sdb s1 = sdb s \<and> susage s1 = susage s \<and> sdomains s1 = sdomains s \<and> splan s1 = splan s"
  by (auto simp: enqueue_email_def split: prod.splits)

lemma enqueue_email_Inr:
  "enqueue_email env e s = (s1, Inr u) \<Longrightarrow> seIDText env (eID e) \<in> jobs (squeue s1)"
  by (auto simp: enqueue_email_def jobs_def Enqueue_def Schedule_def
      split: prod.splits option.splits if_splits dest!: run_call_InrD)

lemma create_appends:
  "EmailRepo_Create now e d = (d1, Inr u) \<Longrightarrow>
   d1 = d\<lparr>emails := emails d @ [new_row now e]\<rparr> \<and> \<not> insert_conflict e (emails d)"
  by (auto simp: EmailRepo_Create_def split: if_splits)

lemma commit_send_new:
  assumes "commit_send env team req headers key h reserved s = (s', Inr (r, True))"
  shows "respID r = seID env \<and> \<not> respIdempotent r \<and> susage s' = susage s \<and> sdomains s' = sdomains s \<and>
    sdb s' = (sdb s)\<lparr>emails := emails (sdb s) @ [new_row (seNow env) (new_email env team req headers key h)]\<rparr> \<and>
    \<not> insert_conflict (new_email env team req headers key h) (emails (sdb s)) \<and>
    seIDText env (seID env) \<in> jobs (squeue s') \<and> splan s' = splan s"
proof -
  let ?e = "new_email env team req headers key h"
  have id: "eID ?e = seID env" by (simp add: new_email_def blank_email_def)
  obtain s1 a where c: "db_step env SeCreate (EmailRepo_Create (seNow env) ?e) s = (s1, a)"
    by (cases "db_step env SeCreate (EmailRepo_Create (seNow env) ?e) s")
  obtain s2 b where q: "enqueue_email env ?e s1 = (s2, b)" by (cases "enqueue_email env ?e s1")
  have "\<exists>u v. a = Inr u \<and> b = Inr v \<and> s' = s2 \<and> r = \<lparr>respID = eID ?e, respIdempotent = False\<rparr>"
    using assms c q
    by (auto simp: commit_send_def Let_def compare_hash_def split: sum.splits idem_answer.splits if_splits)
  then obtain u v where ab: "a = Inr u" "b = Inr v" "s' = s2" "r = \<lparr>respID = eID ?e, respIdempotent = False\<rparr>" by blast
  have c': "EmailRepo_Create (seNow env) ?e (sdb s) = (sdb s1, Inr u)"
    using c ab(1) by (auto intro: db_step_Inr)
  show ?thesis
    using create_appends [OF c'] enqueue_email_Inr [of env ?e s1 s2 v] enqueue_email_frame [OF q]
      db_step_frame [OF c] ab q id by auto
qed

text \<open>What a new message does to the queue: it is scheduled for its date when that lies ahead and pending otherwise.\<close>

definition queued_for :: "string \<Rightarrow> instant option \<Rightarrow> instant \<Rightarrow> redis \<Rightarrow> redis" where
  "queued_for item due now q = (case due of
     Some t \<Rightarrow> if t > now then Schedule item (unix t) q else Enqueue item q
   | None \<Rightarrow> Enqueue item q)"

lemma commit_queued_for:
  assumes "commit_send env team req headers key h reserved s = (s', Inr (r, True))"
  shows "squeue s' = queued_for (seIDText env (seID env)) (rScheduledAt req) (seNow env) (squeue s)"
proof -
  let ?e = "new_email env team req headers key h"
  obtain s1 a where c: "db_step env SeCreate (EmailRepo_Create (seNow env) ?e) s = (s1, a)"
    by (cases "db_step env SeCreate (EmailRepo_Create (seNow env) ?e) s")
  obtain s2 b where q: "enqueue_email env ?e s1 = (s2, b)" by (cases "enqueue_email env ?e s1")
  have "\<exists>v. b = Inr v \<and> s' = s2"
    using assms c q
    by (auto simp: commit_send_def Let_def compare_hash_def split: sum.splits idem_answer.splits if_splits)
  moreover have "squeue s1 = squeue s" using db_step_frame [OF c] by simp
  moreover have "eID ?e = seID env" "eScheduledAt ?e = rScheduledAt req" by (simp_all add: new_email_def blank_email_def)
  ultimately show ?thesis
    using q by (cases "rScheduledAt req") (auto simp: enqueue_email_def queued_for_def split: prod.splits dest!: run_call_InrD)
qed

text \<open>What an accepted message is made of, field by field: what the request says, the addresses normalised, the empty category
  read as transactional, and the two headers for unsubscribing added to a marketing message.\<close>

definition carries :: "Email \<Rightarrow> SendEmailRequest \<Rightarrow> bool" where
  "carries e req \<longleftrightarrow>
     eFrom e = NormalizeEmail (rFrom req) \<and> eTo e = map NormalizeEmail (rTo req) \<and>
     eCC e = map NormalizeEmail (rCC req) \<and> eBCC e = map NormalizeEmail (rBCC req) \<and>
     eSubject e = rSubject req \<and> eHTML e = rHTML req \<and> eText e = rText req \<and> eReplyTo e = rReplyTo req \<and>
     eAttachments e = rAttachments req \<and> eTags e = rTags req \<and> eMetadata e = rMetadata req \<and>
     eScheduledAt e = rScheduledAt req \<and>
     eCategory e = (if rCategory req = [] then ''transactional'' else rCategory req)"

definition carries_headers :: "(uuid \<Rightarrow> string \<Rightarrow> string option) \<Rightarrow> Email \<Rightarrow> SendEmailRequest \<Rightarrow> bool" where
  "carries_headers landing e req \<longleftrightarrow>
     (if eCategory e = ''marketing''
      then \<exists>url. landing (eTeamID e) (hd (eTo e)) = Some url \<and>
        map_of (eHeaders e) = (map_of (rHeaders req))(''List-Unsubscribe'' \<mapsto> ''<'' @ url @ ''>'',
           ''List-Unsubscribe-Post'' \<mapsto> ''List-Unsubscribe=One-Click'')
      else eHeaders e = rHeaders req)"

lemma map_of_set_header: "map_of (set_header k v m) = (map_of m)(k \<mapsto> v)"
proof -
  have "map_of (filter (\<lambda>p. fst p \<noteq> k) m) j = map_of m j" if "j \<noteq> k" for j using that by (induction m) auto
  then show ?thesis by (auto simp: set_header_def)
qed

lemma admitted_carries:
  assumes "admitted env team req0 key s req1 req headers"
  shows "carries (new_row now (new_email env team req headers key h)) req0 \<and>
    carries_headers (seLanding env) (new_row now (new_email env team req headers key h)) req0"
proof -
  let ?e = "new_row now (new_email env team req headers key h)"
  have h: "req1 = req0\<lparr>rCategory := (if rCategory req0 = [] then EmailCategoryTransactional else rCategory req0),
      rFrom := NormalizeEmail (rFrom req0)\<rparr>"
    using assms by (auto simp: admitted_def validate_head_def Let_def split: if_splits option.splits)
  have n: "req = req1\<lparr>rTo := map NormalizeEmail (rTo req1), rCC := map NormalizeEmail (rCC req1), rBCC := map NormalizeEmail (rBCC req1)\<rparr>"
    using assms by (auto simp: admitted_def normalizeRecipients_def Let_def)
  have m: "marketing_headers env team req = Inr headers" using assms by (auto simp: admitted_def)
  have "carries ?e req0" by (simp add: carries_def n h new_row_def new_email_def blank_email_def EmailCategoryTransactional_def)
  moreover have "carries_headers (seLanding env) ?e req0"
    using m by (auto simp: carries_headers_def marketing_headers_def n h new_row_def new_email_def blank_email_def
        map_of_set_header EmailCategoryMarketing_def EmailCategoryTransactional_def fun_upd_twist split: if_splits option.splits)
  ultimately show ?thesis by blast
qed

lemma admitted_domain:
  assumes "admitted env team req0 key s req1 req headers"
  shows "\<exists>d. GetByName team (EmailDomain parse_plain (NormalizeEmail (rFrom req0))) s = Some d \<and> dmStatus d = DomainStatusVerified"
  using assms by (auto simp: admitted_def validate_head_def from_domain_def Let_def split: if_splits option.splits fault.splits)

lemma admitted_facts:
  assumes "admitted env team req0 key s req1 req headers"
  shows "0 < recipient_count req \<and> recipient_count req \<le> 50 \<and>
    list_all IsValidEmail (rTo req @ rCC req @ rBCC req) \<and>
    (seSuppressionRepo env \<longrightarrow> GetByEmails team (rTo req @ rCC req @ rBCC req) (sdb s) = []) \<and>
    (\<exists>d \<in> set (sdomains s). dmTeamID d = team \<and> dmStatus d = DomainStatusVerified)"
proof -
  from assms have h: "validate_head env team req0 s = Inr req1" and n: "req = fst (normalizeRecipients req1)"
    and v: "list_all IsValidEmail (snd (normalizeRecipients req1))"
    and p: "policy_error (checkRecipientSuppression (seSuppressionRepo env) (seContactRepo env)
       (seFault env SeSuppressions) (seFault env SeContacts) team (snd (normalizeRecipients req1)) (sdb s)) = None"
    by (auto simp: admitted_def)
  have rec: "snd (normalizeRecipients req1) = rTo req @ rCC req @ rBCC req"
    "recipient_count req = recipient_count req1"
    using n by (auto simp: normalizeRecipients_def Let_def recipient_count_def)
  have req1: "rTo req1 \<noteq> []" "recipient_count req1 \<le> 50" "from_domain env team (rFrom req1) s \<noteq> None"
    using h by (auto simp: validate_head_def Let_def recipient_count_def split: if_splits option.splits)
  have "\<exists>d \<in> set (sdomains s). dmTeamID d = team \<and> dmStatus d = DomainStatusVerified"
    using req1(3)
    by (auto simp: from_domain_def GetByName_def find_Some_iff split: fault.splits option.splits if_splits)
  moreover have "GetByEmails team (rTo req @ rCC req @ rBCC req) (sdb s) = []" if "seSuppressionRepo env"
    using p that unfolding rec
    by (cases "seFault env SeSuppressions")
      (auto simp: policy_error_def checkRecipientSuppression_def split: list.splits policy.splits)
  ultimately show ?thesis
    using v req1(1,2) unfolding rec by (auto simp: recipient_count_def)
qed

text \<open>A request the validation refuses changes nothing: no row, no queue item, no quota.\<close>

theorem refused_send_changes_nothing:
  assumes "send env team request key s = (s', Inl er)"
    and "er \<notin> {ErrIdempotencyConflict, ErrUsageUnavailable, ErrDailyRecipientLimit, ErrSaveFailed, ErrQueueUnavailable}"
  shows "s' = s"
proof (cases request)
  case (Some req0)
  from assms(1) [unfolded Some] show ?thesis
  proof (cases rule: send_cases)
    case (quota er' req1 req headers)
    with reserve_quota_error [OF quota(2)] assms(2) show ?thesis by auto
  next
    case (commit req1 req headers reserved s1)
    with commit_send_error [OF commit(3)] assms(2) show ?thesis by auto
  qed auto
qed (use assms(1) in \<open>simp add: send_def\<close>)

text \<open>C9: What an accepted send means. Exactly one row was added to the database and nothing else changed there: under the returned id,
  which no row had, for the caller's team, queued and without any attempt. The row carries the content of the request: sender and
  recipients normalised, subject, bodies, reply addresses, attachments, tags, metadata, date and category as requested, and the requested
  headers, to which only the unsubscribe headers of a marketing message are added. The queue was changed by exactly one command, which
  puts the id on the pending list or, when the requested date lies ahead, on the schedule. There are between one and fifty valid
  recipients, none of them suppressed, and the domain of the sender is a verified domain of the team.\<close>

theorem accepted_send_is_queued:
  assumes "send env team (Some req) key s = (s', Inr (r, True))"
  shows "\<exists>e. sdb s' = (sdb s)\<lparr>emails := emails (sdb s) @ [e]\<rparr> \<and> eID e = respID r \<and> eTeamID e = team \<and>
      eStatus e = EmailStatusQueued \<and> attempt_ok e \<and> email_at (sdb s) (respID r) = None \<and>
      carries e req \<and> carries_headers (seLanding env) e req \<and>
      squeue s' = queued_for (seIDText env (respID r)) (rScheduledAt req) (seNow env) (squeue s) \<and>
      0 < length (eTo e @ eCC e @ eBCC e) \<and> length (eTo e @ eCC e @ eBCC e) \<le> 50 \<and>
      list_all IsValidEmail (eTo e @ eCC e @ eBCC e) \<and>
      (seSuppressionRepo env \<longrightarrow> GetByEmails team (eTo e @ eCC e @ eBCC e) (sdb s) = []) \<and>
      (\<exists>d. GetByName team (EmailDomain parse_plain (eFrom e)) s = Some d \<and> dmStatus d = DomainStatusVerified)"
  using assms
proof (cases rule: send_cases)
  case (commit req1 req2 headers reserved s1)
  let ?e = "new_row (seNow env) (new_email env team req2 headers key (seHash env req1))"
  have s1: "sdb s1 = sdb s" "squeue s1 = squeue s" using reserve_quota_frame [OF commit(2)] by simp_all
  have f: "eID ?e = seID env" "eTeamID ?e = team" "eStatus ?e = EmailStatusQueued"
    "eTo ?e = rTo req2" "eCC ?e = rCC req2" "eBCC ?e = rBCC req2" "eScheduledAt ?e = rScheduledAt req2"
    by (simp_all add: new_row_def new_email_def blank_email_def)
  have c: "carries ?e req" "carries_headers (seLanding env) ?e req" using admitted_carries [OF commit(1)] by simp_all
  then have g: "eFrom ?e = NormalizeEmail (rFrom req)" "rScheduledAt req2 = rScheduledAt req"
    using f(7) unfolding carries_def by simp_all
  have new: "attempt_ok ?e" "email_at (sdb s) (seID env) = None"
    using attempt_ok_new commit_send_new [OF commit(3)] s1(1)
    by (auto simp: insert_conflict_def email_at_def by_key_None_iff new_email_def blank_email_def)
  show ?thesis
    using commit_send_new [OF commit(3)] commit_queued_for [OF commit(3)] admitted_facts [OF commit(1)] admitted_domain [OF commit(1)]
      f g c new s1
    by (intro exI [of _ ?e]) (simp add: recipient_count_def)
qed simp_all

section \<open>Retrying with the same key\<close>

text \<open>A later call of the same deployment: other clock and identifiers, no failing lookup.\<close>

definition later_env :: "send_env \<Rightarrow> instant \<Rightarrow> uuid \<Rightarrow> send_env" where
  "later_env env t i = env\<lparr>seFault := (\<lambda>_. NoFault), seNow := t, seID := i\<rparr>"

lemma validate_head_later:
  assumes "validate_head env team req s = Inr req1" and "sdomains s' = sdomains s"
  shows "validate_head (later_env env t i) team req s' = Inr req1"
proof -
  have "from_domain env team (NormalizeEmail (rFrom req)) s \<noteq> None"
    using assms(1) by (auto simp: validate_head_def Let_def split: if_splits option.splits)
  then have "seFault env SeDomain = NoFault" by (auto simp: from_domain_def split: fault.splits)
  then have dom: "from_domain (later_env env t i) team f s' = from_domain env team f s" for f
    using assms(2) by (simp add: from_domain_def GetByName_def later_env_def)
  have conf: "seDomainRepo (later_env env t i) = seDomainRepo env" "seUnsubscribe (later_env env t i) = seUnsubscribe env"
    by (simp_all add: later_env_def)
  show ?thesis using assms(1) unfolding validate_head_def dom conf .
qed

lemma find_append: "find P (xs @ ys) = (case find P xs of None \<Rightarrow> find P ys | Some x \<Rightarrow> Some x)"
  by (induction xs) auto

text \<open>The row of a key is found when no other row has its id or its key.\<close>

lemma lookup_key:
  assumes "\<not> insert_conflict e rows" and "eIdempotencyKey e = Some key"
    and "emails d = rows @ [x]" and "eID x = eID e" and "eTeamID x = eTeamID e" and "eIdempotencyKey x = Some key"
  shows "GetByIdempotencyKey (eTeamID e) key d = Inr x"
proof -
  have "find (\<lambda>y. eTeamID y = eTeamID e \<and> eIdempotencyKey y = Some key) rows = None"
    "find (\<lambda>y. eID y = eID e \<and> eTeamID y = eTeamID e) rows = None"
    using assms(1,2) by (auto simp: insert_conflict_def find_None_iff)
  then show ?thesis
    using assms(3-) by (simp add: GetByIdempotencyKey_def GetByIDForTeam_def find_append)
qed

lemma replay_answer:
  assumes "validate_head env team req0 s = Inr req1" and "sdomains s' = sdomains s"
    and "key \<noteq> []" and "length key \<le> 255" and "\<not> ContainsAny key CRLF"
    and "GetByIdempotencyKey team key (sdb s') = Inr e" and "eIdempotencyHash e = Some (seHash env req1)"
  shows "send (later_env env t i) team (Some req0) key s' =
    (s', Inr (\<lparr>respID = eID e, respIdempotent = True\<rparr>, False))"
proof -
  have "check_idempotency (later_env env t i) team req1 key s' =
      Inr (IdemReplay \<lparr>respID = eID e, respIdempotent = True\<rparr>)"
    using assms(3-) by (simp add: check_idempotency_def compare_hash_def later_env_def)
  with validate_head_later [OF assms(1,2)] show ?thesis by (simp add: send_def)
qed

lemma conflict_answer:
  assumes "validate_head (later_env env t i) team req2 s' = Inr req3"
    and "key \<noteq> []" and "length key \<le> 255" and "\<not> ContainsAny key CRLF"
    and "GetByIdempotencyKey team key (sdb s') = Inr e" and "eIdempotencyHash e \<noteq> Some (seHash env req3)"
  shows "send (later_env env t i) team (Some req2) key s' = (s', Inl ErrIdempotencyConflict)"
proof -
  have "check_idempotency (later_env env t i) team req3 key s' = Inl ErrIdempotencyConflict"
    using assms(2-) by (simp add: check_idempotency_def compare_hash_def later_env_def)
  with assms(1) show ?thesis by (simp add: send_def)
qed

lemma admitted_key:
  "admitted env team req0 key s req1 req headers \<Longrightarrow> key \<noteq> [] \<Longrightarrow> length key \<le> 255 \<and> \<not> ContainsAny key CRLF"
  by (auto simp: admitted_def check_idempotency_def split: if_splits)

text \<open>C10: An accepted send with an idempotency key can be retried safely. The same request with the
  same key returns the same id, marked idempotent, and changes nothing: no second row, queue
  item or quota; another request with that key is refused as a conflict and changes nothing.\<close>

theorem idempotent_retry:
  assumes "send env team (Some req0) key s = (s', Inr (r, True))" and "key \<noteq> []"
  shows "send (later_env env t i) team (Some req0) key s' =
      (s', Inr (\<lparr>respID = respID r, respIdempotent = True\<rparr>, False)) \<and>
    (\<forall>req1 req2 req3. validate_head env team req0 s = Inr req1 \<longrightarrow>
      validate_head (later_env env t i) team req2 s' = Inr req3 \<longrightarrow> seHash env req3 \<noteq> seHash env req1 \<longrightarrow>
      send (later_env env t i) team (Some req2) key s' = (s', Inl ErrIdempotencyConflict))"
  using assms(1)
proof (cases rule: send_cases)
  case (commit req1 req headers reserved s1)
  let ?n = "new_email env team req headers key (seHash env req1)"
  let ?e = "new_row (seNow env) ?n"
  note new = commit_send_new [OF commit(3)]
  have s1: "sdb s1 = sdb s" "sdomains s1 = sdomains s" using reserve_quota_frame [OF commit(2)] by auto
  have f: "eID ?e = eID ?n" "eID ?n = seID env" "eTeamID ?n = team" "eTeamID ?e = team"
    "eIdempotencyKey ?n = Some key" "eIdempotencyKey ?e = Some key"
    "eIdempotencyHash ?e = Some (seHash env req1)"
    using assms(2) by (simp_all add: new_row_def new_email_def blank_email_def)
  have look: "GetByIdempotencyKey team key (sdb s') = Inr ?e"
    using lookup_key [of ?n "emails (sdb s1)" key "sdb s'" ?e] new f by simp
  have key: "length key \<le> 255" "\<not> ContainsAny key CRLF" using admitted_key [OF commit(1) assms(2)] by auto
  have h: "validate_head env team req0 s = Inr req1" using commit(1) by (simp add: admitted_def)
  have "send (later_env env t i) team (Some req0) key s' =
      (s', Inr (\<lparr>respID = respID r, respIdempotent = True\<rparr>, False))"
    using replay_answer [OF h _ assms(2) key look f(7)] new s1(2) f(1,2) by simp
  moreover have "send (later_env env t i) team (Some req2) key s' = (s', Inl ErrIdempotencyConflict)"
    if "validate_head (later_env env t i) team req2 s' = Inr req3" "seHash env req3 \<noteq> seHash env req1" for req2 req3
    using conflict_answer [OF that(1) assms(2) key look] that(2) f(7) by simp
  ultimately show ?thesis using h by auto
qed simp_all

section \<open>A queue that is down\<close>

lemma log_event_emails: "emails (sdb (log_event env i name d s)) = emails (sdb s)"
proof -
  have "emails (fst (AddEvent ev x)) = emails x" for ev x by (simp add: AddEvent_def)
  then have "emails (fst (run_call y (AddEvent ev) x)) = emails x" for y ev x by (cases y) simp_all
  then show ?thesis by (simp add: log_event_def db_step_def split: prod.splits) (metis fst_conv)
qed

lemma release_quota_frame:
  "sdb (release_quota env team n b s) = sdb s \<and> sdomains (release_quota env team n b s) = sdomains s"
  by (simp add: release_quota_def)

text \<open>When the queue cannot take a saved message, the send reports that the queue is
  unavailable and marks the row failed, and it keeps the row's idempotency key. As a consequence the
  retry with the same key is answered as a success for the failed message, which nothing will
  send.\<close>

theorem queue_failure_poisons_key:
  assumes "send env team (Some req0) key s = (s', Inl ErrQueueUnavailable)" and "key \<noteq> []"
    and "seFault env SeStatus = NoFault"
  shows "(\<exists>e. email_at (sdb s') (seID env) = Some e \<and> eStatus e = EmailStatusFailed) \<and>
    send (later_env env t i) team (Some req0) key s' =
      (s', Inr (\<lparr>respID = seID env, respIdempotent = True\<rparr>, False))"
  using assms(1)
proof (cases rule: send_cases)
  case (commit req1 req headers reserved s1)
  let ?n = "new_email env team req headers key (seHash env req1)"
  let ?e = "new_row (seNow env) ?n"
  have s1: "sdb s1 = sdb s" "sdomains s1 = sdomains s" using reserve_quota_frame [OF commit(2)] by auto
  obtain s2 a where c: "db_step env SeCreate (EmailRepo_Create (seNow env) ?n) s1 = (s2, a)"
    by (cases "db_step env SeCreate (EmailRepo_Create (seNow env) ?n) s1")
  obtain s3 b where q: "enqueue_email env ?n s2 = (s3, b)" by (cases "enqueue_email env ?n s2")
  obtain s4 d where u: "db_step env SeStatus (UpdateStatus (seNow env) (eID ?n) EmailStatusFailed) s3 = (s4, d)"
    by (cases "db_step env SeStatus (UpdateStatus (seNow env) (eID ?n) EmailStatusFailed) s3")
  obtain x where a: "a = Inr x"
    using commit(3) c by (cases a)
      (auto simp: commit_send_def Let_def compare_hash_def split: sum.splits idem_answer.splits if_splits)
  have s': "s' = release_quota env team (int (recipient_count req)) reserved
      (log_event env (eID ?n) ''email.failed'' queue_unavailable s4)"
    using commit(3) c q u a by (auto simp: commit_send_def Let_def split: sum.splits)
  have cr: "emails (sdb s2) = emails (sdb s) @ [?e]" "\<not> insert_conflict ?n (emails (sdb s))"
    using create_appends [of "seNow env" ?n "sdb s1" "sdb s2" x] db_step_Inr [of env SeCreate _ s1 s2 x] c a s1 by auto
  have dom: "sdomains s' = sdomains s"
    using db_step_frame [OF c] enqueue_email_frame [OF q] db_step_frame [OF u] s1(2)
    by (simp add: s' release_quota_def log_event_def db_step_def split: prod.splits)
  let ?f = "UpdateStatus_set (seNow env) EmailStatusFailed ?e"
  have f: "eID ?e = seID env" "eID ?n = seID env" "eTeamID ?n = team" "eIdempotencyKey ?n = Some key"
    "eID ?f = eID ?n" "eTeamID ?f = team" "eIdempotencyKey ?f = Some key" "eStatus ?f = EmailStatusFailed"
    "eIdempotencyHash ?f = Some (seHash env req1)"
    using assms(2) by (simp_all add: new_row_def new_email_def blank_email_def UpdateStatus_set_def)
  have others: "eID y \<noteq> seID env" if "y \<in> set (emails (sdb s))" for y
    using cr(2) that f(2) by (auto simp: insert_conflict_def)
  then have "sql_update (\<lambda>y. eID y = seID env) (UpdateStatus_set (seNow env) EmailStatusFailed) (emails (sdb s)) = emails (sdb s)"
    by (intro rows_affected_0_update) (simp add: rows_affected_0_iff)
  then have "emails (sdb s4) = emails (sdb s) @ [?f]"
    using u assms(3) enqueue_email_frame [OF q] cr(1) f(1,2)
    by (auto simp: db_step_def UpdateStatus_def sql_update_def split: prod.splits)
  then have rows: "emails (sdb s') = emails (sdb s) @ [?f]"
    by (simp add: s' release_quota_frame log_event_emails)
  have "email_at (sdb s') (seID env) = Some ?f"
    using others rows f(2,5) by (auto simp: email_at_def by_key_append by_key_None_iff split: option.splits)
      (meson by_key_SomeD)
  moreover have "GetByIdempotencyKey team key (sdb s') = Inr ?f"
    using lookup_key [OF cr(2) f(4) rows f(5) _ f(7)] f(3,6) by simp
  then have "send (later_env env t i) team (Some req0) key s' =
      (s', Inr (\<lparr>respID = seID env, respIdempotent = True\<rparr>, False))"
    using replay_answer [of env team req0 s req1 s' key ?f t i] commit(1) dom assms(2)
      admitted_key [OF commit(1) assms(2)] f(2,5,9) by (simp add: admitted_def)
  ultimately show ?thesis using f(8) by blast
next
  case (quota er req1 req headers)
  with reserve_quota_error [OF quota(2)] show ?thesis by auto
qed (auto simp: early_error_def)

section \<open>Examples\<close>

definition demo_send :: "fault \<Rightarrow> send_env" where
  "demo_send x = \<lparr>seFault = (\<lambda>st. case st of SeQueue \<Rightarrow> x | _ \<Rightarrow> NoFault), seNow = 10, seReservationAt = 10, seReserveNow = 10, seReleaseNow = 10, seID = 1, seEventID = 4,
     seToken = 5, seIDText = (\<lambda>_. ''e1''), seHash = rSubject, seBatchHash = (\<lambda>_. ''h''), seDigest = (\<lambda>t. t),
     seLanding = (\<lambda>_ _. None), seDomainRepo = True, seUnsubscribe = False, seSuppressionRepo = True,
     seContactRepo = True, seUsageLimiter = False, seDailyLimit = 0, seTeamRepo = False,
     sePlanLimits = (\<lambda>_. None)\<rparr>"

definition demo_request :: SendEmailRequest where
  "demo_request = \<lparr>rFrom = ''Me@x.org'', rTo = [''bob@y.org''], rCC = [], rBCC = [], rSubject = ''hi'',
     rCategory = [], rHTML = [], rText = ''hello'', rReplyTo = [], rHeaders = [], rTags = [], rMetadata = [],
     rAttachments = [], rScheduledAt = None\<rparr>"

definition demo_service :: service where
  "demo_service = \<lparr>sdb = empty_db, squeue = empty_redis, susage = (\<lambda>_. None),
     sdomains = [\<lparr>dmTeamID = 9, dmName = ''x.org'', dmStatus = DomainStatusVerified, dmDMARCStatus = ''failed''\<rparr>],
     splan = (\<lambda>_. None), sbatches = (\<lambda>_. None)\<rparr>"

lemma demo_send_fault:
  "from_domain (demo_send x) team f s = from_domain (demo_send NoFault) team f s"
  "seDomainRepo (demo_send x) = seDomainRepo (demo_send NoFault)"
  "seUnsubscribe (demo_send x) = seUnsubscribe (demo_send NoFault)"
  by (simp_all add: from_domain_def demo_send_def)

lemma demo_head:
  "validate_head (demo_send x) 9 demo_request demo_service =
     Inr (demo_request\<lparr>rCategory := ''transactional'', rFrom := ''me@x.org''\<rparr>)"
proof -
  have "validate_head (demo_send x) 9 demo_request demo_service = validate_head (demo_send NoFault) 9 demo_request demo_service"
    unfolding validate_head_def demo_send_fault [of x] ..
  also have "\<dots> = Inr (demo_request\<lparr>rCategory := ''transactional'', rFrom := ''me@x.org''\<rparr>)"
    by code_simp
  finally show ?thesis .
qed

lemma demo_admitted:
  assumes "length key \<le> 255" and "\<not> ContainsAny key CRLF"
  shows "admitted (demo_send x) 9 demo_request key demo_service
     (demo_request\<lparr>rCategory := ''transactional'', rFrom := ''me@x.org''\<rparr>)
     (demo_request\<lparr>rCategory := ''transactional'', rFrom := ''me@x.org''\<rparr>) []"
proof -
  let ?r = "demo_request\<lparr>rCategory := ''transactional'', rFrom := ''me@x.org''\<rparr>"
  have "normalizeRecipients ?r = (?r, [''bob@y.org''])" by code_simp
  moreover have "check_idempotency (demo_send x) 9 ?r key demo_service = Inr IdemFresh"
    using assms by (simp add: check_idempotency_def demo_send_def demo_service_def empty_db_def GetByIdempotencyKey_def)
  moreover have "list_all IsValidEmail [''bob@y.org'']" "validate_tail ?r = None" by code_simp+
  moreover have "policy_error (checkRecipientSuppression True True NoFault NoFault 9 [''bob@y.org''] empty_db) = None"
    by code_simp
  moreover have "total_size ?r \<le> 7 * 1024 * 1024" by (simp add: total_size_def demo_request_def)
  ultimately show ?thesis
    using demo_head [of x]
    by (simp add: admitted_def demo_send_def demo_service_def marketing_headers_def EmailCategoryMarketing_def
        demo_request_def)
qed

lemma demo_send_commit:
  assumes "length key \<le> 255" and "\<not> ContainsAny key CRLF"
  shows "send (demo_send x) 9 (Some demo_request) key demo_service =
     commit_send (demo_send x) 9 (demo_request\<lparr>rCategory := ''transactional'', rFrom := ''me@x.org''\<rparr>) [] key ''hi'' False demo_service"
proof -
  let ?r = "demo_request\<lparr>rCategory := ''transactional'', rFrom := ''me@x.org''\<rparr>"
  have "reserve_quota (demo_send x) 9 n demo_service = (demo_service, Inr False)" for n
    by (simp add: reserve_quota_def demo_send_def)
  moreover have "seHash (demo_send x) ?r = ''hi''" by (simp add: demo_send_def demo_request_def)
  moreover obtain rec where "normalizeRecipients ?r = (?r, rec)"
    using demo_admitted [OF assms, of x] by (cases "normalizeRecipients ?r") (auto simp: admitted_def)
  ultimately show ?thesis
    using demo_admitted [OF assms, of x] by (simp add: send_def admitted_def)
qed

lemma demo_key: "length ''k'' \<le> 255" "\<not> ContainsAny ''k'' CRLF"
  by (simp, code_simp)

lemma demo_send_ok:
  "\<exists>s' r. send (demo_send NoFault) 9 (Some demo_request) ''k'' demo_service = (s', Inr (r, True))"
proof -
  have "snd (commit_send (demo_send NoFault) 9 (demo_request\<lparr>rCategory := ''transactional'', rFrom := ''me@x.org''\<rparr>) [] ''k'' ''hi'' False demo_service)
      = Inr (\<lparr>respID = 1, respIdempotent = False\<rparr>, True)"
    by code_simp
  then show ?thesis unfolding demo_send_commit [OF demo_key] by (metis prod.collapse)
qed

theorem refused_send_changes_nothing_witness:
  "send (demo_send NoFault) 9 (Some (demo_request\<lparr>rTo := []\<rparr>)) ''k'' demo_service =
     (demo_service, Inl (SendInvalid ''at least one recipient is required''))"
proof -
  have "validate_head (demo_send NoFault) 9 (demo_request\<lparr>rTo := []\<rparr>) demo_service =
      Inl (SendInvalid ''at least one recipient is required'')"
    by code_simp
  then have "\<exists>s'. send (demo_send NoFault) 9 (Some (demo_request\<lparr>rTo := []\<rparr>)) ''k'' demo_service =
      (s', Inl (SendInvalid ''at least one recipient is required''))"
    by (simp add: send_def)
  with refused_send_changes_nothing [of "demo_send NoFault" 9 "Some (demo_request\<lparr>rTo := []\<rparr>)" "''k''" demo_service]
  show ?thesis by blast
qed

theorem accepted_send_is_queued_witness:
  "\<exists>s' r e. send (demo_send NoFault) 9 (Some demo_request) ''k'' demo_service = (s', Inr (r, True)) \<and>
     emails (sdb s') = [e] \<and> eStatus e = EmailStatusQueued"
proof -
  obtain s' r where run: "send (demo_send NoFault) 9 (Some demo_request) ''k'' demo_service = (s', Inr (r, True))"
    using demo_send_ok by blast
  from accepted_send_is_queued [OF run] run show ?thesis
    by (auto simp: demo_service_def empty_db_def)
qed

theorem idempotent_retry_witness:
  "\<exists>s' r. send (demo_send NoFault) 9 (Some demo_request) ''k'' demo_service = (s', Inr (r, True)) \<and>
     send (later_env (demo_send NoFault) 99 7) 9 (Some demo_request) ''k'' s' =
       (s', Inr (\<lparr>respID = respID r, respIdempotent = True\<rparr>, False))"
proof -
  obtain s' r where run: "send (demo_send NoFault) 9 (Some demo_request) ''k'' demo_service = (s', Inr (r, True))"
    using demo_send_ok by blast
  from idempotent_retry [OF run, of 99 7] run show ?thesis by auto
qed

theorem queue_failure_poisons_key_witness:
  "\<exists>s'. send (demo_send FailLost) 9 (Some demo_request) ''k'' demo_service = (s', Inl ErrQueueUnavailable) \<and>
     send (later_env (demo_send FailLost) 99 7) 9 (Some demo_request) ''k'' s' =
       (s', Inr (\<lparr>respID = 1, respIdempotent = True\<rparr>, False))"
proof -
  have "snd (commit_send (demo_send FailLost) 9 (demo_request\<lparr>rCategory := ''transactional'', rFrom := ''me@x.org''\<rparr>) [] ''k'' ''hi'' False demo_service)
      = Inl ErrQueueUnavailable"
    by code_simp
  then obtain s' where run: "send (demo_send FailLost) 9 (Some demo_request) ''k'' demo_service = (s', Inl ErrQueueUnavailable)"
    unfolding demo_send_commit [OF demo_key] by (metis prod.collapse)
  from queue_failure_poisons_key [OF run, of 99 7] run show ?thesis
    by (auto simp: demo_send_def)
qed

end
