(* ===== verification/EmailOperations.thy ===== *)
theory EmailOperations
  imports EmailService
begin

text \<open>
  The operations of \<open>internal/service/email_service.go\<close> around a send: reading and listing
  messages, cancelling, reconciling an ambiguous message, recovering interrupted attempts,
  dead letters, and batches with their own idempotency key (\<open>batch_repo.go\<close>). The state is
  the service state of the send path; the environment fixes clocks, fresh identifiers, the
  identifier syntax, the encoders and which call fails.
\<close>

section \<open>Environment and errors\<close>

datatype op_site =
    OsGet | OsGetAgain | OsCancel | OsReconcile | OsSweep | OsPending | OsEnqueue nat | OsMark nat
  | OsListDead | OsGetDead nat | OsPrepare | OsReplay | OsRollback | OsEvent | OsCount | OsRows | OsEvents

record ops_env =
  opFault :: "op_site \<Rightarrow> fault"
  opNow :: "op_site \<Rightarrow> instant"
  opEventID :: uuid
  opOutboxID :: uuid
  opToken :: uuid
  opParse :: "string \<Rightarrow> uuid option"
  opIDText :: "uuid \<Rightarrow> string"
  opMarshalEmail :: "Email \<Rightarrow> string option"
  opMarshalData :: "event_data \<Rightarrow> string option"
  opAttemptRepo :: bool
  opPipelineRepo :: bool

datatype op_error =
    OpDB db_error
  | OpQueue queue_error
  | OpReplayNotRolledBack queue_error "db_error option"
  | OpMarshal
  | OpRefused string
  | OpRecovery "uuid list"
  | ErrDeliveryReconciliationUnavailable
  | ErrDeliveryReviewNotNeeded
  | ErrInvalidDeliveryReviewAction

definition op_db :: "ops_env \<Rightarrow> op_site \<Rightarrow> (db \<Rightarrow> db \<times> 'a result) \<Rightarrow> service \<Rightarrow> service \<times> 'a result" where
  "op_db env st f s = (case run_call (opFault env st) f (sdb s) of (d, r) \<Rightarrow> (s\<lparr>sdb := d\<rparr>, r))"

definition op_read :: "ops_env \<Rightarrow> op_site \<Rightarrow> (db \<Rightarrow> 'a result) \<Rightarrow> service \<Rightarrow> 'a result" where
  "op_read env st f s = (if opFault env st = NoFault then f (sdb s) else Inl ConnFailure)"

definition op_queue ::
  "ops_env \<Rightarrow> op_site \<Rightarrow> (redis \<Rightarrow> redis \<times> (queue_error + 'a)) \<Rightarrow> service \<Rightarrow> service \<times> (queue_error + 'a)" where
  "op_queue env st f s = (case redis_call (opFault env st) f (squeue s) of (q, r) \<Rightarrow> (s\<lparr>squeue := q\<rparr>, r))"

section \<open>Reading\<close>

definition service_GetByID :: "ops_env \<Rightarrow> uuid \<Rightarrow> uuid \<Rightarrow> service \<Rightarrow> Email result" where
  "service_GetByID env team i s = op_read env OsGet (GetByIDForTeam team i) s"

text \<open>The columns a listing selects. Rows created at the same instant come in an order SQL
  does not fix; the model keeps them in insertion order.\<close>

record EmailListItem =
  liID :: uuid
  liTeamID :: uuid
  liAPIKeyID :: "uuid option"
  liFrom :: string
  liTo :: "string list"
  liSubject :: string
  liCategory :: string
  liStatus :: EmailStatus
  liSendAttemptState :: SendAttemptState
  liCreatedAt :: instant

record EmailListResponse =
  elData :: "EmailListItem list"
  elTotal :: nat
  elLimit :: int
  elOffset :: int

definition list_item :: "Email \<Rightarrow> EmailListItem" where
  "list_item e = \<lparr>liID = eID e, liTeamID = eTeamID e, liAPIKeyID = eAPIKeyID e, liFrom = eFrom e, liTo = eTo e,
     liSubject = eSubject e, liCategory = eCategory e, liStatus = eStatus e,
     liSendAttemptState = eSendAttemptState e, liCreatedAt = eCreatedAt e\<rparr>"

definition team_rows :: "uuid \<Rightarrow> db \<Rightarrow> Email list" where
  "team_rows team d = filter (\<lambda>e. eTeamID e = team) (emails d)"

definition newest_first :: "Email list \<Rightarrow> Email list" where
  "newest_first = sort_key (\<lambda>e. - eCreatedAt e)"

definition EmailRepo_List :: "uuid \<Rightarrow> int \<Rightarrow> int \<Rightarrow> db \<Rightarrow> EmailListResponse" where
  "EmailRepo_List team limit offset d =
     \<lparr>elData = map list_item (take (nat limit) (drop (nat offset) (newest_first (team_rows team d)))),
      elTotal = length (team_rows team d), elLimit = limit, elOffset = offset\<rparr>"

definition service_List :: "ops_env \<Rightarrow> uuid \<Rightarrow> int \<Rightarrow> int \<Rightarrow> service \<Rightarrow> EmailListResponse result" where
  "service_List env team limit offset s =
     (let l = (if limit \<le> 0 then 50 else limit);
          l' = (if l > 100 then 100 else l);
          off = (if offset < 0 then 0 else offset)
      in if opFault env OsCount = NoFault
         then op_read env OsRows (\<lambda>d. Inr (EmailRepo_List team l' off d)) s
         else Inl ConnFailure)"

definition GetEvents :: "ops_env \<Rightarrow> uuid \<Rightarrow> uuid \<Rightarrow> service \<Rightarrow> EmailEvent list result" where
  "GetEvents env team i s =
     (case op_read env OsGet (GetByIDForTeam team i) s of
        Inl e \<Rightarrow> Inl e
      | Inr _ \<Rightarrow> op_read env OsEvents (\<lambda>d. Inr (GetEventsForTeam team i d)) s)"

section \<open>Cancelling\<close>

definition Cancel :: "ops_env \<Rightarrow> uuid \<Rightarrow> uuid \<Rightarrow> service \<Rightarrow> service \<times> (op_error + unit)" where
  "Cancel env team i s =
     (case op_read env OsGet (GetByIDForTeam team i) s of
        Inl e \<Rightarrow> (s, Inl (OpDB e))
      | Inr email \<Rightarrow>
          if eStatus email \<noteq> EmailStatusQueued then (s, Inl (OpRefused ''only queued emails can be cancelled''))
          else (case op_db env OsCancel (CancelQueued team i) s of
                  (s1, Inl e) \<Rightarrow> (s1, Inl (OpDB e))
                | (s1, Inr False) \<Rightarrow> (s1, Inl (OpRefused ''email is no longer queued''))
                | (s1, Inr True) \<Rightarrow> (s1, Inr ())))"

section \<open>Reconciling\<close>

definition service_ReconcileAmbiguous ::
  "ops_env \<Rightarrow> uuid \<Rightarrow> uuid \<Rightarrow> string \<Rightarrow> string \<Rightarrow> service \<Rightarrow> service \<times> (op_error + Email)" where
  "service_ReconcileAmbiguous env team i action given s =
     (if \<not> opPipelineRepo env then (s, Inl ErrDeliveryReconciliationUnavailable)
      else case op_read env OsGet (GetByIDForTeam team i) s of
        Inl e \<Rightarrow> (s, Inl (OpDB e))
      | Inr email \<Rightarrow>
          if eStatus email \<noteq> EmailStatusAmbiguous \<or> eSendAttemptState email \<noteq> SendAttemptAmbiguous
          then (s, Inl ErrDeliveryReviewNotNeeded)
          else
            (let act = ToLower (TrimSpace action) in
             if act \<noteq> ''accepted'' \<and> act \<noteq> ''failed'' then (s, Inl ErrInvalidDeliveryReviewAction)
             else
               (let accepted = (act = ''accepted'');
                    name = (if accepted then ''email.sent'' else ''email.failed'');
                    email2 = email\<lparr>eStatus := (if accepted then EmailStatusSent else EmailStatusFailed),
                      eSendAttemptState := (if accepted then SendAttemptAccepted else SendAttemptFailedTerminal)\<rparr>
                in case durable_event (opMarshalData env) (opMarshalEmail env) (opEventID env) (opOutboxID env) email2 name
                          (Some [(''source'', JString ''manual_reconciliation''), (''action'', JString act)]) RetentionOutbound of
                     None \<Rightarrow> (s, Inl OpMarshal)
                   | Some (ev, ob) \<Rightarrow>
                       (case op_db env OsReconcile
                               (ReconcileAmbiguous (opNow env OsReconcile) team i act given (Some ev) (Some ob)) s of
                          (s1, Inl e) \<Rightarrow> (s1, Inl (OpDB e))
                        | (s1, Inr False) \<Rightarrow> (s1, Inl ErrDeliveryReviewNotNeeded)
                        | (s1, Inr True) \<Rightarrow>
                            (s1, case op_read env OsGetAgain (GetByIDForTeam team i) s1 of
                                   Inl e \<Rightarrow> Inl (OpDB e) | Inr x \<Rightarrow> Inr x)))))"

section \<open>Recovery\<close>

text \<open>One round of the loop; the answer is the list of identifiers it could not finish.\<close>

definition recover_one :: "ops_env \<Rightarrow> nat \<Rightarrow> string \<Rightarrow> service \<Rightarrow> service \<times> bool" where
  "recover_one env n text s =
     (case op_queue env (OsEnqueue n) (\<lambda>q. (Enqueue text q, Inr ())) s of
        (s1, Inl _) \<Rightarrow> (s1, False)
      | (s1, Inr _) \<Rightarrow>
          (case opParse env text of
             None \<Rightarrow> (s1, False)
           | Some i \<Rightarrow>
               (case op_db env (OsMark n) (MarkQueueRecoveryEnqueued i) s1 of
                  (s2, Inl _) \<Rightarrow> (s2, False)
                | (s2, Inr _) \<Rightarrow> (s2, True))))"

fun recover_loop :: "ops_env \<Rightarrow> nat \<Rightarrow> uuid list \<Rightarrow> service \<Rightarrow> service \<times> uuid list" where
  "recover_loop env n [] s = (s, [])"
| "recover_loop env n (i # is) s =
     (case recover_one env n (opIDText env i) s of
        (s1, ok) \<Rightarrow>
          (case recover_loop env (Suc n) is s1 of
             (s2, failed) \<Rightarrow> (s2, if ok then failed else i # failed)))"

text \<open>Without the attempt interface the service calls the repository's older entry point, which
  runs the same sweep.\<close>

definition ResetSendingToQueued :: "instant \<Rightarrow> db \<Rightarrow> db \<times> unit result" where
  "ResetSendingToQueued now d = (fst (RecoverExpiredSendAttempts now d), Inr ())"

definition RecoverSending :: "ops_env \<Rightarrow> service \<Rightarrow> service \<times> (op_error + unit)" where
  "RecoverSending env s =
     (if opAttemptRepo env then
        (case op_db env OsSweep (RecoverExpiredSendAttempts (opNow env OsSweep)) s of
           (s1, Inl e) \<Rightarrow> (s1, Inl (OpDB e))
         | (s1, Inr _) \<Rightarrow>
             (case op_read env OsPending (\<lambda>d. Inr (ListQueueRecoveryPending 5000 d)) s1 of
                Inl e \<Rightarrow> (s1, Inl (OpDB e))
              | Inr ids \<Rightarrow>
                  (case recover_loop env 0 ids s1 of
                     (s2, []) \<Rightarrow> (s2, Inr ())
                   | (s2, failed) \<Rightarrow> (s2, Inl (OpRecovery failed)))))
      else
        (case op_db env OsSweep (ResetSendingToQueued (opNow env OsSweep)) s of
           (s1, Inl e) \<Rightarrow> (s1, Inl (OpDB e))
         | (s1, Inr _) \<Rightarrow> (s1, Inr ())))"

section \<open>Dead letters\<close>

fun dead_letters :: "ops_env \<Rightarrow> uuid \<Rightarrow> nat \<Rightarrow> string list \<Rightarrow> service \<Rightarrow> (uuid \<times> EmailStatus) list" where
  "dead_letters env team n [] s = []"
| "dead_letters env team n (raw # rest) s =
     (case opParse env raw of
        None \<Rightarrow> dead_letters env team (Suc n) rest s
      | Some i \<Rightarrow>
          (case op_read env (OsGetDead n) (GetByIDForTeam team i) s of
             Inl _ \<Rightarrow> dead_letters env team (Suc n) rest s
           | Inr email \<Rightarrow>
               if eStatus email \<noteq> EmailStatusFailed then dead_letters env team (Suc n) rest s
               else (eID email, eStatus email) # dead_letters env team (Suc n) rest s))"

definition ListDeadLetters :: "ops_env \<Rightarrow> uuid \<Rightarrow> int \<Rightarrow> service \<Rightarrow> op_error + (uuid \<times> EmailStatus) list" where
  "ListDeadLetters env team limit s =
     (if opFault env OsListDead = NoFault then Inr (dead_letters env team 0 (ListDead limit (squeue s)) s)
      else Inl (OpQueue ErrRedis))"

definition op_event :: "ops_env \<Rightarrow> uuid \<Rightarrow> string \<Rightarrow> event_data \<Rightarrow> service \<Rightarrow> service" where
  "op_event env i name data s =
     fst (op_db env OsEvent (AddEvent \<lparr>evID = opEventID env, evEmailID = i, evEvent = name,
       evData = (case opMarshalData env data of Some j \<Rightarrow> j | None \<Rightarrow> ''null'')\<rparr>) s)"

definition prepare_replay :: "ops_env \<Rightarrow> uuid \<Rightarrow> uuid \<Rightarrow> service \<Rightarrow> service \<times> (op_error + unit)" where
  "prepare_replay env team i s =
     (if opAttemptRepo env then
        (case op_db env OsPrepare (PrepareDeadLetterReplay team i (opToken env)) s of
           (s1, Inl e) \<Rightarrow> (s1, Inl (OpDB e))
         | (s1, Inr False) \<Rightarrow> (s1, Inl (OpRefused ''email is not a failed dead-letter candidate''))
         | (s1, Inr True) \<Rightarrow> (s1, Inr ()))
      else
        (case op_db env OsPrepare (UpdateStatus (opNow env OsPrepare) i EmailStatusQueued) s of
           (s1, Inl e) \<Rightarrow> (s1, Inl (OpDB e))
         | (s1, Inr _) \<Rightarrow> (s1, Inr ())))"

definition rollback_replay :: "ops_env \<Rightarrow> uuid \<Rightarrow> queue_error \<Rightarrow> service \<Rightarrow> service \<times> op_error" where
  "rollback_replay env i er s =
     (if opAttemptRepo env then
        (case op_db env OsRollback (CancelDeadLetterReplay i (opToken env)) s of
           (s1, Inl e) \<Rightarrow> (s1, OpReplayNotRolledBack er (Some e))
         | (s1, Inr False) \<Rightarrow> (s1, OpReplayNotRolledBack er None)
         | (s1, Inr True) \<Rightarrow> (s1, OpQueue er))
      else
        (case op_db env OsRollback (UpdateStatus (opNow env OsRollback) i EmailStatusFailed) s of
           (s1, Inl e) \<Rightarrow> (s1, OpReplayNotRolledBack er (Some e))
         | (s1, Inr _) \<Rightarrow> (s1, OpQueue er)))"

definition ReplayDeadLetter :: "ops_env \<Rightarrow> uuid \<Rightarrow> uuid \<Rightarrow> service \<Rightarrow> service \<times> (op_error + unit)" where
  "ReplayDeadLetter env team i s =
     (case op_read env OsGet (GetByIDForTeam team i) s of
        Inl e \<Rightarrow> (s, Inl (OpDB e))
      | Inr email \<Rightarrow>
          if eStatus email = EmailStatusAmbiguous \<or> eSendAttemptState email = SendAttemptAmbiguous
          then (s, Inl (OpRefused ''ambiguous provider outcomes cannot be resent''))
          else
            (case prepare_replay env team i s of
               (s1, Inl e) \<Rightarrow> (s1, Inl e)
             | (s1, Inr _) \<Rightarrow>
                 (case op_queue env OsReplay (ReplayDead (opIDText env i)) s1 of
                    (s2, Inl er) \<Rightarrow> (case rollback_replay env i er s2 of (s3, e) \<Rightarrow> (s3, Inl e))
                  | (s2, Inr _) \<Rightarrow>
                      (op_event env i ''email.requeued''
                         [(''reason'', JString ''manual_dead_letter_replay'')] s2, Inr ()))))"

section \<open>Batches\<close>

datatype batch_error = ErrBatchRequestConflict | BatchUnavailable

text \<open>The insert of \<open>Ensure\<close>; when it returns no row, or fails, a second query decides.\<close>

definition batch_insert :: "uuid \<Rightarrow> string \<Rightarrow> string \<Rightarrow> service \<Rightarrow> service \<times> bool result" where
  "batch_insert team key hash s =
     (case sbatches s (team, key) of
        None \<Rightarrow> (s\<lparr>sbatches := (sbatches s)((team, key) \<mapsto> hash)\<rparr>, Inr True)
      | Some h \<Rightarrow> (s, if h = hash then Inr False else Inl ErrNoRows))"

definition Ensure :: "send_env \<Rightarrow> uuid \<Rightarrow> string \<Rightarrow> string \<Rightarrow> service \<Rightarrow> service \<times> (batch_error + bool)" where
  "Ensure env team key hash s =
     (case run_call (seFault env SeBatch) (batch_insert team key hash) s of
        (s1, Inr created) \<Rightarrow> (s1, Inr created)
      | (s1, Inl _) \<Rightarrow>
          (s1, if seFault env SeGet \<noteq> NoFault then Inl BatchUnavailable
               else case sbatches s1 (team, key) of
                      None \<Rightarrow> Inl BatchUnavailable
                    | Some h \<Rightarrow> if h \<noteq> hash then Inl ErrBatchRequestConflict else Inr False))"

fun decimal :: "nat \<Rightarrow> string" where
  "decimal n = (if n < 10 then [char_of (48 + n)] else decimal (n div 10) @ [char_of (48 + n mod 10)])"

declare decimal.simps [simp del]

definition batchItemIdempotencyKey :: "(string \<Rightarrow> string) \<Rightarrow> string \<Rightarrow> nat \<Rightarrow> string" where
  "batchItemIdempotencyKey digest batchKey index =
     (let key = batchKey @ '':'' @ decimal index in
      if length key \<le> 255 then key else ''batch:'' @ digest key)"

datatype batch_failure =
    BatchRefused string
  | ErrBatchIdempotencyKeyRequired
  | BatchConflict
  | BatchCheckFailed
  | BatchSendError nat send_error_kind

text \<open>The items of a batch are pointers, and a \<open>null\<close> of the JSON array is an item that the send refuses.\<close>

fun send_items ::
  "(nat \<Rightarrow> send_env) \<Rightarrow> uuid \<Rightarrow> (nat \<Rightarrow> string) \<Rightarrow> nat \<Rightarrow> SendEmailRequest option list \<Rightarrow> service \<Rightarrow>
   service \<times> EmailResponse list \<times> batch_failure option" where
  "send_items envs team keys n [] s = (s, [], None)"
| "send_items envs team keys n (req # reqs) s =
     (case SendWithIdempotency (envs n) team req (keys n) s of
        (s1, Inl er) \<Rightarrow> (s1, [], Some (BatchSendError n er))
      | (s1, Inr (r, _)) \<Rightarrow>
          (case send_items envs team keys (Suc n) reqs s1 of (s2, rs, f) \<Rightarrow> (s2, r # rs, f)))"

definition BatchSend ::
  "(nat \<Rightarrow> send_env) \<Rightarrow> bool \<Rightarrow> uuid \<Rightarrow> SendEmailRequest option list \<Rightarrow> string \<Rightarrow> service \<Rightarrow>
   service \<times> EmailResponse list \<times> batch_failure option" where
  "BatchSend envs batchRepo team reqs batchKey0 s =
     (let batchKey = TrimSpace batchKey0;
          items = send_items envs team (batchItemIdempotencyKey (seDigest (envs 0)) batchKey) 0 reqs
      in if length reqs > 100 then (s, [], Some (BatchRefused ''maximum 100 emails per batch''))
         else if batchKey = [] then (s, [], Some ErrBatchIdempotencyKeyRequired)
         else if length batchKey > 255 \<or> ContainsAny batchKey CRLF
         then (s, [], Some (BatchRefused ''invalid idempotency key''))
         else if batchRepo then
           (case Ensure (envs 0) team batchKey (seBatchHash (envs 0) reqs) s of
              (s1, Inl ErrBatchRequestConflict) \<Rightarrow> (s1, [], Some BatchConflict)
            | (s1, Inl BatchUnavailable) \<Rightarrow> (s1, [], Some BatchCheckFailed)
            | (s1, Inr _) \<Rightarrow> items s1)
         else items s)"

section \<open>Frames\<close>

lemma op_db_state:
  "squeue (fst (op_db env st f s)) = squeue s"
  "sdb (fst (op_db env st f s)) = sdb s \<or> sdb (fst (op_db env st f s)) = fst (f (sdb s))"
  using run_call_state [of "opFault env st" f "sdb s"] by (auto simp: op_db_def split: prod.splits)

lemma op_db_Inr: "op_db env st f s = (s1, Inr a) \<Longrightarrow> f (sdb s) = (sdb s1, Inr a) \<and> s1 = s\<lparr>sdb := sdb s1\<rparr>"
  by (auto simp: op_db_def split: prod.splits dest: run_call_InrD)

lemma op_queue_state:
  "sdb (fst (op_queue env st f s)) = sdb s"
  "squeue (fst (op_queue env st f s)) = squeue s \<or> squeue (fst (op_queue env st f s)) = fst (f (squeue s))"
  using redis_call_state [of "opFault env st" f "squeue s"] by (auto simp: op_queue_def split: prod.splits)

lemma op_queue_Inr: "op_queue env st f s = (s1, Inr a) \<Longrightarrow> f (squeue s) = (squeue s1, Inr a) \<and> s1 = s\<lparr>squeue := squeue s1\<rparr>"
  by (auto simp: op_queue_def redis_call_def split: prod.splits fault.splits)

lemma op_read_Inr: "op_read env st f s = Inr a \<Longrightarrow> f (sdb s) = Inr a"
  by (simp add: op_read_def split: if_splits)

section \<open>Listing\<close>

lemma newest_first_perm: "mset (newest_first rows) = mset rows"
  by (simp add: newest_first_def)

lemma newest_first_sorted: "sorted (map (\<lambda>e. - eCreatedAt e) (newest_first rows))"
  by (simp add: newest_first_def)

lemma pages_take: "concat (map (\<lambda>p. take l (drop (p * l) xs)) [0..<k]) = take (k * l) xs"
  by (induction k) (simp_all add: add.commute flip: take_add)

text \<open>The pages of a listing are complete and in order. With a page size between one and a hundred
  the concatenation of the first pages is the beginning of the team's messages, newest first, so
  that no message is skipped or repeated; the total is the number of the team's messages, and
  messages of another team never appear.\<close>

theorem list_pages_complete:
  assumes "1 \<le> l" and "l \<le> 100" and "opFault env = (\<lambda>_. NoFault)"
  shows "\<exists>pages. (\<forall>p < k. service_List env team l (int p * l) s = Inr (pages p) \<and>
      elTotal (pages p) = length (team_rows team (sdb s))) \<and>
    concat (map (\<lambda>p. elData (pages p)) [0..<k]) =
      map list_item (take (k * nat l) (newest_first (team_rows team (sdb s)))) \<and>
    mset (newest_first (team_rows team (sdb s))) = mset (filter (\<lambda>e. eTeamID e = team) (emails (sdb s))) \<and>
    sorted (map (\<lambda>e. - eCreatedAt e) (newest_first (team_rows team (sdb s))))"
proof -
  let ?pages = "\<lambda>p. EmailRepo_List team l (int p * l) (sdb s)"
  let ?rows = "newest_first (team_rows team (sdb s))"
  have "service_List env team l (int p * l) s = Inr (?pages p)" for p
    using assms by (simp add: service_List_def op_read_def mult_less_0_iff)
  moreover have "elTotal (?pages p) = length (team_rows team (sdb s))" for p
    by (simp add: EmailRepo_List_def)
  moreover have "elData (?pages p) = map list_item (take (nat l) (drop (p * nat l) ?rows))" for p
    using assms(1) by (simp add: EmailRepo_List_def nat_mult_distrib)
  then have "concat (map (\<lambda>p. elData (?pages p)) [0..<k]) = map list_item (take (k * nat l) ?rows)"
    by (simp add: map_concat comp_def flip: pages_take)
  ultimately show ?thesis
    using newest_first_perm newest_first_sorted by (intro exI [of _ ?pages]) (simp add: team_rows_def)
qed

section \<open>Recovery\<close>

text \<open>A message is on its way to the queue while its row is marked or its id is pending.\<close>

definition on_its_way :: "ops_env \<Rightarrow> uuid \<Rightarrow> service \<Rightarrow> bool" where
  "on_its_way env i s \<longleftrightarrow>
     (case email_at (sdb s) i of None \<Rightarrow> False | Some e \<Rightarrow> eQueueRecoveryPending e) \<or>
     opIDText env i \<in> set (pending (squeue s))"

lemma mark_enqueued_at:
  "email_at (fst (MarkQueueRecoveryEnqueued j d)) i =
     map_option (\<lambda>e. if eID e = j \<and> eQueueRecoveryPending e then e\<lparr>eQueueRecoveryPending := False\<rparr> else e) (email_at d i)"
  unfolding MarkQueueRecoveryEnqueued_def fst_conv by (rule email_at_update) simp

lemma recover_one_on_its_way:
  assumes "\<And>j. opParse env (opIDText env j) = Some j" and "on_its_way env i s"
  shows "on_its_way env i (fst (recover_one env n (opIDText env j) s))"
proof -
  let ?q = "op_queue env (OsEnqueue n) (\<lambda>q. (Enqueue (opIDText env j) q, Inr ())) s"
  obtain s1 r where q: "?q = (s1, r)" by (cases ?q)
  have s1: "sdb s1 = sdb s" "set (pending (squeue s)) \<subseteq> set (pending (squeue s1))"
    using op_queue_state [of env "OsEnqueue n" "\<lambda>q. (Enqueue (opIDText env j) q, Inr ())" s] q
    by (auto simp: Enqueue_def)
  then have way: "on_its_way env i s1" using assms(2) by (auto simp: on_its_way_def split: option.splits)
  show ?thesis
  proof (cases r)
    case (Inr u)
    let ?m = "op_db env (OsMark n) (MarkQueueRecoveryEnqueued j) s1"
    have "squeue s1 = Enqueue (opIDText env j) (squeue s)" using op_queue_Inr [OF q [unfolded Inr]] by simp
    then have "opIDText env j \<in> set (pending (squeue s1))" by (simp add: Enqueue_def)
    then have "on_its_way env i (fst ?m)"
      using way op_db_state [of env "OsMark n" "MarkQueueRecoveryEnqueued j" s1] email_at_SomeD [of "sdb s1" i]
      by (auto simp: on_its_way_def mark_enqueued_at split: option.splits)
    then show ?thesis using q Inr assms(1) by (cases ?m) (auto simp: recover_one_def split: sum.splits)
  qed (use q way in \<open>simp add: recover_one_def\<close>)
qed

lemma recover_loop_on_its_way:
  assumes "\<And>j. opParse env (opIDText env j) = Some j" and "on_its_way env i s"
  shows "on_its_way env i (fst (recover_loop env n ids s))"
  using assms(2)
proof (induction ids arbitrary: n s)
  case (Cons j ids)
  from Cons.IH [OF recover_one_on_its_way [OF assms(1) Cons.prems]] show ?case
    by (simp split: prod.splits) (metis fst_conv)
qed simp

lemma sweep_at:
  "email_at (fst (RecoverExpiredSendAttempts now d)) i = map_option
     (\<lambda>e. if recover_leased_where now e then recover_leased_set e
          else if recover_started_where now e then recover_started_set now e else e) (email_at d i)"
proof -
  have e: "eID (recover_leased_set e) = eID e" "eID (recover_started_set now e) = eID e"
    "\<not> recover_started_where now (recover_leased_set e)" for e
    by (simp_all add: recover_leased_set_def recover_started_set_def recover_started_where_def)
  show ?thesis
    by (simp add: RecoverExpiredSendAttempts_def Let_def email_at_def by_key_sql_update e option.map_comp comp_def)
      (cases "by_key eID i (emails d)", simp_all add: e)
qed

lemma RecoverSending_cases:
  assumes "RecoverSending env s = (s', r)" and "opAttemptRepo env"
  obtains "sdb s' = sdb s" "squeue s' = squeue s"
  | n ids s1 where "sdb s1 = fst (RecoverExpiredSendAttempts (opNow env OsSweep) (sdb s))" "squeue s1 = squeue s"
      "s' = fst (recover_loop env n ids s1)"
proof -
  let ?w = "op_db env OsSweep (RecoverExpiredSendAttempts (opNow env OsSweep)) s"
  obtain s1 a where w: "?w = (s1, a)" by (cases ?w)
  note st = op_db_state [of env OsSweep "RecoverExpiredSendAttempts (opNow env OsSweep)" s, unfolded w fst_conv]
  have "s' = s1 \<or> (\<exists>ids u. a = Inr u \<and> s' = fst (recover_loop env 0 ids s1))"
    using assms w by (auto simp: RecoverSending_def split: sum.splits prod.splits list.splits)
      (metis fst_conv)+
  then show ?thesis
  proof (elim disjE exE conjE)
    assume "s' = s1"
    then show ?thesis using st that(1) that(2) [of s1 0 "[]"] by auto
  next
    fix ids u assume a: "a = Inr u" "s' = fst (recover_loop env 0 ids s1)"
    then have "sdb s1 = fst (RecoverExpiredSendAttempts (opNow env OsSweep) (sdb s))"
      using op_db_Inr [OF w [unfolded a(1)]] by simp
    then show ?thesis using st(1) a(2) that(2) by blast
  qed
qed

text \<open>C15: Recovery loses no message, whatever calls fail. A queued message that waits for its queue
  entry still waits or is in the queue; a message whose lease ran out before it reached the
  provider ends in one of these two states too, or the sweep did not happen and its row is as it
  was, for the next sweep. The identifier text is assumed to parse back to the identifier.\<close>

theorem recovery_loses_nothing:
  assumes "RecoverSending env s = (s', r)" and "opAttemptRepo env"
    and "\<And>j. opParse env (opIDText env j) = Some j" and "email_at (sdb s) i = Some e"
    and "eStatus e = EmailStatusQueued \<and> eQueueRecoveryPending e \<or> recover_leased_where (opNow env OsSweep) e"
  shows "on_its_way env i s' \<or>
    recover_leased_where (opNow env OsSweep) e \<and> email_at (sdb s') i = Some e"
  using assms(1,2)
proof (cases rule: RecoverSending_cases)
  case 1
  then show ?thesis using assms(4,5) by (auto simp: on_its_way_def)
next
  case (2 n ids s1)
  have "on_its_way env i s1"
    using 2(1) assms(4,5)
    by (auto simp: on_its_way_def sweep_at recover_leased_set_def recover_leased_where_def recover_started_where_def)
  with 2(3) recover_loop_on_its_way [OF assms(3)] show ?thesis by simp
qed

lemma set_insort_row [simp]: "set (insort_row a xs) = insert a (set xs)"
  by (induction xs) auto

lemma length_insort_row [simp]: "length (insort_row a xs) = Suc (length xs)"
  by (induction xs) auto

lemma sorted_rows_set: "set (foldr insort_row xs []) = set xs" "length (foldr insort_row xs []) = length xs"
  by (induction xs) auto

definition waiting :: "Email \<Rightarrow> bool" where
  "waiting e \<longleftrightarrow> eStatus e = EmailStatusQueued \<and> eQueueRecoveryPending e"

lemma pending_all:
  "length (filter waiting (emails d)) \<le> 5000 \<Longrightarrow>
   set (ListQueueRecoveryPending 5000 d) = eID ` {e \<in> set (emails d). waiting e}"
  by (simp add: ListQueueRecoveryPending_def sorted_rows_set flip: waiting_def)

lemma recover_loop_runs:
  assumes "opFault env = (\<lambda>_. NoFault)" and "\<And>j. opParse env (opIDText env j) = Some j"
  shows "\<exists>s'. recover_loop env n ids s = (s', []) \<and>
    emails (sdb s') = map (\<lambda>e. if eID e \<in> set ids then e\<lparr>eQueueRecoveryPending := False\<rparr> else e) (emails (sdb s)) \<and>
    opIDText env ` set ids \<union> set (pending (squeue s)) \<subseteq> set (pending (squeue s'))"
proof (induction ids arbitrary: n s)
  case (Cons i ids)
  let ?s1 = "s\<lparr>squeue := Enqueue (opIDText env i) (squeue s), sdb := fst (MarkQueueRecoveryEnqueued i (sdb s))\<rparr>"
  have one: "recover_one env n (opIDText env i) s = (?s1, True)"
    using assms by (simp add: recover_one_def op_queue_def redis_call_def op_db_def MarkQueueRecoveryEnqueued_def)
  obtain s' where s': "recover_loop env (Suc n) ids ?s1 = (s', [])"
    "emails (sdb s') = map (\<lambda>e. if eID e \<in> set ids then e\<lparr>eQueueRecoveryPending := False\<rparr> else e) (emails (sdb ?s1))"
    "opIDText env ` set ids \<union> set (pending (squeue ?s1)) \<subseteq> set (pending (squeue s'))"
    using Cons.IH [of "Suc n" ?s1] by blast
  have "emails (sdb s') = map (\<lambda>e. if eID e \<in> set (i # ids) then e\<lparr>eQueueRecoveryPending := False\<rparr> else e) (emails (sdb s))"
    by (simp add: s'(2) MarkQueueRecoveryEnqueued_def sql_update_def)
  then show ?case using one s'(1,3) by (auto simp: Enqueue_def)
qed simp

lemma emails_sweep:
  "emails (fst (RecoverExpiredSendAttempts now d)) = map
     (\<lambda>e. if recover_leased_where now e then recover_leased_set e
          else if recover_started_where now e then recover_started_set now e else e) (emails d)"
  by (auto simp: RecoverExpiredSendAttempts_def Let_def sql_update_def recover_leased_set_def
      recover_started_where_def)

text \<open>C16: Recovery finishes its work when no call fails, the ids are read back as they were written, and at most five thousand
  messages wait for their queue entry or have a lease that ran out, which is as many as one pass takes up: it reports success, no message waits for its queue entry any more, and the id of every message that waited,
  or whose lease ran out before it reached the provider, is pending in the queue.\<close>

theorem recovery_completes:
  assumes "opAttemptRepo env" and "opFault env = (\<lambda>_. NoFault)" and "\<And>j. opParse env (opIDText env j) = Some j"
    and "length (filter (\<lambda>e. waiting e \<or> recover_leased_where (opNow env OsSweep) e) (emails (sdb s))) \<le> 5000"
  shows "\<exists>s'. RecoverSending env s = (s', Inr ()) \<and> (\<forall>e \<in> set (emails (sdb s')). \<not> waiting e) \<and>
    (\<forall>e \<in> set (emails (sdb s)). waiting e \<or> recover_leased_where (opNow env OsSweep) e \<longrightarrow>
       opIDText env (eID e) \<in> set (pending (squeue s')))"
proof -
  let ?now = "opNow env OsSweep"
  let ?d = "fst (RecoverExpiredSendAttempts ?now (sdb s))"
  let ?ids = "ListQueueRecoveryPending 5000 ?d"
  let ?f = "\<lambda>e. if recover_leased_where ?now e then recover_leased_set e
          else if recover_started_where ?now e then recover_started_set ?now e else e"
  have w: "waiting (?f e) \<longleftrightarrow> waiting e \<or> recover_leased_where ?now e" "eID (?f e) = eID e" for e
    by (auto simp: waiting_def recover_leased_set_def recover_started_set_def recover_leased_where_def
        recover_started_where_def)
  have ids: "set ?ids = eID ` {e \<in> set (emails ?d). waiting e}"
    by (rule pending_all) (use assms(4) in \<open>simp add: emails_sweep filter_map comp_def w\<close>)
  obtain s' where s': "recover_loop env 0 ?ids (s\<lparr>sdb := ?d\<rparr>) = (s', [])"
    "emails (sdb s') = map (\<lambda>e. if eID e \<in> set ?ids then e\<lparr>eQueueRecoveryPending := False\<rparr> else e) (emails ?d)"
    "opIDText env ` set ?ids \<subseteq> set (pending (squeue s'))"
    using recover_loop_runs [OF assms(2,3), of 0 ?ids "s\<lparr>sdb := ?d\<rparr>"] by auto
  have "RecoverSending env s = (s', Inr ())"
    using assms(1,2) s'(1)
    by (simp add: RecoverSending_def op_db_def op_read_def RecoverExpiredSendAttempts_def Let_def)
  moreover have "\<not> waiting e" if "e \<in> set (emails (sdb s'))" for e
    using that unfolding s'(2) ids by (auto simp: waiting_def)
  moreover have "opIDText env (eID e) \<in> set (pending (squeue s'))"
    if "e \<in> set (emails (sdb s))" "waiting e \<or> recover_leased_where ?now e" for e
  proof -
    have "?f e \<in> set (emails ?d)" "waiting (?f e)" using that by (auto simp: emails_sweep w)
    then have "eID (?f e) \<in> set ?ids" unfolding ids by blast
    then show ?thesis using s'(3) unfolding w(2) by auto
  qed
  ultimately show ?thesis by blast
qed

section \<open>Dead letters\<close>

lemma op_db_unchanged: "fst (f (sdb s)) = sdb s \<Longrightarrow> fst (op_db env st f s) = s"
  using run_call_state [of "opFault env st" f "sdb s"] by (auto simp: op_db_def split: prod.splits)

lemma exec_one_no_row: "rows_affected p (emails d) = 0 \<Longrightarrow> fst (exec_one p f d) = d"
  by (simp add: rows_affected_0_update)

lemma prepared_row:
  assumes "keyed eID (emails d)" and "PrepareDeadLetterReplay team i token d = (d1, Inr True)"
  shows "\<exists>e. email_at d i = Some e \<and> PrepareDeadLetterReplay_where team i e \<and>
    email_at d1 i = Some (PrepareDeadLetterReplay_set token e) \<and> keyed eID (emails d1)"
proof -
  let ?p = "PrepareDeadLetterReplay_where team i" and ?f = "PrepareDeadLetterReplay_set token"
  have d1: "d1 = d\<lparr>emails := sql_update ?p ?f (emails d)\<rparr>" and n: "rows_affected ?p (emails d) = 1"
    using assms(2) by (auto simp: PrepareDeadLetterReplay_def exec_one_def exec_emails_def)
  have id: "eID (?f e) = eID e" for e by (simp add: PrepareDeadLetterReplay_set_def)
  obtain e where e: "e \<in> set (emails d)" "?p e"
    using n rows_affected_0_iff [of ?p "emails d"] by (auto simp del: rows_affected_0_iff)
  then have "email_at d i = Some e"
    using keyed_by_key [OF assms(1) e(1)] by (simp add: email_at_def PrepareDeadLetterReplay_where_def)
  then show ?thesis
    using e(2) assms(1) by (simp add: d1 email_at_update [OF id] keyed_sql_update [where key = eID, OF id])
qed

lemma rollback_row:
  assumes "keyed eID (emails d)" and "email_at d i = Some e" and "CancelDeadLetterReplay_where i token e"
  shows "CancelDeadLetterReplay i token d = (d\<lparr>emails := sql_update (CancelDeadLetterReplay_where i token) fail_row (emails d)\<rparr>, Inr True) \<and>
    email_at (fst (CancelDeadLetterReplay i token d)) i = Some (fail_row e)"
proof -
  have id: "eID (fail_row x) = eID x" for x by (simp add: fail_row_def)
  have "rows_affected (CancelDeadLetterReplay_where i token) (emails d) = 1"
    using assms by (subst rows_affected_keyed(1) [where key = eID and k = i])
      (auto simp: email_at_def CancelDeadLetterReplay_where_def)
  then show ?thesis
    using assms(2,3) by (simp add: CancelDeadLetterReplay_def exec_one_def exec_emails_def email_at_update [OF id])
qed

lemma op_event_frame:
  "squeue (op_event env i name data s) = squeue s" "email_at (sdb (op_event env i name data s)) j = email_at (sdb s) j"
proof -
  have e: "emails (fst (AddEvent ev d)) = emails d" for ev d by (simp add: AddEvent_def)
  show "squeue (op_event env i name data s) = squeue s" by (simp add: op_event_def op_db_state)
  show "email_at (sdb (op_event env i name data s)) j = email_at (sdb s) j"
    unfolding op_event_def
    using op_db_state(2) [of env OsEvent "AddEvent \<lparr>evID = opEventID env, evEmailID = i, evEvent = name,
       evData = (case opMarshalData env data of Some j \<Rightarrow> j | None \<Rightarrow> ''null'')\<rparr>" s]
    by (elim disjE) (simp_all add: email_at_def e)
qed

text \<open>The outcomes of a replay, one per way it can end.\<close>

lemma ReplayDeadLetter_cases:
  assumes "ReplayDeadLetter env team i s = (s', r)" and "opAttemptRepo env"
  obtains (unread) er where "s' = s" "r = Inl (OpDB er)"
  | (ambiguous) m where "s' = s" "r = Inl (OpRefused m)"
  | (unprepared) er where "r = Inl (OpDB er)"
      "s' = fst (op_db env OsPrepare (PrepareDeadLetterReplay team i (opToken env)) s)"
  | (not_dead) m where "r = Inl (OpRefused m)"
      "op_db env OsPrepare (PrepareDeadLetterReplay team i (opToken env)) s = (s', Inr False)"
  | (queue) er s1 s2 e where "op_db env OsPrepare (PrepareDeadLetterReplay team i (opToken env)) s = (s1, Inr True)"
      "op_queue env OsReplay (ReplayDead (opIDText env i)) s1 = (s2, Inl er)"
      "rollback_replay env i er s2 = (s', e)" "r = Inl e"
  | (replayed) s1 s2 where "op_db env OsPrepare (PrepareDeadLetterReplay team i (opToken env)) s = (s1, Inr True)"
      "op_queue env OsReplay (ReplayDead (opIDText env i)) s1 = (s2, Inr ())" "r = Inr ()"
      "s' = op_event env i ''email.requeued'' [(''reason'', JString ''manual_dead_letter_replay'')] s2"
proof (cases "op_read env OsGet (GetByIDForTeam team i) s")
  case (Inr email)
  let ?p = "op_db env OsPrepare (PrepareDeadLetterReplay team i (opToken env)) s"
  obtain s1 a where p: "?p = (s1, a)" by (cases ?p)
  obtain s2 b where q: "op_queue env OsReplay (ReplayDead (opIDText env i)) s1 = (s2, b)"
    by (cases "op_queue env OsReplay (ReplayDead (opIDText env i)) s1")
  show ?thesis
  proof (cases "eStatus email = EmailStatusAmbiguous \<or> eSendAttemptState email = SendAttemptAmbiguous")
    case True
    with Inr assms(1) show ?thesis by (auto simp: ReplayDeadLetter_def intro: ambiguous)
  next
    case False
    with Inr assms p q unprepared not_dead queue replayed show ?thesis
      by (auto simp: ReplayDeadLetter_def prepare_replay_def split: sum.splits bool.splits prod.splits)
  qed
qed (use assms unread in \<open>auto simp: ReplayDeadLetter_def\<close>)

lemma replay_rollback:
  assumes "keyed eID (emails (sdb s))" and "opAttemptRepo env"
    and "op_db env OsPrepare (PrepareDeadLetterReplay team i (opToken env)) s = (s1, Inr True)"
    and "op_queue env OsReplay (ReplayDead (opIDText env i)) s1 = (s2, Inl er)"
    and "rollback_replay env i er s2 = (s', x)"
  shows "x = OpQueue er \<and> (\<exists>e. email_at (sdb s') i = Some (fail_row e)) \<or> (\<exists>y. x = OpReplayNotRolledBack er (Some y))"
proof -
  obtain e where e: "email_at (sdb s1) i = Some (PrepareDeadLetterReplay_set (opToken env) e)" "keyed eID (emails (sdb s1))"
      "eID e = i"
    using prepared_row [OF assms(1) op_db_Inr [OF assms(3), THEN conjunct1]] by (auto simp: PrepareDeadLetterReplay_where_def)
  have s2: "sdb s2 = sdb s1" using op_queue_state(1) [of env OsReplay "ReplayDead (opIDText env i)" s1] assms(4) by simp
  have "CancelDeadLetterReplay_where i (opToken env) (PrepareDeadLetterReplay_set (opToken env) e)"
    using e(3) by (simp add: CancelDeadLetterReplay_where_def PrepareDeadLetterReplay_set_def)
  from rollback_row [OF e(2,1) this] have "CancelDeadLetterReplay i (opToken env) (sdb s2) =
      (fst (CancelDeadLetterReplay i (opToken env) (sdb s2)), Inr True)"
    "email_at (fst (CancelDeadLetterReplay i (opToken env) (sdb s2))) i =
      Some (fail_row (PrepareDeadLetterReplay_set (opToken env) e))"
    unfolding s2 by auto
  then show ?thesis
    using assms(2,5) by (cases "opFault env OsRollback") (auto simp: rollback_replay_def op_db_def split: prod.splits)
qed

text \<open>A replay of a dead letter is all or nothing. On success the message was a failed one of this team,
  is queued again without an attempt, and its id is pending in the queue. A refusal
  changes nothing. When the queue refuses and the service reports just that, the row is failed
  again; only a failing rollback leaves it otherwise, and that is reported as such. Nobody else takes
  the row between the two statements, so the rollback never finds it owned by another replay.\<close>

theorem replay_all_or_nothing:
  assumes "ReplayDeadLetter env team i s = (s', r)" and "opAttemptRepo env" and "keyed eID (emails (sdb s))"
  shows "(r = Inr () \<longrightarrow> (\<exists>e e'. email_at (sdb s) i = Some e \<and> eTeamID e = team \<and> eStatus e = EmailStatusFailed \<and>
      email_at (sdb s') i = Some e' \<and> eStatus e' = EmailStatusQueued \<and> eSendAttemptState e' = SendAttemptNone \<and>
      opIDText env i \<in> set (pending (squeue s')))) \<and>
    (\<forall>m. r = Inl (OpRefused m) \<longrightarrow> s' = s) \<and>
    (\<forall>er. r = Inl (OpQueue er) \<longrightarrow> (\<exists>e'. email_at (sdb s') i = Some e' \<and> eStatus e' = EmailStatusFailed \<and>
      eSendAttemptState e' = SendAttemptFailedTerminal)) \<and>
    (\<forall>er. r \<noteq> Inl (OpReplayNotRolledBack er None))"
  using assms(1,2)
proof (cases rule: ReplayDeadLetter_cases)
  case (not_dead m)
  have "rows_affected (PrepareDeadLetterReplay_where team i) (emails (sdb s)) \<le> 1"
    by (rule rows_affected_keyed(2) [OF assms(3), where k = i]) (simp add: PrepareDeadLetterReplay_where_def)
  moreover have "snd (PrepareDeadLetterReplay team i (opToken env) (sdb s)) = Inr False"
    using op_db_Inr [OF not_dead(2)] by simp
  ultimately have "rows_affected (PrepareDeadLetterReplay_where team i) (emails (sdb s)) = 0"
    by (simp add: PrepareDeadLetterReplay_def)
  then have "fst (PrepareDeadLetterReplay team i (opToken env) (sdb s)) = sdb s"
    by (simp add: PrepareDeadLetterReplay_def exec_one_no_row del: exec_one_simps)
  with not_dead op_db_unchanged [of "PrepareDeadLetterReplay team i (opToken env)" s env OsPrepare]
  show ?thesis by simp
next
  case (queue er s1 s2 e)
  from replay_rollback [OF assms(3,2) queue(1-3)] queue(4) show ?thesis by (auto simp: fail_row_def)
next
  case (replayed s1 s2)
  obtain e where e: "email_at (sdb s) i = Some e" "PrepareDeadLetterReplay_where team i e"
    "email_at (sdb s1) i = Some (PrepareDeadLetterReplay_set (opToken env) e)"
    using prepared_row [OF assms(3) op_db_Inr [OF replayed(1), THEN conjunct1]] by blast
  have "sdb s2 = sdb s1" using op_queue_state(1) [of env OsReplay "ReplayDead (opIDText env i)" s1] replayed(2) by simp
  moreover have "squeue s2 = fst (ReplayDead (opIDText env i) (squeue s1))" "snd (ReplayDead (opIDText env i) (squeue s1)) = Inr ()"
    using op_queue_Inr [OF replayed(2)] by simp_all
  then have "opIDText env i \<in> set (pending (squeue s2))" by (simp add: ReplayDead_def split: if_splits)
  ultimately show ?thesis using e replayed(3,4)
    by (simp add: op_event_frame PrepareDeadLetterReplay_where_def PrepareDeadLetterReplay_set_def)
qed simp_all

section \<open>Batches\<close>

text \<open>The e-mail table grows at its end, and no statement of a send changes identity, key or digest
  of a row, so a key keeps leading to the same message.\<close>

definition grows :: "Email list \<Rightarrow> Email list \<Rightarrow> bool" where
  "grows rows rows' \<longleftrightarrow> (\<exists>f ext. rows' = map f rows @ ext \<and>
     (\<forall>e. eID (f e) = eID e \<and> eTeamID (f e) = eTeamID e \<and> eIdempotencyKey (f e) = eIdempotencyKey e \<and>
        eIdempotencyHash (f e) = eIdempotencyHash e))"

lemma grows_refl [simp]: "grows rows rows"
  unfolding grows_def by (intro exI [of _ id] exI [of _ "[]"]) simp

lemma grows_append: "grows rows (rows @ ext)"
  unfolding grows_def by (intro exI [of _ id] exI [of _ ext]) simp

lemma grows_trans:
  assumes "grows a b" and "grows b c"
  shows "grows a c"
proof -
  from assms obtain f x g y where "b = map f a @ x" "c = map g b @ y"
    "\<forall>e. eID (f e) = eID e \<and> eTeamID (f e) = eTeamID e \<and> eIdempotencyKey (f e) = eIdempotencyKey e \<and>
        eIdempotencyHash (f e) = eIdempotencyHash e"
    "\<forall>e. eID (g e) = eID e \<and> eTeamID (g e) = eTeamID e \<and> eIdempotencyKey (g e) = eIdempotencyKey e \<and>
        eIdempotencyHash (g e) = eIdempotencyHash e"
    unfolding grows_def by blast
  then show ?thesis unfolding grows_def by (intro exI [of _ "g \<circ> f"] exI [of _ "map g x @ y"]) simp
qed

lemma grows_UpdateStatus: "grows (emails d) (emails (fst (UpdateStatus now i st d)))"
  unfolding grows_def UpdateStatus_def sql_update_def
  by (intro exI [of _ "\<lambda>e. if eID e = i then UpdateStatus_set now st e else e"] exI [of _ "[]"])
    (simp add: UpdateStatus_set_def)

lemma find_map_same: "(\<And>x. P (f x) = P x) \<Longrightarrow> find P (map f xs) = map_option f (find P xs)"
  by (induction xs) auto

lemma lookup_grows:
  assumes "grows (emails d) (emails d')" and "GetByIdempotencyKey team key d = Inr e"
  shows "\<exists>e'. GetByIdempotencyKey team key d' = Inr e' \<and> eID e' = eID e \<and> eIdempotencyHash e' = eIdempotencyHash e"
proof -
  obtain f ext where f: "emails d' = map f (emails d) @ ext"
    "\<And>e. eID (f e) = eID e" "\<And>e. eTeamID (f e) = eTeamID e" "\<And>e. eIdempotencyKey (f e) = eIdempotencyKey e"
    "\<And>e. eIdempotencyHash (f e) = eIdempotencyHash e"
    using assms(1) unfolding grows_def by blast
  have find: "find P (emails d) = Some x \<Longrightarrow> find P (emails d') = Some (f x)" if "\<And>x. P (f x) = P x" for P x
    by (simp add: f(1) find_append find_map_same that)
  obtain y where y: "find (\<lambda>e. eTeamID e = team \<and> eIdempotencyKey e = Some key) (emails d) = Some y"
    "find (\<lambda>e. eID e = eID y \<and> eTeamID e = team) (emails d) = Some e"
    using assms(2) by (auto simp: GetByIdempotencyKey_def GetByIDForTeam_def split: option.splits)
  show ?thesis
    using find [OF _ y(1)] find [OF _ y(2)] f(2-5) by (simp add: GetByIdempotencyKey_def GetByIDForTeam_def)
qed

lemma commit_send_frame:
  assumes "commit_send env team req headers key h reserved s = (s', x)"
  shows "grows (emails (sdb s)) (emails (sdb s')) \<and> sdomains s' = sdomains s \<and> sbatches s' = sbatches s"
proof -
  let ?e = "new_email env team req headers key h"
  let ?c = "db_step env SeCreate (EmailRepo_Create (seNow env) ?e) s"
  obtain s1 a where c: "?c = (s1, a)" by (cases ?c)
  obtain s2 b where q: "enqueue_email env ?e s1 = (s2, b)" by (cases "enqueue_email env ?e s1")
  let ?u = "db_step env SeStatus (UpdateStatus (seNow env) (eID ?e) EmailStatusFailed) s2"
  have keep: "sdomains (fst (db_step env st f z)) = sdomains z" "sbatches (fst (db_step env st f z)) = sbatches z"
    "sdb (fst (db_step env st f z)) = sdb z \<or> sdb (fst (db_step env st f z)) = fst (f (sdb z))"
    for st z and f :: "db \<Rightarrow> db \<times> 'x result"
    using run_call_state [of "seFault env st" f "sdb z"] by (auto simp: db_step_def split: prod.splits)
  have 1: "grows (emails (sdb s)) (emails (sdb s1))"
    using keep(3) [of SeCreate "EmailRepo_Create (seNow env) ?e" s] c grows_append
    by (auto simp: EmailRepo_Create_def)
  have 2: "sdb s2 = sdb s1" "sdomains s2 = sdomains s1" "sbatches s2 = sbatches s1"
    using q by (auto simp: enqueue_email_def split: prod.splits)
  have 3: "grows (emails (sdb s2)) (emails (sdb (fst ?u)))"
    using keep(3) [of SeStatus "UpdateStatus (seNow env) (eID ?e) EmailStatusFailed" s2] grows_UpdateStatus
    by (metis grows_refl)
  have 4: "sdomains s1 = sdomains s" "sbatches s1 = sbatches s"
    using keep(1,2) [of SeCreate "EmailRepo_Create (seNow env) ?e" s] c by auto
  let ?l = "log_event env (eID ?e) ''email.failed'' queue_unavailable (fst ?u)"
  have 5: "sdomains ?l = sdomains s2" "sbatches ?l = sbatches s2" "emails (sdb ?l) = emails (sdb (fst ?u))"
    by (simp_all add: log_event_emails) (simp_all add: log_event_def keep)
  have "s' = s2 \<or> s' = release_quota env team (int (recipient_count req)) reserved s1 \<or>
      s' = release_quota env team (int (recipient_count req)) reserved ?l"
    using assms c q by (auto simp: commit_send_def Let_def split: sum.splits idem_answer.splits)
  then show ?thesis
    using 1 2 3 4 5 grows_trans [OF 1, of "emails (sdb ?l)"] by (auto simp: release_quota_def)
qed

lemma send_frame:
  assumes "send env team (Some req) key s = (s', x)"
  shows "grows (emails (sdb s)) (emails (sdb s')) \<and> sdomains s' = sdomains s \<and> sbatches s' = sbatches s"
  using assms
proof (cases rule: send_cases)
  case (quota er req1 req headers)
  from quota(2) show ?thesis
    by (auto simp: reserve_quota_def split: if_splits option.splits prod.splits sum.splits bool.splits)
next
  case (commit req1 req headers reserved s1)
  from commit(2) have "sdb s1 = sdb s" "sdomains s1 = sdomains s" "sbatches s1 = sbatches s"
    by (auto simp: reserve_quota_def split: if_splits option.splits prod.splits sum.splits bool.splits)
  with commit_send_frame [OF commit(3)] show ?thesis by simp
qed simp_all

text \<open>A send that answers with a message has its row under the key, with the digest of the request.\<close>

lemma send_settled:
  assumes "send env team (Some req0) key s = (s', Inr (r, b))" and "key \<noteq> []"
  shows "\<exists>req1 e. validate_head env team req0 s = Inr req1 \<and> length key \<le> 255 \<and> \<not> ContainsAny key CRLF \<and>
    GetByIdempotencyKey team key (sdb s') = Inr e \<and> eID e = respID r \<and> eIdempotencyHash e = Some (seHash env req1)"
  using assms(1)
proof (cases rule: send_cases)
  case (replay r' req1)
  from replay(4) assms(2) have "length key \<le> 255 \<and> \<not> ContainsAny key CRLF \<and>
      (\<exists>e. GetByIdempotencyKey team key (sdb s) = Inr e \<and> eID e = respID r' \<and> eIdempotencyHash e = Some (seHash env req1))"
    by (cases "seFault env SeIdempotency")
      (auto simp: check_idempotency_def compare_hash_def split: if_splits sum.splits db_error.splits)
  with replay show ?thesis by auto
next
  case (commit req1 req headers reserved s1)
  have key: "length key \<le> 255" "\<not> ContainsAny key CRLF" using admitted_key [OF commit(1) assms(2)] by auto
  have h: "validate_head env team req0 s = Inr req1" using commit(1) by (simp add: admitted_def)
  have "\<exists>e. GetByIdempotencyKey team key (sdb s') = Inr e \<and> eID e = respID r \<and> eIdempotencyHash e = Some (seHash env req1)"
  proof (cases b)
    case True
    let ?n = "new_email env team req headers key (seHash env req1)"
    let ?e = "new_row (seNow env) ?n"
    have "commit_send env team req headers key (seHash env req1) reserved s1 = (s', Inr (r, True))"
      using commit(3) True by simp
    note new = commit_send_new [OF this]
    have f: "eID ?e = seID env" "eID ?e = eID ?n" "eTeamID ?n = team" "eTeamID ?e = team" "eIdempotencyKey ?n = Some key"
      "eIdempotencyKey ?e = Some key" "eIdempotencyHash ?e = Some (seHash env req1)"
      using assms(2) by (simp_all add: new_row_def new_email_def blank_email_def)
    have "GetByIdempotencyKey team key (sdb s') = Inr ?e"
      using lookup_key [of ?n "emails (sdb s1)" key "sdb s'" ?e] new f by simp
    then show ?thesis using f new by auto
  next
    case False
    let ?c = "db_step env SeCreate (EmailRepo_Create (seNow env) (new_email env team req headers key (seHash env req1))) s1"
    obtain s2 a where c: "?c = (s2, a)" by (cases ?c)
    have "\<exists>y. a = Inl y" using commit(3) c False
      by (auto simp: commit_send_def Let_def split: sum.splits prod.splits)
    then obtain y where a: "a = Inl y" by blast
    show ?thesis
      using commit(3) False c a assms(2)
      by (cases "seFault env SeIdempotency2")
        (auto simp: commit_send_def Let_def compare_hash_def release_quota_def split: sum.splits if_splits)
  qed
  with h key show ?thesis by blast
qed simp_all

definition as_replay :: "EmailResponse \<Rightarrow> EmailResponse" where
  "as_replay r = \<lparr>respID = respID r, respIdempotent = True\<rparr>"

lemma replay_item:
  assumes "SendWithIdempotency env team req key s = (s1, Inr (r, b))" and "TrimSpace key \<noteq> []"
    and "grows (emails (sdb s1)) (emails (sdb s2))" and "sdomains s2 = sdomains s1"
  shows "SendWithIdempotency (later_env env t i) team req key s2 = (s2, Inr (as_replay r, False))"
proof -
  let ?k = "TrimSpace key"
  obtain req0 where req: "req = Some req0"
    using assms(1) by (cases req) (simp_all add: SendWithIdempotency_def)
  have run: "send env team (Some req0) ?k s = (s1, Inr (r, b))" using assms(1) by (simp add: SendWithIdempotency_def req)
  obtain req1 e where e: "validate_head env team req0 s = Inr req1" "length ?k \<le> 255" "\<not> ContainsAny ?k CRLF"
    "GetByIdempotencyKey team ?k (sdb s1) = Inr e" "eID e = respID r" "eIdempotencyHash e = Some (seHash env req1)"
    using send_settled [OF run assms(2)] by blast
  obtain e' where e': "GetByIdempotencyKey team ?k (sdb s2) = Inr e'" "eID e' = eID e"
    "eIdempotencyHash e' = eIdempotencyHash e"
    using lookup_grows [OF assms(3) e(4)] by blast
  have "sdomains s2 = sdomains s" using send_frame [OF run] assms(4) by simp
  from replay_answer [OF e(1) this assms(2) e(2,3) e'(1)] e'(2,3) e(5,6) show ?thesis
    by (simp add: SendWithIdempotency_def as_replay_def req)
qed

lemma send_items_frame:
  "send_items envs team keys n reqs s = (s', rs, f) \<Longrightarrow>
   grows (emails (sdb s)) (emails (sdb s')) \<and> sdomains s' = sdomains s \<and> sbatches s' = sbatches s"
proof (induction reqs arbitrary: n s rs f)
  case (Cons req reqs)
  obtain s1 a where a: "SendWithIdempotency (envs n) team req (keys n) s = (s1, a)"
    by (cases "SendWithIdempotency (envs n) team req (keys n) s")
  then have 1: "grows (emails (sdb s)) (emails (sdb s1)) \<and> sdomains s1 = sdomains s \<and> sbatches s1 = sbatches s"
    unfolding SendWithIdempotency_def by (cases req) (auto dest: send_frame simp: grows_refl)
  show ?case
  proof (cases a)
    case (Inr x)
    with Cons.prems a obtain rs' where "send_items envs team keys (Suc n) reqs s1 = (s', rs', f)"
      by (auto split: prod.splits)
    from Cons.IH [OF this] 1 show ?thesis using grows_trans by auto
  qed (use Cons.prems a 1 in auto)
qed simp

lemma send_items_resume:
  assumes "send_items envs team keys n reqs s = (s', rs, f)" and "\<And>n. TrimSpace (keys n) \<noteq> []"
    and "grows (emails (sdb s')) (emails (sdb s2))" and "sdomains s2 = sdomains s'"
    and "later = (\<lambda>n. later_env (envs n) (t n) (u n))"
  shows "length rs \<le> length reqs \<and> (f = None \<longrightarrow> length rs = length reqs) \<and>
    send_items later team keys n reqs s2 =
      (case send_items later team keys (n + length rs) (drop (length rs) reqs) s2 of
         (s3, rs2, f2) \<Rightarrow> (s3, map as_replay rs @ rs2, f2))"
  using assms(1)
proof (induction reqs arbitrary: n s rs)
  case (Cons req reqs)
  obtain s1 a where a: "SendWithIdempotency (envs n) team req (keys n) s = (s1, a)"
    by (cases "SendWithIdempotency (envs n) team req (keys n) s")
  show ?case
  proof (cases a)
    case (Inl er)
    with Cons.prems a show ?thesis by (auto split: prod.splits)
  next
    case (Inr x)
    then obtain r b where x: "a = Inr (r, b)" by (cases x) simp
    with Cons.prems a obtain rs' where rs: "send_items envs team keys (Suc n) reqs s1 = (s', rs', f)" "rs = r # rs'"
      by (auto split: prod.splits)
    note fr = send_items_frame [OF rs(1)]
    have "SendWithIdempotency (later n) team req (keys n) s2 = (s2, Inr (as_replay r, False))"
      using replay_item [OF a [unfolded x] assms(2) grows_trans [OF _ assms(3)]] fr assms(4,5) by simp
    with Cons.IH [OF rs(1)] rs(2) show ?thesis by (auto split: prod.splits)
  qed
qed (auto split: prod.splits)

lemma dropWhile_keeps: "c \<in> set s \<Longrightarrow> \<not> P c \<Longrightarrow> c \<in> set (dropWhile P s)"
  by (induction s) auto

lemma TrimSpace_keeps:
  assumes "c \<in> set s" and "\<not> is_space c"
  shows "TrimSpace s \<noteq> []"
proof -
  have "c \<in> set (TrimSpace s)"
    using assms by (simp add: TrimSpace_def TrimLeft_def dropWhile_keeps)
  then show ?thesis by auto
qed

lemma batch_item_key: "TrimSpace (batchItemIdempotencyKey digest k n) \<noteq> []"
proof -
  have "\<not> is_space (CHR '':'')" "\<not> is_space (CHR ''b'')" by code_simp+
  then show ?thesis
    using TrimSpace_keeps [of "CHR '':''" "k @ '':'' @ decimal n"]
      TrimSpace_keeps [of "CHR ''b''" "''batch:'' @ digest (k @ '':'' @ decimal n)"]
    by (simp add: batchItemIdempotencyKey_def Let_def)
qed

lemma Ensure_Inr:
  assumes "Ensure env team key h s = (s1, Inr b)"
  shows "sbatches s1 (team, key) = Some h \<and> sdb s1 = sdb s \<and> sdomains s1 = sdomains s"
  using assms by (cases "seFault env SeBatch")
    (auto simp: Ensure_def batch_insert_def split: option.splits if_splits)

lemma Ensure_again:
  assumes "sbatches s (team, key) = Some h"
  shows "Ensure (later_env env t i) team key h s = (s, Inr False)"
  using assms by (simp add: Ensure_def batch_insert_def later_env_def)

text \<open>C14: A batch can be resumed with its key. However far the first run got, the second run of the same
  batch answers the items it had accepted as replays with the same ids, without any change, and
  goes on with the next item; in particular a batch that had been accepted whole is answered whole and
  nothing changes.\<close>

theorem batch_resumes:
  assumes "BatchSend envs repo team reqs key s = (s', rs, f)"
    and "f = None \<or> (\<exists>n er. f = Some (BatchSendError n er))"
    and "later = (\<lambda>n. later_env (envs n) (t n) (u n))"
  shows "BatchSend later repo team reqs key s' =
      (case send_items later team (batchItemIdempotencyKey (seDigest (envs 0)) (TrimSpace key)) (length rs)
              (drop (length rs) reqs) s' of
         (s2, rs2, f2) \<Rightarrow> (s2, map as_replay rs @ rs2, f2)) \<and>
    (f = None \<longrightarrow> BatchSend later repo team reqs key s' = (s', map as_replay rs, None))"
proof -
  let ?keys = "batchItemIdempotencyKey (seDigest (envs 0)) (TrimSpace key)"
  let ?h = "seBatchHash (envs 0) reqs"
  have env: "seDigest (later 0) = seDigest (envs 0)" "seBatchHash (later 0) reqs = ?h"
    using assms(3) by (simp_all add: later_env_def)
  have ok: "length reqs \<le> 100" "TrimSpace key \<noteq> []" "length (TrimSpace key) \<le> 255" "\<not> ContainsAny (TrimSpace key) CRLF"
    using assms(1,2) by (auto simp: BatchSend_def Let_def split: if_splits)
  obtain s1 where s1: "send_items envs team ?keys 0 reqs s1 = (s', rs, f)"
    "repo \<longrightarrow> sbatches s1 (team, TrimSpace key) = Some ?h"
  proof (cases repo)
    case True
    then obtain s1 b where "Ensure (envs 0) team (TrimSpace key) ?h s = (s1, Inr b)"
      "send_items envs team ?keys 0 reqs s1 = (s', rs, f)"
      using assms(1,2) ok
      by (auto simp: BatchSend_def Let_def split: sum.splits prod.splits batch_error.splits)
    with that Ensure_Inr show ?thesis by blast
  qed (use assms(1) ok that in \<open>auto simp: BatchSend_def Let_def\<close>)
  have "repo \<longrightarrow> Ensure (later 0) team (TrimSpace key) ?h s' = (s', Inr False)"
    using s1(2) send_items_frame [OF s1(1)] Ensure_again unfolding assms(3) by auto
  then have "BatchSend later repo team reqs key s' = send_items later team ?keys 0 reqs s'"
    using ok env by (simp add: BatchSend_def Let_def)
  moreover note send_items_resume [OF s1(1) batch_item_key grows_refl refl assms(3)]
  ultimately show ?thesis by auto
qed

section \<open>Examples\<close>

definition demo_ops :: ops_env where
  "demo_ops = \<lparr>opFault = (\<lambda>_. NoFault), opNow = (\<lambda>_. 100), opEventID = 21, opOutboxID = 22, opToken = 23,
     opParse = (\<lambda>t. Some (length t)), opIDText = (\<lambda>i. replicate i (CHR ''x'')),
     opMarshalEmail = (\<lambda>_. Some ''{}''), opMarshalData = (\<lambda>_. Some ''{}''),
     opAttemptRepo = True, opPipelineRepo = True\<rparr>"

definition demo_rows :: "Email list \<Rightarrow> string list \<Rightarrow> service" where
  "demo_rows rows dl = demo_service\<lparr>sdb := empty_db\<lparr>emails := rows\<rparr>, squeue := empty_redis\<lparr>dead := dl\<rparr>\<rparr>"

theorem list_pages_complete_witness:
  "\<exists>r0 r1. service_List demo_ops 9 2 0 (demo_rows [blank_email 1 9, blank_email 2 8, blank_email 3 9, blank_email 4 9] []) = Inr r0 \<and>
     service_List demo_ops 9 2 2 (demo_rows [blank_email 1 9, blank_email 2 8, blank_email 3 9, blank_email 4 9] []) = Inr r1 \<and>
     map liID (elData r0 @ elData r1) = [1, 3, 4]"
proof -
  let ?s = "demo_rows [blank_email 1 9, blank_email 2 8, blank_email 3 9, blank_email 4 9] []"
  have nf: "opFault demo_ops = (\<lambda>_. NoFault)" by (simp add: demo_ops_def)
  have sorted: "newest_first (team_rows 9 (sdb ?s)) = [blank_email 1 9, blank_email 3 9, blank_email 4 9]"
    by (simp add: newest_first_def team_rows_def demo_rows_def blank_email_def)
  obtain pages where p: "\<And>p. p < 2 \<Longrightarrow> service_List demo_ops 9 2 (int p * 2) ?s = Inr (pages p)"
    "concat (map (\<lambda>p. elData (pages p)) [0..<2]) = map list_item [blank_email 1 9, blank_email 3 9, blank_email 4 9]"
    using list_pages_complete [of 2 demo_ops 2 9 ?s, OF _ _ nf] unfolding sorted by auto
  have "elData (pages 0) @ elData (pages 1) = map list_item [blank_email 1 9, blank_email 3 9, blank_email 4 9]"
    using p(2) by (simp add: upt_rec)
  then have "map liID (elData (pages 0) @ elData (pages 1)) = [1, 3, 4]"
    by (simp only:) (simp add: list_item_def blank_email_def)
  then show ?thesis using p(1) [of 0] p(1) [of 1] by auto
qed

theorem recovery_loses_nothing_witness:
  "on_its_way demo_ops 1 (fst (RecoverSending demo_ops
     (demo_rows [(blank_email 1 9)\<lparr>eQueueRecoveryPending := True\<rparr>] [])))"
proof -
  let ?e = "(blank_email 1 9)\<lparr>eQueueRecoveryPending := True\<rparr>"
  let ?s = "demo_rows [?e] []"
  have "email_at (sdb ?s) 1 = Some ?e" "eStatus ?e = EmailStatusQueued" "\<not> recover_leased_where 100 ?e"
    by (simp_all add: email_at_def demo_rows_def blank_email_def recover_leased_where_def)
  with recovery_loses_nothing [of demo_ops ?s "fst (RecoverSending demo_ops ?s)" "snd (RecoverSending demo_ops ?s)" 1 ?e]
  show ?thesis by (simp add: demo_ops_def)
qed

theorem recovery_completes_witness:
  "\<exists>s'. RecoverSending demo_ops (demo_rows [(blank_email 1 9)\<lparr>eQueueRecoveryPending := True\<rparr>] []) = (s', Inr ()) \<and>
     ''x'' \<in> set (pending (squeue s'))"
proof -
  let ?e = "(blank_email 1 9)\<lparr>eQueueRecoveryPending := True\<rparr>"
  let ?s = "demo_rows [?e] []"
  have rows: "emails (sdb ?s) = [?e]" "waiting ?e" by (simp_all add: demo_rows_def waiting_def blank_email_def)
  have c: "opAttemptRepo demo_ops" "opFault demo_ops = (\<lambda>_. NoFault)" "\<And>j. opParse demo_ops (opIDText demo_ops j) = Some j"
    "opIDText demo_ops (eID ?e) = ''x''"
    by (simp_all add: demo_ops_def blank_email_def)
  have small: "length (filter (\<lambda>e. waiting e \<or> recover_leased_where (opNow demo_ops OsSweep) e) (emails (sdb ?s))) \<le> 5000"
    unfolding rows(1) by simp
  from recovery_completes [of demo_ops ?s, OF c(1-3) small] show ?thesis unfolding rows(1)
    using rows(2) c(4) by auto
qed

theorem replay_all_or_nothing_witness:
  "\<exists>s' e'. ReplayDeadLetter demo_ops 9 1 (demo_rows [(blank_email 1 9)\<lparr>eStatus := EmailStatusFailed\<rparr>] [''x'']) = (s', Inr ()) \<and>
     email_at (sdb s') 1 = Some e' \<and> eStatus e' = EmailStatusQueued"
proof -
  let ?s = "demo_rows [(blank_email 1 9)\<lparr>eStatus := EmailStatusFailed\<rparr>] [''x'']"
  have "snd (ReplayDeadLetter demo_ops 9 1 ?s) = Inr ()" by code_simp
  then obtain s' where run: "ReplayDeadLetter demo_ops 9 1 ?s = (s', Inr ())" by (metis prod.collapse)
  have "opAttemptRepo demo_ops" "keyed eID (emails (sdb ?s))" by (simp_all add: demo_ops_def demo_rows_def)
  from replay_all_or_nothing [OF run this] run show ?thesis by auto
qed

theorem batch_resumes_witness:
  "\<exists>s' r. BatchSend (\<lambda>_. demo_send NoFault) False 9 [Some demo_request] ''b'' demo_service = (s', [r], None) \<and>
     BatchSend (\<lambda>_. later_env (demo_send NoFault) 50 77) False 9 [Some demo_request] ''b'' s' = (s', [as_replay r], None)"
proof -
  let ?q = "demo_request\<lparr>rCategory := ''transactional'', rFrom := ''me@x.org''\<rparr>"
  have k: "TrimSpace (batchItemIdempotencyKey (\<lambda>t. t) ''b'' 0) = ''b:0''" "TrimSpace ''b'' = ''b''"
    "\<not> ContainsAny ''b:0'' CRLF" "\<not> ContainsAny ''b'' CRLF"
    by code_simp+
  have dg: "seDigest (demo_send NoFault) = (\<lambda>t. t)" by (simp add: demo_send_def)
  have "snd (commit_send (demo_send NoFault) 9 ?q [] ''b:0'' ''hi'' False demo_service) =
      Inr (\<lparr>respID = 1, respIdempotent = False\<rparr>, True)"
    by code_simp
  moreover have "send (demo_send NoFault) 9 (Some demo_request) ''b:0'' demo_service =
      commit_send (demo_send NoFault) 9 ?q [] ''b:0'' ''hi'' False demo_service"
    by (rule demo_send_commit) (simp, rule k(3))
  ultimately obtain s' where "send (demo_send NoFault) 9 (Some demo_request) ''b:0'' demo_service =
      (s', Inr (\<lparr>respID = 1, respIdempotent = False\<rparr>, True))"
    by (metis prod.collapse)
  then have run: "BatchSend (\<lambda>_. demo_send NoFault) False 9 [Some demo_request] ''b'' demo_service =
      (s', [\<lparr>respID = 1, respIdempotent = False\<rparr>], None)"
    using k by (simp add: BatchSend_def Let_def SendWithIdempotency_def dg)
  from batch_resumes [OF run, of _ "\<lambda>_. 50" "\<lambda>_. 77"] run show ?thesis by auto
qed

end
