(* ===== verification/ProviderEvents.thy ===== *)
theory ProviderEvents
  imports EmailProcessing
begin

text \<open>
  \<open>internal/service/ses_events.go\<close>: a provider callback is stored in the inbox, claimed by the
  handler or by the provider event worker, correlated with a message by provider id or by the
  tags of the send, and applied in one transaction, retried or given up. The older path without an
  inbox is modelled too. Decoding of the callback's JSON and name-based identifiers are
  parameters of the environment; every call to the store may fail before or after it took effect.
\<close>

section \<open>What a callback says\<close>

text \<open>The event name, the status it sets, if any; an unknown type has the empty name.\<close>

definition providerEventDetails :: "string \<Rightarrow> string \<times> EmailStatus option" where
  "providerEventDetails eventType =
     (let canonical = ReplaceByte (CHR '' '') (CHR ''_'') (ToLower (TrimSpace eventType)) in
      if canonical = ''send'' then (''email.sent'', Some EmailStatusSent)
      else if canonical = ''delivery'' then (''email.delivered'', Some EmailStatusDelivered)
      else if canonical = ''bounce'' then (''email.bounced'', Some EmailStatusBounced)
      else if canonical = ''complaint'' then (''email.complained'', Some EmailStatusComplained)
      else if canonical = ''reject'' \<or> canonical = ''rendering_failure'' then (''email.failed'', Some EmailStatusFailed)
      else if canonical = ''open'' then (''email.opened'', Some EmailStatusOpened)
      else if canonical = ''click'' then (''email.clicked'', Some EmailStatusClicked)
      else if canonical = ''deliverydelay'' \<or> canonical = ''delivery_delay'' then (''email.delivery_delay'', None)
      else if canonical = ''subscription'' then (''email.subscription'', None)
      else ([], None))"

datatype ie_site =
    IeStore | IeClaim | IeUnsupported | IeLookup | IeTagged | IeMismatch | IeUncorrelated | IeApply | IeRetry
  | IeStatus | IeSuppress nat | IeHooks | IeEvent

record inbox_env =
  ieFault :: "ie_site \<Rightarrow> fault"
  ieNow :: "ie_site \<Rightarrow> instant"
  ieTags :: "string \<Rightarrow> (string \<Rightarrow> string list) option"
  ieRecipients :: "string \<Rightarrow> (string list \<times> string list) option"
  ieParse :: "string \<Rightarrow> uuid option"
  ieSHA1 :: "uuid \<Rightarrow> string \<Rightarrow> uuid"
  ieMarshal :: "Email \<Rightarrow> string option"
  ieErrText :: "db_error option \<Rightarrow> string"
  ieSupID :: "nat \<Rightarrow> uuid"
  ieDeliveryID :: "uuid \<Rightarrow> uuid"
  ieSuppressionRepo :: bool
  ieWebhookRepo :: bool

datatype ie_error =
    IeIDRequired | IeStoreFailed db_error | IeClaimFailed db_error | IeSettleFailed db_error
  | IeLookupFailed db_error | IeTaggedFailed db_error | IeMarshalFailed | IeApplyFailed db_error
  | ErrProviderEmailNotFound | IeStatusFailed db_error | IeDecodeFailed | IeSuppressFailed db_error
  | IeHooksFailed db_error | IeEventFailed db_error

definition ie_call :: "inbox_env \<Rightarrow> ie_site \<Rightarrow> (instant \<Rightarrow> db \<Rightarrow> db \<times> 'a result) \<Rightarrow> db \<Rightarrow> db \<times> 'a result" where
  "ie_call env st f = run_call (ieFault env st) (f (ieNow env st))"

definition ie_read :: "inbox_env \<Rightarrow> ie_site \<Rightarrow> (db \<Rightarrow> 'a result) \<Rightarrow> db \<Rightarrow> 'a result" where
  "ie_read env st f s = (if ieFault env st = NoFault then f s else Inl ConnFailure)"

definition parseTag :: "inbox_env \<Rightarrow> (string \<Rightarrow> string list) \<Rightarrow> string \<Rightarrow> uuid option" where
  "parseTag env tags name =
     (case tags name of
        [v] \<Rightarrow> (case ieParse env (TrimSpace v) of
                  None \<Rightarrow> None | Some i \<Rightarrow> if i = uuid_Nil then None else Some i)
      | _ \<Rightarrow> None)"

definition providerEventCorrelation :: "inbox_env \<Rightarrow> string \<Rightarrow> uuid option \<times> uuid option" where
  "providerEventCorrelation env data =
     (case ieTags env data of
        None \<Rightarrow> (None, None)
      | Some tags \<Rightarrow> (parseTag env tags ''sender_email_id'', parseTag env tags ''sender_attempt_id''))"

text \<open>The loop over the recipients keeps the first mention of every address; the number is the
  position in the list, for the fresh identifier.\<close>

fun event_suppressions ::
  "inbox_env \<Rightarrow> uuid \<Rightarrow> SuppressionReason \<Rightarrow> nat \<Rightarrow> string list \<Rightarrow> string list \<Rightarrow> Suppression list" where
  "event_suppressions env team reason n seen [] = []"
| "event_suppressions env team reason n seen (a # as) =
     (let email = NormalizeEmail a in
      if email = [] \<or> email \<in> set seen then event_suppressions env team reason (Suc n) seen as
      else \<lparr>supID = ieSupID env n, supTeamID = team, supEmail = email, supReason = reason\<rparr> #
        event_suppressions env team reason (Suc n) (email # seen) as)"

definition event_recipients :: "EmailStatus option \<Rightarrow> string list \<times> string list \<Rightarrow> SuppressionReason \<times> string list" where
  "event_recipients status r =
     (if status = Some EmailStatusComplained then (SuppressionReasonComplaint, snd r)
      else (SuppressionReasonBounce, fst r))"

definition providerEventSuppressions ::
  "inbox_env \<Rightarrow> uuid \<Rightarrow> EmailStatus option \<Rightarrow> string \<Rightarrow> Suppression list" where
  "providerEventSuppressions env team status data =
     (if status \<noteq> Some EmailStatusBounced \<and> status \<noteq> Some EmailStatusComplained then []
      else case ieRecipients env data of
             None \<Rightarrow> []
           | Some r \<Rightarrow> (case event_recipients status r of
                          (reason, as) \<Rightarrow> event_suppressions env team reason 0 [] as))"

section \<open>Retrying\<close>

definition go_zero_time :: instant where
  "go_zero_time = - 62135596800 * second"

definition week :: int where
  "week = 7 * 24 * hour"

definition providerRetryAt :: "instant \<Rightarrow> nat \<Rightarrow> instant" where
  "providerRetryAt now n =
     (let a = (if n < 1 then 1 else n); b = (if a > 8 then 8 else a)
      in now + 2 ^ (b - 1) * second)"

definition providerRetryIsTerminal :: "ProviderEventInbox \<Rightarrow> db_error option \<Rightarrow> instant \<Rightarrow> bool" where
  "providerRetryIsTerminal inbox cause now \<longleftrightarrow>
     cause = Some ErrProviderCorrelationMismatch \<or>
     (ibCreatedAt inbox \<noteq> go_zero_time \<and> now - ibCreatedAt inbox \<ge> week)"

definition retryProviderInbox :: "inbox_env \<Rightarrow> ProviderEventInbox \<Rightarrow> db_error option \<Rightarrow> db \<Rightarrow> db" where
  "retryProviderInbox env inbox cause s =
     fst (ie_call env IeRetry (\<lambda>now. RetryProviderEvent now (ibEventID inbox) (ieErrText env cause)
       (providerRetryAt now (ibAttempts inbox)) (providerRetryIsTerminal inbox cause now)) s)"

text \<open>A statement that settles the inbox row: its error is reported, otherwise the item is done.\<close>

definition settle_inbox ::
  "inbox_env \<Rightarrow> ie_site \<Rightarrow> uuid \<Rightarrow> string \<Rightarrow> (instant \<Rightarrow> instant) \<Rightarrow> (instant \<Rightarrow> bool) \<Rightarrow> db \<Rightarrow> db \<times> (ie_error + bool)" where
  "settle_inbox env st k reason at terminal s =
     (case ie_call env st (\<lambda>now. RetryProviderEvent now k reason (at now) (terminal now)) s of
        (s1, Inl e) \<Rightarrow> (s1, Inl (IeSettleFailed e))
      | (s1, Inr _) \<Rightarrow> (s1, Inr True))"

section \<open>One inbox item\<close>

definition uncorrelated_terminal :: "ProviderEventInbox \<Rightarrow> instant \<Rightarrow> bool" where
  "uncorrelated_terminal inbox now \<longleftrightarrow>
     ibAttempts inbox \<ge> 20 \<or> (ibCreatedAt inbox \<noteq> go_zero_time \<and> now - ibCreatedAt inbox > week)"

definition uncorrelated :: "inbox_env \<Rightarrow> ProviderEventInbox \<Rightarrow> db \<Rightarrow> db \<times> (ie_error + bool)" where
  "uncorrelated env inbox s =
     settle_inbox env IeUncorrelated (ibEventID inbox)
       (if uncorrelated_terminal inbox (ieNow env IeUncorrelated)
        then ''provider email could not be correlated before retry limit''
        else ''provider email correlation is pending'')
       (\<lambda>now. providerRetryAt now (ibAttempts inbox)) (uncorrelated_terminal inbox) s"

definition moved_email :: "ProviderEventInbox \<Rightarrow> EmailStatus option \<Rightarrow> Email \<Rightarrow> Email" where
  "moved_email inbox target e =
     (if ShouldApplyProviderStatus (eStatus e) target
      then e\<lparr>eStatus := the target,
             eSendAttemptState := (if target = Some EmailStatusFailed
               then SendAttemptFailedTerminal else SendAttemptAccepted)\<rparr>
      else e)\<lparr>eProviderMessageID := Some (ibProviderMessageID inbox)\<rparr>"

definition payload_text :: "ProviderEventInbox \<Rightarrow> string" where
  "payload_text inbox = (case ibPayload inbox of None \<Rightarrow> [] | Some d \<Rightarrow> d)"

definition apply_call ::
  "inbox_env \<Rightarrow> ProviderEventInbox \<Rightarrow> string \<Rightarrow> EmailStatus option \<Rightarrow> Email \<Rightarrow> string \<Rightarrow> db \<Rightarrow> db \<times> unit result" where
  "apply_call env inbox name target email payload =
     ie_call env IeApply (\<lambda>now. ApplyProviderEvent now (ibEventID inbox) (eID email) (ibProviderMessageID inbox) target
       (Some \<lparr>evID = ibEventID inbox, evEmailID = eID email, evEvent = name, evData = payload_text inbox\<rparr>)
       (Some \<lparr>obID = ieSHA1 env (ibEventID inbox) ''webhook-outbox'', obTeamID = eTeamID email,
              obEventID = ibEventID inbox, obEvent = name, obPayload = payload,
              obRetentionClass = RetentionOutbound\<rparr>)
       (providerEventSuppressions env (eTeamID email) target (payload_text inbox)))"

definition apply_to_email ::
  "inbox_env \<Rightarrow> ProviderEventInbox \<Rightarrow> string \<Rightarrow> EmailStatus option \<Rightarrow> Email \<Rightarrow> db \<Rightarrow> db \<times> (ie_error + bool)" where
  "apply_to_email env inbox name target email0 s =
     (let email = moved_email inbox target email0 in
      case ieMarshal env email of
        None \<Rightarrow> (retryProviderInbox env inbox None s, Inl IeMarshalFailed)
      | Some payload \<Rightarrow>
          (case apply_call env inbox name target email payload s of
             (s1, Inl e) \<Rightarrow> (retryProviderInbox env inbox (Some e) s1, Inl (IeApplyFailed e))
           | (s1, Inr _) \<Rightarrow> (s1, Inr True)))"

text \<open>The message a claimed callback belongs to: by provider id, else by its tags.\<close>

datatype correlation = Found Email | TagMismatch | NotFound | LookupFailed db_error | TaggedFailed db_error

definition correlate :: "inbox_env \<Rightarrow> ProviderEventInbox \<Rightarrow> db \<Rightarrow> correlation" where
  "correlate env inbox s =
     (case ie_read env IeLookup (GetByProviderMessageID (ibProviderMessageID inbox)) s of
        Inr e \<Rightarrow> Found e
      | Inl ErrNoRows \<Rightarrow>
          (case (ibEmailID inbox, ibSendAttemptID inbox) of
             (Some i, Some a) \<Rightarrow>
               (case ie_read env IeTagged (GetByID i) s of
                  Inr e \<Rightarrow> if eSendAttemptID e \<noteq> Some a then TagMismatch else Found e
                | Inl ErrNoRows \<Rightarrow> NotFound
                | Inl er \<Rightarrow> TaggedFailed er)
           | _ \<Rightarrow> NotFound)
      | Inl er \<Rightarrow> LookupFailed er)"

definition process_claimed :: "inbox_env \<Rightarrow> ProviderEventInbox \<Rightarrow> db \<Rightarrow> db \<times> (ie_error + bool)" where
  "process_claimed env inbox s =
     (case providerEventDetails (ibEventType inbox) of (name, target) \<Rightarrow>
        if name = [] then
          settle_inbox env IeUnsupported (ibEventID inbox) ''unsupported provider event'' (\<lambda>now. now) (\<lambda>_. True) s
        else
          (case correlate env inbox s of
             Found email \<Rightarrow> apply_to_email env inbox name target email s
           | TagMismatch \<Rightarrow>
               settle_inbox env IeMismatch (ibEventID inbox) ''provider attempt tag does not match''
                 (\<lambda>now. now) (\<lambda>_. True) s
           | NotFound \<Rightarrow> uncorrelated env inbox s
           | LookupFailed er \<Rightarrow> (retryProviderInbox env inbox (Some er) s, Inl (IeLookupFailed er))
           | TaggedFailed er \<Rightarrow> (retryProviderInbox env inbox (Some er) s, Inl (IeTaggedFailed er))))"

definition processProviderEventInbox :: "inbox_env \<Rightarrow> uuid option \<Rightarrow> db \<Rightarrow> db \<times> (ie_error + bool)" where
  "processProviderEventInbox env wanted s =
     (case ie_call env IeClaim (\<lambda>now. ClaimProviderEvent now wanted) s of
        (s1, Inl ErrNoRows) \<Rightarrow> (s1, Inr False)
      | (s1, Inl e) \<Rightarrow> (s1, Inl (IeClaimFailed e))
      | (s1, Inr inbox) \<Rightarrow> process_claimed env inbox s1)"

definition ProcessNextProviderEvent :: "bool \<Rightarrow> inbox_env \<Rightarrow> db \<Rightarrow> db \<times> (ie_error + bool)" where
  "ProcessNextProviderEvent pipeline env s =
     (if \<not> pipeline then (s, Inr False) else processProviderEventInbox env None s)"

section \<open>Receiving a callback\<close>

definition callback_id :: "inbox_env \<Rightarrow> uuid \<Rightarrow> string \<Rightarrow> string \<Rightarrow> uuid" where
  "callback_id env eventID m name =
     (if eventID = uuid_Nil then ieSHA1 env uuid_Nil (m @ '':'' @ name) else eventID)"

definition inbox_row_of :: "inbox_env \<Rightarrow> uuid \<Rightarrow> string \<Rightarrow> string \<Rightarrow> string \<Rightarrow> ProviderEventInbox" where
  "inbox_row_of env k m eventType data =
     (case providerEventCorrelation env data of (email, attempt) \<Rightarrow>
        \<lparr>ibEventID = k, ibProviderMessageID = m, ibEventType = eventType, ibPayload = Some data,
         ibEmailID = email, ibSendAttemptID = attempt, ibStatus = InboxPending, ibAttempts = 0,
         ibNextAttemptAt = 0, ibLeaseUntil = None, ibLastError = None, ibCreatedAt = 0, ibProcessedAt = None\<rparr>)"

definition storeAndProcessProviderEvent ::
  "inbox_env \<Rightarrow> string \<Rightarrow> string \<Rightarrow> string \<Rightarrow> uuid \<Rightarrow> db \<Rightarrow> db \<times> (ie_error + unit)" where
  "storeAndProcessProviderEvent env m0 eventType data eventID s =
     (let m = TrimSpace m0; name = fst (providerEventDetails eventType) in
      if m = [] then (s, Inl IeIDRequired)
      else if name = [] then (s, Inr ())
      else
        (let k = callback_id env eventID m name in
         case ie_call env IeStore (\<lambda>now. StoreProviderEvent now (inbox_row_of env k m eventType data)) s of
           (s1, Inl e) \<Rightarrow> (s1, Inl (IeStoreFailed e))
         | (s1, Inr _) \<Rightarrow> (fst (processProviderEventInbox env (Some k) s1), Inr ())))"

section \<open>The path without an inbox\<close>

definition GetByEvent :: "uuid \<Rightarrow> string \<Rightarrow> db \<Rightarrow> Webhook list" where
  "GetByEvent team event s = filter (\<lambda>w. whTeamID w = team \<and> whActive w \<and> event \<in> set (whEvents w)) (webhooks s)"

definition ignore_duplicate :: "db \<times> unit result \<Rightarrow> db \<times> (ie_error + unit)" where
  "ignore_duplicate r = (case r of
     (s, Inr _) \<Rightarrow> (s, Inr ())
   | (s, Inl UniqueViolation) \<Rightarrow> (s, Inr ())
   | (s, Inl e) \<Rightarrow> (s, Inl (IeEventFailed e)))"

definition recordProviderEventAndDispatch ::
  "inbox_env \<Rightarrow> uuid \<Rightarrow> EmailEvent \<Rightarrow> Email \<Rightarrow> db \<Rightarrow> db \<times> (ie_error + unit)" where
  "recordProviderEventAndDispatch env team ev payload s =
     (if \<not> ieWebhookRepo env then ignore_duplicate (ie_call env IeEvent (\<lambda>now. AddEvent ev) s)
      else case ie_read env IeHooks (\<lambda>d. Inr (GetByEvent team (evEvent ev) d)) s of
             Inl e \<Rightarrow> (s, Inl (IeHooksFailed e))
           | Inr hooks \<Rightarrow>
               (case ieMarshal env payload of
                  None \<Rightarrow> (s, Inl IeMarshalFailed)
                | Some json \<Rightarrow>
                    ignore_duplicate (ie_call env IeEvent (\<lambda>now. AddEventWithDeliveries now ev
                      (map (\<lambda>w. pending_delivery now (ieDeliveryID env (whID w)) (whID w) (evID ev) (evEvent ev)
                             (Some json) RetentionOutbound) hooks)) s)))"

fun suppress_recipients ::
  "inbox_env \<Rightarrow> uuid \<Rightarrow> SuppressionReason \<Rightarrow> nat \<Rightarrow> string list \<Rightarrow> db \<Rightarrow> db \<times> (ie_error + unit)" where
  "suppress_recipients env team reason n [] s = (s, Inr ())"
| "suppress_recipients env team reason n (a # as) s =
     (let email = NormalizeEmail a in
      if email = [] then suppress_recipients env team reason (Suc n) as s
      else case ie_call env (IeSuppress n) (\<lambda>now. Suppression_Upsert
                  \<lparr>supID = ieSupID env n, supTeamID = team, supEmail = email, supReason = reason\<rparr>) s of
             (s1, Inl e) \<Rightarrow> (s1, Inl (IeSuppressFailed e))
           | (s1, Inr _) \<Rightarrow> suppress_recipients env team reason (Suc n) as s1)"

definition suppressEventRecipients ::
  "inbox_env \<Rightarrow> uuid \<Rightarrow> EmailStatus option \<Rightarrow> string \<Rightarrow> db \<Rightarrow> db \<times> (ie_error + unit)" where
  "suppressEventRecipients env team status data s =
     (if \<not> ieSuppressionRepo env then (s, Inr ())
      else case ieRecipients env data of
             None \<Rightarrow> (s, Inl IeDecodeFailed)
           | Some r \<Rightarrow> (case event_recipients status r of (reason, as) \<Rightarrow> suppress_recipients env team reason 0 as s))"

definition legacy_record ::
  "inbox_env \<Rightarrow> Email \<Rightarrow> EmailStatus option \<Rightarrow> bool \<Rightarrow> EmailEvent \<Rightarrow> db \<Rightarrow> db \<times> (ie_error + unit)" where
  "legacy_record env email target changed ev s =
     (if changed \<or> target = None then recordProviderEventAndDispatch env (eTeamID email) ev email s
      else ignore_duplicate (ie_call env IeEvent (\<lambda>now. AddEvent ev) s))"

definition processProviderEventLegacy ::
  "inbox_env \<Rightarrow> string \<Rightarrow> string \<Rightarrow> string \<Rightarrow> uuid \<Rightarrow> db \<Rightarrow> db \<times> (ie_error + unit)" where
  "processProviderEventLegacy env m0 eventType data eventID s =
     (let m = TrimSpace m0 in
      case providerEventDetails eventType of (name, target) \<Rightarrow>
        if m = [] then (s, Inl IeIDRequired)
        else if name = [] then (s, Inr ())
        else case ie_read env IeLookup (GetByProviderMessageID m) s of
          Inl _ \<Rightarrow> (s, Inl ErrProviderEmailNotFound)
        | Inr email0 \<Rightarrow>
            (let k = callback_id env eventID m name;
                 changed = target \<noteq> None \<and> ShouldApplyProviderStatus (eStatus email0) target;
                 email = (if changed then email0\<lparr>eStatus := the target\<rparr> else email0);
                 ev = \<lparr>evID = k, evEmailID = eID email, evEvent = name, evData = data\<rparr>
             in case (if changed then ie_call env IeStatus (\<lambda>now. UpdateStatus now (eID email) (the target)) s
                      else (s, Inr ())) of
                  (s1, Inl e) \<Rightarrow> (s1, Inl (IeStatusFailed e))
                | (s1, Inr _) \<Rightarrow>
                    (case (if target = Some EmailStatusBounced \<or> target = Some EmailStatusComplained
                           then suppressEventRecipients env (eTeamID email) target data s1 else (s1, Inr ())) of
                       (s2, Inl e) \<Rightarrow> (s2, Inl e)
                     | (s2, Inr _) \<Rightarrow> legacy_record env email target changed ev s2)))"

definition ProcessProviderEvent ::
  "bool \<Rightarrow> inbox_env \<Rightarrow> string \<Rightarrow> string \<Rightarrow> string \<Rightarrow> uuid \<Rightarrow> db \<Rightarrow> db \<times> (ie_error + unit)" where
  "ProcessProviderEvent pipeline env m eventType data eventID s =
     (if pipeline then storeAndProcessProviderEvent env m eventType data eventID s
      else processProviderEventLegacy env m eventType data eventID s)"

section \<open>Frames of the inbox statements\<close>

lemma ie_call_state: "fst (ie_call env st f s) = s \<or> fst (ie_call env st f s) = fst (f (ieNow env st) s)"
  unfolding ie_call_def by (rule run_call_state)

lemma ie_call_Inr: "ie_call env st f s = (s1, Inr a) \<Longrightarrow> f (ieNow env st) s = (s1, Inr a)"
  unfolding ie_call_def by (rule run_call_InrD)

text \<open>What a statement on the inbox keeps: messages, suppressions and the callbacks themselves.\<close>

definition same_callbacks :: "db \<Rightarrow> db \<Rightarrow> bool" where
  "same_callbacks s s' \<longleftrightarrow> (\<forall>k r. by_key ibEventID k (provider_event_inbox s) = Some r \<longrightarrow>
     (\<exists>r'. by_key ibEventID k (provider_event_inbox s') = Some r' \<and> ibPayload r' = ibPayload r \<and>
        ibProviderMessageID r' = ibProviderMessageID r \<and> ibEventType r' = ibEventType r))"

lemma same_callbacks_refl [simp]: "same_callbacks s s"
  by (simp add: same_callbacks_def)

lemma same_callbacks_trans: "same_callbacks a b \<Longrightarrow> same_callbacks b c \<Longrightarrow> same_callbacks a c"
  unfolding same_callbacks_def by metis

lemma same_callbacks_update:
  assumes "\<And>r. ibEventID (f r) = ibEventID r \<and> ibPayload (f r) = ibPayload r \<and>
      ibProviderMessageID (f r) = ibProviderMessageID r \<and> ibEventType (f r) = ibEventType r"
    and "provider_event_inbox s' = sql_update p f (provider_event_inbox s)"
  shows "same_callbacks s s'"
  using assms unfolding same_callbacks_def assms(2) by (auto simp: by_key_sql_update)

lemma Retry_keeps:
  "emails (fst (RetryProviderEvent now k reason at t s)) = emails s"
  "suppressions (fst (RetryProviderEvent now k reason at t s)) = suppressions s"
  "same_callbacks s (fst (RetryProviderEvent now k reason at t s))"
proof -
  let ?r = "fst (RetryProviderEvent now k reason at t s)"
  show "emails ?r = emails s" "suppressions ?r = suppressions s" by (simp_all add: RetryProviderEvent_def)
  show "same_callbacks s ?r"
    by (rule same_callbacks_update [where p = "\<lambda>r. ibEventID r = k \<and> ibStatus r = InboxProcessing"
        and f = "\<lambda>r. r\<lparr>ibStatus := (if t then InboxIgnored else InboxPending), ibNextAttemptAt := at,
          ibLeaseUntil := None, ibLastError := Some reason, ibProcessedAt := (if t then Some now else None)\<rparr>"])
      (simp_all add: RetryProviderEvent_def)
qed

lemma Claim_keeps:
  "emails (fst (ClaimProviderEvent now w s)) = emails s"
  "suppressions (fst (ClaimProviderEvent now w s)) = suppressions s"
  "same_callbacks s (fst (ClaimProviderEvent now w s))"
proof -
  let ?c = "fst (ClaimProviderEvent now w s)"
  show "emails ?c = emails s" "suppressions ?c = suppressions s"
    by (simp_all add: ClaimProviderEvent_def Let_def split: option.splits)
  show "same_callbacks s ?c"
  proof (cases "first_min ibCreatedAt (filter (inbox_due now w) (provider_event_inbox s))")
    case (Some i)
    then show ?thesis by (intro same_callbacks_update) (auto simp: ClaimProviderEvent_def Let_def)
  qed (simp add: ClaimProviderEvent_def)
qed

lemma Apply_keeps:
  "same_callbacks s (fst (ApplyProviderEvent now k i m target ev ob sups s))"
  "j \<noteq> i \<Longrightarrow> email_at (fst (ApplyProviderEvent now k i m target ev ob sups s)) j = email_at s j"
proof -
  obtain s' r where run: "ApplyProviderEvent now k i m target ev ob sups s = (s', r)"
    by (cases "ApplyProviderEvent now k i m target ev ob sups s")
  have "same_callbacks s s' \<and> (j \<noteq> i \<longrightarrow> email_at s' j = email_at s j)"
    using run
  proof (cases rule: ApplyProviderEvent_cases)
    case (applied e s2)
    have "provider_event_inbox s' = mark_processed now k i (provider_event_inbox s)"
      using record_work_frame [OF applied(3)] applied(4) by simp
    then have "same_callbacks s s'"
      unfolding mark_processed_def by (rule same_callbacks_update [rotated]) simp
    moreover have "email_at s' j = map_option (\<lambda>x. if eID x = i then ApplyProvider_set now m target x else x) (email_at s j)"
      using record_work_frame [OF applied(3)] applied(4) unfolding email_at_def by (simp add: by_key_sql_update)
    then have "j \<noteq> i \<longrightarrow> email_at s' j = email_at s j"
      using email_at_SomeD [of s j] by (cases "email_at s j") auto
    ultimately show ?thesis by blast
  qed simp
  then show "same_callbacks s (fst (ApplyProviderEvent now k i m target ev ob sups s))"
    "j \<noteq> i \<Longrightarrow> email_at (fst (ApplyProviderEvent now k i m target ev ob sups s)) j = email_at s j"
    using run by simp_all
qed

lemma retryProviderInbox_keeps:
  "emails (retryProviderInbox env inbox cause s) = emails s"
  "suppressions (retryProviderInbox env inbox cause s) = suppressions s"
  "same_callbacks s (retryProviderInbox env inbox cause s)"
  using ie_call_state [of env IeRetry "\<lambda>now. RetryProviderEvent now (ibEventID inbox) (ieErrText env cause)
       (providerRetryAt now (ibAttempts inbox)) (providerRetryIsTerminal inbox cause now)" s]
  unfolding retryProviderInbox_def by (elim disjE; simp add: Retry_keeps)+

lemma settle_inbox_keeps:
  assumes "settle_inbox env st k reason at t s = (s', r)"
  shows "emails s' = emails s \<and> suppressions s' = suppressions s \<and> same_callbacks s s'"
proof -
  let ?c = "ie_call env st (\<lambda>now. RetryProviderEvent now k reason (at now) (t now)) s"
  have "s' = fst ?c" using assms by (auto simp: settle_inbox_def split: prod.splits sum.splits)
  then show ?thesis
    using ie_call_state [of env st "\<lambda>now. RetryProviderEvent now k reason (at now) (t now)" s]
    by (elim disjE) (simp_all add: Retry_keeps)
qed

lemma apply_call_keeps:
  "same_callbacks s (fst (apply_call env inbox name target e payload s))"
  "j \<noteq> eID e \<Longrightarrow> email_at (fst (apply_call env inbox name target e payload s)) j = email_at s j"
  unfolding apply_call_def ie_call_def
  by (cases "ieFault env IeApply"; simp add: Apply_keeps)+

lemma apply_to_email_cases:
  assumes "apply_to_email env inbox name target e s = (s', r)"
  obtains (unmarshalled) "s' = retryProviderInbox env inbox None s" "r = Inl IeMarshalFailed"
  | (failed) payload er where "r = Inl (IeApplyFailed er)" "s' = retryProviderInbox env inbox (Some er)
        (fst (apply_call env inbox name target (moved_email inbox target e) payload s))"
  | (applied) payload where "apply_call env inbox name target (moved_email inbox target e) payload s = (s', Inr ())"
      "r = Inr True"
  using assms unfolding apply_to_email_def Let_def
  by (auto split: option.splits sum.splits prod.splits) (metis fst_conv)

lemma moved_email_id [simp]:
  "eID (moved_email inbox target e) = eID e" "eTeamID (moved_email inbox target e) = eTeamID e"
  by (simp_all add: moved_email_def)

lemma apply_to_email_keeps:
  assumes "apply_to_email env inbox name target e s = (s', r)"
  shows "same_callbacks s s' \<and> (\<forall>j. j \<noteq> eID e \<longrightarrow> email_at s' j = email_at s j)"
proof -
  have retry: "email_at (retryProviderInbox env inbox c x) j = email_at x j" for c x j
    by (simp add: email_at_def retryProviderInbox_keeps)
  from assms show ?thesis
  proof (cases rule: apply_to_email_cases)
    case unmarshalled
    then show ?thesis by (simp add: retry retryProviderInbox_keeps)
  next
    case (failed payload er)
    have "same_callbacks s s'"
      unfolding failed(2) by (rule same_callbacks_trans [OF apply_call_keeps(1) retryProviderInbox_keeps(3)])
    then show ?thesis by (simp add: failed(2) retry apply_call_keeps(2))
  next
    case (applied payload)
    then show ?thesis
      using apply_call_keeps [where s = s and env = env and inbox = inbox and name = name and target = target
          and e = "moved_email inbox target e" and payload = payload] by simp
  qed
qed

section \<open>What processing an item may change\<close>

text \<open>The evidence that ties a callback to a message.\<close>

definition belongs :: "ProviderEventInbox \<Rightarrow> Email \<Rightarrow> bool" where
  "belongs inbox e \<longleftrightarrow> eProviderMessageID e = Some (ibProviderMessageID inbox) \<or>
     (ibEmailID inbox = Some (eID e) \<and> ibSendAttemptID inbox \<noteq> None \<and> eSendAttemptID e = ibSendAttemptID inbox)"

lemma GetByID_Inr: "GetByID i s = Inr e \<Longrightarrow> e \<in> set (emails s) \<and> eID e = i"
  by (auto simp: GetByID_def split: option.splits dest: email_at_SomeD)

lemma correlate_Found:
  assumes "correlate env inbox s = Found e" and "keyed eID (emails s)"
  shows "e \<in> set (emails s) \<and> belongs inbox e"
proof (cases "ie_read env IeLookup (GetByProviderMessageID (ibProviderMessageID inbox)) s")
  case (Inr x)
  then have "GetByProviderMessageID (ibProviderMessageID inbox) s = Inr e"
    using assms(1) by (auto simp: correlate_def ie_read_def split: if_splits)
  then obtain y where y: "find (\<lambda>e. eProviderMessageID e = Some (ibProviderMessageID inbox)) (emails s) = Some y"
    "GetByID (eID y) s = Inr e"
    by (auto simp: GetByProviderMessageID_def split: option.splits)
  then have "y \<in> set (emails s)" "eProviderMessageID y = Some (ibProviderMessageID inbox)"
    by (auto simp: find_Some_iff)
  moreover have "e = y"
    using y(2) keyed_by_key [OF assms(2) \<open>y \<in> set (emails s)\<close>] by (simp add: GetByID_def email_at_def)
  ultimately show ?thesis by (simp add: belongs_def)
next
  case (Inl er)
  then show ?thesis
    using assms(1) GetByID_Inr
    by (auto simp: correlate_def ie_read_def belongs_def split: if_splits db_error.splits option.splits sum.splits)
qed

lemma process_claimed_keeps:
  assumes "process_claimed env inbox s = (s', r)"
  shows "same_callbacks s s' \<and>
    (emails s' = emails s \<and> suppressions s' = suppressions s \<or>
     (\<exists>e. correlate env inbox s = Found e \<and> (\<forall>j. j \<noteq> eID e \<longrightarrow> email_at s' j = email_at s j)))"
proof -
  obtain name target where d: "providerEventDetails (ibEventType inbox) = (name, target)"
    by (cases "providerEventDetails (ibEventType inbox)")
  show ?thesis
  proof (cases "name = []")
    case True
    with assms d settle_inbox_keeps show ?thesis by (fastforce simp: process_claimed_def)
  next
    case False
    show ?thesis
    proof (cases "correlate env inbox s")
      case (Found e)
      with assms d False apply_to_email_keeps [of env inbox name target e s s' r] show ?thesis
        by (auto simp: process_claimed_def)
    qed (use assms d False settle_inbox_keeps retryProviderInbox_keeps in
        \<open>fastforce simp: process_claimed_def uncorrelated_def\<close>)+
  qed
qed

lemma processProviderEventInbox_cases:
  assumes "processProviderEventInbox env w s = (s', r)"
  obtains (unclaimed) "s' = fst (ie_call env IeClaim (\<lambda>now. ClaimProviderEvent now w) s)"
  | (claimed) s1 inbox where "ClaimProviderEvent (ieNow env IeClaim) w s = (s1, Inr inbox)"
      "process_claimed env inbox s1 = (s', r)"
proof -
  let ?c = "ie_call env IeClaim (\<lambda>now. ClaimProviderEvent now w) s"
  obtain s1 a where c: "?c = (s1, a)" by (cases ?c)
  show ?thesis
  proof (cases a)
    case (Inl e)
    with assms c have "s' = s1" by (cases e) (auto simp: processProviderEventInbox_def)
    with that(1) c show ?thesis by simp
  next
    case (Inr inbox)
    with assms c have "process_claimed env inbox s1 = (s', r)" by (simp add: processProviderEventInbox_def)
    with that(2) ie_call_Inr [OF c [unfolded Inr]] show ?thesis by blast
  qed
qed

lemma claim_call_keeps:
  "emails (fst (ie_call env IeClaim (\<lambda>now. ClaimProviderEvent now w) s)) = emails s"
  "suppressions (fst (ie_call env IeClaim (\<lambda>now. ClaimProviderEvent now w) s)) = suppressions s"
  "same_callbacks s (fst (ie_call env IeClaim (\<lambda>now. ClaimProviderEvent now w) s))"
  unfolding ie_call_def by (cases "ieFault env IeClaim"; simp add: Claim_keeps)+

text \<open>C17: A callback touches only the message it belongs to. Whatever calls fail, processing an inbox
  item changes messages or the suppression list only if the claimed callback belongs to a message: that message has
  the callback's provider id, or the callback carries its id together with the id of its current
  send attempt. Only that message's row changes.\<close>

theorem callback_changes_only_its_message:
  assumes "processProviderEventInbox env w s = (s', r)" and "keyed eID (emails s)"
    and "emails s' \<noteq> emails s \<or> suppressions s' \<noteq> suppressions s"
  shows "\<exists>s1 inbox e. ClaimProviderEvent (ieNow env IeClaim) w s = (s1, Inr inbox) \<and>
    e \<in> set (emails s) \<and> belongs inbox e \<and> (\<forall>j. j \<noteq> eID e \<longrightarrow> email_at s' j = email_at s j)"
  using assms(1)
proof (cases rule: processProviderEventInbox_cases)
  case unclaimed
  with assms(3) show ?thesis by (simp add: claim_call_keeps)
next
  case (claimed s1 inbox)
  have s1: "emails s1 = emails s" "suppressions s1 = suppressions s"
    using Claim_keeps(1,2) [of "ieNow env IeClaim" w s] claimed(1) by simp_all
  then obtain e where e: "correlate env inbox s1 = Found e" "\<forall>j. j \<noteq> eID e \<longrightarrow> email_at s' j = email_at s1 j"
    using process_claimed_keeps [OF claimed(2)] assms(3) by auto
  have "email_at s1 j = email_at s j" for j by (simp add: email_at_def s1)
  with correlate_Found [OF e(1)] s1 assms(2) e(2) claimed(1) show ?thesis by auto
qed

section \<open>A stored callback is kept\<close>

lemma store_row:
  assumes "StoreProviderEvent now row s = (s1, Inr u)"
  shows "\<exists>r. by_key ibEventID (ibEventID row) (provider_event_inbox s1) = Some r \<and>
    (by_key ibEventID (ibEventID row) (provider_event_inbox s) = None \<longrightarrow> ibPayload r = ibPayload row \<and>
      ibProviderMessageID r = ibProviderMessageID row \<and> ibEventType r = ibEventType row)"
  using assms by (auto simp: StoreProviderEvent_def by_key_append split: if_splits option.splits)

lemma inbox_keeps:
  assumes "processProviderEventInbox env w s = (s', r)"
  shows "same_callbacks s s'"
  using assms
proof (cases rule: processProviderEventInbox_cases)
  case (claimed s1 inbox)
  have "same_callbacks s s1" using Claim_keeps(3) [of s "ieNow env IeClaim" w] claimed(1) by simp
  with process_claimed_keeps [OF claimed(2)] show ?thesis using same_callbacks_trans by blast
qed (simp add: claim_call_keeps)

text \<open>A callback that was answered with success is durable. Whatever fails while it is processed, the inbox
  holds a row under its identifier, and a first callback's row has its payload, provider id and
  type; so a redelivery by the provider is not needed, and the worker can retry it.\<close>

theorem stored_callback_is_kept:
  assumes "ProcessProviderEvent True env m eventType data eventID s = (s', Inr ())"
    and "fst (providerEventDetails eventType) \<noteq> []"
  defines "k \<equiv> callback_id env eventID (TrimSpace m) (fst (providerEventDetails eventType))"
  shows "\<exists>r. by_key ibEventID k (provider_event_inbox s') = Some r \<and>
    (by_key ibEventID k (provider_event_inbox s) = None \<longrightarrow> ibPayload r = Some data \<and>
      ibProviderMessageID r = TrimSpace m \<and> ibEventType r = eventType)"
proof -
  let ?row = "inbox_row_of env k (TrimSpace m) eventType data"
  obtain s1 a where c: "ie_call env IeStore (\<lambda>now. StoreProviderEvent now ?row) s = (s1, a)"
    by (cases "ie_call env IeStore (\<lambda>now. StoreProviderEvent now ?row) s")
  then obtain u where a: "a = Inr u" and s': "s' = fst (processProviderEventInbox env (Some k) s1)"
    using assms(1,2) k_def
    by (auto simp: ProcessProviderEvent_def storeAndProcessProviderEvent_def Let_def split: if_splits sum.splits prod.splits)
  have row: "ibEventID ?row = k" "ibPayload ?row = Some data" "ibProviderMessageID ?row = TrimSpace m" "ibEventType ?row = eventType"
    by (simp_all add: inbox_row_of_def split: prod.splits)
  obtain x where "processProviderEventInbox env (Some k) s1 = (s', x)" using s' by (metis prod.collapse)
  then have "same_callbacks s1 s'" by (rule inbox_keeps)
  then show ?thesis
    using store_row [OF ie_call_Inr [OF c [unfolded a]]] unfolding row same_callbacks_def by metis
qed

section \<open>Callbacks without a message\<close>

lemma providerRetryAt_bounds: "now + second \<le> providerRetryAt now n \<and> providerRetryAt now n \<le> now + 128 * second"
proof -
  have "1 \<le> (2::int) ^ m \<and> (2::int) ^ m \<le> 2 ^ 7" if "m \<le> 7" for m :: nat
    using that by (intro conjI power_increasing) simp_all
  then have "1 * second \<le> 2 ^ m * second \<and> 2 ^ m * second \<le> 128 * second" if "m \<le> 7" for m :: nat
    using that by (intro conjI mult_right_mono) (auto simp: second_def)
  then show ?thesis by (simp add: providerRetryAt_def Let_def) (simp add: second_def)
qed

text \<open>No message has the provider id, and the tags are missing or name an unknown message.\<close>

definition orphan :: "ProviderEventInbox \<Rightarrow> db \<Rightarrow> bool" where
  "orphan r s \<longleftrightarrow> (\<forall>e \<in> set (emails s). eProviderMessageID e \<noteq> Some (ibProviderMessageID r)) \<and>
     (case (ibEmailID r, ibSendAttemptID r) of (Some i, Some _) \<Rightarrow> email_at s i = None | _ \<Rightarrow> True)"

lemma orphan_NotFound: "orphan r s \<Longrightarrow> ieFault env = (\<lambda>_. NoFault) \<Longrightarrow> correlate env r s = NotFound"
proof -
  assume a: "orphan r s" "ieFault env = (\<lambda>_. NoFault)"
  then have "find (\<lambda>e. eProviderMessageID e = Some (ibProviderMessageID r)) (emails s) = None"
    by (auto simp: orphan_def find_None_iff)
  with a show ?thesis
    by (auto simp: correlate_def ie_read_def GetByProviderMessageID_def GetByID_def orphan_def split: option.splits)
qed

definition quiet :: "inbox_env \<Rightarrow> instant \<Rightarrow> inbox_env" where
  "quiet env t = env\<lparr>ieFault := (\<lambda>_. NoFault), ieNow := (\<lambda>_. t)\<rparr>"

definition claimed_row :: "instant \<Rightarrow> ProviderEventInbox \<Rightarrow> ProviderEventInbox" where
  "claimed_row now r = r\<lparr>ibStatus := InboxProcessing, ibAttempts := ibAttempts r + 1, ibLeaseUntil := Some (now + minute)\<rparr>"

lemma claim_wanted:
  assumes "keyed ibEventID (provider_event_inbox s)" and "by_key ibEventID k (provider_event_inbox s) = Some r"
  shows "ClaimProviderEvent now (Some k) s =
    (if inbox_due now (Some k) r
     then (s\<lparr>provider_event_inbox := sql_update (\<lambda>x. ibEventID x = k) (claimed_row now) (provider_event_inbox s)\<rparr>,
           Inr (claimed_row now r))
     else (s, Inl ErrNoRows))"
proof -
  have "filter (inbox_due now (Some k)) (provider_event_inbox s) = (if inbox_due now (Some k) r then [r] else [])"
    using filter_keyed [OF assms(1), of "inbox_due now (Some k)" k] assms(2) by (simp add: inbox_due_def)
  then show ?thesis
    using by_key_SomeD [OF assms(2)] by (simp add: ClaimProviderEvent_def Let_def claimed_row_def [abs_def])
qed

text \<open>One quiet round on an orphan: a retry later, or the end.\<close>

definition orphan_next :: "instant \<Rightarrow> ProviderEventInbox \<Rightarrow> ProviderEventInbox \<Rightarrow> bool" where
  "orphan_next now r r' \<longleftrightarrow> ibEventID r' = ibEventID r \<and> ibEventType r' = ibEventType r \<and> ibPayload r' = ibPayload r \<and>
     ibProviderMessageID r' = ibProviderMessageID r \<and> ibEmailID r' = ibEmailID r \<and> ibSendAttemptID r' = ibSendAttemptID r \<and>
     ibAttempts r' = ibAttempts r + 1 \<and>
     (if ibAttempts r + 1 \<ge> 20 then ibStatus r' = InboxIgnored else ibStatus r' \<in> {InboxIgnored, InboxPending}) \<and>
     ibNextAttemptAt r' \<le> now + 128 * second"

lemma orphan_round:
  assumes "keyed ibEventID (provider_event_inbox s)" and "by_key ibEventID k (provider_event_inbox s) = Some r"
    and "inbox_due now (Some k) r" and "orphan r s" and "fst (providerEventDetails (ibEventType r)) \<noteq> []"
  shows "\<exists>s' r'. processProviderEventInbox (quiet env now) (Some k) s = (s', Inr True) \<and> emails s' = emails s \<and>
    keyed ibEventID (provider_event_inbox s') \<and> by_key ibEventID k (provider_event_inbox s') = Some r' \<and> orphan_next now r r'"
proof -
  let ?c = "claimed_row now r"
  let ?s1 = "s\<lparr>provider_event_inbox := sql_update (\<lambda>x. ibEventID x = k) (claimed_row now) (provider_event_inbox s)\<rparr>"
  let ?t = "uncorrelated_terminal ?c now"
  let ?f = "\<lambda>x. x\<lparr>ibStatus := (if ?t then InboxIgnored else InboxPending), ibNextAttemptAt := providerRetryAt now (ibAttempts ?c),
     ibLeaseUntil := None, ibLastError := Some (if ?t then ''provider email could not be correlated before retry limit''
        else ''provider email correlation is pending''), ibProcessedAt := (if ?t then Some now else None)\<rparr>"
  let ?s2 = "?s1\<lparr>provider_event_inbox := sql_update (\<lambda>x. ibEventID x = k \<and> ibStatus x = InboxProcessing) ?f (provider_event_inbox ?s1)\<rparr>"
  have k: "ibEventID r = k" using by_key_SomeD [OF assms(2)] by simp
  have nf: "ieFault (quiet env now) = (\<lambda>_. NoFault)" "ieNow (quiet env now) = (\<lambda>_. now)" by (simp_all add: quiet_def)
  have "orphan ?c ?s1" using assms(4) by (simp add: orphan_def claimed_row_def email_at_def split: option.splits)
  then have nfd: "correlate (quiet env now) ?c ?s1 = NotFound" by (rule orphan_NotFound) (rule nf(1))
  have "process_claimed (quiet env now) ?c ?s1 = uncorrelated (quiet env now) ?c ?s1"
    using assms(5) nfd by (cases "providerEventDetails (ibEventType r)") (simp add: process_claimed_def claimed_row_def)
  also have "\<dots> = (?s2, Inr True)"
    using k by (simp add: uncorrelated_def settle_inbox_def ie_call_def nf RetryProviderEvent_def claimed_row_def)
  finally have run: "processProviderEventInbox (quiet env now) (Some k) s = (?s2, Inr True)"
    using claim_wanted [OF assms(1,2), of now] assms(3) by (simp add: processProviderEventInbox_def ie_call_def nf)
  have id: "ibEventID (?f x) = ibEventID x" "ibEventID (claimed_row now x) = ibEventID x" for x
    by (simp_all add: claimed_row_def)
  have "by_key ibEventID k (provider_event_inbox ?s2) = Some (?f ?c)"
    using assms(2) k by (simp add: by_key_sql_update id) (simp add: claimed_row_def)
  moreover have "keyed ibEventID (provider_event_inbox ?s2)"
    using assms(1) by (simp add: keyed_sql_update id)
  moreover have "orphan_next now r (?f ?c)"
    using providerRetryAt_bounds [of now "ibAttempts ?c"]
    by (auto simp: orphan_next_def claimed_row_def uncorrelated_terminal_def)
  ultimately show ?thesis using run by fastforce
qed

fun rounds :: "inbox_env \<Rightarrow> uuid \<Rightarrow> (nat \<Rightarrow> instant) \<Rightarrow> nat \<Rightarrow> db \<Rightarrow> db" where
  "rounds env k t 0 s = s"
| "rounds env k t (Suc n) s = fst (processProviderEventInbox (quiet env (t n)) (Some k) (rounds env k t n s))"

lemma rounds_orphan:
  assumes "keyed ibEventID (provider_event_inbox s)" and "by_key ibEventID k (provider_event_inbox s) = Some r"
    and "ibStatus r = InboxPending" and "ibPayload r \<noteq> None" and "orphan r s"
    and "fst (providerEventDetails (ibEventType r)) \<noteq> []"
    and "ibNextAttemptAt r \<le> t 0" and "\<And>n. t n + 128 * second \<le> t (Suc n)"
  shows "emails (rounds env k t n s) = emails s \<and> keyed ibEventID (provider_event_inbox (rounds env k t n s)) \<and>
    (\<exists>r'. by_key ibEventID k (provider_event_inbox (rounds env k t n s)) = Some r' \<and>
      (ibStatus r' = InboxIgnored \<or>
       ibStatus r' = InboxPending \<and> ibAttempts r' = ibAttempts r + n \<and> (n > 0 \<longrightarrow> ibAttempts r' < 20) \<and>
       ibNextAttemptAt r' \<le> t n \<and> ibEventType r' = ibEventType r \<and> ibPayload r' \<noteq> None \<and>
       ibProviderMessageID r' = ibProviderMessageID r \<and> ibEmailID r' = ibEmailID r \<and> ibSendAttemptID r' = ibSendAttemptID r))"
proof (induction n)
  case 0
  then show ?case using assms by simp
next
  case (Suc n)
  let ?s = "rounds env k t n s"
  obtain r' where r': "by_key ibEventID k (provider_event_inbox ?s) = Some r'"
    "ibStatus r' = InboxIgnored \<or>
       ibStatus r' = InboxPending \<and> ibAttempts r' = ibAttempts r + n \<and> ibNextAttemptAt r' \<le> t n \<and>
       ibEventType r' = ibEventType r \<and> ibPayload r' \<noteq> None \<and>
       ibProviderMessageID r' = ibProviderMessageID r \<and> ibEmailID r' = ibEmailID r \<and> ibSendAttemptID r' = ibSendAttemptID r"
    using Suc by auto
  have keys: "keyed ibEventID (provider_event_inbox ?s)" and em: "emails ?s = emails s" using Suc by auto
  show ?case
  proof (cases "ibStatus r' = InboxIgnored")
    case True
    then have "processProviderEventInbox (quiet env (t n)) (Some k) ?s = (?s, Inr False)"
      using claim_wanted [OF keys r'(1), of "t n"]
      by (simp add: processProviderEventInbox_def ie_call_def quiet_def inbox_due_def)
    then show ?thesis using True r'(1) keys em by simp
  next
    case False
    have due: "inbox_due (t n) (Some k) r'" using False r' by_key_SomeD [OF r'(1)] by (auto simp: inbox_due_def)
    have orph: "orphan r' ?s"
      using assms(5) False r'(2) by (simp add: orphan_def em email_at_def split: option.splits)
    obtain s' r2 where s': "processProviderEventInbox (quiet env (t n)) (Some k) ?s = (s', Inr True)" "emails s' = emails ?s"
      "keyed ibEventID (provider_event_inbox s')" "by_key ibEventID k (provider_event_inbox s') = Some r2" "orphan_next (t n) r' r2"
      using orphan_round [OF keys r'(1) due orph, of env] assms(6) False r'(2) by auto
    have "ibNextAttemptAt r2 \<le> t (Suc n)" using s'(5) assms(8) [of n] by (simp add: orphan_next_def)
    then show ?thesis
      using s' em False r'(2) by (auto simp: orphan_next_def split: if_splits)
  qed
qed

text \<open>A callback that belongs to no message does not occupy the worker for ever. When it is processed whenever it
  is due, it is given up after at most twenty rounds, and no message changed meanwhile; every
  wait between two rounds is between one and 128 seconds.\<close>

theorem orphan_callback_given_up:
  assumes "keyed ibEventID (provider_event_inbox s)" and "by_key ibEventID k (provider_event_inbox s) = Some r"
    and "ibStatus r = InboxPending" and "ibPayload r \<noteq> None" and "orphan r s"
    and "fst (providerEventDetails (ibEventType r)) \<noteq> []"
    and "ibNextAttemptAt r \<le> t 0" and "\<And>n. t n + 128 * second \<le> t (Suc n)"
  shows "(\<exists>r'. by_key ibEventID k (provider_event_inbox (rounds env k t 20 s)) = Some r' \<and> ibStatus r' = InboxIgnored) \<and>
    emails (rounds env k t 20 s) = emails s \<and>
    (\<forall>now n. now + second \<le> providerRetryAt now n \<and> providerRetryAt now n \<le> now + 128 * second)"
proof -
  have "\<exists>r'. by_key ibEventID k (provider_event_inbox (rounds env k t 20 s)) = Some r' \<and> ibStatus r' = InboxIgnored"
    using rounds_orphan [where n = 20 and env = env, OF assms] by fastforce
  then show ?thesis
    using rounds_orphan [where n = 20 and env = env, OF assms] providerRetryAt_bounds by blast
qed

section \<open>Bounces and complaints\<close>

lemma event_suppressions_covers:
  "a \<in> set as \<Longrightarrow> NormalizeEmail a \<noteq> [] \<Longrightarrow>
   NormalizeEmail a \<in> set seen \<or>
   (\<exists>x \<in> set (event_suppressions env team reason n seen as). supTeamID x = team \<and> supEmail x = NormalizeEmail a)"
proof (induction env team reason n seen as rule: event_suppressions.induct)
  case (2 env team reason n seen b as)
  then show ?case by (auto simp: Let_def)
qed simp

lemma fold_upsert_lookup:
  "x \<in> set xs \<Longrightarrow> by_key sup_key (supTeamID x, NormalizeEmail (supEmail x)) (fold upsert_suppression xs rows) \<noteq> None"
  using fold_upsert_absorbed [of x xs rows] by (simp add: absorbed_def Let_def)

text \<open>C18: A bounce or a complaint stops further mail. When processing a callback that reports one ended
  well, no later recipient list of that team that contains a reported address, in any
  spelling, passes the recipient check.\<close>

theorem reported_recipients_blocked:
  assumes "ClaimProviderEvent (ieNow env IeClaim) w s = (s1, Inr inbox)"
    and "processProviderEventInbox env w s = (s', Inr True)" and "correlate env inbox s1 = Found e"
    and "snd (providerEventDetails (ibEventType inbox)) = target"
    and "target = Some EmailStatusBounced \<or> target = Some EmailStatusComplained"
    and "ieRecipients env (payload_text inbox) = Some recs" and "a \<in> set (snd (event_recipients target recs))"
    and "NormalizeEmail a \<noteq> []" and "b \<in> set bs" and "NormalizeEmail b = NormalizeEmail a"
  shows "\<exists>x r. checkRecipientSuppression True conRepo NoFault f (eTeamID e) bs s' = PolicySuppressed x r"
proof -
  obtain name where d: "providerEventDetails (ibEventType inbox) = (name, target)" "name \<noteq> []"
    using assms(4,5) by (auto simp: providerEventDetails_def Let_def split: if_splits)
  have claim: "ie_call env IeClaim (\<lambda>now. ClaimProviderEvent now w) s = (s1, Inr inbox)"
    using assms(1,2) by (cases "ieFault env IeClaim") (auto simp: ie_call_def processProviderEventInbox_def)
  have "apply_to_email env inbox name target e s1 = (s', Inr True)"
    using assms(2,3) claim d by (simp add: processProviderEventInbox_def process_claimed_def)
  then obtain payload where "apply_call env inbox name target (moved_email inbox target e) payload s1 = (s', Inr ())"
    by (cases rule: apply_to_email_cases) auto
  then have run: "ApplyProviderEvent (ieNow env IeApply) (ibEventID inbox) (eID e) (ibProviderMessageID inbox) target
       (Some \<lparr>evID = ibEventID inbox, evEmailID = eID e, evEvent = name, evData = payload_text inbox\<rparr>)
       (Some \<lparr>obID = ieSHA1 env (ibEventID inbox) ''webhook-outbox'', obTeamID = eTeamID e,
              obEventID = ibEventID inbox, obEvent = name, obPayload = payload, obRetentionClass = RetentionOutbound\<rparr>)
       (providerEventSuppressions env (eTeamID e) target (payload_text inbox)) s1 = (s', Inr ())"
    unfolding apply_call_def by (auto dest!: ie_call_Inr)
  let ?sups = "providerEventSuppressions env (eTeamID e) target (payload_text inbox)"
  have "suppressions s' = fold upsert_suppression ?sups (suppressions s1)"
    using run by (cases rule: ApplyProviderEvent_cases) (auto dest: record_work_frame)
  moreover have "?sups = event_suppressions env (eTeamID e) (fst (event_recipients target recs)) 0 [] (snd (event_recipients target recs))"
    using assms(5,6) by (auto simp: providerEventSuppressions_def split: prod.splits)
  then obtain x where "x \<in> set ?sups" "supTeamID x = eTeamID e" "supEmail x = NormalizeEmail a"
    using event_suppressions_covers [OF assms(7,8), of "[]" env "eTeamID e"] by auto
  ultimately have "by_key sup_key (eTeamID e, NormalizeEmail a) (suppressions s') \<noteq> None"
    using fold_upsert_lookup [of x ?sups "suppressions s1"] by simp
  then have "reason_at s' (eTeamID e) b \<noteq> None" using assms(10) by (simp add: reason_at_def)
  then have "GetByEmails (eTeamID e) bs s' \<noteq> []" using assms(8-10) by (intro reason_at_iff_listed) simp_all
  then show ?thesis by (auto simp: checkRecipientSuppression_def neq_Nil_conv split: list.splits)
qed

section \<open>Examples\<close>

definition demo_inbox :: inbox_env where
  "demo_inbox = \<lparr>ieFault = (\<lambda>_. NoFault), ieNow = (\<lambda>_. 7), ieTags = (\<lambda>_. None),
     ieRecipients = (\<lambda>_. Some ([''Bob@Y.org''], [])), ieParse = (\<lambda>_. None), ieSHA1 = (\<lambda>i _. i + 100),
     ieMarshal = (\<lambda>_. Some ''{}''), ieErrText = (\<lambda>_. ''error''), ieSupID = (\<lambda>n. n), ieDeliveryID = (\<lambda>n. n),
     ieSuppressionRepo = True, ieWebhookRepo = True\<rparr>"

definition demo_bounce :: db where
  "demo_bounce = empty_db\<lparr>emails := [(blank_email 1 9)\<lparr>eStatus := EmailStatusSent, eProviderMessageID := Some ''ses-1''\<rparr>],
     provider_event_inbox := [(demo_callback InboxPending)\<lparr>ibEventID := 5, ibProviderMessageID := ''ses-1'', ibEventType := ''Bounce'',
       ibPayload := Some ''{}'', ibNextAttemptAt := 0\<rparr>]\<rparr>"

definition demo_orphan :: db where
  "demo_orphan = demo_bounce\<lparr>emails := []\<rparr>"

theorem callback_changes_only_its_message_witness:
  "\<exists>s1 inbox e. ClaimProviderEvent 7 None demo_bounce = (s1, Inr inbox) \<and> e \<in> set (emails demo_bounce) \<and> belongs inbox e"
proof -
  have "emails (fst (processProviderEventInbox demo_inbox None demo_bounce)) \<noteq> emails demo_bounce" by code_simp
  moreover have "keyed eID (emails demo_bounce)" "ieNow demo_inbox IeClaim = 7"
    by (simp_all add: demo_bounce_def demo_inbox_def)
  moreover obtain s' r where run: "processProviderEventInbox demo_inbox None demo_bounce = (s', r)" by fastforce
  ultimately show ?thesis using callback_changes_only_its_message [OF run] by auto
qed

theorem stored_callback_is_kept_witness:
  "\<exists>s' r. ProcessProviderEvent True demo_inbox ''ses-9'' ''Delivery'' ''data'' 8 demo_bounce = (s', Inr ()) \<and>
     by_key ibEventID 8 (provider_event_inbox s') = Some r \<and> ibPayload r = Some ''data''"
proof -
  have "snd (ProcessProviderEvent True demo_inbox ''ses-9'' ''Delivery'' ''data'' 8 demo_bounce) = Inr ()" by code_simp
  then obtain s' where run: "ProcessProviderEvent True demo_inbox ''ses-9'' ''Delivery'' ''data'' 8 demo_bounce = (s', Inr ())"
    by (metis prod.collapse)
  have "fst (providerEventDetails ''Delivery'') = ''email.delivered''"
    "callback_id demo_inbox 8 (TrimSpace ''ses-9'') (fst (providerEventDetails ''Delivery'')) = 8"
    "by_key ibEventID 8 (provider_event_inbox demo_bounce) = None"
    by code_simp+
  with stored_callback_is_kept [OF run] run show ?thesis by auto
qed

theorem orphan_callback_given_up_witness:
  "\<exists>r'. by_key ibEventID 5 (provider_event_inbox (rounds demo_inbox 5 (\<lambda>n. int n * (128 * second)) 20 demo_orphan)) = Some r' \<and>
     ibStatus r' = InboxIgnored"
proof -
  let ?r = "hd (provider_event_inbox demo_orphan)"
  have "keyed ibEventID (provider_event_inbox demo_orphan)" "by_key ibEventID 5 (provider_event_inbox demo_orphan) = Some ?r"
    "ibStatus ?r = InboxPending" "ibPayload ?r \<noteq> None" "orphan ?r demo_orphan" "ibNextAttemptAt ?r \<le> 0"
    by (simp_all add: demo_orphan_def demo_bounce_def demo_callback_def orphan_def email_at_def split: option.splits)
  moreover have "fst (providerEventDetails (ibEventType ?r)) \<noteq> []" by code_simp
  moreover have "int n * (128 * second) + 128 * second \<le> int (Suc n) * (128 * second)" for n
    by (simp add: algebra_simps)
  ultimately show ?thesis
    using orphan_callback_given_up [of demo_orphan 5 ?r "\<lambda>n. int n * (128 * second)" demo_inbox] by simp
qed

theorem reported_recipients_blocked_witness:
  "\<exists>x r. checkRecipientSuppression True True NoFault NoFault 9 [''carol@y.org'', ''BOB@y.org ''] 
     (fst (processProviderEventInbox demo_inbox None demo_bounce)) = PolicySuppressed x r"
proof -
  let ?e = "hd (emails demo_bounce)"
  have "snd (processProviderEventInbox demo_inbox None demo_bounce) = Inr True" by code_simp
  then obtain s' where run: "processProviderEventInbox demo_inbox None demo_bounce = (s', Inr True)" by (metis prod.collapse)
  let ?in = "claimed_row 7 (hd (provider_event_inbox demo_bounce))"
  have "snd (ClaimProviderEvent (ieNow demo_inbox IeClaim) None demo_bounce) = Inr ?in"
    by (simp add: ClaimProviderEvent_def demo_bounce_def demo_callback_def inbox_due_def Let_def claimed_row_def demo_inbox_def)
  then obtain s1 where claim: "ClaimProviderEvent (ieNow demo_inbox IeClaim) None demo_bounce = (s1, Inr ?in)"
    by (metis prod.collapse)
  have em: "emails s1 = [?e]"
    using Claim_keeps(1) [of "ieNow demo_inbox IeClaim" None demo_bounce] claim by (simp add: demo_bounce_def)
  have ev: "eProviderMessageID ?e = Some ''ses-1''" "ibProviderMessageID ?in = ''ses-1''" "\<And>st. ieFault demo_inbox st = NoFault"
    by (simp_all add: demo_bounce_def claimed_row_def demo_inbox_def)
  have "correlate demo_inbox ?in s1 = Found ?e"
    by (simp add: correlate_def ie_read_def ev GetByProviderMessageID_def GetByID_def email_at_def em)
  moreover have "snd (providerEventDetails (ibEventType ?in)) = Some EmailStatusBounced"
    "NormalizeEmail ''Bob@Y.org'' \<noteq> []" "NormalizeEmail ''BOB@y.org '' = NormalizeEmail ''Bob@Y.org''" "eTeamID ?e = 9"
    by code_simp+
  moreover have "ieRecipients demo_inbox t = Some ([''Bob@Y.org''], [])" for t by (simp add: demo_inbox_def)
  moreover have "''Bob@Y.org'' \<in> set (snd (event_recipients (Some EmailStatusBounced) ([''Bob@Y.org''], [])))"
    by (simp add: event_recipients_def)
  moreover have "''BOB@y.org '' \<in> set [''carol@y.org'', ''BOB@y.org '']" by simp
  ultimately show ?thesis
    using reported_recipients_blocked [OF claim run, of ?e "Some EmailStatusBounced"] run by (metis fst_conv)
qed

end
