(* ===== verification/LegacyProcessing.thy ===== *)
theory LegacyProcessing
  imports EmailProcessing ProviderEvents
begin

text \<open>
  The path of \<open>internal/service/email_service.go\<close> that processes a queue item in a deployment without send attempts or without the
  delivery pipeline: \<open>processFromQueueLegacy\<close> with \<open>recordEvent\<close> and \<open>recordEventAndDispatch\<close>. Events are recorded as well as
  they can be; a failure there is only logged. The theorem shows that a message the provider has taken is not submitted again by this path
  either, whatever calls fail.
\<close>

section \<open>Environment\<close>

datatype legacy_site =
    LgGet | LgClaim | LgSending | LgSuppressions | LgContacts | LgStatus | LgHooks | LgEvent | LgAccepted | LgProviderID | LgSentStatus

record legacy_env =
  lgParse :: "string \<Rightarrow> uuid option"
  lgFault :: "legacy_site \<Rightarrow> fault"
  lgNow :: "legacy_site \<Rightarrow> instant"
  lgCheckTime :: instant
  lgEventID :: "legacy_site \<Rightarrow> uuid"
  lgDeliveryID :: "uuid \<Rightarrow> uuid"
  lgMarshalEmail :: "Email \<Rightarrow> string option"
  lgUnavailable :: string
  lgMarshalData :: "event_data \<Rightarrow> string option"
  lgSend :: "Email \<Rightarrow> send_error + string"
  lgSuppressionRepo :: bool
  lgContactRepo :: bool
  lgWebhookRepo :: bool
  lgAcceptedRepo :: bool

record legacy_world =
  lwDb :: db
  lwSent :: "uuid list"

definition lg_call :: "legacy_env \<Rightarrow> legacy_site \<Rightarrow> (instant \<Rightarrow> db \<Rightarrow> db \<times> 'a result) \<Rightarrow> legacy_world \<Rightarrow> legacy_world \<times> 'a result" where
  "lg_call env st f w = (case run_call (lgFault env st) (f (lgNow env st)) (lwDb w) of (d, r) \<Rightarrow> (w\<lparr>lwDb := d\<rparr>, r))"

section \<open>Events\<close>

definition event_json :: "legacy_env \<Rightarrow> event_data option \<Rightarrow> string" where
  "event_json env data = (case data of None \<Rightarrow> ''null'' | Some d \<Rightarrow> (case lgMarshalData env d of Some j \<Rightarrow> j | None \<Rightarrow> ''null''))"

definition legacy_recordEvent :: "legacy_env \<Rightarrow> legacy_site \<Rightarrow> uuid \<Rightarrow> string \<Rightarrow> event_data option \<Rightarrow> legacy_world \<Rightarrow> legacy_world" where
  "legacy_recordEvent env st i name data w =
     fst (lg_call env st (\<lambda>now. AddEvent \<lparr>evID = lgEventID env st, evEmailID = i, evEvent = name, evData = event_json env data\<rparr>) w)"

definition recordEventAndDispatch ::
  "legacy_env \<Rightarrow> uuid \<Rightarrow> uuid \<Rightarrow> string \<Rightarrow> event_data option \<Rightarrow> Email \<Rightarrow> legacy_world \<Rightarrow> legacy_world" where
  "recordEventAndDispatch env team i name data payload w =
     (if \<not> lgWebhookRepo env \<or> lgFault env LgHooks \<noteq> NoFault then legacy_recordEvent env LgEvent i name data w
      else case lgMarshalEmail env payload of
             None \<Rightarrow> legacy_recordEvent env LgEvent i name data w
           | Some json \<Rightarrow>
               fst (lg_call env LgEvent (\<lambda>now. AddEventWithDeliveries now
                 \<lparr>evID = lgEventID env LgEvent, evEmailID = i, evEvent = name, evData = event_json env data\<rparr>
                 (map (\<lambda>h. pending_delivery now (lgDeliveryID env (whID h)) (whID h) (lgEventID env LgEvent) name (Some json) RetentionOutbound)
                    (GetByEvent team name (lwDb w)))) w))"

section \<open>One run\<close>

definition legacy_refused :: "legacy_env \<Rightarrow> uuid \<Rightarrow> policy \<Rightarrow> legacy_world \<Rightarrow> legacy_world \<times> (proc_error + unit)" where
  "legacy_refused env i p w =
     (case lg_call env LgStatus (\<lambda>now. UpdateStatus now i EmailStatusFailed) w of
        (w1, Inl _) \<Rightarrow> (w1, Inl ErrOther)
      | (w1, Inr _) \<Rightarrow> (legacy_recordEvent env LgEvent i ''email.failed'' (Some [(''reason'', JString (if p = PolicyUnavailable then lgUnavailable env else policy_text p))]) w1, Inl ErrEmailDeliveryFailed))"

definition legacy_send_error :: "legacy_env \<Rightarrow> uuid \<Rightarrow> Email \<Rightarrow> send_error \<Rightarrow> legacy_world \<Rightarrow> legacy_world \<times> (proc_error + unit)" where
  "legacy_send_error env i email err w =
     (let data = Some (deliveryErrorEventData err) in
      if IsRetryableDeliveryError err then
        (case lg_call env LgStatus (\<lambda>now. UpdateStatus now i EmailStatusQueued) w of
           (w1, Inl _) \<Rightarrow> (w1, Inl ErrOther)
         | (w1, Inr _) \<Rightarrow> (legacy_recordEvent env LgEvent i ''email.retrying'' data w1, Inl ErrEmailDeliveryRetryable))
      else
        (case lg_call env LgStatus (\<lambda>now. UpdateStatus now i EmailStatusFailed) w of
           (w1, Inl _) \<Rightarrow> (w1, Inl ErrOther)
         | (w1, Inr _) \<Rightarrow> (recordEventAndDispatch env (eTeamID email) i ''email.failed'' data email w1, Inl ErrEmailDeliveryFailed)))"

text \<open>The last writes without \<open>MarkProviderAccepted\<close>; the flag tells whether the provider id is stored.\<close>

definition legacy_sent :: "legacy_env \<Rightarrow> uuid \<Rightarrow> Email \<Rightarrow> bool \<Rightarrow> legacy_world \<Rightarrow> legacy_world \<times> (proc_error + unit)" where
  "legacy_sent env i email persisted w =
     (case lg_call env LgSentStatus (\<lambda>now. UpdateStatus now i EmailStatusSent) w of
        (w1, Inl _) \<Rightarrow> (w1, Inl ErrEmailAccepted)
      | (w1, Inr _) \<Rightarrow>
          if \<not> persisted then (w1, Inl ErrEmailAccepted)
          else (recordEventAndDispatch env (eTeamID email) i ''email.sent'' None email w1, Inr ()))"

definition legacy_accepted :: "legacy_env \<Rightarrow> uuid \<Rightarrow> Email \<Rightarrow> string \<Rightarrow> legacy_world \<Rightarrow> legacy_world \<times> (proc_error + unit)" where
  "legacy_accepted env i email raw w =
     (let m = TrimSpace raw in
      if m = [] then legacy_sent env i email True w
      else
        (let sent = email\<lparr>eProviderMessageID := Some m\<rparr> in
         if lgAcceptedRepo env then
           (case lg_call env LgAccepted (\<lambda>now. MarkProviderAccepted now i m) w of
              (w1, Inl _) \<Rightarrow> (w1, Inl ErrEmailAccepted)
            | (w1, Inr _) \<Rightarrow> (recordEventAndDispatch env (eTeamID email) i ''email.sent'' None sent w1, Inr ()))
         else
           (case lg_call env LgProviderID (\<lambda>now. SetProviderMessageID i m) w of
              (w1, Inl _) \<Rightarrow> legacy_sent env i sent False w1
            | (w1, Inr _) \<Rightarrow> legacy_sent env i sent True w1)))"

definition legacy_claimed :: "legacy_env \<Rightarrow> uuid \<Rightarrow> Email \<Rightarrow> legacy_world \<Rightarrow> legacy_world \<times> (proc_error + unit)" where
  "legacy_claimed env i email w =
     (let p = checkRecipientSuppression (lgSuppressionRepo env) (lgContactRepo env) (lgFault env LgSuppressions) (lgFault env LgContacts)
                (eTeamID email) (normalizeEmailRecipients email) (lwDb w)
      in if p \<noteq> PolicyOk then legacy_refused env i p w
      else
        (let w1 = w\<lparr>lwSent := lwSent w @ [i]\<rparr> in
         case lgSend env email of
           Inl err \<Rightarrow> legacy_send_error env i email err w1
         | Inr raw \<Rightarrow> legacy_accepted env i email raw w1))"

definition legacy_claim :: "legacy_env \<Rightarrow> uuid \<Rightarrow> Email \<Rightarrow> legacy_world \<Rightarrow> legacy_world \<times> (proc_error + unit)" where
  "legacy_claim env i email w =
     (case lg_call env LgClaim (\<lambda>now. ClaimForSending now i) w of
        (w1, Inl _) \<Rightarrow> (w1, Inl ErrOther)
      | (w1, Inr False) \<Rightarrow> (w1, Inl ErrEmailNotQueued)
      | (w1, Inr True) \<Rightarrow> legacy_claimed env i email (legacy_recordEvent env LgSending i ''email.sending'' None w1))"

definition processFromQueueLegacy :: "legacy_env \<Rightarrow> string \<Rightarrow> legacy_world \<Rightarrow> legacy_world \<times> (proc_error + unit)" where
  "processFromQueueLegacy env emailID w =
     (case lgParse env emailID of
        None \<Rightarrow> (w, Inl ErrInvalidEmailID)
      | Some i \<Rightarrow>
          (case snd (run_call (lgFault env LgGet) (\<lambda>s. (s, GetByID i s)) (lwDb w)) of
             Inl _ \<Rightarrow> (w, Inl ErrEmailNotFound)
           | Inr email \<Rightarrow>
               if eStatus email \<noteq> EmailStatusQueued then (w, Inl ErrEmailNotQueued)
               else
                 (case eScheduledAt email of
                    Some at \<Rightarrow> if lgCheckTime env < at then (w, Inl (ErrEmailNotDue at)) else legacy_claim env i email w
                  | None \<Rightarrow> legacy_claim env i email w)))"

section \<open>A taken message is not submitted again\<close>

definition unqueued :: "uuid \<Rightarrow> db \<Rightarrow> bool" where
  "unqueued i d \<longleftrightarrow> (\<forall>e \<in> set (emails d). eID e = i \<longrightarrow> eStatus e \<noteq> EmailStatusQueued)"

text \<open>Statements and calls that leave a message out of the queue.\<close>

lemma unqueued_update:
  assumes "unqueued i d" and "\<And>e. eID (f e) = eID e" and "\<And>e. p e \<Longrightarrow> eID e = i \<Longrightarrow> eStatus e \<noteq> EmailStatusQueued \<Longrightarrow> eStatus (f e) \<noteq> EmailStatusQueued"
  shows "unqueued i (d\<lparr>emails := sql_update p f (emails d)\<rparr>)"
  using assms by (auto simp: unqueued_def sql_update_def)

lemma unqueued_statements:
  "unqueued i d \<Longrightarrow> st \<noteq> EmailStatusQueued \<or> j \<noteq> i \<Longrightarrow> unqueued i (fst (UpdateStatus now j st d))"
  "unqueued i d \<Longrightarrow> unqueued i (fst (MarkProviderAccepted now j m d))" "unqueued i d \<Longrightarrow> unqueued i (fst (SetProviderMessageID j m d))"
  "unqueued i d \<Longrightarrow> unqueued i (fst (ClaimForSending now j d))"
  "unqueued i (fst (AddEvent ev d)) \<longleftrightarrow> unqueued i d" "unqueued i (fst (AddEventWithDeliveries now ev ds d)) \<longleftrightarrow> unqueued i d"
  unfolding UpdateStatus_def MarkProviderAccepted_def SetProviderMessageID_def ClaimForSending_def exec_emails_def fst_conv
  by (rule unqueued_update, assumption, auto simp: UpdateStatus_set_def MarkProviderAccepted_set_def)+
    (auto simp: AddEventWithDeliveries_def AddEvent_def unqueued_def)

lemma claimed_unqueued: "unqueued i (fst (ClaimForSending now i d))"
proof -
  let ?f = "\<lambda>e. if eID e = i \<and> eStatus e = EmailStatusQueued then e\<lparr>eStatus := EmailStatusSending, eSendingAt := Some now\<rparr> else e"
  have "emails (fst (ClaimForSending now i d)) = map ?f (emails d)" by (simp add: ClaimForSending_def sql_update_def)
  then have "set (emails (fst (ClaimForSending now i d))) = ?f ` set (emails d)" by simp
  moreover have "eStatus (?f e) \<noteq> EmailStatusQueued" if "eID (?f e) = i" for e using that by (cases "eID e = i \<and> eStatus e = EmailStatusQueued") auto
  ultimately show ?thesis unfolding unqueued_def by (metis (no_types, lifting) imageE)
qed

lemma lg_call_state: "lwDb (fst (lg_call env st f w)) = lwDb w \<or> lwDb (fst (lg_call env st f w)) = fst (f (lgNow env st) (lwDb w))"
  "lwSent (fst (lg_call env st f w)) = lwSent w"
  using run_call_state [of "lgFault env st" "f (lgNow env st)" "lwDb w"] by (auto simp: lg_call_def split: prod.splits)

lemma lg_call_unqueued:
  "unqueued i (lwDb w) \<Longrightarrow> (\<And>now. unqueued i (fst (f now (lwDb w)))) \<Longrightarrow> unqueued i (lwDb (fst (lg_call env st f w)))"
  using lg_call_state(1) [of env st f w] by auto

lemma lg_call_Inr: "lg_call env st f w = (w1, Inr a) \<Longrightarrow> f (lgNow env st) (lwDb w) = (lwDb w1, Inr a)"
  by (auto simp: lg_call_def split: prod.splits dest: run_call_InrD)

lemma record_keeps:
  "unqueued i (lwDb w) \<Longrightarrow> unqueued i (lwDb (legacy_recordEvent env st j name data w))" "lwSent (legacy_recordEvent env st j name data w) = lwSent w"
  "unqueued i (lwDb w) \<Longrightarrow> unqueued i (lwDb (recordEventAndDispatch env team j name data email w))"
  "lwSent (recordEventAndDispatch env team j name data email w) = lwSent w"
  by (auto simp: legacy_recordEvent_def recordEventAndDispatch_def lg_call_state(2) unqueued_statements intro: lg_call_unqueued split: option.splits)

text \<open>One step of a path: a call, whatever it answers.\<close>

lemma lg_step:
  assumes "lg_call env st f w = (w1, x)"
  shows "lwSent w1 = lwSent w" "unqueued i (lwDb w) \<Longrightarrow> (\<And>now. unqueued i (fst (f now (lwDb w)))) \<Longrightarrow> unqueued i (lwDb w1)"
  using lg_call_state(2) [of env st f w] lg_call_unqueued [of i w f env st] assms by auto

lemma legacy_sent_keeps:
  "lwSent (fst (legacy_sent env j email b w)) = lwSent w" "unqueued i (lwDb w) \<Longrightarrow> unqueued i (lwDb (fst (legacy_sent env j email b w)))"
proof -
  show "lwSent (fst (legacy_sent env j email b w)) = lwSent w"
    by (auto simp: legacy_sent_def record_keeps lg_step(1) split: prod.splits sum.splits)
  assume u: "unqueued i (lwDb w)"
  have "unqueued i (lwDb w1)" if "lg_call env LgSentStatus (\<lambda>now. UpdateStatus now j EmailStatusSent) w = (w1, x)" for w1 x
    using lg_step(2) [OF that u] u by (simp add: unqueued_statements)
  then show "unqueued i (lwDb (fst (legacy_sent env j email b w)))"
    by (auto simp: legacy_sent_def intro!: record_keeps split: prod.splits sum.splits)
qed

lemma legacy_accepted_keeps:
  "lwSent (fst (legacy_accepted env j email raw w)) = lwSent w" "unqueued i (lwDb w) \<Longrightarrow> unqueued i (lwDb (fst (legacy_accepted env j email raw w)))"
proof -
  show "lwSent (fst (legacy_accepted env j email raw w)) = lwSent w"
    by (auto simp: legacy_accepted_def Let_def record_keeps legacy_sent_keeps lg_step(1) split: prod.splits sum.splits)
  assume u: "unqueued i (lwDb w)"
  have "unqueued i (lwDb w1)" if "lg_call env LgAccepted (\<lambda>now. MarkProviderAccepted now j m) w = (w1, x)" for m w1 x
    using lg_step(2) [OF that u] u by (simp add: unqueued_statements)
  moreover have "unqueued i (lwDb w1)" if "lg_call env LgProviderID (\<lambda>now. SetProviderMessageID j m) w = (w1, x)" for m w1 x
    using lg_step(2) [OF that u] u by (simp add: unqueued_statements)
  ultimately show "unqueued i (lwDb (fst (legacy_accepted env j email raw w)))"
    using u by (auto simp: legacy_accepted_def Let_def intro!: record_keeps legacy_sent_keeps split: prod.splits sum.splits)
qed

lemma status_call:
  assumes "lg_call env LgStatus (\<lambda>now. UpdateStatus now j st) w = (w1, x)" and "unqueued i (lwDb w)" and "st \<noteq> EmailStatusQueued \<or> j \<noteq> i"
  shows "unqueued i (lwDb w1)"
  using lg_step(2) [OF assms(1,2)] unqueued_statements(1) [OF assms(2,3)] by blast

lemma legacy_errors_keep:
  "lwSent (fst (legacy_refused env j p w)) = lwSent w" "unqueued i (lwDb w) \<Longrightarrow> unqueued i (lwDb (fst (legacy_refused env j p w)))"
  "lwSent (fst (legacy_send_error env j email err w)) = lwSent w"
  "unqueued i (lwDb w) \<Longrightarrow> j \<noteq> i \<Longrightarrow> unqueued i (lwDb (fst (legacy_send_error env j email err w)))"
  by (auto simp: legacy_refused_def legacy_send_error_def Let_def record_keeps lg_step(1) intro!: record_keeps intro: status_call
      split: prod.splits sum.splits)

lemma legacy_claimed_keeps:
  "lwSent (fst (legacy_claimed env j email w)) = lwSent w \<or> lwSent (fst (legacy_claimed env j email w)) = lwSent w @ [j]"
  "unqueued i (lwDb w) \<Longrightarrow> j \<noteq> i \<or> (\<exists>raw. lgSend env email = Inr raw) \<Longrightarrow> unqueued i (lwDb (fst (legacy_claimed env j email w)))"
  by (auto simp: legacy_claimed_def Let_def legacy_errors_keep legacy_accepted_keeps split: sum.splits)

lemma legacy_claim_cases:
  assumes "legacy_claim env j email w = (w', r)"
  obtains (unclaimed) x where "lwSent w' = lwSent w" "lg_call env LgClaim (\<lambda>now. ClaimForSending now j) w = (w', x)"
  | (claimed) w1 where "lg_call env LgClaim (\<lambda>now. ClaimForSending now j) w = (w1, Inr True)"
      "w' = fst (legacy_claimed env j email (legacy_recordEvent env LgSending j ''email.sending'' None w1))"
proof -
  obtain w1 x where c: "lg_call env LgClaim (\<lambda>now. ClaimForSending now j) w = (w1, x)" by (cases "lg_call env LgClaim (\<lambda>now. ClaimForSending now j) w")
  show ?thesis
  proof (cases "x = Inr True")
    case True
    with assms c show ?thesis by (intro claimed [of w1]) (auto simp: legacy_claim_def)
  next
    case False
    then have "w' = w1" using assms c by (auto simp: legacy_claim_def split: sum.splits bool.splits)
    with c lg_step(1) [OF c] show ?thesis by (intro unclaimed [of x]) auto
  qed
qed

lemma legacy_claim_keeps:
  assumes "legacy_claim env j email w = (w', r)"
  shows "(lwSent w' = lwSent w \<or> lwSent w' = lwSent w @ [j]) \<and> (unqueued i (lwDb w) \<longrightarrow> j \<noteq> i \<longrightarrow> unqueued i (lwDb w')) \<and>
    (lwSent w' \<noteq> lwSent w \<longrightarrow> (\<exists>raw. lgSend env email = Inr raw) \<longrightarrow> unqueued j (lwDb w'))"
  using assms
proof (cases rule: legacy_claim_cases)
  case (unclaimed x)
  have "unqueued i (lwDb w')" if u: "unqueued i (lwDb w)" by (rule lg_step(2) [OF unclaimed(2) u]) (rule unqueued_statements(4) [OF u])
  then show ?thesis using unclaimed(1) by simp
next
  case (claimed w1)
  let ?w = "legacy_recordEvent env LgSending j ''email.sending'' None w1"
  have sent: "lwSent ?w = lwSent w" using record_keeps(2) lg_step(1) [OF claimed(1)] by simp
  have own: "unqueued j (lwDb ?w)"
    using lg_call_Inr [OF claimed(1)] claimed_unqueued [of j "lgNow env LgClaim" "lwDb w"] by (intro record_keeps) simp
  have other: "unqueued i (lwDb ?w)" if u: "unqueued i (lwDb w)"
    by (rule record_keeps(1), rule lg_step(2) [OF claimed(1) u]) (rule unqueued_statements(4) [OF u])
  show ?thesis
    using legacy_claimed_keeps(1) [of env j email ?w] legacy_claimed_keeps(2) [of i ?w j env email] legacy_claimed_keeps(2) [of j ?w j env email]
      own other claimed(2) sent by auto
qed

text \<open>A run either ends before the claim and changes nothing, or claims the message it read, which was queued.\<close>

lemma legacy_run_cases:
  assumes "processFromQueueLegacy env item w = (w', r)"
  obtains (early) "w' = w"
  | (claim) j email where "lgParse env item = Some j" "email \<in> set (emails (lwDb w))" "eID email = j" "eStatus email = EmailStatusQueued"
      "legacy_claim env j email w = (w', r)" "\<forall>at. eScheduledAt email = Some at \<longrightarrow> at \<le> lgCheckTime env"
proof (cases "w' = w")
  case False
  obtain j email where j: "lgParse env item = Some j" "snd (run_call (lgFault env LgGet) (\<lambda>s. (s, GetByID j s)) (lwDb w)) = Inr email"
      "eStatus email = EmailStatusQueued" "legacy_claim env j email w = (w', r)" "\<forall>at. eScheduledAt email = Some at \<longrightarrow> at \<le> lgCheckTime env"
    using assms False by (auto simp: processFromQueueLegacy_def split: option.splits sum.splits if_splits)
  have "GetByID j (lwDb w) = Inr email" using j(2) by (cases "lgFault env LgGet") auto
  then show ?thesis using claim [OF j(1) _ _ j(3,4,5)] GetByID_Inr by blast
qed (use early in blast)

fun run_l :: "(legacy_env \<times> string) list \<Rightarrow> legacy_world \<Rightarrow> legacy_world" where
  "run_l [] w = w"
| "run_l ((env, item) # rest) w = run_l rest (fst (processFromQueueLegacy env item w))"

lemma run_l_unqueued: "unqueued i (lwDb w) \<Longrightarrow> unqueued i (lwDb (run_l runs w)) \<and> filter (\<lambda>j. j = i) (lwSent (run_l runs w)) = filter (\<lambda>j. j = i) (lwSent w)"
proof (induction runs arbitrary: w)
  case (Cons run runs)
  obtain env item where run: "run = (env, item)" by (cases run)
  obtain w' r where w': "processFromQueueLegacy env item w = (w', r)" by (cases "processFromQueueLegacy env item w")
  then have "unqueued i (lwDb w') \<and> filter (\<lambda>j. j = i) (lwSent w') = filter (\<lambda>j. j = i) (lwSent w)"
  proof (cases rule: legacy_run_cases)
    case (claim j email)
    then have "j \<noteq> i" using Cons.prems by (auto simp: unqueued_def)
    then show ?thesis using legacy_claim_keeps [OF claim(5), of i] Cons.prems by fastforce
  qed (use Cons.prems in simp)
  then show ?case using Cons.IH [of w'] run w' by simp
qed simp

text \<open>A message the provider has taken is not submitted again by the path without attempts. After a run that submitted it and got a
  message id or no error, whatever calls failed then, no sequence of later runs submits it, as long as no one else puts it back
  into the queue.\<close>

theorem legacy_taken_once:
  assumes "processFromQueueLegacy env item w = (w', r)" and "lgParse env item = Some i" and "lwSent w' \<noteq> lwSent w"
    and "\<And>e. \<exists>raw. lgSend env e = Inr raw"
  shows "lwSent w' = lwSent w @ [i] \<and> filter (\<lambda>j. j = i) (lwSent (run_l runs w')) = filter (\<lambda>j. j = i) (lwSent w')"
  using assms(1)
proof (cases rule: legacy_run_cases)
  case (claim j email)
  then have "j = i" using assms(2) by simp
  then show ?thesis using legacy_claim_keeps [OF claim(5), of i] assms(3,4) run_l_unqueued [of i w' runs] by blast
qed (use assms(3) in simp)

section \<open>Either path\<close>

text \<open>\<open>ProcessFromQueue\<close> takes the durable path when the service has both repositories. The second component lists the messages handed
  to the provider in this run.\<close>

definition ProcessFromQueue :: "bool \<Rightarrow> bool \<Rightarrow> proc_env \<Rightarrow> legacy_env \<Rightarrow> string \<Rightarrow> db \<Rightarrow> db \<times> uuid list \<times> (proc_error + unit)" where
  "ProcessFromQueue attemptRepo pipelineRepo env lenv emailID d =
     (if attemptRepo \<and> pipelineRepo
      then (case processFromQueueDurable env emailID \<lparr>wdb = d, wsent = []\<rparr> of (w, r) \<Rightarrow> (wdb w, map subEmail (wsent w), r))
      else (case processFromQueueLegacy lenv emailID \<lparr>lwDb = d, lwSent = []\<rparr> of (w, r) \<Rightarrow> (lwDb w, lwSent w, r)))"

definition ready_row :: "instant \<Rightarrow> uuid \<Rightarrow> db \<Rightarrow> bool" where
  "ready_row now i d \<longleftrightarrow> (\<exists>e \<in> set (emails d). eID e = i \<and> eStatus e = EmailStatusQueued \<and> (\<forall>at. eScheduledAt e = Some at \<longrightarrow> at \<le> now))"

lemma durable_submits_ready:
  assumes "keyed eID (emails (wdb w))" and "processFromQueueDurable env item w = (w', r)" and "wsent w' \<noteq> wsent w"
  shows "\<exists>i x. penvParse env item = Some i \<and> wsent w' = wsent w @ [x] \<and> subEmail x = i \<and> ready_row (penvCheckTime env) i (wdb w)"
proof -
  from process_trace [OF assms(1,2)] assms(3) obtain i where i: "penvParse env item = Some i"
      "wsent w' = wsent w @ [claim_submission ((env_claim env i)\<lparr>claimLeaseUntil := penvStartTime env + 2 * minute\<rparr>)]"
    by (auto simp: submitted_under_def)
  obtain email where e: "snd (run_call (penvFault env SGet) (\<lambda>s. (s, GetByID i s)) (wdb w)) = Inr email" "eStatus email = EmailStatusQueued"
      "\<not> (case eScheduledAt email of None \<Rightarrow> False | Some at \<Rightarrow> penvCheckTime env < at)"
    using assms(2,3) i(1) by (auto simp: processFromQueueDurable_def split: sum.splits if_splits)
  have "GetByID i (wdb w) = Inr email" using e(1) by (cases "penvFault env SGet") auto
  then have "ready_row (penvCheckTime env) i (wdb w)"
    using e(2,3) GetByID_Inr unfolding ready_row_def by (fastforce split: option.splits)
  with i show ?thesis by (auto simp: claim_submission_def env_claim_def)
qed

lemma legacy_submits_ready:
  assumes "processFromQueueLegacy env item w = (w', r)" and "lwSent w' \<noteq> lwSent w"
  shows "\<exists>i. lgParse env item = Some i \<and> lwSent w' = lwSent w @ [i] \<and> ready_row (lgCheckTime env) i (lwDb w)"
  using assms(1)
proof (cases rule: legacy_run_cases)
  case (claim i email)
  then show ?thesis using legacy_claim_keeps [OF claim(5)] assms(2) by (auto simp: ready_row_def)
qed (use assms(2) in simp)

text \<open>C4: Whichever way the service is built and whatever calls fail, processing a queue item hands over at most the message the item names,
  at most once, and only when it was read as queued and due.\<close>

theorem queue_item_submits_once:
  assumes "keyed eID (emails d)" and "ProcessFromQueue attemptRepo pipelineRepo env lenv item d = (d', sent, r)" and "sent \<noteq> []"
    and "penvParse env = lgParse lenv" and "penvCheckTime env = lgCheckTime lenv"
  shows "\<exists>i. lgParse lenv item = Some i \<and> sent = [i] \<and> ready_row (lgCheckTime lenv) i d"
proof (cases "attemptRepo \<and> pipelineRepo")
  case True
  then obtain w where w: "processFromQueueDurable env item \<lparr>wdb = d, wsent = []\<rparr> = (w, r)" "sent = map subEmail (wsent w)"
    using assms(2) by (auto simp: ProcessFromQueue_def split: prod.splits)
  then show ?thesis using durable_submits_ready [OF _ w(1)] assms by fastforce
next
  case False
  then obtain w where w: "processFromQueueLegacy lenv item \<lparr>lwDb = d, lwSent = []\<rparr> = (w, r)" "sent = lwSent w"
    using assms(2) by (auto simp: ProcessFromQueue_def split: prod.splits if_splits)
  then show ?thesis using legacy_submits_ready [OF w(1)] assms(3) by fastforce
qed

definition demo_legacy :: legacy_env where
  "demo_legacy = \<lparr>lgParse = (\<lambda>_. Some 1), lgFault = (\<lambda>_. NoFault), lgNow = (\<lambda>_. 10), lgCheckTime = 10, lgEventID = (\<lambda>_. 4), lgDeliveryID = (\<lambda>i. i),
     lgMarshalEmail = (\<lambda>_. Some ''{}''), lgUnavailable = [], lgMarshalData = (\<lambda>_. None), lgSend = (\<lambda>_. Inr ''ses-1''),
     lgSuppressionRepo = True, lgContactRepo = True, lgWebhookRepo = True, lgAcceptedRepo = True\<rparr>"

lemma demo_legacy_runs:
  "fst (snd (ProcessFromQueue True True demo_env demo_legacy [] (wdb demo_world))) = [1]"
  "fst (snd (ProcessFromQueue True False demo_env demo_legacy [] (wdb demo_world))) = [1]"
  by code_simp+

theorem queue_item_submits_once_witness:
  "\<exists>i. lgParse demo_legacy [] = Some i \<and> fst (snd (ProcessFromQueue True False demo_env demo_legacy [] (wdb demo_world))) = [i] \<and>
     ready_row 10 i (wdb demo_world)"
proof -
  obtain d' sent r where run: "ProcessFromQueue True False demo_env demo_legacy [] (wdb demo_world) = (d', sent, r)"
    using prod_cases3 by blast
  have "keyed eID (emails (wdb demo_world))" by (simp add: demo_world_def keyed_def)
  moreover have "penvParse demo_env = lgParse demo_legacy" "penvCheckTime demo_env = lgCheckTime demo_legacy" "lgCheckTime demo_legacy = 10"
    by (simp_all add: demo_env_def demo_legacy_def)
  ultimately show ?thesis using queue_item_submits_once [OF _ run] demo_legacy_runs(2) run by simp
qed

end
