(* ===== verification/Webhooks.thy ===== *)
theory Webhooks
  imports DeliveryPipeline Validator "HOL-Library.Product_Lexorder"
begin

text \<open>
  Outgoing webhooks: the endpoints (\<open>webhook_repo.go\<close>), the deliveries
  (\<open>webhook_delivery_repo.go\<close>), the worker that posts them
  (\<open>internal/worker/webhook_worker.go\<close>) and the client with its address filter and retry loop
  (\<open>pkg/webhook/verify.go\<close>). Name resolution, dialling, the HTTP exchange, HMAC and URL parsing are
  parameters. The locale \<open>lease_table\<close> states what a sweep over expired leases promises and is
  interpreted for deliveries, inbox and outbox.
\<close>

section \<open>Endpoints\<close>

definition Webhook_Create :: "Webhook \<Rightarrow> db \<Rightarrow> db \<times> unit result" where
  "Webhook_Create w s =
     (if by_key whID (whID w) (webhooks s) \<noteq> None then (s, Inl UniqueViolation)
      else (s\<lparr>webhooks := webhooks s @ [w]\<rparr>, Inr ()))"

definition Webhook_GetByID :: "uuid \<Rightarrow> db \<Rightarrow> Webhook result" where
  "Webhook_GetByID i s = (case by_key whID i (webhooks s) of None \<Rightarrow> Inl ErrNoRows | Some w \<Rightarrow> Inr w)"

definition Webhook_GetByIDForTeam :: "uuid \<Rightarrow> uuid \<Rightarrow> db \<Rightarrow> Webhook result" where
  "Webhook_GetByIDForTeam team i s =
     (case find (\<lambda>w. whID w = i \<and> whTeamID w = team) (webhooks s) of None \<Rightarrow> Inl ErrNoRows | Some w \<Rightarrow> Inr w)"

definition Webhook_UpdateForTeam :: "Webhook \<Rightarrow> db \<Rightarrow> db \<times> unit result" where
  "Webhook_UpdateForTeam w s =
     (s\<lparr>webhooks := sql_update (\<lambda>x. whID x = whID w \<and> whTeamID x = whTeamID w)
        (\<lambda>x. x\<lparr>whURL := whURL w, whEvents := whEvents w, whActive := whActive w\<rparr>) (webhooks s)\<rparr>, Inr ())"

text \<open>Deleting an endpoint deletes its deliveries.\<close>

definition delete_hooks :: "(Webhook \<Rightarrow> bool) \<Rightarrow> db \<Rightarrow> db" where
  "delete_hooks p s =
     (let gone = map whID (filter p (webhooks s)) in
      s\<lparr>webhooks := sql_delete p (webhooks s),
        webhook_deliveries := sql_delete (\<lambda>d. wdWebhookID d \<in> set gone) (webhook_deliveries s)\<rparr>)"

definition Webhook_DeleteForTeam :: "uuid \<Rightarrow> uuid \<Rightarrow> db \<Rightarrow> db" where
  "Webhook_DeleteForTeam team i = delete_hooks (\<lambda>w. whID w = i \<and> whTeamID w = team)"

section \<open>Deliveries\<close>

definition maxWebhookDeliveryAttempts :: nat where
  "maxWebhookDeliveryAttempts = 5"

definition CreateDelivery :: "instant \<Rightarrow> WebhookDelivery \<Rightarrow> db \<Rightarrow> db \<times> unit result" where
  "CreateDelivery now d s =
     (s\<lparr>webhook_deliveries := insert_delivery
        (pending_delivery now (wdID d) (wdWebhookID d) (wdEventID d) (wdEvent d) (wdPayload d) (event_retention (wdEvent d)))
        (webhook_deliveries s)\<rparr>, Inr ())"

definition claimable :: "instant \<Rightarrow> db \<Rightarrow> WebhookDelivery \<Rightarrow> bool" where
  "claimable now s d \<longleftrightarrow> (\<exists>w \<in> set (webhooks s). whID w = wdWebhookID d \<and> whActive w) \<and>
     wdStatus d = WebhookDeliveryPending \<and> wdPayload d \<noteq> None \<and> wdNextAttemptAt d \<le> now"

definition claim_delivery :: "instant \<Rightarrow> WebhookDelivery \<Rightarrow> WebhookDelivery" where
  "claim_delivery now d = d\<lparr>wdStatus := WebhookDeliverySending, wdAttempts := wdAttempts d + 1,
     wdLeaseUntil := Some (now + minute)\<rparr>"

text \<open>The answer carries the endpoint's address and secret.\<close>

definition ClaimDelivery :: "instant \<Rightarrow> db \<Rightarrow> db \<times> (WebhookDelivery \<times> string \<times> string) result" where
  "ClaimDelivery now s =
     (case first_min (\<lambda>d. (wdNextAttemptAt d, wdCreatedAt d)) (filter (claimable now s) (webhook_deliveries s)) of
        None \<Rightarrow> (s, Inl ErrNoRows)
      | Some d \<Rightarrow>
          (case find (\<lambda>w. whID w = wdWebhookID d \<and> whActive w) (webhooks s) of
             None \<Rightarrow> (s, Inl ErrNoRows)
           | Some w \<Rightarrow>
               (s\<lparr>webhook_deliveries := sql_update (\<lambda>r. wdID r = wdID d) (claim_delivery now) (webhook_deliveries s)\<rparr>,
                Inr (claim_delivery now d, whURL w, whSecret w))))"

definition MarkDelivered :: "instant \<Rightarrow> uuid \<Rightarrow> db \<Rightarrow> db \<times> unit result" where
  "MarkDelivered now i s =
     (s\<lparr>webhook_deliveries := sql_update (\<lambda>r. wdID r = i \<and> wdStatus r = WebhookDeliverySending)
        (\<lambda>r. r\<lparr>wdStatus := WebhookDeliveryDelivered, wdLeaseUntil := None, wdDeliveredAt := Some now\<rparr>)
        (webhook_deliveries s)\<rparr>, Inr ())"

definition fail_delivery :: "string \<Rightarrow> instant \<Rightarrow> WebhookDelivery \<Rightarrow> WebhookDelivery" where
  "fail_delivery reason retryAt r = r\<lparr>
     wdStatus := (if wdAttempts r \<ge> maxWebhookDeliveryAttempts then WebhookDeliveryFailed else WebhookDeliveryPending),
     wdLastError := Some reason, wdNextAttemptAt := retryAt, wdLeaseUntil := None\<rparr>"

definition MarkFailed :: "uuid \<Rightarrow> string \<Rightarrow> instant \<Rightarrow> db \<Rightarrow> db \<times> unit result" where
  "MarkFailed i reason retryAt s =
     (s\<lparr>webhook_deliveries := sql_update (\<lambda>r. wdID r = i \<and> wdStatus r = WebhookDeliverySending)
        (fail_delivery reason retryAt) (webhook_deliveries s)\<rparr>, Inr ())"

definition RecoverStale :: "instant \<Rightarrow> db \<Rightarrow> db \<times> unit result" where
  "RecoverStale now s =
     (s\<lparr>webhook_deliveries := sql_update (\<lambda>r. wdStatus r = WebhookDeliverySending \<and> sql_lt (wdLeaseUntil r) now)
        (\<lambda>r. r\<lparr>wdStatus := WebhookDeliveryPending, wdLeaseUntil := None\<rparr>) (webhook_deliveries s)\<rparr>, Inr ())"

definition replay_where :: "uuid \<Rightarrow> uuid \<Rightarrow> uuid \<Rightarrow> db \<Rightarrow> WebhookDelivery \<Rightarrow> bool" where
  "replay_where team hook i s d \<longleftrightarrow> wdID d = i \<and> wdWebhookID d = hook \<and>
     (\<exists>w \<in> set (webhooks s). whID w = wdWebhookID d \<and> whTeamID w = team \<and> whActive w) \<and>
     wdStatus d = WebhookDeliveryFailed \<and> wdPayload d \<noteq> None"

definition replay_set :: "instant \<Rightarrow> WebhookDelivery \<Rightarrow> WebhookDelivery" where
  "replay_set now d = d\<lparr>wdStatus := WebhookDeliveryPending, wdAttempts := 0, wdNextAttemptAt := now,
     wdLeaseUntil := None, wdLastError := None, wdDeliveredAt := None\<rparr>"

definition ReplayFailed :: "instant \<Rightarrow> uuid \<Rightarrow> uuid \<Rightarrow> uuid \<Rightarrow> db \<Rightarrow> db \<times> unit result" where
  "ReplayFailed now team hook i s =
     (s\<lparr>webhook_deliveries := sql_update (replay_where team hook i s) (replay_set now) (webhook_deliveries s)\<rparr>,
      if rows_affected (replay_where team hook i s) (webhook_deliveries s) = 1 then Inr () else Inl ErrNoRows)"

definition ListForWebhook :: "uuid \<Rightarrow> uuid \<Rightarrow> int \<Rightarrow> db \<Rightarrow> WebhookDelivery list" where
  "ListForWebhook team hook limit s =
     (let l = (if limit < 1 then 50 else limit); l' = (if l > 100 then 100 else l)
      in take (nat l') (sort_key (\<lambda>d. - wdCreatedAt d)
           (filter (\<lambda>d. wdWebhookID d = hook \<and> (\<exists>w \<in> set (webhooks s). whID w = wdWebhookID d \<and> whTeamID w = team))
             (webhook_deliveries s))))"

section \<open>The client\<close>

text \<open>One connection: the addresses in the resolver's order, private ones skipped. \<open>Inr\<close> is the
  address the connection goes to.\<close>

fun dial_first :: "(ip \<Rightarrow> bool) \<Rightarrow> bool \<Rightarrow> ip list \<Rightarrow> string + ip" where
  "dial_first dial tried [] =
     Inl (if tried then ''dial error'' else ''webhook host resolves only to private addresses'')"
| "dial_first dial tried (a # as) =
     (if IsPrivateIP (Some a) then dial_first dial tried as
      else if dial a then Inr a else dial_first dial True as)"

definition safeDialContext ::
  "(string \<Rightarrow> (string \<times> string) option) \<Rightarrow> (string \<Rightarrow> ip list option) \<Rightarrow> (ip \<Rightarrow> bool) \<Rightarrow> string \<Rightarrow> string + ip" where
  "safeDialContext splitHostPort lookup dial address =
     (case splitHostPort address of
        None \<Rightarrow> Inl ''invalid webhook address''
      | Some (host, port) \<Rightarrow>
          (case lookup host of
             None \<Rightarrow> Inl ''resolve webhook host''
           | Some ips \<Rightarrow> dial_first dial False ips))"

text \<open>A request is its address, body and signature; a request that was made also has the address its
  connection goes to. \<open>HttpReply\<close> is a status and the location a reply may name.\<close>

type_synonym hook_request = "string \<times> string \<times> string"

type_synonym sent_request = "ip \<times> hook_request"

datatype http_answer = HttpFailed | HttpReply int "string option"

datatype http_result = HttpError | HttpStatus int

datatype redirect_policy = UseLastResponse | DefaultPolicy

record http_client =
  clDialContext :: "string \<Rightarrow> string + ip"
  clCheckRedirect :: redirect_policy

record hook_client =
  hcParseURL :: "string \<Rightarrow> parsed_url option"
  hcParseIP :: "string \<Rightarrow> ip option"
  hcBody :: "uuid \<Rightarrow> string \<Rightarrow> string \<Rightarrow> string option"
  hcHMAC :: "string \<Rightarrow> string \<Rightarrow> string"
  hcAddress :: "string \<Rightarrow> string"
  hcSplitHostPort :: "string \<Rightarrow> (string \<times> string) option"
  hcLookup :: "nat \<Rightarrow> string \<Rightarrow> ip list option"
  hcDial :: "nat \<Rightarrow> ip \<Rightarrow> bool"
  hcServe :: "nat \<Rightarrow> ip \<Rightarrow> hook_request \<Rightarrow> http_answer"
  hcDone :: "nat \<Rightarrow> bool"

text \<open>\<open>Client.Do\<close> of \<open>net/http\<close>: every connection is opened by the client's dial function; a redirect is
  returned as it is when the policy says so, and otherwise followed, at most ten times, with the
  body for the statuses 307 and 308. A connection kept alive was opened the same way.\<close>

fun client_do :: "nat \<Rightarrow> http_client \<Rightarrow> (string \<Rightarrow> string) \<Rightarrow> (ip \<Rightarrow> hook_request \<Rightarrow> http_answer) \<Rightarrow> hook_request \<Rightarrow>
    sent_request list \<times> http_result" where
  "client_do 0 client address serve req = ([], HttpError)"
| "client_do (Suc n) client address serve (url, body, sig) =
     (case clDialContext client (address url) of
        Inl _ \<Rightarrow> ([], HttpError)
      | Inr a \<Rightarrow>
          (case serve a (url, body, sig) of
             HttpFailed \<Rightarrow> ([(a, url, body, sig)], HttpError)
           | HttpReply code location \<Rightarrow>
               (case location of
                  Some target \<Rightarrow>
                    if code \<in> {301, 302, 303, 307, 308} \<and> clCheckRedirect client = DefaultPolicy
                    then (case client_do n client address serve (target, if code \<in> {307, 308} then body else [], sig) of
                            (sent, res) \<Rightarrow> ((a, url, body, sig) # sent, res))
                    else ([(a, url, body, sig)], HttpStatus code)
                | None \<Rightarrow> ([(a, url, body, sig)], HttpStatus code))))"

definition hook_http :: "hook_client \<Rightarrow> nat \<Rightarrow> http_client" where
  "hook_http c attempt = \<lparr>clDialContext = safeDialContext (hcSplitHostPort c) (hcLookup c attempt) (hcDial c attempt),
     clCheckRedirect = UseLastResponse\<rparr>"

definition hook_do :: "hook_client \<Rightarrow> nat \<Rightarrow> hook_request \<Rightarrow> sent_request list \<times> http_result" where
  "hook_do c attempt req = client_do 11 (hook_http c attempt) (hcAddress c) (hcServe c attempt) req"

definition SignPayload :: "hook_client \<Rightarrow> string \<Rightarrow> string \<Rightarrow> string" where
  "SignPayload c payload secret = hcHMAC c secret payload"

definition VerifySignature :: "hook_client \<Rightarrow> string \<Rightarrow> string \<Rightarrow> string \<Rightarrow> bool" where
  "VerifySignature c payload signature secret \<longleftrightarrow> SignPayload c payload secret = signature"

definition gives_up :: "int \<Rightarrow> bool" where
  "gives_up code \<longleftrightarrow> code < 500 \<and> code \<noteq> 408 \<and> code \<noteq> 429"

text \<open>The loop: the argument is the number of tries left, the caller starts with three. The answer
  is the list of requests made and whether one was accepted.\<close>

fun post_loop :: "hook_client \<Rightarrow> string \<Rightarrow> string \<Rightarrow> string \<Rightarrow> nat \<Rightarrow> sent_request list \<times> bool" where
  "post_loop c url body sig 0 = ([], False)"
| "post_loop c url body sig (Suc n) =
     (let attempt = 2 - n;
          again = (if n > 0 \<and> hcDone c attempt then ([], False) else post_loop c url body sig n)
      in case hook_do c attempt (url, body, sig) of
           (sent, HttpError) \<Rightarrow> (sent @ fst again, snd again)
         | (sent, HttpStatus code) \<Rightarrow>
             if 200 \<le> code \<and> code < 300 then (sent, True)
             else if gives_up code then (sent, False)
             else (sent @ fst again, snd again))"

definition SendWebhookWithIDPolicy ::
  "hook_client \<Rightarrow> uuid \<Rightarrow> string \<Rightarrow> string \<Rightarrow> string \<Rightarrow> string \<Rightarrow> bool \<Rightarrow> sent_request list \<times> bool" where
  "SendWebhookWithIDPolicy c i url secret event payload requireHTTPS =
     (if \<not> IsValidURL (hcParseURL c) (hcParseIP c) url then ([], False)
      else if requireHTTPS \<and> \<not> IsValidHTTPSURL (hcParseURL c) (hcParseIP c) url then ([], False)
      else case hcBody c i event payload of
             None \<Rightarrow> ([], False)
           | Some body \<Rightarrow> post_loop c url body (SignPayload c body secret) 3)"

section \<open>The worker\<close>

text \<open>\<open>time.Duration(math.Pow(2, n))\<close> is exact below \<open>2 ^ 63\<close>; above, the conversion of the
  floating-point number is not specified by the language and is a parameter. The product wraps.\<close>

definition pow2_duration :: "(nat \<Rightarrow> 64 word) \<Rightarrow> nat \<Rightarrow> 64 word" where
  "pow2_duration overflow n = (if n < 63 then 2 ^ n else overflow n)"

definition webhookRetryDelay :: "(nat \<Rightarrow> 64 word) \<Rightarrow> nat \<Rightarrow> 64 word" where
  "webhookRetryDelay overflow attempt =
     (let a = (if attempt < 1 then 1 else attempt);
          delay = pow2_duration overflow (a - 1) * word_of_int second
      in if sint delay > 5 * minute then word_of_int (5 * minute) else delay)"

datatype hook_site = HsDispatch | HsClaim | HsDelivered | HsFailed

record hook_env =
  heFault :: "hook_site \<Rightarrow> fault"
  heNow :: "hook_site \<Rightarrow> instant"
  heRetryNow :: instant
  hePipeline :: bool
  heSHA1 :: "uuid \<Rightarrow> uuid \<Rightarrow> uuid"
  heClient :: hook_client
  heRequireHTTPS :: bool
  heReason :: string
  heOverflow :: "nat \<Rightarrow> 64 word"

record hook_world =
  hdb :: db
  hposts :: "(uuid \<times> sent_request list \<times> bool) list"

datatype step_answer = StepIdle | StepError | StepDone

definition hook_call :: "hook_env \<Rightarrow> hook_site \<Rightarrow> (db \<Rightarrow> db \<times> 'a result) \<Rightarrow> hook_world \<Rightarrow> hook_world \<times> 'a result" where
  "hook_call env st f w = (case run_call (heFault env st) f (hdb w) of (s, r) \<Rightarrow> (w\<lparr>hdb := s\<rparr>, r))"

definition deliver :: "hook_env \<Rightarrow> WebhookDelivery \<Rightarrow> string \<Rightarrow> string \<Rightarrow> hook_world \<Rightarrow> hook_world" where
  "deliver env d url secret w =
     (let post = SendWebhookWithIDPolicy (heClient env) (wdID d) url secret (wdEvent d)
            (case wdPayload d of None \<Rightarrow> [] | Some p \<Rightarrow> p) (heRequireHTTPS env);
          w1 = w\<lparr>hposts := hposts w @ [(wdID d, post)]\<rparr>
      in if snd post
         then fst (hook_call env HsDelivered (MarkDelivered (heNow env HsDelivered) (wdID d)) w1)
         else fst (hook_call env HsFailed (MarkFailed (wdID d) (heReason env)
                (heRetryNow env + sint (webhookRetryDelay (heOverflow env) (wdAttempts d)))) w1))"

text \<open>One iteration of \<open>run\<close>.\<close>

definition webhook_step :: "hook_env \<Rightarrow> hook_world \<Rightarrow> hook_world \<times> step_answer" where
  "webhook_step env w =
     (case (if hePipeline env then hook_call env HsDispatch (DispatchNextOutbox (heSHA1 env) (heNow env HsDispatch)) w
            else (w, Inr False)) of
        (w1, Inl _) \<Rightarrow> (w1, StepError)
      | (w1, Inr _) \<Rightarrow>
          (case hook_call env HsClaim (ClaimDelivery (heNow env HsClaim)) w1 of
             (w2, Inl ErrNoRows) \<Rightarrow> (w2, StepIdle)
           | (w2, Inl _) \<Rightarrow> (w2, StepError)
           | (w2, Inr (d, url, secret)) \<Rightarrow> (deliver env d url secret w2, StepDone)))"

section \<open>Sweeps over expired leases\<close>

text \<open>A row of leased work is free, busy under a lease, or finished. A sweep frees the busy rows whose
  lease has run out and no others.\<close>

locale lease_table =
  fixes busy :: "'r \<Rightarrow> bool" and lease :: "'r \<Rightarrow> instant option" and free :: "'r \<Rightarrow> 'r"
    and key :: "'r \<Rightarrow> 'k"
  assumes freed: "\<not> busy (free r)" and key_free: "key (free r) = key r"
begin

definition sweep :: "instant \<Rightarrow> 'r list \<Rightarrow> 'r list" where
  "sweep now = sql_update (\<lambda>r. busy r \<and> sql_lt (lease r) now) free"

lemma sweep_idem: "sweep now (sweep now rows) = sweep now rows"
  by (induction rows) (auto simp: sweep_def freed)

lemma sweep_row: "by_key key k (sweep now rows) =
    map_option (\<lambda>r. if busy r \<and> sql_lt (lease r) now then free r else r) (by_key key k rows)"
  unfolding sweep_def by (rule by_key_sql_update) (rule key_free)

lemma sweep_keeps_live:
  "by_key key k rows = Some r \<Longrightarrow> \<not> sql_lt (lease r) now \<Longrightarrow> by_key key k (sweep now rows) = Some r"
  by (simp add: sweep_row)

lemma sweep_frees_expired:
  "by_key key k rows = Some r \<Longrightarrow> sql_lt (lease r) now \<Longrightarrow> \<exists>r'. by_key key k (sweep now rows) = Some r' \<and> \<not> busy r'"
  by (auto simp: sweep_row freed)

lemma sweep_keyed: "keyed key rows \<Longrightarrow> keyed key (sweep now rows)"
  unfolding sweep_def by (rule keyed_sql_update) (rule key_free)

end

interpretation wd: lease_table "\<lambda>r. wdStatus r = WebhookDeliverySending" wdLeaseUntil
  "\<lambda>r. r\<lparr>wdStatus := WebhookDeliveryPending, wdLeaseUntil := None\<rparr>" wdID
  by unfold_locales simp_all

interpretation ib: lease_table "\<lambda>r. ibStatus r = InboxProcessing" ibLeaseUntil
  "\<lambda>r. r\<lparr>ibStatus := InboxPending, ibLeaseUntil := None\<rparr>" ibEventID
  by unfold_locales simp_all

interpretation ox: lease_table "\<lambda>r. oxStatus r = OutboxProcessing" oxLeaseUntil
  "\<lambda>r. r\<lparr>oxStatus := OutboxPending, oxLeaseUntil := None\<rparr>" oxEventID
  by unfold_locales simp_all

lemma sweeps:
  "webhook_deliveries (fst (RecoverStale now s)) = wd.sweep now (webhook_deliveries s)"
  "provider_event_inbox (fst (RecoverStalePipelineWork x now s)) = ib.sweep now (provider_event_inbox s)"
  by (simp_all add: RecoverStale_def recover_pipeline_frame recover_inbox_leases_def wd.sweep_def ib.sweep_def)

lemma sweep_outbox: "webhook_outbox (fst (RecoverStalePipelineWork NoFault now s)) = ox.sweep now (webhook_outbox s)"
  by (simp add: RecoverStalePipelineWork_def recover_inbox_leases_def recover_outbox_leases_def ox.sweep_def)

section \<open>Backoff\<close>

lemma duration_product:
  assumes "n \<le> 33"
  shows "sint (pow2_duration ov n * word_of_int second) = 2 ^ n * second"
proof -
  have b: "(2::int) ^ n \<le> 2 ^ 33" using assms by (intro power_increasing) simp_all
  have eq: "pow2_duration ov n * word_of_int second = (word_of_int (2 ^ n * second) :: 64 word)"
    using assms by (simp add: pow2_duration_def)
  have "2 ^ n * second < 2 ^ 63" using b by (simp add: second_def)
  moreover have "0 \<le> 2 ^ n * second" by (simp add: second_def)
  then have "- (2 ^ 63) \<le> 2 ^ n * second" by (rule order_trans [rotated]) simp
  ultimately show ?thesis unfolding eq sint_sbintrunc' by (intro signed_take_bit_int_eq_self) simp_all
qed

lemma retry_delay:
  assumes "a \<le> 34"
  shows "sint (webhookRetryDelay ov a) = min (2 ^ (max a 1 - 1) * second) (5 * minute)"
proof -
  have "max a 1 - 1 \<le> 33" using assms by auto
  note p = duration_product [OF this, of ov]
  have "(if a < 1 then 1 else a) = max a 1" by auto
  moreover have "sint (word_of_int (5 * minute) :: 64 word) = 5 * minute" by (simp add: minute_def second_def)
  ultimately show ?thesis unfolding webhookRetryDelay_def Let_def using p by simp
qed

lemma retry_delay_35: "sint (webhookRetryDelay ov 35) < 0"
  by (simp add: webhookRetryDelay_def pow2_duration_def second_def minute_def)

text \<open>The wait before the next delivery attempt doubles from one second and is capped at five minutes, for
  every attempt up to the thirty-fourth, in 64-bit arithmetic; at the thirty-fifth the
  product overflows and the wait is negative. Attempts are cut off at five unless the statement that
  records a failure keeps failing.\<close>

theorem webhook_retry_delay:
  "(\<forall>a \<le> 34. sint (webhookRetryDelay ov a) = min (2 ^ (max a 1 - 1) * second) (5 * minute)) \<and>
   sint (webhookRetryDelay ov 35) < 0"
  using retry_delay retry_delay_35 by blast

theorem webhook_retry_delay_witness: "sint (webhookRetryDelay (\<lambda>_. 0) 4) = 8 * second"
  using webhook_retry_delay [of "\<lambda>_. 0"] by (simp add: min_def second_def minute_def)

section \<open>What an iteration does to the deliveries\<close>

lemma insert_delivery_row:
  "r \<in> set (insert_delivery d rows) \<Longrightarrow> r \<in> set rows \<or> r = d"
  by (auto simp: insert_delivery_def split: if_splits)

lemma fold_insert_row:
  "r \<in> set (fold (\<lambda>x. insert_delivery (g x)) xs rows) \<Longrightarrow> r \<in> set rows \<or> (\<exists>x \<in> set xs. r = g x)"
  by (induction xs arbitrary: rows) (auto dest: insert_delivery_row)

text \<open>No statement but the one after an accepted post makes a delivery delivered.\<close>

definition delivered_ids :: "db \<Rightarrow> uuid set" where
  "delivered_ids s = wdID ` {r \<in> set (webhook_deliveries s). wdStatus r = WebhookDeliveryDelivered}"

lemma delivered_ids_update:
  assumes "\<And>r. p r \<Longrightarrow> wdStatus (f r) \<noteq> WebhookDeliveryDelivered"
    and "webhook_deliveries s' = sql_update p f (webhook_deliveries s)"
  shows "delivered_ids s' \<subseteq> delivered_ids s"
  using assms(1) unfolding delivered_ids_def assms(2) by (auto simp: set_sql_update)

lemma delivered_ids_dispatch: "delivered_ids (fst (DispatchNextOutbox sha now s)) \<subseteq> delivered_ids s"
proof (cases "outbox_first (filter (outbox_due now) (webhook_outbox s))")
  case (Some item)
  let ?g = "\<lambda>w. pending_delivery now (sha (oxEventID item) w) w (oxEventID item) (oxEvent item) (oxPayload item) (oxRetentionClass item)"
  have "webhook_deliveries (fst (DispatchNextOutbox sha now s)) =
      fold (\<lambda>w. insert_delivery (?g w)) (map whID (filter (subscribed item) (webhooks s))) (webhook_deliveries s)"
    using Some by (simp add: DispatchNextOutbox_def Let_def)
  then show ?thesis
    unfolding delivered_ids_def using fold_insert_row [of _ ?g] by (fastforce simp: pending_delivery_def)
qed (simp add: DispatchNextOutbox_def)

lemma ClaimDelivery_cases:
  assumes "ClaimDelivery now s = (s', r)"
  obtains (idle) "s' = s" "r = Inl ErrNoRows"
  | (claimed) d w where "d \<in> set (webhook_deliveries s)" "claimable now s d"
      "s' = s\<lparr>webhook_deliveries := sql_update (\<lambda>r. wdID r = wdID d) (claim_delivery now) (webhook_deliveries s)\<rparr>"
      "r = Inr (claim_delivery now d, whURL w, whSecret w)" "w \<in> set (webhooks s)" "whID w = wdWebhookID d" "whActive w"
proof (cases "first_min (\<lambda>d. (wdNextAttemptAt d, wdCreatedAt d)) (filter (claimable now s) (webhook_deliveries s))")
  case None
  with assms idle show ?thesis by (simp add: ClaimDelivery_def)
next
  case (Some d)
  have d: "d \<in> set (webhook_deliveries s)" "claimable now s d" using first_min_SomeD [OF Some] by auto
  then obtain w where w: "find (\<lambda>w. whID w = wdWebhookID d \<and> whActive w) (webhooks s) = Some w"
    by (cases "find (\<lambda>w. whID w = wdWebhookID d \<and> whActive w) (webhooks s)") (auto simp: find_None_iff claimable_def)
  then have "w \<in> set (webhooks s)" "whID w = wdWebhookID d" "whActive w" by (auto simp: find_Some_iff)
  moreover have "s' = s\<lparr>webhook_deliveries := sql_update (\<lambda>r. wdID r = wdID d) (claim_delivery now) (webhook_deliveries s)\<rparr>"
    "r = Inr (claim_delivery now d, whURL w, whSecret w)"
    using assms Some w by (auto simp: ClaimDelivery_def)
  ultimately show ?thesis using claimed [OF d] by blast
qed

lemma delivered_ids_claim: "delivered_ids (fst (ClaimDelivery now s)) \<subseteq> delivered_ids s"
proof -
  obtain s' r where run: "ClaimDelivery now s = (s', r)" by (cases "ClaimDelivery now s")
  then show ?thesis
  proof (cases rule: ClaimDelivery_cases)
    case (claimed d w)
    then show ?thesis using run
      by (intro delivered_ids_update [where p = "\<lambda>r. wdID r = wdID d" and f = "claim_delivery now"])
        (simp_all add: claim_delivery_def)
  qed (use run in simp)
qed

lemma delivered_ids_failed: "delivered_ids (fst (MarkFailed i reason at s)) \<subseteq> delivered_ids s"
  by (rule delivered_ids_update [where f = "fail_delivery reason at"]) (simp_all add: MarkFailed_def fail_delivery_def)

lemma delivered_ids_delivered: "delivered_ids (fst (MarkDelivered now i s)) \<subseteq> insert i (delivered_ids s)"
  by (auto simp: delivered_ids_def MarkDelivered_def set_sql_update split: if_splits)

lemma hook_call_state:
  "hdb (fst (hook_call env st f w)) = hdb w \<or> hdb (fst (hook_call env st f w)) = fst (f (hdb w))"
  "hposts (fst (hook_call env st f w)) = hposts w"
  using run_call_state [of "heFault env st" f "hdb w"] by (auto simp: hook_call_def split: prod.splits)

lemma hook_call_delivered:
  "delivered_ids (fst (f (hdb w))) \<subseteq> X \<union> delivered_ids (hdb w) \<Longrightarrow>
   delivered_ids (hdb (fst (hook_call env st f w))) \<subseteq> X \<union> delivered_ids (hdb w)"
  using hook_call_state(1) [of env st f w] by auto

lemma deliver_marks:
  "delivered_ids (hdb (deliver env d url secret w)) \<subseteq>
     delivered_ids (hdb w) \<union> {i. \<exists>reqs. (i, reqs, True) \<in> set (drop (length (hposts w)) (hposts (deliver env d url secret w)))}"
proof -
  let ?post = "SendWebhookWithIDPolicy (heClient env) (wdID d) url secret (wdEvent d)
      (case wdPayload d of None \<Rightarrow> [] | Some p \<Rightarrow> p) (heRequireHTTPS env)"
  let ?w = "w\<lparr>hposts := hposts w @ [(wdID d, ?post)]\<rparr>"
  have posts: "hposts (deliver env d url secret w) = hposts w @ [(wdID d, ?post)]"
    by (simp add: deliver_def Let_def hook_call_state)
  show ?thesis
  proof (cases "snd ?post")
    case True
    then have "delivered_ids (hdb (deliver env d url secret w)) \<subseteq> {wdID d} \<union> delivered_ids (hdb ?w)"
      using hook_call_delivered [of "MarkDelivered (heNow env HsDelivered) (wdID d)" ?w "{wdID d}" env HsDelivered]
        delivered_ids_delivered [of "heNow env HsDelivered" "wdID d" "hdb ?w"]
      by (simp add: deliver_def Let_def)
    moreover have "(wdID d, fst ?post, True) = (wdID d, ?post)" using True by (metis prod.collapse)
    ultimately show ?thesis unfolding posts by auto
  next
    case False
    then have "delivered_ids (hdb (deliver env d url secret w)) \<subseteq> {} \<union> delivered_ids (hdb ?w)"
      using hook_call_delivered [of "MarkFailed (wdID d) (heReason env)
          (heRetryNow env + sint (webhookRetryDelay (heOverflow env) (wdAttempts d)))" ?w "{}" env HsFailed]
        delivered_ids_failed [of "wdID d" "heReason env" _ "hdb ?w"]
      by (simp add: deliver_def Let_def)
    then show ?thesis by auto
  qed
qed

text \<open>A delivery counts as delivered only when the endpoint accepted it. In an iteration of the worker,
  whatever calls fail, a delivery becomes delivered only if this iteration posted it and
  got a success answer.\<close>

theorem delivered_only_if_accepted:
  "delivered_ids (hdb (fst (webhook_step env w))) \<subseteq> delivered_ids (hdb w) \<union>
     {i. \<exists>reqs. (i, reqs, True) \<in> set (drop (length (hposts w)) (hposts (fst (webhook_step env w))))}"
proof -
  obtain w1 a where d: "(if hePipeline env then hook_call env HsDispatch (DispatchNextOutbox (heSHA1 env) (heNow env HsDispatch)) w
      else (w, Inr False)) = (w1, a)"
    by (metis surj_pair)
  have 1: "delivered_ids (hdb w1) \<subseteq> delivered_ids (hdb w)" "hposts w1 = hposts w"
    using hook_call_delivered [of "DispatchNextOutbox (heSHA1 env) (heNow env HsDispatch)" w "{}" env HsDispatch]
      delivered_ids_dispatch [of "heSHA1 env" "heNow env HsDispatch" "hdb w"]
      hook_call_state(2) [of env HsDispatch "DispatchNextOutbox (heSHA1 env) (heNow env HsDispatch)" w] d
    by (auto split: if_splits)
  obtain w2 b where c: "hook_call env HsClaim (ClaimDelivery (heNow env HsClaim)) w1 = (w2, b)"
    by (metis surj_pair)
  have 2: "delivered_ids (hdb w2) \<subseteq> delivered_ids (hdb w1)" "hposts w2 = hposts w1"
    using hook_call_delivered [of "ClaimDelivery (heNow env HsClaim)" w1 "{}" env HsClaim]
      delivered_ids_claim [of "heNow env HsClaim" "hdb w1"]
      hook_call_state(2) [of env HsClaim "ClaimDelivery (heNow env HsClaim)" w1] c
    by auto
  have "fst (webhook_step env w) = w1 \<or> fst (webhook_step env w) = w2 \<or>
      (\<exists>x url secret. fst (webhook_step env w) = deliver env x url secret w2)"
    using d c by (auto simp: webhook_step_def split: sum.splits db_error.splits prod.splits)
  then show ?thesis
    using 1 2 deliver_marks [of env _ _ _ w2] by (elim disjE exE) fastforce+
qed

text \<open>How a claimed delivery ends when nothing else fails. It is posted under its own id; an accepted post makes
  it delivered, a refused one makes it pending again after the backoff, or failed for good when this
  was the fifth attempt or later; in every case the lease is given back.\<close>

theorem webhook_attempt_outcome:
  assumes "keyed wdID (webhook_deliveries (hdb w))" and "heFault env = (\<lambda>_. NoFault)" and "\<not> hePipeline env"
    and "ClaimDelivery (heNow env HsClaim) (hdb w) = (s1, Inr (d, url, secret))" and "wdAttempts d \<le> 34"
  shows "\<exists>w' r post. webhook_step env w = (w', StepDone) \<and> hposts w' = hposts w @ [(wdID d, post)] \<and>
    by_key wdID (wdID d) (webhook_deliveries (hdb w')) = Some r \<and> wdAttempts r = wdAttempts d \<and> wdLeaseUntil r = None \<and>
    (if snd post then wdStatus r = WebhookDeliveryDelivered
     else if wdAttempts d \<ge> 5 then wdStatus r = WebhookDeliveryFailed
     else wdStatus r = WebhookDeliveryPending \<and>
       wdNextAttemptAt r = heRetryNow env + min (2 ^ (max (wdAttempts d) 1 - 1) * second) (5 * minute))"
  using assms(4)
proof (cases rule: ClaimDelivery_cases)
  case (claimed d0 hook)
  let ?now = "heNow env HsClaim"
  let ?post = "SendWebhookWithIDPolicy (heClient env) (wdID d) url secret (wdEvent d)
      (case wdPayload d of None \<Rightarrow> [] | Some p \<Rightarrow> p) (heRequireHTTPS env)"
  let ?at = "heRetryNow env + sint (webhookRetryDelay (heOverflow env) (wdAttempts d))"
  have d: "d = claim_delivery ?now d0" "wdID d = wdID d0" "wdStatus d = WebhookDeliverySending"
    using claimed(4) by (auto simp: claim_delivery_def)
  have id: "wdID (claim_delivery ?now x) = wdID x" for x by (simp add: claim_delivery_def)
  have row: "by_key wdID (wdID d) (webhook_deliveries s1) = Some d"
    using keyed_by_key [OF assms(1) claimed(1)] claimed(3) by (simp add: d(1) id by_key_sql_update)
  have step: "webhook_step env w = (deliver env d url secret (w\<lparr>hdb := s1\<rparr>), StepDone)"
    using assms(2-4) by (simp add: webhook_step_def hook_call_def)
  have posts: "hposts (deliver env d url secret (w\<lparr>hdb := s1\<rparr>)) = hposts w @ [(wdID d, ?post)]"
    by (simp add: deliver_def Let_def hook_call_state)
  have del: "webhook_deliveries (hdb (deliver env d url secret (w\<lparr>hdb := s1\<rparr>))) =
     sql_update (\<lambda>r. wdID r = wdID d \<and> wdStatus r = WebhookDeliverySending)
       (if snd ?post then \<lambda>r. r\<lparr>wdStatus := WebhookDeliveryDelivered, wdLeaseUntil := None, wdDeliveredAt := Some (heNow env HsDelivered)\<rparr>
        else fail_delivery (heReason env) ?at) (webhook_deliveries s1)"
    using assms(2) by (simp add: deliver_def Let_def hook_call_def MarkDelivered_def MarkFailed_def)
  let ?r = "if snd ?post then d\<lparr>wdStatus := WebhookDeliveryDelivered, wdLeaseUntil := None, wdDeliveredAt := Some (heNow env HsDelivered)\<rparr>
    else fail_delivery (heReason env) ?at d"
  have "by_key wdID (wdID d) (webhook_deliveries (hdb (deliver env d url secret (w\<lparr>hdb := s1\<rparr>)))) = Some ?r"
    unfolding del using row d(3) by (subst by_key_sql_update) (simp_all add: fail_delivery_def)
  moreover have "wdAttempts ?r = wdAttempts d \<and> wdLeaseUntil ?r = None \<and>
    (if snd ?post then wdStatus ?r = WebhookDeliveryDelivered
     else if wdAttempts d \<ge> 5 then wdStatus ?r = WebhookDeliveryFailed
     else wdStatus ?r = WebhookDeliveryPending \<and>
       wdNextAttemptAt ?r = heRetryNow env + min (2 ^ (max (wdAttempts d) 1 - 1) * second) (5 * minute))"
    using retry_delay [OF assms(5)] by (simp add: fail_delivery_def maxWebhookDeliveryAttempts_def)
  ultimately show ?thesis using step posts by blast
qed simp

section \<open>Addresses the client connects to\<close>

lemma dial_first_public: "dial_first dial tried as = Inr a \<Longrightarrow> \<not> IsPrivateIP (Some a) \<and> a \<in> set as"
  by (induction dial tried as rule: dial_first.induct) (auto split: if_splits)

lemma safe_dial_public:
  "safeDialContext split lookup dial address = Inr a \<Longrightarrow> \<not> IsPrivateIP (Some a)"
  by (auto simp: safeDialContext_def dest: dial_first_public split: option.splits prod.splits)

lemma dial_first_private: "\<forall>a \<in> set as. IsPrivateIP (Some a) \<Longrightarrow> \<exists>e. dial_first dial tried as = Inl e"
  by (induction dial tried as rule: dial_first.induct) auto

lemma hook_do_once:
  "hook_do c attempt (url, body, sig) =
     (case safeDialContext (hcSplitHostPort c) (hcLookup c attempt) (hcDial c attempt) (hcAddress c url) of
        Inl _ \<Rightarrow> ([], HttpError)
      | Inr a \<Rightarrow> ([(a, url, body, sig)], case hcServe c attempt a (url, body, sig) of HttpFailed \<Rightarrow> HttpError | HttpReply code _ \<Rightarrow> HttpStatus code))"
proof -
  have n: "(11 :: nat) = Suc 10" by simp
  show ?thesis unfolding hook_do_def n client_do.simps hook_http_def by (simp split: sum.split http_answer.split option.split)
qed

lemma hook_do_sends:
  "x \<in> set (fst (hook_do c attempt req)) \<Longrightarrow> snd x = req \<and> \<not> IsPrivateIP (Some (fst x))"
  "length (fst (hook_do c attempt req)) \<le> 1"
  by (cases req; auto simp: hook_do_once dest: safe_dial_public split: sum.splits)+

lemma post_loop_bound: "length (fst (post_loop c url body sig n)) \<le> n"
proof (induction n)
  case (Suc n)
  obtain sent res where d: "hook_do c (2 - n) (url, body, sig) = (sent, res)" by (cases "hook_do c (2 - n) (url, body, sig)")
  then have "length sent \<le> 1" using hook_do_sends(2) [of c "2 - n" "(url, body, sig)"] by simp
  with Suc d show ?case by (auto simp: Let_def split: http_result.splits)
qed simp

lemma post_loop_requests:
  "x \<in> set (fst (post_loop c url body sig n)) \<Longrightarrow> snd x = (url, body, sig) \<and> \<not> IsPrivateIP (Some (fst x))"
proof (induction n)
  case (Suc n)
  obtain sent res where d: "hook_do c (2 - n) (url, body, sig) = (sent, res)" by (cases "hook_do c (2 - n) (url, body, sig)")
  then have "x \<in> set sent \<or> x \<in> set (fst (post_loop c url body sig n))"
    using Suc.prems by (auto simp: Let_def split: http_result.splits if_splits)
  then show ?case using Suc.IH hook_do_sends(1) [of x c "2 - n" "(url, body, sig)"] d by auto
qed simp

text \<open>C21: What leaves the client. Every request of a delivery is made over a connection to an address that is not
  restricted, whatever the name resolves to; it goes to the endpoint's address, which passed the
  check (and uses HTTPS where that is required), never to an address that a reply redirects to; it carries a signature
  that verifies under the endpoint's secret; and there are at most three requests.\<close>

theorem webhook_requests_are_safe:
  "(\<forall>a u b sig. (a, u, b, sig) \<in> set (fst (SendWebhookWithIDPolicy c i url secret event payload https)) \<longrightarrow>
      \<not> IsPrivateIP (Some a) \<and> u = url \<and> IsValidURL (hcParseURL c) (hcParseIP c) url \<and>
      (https \<longrightarrow> IsValidHTTPSURL (hcParseURL c) (hcParseIP c) url) \<and> VerifySignature c b sig secret) \<and>
   length (fst (SendWebhookWithIDPolicy c i url secret event payload https)) \<le> 3"
proof -
  let ?run = "SendWebhookWithIDPolicy c i url secret event payload https"
  have "?run = ([], False) \<or> IsValidURL (hcParseURL c) (hcParseIP c) url \<and>
      (https \<longrightarrow> IsValidHTTPSURL (hcParseURL c) (hcParseIP c) url) \<and>
      (\<exists>body. ?run = post_loop c url body (SignPayload c body secret) 3)"
    by (auto simp: SendWebhookWithIDPolicy_def split: option.splits)
  then show ?thesis
  proof (elim disjE conjE exE)
    fix body assume v: "IsValidURL (hcParseURL c) (hcParseIP c) url" "https \<longrightarrow> IsValidHTTPSURL (hcParseURL c) (hcParseIP c) url"
      and run: "?run = post_loop c url body (SignPayload c body secret) 3"
    show ?thesis
      unfolding run using v post_loop_requests [of _ c url body "SignPayload c body secret" 3] post_loop_bound [of c url body "SignPayload c body secret" 3]
      by (fastforce simp: VerifySignature_def)
  qed simp
qed

section \<open>Examples\<close>

definition demo_client :: hook_client where
  "demo_client = \<lparr>hcParseURL = (\<lambda>u. Some \<lparr>urlScheme = ''https'', urlHostname = ''h.org'', urlHasUser = False, urlFragment = []\<rparr>),
     hcParseIP = (\<lambda>_. None), hcBody = (\<lambda>_ _ p. Some p), hcHMAC = (\<lambda>k p. k @ p), hcAddress = (\<lambda>_. ''h.org:443''),
     hcSplitHostPort = (\<lambda>_. Some (''h.org'', ''443'')), hcLookup = (\<lambda>_ _. Some [IPv4 (ip4 10 0 0 1), IPv4 (ip4 93 184 216 34)]),
     hcDial = (\<lambda>_ _. True), hcServe = (\<lambda>_ _ _. HttpReply 302 (Some ''http://10.0.0.1'')), hcDone = (\<lambda>_. False)\<rparr>"

definition demo_hook_env :: hook_env where
  "demo_hook_env = \<lparr>heFault = (\<lambda>_. NoFault), heNow = (\<lambda>_. 10), heRetryNow = 11, hePipeline = False, heSHA1 = (\<lambda>a b. a + b),
     heClient = demo_client, heRequireHTTPS = True, heReason = ''status 500'', heOverflow = (\<lambda>_. 0)\<rparr>"

definition demo_hooks :: hook_world where
  "demo_hooks = \<lparr>hdb = empty_db\<lparr>webhooks := [\<lparr>whID = 3, whTeamID = 9, whURL = ''https://h.org'', whEvents = [], whSecret = ''s'', whActive = True, whCreatedAt = 0\<rparr>],
     webhook_deliveries := [pending_delivery 5 1 3 2 ''email.sent'' (Some ''p'') RetentionOutbound]\<rparr>, hposts = []\<rparr>"

text \<open>The name resolves to a private and to a public address, and the reply redirects to the private one.\<close>

lemma demo_addresses: "IsPrivateIP (Some (IPv4 (ip4 10 0 0 1)))" "\<not> IsPrivateIP (Some (IPv4 (ip4 93 184 216 34)))"
  by (simp_all add: private_ip_exact unat_ip4 forbidden4_def dotted_def)

lemma demo_posts:
  "SendWebhookWithIDPolicy demo_client 1 ''https://h.org'' ''s'' ''email.sent'' ''p'' True =
     ([(IPv4 (ip4 93 184 216 34), ''https://h.org'', ''p'', ''sp'')], False)"
proof -
  have "hook_do demo_client 0 (''https://h.org'', ''p'', ''sp'') = ([(IPv4 (ip4 93 184 216 34), ''https://h.org'', ''p'', ''sp'')], HttpStatus 302)"
    unfolding hook_do_once using demo_addresses by (simp add: safeDialContext_def demo_client_def)
  moreover have "IsValidURL (hcParseURL demo_client) (hcParseIP demo_client) ''https://h.org''" "IsValidHTTPSURL (hcParseURL demo_client) (hcParseIP demo_client) ''https://h.org''"
    by (simp_all add: demo_client_def IsValidURL_def IsValidHTTPSURL_def IsPrivateHost_def ToLower_def lower_char_def TrimSuffix_def HasSuffix_def)
  moreover have "hcBody demo_client 1 ''email.sent'' ''p'' = Some ''p''" "SignPayload demo_client ''p'' ''s'' = ''sp''"
    by (simp_all add: demo_client_def SignPayload_def)
  ultimately show ?thesis
    by (simp add: SendWebhookWithIDPolicy_def numeral_3_eq_3 Let_def gives_up_def)
qed

theorem webhook_requests_are_safe_witness:
  "\<not> IsPrivateIP (Some (IPv4 (ip4 93 184 216 34))) \<and> VerifySignature demo_client ''p'' ''sp'' ''s''"
  using webhook_requests_are_safe [of demo_client 1 "''https://h.org''" "''s''" "''email.sent''" "''p''" True] demo_posts
  by (metis fst_conv list.set_intros(1))

theorem webhook_attempt_outcome_witness:
  "\<exists>w' r post. webhook_step demo_hook_env demo_hooks = (w', StepDone) \<and>
     by_key wdID 1 (webhook_deliveries (hdb w')) = Some r \<and> hposts w' = [(1, post)]"
proof -
  let ?d = "claim_delivery 10 (pending_delivery 5 1 3 2 ''email.sent'' (Some ''p'') RetentionOutbound)"
  have "snd (ClaimDelivery (heNow demo_hook_env HsClaim) (hdb demo_hooks)) = Inr (?d, ''https://h.org'', ''s'')"
    by (simp add: ClaimDelivery_def demo_hooks_def demo_hook_env_def claimable_def pending_delivery_def)
  then obtain s1 where "ClaimDelivery (heNow demo_hook_env HsClaim) (hdb demo_hooks) = (s1, Inr (?d, ''https://h.org'', ''s''))"
    by (metis prod.collapse)
  moreover have "keyed wdID (webhook_deliveries (hdb demo_hooks))" "heFault demo_hook_env = (\<lambda>_. NoFault)" "\<not> hePipeline demo_hook_env"
    "wdAttempts ?d \<le> 34" "wdID ?d = 1" "hposts demo_hooks = []"
    by (simp_all add: demo_hooks_def demo_hook_env_def claim_delivery_def pending_delivery_def)
  ultimately show ?thesis
    using webhook_attempt_outcome [of demo_hooks demo_hook_env s1 ?d "''https://h.org''" "''s''"] by auto
qed

end
