(* ===== verification/Retention.thy ===== *)
theory Retention
  imports Webhooks
begin

text \<open>
  Retention: \<open>internal/service/retention_service.go\<close> with the statements it runs in
  \<open>webhook_delivery_repo.go\<close> (\<open>PurgeByEventClass\<close>), \<open>email_repo.go\<close> (\<open>PurgeEmailsBefore\<close>) and
  \<open>inbound_repo.go\<close>. The object store that holds raw inbound messages is known by the keys it was
  asked to delete; the deletion and every statement may fail, before or after it took effect.
\<close>

section \<open>Payloads of webhooks and callbacks\<close>

definition class_text :: "RetentionClass \<Rightarrow> string" where
  "class_text c = (case c of RetentionOutbound \<Rightarrow> ''outbound'' | RetentionInbound \<Rightarrow> ''inbound'')"

definition removed_text :: string where
  "removed_text = ''payload removed by retention policy''"

definition purge_delivery :: "WebhookDelivery \<Rightarrow> WebhookDelivery" where
  "purge_delivery r =
     (let open = wdStatus r \<in> {WebhookDeliveryPending, WebhookDeliverySending} in
      r\<lparr>wdPayload := None, wdStatus := (if open then WebhookDeliveryFailed else wdStatus r),
        wdLeaseUntil := None, wdLastError := (if open then Some removed_text else wdLastError r)\<rparr>)"

definition purge_outbox :: "outbox_row \<Rightarrow> outbox_row" where
  "purge_outbox r =
     (let open = oxStatus r \<in> {OutboxPending, OutboxProcessing} in
      r\<lparr>oxPayload := None, oxStatus := (if open then OutboxFailed else oxStatus r),
        oxLeaseUntil := None, oxLastError := (if open then Some removed_text else oxLastError r)\<rparr>)"

definition purge_inbox :: "instant \<Rightarrow> ProviderEventInbox \<Rightarrow> ProviderEventInbox" where
  "purge_inbox now r =
     (let open = ibStatus r \<in> {InboxPending, InboxProcessing} in
      r\<lparr>ibPayload := None, ibStatus := (if open then InboxIgnored else ibStatus r),
        ibLeaseUntil := None, ibLastError := (if open then Some removed_text else ibLastError r),
        ibProcessedAt := (if open then coalesce (ibProcessedAt r) now else ibProcessedAt r)\<rparr>)"

definition PurgeByEventClass :: "instant \<Rightarrow> string \<Rightarrow> instant \<Rightarrow> db \<Rightarrow> db \<times> nat result" where
  "PurgeByEventClass now cls before s =
     (if cls \<noteq> ''outbound'' \<and> cls \<noteq> ''inbound'' then (s, Inl ErrBadArgument)
      else
        (let pd = (\<lambda>r. wdCreatedAt r < before \<and> class_text (wdRetentionClass r) = cls \<and> wdPayload r \<noteq> None);
             po = (\<lambda>r. oxCreatedAt r < before \<and> class_text (oxRetentionClass r) = cls \<and> oxPayload r \<noteq> None);
             pin = (\<lambda>r. ibCreatedAt r < before \<and> ibPayload r \<noteq> None);
             n = rows_affected pd (webhook_deliveries s) + rows_affected po (webhook_outbox s);
             s1 = s\<lparr>webhook_deliveries := sql_update pd purge_delivery (webhook_deliveries s),
                    webhook_outbox := sql_update po purge_outbox (webhook_outbox s)\<rparr>
         in if cls = ''outbound''
            then (s1\<lparr>provider_event_inbox := sql_update pin (purge_inbox now) (provider_event_inbox s1)\<rparr>,
                  Inr (n + rows_affected pin (provider_event_inbox s1)))
            else (s1, Inr n)))"

section \<open>Inbound messages\<close>

definition expired :: "instant \<Rightarrow> db \<Rightarrow> InboundEmail list" where
  "expired before s = filter (\<lambda>m. inCreatedAt m < before) (inbound_emails s)"

definition raw_key :: "InboundEmail \<Rightarrow> string" where
  "raw_key m = (case inRawS3Key m of None \<Rightarrow> [] | Some k \<Rightarrow> k)"

definition ListExpired :: "instant \<Rightarrow> int \<Rightarrow> db \<Rightarrow> (uuid \<times> string) list" where
  "ListExpired before limit s =
     (let l = (if limit < 1 then 500 else limit); l' = (if l > 1000 then 1000 else l)
      in map (\<lambda>m. (inID m, raw_key m)) (take (nat l') (sort_key (\<lambda>m. (inCreatedAt m, inID m)) (expired before s))))"

definition delete_where :: "uuid \<Rightarrow> instant \<Rightarrow> InboundEmail \<Rightarrow> bool" where
  "delete_where i before m \<longleftrightarrow> inID m = i \<and> inCreatedAt m < before"

definition DeleteExpired :: "uuid \<Rightarrow> instant \<Rightarrow> db \<Rightarrow> db \<times> bool result" where
  "DeleteExpired i before s =
     (s\<lparr>inbound_emails := sql_delete (delete_where i before) (inbound_emails s)\<rparr>,
      Inr (rows_affected (delete_where i before) (inbound_emails s) = 1))"

definition PurgeBefore :: "instant \<Rightarrow> db \<Rightarrow> db \<times> nat result" where
  "PurgeBefore before s =
     (s\<lparr>inbound_emails := sql_delete (\<lambda>m. inCreatedAt m < before) (inbound_emails s)\<rparr>,
      Inr (rows_affected (\<lambda>m. inCreatedAt m < before) (inbound_emails s)))"

section \<open>The service\<close>

datatype re_site = ReOutbound | ReInboundPayloads | ReEmails | ReList nat | ReObject uuid | ReDelete uuid

record retention_env =
  reFault :: "re_site \<Rightarrow> fault"
  reNow :: instant
  reStatementNow :: instant
  reDeleter :: bool
  reEmailRepo :: bool
  reInboundRepo :: bool
  reWebhookRepo :: bool

record ret_state =
  rdb :: db
  robjects :: "string list"

datatype retention_error = RetentionDisabled | CleanupNotConfigured | ObjectNotDeleted | ReDB db_error

type_synonym 'a ret = "ret_state \<times> (retention_error + 'a)"

definition re_db :: "retention_env \<Rightarrow> re_site \<Rightarrow> (db \<Rightarrow> db \<times> 'a result) \<Rightarrow> ret_state \<Rightarrow> 'a ret" where
  "re_db env st f s = (case run_call (reFault env st) f (rdb s) of
     (d, Inl e) \<Rightarrow> (s\<lparr>rdb := d\<rparr>, Inl (ReDB e)) | (d, Inr a) \<Rightarrow> (s\<lparr>rdb := d\<rparr>, Inr a))"

definition and_then :: "'a ret \<Rightarrow> ('a \<Rightarrow> ret_state \<Rightarrow> 'b ret) \<Rightarrow> 'b ret" where
  "and_then r f = (case r of (s, Inl e) \<Rightarrow> (s, Inl e) | (s, Inr a) \<Rightarrow> f a s)"

definition delete_object :: "retention_env \<Rightarrow> uuid \<Rightarrow> string \<Rightarrow> ret_state \<Rightarrow> unit ret" where
  "delete_object env i key s =
     (if key = [] then (s, Inr ())
      else if \<not> reDeleter env then (s, Inl CleanupNotConfigured)
      else case reFault env (ReObject i) of
             NoFault \<Rightarrow> (s\<lparr>robjects := robjects s @ [key]\<rparr>, Inr ())
           | FailLost \<Rightarrow> (s, Inl ObjectNotDeleted)
           | FailApplied \<Rightarrow> (s\<lparr>robjects := robjects s @ [key]\<rparr>, Inl ObjectNotDeleted))"

fun purge_items :: "retention_env \<Rightarrow> instant \<Rightarrow> (uuid \<times> string) list \<Rightarrow> ret_state \<Rightarrow> nat ret" where
  "purge_items env before [] s = (s, Inr 0)"
| "purge_items env before ((i, raw) # items) s =
     and_then (delete_object env i (TrimSpace raw) s) (\<lambda>_ s1.
       and_then (re_db env (ReDelete i) (DeleteExpired i before) s1) (\<lambda>removed s2.
         and_then (purge_items env before items s2) (\<lambda>n s3. (s3, Inr (if removed then n + 1 else n)))))"

text \<open>The effect of a pass over the listed items: on success they are gone.\<close>

lemma and_then_Inr: "and_then r f = (s, Inr b) \<longleftrightarrow> (\<exists>s1 a. r = (s1, Inr a) \<and> f a s1 = (s, Inr b))"
  by (auto simp: and_then_def split: prod.splits sum.splits)

lemma re_db_Inr:
  "re_db env st f s = (s1, Inr a) \<Longrightarrow> rdb s1 = fst (f (rdb s)) \<and> snd (f (rdb s)) = Inr a \<and> robjects s1 = robjects s"
  by (auto simp: re_db_def split: prod.splits sum.splits dest!: run_call_InrD)

lemma delete_object_rdb: "delete_object env i key s = (s1, r) \<Longrightarrow> rdb s1 = rdb s"
  by (auto simp: delete_object_def split: if_splits fault.splits)

lemma sql_delete_filter: "sql_delete p rows = filter (\<lambda>r. \<not> p r) rows"
  by (simp add: sql_delete_def)

lemma purge_items_deletes:
  "purge_items env before items s = (s', Inr n) \<Longrightarrow>
   inbound_emails (rdb s') = filter (\<lambda>m. \<not> (inCreatedAt m < before \<and> inID m \<in> fst ` set items)) (inbound_emails (rdb s))"
proof (induction env before items s arbitrary: s' n rule: purge_items.induct)
  case (2 env before i raw items s)
  then obtain s1 s2 removed m where
    1: "delete_object env i (TrimSpace raw) s = (s1, Inr ())" and
    2: "re_db env (ReDelete i) (DeleteExpired i before) s1 = (s2, Inr removed)" and
    3: "purge_items env before items s2 = (s', Inr m)"
    by (auto simp: and_then_Inr)
  have "inbound_emails (rdb s2) = filter (\<lambda>m. \<not> delete_where i before m) (inbound_emails (rdb s))"
    using re_db_Inr [OF 2] delete_object_rdb [OF 1] by (simp add: DeleteExpired_def sql_delete_filter)
  moreover have "inbound_emails (rdb s') = filter (\<lambda>m. \<not> (inCreatedAt m < before \<and> inID m \<in> fst ` set items)) (inbound_emails (rdb s2))"
    using "2.IH" 1 2 3 by blast
  ultimately show ?case by (auto simp: delete_where_def intro: filter_cong)
qed simp

lemma ListExpired_item: "x \<in> set (ListExpired before limit s) \<Longrightarrow> \<exists>m \<in> set (expired before s). x = (inID m, raw_key m)"
  by (auto simp: ListExpired_def Let_def simp del: if_split dest!: in_set_takeD)

lemma expired_after_items:
  "purge_items env before items s = (s', Inr n) \<Longrightarrow>
   expired before (rdb s') = filter (\<lambda>m. inID m \<notin> fst ` set items) (expired before (rdb s))"
  by (auto simp: expired_def purge_items_deletes intro: filter_cong)

function purgeInbound :: "retention_env \<Rightarrow> instant \<Rightarrow> nat \<Rightarrow> ret_state \<Rightarrow> nat ret" where
  "purgeInbound env before k s =
     (if reFault env (ReList k) \<noteq> NoFault then (s, Inl (ReDB ConnFailure))
      else
        (let items = ListExpired before 500 (rdb s) in
         if items = [] then (s, Inr 0)
         else case purge_items env before items s of
                (s1, Inl e) \<Rightarrow> (s1, Inl e)
              | (s1, Inr n) \<Rightarrow>
                  if length items < 500 then (s1, Inr n)
                  else and_then (purgeInbound env before (Suc k) s1) (\<lambda>m s2. (s2, Inr (n + m)))))"
  by pat_completeness auto

termination
proof (relation "measure (\<lambda>(env, before, k, s). length (expired before (rdb s)))", simp)
  fix env before k s items s1 y n
  assume items: "items = ListExpired before 500 (rdb s)" "items \<noteq> []" and run: "(s1, y) = purge_items env before items s" "y = Inr n"
  obtain x where x: "x \<in> set items" using items(2) by (cases items) auto
  then obtain m where m: "m \<in> set (expired before (rdb s))" "x = (inID m, raw_key m)"
    using ListExpired_item items(1) by blast
  have "expired before (rdb s1) = filter (\<lambda>m. inID m \<notin> fst ` set items) (expired before (rdb s))"
    using run expired_after_items [of env before items s s1 n] by simp
  moreover have "inID m \<in> fst ` set items" using x m(2) by force
  ultimately have "length (expired before (rdb s1)) < length (expired before (rdb s))"
    using m(1) by (auto intro: length_filter_less)
  then show "((env, before, Suc k, s1), env, before, k, s) \<in> measure (\<lambda>(env, before, k, s). length (expired before (rdb s)))"
    by simp
qed

declare purgeInbound.simps [simp del]

definition Purge :: "retention_env \<Rightarrow> int \<Rightarrow> int \<Rightarrow> ret_state \<Rightarrow> unit ret" where
  "Purge env emailAge inboundAge s =
     (let emailBefore = reNow env - emailAge; inboundBefore = reNow env - inboundAge in
      if emailAge \<le> 0 \<and> inboundAge \<le> 0 then (s, Inl RetentionDisabled)
      else
        and_then (if reWebhookRepo env \<and> emailAge > 0
                  then re_db env ReOutbound (PurgeByEventClass (reStatementNow env) ''outbound'' emailBefore) s
                  else (s, Inr 0)) (\<lambda>_ s1.
        and_then (if reWebhookRepo env \<and> inboundAge > 0
                  then re_db env ReInboundPayloads (PurgeByEventClass (reStatementNow env) ''inbound'' inboundBefore) s1
                  else (s1, Inr 0)) (\<lambda>_ s2.
        and_then (if emailAge > 0 \<and> reEmailRepo env
                  then re_db env ReEmails (\<lambda>d. case PurgeEmailsBefore emailBefore d of (d', n) \<Rightarrow> (d', Inr n)) s2
                  else (s2, Inr 0)) (\<lambda>_ s3.
        and_then (if inboundAge > 0 \<and> reInboundRepo env then purgeInbound env inboundBefore 0 s3
                  else (s3, Inr 0)) (\<lambda>_ s4. (s4, Inr ()))))))"

section \<open>What a pass leaves behind\<close>

lemma few_listed:
  assumes "length (ListExpired before 500 s) < 500"
  shows "fst ` set (ListExpired before 500 s) = inID ` set (expired before s)"
proof -
  have "length (expired before s) < 500" using assms by (simp add: ListExpired_def)
  then show ?thesis by (simp add: ListExpired_def image_image)
qed

lemma purgeInbound_done: "purgeInbound env before k s = (s', Inr n) \<Longrightarrow> expired before (rdb s') = []"
proof (induction env before k s arbitrary: n rule: purgeInbound.induct)
  case (1 env before k s)
  let ?items = "ListExpired before 500 (rdb s)"
  have nf: "reFault env (ReList k) = NoFault" using "1.prems" by (simp add: purgeInbound.simps split: if_splits)
  show ?case
  proof (cases "?items = []")
    case True
    then have "expired before (rdb s) = []" using few_listed [of before "rdb s"] by simp
    with True "1.prems" nf show ?thesis by (simp add: purgeInbound.simps [of env before k s])
  next
    case False
    obtain s1 y where run: "purge_items env before ?items s = (s1, y)" by (cases "purge_items env before ?items s")
    then obtain m where y: "y = Inr m"
      using "1.prems" nf False by (cases y) (auto simp: purgeInbound.simps [of env before k s] Let_def)
    show ?thesis
    proof (cases "length ?items < 500")
      case True
      then have "s' = s1" using "1.prems" nf False run y by (simp add: purgeInbound.simps [of env before k s] Let_def)
      then show ?thesis
        using expired_after_items [OF run [unfolded y]] few_listed [OF True] by (simp add: filter_empty_conv)
    next
      case F2: False
      then obtain n' where "purgeInbound env before (Suc k) s1 = (s', Inr n')"
        using "1.prems" nf False run y by (auto simp: purgeInbound.simps [of env before k s] Let_def and_then_Inr)
      with "1.IH" [OF _ refl False run [symmetric] y F2] nf show ?thesis by simp
    qed
  qed
qed

text \<open>A row leaves only after its raw object was deleted.\<close>

definition cleaned :: "InboundEmail \<Rightarrow> ret_state \<Rightarrow> bool" where
  "cleaned m s \<longleftrightarrow> TrimSpace (raw_key m) = [] \<or> TrimSpace (raw_key m) \<in> set (robjects s)"

lemma delete_object_objects:
  "delete_object env i key s = (s1, r) \<Longrightarrow> set (robjects s) \<subseteq> set (robjects s1) \<and> (r = Inr () \<longrightarrow> key = [] \<or> key \<in> set (robjects s1))"
  by (auto simp: delete_object_def split: if_splits fault.splits)

lemma re_db_objects: "robjects (fst (re_db env st f s)) = robjects s"
  by (simp add: re_db_def split: prod.splits sum.splits)

lemma re_db_inbound:
  "inbound_emails (rdb (fst (re_db env (ReDelete i) (DeleteExpired i before) s))) = inbound_emails (rdb s) \<or>
   inbound_emails (rdb (fst (re_db env (ReDelete i) (DeleteExpired i before) s))) =
     filter (\<lambda>m. \<not> delete_where i before m) (inbound_emails (rdb s))"
  by (cases "reFault env (ReDelete i)")
    (simp_all add: re_db_def DeleteExpired_def sql_delete_filter)

lemma purge_items_cleans:
  "purge_items env before items s = (s', r) \<Longrightarrow> set (robjects s) \<subseteq> set (robjects s') \<and>
   (\<forall>m \<in> set (inbound_emails (rdb s)). m \<notin> set (inbound_emails (rdb s')) \<longrightarrow>
      (\<exists>raw. (inID m, raw) \<in> set items \<and> (TrimSpace raw = [] \<or> TrimSpace raw \<in> set (robjects s'))))"
proof (induction env before items s arbitrary: r rule: purge_items.induct)
  case (2 env before i raw items s)
  obtain s1 a where 1: "delete_object env i (TrimSpace raw) s = (s1, a)" by (cases "delete_object env i (TrimSpace raw) s")
  obtain s2 b where 2: "re_db env (ReDelete i) (DeleteExpired i before) s1 = (s2, b)"
    by (cases "re_db env (ReDelete i) (DeleteExpired i before) s1")
  have ob: "set (robjects s) \<subseteq> set (robjects s1)" "rdb s1 = rdb s" "robjects s2 = robjects s1"
    "inbound_emails (rdb s2) = inbound_emails (rdb s1) \<or> inbound_emails (rdb s2) = filter (\<lambda>m. \<not> delete_where i before m) (inbound_emails (rdb s1))"
    using delete_object_objects [OF 1] delete_object_rdb [OF 1] re_db_objects [of env "ReDelete i" "DeleteExpired i before" s1]
      re_db_inbound [of env i before s1] 2 by auto
  show ?case
  proof (cases a)
    case (Inl e)
    with "2.prems" 1 ob show ?thesis by (simp add: and_then_def)
  next
    case (Inr u)
    have k: "TrimSpace raw = [] \<or> TrimSpace raw \<in> set (robjects s1)" using delete_object_objects [OF 1] Inr by simp
    show ?thesis
    proof (cases b)
      case (Inl e)
      with "2.prems" 1 2 Inr have "s' = s2" by (simp add: and_then_def)
      with ob k show ?thesis by (auto simp: delete_where_def)
    next
      case b: (Inr removed)
      obtain y where 3: "purge_items env before items s2 = (s', y)"
        using "2.prems" 1 2 Inr b by (auto simp: and_then_def split: prod.splits sum.splits)
      note ih = "2.IH" [OF 3]
      show ?thesis
      proof (intro conjI ballI impI)
        show "set (robjects s) \<subseteq> set (robjects s')" using ih ob by auto
        fix m assume m: "m \<in> set (inbound_emails (rdb s))" "m \<notin> set (inbound_emails (rdb s'))"
        show "\<exists>raw'. (inID m, raw') \<in> set ((i, raw) # items) \<and> (TrimSpace raw' = [] \<or> TrimSpace raw' \<in> set (robjects s'))"
        proof (cases "m \<in> set (inbound_emails (rdb s2))")
          case True
          with ih m(2) show ?thesis by auto
        next
          case False
          then have "inID m = i" using ob(2,4) m(1) by (auto simp: delete_where_def)
          with k ih ob(3) show ?thesis by auto
        qed
      qed
    qed
  qed
qed simp

lemma keyed_filter: "keyed key rows \<Longrightarrow> keyed key (filter p rows)"
  using keyed_sql_delete [of key rows "\<lambda>r. \<not> p r"] by (simp add: sql_delete_filter)

lemma purgeInbound_cleans:
  "purgeInbound env before k s = (s', r) \<Longrightarrow> keyed inID (inbound_emails (rdb s)) \<Longrightarrow>
   set (robjects s) \<subseteq> set (robjects s') \<and>
   (\<forall>m \<in> set (inbound_emails (rdb s)). m \<notin> set (inbound_emails (rdb s')) \<longrightarrow> cleaned m s')"
proof (induction env before k s arbitrary: r rule: purgeInbound.induct)
  case (1 env before k s)
  let ?items = "ListExpired before 500 (rdb s)"
  show ?case
  proof (cases "reFault env (ReList k) \<noteq> NoFault \<or> ?items = []")
    case True
    with "1.prems" show ?thesis by (auto simp: purgeInbound.simps [of env before k s] Let_def split: if_splits)
  next
    case False
    obtain s1 y where run: "purge_items env before ?items s = (s1, y)" by (cases "purge_items env before ?items s")
    have here: "set (robjects s) \<subseteq> set (robjects s1)" "\<forall>m \<in> set (inbound_emails (rdb s)). m \<notin> set (inbound_emails (rdb s1)) \<longrightarrow> cleaned m s1"
    proof -
      note c = purge_items_cleans [OF run]
      then show "set (robjects s) \<subseteq> set (robjects s1)" by simp
      have "raw = raw_key m" if i: "(inID m, raw) \<in> set ?items" and mem: "m \<in> set (inbound_emails (rdb s))" for m raw
      proof -
        obtain m' where "m' \<in> set (inbound_emails (rdb s))" "inID m' = inID m" "raw = raw_key m'"
          using ListExpired_item [OF i] by (auto simp: expired_def)
        with keyed_by_key [OF "1.prems"(2)] mem show ?thesis by (metis option.inject)
      qed
      with c show "\<forall>m \<in> set (inbound_emails (rdb s)). m \<notin> set (inbound_emails (rdb s1)) \<longrightarrow> cleaned m s1"
        unfolding cleaned_def by metis
    qed
    show ?thesis
    proof (cases "(\<exists>e. y = Inl e) \<or> length ?items < 500")
      case True
      then have "s' = s1" using "1.prems"(1) False run
        by (auto simp: purgeInbound.simps [of env before k s] Let_def split: sum.splits)
      then show ?thesis using here by blast
    next
      case F2: False
      then obtain n where y: "y = Inr n" by (cases y) auto
      obtain r' where rec: "purgeInbound env before (Suc k) s1 = (s', r')"
        using "1.prems"(1) False F2 run y
        by (auto simp: purgeInbound.simps [of env before k s] Let_def and_then_def split: prod.splits sum.splits)
      have "keyed inID (inbound_emails (rdb s1))"
        using purge_items_deletes [OF run [unfolded y]] "1.prems"(2) by (simp add: keyed_filter)
      with "1.IH" [OF _ refl _ run [symmetric] y _ rec] False F2 have
        "set (robjects s1) \<subseteq> set (robjects s')" "\<forall>m \<in> set (inbound_emails (rdb s1)). m \<notin> set (inbound_emails (rdb s')) \<longrightarrow> cleaned m s'"
        by auto
      with here show ?thesis by (auto simp: cleaned_def)
    qed
  qed
qed

definition same_inbound :: "ret_state \<Rightarrow> ret_state \<Rightarrow> bool" where
  "same_inbound s s' \<longleftrightarrow> inbound_emails (rdb s') = inbound_emails (rdb s) \<and> robjects s' = robjects s"

lemma re_db_same_inbound:
  assumes "\<And>d. inbound_emails (fst (f d)) = inbound_emails d"
  shows "same_inbound s (fst (re_db env st f s))"
  using run_call_state [of "reFault env st" f "rdb s"] assms
  by (auto simp: same_inbound_def re_db_def split: prod.splits sum.splits)

lemma purge_frames:
  "inbound_emails (fst (PurgeByEventClass now cls before d)) = inbound_emails d"
  "inbound_emails (fst (case PurgeEmailsBefore before d of (d', n) \<Rightarrow> (d', Inr n))) = inbound_emails d"
  by (simp_all add: PurgeByEventClass_def Let_def PurgeEmailsBefore_def delete_emails_def)

lemma Purge_cases:
  assumes "Purge env ea ia s = (s', r)"
  obtains (early) "same_inbound s s'"
  | (inbound) s3 a where "same_inbound s s3" "ia > 0" "purgeInbound env (reNow env - ia) 0 s3 = (s', a)"
proof -
  let ?p1 = "if reWebhookRepo env \<and> ea > 0 then re_db env ReOutbound (PurgeByEventClass (reStatementNow env) ''outbound'' (reNow env - ea)) s else (s, Inr 0)"
  obtain s1 a1 where 1: "?p1 = (s1, a1)" by (metis surj_pair)
  let ?p2 = "if reWebhookRepo env \<and> ia > 0 then re_db env ReInboundPayloads (PurgeByEventClass (reStatementNow env) ''inbound'' (reNow env - ia)) s1 else (s1, Inr 0)"
  obtain s2 a2 where 2: "?p2 = (s2, a2)" by (metis surj_pair)
  let ?p3 = "if ea > 0 \<and> reEmailRepo env then re_db env ReEmails (\<lambda>d. case PurgeEmailsBefore (reNow env - ea) d of (d', n) \<Rightarrow> (d', Inr n)) s2 else (s2, Inr 0)"
  obtain s3 a3 where 3: "?p3 = (s3, a3)" by (metis surj_pair)
  let ?p4 = "if ia > 0 \<and> reInboundRepo env then purgeInbound env (reNow env - ia) 0 s3 else (s3, Inr 0)"
  obtain s4 a4 where 4: "?p4 = (s4, a4)" by (metis surj_pair)
  have p: "same_inbound x (fst (re_db env st (PurgeByEventClass now cls before) x))"
    "same_inbound x (fst (re_db env st (\<lambda>d. case PurgeEmailsBefore before d of (d', n) \<Rightarrow> (d', Inr n)) x))" for x st now cls before
    by (rule re_db_same_inbound, rule purge_frames)+
  have refl: "same_inbound x x" for x by (simp add: same_inbound_def)
  have f: "same_inbound s s1" "same_inbound s1 s2" "same_inbound s2 s3"
    using p(1) [of s ReOutbound "reStatementNow env" "''outbound''" "reNow env - ea"] 1
      p(1) [of s1 ReInboundPayloads "reStatementNow env" "''inbound''" "reNow env - ia"] 2
      p(2) [of s2 ReEmails "reNow env - ea"] 3
    by (auto simp: refl split: if_splits)
  have "s' \<in> {s, s1, s2, s3, s4}"
    using assms 1 2 3 4 unfolding Purge_def Let_def and_then_def
    by (auto split: sum.splits if_splits)
  moreover have "s4 = s3 \<or> (ia > 0 \<and> purgeInbound env (reNow env - ia) 0 s3 = (s4, a4))"
    using 4 by (auto split: if_splits)
  ultimately show ?thesis
    using f early inbound [of s3 a4] by (auto simp: same_inbound_def)
qed

text \<open>Retention never leaves a raw message behind. Whatever calls fail, an inbound message whose row a
  retention pass removed had its raw object deleted first, if it had one.\<close>

theorem raw_object_deleted_with_row:
  assumes "Purge env emailAge inboundAge s = (s', r)" and "keyed inID (inbound_emails (rdb s))"
    and "m \<in> set (inbound_emails (rdb s))" and "m \<notin> set (inbound_emails (rdb s'))"
    and "TrimSpace (raw_key m) \<noteq> []"
  shows "TrimSpace (raw_key m) \<in> set (robjects s')"
  using assms(1)
proof (cases rule: Purge_cases)
  case early
  with assms(3,4) show ?thesis by (simp add: same_inbound_def)
next
  case (inbound s3 a)
  with purgeInbound_cleans [OF inbound(3)] assms(2-5) show ?thesis
    by (auto simp: same_inbound_def cleaned_def)
qed

text \<open>What is gone after the payloads of a class have been purged.\<close>

definition payloads_gone :: "string \<Rightarrow> instant \<Rightarrow> db \<Rightarrow> bool" where
  "payloads_gone cls before d \<longleftrightarrow>
     (\<forall>r \<in> set (webhook_deliveries d). wdCreatedAt r < before \<and> class_text (wdRetentionClass r) = cls \<longrightarrow> wdPayload r = None) \<and>
     (\<forall>r \<in> set (webhook_outbox d). oxCreatedAt r < before \<and> class_text (oxRetentionClass r) = cls \<longrightarrow> oxPayload r = None) \<and>
     (cls = ''outbound'' \<longrightarrow> (\<forall>r \<in> set (provider_event_inbox d). ibCreatedAt r < before \<longrightarrow> ibPayload r = None))"

lemma purge_row_fields:
  "wdCreatedAt (purge_delivery r) = wdCreatedAt r" "wdRetentionClass (purge_delivery r) = wdRetentionClass r" "wdPayload (purge_delivery r) = None"
  "oxCreatedAt (purge_outbox q) = oxCreatedAt q" "oxRetentionClass (purge_outbox q) = oxRetentionClass q" "oxPayload (purge_outbox q) = None"
  "ibCreatedAt (purge_inbox now i) = ibCreatedAt i" "ibPayload (purge_inbox now i) = None"
  by (simp_all add: purge_delivery_def purge_outbox_def purge_inbox_def Let_def)

lemma purge_class_done:
  "PurgeByEventClass now cls before d = (d', Inr n) \<Longrightarrow> payloads_gone cls before d'"
  unfolding PurgeByEventClass_def Let_def payloads_gone_def
  by (auto simp: set_sql_update purge_row_fields split: if_splits)

lemma payloads_gone_weaker:
  assumes "payloads_gone c b d"
    and "\<forall>r' \<in> set (webhook_deliveries d'). wdPayload r' = None \<or> r' \<in> set (webhook_deliveries d)"
    and "\<forall>r' \<in> set (webhook_outbox d'). oxPayload r' = None \<or> r' \<in> set (webhook_outbox d)"
    and "\<forall>r' \<in> set (provider_event_inbox d'). ibPayload r' = None \<or> r' \<in> set (provider_event_inbox d)"
  shows "payloads_gone c b d'"
proof -
  have "\<forall>r \<in> set (webhook_deliveries d'). wdCreatedAt r < b \<and> class_text (wdRetentionClass r) = c \<longrightarrow> wdPayload r = None"
    using assms(1,2) unfolding payloads_gone_def by blast
  moreover have "\<forall>r \<in> set (webhook_outbox d'). oxCreatedAt r < b \<and> class_text (oxRetentionClass r) = c \<longrightarrow> oxPayload r = None"
    using assms(1,3) unfolding payloads_gone_def by blast
  moreover have "c = ''outbound'' \<longrightarrow> (\<forall>r \<in> set (provider_event_inbox d'). ibCreatedAt r < b \<longrightarrow> ibPayload r = None)"
    using assms(1,4) unfolding payloads_gone_def by blast
  ultimately show ?thesis unfolding payloads_gone_def by blast
qed

lemma purge_class_keeps:
  assumes "payloads_gone c b d"
  shows "payloads_gone c b (fst (PurgeByEventClass now cls before d))"
  by (rule payloads_gone_weaker [OF assms])
    (simp_all add: PurgeByEventClass_def Let_def set_sql_update purge_row_fields image_iff ball_Un)

lemma payloads_gone_frame:
  assumes "payloads_gone c b d" and "webhook_deliveries d' = webhook_deliveries d" and "webhook_outbox d' = webhook_outbox d"
    and "\<forall>r' \<in> set (provider_event_inbox d'). \<exists>r \<in> set (provider_event_inbox d). ibCreatedAt r' = ibCreatedAt r \<and> ibPayload r' = ibPayload r"
  shows "payloads_gone c b d'"
proof -
  have "c = ''outbound'' \<longrightarrow> (\<forall>r \<in> set (provider_event_inbox d'). ibCreatedAt r < b \<longrightarrow> ibPayload r = None)"
    using assms(1,4) unfolding payloads_gone_def by fastforce
  with assms(1-3) show ?thesis unfolding payloads_gone_def by simp
qed

lemma purge_emails_keeps: "payloads_gone c b d \<Longrightarrow> payloads_gone c b (fst (PurgeEmailsBefore before d))"
  by (erule payloads_gone_frame) (auto simp: PurgeEmailsBefore_def delete_emails_def set_sql_update)

lemma purge_emails_done: "e \<in> set (emails (fst (PurgeEmailsBefore before d))) \<Longrightarrow> \<not> purge_where before e"
  by (simp add: PurgeEmailsBefore_def sql_delete_filter)

definition same_rest :: "ret_state \<Rightarrow> ret_state \<Rightarrow> bool" where
  "same_rest s s' \<longleftrightarrow> emails (rdb s') = emails (rdb s) \<and> webhook_deliveries (rdb s') = webhook_deliveries (rdb s) \<and>
     webhook_outbox (rdb s') = webhook_outbox (rdb s) \<and> provider_event_inbox (rdb s') = provider_event_inbox (rdb s)"

lemma same_rest_trans: "same_rest a b \<Longrightarrow> same_rest b c \<Longrightarrow> same_rest a c"
  by (simp add: same_rest_def)

lemma purge_items_frame: "purge_items env before items s = (s', r) \<Longrightarrow> same_rest s s'"
proof (induction env before items s arbitrary: r rule: purge_items.induct)
  case (2 env before i raw items s)
  obtain s1 a where 1: "delete_object env i (TrimSpace raw) s = (s1, a)" by (cases "delete_object env i (TrimSpace raw) s")
  obtain s2 b where 2: "re_db env (ReDelete i) (DeleteExpired i before) s1 = (s2, b)"
    by (cases "re_db env (ReDelete i) (DeleteExpired i before) s1")
  have "same_rest s s1" using delete_object_rdb [OF 1] by (simp add: same_rest_def)
  moreover have "same_rest s1 s2"
    using 2 by (cases "reFault env (ReDelete i)") (auto simp: re_db_def DeleteExpired_def same_rest_def)
  moreover have "s' = s1 \<or> s' = s2 \<or> (\<exists>y. purge_items env before items s2 = (s', y))"
    using "2.prems" 1 2 by (auto simp: and_then_def split: sum.splits prod.splits)
  ultimately show ?case using "2.IH" same_rest_trans by blast
qed (simp add: same_rest_def)

lemma purgeInbound_frame: "purgeInbound env before k s = (s', r) \<Longrightarrow> same_rest s s'"
proof (induction env before k s arbitrary: r rule: purgeInbound.induct)
  case (1 env before k s)
  let ?items = "ListExpired before 500 (rdb s)"
  obtain s1 y where run: "purge_items env before ?items s = (s1, y)" by (cases "purge_items env before ?items s")
  have "s' = s \<or> s' = s1 \<or> (\<exists>n r'. reFault env (ReList k) = NoFault \<and> ?items \<noteq> [] \<and> y = Inr n \<and> \<not> length ?items < 500 \<and>
      purgeInbound env before (Suc k) s1 = (s', r'))"
    using "1.prems" run
    by (auto simp: purgeInbound.simps [of env before k s] Let_def and_then_def split: if_splits sum.splits prod.splits)
  then show ?case
    using "1.IH" [OF _ refl _ run [symmetric]] purge_items_frame [OF run] same_rest_trans
    by (elim disjE exE conjE) (auto simp: same_rest_def)
qed

text \<open>C23: A retention pass with all three repositories and two positive ages that reports success left nothing
  that is past its age but outbound messages still under way: every outbound message past its age is queued or sending,
  there is no inbound message past its age, and no payload past its age in deliveries, outbox or inbox of either class.
  The loop over inbound messages ends, whatever their number.\<close>

theorem purge_leaves_nothing_expired:
  assumes "Purge env emailAge inboundAge s = (s', Inr ())" and "emailAge > 0" and "inboundAge > 0"
    and "reWebhookRepo env" and "reEmailRepo env" and "reInboundRepo env"
  shows "expired (reNow env - inboundAge) (rdb s') = [] \<and>
    (\<forall>e \<in> set (emails (rdb s')). eCreatedAt e < reNow env - emailAge \<longrightarrow> eStatus e \<in> {EmailStatusQueued, EmailStatusSending}) \<and>
    payloads_gone ''outbound'' (reNow env - emailAge) (rdb s') \<and>
    payloads_gone ''inbound'' (reNow env - inboundAge) (rdb s')"
proof -
  let ?eb = "reNow env - emailAge" and ?ib = "reNow env - inboundAge" and ?t = "reStatementNow env"
  obtain s1 s2 s3 n1 n2 n3 n4 where
    1: "re_db env ReOutbound (PurgeByEventClass ?t ''outbound'' ?eb) s = (s1, Inr n1)" and
    2: "re_db env ReInboundPayloads (PurgeByEventClass ?t ''inbound'' ?ib) s1 = (s2, Inr n2)" and
    3: "re_db env ReEmails (\<lambda>d. case PurgeEmailsBefore ?eb d of (d', n) \<Rightarrow> (d', Inr n)) s2 = (s3, Inr n3)" and
    4: "purgeInbound env ?ib 0 s3 = (s', Inr n4)"
    using assms by (auto simp: Purge_def Let_def and_then_Inr)
  have c1: "PurgeByEventClass ?t ''outbound'' ?eb (rdb s) = (rdb s1, Inr n1)" using re_db_Inr [OF 1] by (metis prod.collapse)
  have c2: "PurgeByEventClass ?t ''inbound'' ?ib (rdb s1) = (rdb s2, Inr n2)" using re_db_Inr [OF 2] by (metis prod.collapse)
  have c3: "rdb s3 = fst (PurgeEmailsBefore ?eb (rdb s2))" using re_db_Inr [OF 3] by (simp split: prod.splits)
  have g2: "payloads_gone ''outbound'' ?eb (rdb s2)" "payloads_gone ''inbound'' ?ib (rdb s2)"
    using purge_class_done [OF c1] purge_class_done [OF c2] purge_class_keeps [of "''outbound''" ?eb "rdb s1" ?t "''inbound''" ?ib] c2
    by simp_all
  have g3: "payloads_gone ''outbound'' ?eb (rdb s3)" "payloads_gone ''inbound'' ?ib (rdb s3)"
    unfolding c3 using g2 purge_emails_keeps by blast+
  have fr: "same_rest s3 s'" by (rule purgeInbound_frame [OF 4])
  have "payloads_gone c b (rdb s')" if "payloads_gone c b (rdb s3)" for c b
    using that fr by (auto simp: same_rest_def payloads_gone_def)
  moreover have "eStatus e \<in> {EmailStatusQueued, EmailStatusSending}" if "e \<in> set (emails (rdb s'))" "eCreatedAt e < ?eb" for e
    using that fr purge_emails_done [of e ?eb "rdb s2"] by (cases "eStatus e") (simp_all add: same_rest_def c3 purge_where_def)
  ultimately show ?thesis using purgeInbound_done [OF 4] g3 by blast
qed

section \<open>Examples\<close>

definition demo_retention :: retention_env where
  "demo_retention = \<lparr>reFault = (\<lambda>_. NoFault), reNow = 100, reStatementNow = 100, reDeleter = True, reEmailRepo = True,
     reInboundRepo = True, reWebhookRepo = True\<rparr>"

definition demo_inbound_row :: InboundEmail where
  "demo_inbound_row = \<lparr>inID = 1, inTeamID = 9, inMessageID = None, inFrom = [], inTo = [], inSubject = None, inText = None,
     inHTML = None, inAttachments = [], inRawS3Key = Some ''raw/1'', inHeaders = [], inCreatedAt = 3\<rparr>"

definition demo_ret :: ret_state where
  "demo_ret = \<lparr>rdb = empty_db\<lparr>emails := [(blank_email 1 9)\<lparr>eStatus := EmailStatusSent\<rparr>], inbound_emails := [demo_inbound_row]\<rparr>, robjects = []\<rparr>"

lemma demo_purge_inbound:
  assumes "rdb s = d" and "inbound_emails d = [demo_inbound_row]"
  shows "\<exists>s' n. purgeInbound demo_retention 50 0 s = (s', Inr n) \<and> inbound_emails (rdb s') = []"
proof -
  have "ListExpired 50 500 d = [(1, ''raw/1'')]"
    using assms(2) by (simp add: ListExpired_def expired_def demo_inbound_row_def raw_key_def)
  moreover have "TrimSpace ''raw/1'' = ''raw/1''" by code_simp
  ultimately show ?thesis
    using assms by (simp add: purgeInbound.simps [of _ _ 0] demo_retention_def and_then_def delete_object_def re_db_def
        DeleteExpired_def delete_where_def demo_inbound_row_def sql_delete_filter)
qed

lemma demo_purge: "\<exists>s'. Purge demo_retention 50 50 demo_ret = (s', Inr ()) \<and> inbound_emails (rdb s') = []"
proof -
  let ?d = "fst (PurgeEmailsBefore 50 (fst (PurgeByEventClass 100 ''inbound'' 50 (fst (PurgeByEventClass 100 ''outbound'' 50 (rdb demo_ret))))))"
  have row: "inbound_emails ?d = [demo_inbound_row]"
    using purge_frames by (simp add: PurgeEmailsBefore_def delete_emails_def) (simp add: demo_ret_def purge_frames)
  obtain s' n where run: "purgeInbound demo_retention 50 0 (demo_ret\<lparr>rdb := ?d\<rparr>) = (s', Inr n)" "inbound_emails (rdb s') = []"
    using demo_purge_inbound [OF _ row, of "demo_ret\<lparr>rdb := ?d\<rparr>"] by auto
  have e: "re_db demo_retention st f s = (s\<lparr>rdb := fst (f (rdb s))\<rparr>, Inr (projr (snd (f (rdb s)))))" if "\<exists>a. snd (f (rdb s)) = Inr a"
    for st s and f :: "db \<Rightarrow> db \<times> nat result"
    using that by (auto simp: re_db_def demo_retention_def split: prod.splits)
  have f: "reNow demo_retention = 100" "reStatementNow demo_retention = 100" "reWebhookRepo demo_retention"
    "reEmailRepo demo_retention" "reInboundRepo demo_retention" by (simp_all add: demo_retention_def)
  have o: "\<exists>a. snd (PurgeByEventClass t c b d) = Inr a" if "c = ''outbound'' \<or> c = ''inbound''" for t c b d
    using that by (auto simp: PurgeByEventClass_def Let_def)
  have x: "re_db demo_retention st (PurgeByEventClass t c b) s =
      (s\<lparr>rdb := fst (PurgeByEventClass t c b (rdb s))\<rparr>, Inr (projr (snd (PurgeByEventClass t c b (rdb s)))))"
    if "c = ''outbound'' \<or> c = ''inbound''" for st t c b s by (rule e [OF o [OF that]])
  have y: "re_db demo_retention st (\<lambda>d. case PurgeEmailsBefore b d of (d', n) \<Rightarrow> (d', Inr n)) s =
      (s\<lparr>rdb := fst (PurgeEmailsBefore b (rdb s))\<rparr>, Inr (snd (PurgeEmailsBefore b (rdb s))))" for st b s
    by (simp add: re_db_def demo_retention_def split: prod.splits)
  have "Purge demo_retention 50 50 demo_ret = (s', Inr ())"
    using run(1) by (simp add: Purge_def x y f and_then_def)
  then show ?thesis using run(2) by blast
qed

theorem raw_object_deleted_with_row_witness:
  "\<exists>s'. Purge demo_retention 50 50 demo_ret = (s', Inr ()) \<and> ''raw/1'' \<in> set (robjects s')"
proof -
  obtain s' where run: "Purge demo_retention 50 50 demo_ret = (s', Inr ())" "inbound_emails (rdb s') = []"
    using demo_purge by blast
  have k: "TrimSpace (raw_key demo_inbound_row) = ''raw/1''" by code_simp
  have "keyed inID (inbound_emails (rdb demo_ret))" "demo_inbound_row \<in> set (inbound_emails (rdb demo_ret))"
    by (simp_all add: demo_ret_def)
  from raw_object_deleted_with_row [OF run(1) this] run k show ?thesis by auto
qed

theorem purge_leaves_nothing_expired_witness:
  "\<exists>s'. Purge demo_retention 50 50 demo_ret = (s', Inr ()) \<and> expired 50 (rdb s') = []"
proof -
  obtain s' where run: "Purge demo_retention 50 50 demo_ret = (s', Inr ())" using demo_purge by blast
  from purge_leaves_nothing_expired [OF run] run show ?thesis by (auto simp: demo_retention_def)
qed

end
