(* ===== verification/Lifecycle.thy ===== *)
theory Lifecycle
  imports SendAttempts
begin

text \<open>
  The contract of the delivery pipeline as its users see it: a message is waiting, in the hands of a
  worker, at the provider, unclear, taken, refused or withdrawn, and each kind of actor may move it
  along a few edges only. \<open>lifecycle_refinement\<close> shows that every sequence of repository operations,
  read through \<open>phase\<close>, is a run of this machine.
\<close>

section \<open>The abstract machine\<close>

datatype phase = Waiting | InHand | AtProvider | Unclear | Taken | Refused | Withdrawn

datatype actor = Worker | Sweep | Operator | Customer | Sender | Provider | Bookkeeping

fun may_move :: "actor \<Rightarrow> phase \<Rightarrow> phase \<Rightarrow> bool" where
  "may_move Worker p q \<longleftrightarrow> (p, q) \<in> {(Waiting, InHand), (InHand, AtProvider), (InHand, Waiting), (AtProvider, Waiting),
     (InHand, Refused), (AtProvider, Refused), (AtProvider, Unclear), (AtProvider, Taken), (Waiting, Refused)}"
| "may_move Sweep p q \<longleftrightarrow> (p, q) \<in> {(InHand, Waiting), (AtProvider, Unclear)}"
| "may_move Operator p q \<longleftrightarrow> (p, q) \<in> {(Unclear, Taken), (Unclear, Refused), (Refused, Waiting), (Waiting, Refused)}"
| "may_move Customer p q \<longleftrightarrow> (p, q) = (Waiting, Withdrawn)"
| "may_move Sender p q \<longleftrightarrow> q = Refused"
| "may_move Provider p q \<longleftrightarrow> p \<noteq> Withdrawn \<and> q \<in> {Taken, Refused}"
| "may_move Bookkeeping p q \<longleftrightarrow> False"

text \<open>Runs of the machine; an actor may also leave the message alone.\<close>

inductive lifecycle :: "phase \<Rightarrow> actor list \<Rightarrow> phase \<Rightarrow> bool" where
  lc_nil: "lifecycle p [] p"
| lc_stay: "lifecycle p as q \<Longrightarrow> lifecycle p (a # as) q"
| lc_move: "may_move a p q \<Longrightarrow> lifecycle q as r \<Longrightarrow> lifecycle p (a # as) r"

inductive_cases lifecycle_ConsE: "lifecycle p (a # as) q"
inductive_cases lifecycle_NilE: "lifecycle p [] q"

text \<open>What the machine promises: without operator, sender and provider a message that is taken or
  unclear stays so, and a withdrawn message stays withdrawn as long as no sender call fails.\<close>

lemma lifecycle_settled:
  assumes "lifecycle p as q" and "p \<in> {Taken, Unclear, Withdrawn}" and "set as \<subseteq> {Worker, Sweep, Customer, Bookkeeping}"
  shows "q = p"
  using assms by (induction rule: lifecycle.induct) (auto elim: may_move.elims)

lemma lifecycle_withdrawn:
  assumes "lifecycle p as q" and "p = Withdrawn" and "Sender \<notin> set as"
  shows "q = Withdrawn"
proof -
  have "\<not> may_move a Withdrawn r" if "a \<noteq> Sender" for a r using that by (cases a) auto
  with assms show ?thesis by (induction rule: lifecycle.induct) auto
qed

section \<open>Abstraction\<close>

definition phase :: "Email \<Rightarrow> phase" where
  "phase e = (case eStatus e of
     EmailStatusQueued \<Rightarrow> Waiting
   | EmailStatusSending \<Rightarrow> (if eSendAttemptState e = SendAttemptStarted then AtProvider else InHand)
   | EmailStatusAmbiguous \<Rightarrow> Unclear
   | EmailStatusCancelled \<Rightarrow> Withdrawn
   | EmailStatusFailed \<Rightarrow> Refused
   | _ \<Rightarrow> Taken)"

fun op_actor :: "repo_op \<Rightarrow> actor" where
  "op_actor (OpClaim _ _) = Worker"
| "op_actor (OpStarted _ _) = Worker"
| "op_actor (OpRetryable _ _) = Worker"
| "op_actor (OpMarkAmbiguous _ _) = Worker"
| "op_actor (OpAccepted _ _ _ _ _) = Worker"
| "op_actor (OpFailed _ _ _ _) = Worker"
| "op_actor (OpAmbiguous _ _ _ _) = Worker"
| "op_actor (OpDeadLetter _) = Worker"
| "op_actor (OpRecover _) = Sweep"
| "op_actor (OpReconcile _ _ _ _ _ _ _) = Operator"
| "op_actor (OpPrepareReplay _ _ _) = Operator"
| "op_actor (OpCancelReplay _ _) = Operator"
| "op_actor (OpCancel _ _) = Customer"
| "op_actor (OpEnqueueFailed _ _) = Sender"
| "op_actor (OpApplyEvent _ _ _ _ _ _ _ _) = Provider"
| "op_actor _ = Bookkeeping"

definition creates :: "uuid \<Rightarrow> repo_op \<Rightarrow> bool" where
  "creates i op \<longleftrightarrow> (case op of OpCreate _ e \<Rightarrow> eID e = i | _ \<Rightarrow> False)"

text \<open>One step of the row machine is at most one step of the abstract machine.\<close>

lemma phase_callback:
  assumes "op_ok (OpApplyEvent now k i m target ev ob sups)"
  shows "phase (ApplyProvider_set now m target e) = phase e \<or>
    may_move Provider (phase e) (phase (ApplyProvider_set now m target e))"
proof (cases "ShouldApplyProviderStatus (eStatus e) target")
  case True
  then obtain t where t: "target = Some t" by (cases target) auto
  have "eStatus e \<noteq> EmailStatusCancelled" using True t by (auto simp: ShouldApplyProviderStatus_def)
  then have "phase e \<noteq> Withdrawn" by (cases "eStatus e") (simp_all add: phase_def)
  moreover have "phase (ApplyProvider_set now m target e) \<in> {Taken, Refused}"
    using True t assms by (auto simp: op_ok_def delivery_signal_def phase_def ApplyProvider_set_def Let_def)
  ultimately show ?thesis by simp
qed (simp add: phase_def ApplyProvider_set_def Let_def)

lemma attempt_sending:
  "attempt_ok e \<Longrightarrow> eStatus e = EmailStatusSending \<Longrightarrow>
   eSendAttemptState e \<noteq> SendAttemptAccepted \<and> eSendAttemptState e \<noteq> SendAttemptNone"
  by (auto simp: attempt_ok_def)

lemma phase_step:
  assumes "row_step op e e'" and "op_ok op" and "attempt_ok e"
  shows "phase e' = phase e \<or> may_move (op_actor op) (phase e) (phase e')"
  using assms
proof (induction rule: row_step.induct)
  case (rs_apply_event e i now k m target ev ob sups)
  then show ?case using phase_callback by simp
qed (auto simp: phase_def row_defs dest: attempt_sending split: EmailStatus.splits)

lemma phase_exec:
  assumes "db_ok s" and "op_ok op" and "\<not> creates i op" and "email_at (exec_op op s) i = Some e'"
  shows "\<exists>e. email_at s i = Some e \<and> (phase e' = phase e \<or> may_move (op_actor op) (phase e) (phase e'))"
proof (cases "\<exists>now e. op = OpCreate now e")
  case True
  then show ?thesis using assms(3,4) create_rows by (fastforce simp: creates_def)
next
  case False
  have key: "keyed eID (emails s)" using assms(1) by (simp add: db_ok_def)
  have "steps_rows op s (exec_op op s)" using exec_op_row [OF key] False by blast
  with assms(4) obtain e where e: "email_at s i = Some e" "e' = e \<or> row_step op e e'"
    by (auto simp: steps_rows_def)
  then have "attempt_ok e" using assms(1) by (auto simp: db_ok_iff)
  with e show ?thesis using phase_step assms(2) by blast
qed

section \<open>Refinement\<close>

text \<open>C24: Every sequence of repository operations of the durable pipeline, from any reachable database, is
  for each message a run of the lifecycle machine by the actors that issued the operations.\<close>

theorem lifecycle_refinement:
  assumes "reachable s" and "\<forall>op \<in> set ops. op_ok op \<and> \<not> creates i op"
    and "email_at (run_ops ops s) i = Some e'"
  shows "\<exists>e. email_at s i = Some e \<and> lifecycle (phase e) (map op_actor ops) (phase e')"
proof -
  have "db_ok s" using assms(1) by induction (simp add: db_ok_def empty_db_def, rule exec_op_ok)
  then show ?thesis using assms(2,3)
  proof (induction ops arbitrary: s)
    case Nil
    then show ?case by (auto simp: run_ops_def intro: lc_nil)
  next
    case (Cons op ops)
    then have "db_ok (exec_op op s)" "email_at (run_ops ops (exec_op op s)) i = Some e'"
      by (simp_all add: exec_op_ok run_ops_def)
    with Cons obtain e1 where e1: "email_at (exec_op op s) i = Some e1" "lifecycle (phase e1) (map op_actor ops) (phase e')"
      by (metis list.set_intros(2))
    with Cons.prems phase_exec obtain e where "email_at s i = Some e"
        "phase e1 = phase e \<or> may_move (op_actor op) (phase e) (phase e1)"
      by (metis list.set_intros(1))
    with e1(2) show ?case by (auto intro: lc_stay lc_move)
  qed
qed

text \<open>A message created, claimed, started and cancelled too late.\<close>

theorem lifecycle_refinement_witness:
  "lifecycle Waiting [Worker, Worker, Customer] AtProvider"
proof -
  let ?c = "demo_claim"
  let ?s = "exec_op (OpCreate 5 (blank_email 1 9)) empty_db"
  let ?ops = "[OpClaim 6 ?c, OpStarted 7 ?c, OpCancel 9 1]"
  have "reachable ?s" by (intro reachable.intros) (simp add: op_ok_def blank_email_def)
  moreover have "\<forall>op \<in> set ?ops. op_ok op \<and> \<not> creates 1 op" by (simp add: op_ok_def creates_def)
  moreover have "map_option phase (email_at ?s 1) = Some Waiting" by code_simp
  moreover have "map_option phase (email_at (run_ops ?ops ?s) 1) = Some AtProvider" by code_simp
  ultimately show ?thesis using lifecycle_refinement [of ?s ?ops 1] by auto
qed

end
