(* ===== verification/Teams.thy ===== *)
theory Teams
  imports EmailService Webhooks
begin

text \<open>
  Teams, their members and invitations: \<open>internal/repository/team_repo.go\<close> and
  \<open>internal/service/team_service.go\<close>. Roles and invitation states are the texts of the source; the \<open>CHECK\<close>
  clauses of the tables are conditions of the inserts. SHA-256, the drawn token and the decoding of a
  name into lower-case code points are parameters.
\<close>

section \<open>Rows\<close>

record Team =
  tmID :: uuid
  tmName :: string
  tmSlug :: string
  tmPlan :: Plan
  tmStripeCustomerID :: "string option"
  tmStripeSubscriptionID :: "string option"
  tmBillingStatus :: string
  tmCurrentPeriodEnd :: "instant option"
  tmCancelAtPeriodEnd :: bool
  tmCreatedAt :: instant
  tmUpdatedAt :: instant
  tmBillingEventCreated :: int
  tmBillingEventID :: string

definition TeamMemberRoleOwner :: string where "TeamMemberRoleOwner = ''owner''"
definition TeamMemberRoleAdmin :: string where "TeamMemberRoleAdmin = ''admin''"
definition TeamMemberRoleMember :: string where "TeamMemberRoleMember = ''member''"

lemmas role_defs = TeamMemberRoleOwner_def TeamMemberRoleAdmin_def TeamMemberRoleMember_def

record TeamMember =
  mbID :: uuid
  mbTeamID :: uuid
  mbUserID :: uuid
  mbRole :: string
  mbCreatedAt :: instant

datatype TeamInvitationStatus =
    TeamInvitationStatusPending | TeamInvitationStatusAccepted | TeamInvitationStatusRevoked | TeamInvitationStatusExpired

record TeamInvitation =
  ivID :: uuid
  ivTeamID :: uuid
  ivEmail :: string
  ivRole :: string
  ivTokenHash :: string
  ivStatus :: TeamInvitationStatus
  ivExpiresAt :: instant
  ivAcceptedAt :: "instant option"
  ivAcceptedByUserID :: "uuid option"
  ivRevokedAt :: "instant option"
  ivCreatedAt :: instant

record stripe_event_row =
  stEventID :: string
  stEventType :: string
  stEventCreated :: int

text \<open>The tables around a team; \<open>adb\<close> holds those of the delivery pipeline, \<open>auth_users\<close> the identity
  provider's users with their addresses.\<close>

record account =
  teams :: "Team list"
  team_members :: "TeamMember list"
  team_invitations :: "TeamInvitation list"
  stripe_events :: "stripe_event_row list"
  auth_users :: "(uuid \<times> string) list"
  adb :: db

section \<open>Teams\<close>

text \<open>A new row has the defaults of the columns that the statement does not name.\<close>

definition insert_team :: "instant \<Rightarrow> Team \<Rightarrow> account \<Rightarrow> account result" where
  "insert_team now t s =
     (if by_key tmID (tmID t) (teams s) \<noteq> None \<or> by_key tmSlug (tmSlug t) (teams s) \<noteq> None then Inl UniqueViolation
      else Inr (s\<lparr>teams := teams s @
        [t\<lparr>tmStripeCustomerID := None, tmStripeSubscriptionID := None, tmBillingStatus := ''inactive'', tmCurrentPeriodEnd := None,
           tmCancelAtPeriodEnd := False, tmCreatedAt := now, tmUpdatedAt := now, tmBillingEventCreated := 0, tmBillingEventID := []\<rparr>]\<rparr>))"

definition member_at :: "account \<Rightarrow> uuid \<Rightarrow> uuid \<Rightarrow> TeamMember option" where
  "member_at s team user = by_key (\<lambda>m. (mbTeamID m, mbUserID m)) (team, user) (team_members s)"

definition insert_member :: "instant \<Rightarrow> TeamMember \<Rightarrow> account \<Rightarrow> account result" where
  "insert_member now m s =
     (if mbRole m \<notin> {TeamMemberRoleOwner, TeamMemberRoleAdmin, TeamMemberRoleMember} then Inl CheckViolation
      else if by_key mbID (mbID m) (team_members s) \<noteq> None \<or> member_at s (mbTeamID m) (mbUserID m) \<noteq> None then Inl UniqueViolation
      else if by_key tmID (mbTeamID m) (teams s) = None then Inl ForeignKeyViolation
      else Inr (s\<lparr>team_members := team_members s @ [m\<lparr>mbCreatedAt := now\<rparr>]\<rparr>))"

definition commit_or_keep :: "account \<Rightarrow> account result \<Rightarrow> account \<times> unit result" where
  "commit_or_keep s r = (case r of Inl e \<Rightarrow> (s, Inl e) | Inr s' \<Rightarrow> (s', Inr ()))"

definition TeamRepo_Create :: "instant \<Rightarrow> Team \<Rightarrow> account \<Rightarrow> account \<times> unit result" where
  "TeamRepo_Create now t s = commit_or_keep s (insert_team now t s)"

definition CreateWithOwner :: "instant \<Rightarrow> Team \<Rightarrow> TeamMember \<Rightarrow> account \<Rightarrow> account \<times> unit result" where
  "CreateWithOwner now t m s =
     commit_or_keep s (case insert_team now t s of Inl e \<Rightarrow> Inl e | Inr s1 \<Rightarrow> insert_member now m s1)"

definition TeamRepo_GetByID :: "uuid \<Rightarrow> account \<Rightarrow> Team result" where
  "TeamRepo_GetByID i s = (case by_key tmID i (teams s) of None \<Rightarrow> Inl ErrNoRows | Some t \<Rightarrow> Inr t)"

definition GetBySlug :: "string \<Rightarrow> account \<Rightarrow> Team result" where
  "GetBySlug slug s = (case by_key tmSlug slug (teams s) of None \<Rightarrow> Inl ErrNoRows | Some t \<Rightarrow> Inr t)"

definition ListByUser :: "uuid \<Rightarrow> account \<Rightarrow> Team list" where
  "ListByUser user s =
     sort_key (\<lambda>t. - tmCreatedAt t) (filter (\<lambda>t. \<exists>m \<in> set (team_members s). mbTeamID m = tmID t \<and> mbUserID m = user) (teams s))"

definition TeamRepo_Update :: "instant \<Rightarrow> Team \<Rightarrow> account \<Rightarrow> account \<times> unit result" where
  "TeamRepo_Update now t s =
     (s\<lparr>teams := sql_update (\<lambda>x. tmID x = tmID t) (\<lambda>x. x\<lparr>tmName := tmName t, tmUpdatedAt := now\<rparr>) (teams s)\<rparr>, Inr ())"

text \<open>Deleting a team deletes every row that refers to it; a provider callback only loses its link to
  the message.\<close>

definition delete_team_data :: "uuid \<Rightarrow> db \<Rightarrow> db" where
  "delete_team_data team d =
     (let d1 = delete_hooks (\<lambda>w. whTeamID w = team) (delete_emails (\<lambda>e. eTeamID e = team) d) in
      d1\<lparr>webhook_outbox := sql_delete (\<lambda>x. oxTeamID x = team) (webhook_outbox d1),
         suppressions := sql_delete (\<lambda>x. supTeamID x = team) (suppressions d1),
         contacts := sql_delete (\<lambda>c. ctTeamID c = team) (contacts d1),
         inbound_emails := sql_delete (\<lambda>i. inTeamID i = team) (inbound_emails d1)\<rparr>)"

definition TeamRepo_Delete :: "uuid \<Rightarrow> account \<Rightarrow> account \<times> unit result" where
  "TeamRepo_Delete team s =
     (if by_key tmID team (teams s) = None then (s, Inr ())
      else (s\<lparr>teams := sql_delete (\<lambda>t. tmID t = team) (teams s),
              team_members := sql_delete (\<lambda>m. mbTeamID m = team) (team_members s),
              team_invitations := sql_delete (\<lambda>i. ivTeamID i = team) (team_invitations s),
              adb := delete_team_data team (adb s)\<rparr>, Inr ()))"

section \<open>Members\<close>

definition AddMember :: "instant \<Rightarrow> TeamMember \<Rightarrow> account \<Rightarrow> account \<times> unit result" where
  "AddMember now m s = commit_or_keep s (insert_member now m s)"

definition GetUserIDByEmail :: "string \<Rightarrow> account \<Rightarrow> uuid result" where
  "GetUserIDByEmail email s =
     (case find (\<lambda>u. ToLower (snd u) = ToLower email) (auth_users s) of None \<Rightarrow> Inl ErrNoRows | Some u \<Rightarrow> Inr (fst u))"

definition RemoveMember :: "uuid \<Rightarrow> uuid \<Rightarrow> account \<Rightarrow> account \<times> unit result" where
  "RemoveMember team user s =
     (s\<lparr>team_members := sql_delete (\<lambda>m. mbTeamID m = team \<and> mbUserID m = user) (team_members s)\<rparr>, Inr ())"

definition UpdateMemberRole :: "uuid \<Rightarrow> uuid \<Rightarrow> string \<Rightarrow> account \<Rightarrow> account \<times> unit result" where
  "UpdateMemberRole team user role s =
     (if (\<exists>m \<in> set (team_members s). mbTeamID m = team \<and> mbUserID m = user) \<and>
         role \<notin> {TeamMemberRoleOwner, TeamMemberRoleAdmin, TeamMemberRoleMember} then (s, Inl CheckViolation)
      else (s\<lparr>team_members := sql_update (\<lambda>m. mbTeamID m = team \<and> mbUserID m = user) (\<lambda>m. m\<lparr>mbRole := role\<rparr>) (team_members s)\<rparr>, Inr ()))"

definition GetMembers :: "uuid \<Rightarrow> account \<Rightarrow> (TeamMember \<times> string) list" where
  "GetMembers team s =
     concat (map (\<lambda>m. map (\<lambda>u. (m, snd u)) (filter (\<lambda>u. fst u = mbUserID m) (auth_users s)))
       (sort_key mbCreatedAt (filter (\<lambda>m. mbTeamID m = team) (team_members s))))"

definition GetMember :: "uuid \<Rightarrow> uuid \<Rightarrow> account \<Rightarrow> TeamMember result" where
  "GetMember team user s = (case member_at s team user of None \<Rightarrow> Inl ErrNoRows | Some m \<Rightarrow> Inr m)"

section \<open>Invitations\<close>

text \<open>Two statements, not one transaction: first the expired invitations of the address are
  revoked, then the new one is inserted.\<close>

definition revoke_expired :: "instant \<Rightarrow> uuid \<Rightarrow> string \<Rightarrow> account \<Rightarrow> account \<times> unit result" where
  "revoke_expired now team email s =
     (s\<lparr>team_invitations := sql_update
        (\<lambda>i. ivTeamID i = team \<and> ToLower (ivEmail i) = ToLower email \<and> ivStatus i = TeamInvitationStatusPending \<and> ivExpiresAt i \<le> now)
        (\<lambda>i. i\<lparr>ivStatus := TeamInvitationStatusRevoked, ivRevokedAt := Some now\<rparr>) (team_invitations s)\<rparr>, Inr ())"

definition pending_for :: "TeamInvitation \<Rightarrow> TeamInvitation \<Rightarrow> bool" where
  "pending_for n i \<longleftrightarrow> ivStatus i = TeamInvitationStatusPending \<and> ivTeamID i = ivTeamID n \<and> ToLower (ivEmail i) = ToLower (ivEmail n)"

definition insert_invitation :: "instant \<Rightarrow> TeamInvitation \<Rightarrow> account \<Rightarrow> account \<times> unit result" where
  "insert_invitation now n s =
     (if length (ivEmail n) > 255 \<or> length (ivTokenHash n) > 64 then (s, Inl ValueTooLong)
      else if ivRole n \<notin> {TeamMemberRoleAdmin, TeamMemberRoleMember} \<or> ivStatus n = TeamInvitationStatusExpired then (s, Inl CheckViolation)
      else if by_key ivID (ivID n) (team_invitations s) \<noteq> None \<or> by_key ivTokenHash (ivTokenHash n) (team_invitations s) \<noteq> None \<or>
              ivStatus n = TeamInvitationStatusPending \<and> list_ex (pending_for n) (team_invitations s) then (s, Inl UniqueViolation)
      else if by_key tmID (ivTeamID n) (teams s) = None then (s, Inl ForeignKeyViolation)
      else (s\<lparr>team_invitations := team_invitations s @
              [n\<lparr>ivAcceptedAt := None, ivAcceptedByUserID := None, ivRevokedAt := None, ivCreatedAt := now\<rparr>]\<rparr>, Inr ()))"

definition TeamRepo_CreateInvitation :: "fault \<Rightarrow> instant \<Rightarrow> TeamInvitation \<Rightarrow> account \<Rightarrow> account \<times> unit result" where
  "TeamRepo_CreateInvitation revokeFault now n s =
     (case run_call revokeFault (revoke_expired now (ivTeamID n) (ivEmail n)) s of
        (s1, Inl e) \<Rightarrow> (s1, Inl e)
      | (s1, Inr _) \<Rightarrow> insert_invitation now n s1)"

definition ListInvitations :: "instant \<Rightarrow> uuid \<Rightarrow> account \<Rightarrow> TeamInvitation list" where
  "ListInvitations now team s =
     map (\<lambda>i. if ivStatus i = TeamInvitationStatusPending \<and> ivExpiresAt i \<le> now then i\<lparr>ivStatus := TeamInvitationStatusExpired\<rparr> else i)
       (sort_key (\<lambda>i. - ivCreatedAt i) (filter (\<lambda>i. ivTeamID i = team) (team_invitations s)))"

definition RevokeInvitation :: "instant \<Rightarrow> uuid \<Rightarrow> uuid \<Rightarrow> account \<Rightarrow> account \<times> unit result" where
  "RevokeInvitation now team i s =
     (s\<lparr>team_invitations := sql_update (\<lambda>v. ivID v = i \<and> ivTeamID v = team \<and> ivStatus v = TeamInvitationStatusPending)
        (\<lambda>v. v\<lparr>ivStatus := TeamInvitationStatusRevoked, ivRevokedAt := Some now\<rparr>) (team_invitations s)\<rparr>, Inr ())"

definition accept_where :: "instant \<Rightarrow> string \<Rightarrow> uuid \<Rightarrow> account \<Rightarrow> TeamInvitation \<Rightarrow> bool" where
  "accept_where now hash user s i \<longleftrightarrow> ivTokenHash i = hash \<and> ivStatus i = TeamInvitationStatusPending \<and> ivExpiresAt i > now \<and>
     (\<exists>u \<in> set (auth_users s). fst u = user \<and> ToLower (ivEmail i) = ToLower (snd u))"

definition accept_set :: "instant \<Rightarrow> uuid \<Rightarrow> TeamInvitation \<Rightarrow> TeamInvitation" where
  "accept_set now user i = i\<lparr>ivStatus := TeamInvitationStatusAccepted, ivAcceptedAt := Some now, ivAcceptedByUserID := Some user\<rparr>"

text \<open>One statement: the update, the insert that skips an existing membership, and the answer.\<close>

definition TeamRepo_AcceptInvitation :: "instant \<Rightarrow> string \<Rightarrow> uuid \<Rightarrow> uuid \<Rightarrow> account \<Rightarrow> account \<times> TeamInvitation result" where
  "TeamRepo_AcceptInvitation now hash user memberID s =
     (case find (accept_where now hash user s) (team_invitations s) of
        None \<Rightarrow> (s, Inl ErrNoRows)
      | Some i \<Rightarrow>
          (let s1 = s\<lparr>team_invitations := sql_update (accept_where now hash user s) (accept_set now user) (team_invitations s)\<rparr> in
           if member_at s (ivTeamID i) user \<noteq> None then (s1, Inr (accept_set now user i))
           else case insert_member now \<lparr>mbID = memberID, mbTeamID = ivTeamID i, mbUserID = user, mbRole = ivRole i, mbCreatedAt = now\<rparr> s1 of
                  Inl e \<Rightarrow> (s, Inl e)
                | Inr s2 \<Rightarrow> (s2, Inr (accept_set now user i))))"

section \<open>The service\<close>

datatype team_error = TeamRefused string | TeamDB db_error

definition teamInvitationTTL :: int where
  "teamInvitationTTL = 7 * 24 * hour"

text \<open>The loop of \<open>generateSlug\<close>: the text built so far and whether a separator is due. Its input are the
  code points of the trimmed name in lower case.\<close>

definition slug_char :: "nat \<Rightarrow> bool" where
  "slug_char c \<longleftrightarrow> (97 \<le> c \<and> c \<le> 122) \<or> (48 \<le> c \<and> c \<le> 57)"

definition slug_step :: "string \<times> bool \<Rightarrow> nat \<Rightarrow> string \<times> bool" where
  "slug_step st c = (case st of (b, sep) \<Rightarrow>
     if slug_char c then (b @ (if sep \<and> b \<noteq> [] then ''-'' else []) @ [char_of c], False)
     else (b, if b \<noteq> [] then True else sep))"

definition generateSlug :: "nat list \<Rightarrow> string" where
  "generateSlug runes = fst (foldl slug_step ([], False) runes)"

definition team_db :: "account \<times> 'a result \<Rightarrow> account \<times> (team_error + 'a)" where
  "team_db x = (case x of (s, Inl e) \<Rightarrow> (s, Inl (TeamDB e)) | (s, Inr a) \<Rightarrow> (s, Inr a))"

definition new_team :: "uuid \<Rightarrow> string \<Rightarrow> string \<Rightarrow> Team" where
  "new_team i name slug = \<lparr>tmID = i, tmName = name, tmSlug = slug, tmPlan = PlanFree, tmStripeCustomerID = None,
     tmStripeSubscriptionID = None, tmBillingStatus = [], tmCurrentPeriodEnd = None, tmCancelAtPeriodEnd = False,
     tmCreatedAt = 0, tmUpdatedAt = 0, tmBillingEventCreated = 0, tmBillingEventID = []\<rparr>"

definition TeamService_Create ::
  "fault \<Rightarrow> instant \<Rightarrow> (string \<Rightarrow> nat list) \<Rightarrow> uuid \<Rightarrow> uuid \<Rightarrow> uuid \<Rightarrow> string option \<Rightarrow> account \<Rightarrow> account \<times> (team_error + Team)" where
  "TeamService_Create f now runes teamID memberID user req s =
     (case req of
        None \<Rightarrow> (s, Inl (TeamRefused ''team request is required''))
      | Some raw \<Rightarrow>
          let name = TrimSpace raw; slug = generateSlug (runes name);
              t = new_team teamID name slug;
              m = \<lparr>mbID = memberID, mbTeamID = teamID, mbUserID = user, mbRole = TeamMemberRoleOwner, mbCreatedAt = 0\<rparr>
          in if user = uuid_Nil then (s, Inl (TeamRefused ''user id is required''))
             else if name = [] \<or> length name > 255 then (s, Inl (TeamRefused ''team name must be between 1 and 255 characters''))
             else if \<not> IsValidSlug slug then (s, Inl (TeamRefused ''team name must produce a valid slug''))
             else case team_db (run_call f (CreateWithOwner now t m) s) of
                    (s', Inl e) \<Rightarrow> (s', Inl e)
                  | (s', Inr _) \<Rightarrow> (s', Inr t))"

definition TeamService_Update ::
  "fault \<Rightarrow> fault \<Rightarrow> instant \<Rightarrow> uuid \<Rightarrow> string option option \<Rightarrow> account \<Rightarrow> account \<times> (team_error + Team)" where
  "TeamService_Update f g now i req s =
     (case req of
        None \<Rightarrow> (s, Inl (TeamRefused ''team request is required''))
      | Some newName \<Rightarrow>
          (case run_call f (\<lambda>s. (s, TeamRepo_GetByID i s)) s of
             (s1, Inl e) \<Rightarrow> (s1, Inl (TeamDB e))
           | (s1, Inr t) \<Rightarrow>
               (case (case newName of
                        None \<Rightarrow> Inr t
                      | Some raw \<Rightarrow> let name = TrimSpace raw in
                          if name = [] \<or> length name > 255 then Inl (TeamRefused ''team name must be between 1 and 255 characters'')
                          else Inr (t\<lparr>tmName := name\<rparr>)) of
                  Inl e \<Rightarrow> (s1, Inl e)
                | Inr t' \<Rightarrow>
                    (case run_call g (TeamRepo_Update now t') s1 of
                       (s2, Inl e) \<Rightarrow> (s2, Inl (TeamDB e))
                     | (s2, Inr _) \<Rightarrow> (s2, Inr t')))))"

definition TeamService_CreateInvitation ::
  "fault \<Rightarrow> fault \<Rightarrow> instant \<Rightarrow> (string \<Rightarrow> string) \<Rightarrow> string option \<Rightarrow> uuid \<Rightarrow> uuid \<Rightarrow> (string \<times> string) option \<Rightarrow>
   account \<Rightarrow> account \<times> (team_error + TeamInvitation \<times> string)" where
  "TeamService_CreateInvitation f g now sha drawn invID team req s =
     (case req of
        None \<Rightarrow> (s, Inl (TeamRefused ''invitation request is required''))
      | Some (raw, role) \<Rightarrow>
          let email = ToLower (TrimSpace raw) in
          if \<not> IsValidEmail email then (s, Inl (TeamRefused ''invalid invitation email''))
          else if role \<noteq> TeamMemberRoleAdmin \<and> role \<noteq> TeamMemberRoleMember
          then (s, Inl (TeamRefused ''members can only be invited as admin or member''))
          else case drawn of
                 None \<Rightarrow> (s, Inl (TeamRefused ''generate invitation token''))
               | Some token \<Rightarrow>
                   let n = \<lparr>ivID = invID, ivTeamID = team, ivEmail = email, ivRole = role, ivTokenHash = sha token,
                            ivStatus = TeamInvitationStatusPending, ivExpiresAt = now + teamInvitationTTL, ivAcceptedAt = None,
                            ivAcceptedByUserID = None, ivRevokedAt = None, ivCreatedAt = 0\<rparr>
                   in case run_call g (TeamRepo_CreateInvitation f now n) s of
                        (s', Inl e) \<Rightarrow> (s', Inl (TeamDB e))
                      | (s', Inr _) \<Rightarrow> (s', Inr (n, token)))"

definition TeamService_AcceptInvitation ::
  "fault \<Rightarrow> instant \<Rightarrow> (string \<Rightarrow> string) \<Rightarrow> uuid \<Rightarrow> string \<Rightarrow> uuid \<Rightarrow> account \<Rightarrow> account \<times> (team_error + TeamInvitation)" where
  "TeamService_AcceptInvitation f now sha memberID token user s =
     (if user = uuid_Nil \<or> TrimSpace token = [] then (s, Inl (TeamRefused ''invitation is invalid or expired''))
      else case run_call f (TeamRepo_AcceptInvitation now (sha token) user memberID) s of
             (s', Inl _) \<Rightarrow> (s', Inl (TeamRefused ''invitation is invalid or expired''))
           | (s', Inr i) \<Rightarrow> (s', Inr i))"

definition TeamService_RemoveMember :: "fault \<Rightarrow> fault \<Rightarrow> uuid \<Rightarrow> uuid \<Rightarrow> account \<Rightarrow> account \<times> (team_error + unit)" where
  "TeamService_RemoveMember f g team user s =
     (case run_call f (\<lambda>s. (s, GetMember team user s)) s of
        (s1, Inl e) \<Rightarrow> (s1, Inl (TeamDB e))
      | (s1, Inr m) \<Rightarrow>
          if mbRole m = TeamMemberRoleOwner then (s1, Inl (TeamRefused ''the team owner cannot be removed''))
          else team_db (run_call g (RemoveMember team user) s1))"

definition TeamService_UpdateMemberRole ::
  "fault \<Rightarrow> fault \<Rightarrow> uuid \<Rightarrow> uuid \<Rightarrow> string \<Rightarrow> account \<Rightarrow> account \<times> (team_error + unit)" where
  "TeamService_UpdateMemberRole f g team user role s =
     (if role \<noteq> TeamMemberRoleAdmin \<and> role \<noteq> TeamMemberRoleMember then (s, Inl (TeamRefused ''member role must be admin or member''))
      else case run_call f (\<lambda>s. (s, GetMember team user s)) s of
             (s1, Inl e) \<Rightarrow> (s1, Inl (TeamDB e))
           | (s1, Inr m) \<Rightarrow>
               if mbRole m = TeamMemberRoleOwner then (s1, Inl (TeamRefused ''the team owner role cannot be changed''))
               else team_db (run_call g (UpdateMemberRole team user role) s1))"

section \<open>Traces\<close>

datatype team_op =
    TCreate fault instant "string \<Rightarrow> nat list" uuid uuid uuid "string option"
  | TUpdate fault fault instant uuid "string option option"
  | TDelete fault uuid
  | TInvite fault fault instant "string option" uuid uuid "(string \<times> string) option"
  | TRevoke fault instant uuid uuid
  | TAccept fault instant uuid string uuid
  | TRemove fault fault uuid uuid
  | TRole fault fault uuid uuid string

fun exec_t :: "(string \<Rightarrow> string) \<Rightarrow> team_op \<Rightarrow> account \<Rightarrow> account" where
  "exec_t sha (TCreate f now runes t m u req) s = fst (TeamService_Create f now runes t m u req s)"
| "exec_t sha (TUpdate f g now i req) s = fst (TeamService_Update f g now i req s)"
| "exec_t sha (TDelete f i) s = fst (run_call f (TeamRepo_Delete i) s)"
| "exec_t sha (TInvite f g now drawn i team req) s = fst (TeamService_CreateInvitation f g now sha drawn i team req s)"
| "exec_t sha (TRevoke f now team i) s = fst (run_call f (RevokeInvitation now team i) s)"
| "exec_t sha (TAccept f now m token user) s = fst (TeamService_AcceptInvitation f now sha m token user s)"
| "exec_t sha (TRemove f g team user) s = fst (TeamService_RemoveMember f g team user s)"
| "exec_t sha (TRole f g team user role) s = fst (TeamService_UpdateMemberRole f g team user role s)"

definition run_t :: "(string \<Rightarrow> string) \<Rightarrow> team_op list \<Rightarrow> account \<Rightarrow> account" where
  "run_t sha ops s = fold (exec_t sha) ops s"

section \<open>One owner per team\<close>

definition owners :: "uuid \<Rightarrow> account \<Rightarrow> TeamMember list" where
  "owners team s = filter (\<lambda>m. mbTeamID m = team \<and> mbRole m = TeamMemberRoleOwner) (team_members s)"

definition member_key :: "TeamMember \<Rightarrow> uuid \<times> uuid" where
  "member_key m = (mbTeamID m, mbUserID m)"

definition team_ok :: "account \<Rightarrow> bool" where
  "team_ok s \<longleftrightarrow> keyed tmID (teams s) \<and> keyed member_key (team_members s) \<and> keyed ivTokenHash (team_invitations s) \<and>
     (\<forall>m \<in> set (team_members s). mbTeamID m \<in> tmID ` set (teams s)) \<and>
     (\<forall>i \<in> set (team_invitations s). ivRole i \<noteq> TeamMemberRoleOwner) \<and>
     (\<forall>t \<in> set (teams s). length (owners (tmID t) s) = 1)"

lemma team_okD:
  assumes "team_ok s"
  shows "keyed tmID (teams s)" "keyed member_key (team_members s)" "keyed ivTokenHash (team_invitations s)"
    "\<And>m. m \<in> set (team_members s) \<Longrightarrow> mbTeamID m \<in> tmID ` set (teams s)"
    "\<And>i. i \<in> set (team_invitations s) \<Longrightarrow> ivRole i \<noteq> TeamMemberRoleOwner"
    "\<And>t. t \<in> set (teams s) \<Longrightarrow> length (owners (tmID t) s) = 1"
  using assms by (auto simp: team_ok_def)

lemma member_at_key: "member_at s team user = by_key member_key (team, user) (team_members s)"
  by (simp add: member_at_def member_key_def [abs_def])

text \<open>A call keeps what both of its possible states have.\<close>

lemma run_call_keeps: "P s \<Longrightarrow> P (fst (op s)) \<Longrightarrow> P (fst (run_call f op s))"
  using run_call_state [of f op s] by auto

lemma fst_team_db [simp]: "fst (team_db x) = fst x"
  by (auto simp: team_db_def split: prod.splits sum.splits)

lemma insert_member_ok:
  assumes "team_ok s" and "insert_member now m s = Inr s'" and "mbRole m \<noteq> TeamMemberRoleOwner"
  shows "team_ok s'"
proof -
  have s': "s' = s\<lparr>team_members := team_members s @ [m\<lparr>mbCreatedAt := now\<rparr>]\<rparr>" "member_at s (mbTeamID m) (mbUserID m) = None"
      "by_key tmID (mbTeamID m) (teams s) \<noteq> None"
    using assms(2) by (auto simp: insert_member_def split: if_splits)
  have "owners t s' = owners t s" for t using assms(3) by (simp add: s'(1) owners_def)
  moreover have "keyed member_key (team_members s')"
    using s'(2) team_okD(2) [OF assms(1)] by (simp add: s'(1) keyed_append_one member_at_key member_key_def)
  ultimately show ?thesis using team_okD [OF assms(1)] s'(3) by (auto simp: team_ok_def s'(1) by_key_None_iff)
qed

lemma create_with_owner_ok:
  assumes "team_ok s" and "mbTeamID m = tmID t" and "mbRole m = TeamMemberRoleOwner"
  shows "team_ok (fst (CreateWithOwner now t m s))"
proof (cases "insert_team now t s")
  case (Inr s1)
  show ?thesis
  proof (cases "insert_member now m s1")
    case (Inr s2)
    let ?t = "t\<lparr>tmStripeCustomerID := None, tmStripeSubscriptionID := None, tmBillingStatus := ''inactive'', tmCurrentPeriodEnd := None,
           tmCancelAtPeriodEnd := False, tmCreatedAt := now, tmUpdatedAt := now, tmBillingEventCreated := 0, tmBillingEventID := []\<rparr>"
    have s1: "s1 = s\<lparr>teams := teams s @ [?t]\<rparr>" "by_key tmID (tmID t) (teams s) = None"
      using \<open>insert_team now t s = Inr s1\<close> by (auto simp: insert_team_def split: if_splits)
    have s2: "s2 = s1\<lparr>team_members := team_members s @ [m\<lparr>mbCreatedAt := now\<rparr>]\<rparr>" "member_at s1 (tmID t) (mbUserID m) = None"
      using Inr assms(2) by (auto simp: insert_member_def s1(1) split: if_splits)
    have none: "tmID t \<notin> tmID ` set (teams s)" using s1(2) by (simp add: by_key_None_iff)
    then have "mbTeamID x \<noteq> tmID t" if "x \<in> set (team_members s)" for x using team_okD(4) [OF assms(1) that] by metis
    then have "owners (tmID t) s = []" by (simp add: owners_def filter_empty_conv)
    then have "owners (tmID t) s2 = [m\<lparr>mbCreatedAt := now\<rparr>]" using assms(2,3) by (simp add: owners_def s1(1) s2(1))
    moreover have "owners (tmID x) s2 = owners (tmID x) s" if "x \<in> set (teams s)" for x
      using that none assms(2) by (auto simp: owners_def s1(1) s2(1))
    moreover have "keyed member_key (team_members s2)"
      using s2(2) team_okD(2) [OF assms(1)] by (simp add: s1(1) s2(1) keyed_append_one member_at_key member_key_def assms(2))
    moreover have "keyed tmID (teams s2)" using s1(2) team_okD(1) [OF assms(1)] by (simp add: s1(1) s2(1) keyed_append_one)
    ultimately have "team_ok s2" using team_okD(3-6) [OF assms(1)] assms(2) by (auto simp: team_ok_def s1(1) s2(1))
    then show ?thesis using \<open>insert_team now t s = Inr s1\<close> Inr by (simp add: CreateWithOwner_def commit_or_keep_def)
  qed (simp add: CreateWithOwner_def commit_or_keep_def \<open>insert_team now t s = Inr s1\<close> assms(1))
qed (simp add: CreateWithOwner_def commit_or_keep_def assms(1))

lemma team_ok_by_id:
  "team_ok s \<longleftrightarrow> keyed tmID (teams s) \<and> keyed member_key (team_members s) \<and> keyed ivTokenHash (team_invitations s) \<and>
     mbTeamID ` set (team_members s) \<subseteq> tmID ` set (teams s) \<and>
     (\<forall>i \<in> set (team_invitations s). ivRole i \<noteq> TeamMemberRoleOwner) \<and>
     (\<forall>i \<in> tmID ` set (teams s). length (owners i s) = 1)"
  by (auto simp: team_ok_def)

lemma key_image_sql_update: "(\<And>r. key (f r) = key r) \<Longrightarrow> key ` set (sql_update p f rows) = key ` set rows"
  by (metis list.set_map map_key_sql_update)

lemma team_update_ok: "team_ok s \<Longrightarrow> team_ok (fst (TeamRepo_Update now t s))"
  by (simp add: TeamRepo_Update_def team_ok_by_id owners_def key_image_sql_update keyed_sql_update)

lemma owners_delete: "t \<noteq> i \<Longrightarrow> owners t (fst (TeamRepo_Delete i s)) = owners t s"
  by (auto simp: owners_def TeamRepo_Delete_def sql_delete_def intro: filter_cong)

lemma team_delete_ok:
  assumes "team_ok s"
  shows "team_ok (fst (TeamRepo_Delete i s))"
proof (cases "by_key tmID i (teams s)")
  case (Some t)
  let ?s = "fst (TeamRepo_Delete i s)"
  have rows: "set (teams ?s) = {t \<in> set (teams s). tmID t \<noteq> i}" "set (team_members ?s) = {m \<in> set (team_members s). mbTeamID m \<noteq> i}"
      "set (team_invitations ?s) = {v \<in> set (team_invitations s). ivTeamID v \<noteq> i}"
    using Some by (auto simp: TeamRepo_Delete_def sql_delete_def)
  have keys: "keyed tmID (teams ?s)" "keyed member_key (team_members ?s)" "keyed ivTokenHash (team_invitations ?s)"
    using Some team_okD(1-3) [OF assms] by (simp_all add: TeamRepo_Delete_def keyed_sql_delete)
  have "mbTeamID m \<in> tmID ` set (teams ?s)" if m: "m \<in> set (team_members ?s)" for m
  proof -
    have "m \<in> set (team_members s)" "mbTeamID m \<noteq> i" using m by (simp_all add: rows)
    with team_okD(4) [OF assms] obtain t where "t \<in> set (teams s)" "tmID t = mbTeamID m" by (metis imageE)
    with \<open>mbTeamID m \<noteq> i\<close> show ?thesis by (auto simp: rows intro!: image_eqI)
  qed
  moreover have "length (owners (tmID t) ?s) = 1" if "t \<in> set (teams ?s)" for t
    using that team_okD(6) [OF assms] owners_delete [of "tmID t" i s] by (simp add: rows)
  ultimately show ?thesis using keys team_okD(5) [OF assms] by (auto simp: team_ok_def rows)
qed (simp add: TeamRepo_Delete_def assms)

lemma remove_member_ok:
  assumes "team_ok s" and "GetMember team user s = Inr m" and "mbRole m \<noteq> TeamMemberRoleOwner"
  shows "team_ok (fst (RemoveMember team user s))"
proof -
  have m: "member_at s team user = Some m" using assms(2) by (auto simp: GetMember_def split: option.splits)
  have "r = m" if "r \<in> set (team_members s)" "mbTeamID r = team" "mbUserID r = user" for r
    using keyed_by_key [OF team_okD(2) [OF assms(1)] that(1)] that m by (simp add: member_at_key member_key_def)
  then have "owners t (fst (RemoveMember team user s)) = owners t s" for t
    using assms(3) by (auto simp: RemoveMember_def owners_def sql_delete_def intro: filter_cong)
  moreover have "keyed member_key (team_members (fst (RemoveMember team user s)))"
    using team_okD(2) [OF assms(1)] by (simp add: RemoveMember_def keyed_sql_delete)
  moreover have "set (team_members (fst (RemoveMember team user s))) \<subseteq> set (team_members s)"
    by (auto simp: RemoveMember_def sql_delete_def)
  ultimately show ?thesis using assms(1) by (auto simp: team_ok_def RemoveMember_def)
qed

lemma update_role_ok:
  assumes "team_ok s" and "GetMember team user s = Inr m" and "mbRole m \<noteq> TeamMemberRoleOwner" and "role \<noteq> TeamMemberRoleOwner"
  shows "team_ok (fst (UpdateMemberRole team user role s))"
proof -
  let ?p = "\<lambda>r. mbTeamID r = team \<and> mbUserID r = user" and ?f = "\<lambda>r. r\<lparr>mbRole := role\<rparr>"
  have m: "member_at s team user = Some m" using assms(2) by (auto simp: GetMember_def split: option.splits)
  have "r = m" if "r \<in> set (team_members s)" "?p r" for r
    using keyed_by_key [OF team_okD(2) [OF assms(1)] that(1)] that m by (simp add: member_at_key member_key_def)
  then have none: "mbRole r \<noteq> TeamMemberRoleOwner" if "r \<in> set (team_members s)" "?p r" for r using that assms(3) by blast
  have o: "filter (\<lambda>r. mbTeamID r = t \<and> mbRole r = TeamMemberRoleOwner) (sql_update ?p ?f rows) =
      filter (\<lambda>r. mbTeamID r = t \<and> mbRole r = TeamMemberRoleOwner) rows" if "set rows \<subseteq> set (team_members s)" for rows t
    using that none assms(4) by (induction rows) auto
  have "keyed member_key (sql_update ?p ?f (team_members s))"
    using team_okD(2) [OF assms(1)] by (intro keyed_sql_update) (simp_all add: member_key_def)
  then show ?thesis using assms(1) o [of "team_members s"]
    by (auto simp: team_ok_def UpdateMemberRole_def owners_def set_sql_update)
qed

text \<open>What a trace does to the invitations: a row stays, is closed for good, or is new with a token that
  this operation drew and a role other than owner.\<close>

definition closes :: "TeamInvitation \<Rightarrow> TeamInvitation \<Rightarrow> bool" where
  "closes i i' \<longleftrightarrow> ivTokenHash i' = ivTokenHash i \<and> ivRole i' = ivRole i \<and> ivStatus i' \<noteq> TeamInvitationStatusPending"

definition draws :: "(string \<Rightarrow> string) \<Rightarrow> string \<Rightarrow> team_op \<Rightarrow> bool" where
  "draws sha h op \<longleftrightarrow> (case op of TInvite _ _ _ (Some token) _ _ _ \<Rightarrow> sha token = h | _ \<Rightarrow> False)"

definition invitations_step :: "string set \<Rightarrow> account \<Rightarrow> account \<Rightarrow> bool" where
  "invitations_step H s s' \<longleftrightarrow>
     (keyed ivTokenHash (team_invitations s) \<longrightarrow> keyed ivTokenHash (team_invitations s')) \<and>
     (\<forall>i' \<in> set (team_invitations s'). (\<exists>i \<in> set (team_invitations s). i' = i \<or> closes i i') \<or>
        ivRole i' \<noteq> TeamMemberRoleOwner \<and> ivTokenHash i' \<in> H)"

lemma invitations_step_refl: "team_invitations s' = team_invitations s \<Longrightarrow> invitations_step H s s'"
  by (auto simp: invitations_step_def)

lemma invitations_step_trans:
  assumes "invitations_step H s s1" and "invitations_step H s1 s2"
  shows "invitations_step H s s2"
  unfolding invitations_step_def
proof (intro conjI impI ballI)
  show "keyed ivTokenHash (team_invitations s2)" if "keyed ivTokenHash (team_invitations s)"
    using assms that by (simp add: invitations_step_def)
next
  fix i2 assume "i2 \<in> set (team_invitations s2)"
  then consider i1 where "i1 \<in> set (team_invitations s1)" "i2 = i1 \<or> closes i1 i2" | "ivRole i2 \<noteq> TeamMemberRoleOwner" "ivTokenHash i2 \<in> H"
    using assms(2) by (auto simp: invitations_step_def)
  then show "(\<exists>i \<in> set (team_invitations s). i2 = i \<or> closes i i2) \<or> ivRole i2 \<noteq> TeamMemberRoleOwner \<and> ivTokenHash i2 \<in> H"
  proof cases
    case 1
    then show ?thesis using assms(1) by (fastforce simp: invitations_step_def closes_def)
  qed simp
qed

lemma invitations_update:
  assumes "team_invitations s' = sql_update p f (team_invitations s)" and "\<And>i. p i \<Longrightarrow> closes i (f i)"
    and "\<And>i. ivTokenHash (f i) = ivTokenHash i"
  shows "invitations_step H s s'"
proof -
  have "\<exists>i \<in> set (team_invitations s). i' = i \<or> closes i i'" if "i' \<in> set (team_invitations s')" for i'
    using that assms(2) by (auto simp: assms(1) in_sql_update split: if_splits)
  with keyed_sql_update [of ivTokenHash f, OF assms(3)] show ?thesis by (simp add: invitations_step_def assms(1))
qed

lemma invitations_revoke: "invitations_step H s (fst (RevokeInvitation now team i s))"
  by (rule invitations_update, simp add: RevokeInvitation_def) (auto simp: closes_def)

lemma invitations_revoke_expired: "invitations_step H s (fst (revoke_expired now team email s))"
  by (rule invitations_update, simp add: revoke_expired_def) (auto simp: closes_def)

lemma invitations_delete: "invitations_step H s (fst (TeamRepo_Delete i s))"
  by (auto simp: invitations_step_def TeamRepo_Delete_def sql_delete_def keyed_sql_delete [unfolded sql_delete_def])

lemma invitations_insert:
  assumes "ivTokenHash n \<in> H"
  shows "invitations_step H s (fst (insert_invitation now n s))"
proof (cases "snd (insert_invitation now n s)")
  case (Inl e)
  then have "fst (insert_invitation now n s) = s" by (auto simp: insert_invitation_def split: if_splits)
  then show ?thesis by (simp add: invitations_step_refl)
next
  case (Inr u)
  let ?n = "n\<lparr>ivAcceptedAt := None, ivAcceptedByUserID := None, ivRevokedAt := None, ivCreatedAt := now\<rparr>"
  have "team_invitations (fst (insert_invitation now n s)) = team_invitations s @ [?n]"
      "by_key ivTokenHash (ivTokenHash n) (team_invitations s) = None" "ivRole n \<in> {TeamMemberRoleAdmin, TeamMemberRoleMember}"
    using Inr by (auto simp: insert_invitation_def split: if_splits)
  then show ?thesis using assms by (auto simp: invitations_step_def keyed_append_one role_defs)
qed

lemma invitations_create:
  assumes "ivTokenHash n \<in> H"
  shows "invitations_step H s (fst (TeamRepo_CreateInvitation f now n s))"
proof -
  have 1: "invitations_step H s (fst (run_call f (revoke_expired now (ivTeamID n) (ivEmail n)) s))"
    by (rule run_call_keeps [where P = "invitations_step H s"]) (simp_all add: invitations_step_refl invitations_revoke_expired)
  obtain s1 r where r: "run_call f (revoke_expired now (ivTeamID n) (ivEmail n)) s = (s1, r)" by (metis surj_pair)
  show ?thesis
  proof (cases r)
    case (Inr u)
    then show ?thesis using 1 r invitations_step_trans [OF _ invitations_insert [OF assms]]
      by (simp add: TeamRepo_CreateInvitation_def)
  qed (use 1 r in \<open>simp add: TeamRepo_CreateInvitation_def\<close>)
qed

lemma insert_member_frame: "insert_member now m s = Inr s' \<Longrightarrow> s' = s\<lparr>team_members := team_members s @ [m\<lparr>mbCreatedAt := now\<rparr>]\<rparr>"
  by (auto simp: insert_member_def split: if_splits)

lemma invitations_accept: "invitations_step H s (fst (TeamRepo_AcceptInvitation now h user m s))"
proof -
  have "team_invitations (fst (TeamRepo_AcceptInvitation now h user m s)) = team_invitations s \<or>
      team_invitations (fst (TeamRepo_AcceptInvitation now h user m s)) =
        sql_update (accept_where now h user s) (accept_set now user) (team_invitations s)"
    by (auto simp: TeamRepo_AcceptInvitation_def Let_def split: option.splits sum.splits dest: insert_member_frame)
  then show ?thesis
    using invitations_update [of _ "accept_where now h user s" "accept_set now user"] invitations_step_refl
    by (auto simp: closes_def accept_set_def)
qed

text \<open>The state a service call leaves behind, without its answer.\<close>

lemma fst_answer [simp]:
  "fst (case x of (s, r) \<Rightarrow> (case r of Inl e \<Rightarrow> (s, g e) | Inr a \<Rightarrow> (s, h a))) = fst x"
  by (auto split: prod.splits sum.splits)

definition first_owner :: "uuid \<Rightarrow> uuid \<Rightarrow> uuid \<Rightarrow> TeamMember" where
  "first_owner m t u = \<lparr>mbID = m, mbTeamID = t, mbUserID = u, mbRole = TeamMemberRoleOwner, mbCreatedAt = 0\<rparr>"

lemma create_state:
  obtains "fst (TeamService_Create f now runes t m u req s) = s"
  | name slug where "fst (TeamService_Create f now runes t m u req s) =
      fst (run_call f (CreateWithOwner now (new_team t name slug) (first_owner m t u)) s)"
  by (cases req) (fastforce simp: TeamService_Create_def Let_def first_owner_def split: if_splits)+

lemma update_state:
  obtains "fst (TeamService_Update f g now i req s) = s"
  | t where "fst (TeamService_Update f g now i req s) = fst (run_call g (TeamRepo_Update now t) s)"
proof -
  obtain s1 r where r: "run_call f (\<lambda>s. (s, TeamRepo_GetByID i s)) s = (s1, r)" by (metis surj_pair)
  then have "s1 = s" by (cases f) auto
  with r that show ?thesis
    by (cases req; cases r) (fastforce simp: TeamService_Update_def Let_def split: if_splits sum.splits option.splits)+
qed

lemma invite_state:
  obtains "fst (TeamService_CreateInvitation f g now sha drawn i team req s) = s"
  | n token where "drawn = Some token" "ivTokenHash n = sha token"
      "fst (TeamService_CreateInvitation f g now sha drawn i team req s) = fst (run_call g (TeamRepo_CreateInvitation f now n) s)"
proof (cases "drawn = None \<or> fst (TeamService_CreateInvitation f g now sha drawn i team req s) = s")
  case True
  then have "fst (TeamService_CreateInvitation f g now sha drawn i team req s) = s"
    by (auto simp: TeamService_CreateInvitation_def Let_def split: option.splits prod.splits)
  then show ?thesis by (rule that(1))
next
  case False
  then obtain token raw role where d: "drawn = Some token" "req = Some (raw, role)"
    by (cases req) (auto simp: TeamService_CreateInvitation_def)
  let ?n = "\<lparr>ivID = i, ivTeamID = team, ivEmail = ToLower (TrimSpace raw), ivRole = role, ivTokenHash = sha token,
      ivStatus = TeamInvitationStatusPending, ivExpiresAt = now + teamInvitationTTL, ivAcceptedAt = None,
      ivAcceptedByUserID = None, ivRevokedAt = None, ivCreatedAt = 0\<rparr>"
  have "fst (TeamService_CreateInvitation f g now sha drawn i team req s) = fst (run_call g (TeamRepo_CreateInvitation f now ?n) s)"
    using False d by (simp add: TeamService_CreateInvitation_def Let_def split: if_splits)
  then show ?thesis using that(2) [of token ?n] d by simp
qed

lemma exec_t_invitations: "invitations_step {h. draws sha h op} s (exec_t sha op s)"
proof (cases op)
  case (TCreate f now runes t m u req)
  have "team_invitations (fst (CreateWithOwner now' t' m' s)) = team_invitations s" for now' t' m'
    by (auto simp: CreateWithOwner_def commit_or_keep_def insert_team_def split: sum.splits if_splits dest!: insert_member_frame)
  then have "team_invitations (fst (run_call f (CreateWithOwner now' t' m') s)) = team_invitations s" for now' t' m'
    using run_call_state [of f "CreateWithOwner now' t' m'" s] by metis
  then show ?thesis using TCreate by (cases rule: create_state [of f now runes t m u req s]) (simp_all add: invitations_step_refl)
next
  case (TUpdate f g now i req)
  have "team_invitations (fst (run_call g (TeamRepo_Update now t) s)) = team_invitations s" for t
    by (cases g) (simp_all add: TeamRepo_Update_def)
  then show ?thesis using TUpdate by (cases rule: update_state [of f g now i req s]) (simp_all add: invitations_step_refl)
next
  case (TDelete f i)
  have "invitations_step H s (fst (run_call f (TeamRepo_Delete i) s))" for H
    by (rule run_call_keeps [where P = "invitations_step H s"]) (simp_all add: invitations_step_refl invitations_delete)
  then show ?thesis using TDelete by simp
next
  case (TInvite f g now drawn i team req)
  have "invitations_step {h. draws sha h op} s (fst (run_call g (TeamRepo_CreateInvitation f now n) s))"
    if "drawn = Some token" "ivTokenHash n = sha token" for n token
    using that TInvite by (intro run_call_keeps [where P = "invitations_step _ s"]) (auto simp: invitations_step_refl draws_def intro!: invitations_create)
  then show ?thesis using TInvite
    by (cases rule: invite_state [of f g now sha drawn i team req s]) (simp_all add: invitations_step_refl)
next
  case (TRevoke f now team i)
  have "invitations_step H s (fst (run_call f (RevokeInvitation now team i) s))" for H
    by (rule run_call_keeps [where P = "invitations_step H s"]) (simp_all add: invitations_step_refl invitations_revoke)
  then show ?thesis using TRevoke by simp
next
  case (TAccept f now m token user)
  have "fst (TeamService_AcceptInvitation f now sha m token user s) = s \<or>
      fst (TeamService_AcceptInvitation f now sha m token user s) =
        fst (run_call f (TeamRepo_AcceptInvitation now (sha token) user m) s)"
    by (auto simp: TeamService_AcceptInvitation_def split: prod.splits sum.splits)
  moreover have "invitations_step {h. draws sha h op} s (fst (run_call f (TeamRepo_AcceptInvitation now (sha token) user m) s))"
    by (intro run_call_keeps [where P = "invitations_step _ s"]) (simp_all add: invitations_step_refl invitations_accept)
  ultimately show ?thesis using TAccept by (auto intro: invitations_step_refl)
next
  case (TRemove f g team user)
  have "team_invitations (fst (TeamService_RemoveMember f g team user s)) = team_invitations s"
    by (cases f; cases g) (auto simp: TeamService_RemoveMember_def RemoveMember_def split: prod.splits sum.splits)
  then show ?thesis using TRemove by (simp add: invitations_step_refl)
next
  case (TRole f g team user role)
  have "team_invitations (fst (TeamService_UpdateMemberRole f g team user role s)) = team_invitations s"
    by (cases f; cases g) (auto simp: TeamService_UpdateMemberRole_def UpdateMemberRole_def split: prod.splits sum.splits)
  then show ?thesis using TRole by (simp add: invitations_step_refl)
qed

lemma team_ok_invitations:
  assumes "team_ok s" and "invitations_step H s s'" and "teams s' = teams s" and "team_members s' = team_members s"
  shows "team_ok s'"
  using assms unfolding team_ok_def invitations_step_def owners_def closes_def by auto

lemma accept_ok:
  assumes "team_ok s"
  shows "team_ok (fst (TeamRepo_AcceptInvitation now h user m s))"
proof (cases "find (accept_where now h user s) (team_invitations s)")
  case (Some i)
  let ?s1 = "s\<lparr>team_invitations := sql_update (accept_where now h user s) (accept_set now user) (team_invitations s)\<rparr>"
  have ok: "team_ok ?s1"
    by (rule team_ok_invitations [OF assms invitations_update [where p = "accept_where now h user s" and f = "accept_set now user"]])
      (auto simp: closes_def accept_set_def)
  have "i \<in> set (team_invitations s)" using Some by (auto simp: find_Some_iff)
  then have role: "ivRole i \<noteq> TeamMemberRoleOwner" using team_okD(5) [OF assms] by blast
  show ?thesis
    using Some ok assms insert_member_ok [OF ok, of now "\<lparr>mbID = m, mbTeamID = ivTeamID i, mbUserID = user, mbRole = ivRole i, mbCreatedAt = now\<rparr>"] role
    by (auto simp: TeamRepo_AcceptInvitation_def Let_def split: sum.splits)
qed (simp add: TeamRepo_AcceptInvitation_def assms)

lemma exec_t_ok:
  assumes "team_ok s"
  shows "team_ok (exec_t sha op s)"
proof (cases op)
  case (TCreate f now runes t m u req)
  have "team_ok (fst (run_call f (CreateWithOwner now (new_team t a b) (first_owner m t u)) s))" for a b
    using assms by (intro run_call_keeps [where P = team_ok] create_with_owner_ok) (simp_all add: new_team_def first_owner_def)
  then show ?thesis using TCreate assms by (cases rule: create_state [of f now runes t m u req s]) simp_all
next
  case (TUpdate f g now i req)
  have "team_ok (fst (run_call g (TeamRepo_Update now t) s))" for t
    using assms by (intro run_call_keeps [where P = team_ok]) (auto intro: team_update_ok)
  then show ?thesis using TUpdate assms by (cases rule: update_state [of f g now i req s]) simp_all
next
  case (TDelete f i)
  have "team_ok (fst (run_call f (TeamRepo_Delete i) s))" using assms by (intro run_call_keeps [where P = team_ok] team_delete_ok)
  then show ?thesis using TDelete by simp
next
  case (TInvite f g now drawn i team req)
  have "teams (fst (TeamRepo_CreateInvitation f now n s)) = teams s \<and> team_members (fst (TeamRepo_CreateInvitation f now n s)) = team_members s" for n
    by (cases f) (auto simp: TeamRepo_CreateInvitation_def revoke_expired_def insert_invitation_def)
  then have "teams (fst (run_call g (TeamRepo_CreateInvitation f now n) s)) = teams s \<and>
      team_members (fst (run_call g (TeamRepo_CreateInvitation f now n) s)) = team_members s" for n
    using run_call_state [of g "TeamRepo_CreateInvitation f now n" s] by metis
  then have "teams (exec_t sha op s) = teams s \<and> team_members (exec_t sha op s) = team_members s"
    using TInvite by (cases rule: invite_state [of f g now sha drawn i team req s]) simp_all
  then show ?thesis using team_ok_invitations [OF assms exec_t_invitations] by blast
next
  case (TRevoke f now team i)
  then show ?thesis using team_ok_invitations [OF assms exec_t_invitations, of sha op]
    by (cases f) (simp_all add: RevokeInvitation_def)
next
  case (TAccept f now m token user)
  have "team_ok (fst (run_call f (TeamRepo_AcceptInvitation now (sha token) user m) s))"
    using assms by (intro run_call_keeps [where P = team_ok] accept_ok)
  then show ?thesis using TAccept assms by (auto simp: TeamService_AcceptInvitation_def split: prod.splits sum.splits)
next
  case (TRemove f g team user)
  have "team_ok (fst (run_call g (RemoveMember team user) s))" if "GetMember team user s = Inr m" "mbRole m \<noteq> TeamMemberRoleOwner" for m
    using assms that by (intro run_call_keeps [where P = team_ok] remove_member_ok)
  then show ?thesis using TRemove assms
    by (cases f) (auto simp: TeamService_RemoveMember_def split: sum.splits)
next
  case (TRole f g team user role)
  have "team_ok (fst (run_call g (UpdateMemberRole team user role) s))"
    if "GetMember team user s = Inr m" "mbRole m \<noteq> TeamMemberRoleOwner" "role \<noteq> TeamMemberRoleOwner" for m
    using assms that by (intro run_call_keeps [where P = team_ok] update_role_ok)
  then show ?thesis using TRole assms
    by (cases f) (auto simp: TeamService_UpdateMemberRole_def role_defs split: sum.splits)
qed

lemma run_t_ok: "team_ok s \<Longrightarrow> team_ok (run_t sha ops s)"
  unfolding run_t_def by (induction ops arbitrary: s) (simp_all add: exec_t_ok)

definition fresh_account :: "(uuid \<times> string) list \<Rightarrow> db \<Rightarrow> account" where
  "fresh_account users d = \<lparr>teams = [], team_members = [], team_invitations = [], stripe_events = [], auth_users = users, adb = d\<rparr>"

lemma fresh_account_ok: "team_ok (fresh_account users d)"
  by (simp add: team_ok_def fresh_account_def)

text \<open>C33: After any sequence of requests to the team service, with every pattern of failing calls, every team
  has exactly one owner; no request removes the owner, demotes it or makes a second one.\<close>

theorem one_owner:
  assumes "t \<in> set (teams (run_t sha ops (fresh_account users d)))"
  shows "\<exists>!m. m \<in> set (team_members (run_t sha ops (fresh_account users d))) \<and> mbTeamID m = tmID t \<and> mbRole m = TeamMemberRoleOwner"
proof -
  let ?s = "run_t sha ops (fresh_account users d)"
  have "length (owners (tmID t) ?s) = 1" by (rule team_okD(6) [OF run_t_ok [OF fresh_account_ok] assms])
  then obtain m where "owners (tmID t) ?s = [m]" by (auto simp: length_Suc_conv)
  then have "set (owners (tmID t) ?s) = {m}" by simp
  then have "x \<in> set (team_members ?s) \<and> mbTeamID x = tmID t \<and> mbRole x = TeamMemberRoleOwner \<longleftrightarrow> x = m" for x
    unfolding owners_def set_filter by blast
  then show ?thesis by simp
qed

section \<open>An invitation is used once\<close>

definition spent_token :: "string \<Rightarrow> account \<Rightarrow> bool" where
  "spent_token h s \<longleftrightarrow> (\<forall>i \<in> set (team_invitations s). ivTokenHash i = h \<longrightarrow> ivStatus i \<noteq> TeamInvitationStatusPending)"

lemma spent_token_step:
  assumes "spent_token h s" and "invitations_step H s s'" and "h \<notin> H"
  shows "spent_token h s'"
  unfolding spent_token_def
proof (intro ballI impI)
  fix i' assume "i' \<in> set (team_invitations s')" "ivTokenHash i' = h"
  then obtain i where "i \<in> set (team_invitations s)" "i' = i \<or> closes i i'"
    using assms(2,3) by (auto simp: invitations_step_def)
  then show "ivStatus i' \<noteq> TeamInvitationStatusPending"
    using assms(1) \<open>ivTokenHash i' = h\<close> by (auto simp: spent_token_def closes_def)
qed

lemma spent_token_run:
  "spent_token h s \<Longrightarrow> \<forall>op \<in> set ops. \<not> draws sha h op \<Longrightarrow> spent_token h (run_t sha ops s)"
  unfolding run_t_def
proof (induction ops arbitrary: s)
  case (Cons op ops)
  have "spent_token h (exec_t sha op s)"
    using spent_token_step [OF Cons.prems(1) exec_t_invitations] Cons.prems(2) by simp
  with Cons show ?case by simp
qed simp

lemma spent_token_refused:
  assumes "spent_token (sha token) s"
  shows "snd (TeamService_AcceptInvitation f now sha m token user s) = Inl (TeamRefused ''invitation is invalid or expired'')"
proof -
  have "find (accept_where now (sha token) user s) (team_invitations s) = None"
    using assms by (auto simp: find_None_iff accept_where_def spent_token_def)
  then have "TeamRepo_AcceptInvitation now (sha token) user m s = (s, Inl ErrNoRows)"
    by (simp add: TeamRepo_AcceptInvitation_def)
  then show ?thesis by (cases f) (simp_all add: TeamService_AcceptInvitation_def)
qed

lemma accept_cases:
  assumes "TeamRepo_AcceptInvitation now h user m s = (s', Inr r)"
  obtains v where "v \<in> set (team_invitations s)" "accept_where now h user s v" "r = accept_set now user v"
    "team_invitations s' = sql_update (accept_where now h user s) (accept_set now user) (team_invitations s)"
    "member_at s (ivTeamID v) user \<noteq> None \<and> team_members s' = team_members s \<or>
     member_at s (ivTeamID v) user = None \<and> member_at s' (ivTeamID v) user =
       Some \<lparr>mbID = m, mbTeamID = ivTeamID v, mbUserID = user, mbRole = ivRole v, mbCreatedAt = now\<rparr>"
proof -
  obtain v where v: "find (accept_where now h user s) (team_invitations s) = Some v"
    using assms by (auto simp: TeamRepo_AcceptInvitation_def split: option.splits)
  then have in_v: "v \<in> set (team_invitations s)" "accept_where now h user s v" by (auto simp: find_Some_iff)
  show ?thesis
  proof (rule that [OF in_v])
    show "r = accept_set now user v" "team_invitations s' = sql_update (accept_where now h user s) (accept_set now user) (team_invitations s)"
      using assms v by (auto simp: TeamRepo_AcceptInvitation_def Let_def split: if_splits sum.splits dest!: insert_member_frame)
    show "member_at s (ivTeamID v) user \<noteq> None \<and> team_members s' = team_members s \<or>
        member_at s (ivTeamID v) user = None \<and> member_at s' (ivTeamID v) user =
          Some \<lparr>mbID = m, mbTeamID = ivTeamID v, mbUserID = user, mbRole = ivRole v, mbCreatedAt = now\<rparr>"
      using assms v by (auto simp: TeamRepo_AcceptInvitation_def Let_def member_at_def by_key_append
          split: if_splits sum.splits option.splits dest!: insert_member_frame)
  qed
qed

text \<open>An invitation admits one person once. It is accepted only while it is pending and not expired, by a user
  whose address is the invited one; the user is a member of the team afterwards, with the
  invited role unless it was a member before; and whatever requests follow, nobody can use
  the token again.\<close>

theorem invitation_used_once:
  assumes "team_ok s" and "TeamService_AcceptInvitation f now sha m token user s = (s', Inr r)"
    and "\<forall>op \<in> set ops. \<not> draws sha (sha token) op"
  shows "\<exists>v \<in> set (team_invitations s). ivTokenHash v = sha token \<and> ivStatus v = TeamInvitationStatusPending \<and> now < ivExpiresAt v \<and>
      (\<exists>addr. (user, addr) \<in> set (auth_users s) \<and> ToLower addr = ToLower (ivEmail v)) \<and>
      (\<exists>x. member_at s' (ivTeamID v) user = Some x \<and> (member_at s (ivTeamID v) user = None \<longrightarrow> mbRole x = ivRole v)) \<and>
      snd (TeamService_AcceptInvitation f' now' sha m' token user' (run_t sha ops s')) = Inl (TeamRefused ''invitation is invalid or expired'')"
proof -
  have "TeamRepo_AcceptInvitation now (sha token) user m s = (s', Inr r)"
    using assms(2) by (cases f) (auto simp: TeamService_AcceptInvitation_def split: if_splits prod.splits sum.splits)
  then obtain v where v: "v \<in> set (team_invitations s)" "accept_where now (sha token) user s v"
    and inv: "team_invitations s' = sql_update (accept_where now (sha token) user s) (accept_set now user) (team_invitations s)"
    and mem: "member_at s (ivTeamID v) user \<noteq> None \<and> team_members s' = team_members s \<or>
     member_at s (ivTeamID v) user = None \<and> member_at s' (ivTeamID v) user =
       Some \<lparr>mbID = m, mbTeamID = ivTeamID v, mbUserID = user, mbRole = ivRole v, mbCreatedAt = now\<rparr>"
    by (rule accept_cases) blast
  have "i = v" if "i \<in> set (team_invitations s)" "ivTokenHash i = sha token" for i
    using keyed_by_key [OF team_okD(3) [OF assms(1)] that(1)] keyed_by_key [OF team_okD(3) [OF assms(1)] v(1)] v(2) that(2)
    by (simp add: accept_where_def)
  then have "accept_where now (sha token) user s i" if "i \<in> set (team_invitations s)" "ivTokenHash i = sha token" for i
    using that v(2) by metis
  then have "spent_token (sha token) s'"
    by (fastforce simp: spent_token_def inv set_sql_update accept_set_def)
  then have "spent_token (sha token) (run_t sha ops s')" using assms(3) by (rule spent_token_run)
  then have "snd (TeamService_AcceptInvitation f' now' sha m' token user' (run_t sha ops s')) =
      Inl (TeamRefused ''invitation is invalid or expired'')" by (rule spent_token_refused)
  moreover have "\<exists>addr. (user, addr) \<in> set (auth_users s) \<and> ToLower addr = ToLower (ivEmail v)"
    using v(2) unfolding accept_where_def by (metis prod.collapse)
  moreover have "\<exists>x. member_at s' (ivTeamID v) user = Some x \<and> (member_at s (ivTeamID v) user = None \<longrightarrow> mbRole x = ivRole v)"
    using mem by (auto simp: member_at_def)
  ultimately show ?thesis using v by (auto simp: accept_where_def)
qed

section \<open>Slugs\<close>

text \<open>A slug built from any text is empty or valid, so a name is refused only when nothing of it can be
  used.\<close>

definition slug_ok :: "string \<Rightarrow> bool" where
  "slug_ok b \<longleftrightarrow> b = [] \<or> IsValidSlug b"

lemma split_at_append:
  "sep \<notin> set w \<Longrightarrow> split_at sep (b @ w) = butlast (split_at sep b) @ [last (split_at sep b) @ w]"
proof (induction b)
  case Nil
  then show ?case by (induction w) auto
next
  case (Cons c b)
  obtain x xs where "split_at sep b = x # xs" by (cases "split_at sep b") auto
  with Cons show ?case by (auto split: list.splits)
qed

lemma split_at_append_sep: "split_at sep (b @ sep # w) = split_at sep b @ split_at sep w"
proof (induction b)
  case (Cons c b)
  obtain x xs where "split_at sep b = x # xs" by (cases "split_at sep b") auto
  with Cons show ?case by auto
qed simp

lemma slug_char_ok:
  assumes "slug_char c"
  shows "is_lower (char_of c) \<or> is_digit (char_of c)" "char_of c \<noteq> CHR ''-''"
proof -
  have c: "of_char (char_of c) = c" using assms by (auto simp: slug_char_def of_char_of)
  have "of_char (CHR ''-'') = (45::nat)" by simp
  then have "char_of c = CHR ''-'' \<Longrightarrow> c = 45" using c by metis
  with c show "is_lower (char_of c) \<or> is_digit (char_of c)" "char_of c \<noteq> CHR ''-''"
    using assms by (auto simp: slug_char_def is_lower_def is_digit_def char_in_def)
qed

lemma valid_slug_snoc:
  assumes "slug_ok b" and "slug_char c"
  shows "IsValidSlug (b @ [char_of c])" "b \<noteq> [] \<Longrightarrow> IsValidSlug (b @ [CHR ''-'', char_of c])"
proof -
  let ?ok = "\<lambda>p. p \<noteq> [] \<and> list_all (\<lambda>c. is_lower c \<or> is_digit c) p"
  have c: "?ok [char_of c]" "CHR ''-'' \<notin> set [char_of c]" using slug_char_ok [OF assms(2)] by auto
  show "IsValidSlug (b @ [char_of c])"
  proof (cases "b = []")
    case False
    then have b: "list_all ?ok (split_at (CHR ''-'') b)" using assms(1) by (simp add: slug_ok_def IsValidSlug_def)
    have "list_all ?ok (butlast (split_at (CHR ''-'') b))" using b by (auto simp: list_all_iff dest: in_set_butlastD)
    moreover have "?ok (last (split_at (CHR ''-'') b))"
      using b last_in_set [OF split_at_ne [of "CHR ''-''" b]] unfolding list_all_iff by blast
    ultimately show ?thesis using c by (simp add: IsValidSlug_def split_at_append)
  qed (use c in \<open>simp add: IsValidSlug_def\<close>)
  show "IsValidSlug (b @ [CHR ''-'', char_of c])" if "b \<noteq> []"
    using that assms(1) c split_at_append_sep [of "CHR ''-''" b "[char_of c]"] by (simp add: slug_ok_def IsValidSlug_def)
qed

lemma generateSlug_valid: "generateSlug runes = [] \<or> IsValidSlug (generateSlug runes)"
proof -
  have "slug_ok (fst (foldl slug_step (b, sep) runes))" if "slug_ok b" for b sep
    using that
  proof (induction runes arbitrary: b sep)
    case (Cons c runes)
    have "slug_ok (fst (slug_step (b, sep) c))"
      using valid_slug_snoc [OF Cons.prems] Cons.prems by (auto simp: slug_step_def slug_ok_def)
    then show ?case using Cons.IH [of "fst (slug_step (b, sep) c)" "snd (slug_step (b, sep) c)"] by simp
  qed simp
  from this [of "[]" False] show ?thesis by (simp add: generateSlug_def slug_ok_def)
qed

section \<open>Examples\<close>

definition demo_runes :: "string \<Rightarrow> nat list" where
  "demo_runes name = map of_char (ToLower name)"

definition demo_team_ops :: "team_op list" where
  "demo_team_ops = [TCreate NoFault 5 demo_runes 9 1 7 (Some ''Ab''), TInvite NoFault NoFault 6 (Some ''t'') 2 9 (Some (''b@c.io'', ''admin''))]"

definition demo_users :: "(uuid \<times> string) list" where
  "demo_users = [(7, ''a@c.io''), (8, ''b@c.io'')]"

lemma demo_team_run:
  "case run_t id demo_team_ops (fresh_account demo_users empty_db) of s \<Rightarrow> map tmID (teams s) = [9] \<and>
     \<not> isl (snd (TeamService_AcceptInvitation NoFault 7 id 3 ''t'' 8 s))"
  by code_simp

theorem one_owner_witness:
  "\<exists>!m. m \<in> set (team_members (run_t id demo_team_ops (fresh_account demo_users empty_db))) \<and> mbTeamID m = 9 \<and>
     mbRole m = TeamMemberRoleOwner"
proof -
  have "map tmID (teams (run_t id demo_team_ops (fresh_account demo_users empty_db))) = [9]" using demo_team_run by simp
  then obtain t where t: "t \<in> set (teams (run_t id demo_team_ops (fresh_account demo_users empty_db)))" "tmID t = 9"
    by (metis (no_types, lifting) imageE list.set_intros(1) list.set_map)
  from one_owner [OF t(1)] t(2) show ?thesis by simp
qed

theorem invitation_used_once_witness:
  "\<exists>s' r. TeamService_AcceptInvitation NoFault 7 id 3 ''t'' 8 (run_t id demo_team_ops (fresh_account demo_users empty_db)) = (s', Inr r) \<and>
     snd (TeamService_AcceptInvitation NoFault 8 id 4 ''t'' 8 (run_t id [TRemove NoFault NoFault 9 8] s')) =
       Inl (TeamRefused ''invitation is invalid or expired'')"
proof -
  let ?s = "run_t id demo_team_ops (fresh_account demo_users empty_db)"
  obtain s' r where run: "TeamService_AcceptInvitation NoFault 7 id 3 ''t'' 8 ?s = (s', r)" by (metis surj_pair)
  have "\<not> isl (snd (TeamService_AcceptInvitation NoFault 7 id 3 ''t'' 8 ?s))" using demo_team_run by simp
  with run obtain i where r: "r = Inr i" by (cases r) auto
  have "\<forall>op \<in> set [TRemove NoFault NoFault 9 8]. \<not> draws id (id ''t'') op" by (simp add: draws_def)
  from invitation_used_once [OF run_t_ok [OF fresh_account_ok] run [unfolded r] this] run r show ?thesis by blast
qed

end
