(* ===== verification/Billing.thy ===== *)
theory Billing
  imports Teams
begin

text \<open>
  Billing: the Stripe events of \<open>internal/service/billing_service.go\<close>, the signature check and plan look-up
  of \<open>internal/billing/stripe.go\<close> and the statements of \<open>internal/repository/team_repo.go\<close> they run.
  HMAC-SHA256, integer and hexadecimal decoding, JSON parsing of the payload and the
  calls to Stripe's API are parameters. PostgreSQL compares event ids by the collation of the
  database, an order fixed by the locale \<open>collation\<close>; byte order is the instance \<open>bytes_le\<close>.
\<close>

section \<open>The order of billing events\<close>

locale collation =
  fixes le :: "string \<Rightarrow> string \<Rightarrow> bool"
  assumes le_refl: "le a a" and le_antisym: "le a b \<Longrightarrow> le b a \<Longrightarrow> a = b"
    and le_trans: "le a b \<Longrightarrow> le b c \<Longrightarrow> le a c" and le_total: "le a b \<or> le b a"

fun bytes_le :: "string \<Rightarrow> string \<Rightarrow> bool" where
  "bytes_le [] _ = True"
| "bytes_le (_ # _) [] = False"
| "bytes_le (a # as) (b # bs) =
     ((of_char a :: nat) < of_char b \<or> a = b \<and> bytes_le as bs)"

lemma bytes_le_refl: "bytes_le a a"
  by (induction a) auto

lemma bytes_le_antisym: "bytes_le a b \<Longrightarrow> bytes_le b a \<Longrightarrow> a = b"
  by (induction a b rule: bytes_le.induct) (auto elim: bytes_le.elims)

lemma bytes_le_trans: "bytes_le a b \<Longrightarrow> bytes_le b c \<Longrightarrow> bytes_le a c"
proof (induction a b arbitrary: c rule: bytes_le.induct)
  case (3 a as b bs)
  then show ?case by (cases c) auto
qed auto

lemma bytes_le_total: "bytes_le a b \<or> bytes_le b a"
proof (induction a b rule: bytes_le.induct)
  case (3 a as b bs)
  have "(of_char a :: nat) < of_char b \<or> of_char b < (of_char a :: nat) \<or> a = b"
    by (metis linorder_neqE_nat of_char_eq_iff)
  with 3 show ?case by auto
qed auto

interpretation bytes: collation bytes_le
  by unfold_locales (fact bytes_le_refl, fact bytes_le_antisym, fact bytes_le_trans, fact bytes_le_total)

section \<open>Statements\<close>

definition SetStripeCustomerID :: "instant \<Rightarrow> uuid \<Rightarrow> string \<Rightarrow> account \<Rightarrow> account \<times> unit result" where
  "SetStripeCustomerID now team c s =
     (s\<lparr>teams := sql_update (\<lambda>t. tmID t = team) (\<lambda>t. t\<lparr>tmStripeCustomerID := Some c, tmUpdatedAt := now\<rparr>) (teams s)\<rparr>, Inr ())"

definition GetByStripeCustomerID :: "string \<Rightarrow> account \<Rightarrow> Team result" where
  "GetByStripeCustomerID c s = (case by_key tmStripeCustomerID (Some c) (teams s) of None \<Rightarrow> Inl ErrNoRows | Some t \<Rightarrow> Inr t)"

definition GetByStripeSubscriptionID :: "string \<Rightarrow> account \<Rightarrow> Team result" where
  "GetByStripeSubscriptionID c s = (case by_key tmStripeSubscriptionID (Some c) (teams s) of None \<Rightarrow> Inl ErrNoRows | Some t \<Rightarrow> Inr t)"

record billing_update =
  buEventID :: string
  buCreated :: int
  buType :: string
  buTeam :: uuid
  buCustomer :: "string option"
  buSubscription :: "string option"
  buPlan :: Plan
  buStatus :: string
  buPeriodEnd :: "instant option"
  buCancel :: bool

definition UpdateBilling :: "instant \<Rightarrow> billing_update \<Rightarrow> account \<Rightarrow> account \<times> unit result" where
  "UpdateBilling now u s =
     (s\<lparr>teams := sql_update (\<lambda>t. tmID t = buTeam u)
        (\<lambda>t. t\<lparr>tmStripeCustomerID := buCustomer u, tmStripeSubscriptionID := buSubscription u, tmPlan := buPlan u,
               tmBillingStatus := buStatus u, tmCurrentPeriodEnd := buPeriodEnd u, tmCancelAtPeriodEnd := buCancel u,
               tmUpdatedAt := now\<rparr>) (teams s)\<rparr>, Inr ())"

definition billing_where :: "(string \<Rightarrow> string \<Rightarrow> bool) \<Rightarrow> billing_update \<Rightarrow> Team \<Rightarrow> bool" where
  "billing_where le u t \<longleftrightarrow> tmID t = buTeam u \<and>
     (tmBillingEventCreated t < buCreated u \<or> tmBillingEventCreated t = buCreated u \<and> le (tmBillingEventID t) (buEventID u))"

definition billing_set :: "instant \<Rightarrow> billing_update \<Rightarrow> Team \<Rightarrow> Team" where
  "billing_set now u t = t\<lparr>tmStripeCustomerID := buCustomer u, tmStripeSubscriptionID := buSubscription u, tmPlan := buPlan u,
     tmBillingStatus := buStatus u, tmCurrentPeriodEnd := buPeriodEnd u, tmCancelAtPeriodEnd := buCancel u,
     tmBillingEventCreated := buCreated u, tmBillingEventID := buEventID u, tmUpdatedAt := now\<rparr>"

definition ApplyBillingEvent :: "(string \<Rightarrow> string \<Rightarrow> bool) \<Rightarrow> instant \<Rightarrow> billing_update \<Rightarrow> account \<Rightarrow> account \<times> unit result" where
  "ApplyBillingEvent le now u s =
     (if by_key stEventID (buEventID u) (stripe_events s) \<noteq> None then (s, Inr ())
      else (s\<lparr>stripe_events := stripe_events s @ [\<lparr>stEventID = buEventID u, stEventType = buType u, stEventCreated = buCreated u\<rparr>],
              teams := sql_update (billing_where le u) (billing_set now u) (teams s)\<rparr>, Inr ()))"

section \<open>Events converge\<close>

definition billing_fields :: "Team \<Rightarrow> string option \<times> string option \<times> Plan \<times> string \<times> instant option \<times> bool \<times> int \<times> string" where
  "billing_fields t = (tmStripeCustomerID t, tmStripeSubscriptionID t, tmPlan t, tmBillingStatus t, tmCurrentPeriodEnd t,
     tmCancelAtPeriodEnd t, tmBillingEventCreated t, tmBillingEventID t)"

definition update_fields :: "billing_update \<Rightarrow> string option \<times> string option \<times> Plan \<times> string \<times> instant option \<times> bool \<times> int \<times> string" where
  "update_fields u = (buCustomer u, buSubscription u, buPlan u, buStatus u, buPeriodEnd u, buCancel u, buCreated u, buEventID u)"

definition apply_all :: "(string \<Rightarrow> string \<Rightarrow> bool) \<Rightarrow> (instant \<times> billing_update) list \<Rightarrow> account \<Rightarrow> account" where
  "apply_all le evs s = fold (\<lambda>(now, u) s. fst (ApplyBillingEvent le now u s)) evs s"

text \<open>Event times, then ids.\<close>

definition event_le :: "(string \<Rightarrow> string \<Rightarrow> bool) \<Rightarrow> int \<times> string \<Rightarrow> int \<times> string \<Rightarrow> bool" where
  "event_le le a b \<longleftrightarrow> fst a < fst b \<or> fst a = fst b \<and> le (snd a) (snd b)"

definition update_key :: "billing_update \<Rightarrow> int \<times> string" where
  "update_key u = (buCreated u, buEventID u)"

definition team_key :: "Team \<Rightarrow> int \<times> string" where
  "team_key t = (tmBillingEventCreated t, tmBillingEventID t)"

lemma billing_set_fields [simp]:
  "billing_fields (billing_set now u t) = update_fields u" "tmID (billing_set now u t) = tmID t"
  "team_key (billing_set now u t) = update_key u"
  by (simp_all add: billing_set_def billing_fields_def update_fields_def team_key_def update_key_def)

lemma billing_where_key: "billing_where le u t \<longleftrightarrow> tmID t = buTeam u \<and> event_le le (team_key t) (update_key u)"
  by (simp add: billing_where_def event_le_def team_key_def update_key_def)

lemma fields_key: "billing_fields t = update_fields u \<Longrightarrow> team_key t = update_key u"
  "billing_fields t = billing_fields t' \<Longrightarrow> team_key t = team_key t'"
  by (simp_all add: billing_fields_def update_fields_def team_key_def update_key_def)

context collation
begin

lemma event_le_refl: "event_le le a a"
  by (simp add: event_le_def le_refl)

lemma event_le_antisym: "event_le le a b \<Longrightarrow> event_le le b a \<Longrightarrow> a = b"
  by (auto simp: event_le_def intro!: prod_eqI le_antisym)

lemma event_le_trans: "event_le le a b \<Longrightarrow> event_le le b c \<Longrightarrow> event_le le a c"
  by (auto simp: event_le_def intro: le_trans)

lemma event_le_total: "event_le le a b \<or> event_le le b a"
  using le_total [of "snd a" "snd b"] by (auto simp: event_le_def)

lemmas event_le_order = event_le_refl event_le_antisym event_le_trans event_le_total

text \<open>The row after a set of events is the newest of them, if it is newer than the row was.\<close>

definition newest :: "Team \<Rightarrow> billing_update set \<Rightarrow> Team \<Rightarrow> bool" where
  "newest t0 E t \<longleftrightarrow>
     (billing_fields t = billing_fields t0 \<and> (\<forall>e \<in> E. \<not> event_le le (team_key t0) (update_key e))) \<or>
     (\<exists>e \<in> E. billing_fields t = update_fields e \<and> event_le le (team_key t0) (update_key e) \<and>
        (\<forall>e' \<in> E. event_le le (update_key e') (update_key e)))"

lemma newest_event_unique:
  assumes "inj_on buEventID E" and "e \<in> E" and "e' \<in> E"
    and "\<forall>x \<in> E. event_le le (update_key x) (update_key e)" and "\<forall>x \<in> E. event_le le (update_key x) (update_key e')"
  shows "e = e'"
proof -
  have "update_key e = update_key e'" using assms event_le_antisym by blast
  then show ?thesis using assms(1-3) by (simp add: update_key_def inj_on_def)
qed

lemma newest_wins:
  assumes "newest t0 E t" and "inj_on buEventID E" and "e \<in> E" and "event_le le (team_key t0) (update_key e)"
    and "\<forall>x \<in> E. event_le le (update_key x) (update_key e)"
  shows "billing_fields t = update_fields e"
proof -
  obtain e' where e': "e' \<in> E" "billing_fields t = update_fields e'" "\<forall>x \<in> E. event_le le (update_key x) (update_key e')"
    using assms(1,3,4) unfolding newest_def by blast
  show ?thesis using newest_event_unique [OF assms(2,3) e'(1) assms(5) e'(3)] e'(2) by simp
qed

lemma newest_step:
  assumes "newest t0 E t" and "tmID t = buTeam u"
  shows "newest t0 (insert u E) (if billing_where le u t then billing_set now u t else t)"
proof (cases "billing_where le u t")
  case True
  then have up: "event_le le (team_key t) (update_key u)" by (simp add: billing_where_key)
  have "event_le le (team_key t0) (team_key t) \<and> (\<forall>e \<in> E. event_le le (update_key e) (update_key u))"
    using assms(1) unfolding newest_def
  proof (elim disjE bexE conjE)
    assume t: "billing_fields t = billing_fields t0" "\<forall>e \<in> E. \<not> event_le le (team_key t0) (update_key e)"
    have "team_key t = team_key t0" by (rule fields_key(2) [OF t(1)])
    moreover have "event_le le (update_key e) (team_key t0)" if "e \<in> E" for e using t(2) that event_le_order(4) by blast
    ultimately show ?thesis using up event_le_refl [of "team_key t0"] event_le_trans [of _ "team_key t0" "update_key u"] by simp
  next
    fix e assume e: "e \<in> E" "billing_fields t = update_fields e" "event_le le (team_key t0) (update_key e)"
      "\<forall>e' \<in> E. event_le le (update_key e') (update_key e)"
    have "team_key t = update_key e" by (rule fields_key(1) [OF e(2)])
    then show ?thesis using e(3,4) up event_le_trans [of _ "update_key e" "update_key u"] by simp
  qed
  then have "event_le le (team_key t0) (update_key u)" "\<forall>e \<in> insert u E. event_le le (update_key e) (update_key u)"
    using up event_le_order(1,3) by blast+
  then show ?thesis using True unfolding newest_def by (intro disjI2 bexI [of _ u]) simp_all
next
  case False
  then have no: "\<not> event_le le (team_key t) (update_key u)" using assms(2) by (simp add: billing_where_key)
  then have down: "event_le le (update_key u) (team_key t)" using event_le_order(4) by blast
  from assms(1) [unfolded newest_def] show ?thesis
  proof (elim disjE bexE conjE)
    assume t: "billing_fields t = billing_fields t0" "\<forall>e \<in> E. \<not> event_le le (team_key t0) (update_key e)"
    have "team_key t = team_key t0" by (rule fields_key(2) [OF t(1)])
    with t no show ?thesis using False unfolding newest_def by simp
  next
    fix e assume e: "e \<in> E" "billing_fields t = update_fields e" "event_le le (team_key t0) (update_key e)"
      "\<forall>e' \<in> E. event_le le (update_key e') (update_key e)"
    have "team_key t = update_key e" by (rule fields_key(1) [OF e(2)])
    with e down show ?thesis using False unfolding newest_def by auto
  qed
qed

lemma apply_all_newest:
  assumes "by_key tmID i (teams s) = Some t" and "newest t0 {u \<in> D. buTeam u = i} t" and "snd ` set evs \<subseteq> A" and "D \<subseteq> A"
    and "inj_on buEventID A" and "\<And>u. u \<in> A \<Longrightarrow> by_key stEventID (buEventID u) (stripe_events s) \<noteq> None \<longleftrightarrow> u \<in> D"
  shows "\<exists>t'. by_key tmID i (teams (apply_all le evs s)) = Some t' \<and> newest t0 {u \<in> D \<union> snd ` set evs. buTeam u = i} t'"
  using assms
proof (induction evs arbitrary: s t D)
  case Nil
  then show ?case by (simp add: apply_all_def)
next
  case (Cons ev evs)
  obtain now u where ev: "ev = (now, u)" by (cases ev)
  let ?s = "fst (ApplyBillingEvent le now u s)"
  have u: "u \<in> A" using Cons.prems(3) ev by simp
  have rest: "apply_all le (ev # evs) s = apply_all le evs ?s" by (simp add: apply_all_def ev)
  show ?case
  proof (cases "u \<in> D")
    case True
    then have "?s = s" using Cons.prems(6) [OF u] by (simp add: ApplyBillingEvent_def)
    moreover have "D \<union> snd ` set (ev # evs) = D \<union> snd ` set evs" using True ev by auto
    ultimately show ?thesis using Cons.IH [OF Cons.prems(1,2) _ Cons.prems(4-6)] Cons.prems(3) rest by simp
  next
    case False
    let ?t = "if billing_where le u t then billing_set now u t else t"
    have new: "stripe_events ?s = stripe_events s @ [\<lparr>stEventID = buEventID u, stEventType = buType u, stEventCreated = buCreated u\<rparr>]"
        "teams ?s = sql_update (billing_where le u) (billing_set now u) (teams s)"
      using False Cons.prems(6) [OF u] by (simp_all add: ApplyBillingEvent_def)
    have row: "by_key tmID i (teams ?s) = Some ?t"
      using Cons.prems(1) by (simp add: new by_key_sql_update)
    have id: "tmID t = i" using by_key_SomeD [OF Cons.prems(1)] by simp
    have D: "by_key stEventID (buEventID x) (stripe_events ?s) \<noteq> None \<longleftrightarrow> x \<in> insert u D" if "x \<in> A" for x
    proof -
      have "buEventID x = buEventID u \<longleftrightarrow> x = u" using that u Cons.prems(5) by (auto simp: inj_on_def)
      then show ?thesis using Cons.prems(6) [OF that] by (auto simp: new by_key_append split: option.splits)
    qed
    have "newest t0 {x \<in> insert u D. buTeam x = i} ?t"
    proof (cases "buTeam u = i")
      case True
      then have "{x \<in> insert u D. buTeam x = i} = insert u {x \<in> D. buTeam x = i}" by auto
      then show ?thesis using newest_step [OF Cons.prems(2), of u now] id True by simp
    next
      case other: False
      then have "{x \<in> insert u D. buTeam x = i} = {x \<in> D. buTeam x = i}" by auto
      then show ?thesis using Cons.prems(2) other id by (simp add: billing_where_def)
    qed
    from Cons.IH [OF row this _ _ Cons.prems(5) D] Cons.prems(3,4) u obtain t' where
      "by_key tmID i (teams (apply_all le evs ?s)) = Some t'" "newest t0 {x \<in> insert u D \<union> snd ` set evs. buTeam x = i} t'" by auto
    moreover have "insert u D \<union> snd ` set evs = D \<union> snd ` set (ev # evs)" using ev by auto
    ultimately show ?thesis using rest by metis
  qed
qed

end

section \<open>Reading an event object\<close>

text \<open>The JSON values the service looks at. A key that occurs twice keeps its last value, as in the source's map.
  A value of another type than the one asked for reads as the zero value.\<close>

datatype json = JNull | JBool bool | JNum int | JStr string | JArr "json list" | JObj "(string \<times> json) list"

type_synonym json_object = "(string \<times> json) list"

definition objectValue :: "json_object \<Rightarrow> string \<Rightarrow> json option" where
  "objectValue obj key = map_of (rev obj) key"

definition stringValue :: "json_object \<Rightarrow> string \<Rightarrow> string" where
  "stringValue obj key = (case objectValue obj key of Some (JStr v) \<Rightarrow> TrimSpace v | _ \<Rightarrow> [])"

text \<open>A map of texts: one value that is neither a text nor \<open>null\<close> spoils the whole map.\<close>

fun string_entries :: "json_object \<Rightarrow> (string \<times> string) list option" where
  "string_entries [] = Some []"
| "string_entries ((k, JStr v) # rest) = map_option (Cons (k, v)) (string_entries rest)"
| "string_entries ((k, JNull) # rest) = map_option (Cons (k, [])) (string_entries rest)"
| "string_entries (_ # rest) = None"

definition stringMap :: "json option \<Rightarrow> (string \<times> string) list" where
  "stringMap raw = (case raw of Some (JObj obj) \<Rightarrow> (case string_entries obj of Some m \<Rightarrow> m | None \<Rightarrow> []) | _ \<Rightarrow> [])"

definition entry :: "(string \<times> string) list \<Rightarrow> string \<Rightarrow> string" where
  "entry m key = (case map_of (rev m) key of Some v \<Rightarrow> v | None \<Rightarrow> [])"

definition timeValue :: "json_object \<Rightarrow> string \<Rightarrow> instant option" where
  "timeValue obj key = (case objectValue obj key of
     Some (JNum n) \<Rightarrow> if 0 < n \<and> n < 2 ^ 63 then Some (n * second) else None | _ \<Rightarrow> None)"

definition boolValue :: "json_object \<Rightarrow> string \<Rightarrow> bool" where
  "boolValue obj key = (case objectValue obj key of Some (JBool b) \<Rightarrow> b | _ \<Rightarrow> False)"

section \<open>Plans\<close>

text \<open>The client: keys, prices in the order the map is iterated, and the return addresses.\<close>

record StripeClient =
  scSecretKey :: string
  scWebhookSecret :: string
  scPrices :: "(Plan \<times> string) list"
  scSuccessURL :: string
  scCancelURL :: string
  scReturnURL :: string

definition Configured :: "StripeClient option \<Rightarrow> bool" where
  "Configured c \<longleftrightarrow> (case c of None \<Rightarrow> False | Some x \<Rightarrow> scSecretKey x \<noteq> [])"

definition WebhookConfigured :: "StripeClient option \<Rightarrow> bool" where
  "WebhookConfigured c \<longleftrightarrow> (case c of None \<Rightarrow> False | Some x \<Rightarrow> scWebhookSecret x \<noteq> [])"

definition PlanForPrice :: "StripeClient option \<Rightarrow> string \<Rightarrow> Plan \<times> bool" where
  "PlanForPrice c price =
     (case c of None \<Rightarrow> (PlanFree, False)
      | Some x \<Rightarrow> (case find (\<lambda>p. snd p \<noteq> [] \<and> snd p = TrimSpace price) (scPrices x) of
                   None \<Rightarrow> (PlanFree, False) | Some p \<Rightarrow> (fst p, True)))"

definition normalizePlan :: "string \<Rightarrow> Plan" where
  "normalizePlan p = (let q = ToLower (TrimSpace p) in if q = ''pro'' then PlanPro else if q = ''scale'' then PlanScale else PlanFree)"

definition planFromMetadata :: "(string \<times> string) list \<Rightarrow> Plan \<Rightarrow> Plan" where
  "planFromMetadata m fallback =
     (let p = normalizePlan (entry m ''plan'') in if p \<noteq> PlanFree \<or> entry m ''plan'' = ''free'' then p else fallback)"

text \<open>Decoding \<open>items.data[0].price.id\<close>; a value of the wrong type anywhere in the list makes the decoding fail.
  Field names are taken as Stripe writes them, in lower case.\<close>

fun price_ids :: "json list \<Rightarrow> string list option" where
  "price_ids [] = Some []"
| "price_ids (x # xs) =
     (case (case x of
              JNull \<Rightarrow> Some []
            | JObj item \<Rightarrow>
                (case objectValue item ''price'' of
                   None \<Rightarrow> Some [] | Some JNull \<Rightarrow> Some []
                 | Some (JObj price) \<Rightarrow>
                     (case objectValue price ''id'' of None \<Rightarrow> Some [] | Some JNull \<Rightarrow> Some [] | Some (JStr v) \<Rightarrow> Some v | _ \<Rightarrow> None)
                 | _ \<Rightarrow> None)
            | _ \<Rightarrow> None) of
        None \<Rightarrow> None
      | Some i \<Rightarrow> map_option (Cons i) (price_ids xs))"

definition planFromPrice :: "json_object \<Rightarrow> StripeClient option \<Rightarrow> Plan \<times> bool" where
  "planFromPrice obj c =
     (case objectValue obj ''items'' of
        Some (JObj items) \<Rightarrow>
          (case objectValue items ''data'' of
             Some (JArr xs) \<Rightarrow>
               (case price_ids xs of Some (p # _) \<Rightarrow> PlanForPrice c p | _ \<Rightarrow> (PlanFree, False))
           | _ \<Rightarrow> (PlanFree, False))
      | _ \<Rightarrow> (PlanFree, False))"

definition subscriptionIsActive :: "string \<Rightarrow> bool" where
  "subscriptionIsActive st \<longleftrightarrow> st = ''active'' \<or> st = ''trialing''"

definition billingStatus :: "Team \<Rightarrow> string" where
  "billingStatus t = (if TrimSpace (tmBillingStatus t) = [] then ''inactive'' else tmBillingStatus t)"

section \<open>The webhook\<close>

record stripe_event =
  seventID :: string
  seventType :: string
  seventCreated :: int
  seventObject :: "json_object option"

datatype billing_site = BsTeam | BsCustomer | BsSubscription | BsApply | BsSetCustomer

record billing_env =
  blClient :: "StripeClient option"
  blFault :: "billing_site \<Rightarrow> fault"
  blStatementNow :: instant
  blClock :: instant
  blCollation :: "string \<Rightarrow> string \<Rightarrow> bool"
  blParseInt :: "string \<Rightarrow> int option"
  blFormatInt :: "int \<Rightarrow> string"
  blDecodeHex :: "string \<Rightarrow> string option"
  blHMAC :: "string \<Rightarrow> string \<Rightarrow> string"
  blParseEvent :: "string \<Rightarrow> stripe_event option"
  blParseUUID :: "string \<Rightarrow> uuid option"
  blUUIDText :: "uuid \<Rightarrow> string"
  blPost :: "string \<Rightarrow> (string \<times> string) list \<Rightarrow> string \<Rightarrow> (string \<times> string) option"

datatype billing_error =
    ErrBillingNotConfigured | BillingRefused string | BillingDB db_error

text \<open>One part of the signature header: a timestamp that does not parse ends the loop, a signature that does
  not decode is skipped.\<close>

fun read_parts :: "billing_env \<Rightarrow> string list \<Rightarrow> int \<times> string list \<Rightarrow> (int \<times> string list) option" where
  "read_parts env [] acc = Some acc"
| "read_parts env (part # parts) (ts, sigs) =
     (let q = TrimSpace part; key = takeWhile (\<lambda>c. c \<noteq> CHR ''='') q; rest = dropWhile (\<lambda>c. c \<noteq> CHR ''='') q in
      if rest = [] then read_parts env parts (ts, sigs)
      else if key = ''t'' then
        (case blParseInt env (tl rest) of None \<Rightarrow> None | Some n \<Rightarrow> read_parts env parts (n, sigs))
      else if key = ''v1'' then
        (case blDecodeHex env (tl rest) of None \<Rightarrow> read_parts env parts (ts, sigs) | Some v \<Rightarrow> read_parts env parts (ts, sigs @ [v]))
      else read_parts env parts (ts, sigs))"

definition stripeSignatureTolerance :: int where
  "stripeSignatureTolerance = 5 * minute"

text \<open>The zero time of the language, 1 January of the year 1.\<close>

definition zero_time :: instant where
  "zero_time = - 62135596800 * second"

definition VerifyWebhook :: "billing_env \<Rightarrow> string \<Rightarrow> string \<Rightarrow> instant \<Rightarrow> billing_error + stripe_event" where
  "VerifyWebhook env payload signature now0 =
     (case blClient env of
        None \<Rightarrow> Inl (BillingRefused ''billing webhook is not configured'')
      | Some c \<Rightarrow>
          if scWebhookSecret c = [] then Inl (BillingRefused ''billing webhook is not configured'')
          else case read_parts env (split_at (CHR '','') signature) (0, []) of
                 None \<Rightarrow> Inl (BillingRefused ''invalid Stripe webhook timestamp'')
               | Some (ts, sigs) \<Rightarrow>
                   let expected = blHMAC env (scWebhookSecret c) (blFormatInt env ts @ ''.'' @ payload);
                       now = (if now0 = zero_time then blClock env else now0)
                   in if ts = 0 \<or> sigs = [] then Inl (BillingRefused ''missing Stripe webhook signature'')
                      else if \<not> list_ex (\<lambda>x. length x = length expected \<and> x = expected) sigs
                      then Inl (BillingRefused ''invalid Stripe webhook signature'')
                      else if now - ts * second > stripeSignatureTolerance \<or> ts * second - now > stripeSignatureTolerance
                      then Inl (BillingRefused ''stale Stripe webhook signature'')
                      else case blParseEvent env payload of
                             None \<Rightarrow> Inl (BillingRefused ''invalid Stripe webhook payload'')
                           | Some e \<Rightarrow> if seventID e = [] \<or> seventType e = [] then Inl (BillingRefused ''invalid Stripe webhook payload'')
                                       else Inr e)"

text \<open>A look-up by one of the three references: absent means the next one is tried, a failure ends the search.\<close>

definition lookup_team :: "billing_env \<Rightarrow> billing_site \<Rightarrow> (account \<Rightarrow> Team result) \<Rightarrow> account \<Rightarrow> db_error + Team option" where
  "lookup_team env st f s =
     (case snd (run_call (blFault env st) (\<lambda>s. (s, f s)) s) of
        Inr t \<Rightarrow> Inr (Some t) | Inl ErrNoRows \<Rightarrow> Inr None | Inl e \<Rightarrow> Inl e)"

definition resolveTeam :: "billing_env \<Rightarrow> string \<Rightarrow> string \<Rightarrow> string \<Rightarrow> account \<Rightarrow> db_error + Team option" where
  "resolveTeam env metadataTeamID customerID subscriptionID s =
     (let bySubscription = (if subscriptionID = [] then Inr None else lookup_team env BsSubscription (GetByStripeSubscriptionID subscriptionID) s);
          byCustomer = (if customerID = [] then bySubscription
            else case lookup_team env BsCustomer (GetByStripeCustomerID customerID) s of
                   Inl e \<Rightarrow> Inl e | Inr (Some t) \<Rightarrow> Inr (Some t) | Inr None \<Rightarrow> bySubscription)
      in case blParseUUID env (TrimSpace metadataTeamID) of
           None \<Rightarrow> byCustomer
         | Some i \<Rightarrow> if i = uuid_Nil then byCustomer
                     else case lookup_team env BsTeam (TeamRepo_GetByID i) s of
                            Inl e \<Rightarrow> Inl e | Inr (Some t) \<Rightarrow> Inr (Some t) | Inr None \<Rightarrow> byCustomer)"

text \<open>The subscription a payload refers to: the field, or else the id of the object itself.\<close>

definition event_subscription :: "json_object \<Rightarrow> string" where
  "event_subscription obj = (let x = stringValue obj ''subscription'' in if x = [] then stringValue obj ''id'' else x)"

definition nonempty :: "string \<Rightarrow> string option" where
  "nonempty x = (if x = [] then None else Some x)"

text \<open>What an event of a known type says about the team; other types say nothing.\<close>

definition update_of :: "string \<Rightarrow> int \<Rightarrow> string \<Rightarrow> uuid \<Rightarrow> string option \<Rightarrow> string option \<Rightarrow> Plan \<Rightarrow> string \<Rightarrow> instant option \<Rightarrow> bool \<Rightarrow> billing_update" where
  "update_of i n ty team customer sub plan st pe ca = \<lparr>buEventID = i, buCreated = n, buType = ty, buTeam = team,
     buCustomer = customer, buSubscription = sub, buPlan = plan, buStatus = st, buPeriodEnd = pe, buCancel = ca\<rparr>"

lemma update_of_fields [simp]:
  "buEventID (update_of i n ty team customer sub plan st pe ca) = i" "buSubscription (update_of i n ty team customer sub plan st pe ca) = sub"
  by (simp_all add: update_of_def)

definition event_update :: "billing_env \<Rightarrow> string \<Rightarrow> int \<Rightarrow> string \<Rightarrow> json_object \<Rightarrow> Team \<Rightarrow> billing_update option" where
  "event_update env eventID eventCreated eventType obj team =
     (let metadata = stringMap (objectValue obj ''metadata'');
          customer0 = stringValue obj ''customer'';
          customer = (if customer0 = [] then (case tmStripeCustomerID team of None \<Rightarrow> [] | Some c \<Rightarrow> c) else customer0);
          subscription = event_subscription obj;
          status = stringValue obj ''status'';
          mk = (\<lambda>sub plan st pe ca. Some (update_of eventID eventCreated eventType (tmID team) (nonempty customer) sub plan st pe ca))
      in if eventType = ''checkout.session.completed'' then
           mk (nonempty subscription) (planFromMetadata metadata PlanFree) ''active'' None False
         else if eventType = ''customer.subscription.created'' \<or> eventType = ''customer.subscription.updated'' then
           (let st = (if status = [] then ''active'' else status); p = fst (planFromPrice obj (blClient env)) in
            mk (nonempty subscription) (if \<not> subscriptionIsActive st \<and> p \<noteq> PlanFree then PlanFree else p) st
              (timeValue obj ''current_period_end'') (boolValue obj ''cancel_at_period_end''))
         else if eventType = ''customer.subscription.deleted'' then
           mk None PlanFree (if status = [] then ''canceled'' else status) None False
         else if eventType = ''invoice.payment_failed'' then mk (nonempty subscription) PlanFree ''past_due'' None False
         else None)"

definition applyWebhookEvent :: "billing_env \<Rightarrow> string \<Rightarrow> int \<Rightarrow> string \<Rightarrow> json_object \<Rightarrow> account \<Rightarrow> account \<times> (billing_error + unit)" where
  "applyWebhookEvent env eventID eventCreated eventType obj s =
     (case resolveTeam env (entry (stringMap (objectValue obj ''metadata'')) ''team_id'') (stringValue obj ''customer'') (event_subscription obj) s of
        Inl e \<Rightarrow> (s, Inl (BillingDB e))
      | Inr None \<Rightarrow> (s, Inr ())
      | Inr (Some team) \<Rightarrow>
          (case event_update env eventID eventCreated eventType obj team of
             None \<Rightarrow> (s, Inr ())
           | Some u \<Rightarrow>
               (case run_call (blFault env BsApply) (ApplyBillingEvent (blCollation env) (blStatementNow env) u) s of
                  (s', Inl e) \<Rightarrow> (s', Inl (BillingDB e))
                | (s', Inr _) \<Rightarrow> (s', Inr ()))))"

definition HandleWebhook :: "billing_env \<Rightarrow> string \<Rightarrow> string \<Rightarrow> instant \<Rightarrow> account \<Rightarrow> account \<times> (billing_error + unit)" where
  "HandleWebhook env payload signature now s =
     (if \<not> WebhookConfigured (blClient env) then (s, Inl ErrBillingNotConfigured)
      else case VerifyWebhook env payload signature now of
             Inl e \<Rightarrow> (s, Inl e)
           | Inr e \<Rightarrow>
               (case seventObject e of
                  None \<Rightarrow> (s, Inl (BillingRefused ''decode Stripe event object''))
                | Some obj \<Rightarrow> applyWebhookEvent env (seventID e) (seventCreated e) (seventType e) obj s))"

section \<open>The newest event wins\<close>

text \<open>A delivery is a payload with its signature and the time it arrives at; what it reports does not depend on the account when the
  event names its team in the metadata and its customer.\<close>

definition reports :: "billing_env \<Rightarrow> string \<times> string \<times> instant \<Rightarrow> billing_update \<Rightarrow> bool" where
  "reports env d u \<longleftrightarrow> (case d of (payload, signature, now) \<Rightarrow> \<exists>e obj t. VerifyWebhook env payload signature now = Inr e \<and> seventObject e = Some obj \<and>
     blParseUUID env (TrimSpace (entry (stringMap (objectValue obj ''metadata'')) ''team_id'')) = Some (buTeam u) \<and> buTeam u \<noteq> uuid_Nil \<and>
     stringValue obj ''customer'' \<noteq> [] \<and> tmID t = buTeam u \<and>
     event_update env (seventID e) (seventCreated e) (seventType e) obj t = Some u)"

text \<open>Deliveries one after the other, each with the clock of its statement.\<close>

definition handle_all :: "billing_env \<Rightarrow> (instant \<times> string \<times> string \<times> instant) list \<Rightarrow> account \<Rightarrow> account" where
  "handle_all env ds s = fold (\<lambda>(t, payload, signature, now) s. fst (HandleWebhook (env\<lparr>blStatementNow := t\<rparr>) payload signature now s)) ds s"

lemma event_update_team:
  "stringValue obj ''customer'' \<noteq> [] \<Longrightarrow> tmID t = tmID t' \<Longrightarrow> event_update env i n ty obj t = event_update env i n ty obj t'"
  by (simp add: event_update_def Let_def)

lemma read_parts_now: "read_parts (env\<lparr>blStatementNow := t\<rparr>) ps acc = read_parts env ps acc"
  by (induction ps arbitrary: acc) (auto simp: Let_def split: option.splits)

lemma statement_clock:
  "VerifyWebhook (env\<lparr>blStatementNow := t\<rparr>) payload signature now = VerifyWebhook env payload signature now"
  "event_update (env\<lparr>blStatementNow := t\<rparr>) i n ty obj team = event_update env i n ty obj team"
  by (simp_all add: VerifyWebhook_def event_update_def read_parts_now Let_def cong: option.case_cong prod.case_cong if_cong)

lemma handle_reported:
  assumes "reports env (payload, signature, now) u" and "blFault env = (\<lambda>_. NoFault)" and "by_key tmID (buTeam u) (teams s) = Some t"
  shows "fst (HandleWebhook (env\<lparr>blStatementNow := clock\<rparr>) payload signature now s) = fst (ApplyBillingEvent (blCollation env) clock u s)"
proof -
  obtain e obj t' where e: "VerifyWebhook env payload signature now = Inr e" "seventObject e = Some obj"
    "blParseUUID env (TrimSpace (entry (stringMap (objectValue obj ''metadata'')) ''team_id'')) = Some (buTeam u)" "buTeam u \<noteq> uuid_Nil"
    "stringValue obj ''customer'' \<noteq> []" "tmID t' = buTeam u" "event_update env (seventID e) (seventCreated e) (seventType e) obj t' = Some u"
    using assms(1) by (auto simp: reports_def)
  let ?env = "env\<lparr>blStatementNow := clock\<rparr>"
  have conf: "WebhookConfigured (blClient ?env)" using e(1) by (auto simp: VerifyWebhook_def WebhookConfigured_def split: option.splits if_splits)
  have "tmID t = buTeam u" using by_key_SomeD [OF assms(3)] by simp
  then have up: "event_update ?env (seventID e) (seventCreated e) (seventType e) obj t = Some u"
    using event_update_team [OF e(5), of t t'] e(6,7) by (simp add: statement_clock)
  have team: "resolveTeam ?env (entry (stringMap (objectValue obj ''metadata'')) ''team_id'') (stringValue obj ''customer'') (event_subscription obj) s = Inr (Some t)"
    using e(3,4) assms(2,3) by (simp add: resolveTeam_def lookup_team_def TeamRepo_GetByID_def Let_def)
  show ?thesis
    using conf e(1,2) up team assms(2)
    by (simp add: HandleWebhook_def applyWebhookEvent_def statement_clock ApplyBillingEvent_def)
qed

lemma handle_all_reported:
  assumes "list_all2 (\<lambda>d. reports env (snd d)) ds us" and "blFault env = (\<lambda>_. NoFault)" and "\<forall>u \<in> set us. by_key tmID (buTeam u) (teams s) \<noteq> None"
  shows "handle_all env ds s = apply_all (blCollation env) (zip (map fst ds) us) s"
  using assms(1,3)
proof (induction arbitrary: s rule: list_all2_induct)
  case (Cons d ds u us)
  obtain clock payload signature now where d: "d = (clock, payload, signature, now)" by (cases d)
  obtain t where "by_key tmID (buTeam u) (teams s) = Some t" using Cons.prems by auto
  note one = handle_reported [OF _ assms(2) this, of payload signature now clock]
  have "by_key tmID i (teams (fst (ApplyBillingEvent le now u s))) = None \<longleftrightarrow> by_key tmID i (teams s) = None" for i le now
    by (simp add: ApplyBillingEvent_def by_key_sql_update)
  with Cons.IH [of "fst (ApplyBillingEvent (blCollation env) clock u s)"] Cons.prems Cons.hyps(1) one d show ?case
    by (simp add: handle_all_def apply_all_def)
qed (simp add: handle_all_def apply_all_def)

text \<open>C34: The newest billing event wins. Stripe delivers events late, twice and out of order. Take any sequence of signed deliveries of
  supported events that name their team and customer, none of them recorded before, with distinct ids for distinct events and no
  failing call. Afterwards the customer, subscription, plan, status and period of a team are those of its newest event (by time
  of creation, then by id) when that is not older than the event the row came from, and are unchanged when all its events are older;
  neither the order nor the number of the deliveries matters.\<close>

theorem billing_events_converge:
  assumes "collation (blCollation env)" and "blFault env = (\<lambda>_. NoFault)" and "list_all2 (\<lambda>d. reports env (snd d)) ds us"
    and "\<forall>u \<in> set us. by_key tmID (buTeam u) (teams s) \<noteq> None" and "inj_on buEventID (set us)"
    and "\<And>u. u \<in> set us \<Longrightarrow> by_key stEventID (buEventID u) (stripe_events s) = None" and "by_key tmID team (teams s) = Some t0"
  shows "\<exists>t. by_key tmID team (teams (handle_all env ds s)) = Some t \<and>
    (\<forall>u \<in> set us. buTeam u = team \<longrightarrow> event_le (blCollation env) (team_key t0) (update_key u) \<longrightarrow>
       (\<forall>x \<in> set us. buTeam x = team \<longrightarrow> event_le (blCollation env) (update_key x) (update_key u)) \<longrightarrow> billing_fields t = update_fields u) \<and>
    ((\<forall>u \<in> set us. buTeam u = team \<longrightarrow> \<not> event_le (blCollation env) (team_key t0) (update_key u)) \<longrightarrow> billing_fields t = billing_fields t0)"
proof -
  let ?le = "blCollation env" and ?E = "{u \<in> set us. buTeam u = team}"
  have "length (map fst ds) = length us" using assms(3) by (simp add: list_all2_lengthD)
  then have all: "snd ` set (zip (map fst ds) us) = set us" by (metis map_snd_zip list.set_map)
  have start: "collation.newest ?le t0 {u \<in> {}. buTeam u = team} t0" by (simp add: collation.newest_def [OF assms(1)])
  obtain t where t: "by_key tmID team (teams (apply_all ?le (zip (map fst ds) us) s)) = Some t" "collation.newest ?le t0 ?E t"
    using collation.apply_all_newest [OF assms(1,7) start, of "zip (map fst ds) us" "set us"] assms(5,6) all by auto
  have "inj_on buEventID ?E" using assms(5) by (rule inj_on_subset) auto
  then have "billing_fields t = update_fields u"
    if "u \<in> set us" "buTeam u = team" "event_le ?le (team_key t0) (update_key u)" "\<forall>x \<in> set us. buTeam x = team \<longrightarrow> event_le ?le (update_key x) (update_key u)" for u
    using collation.newest_wins [OF assms(1) t(2), of u] that by simp
  moreover have "billing_fields t = billing_fields t0" if "\<forall>u \<in> set us. buTeam u = team \<longrightarrow> \<not> event_le ?le (team_key t0) (update_key u)"
    using t(2) that unfolding collation.newest_def [OF assms(1)] by blast
  ultimately show ?thesis using t(1) unfolding handle_all_reported [OF assms(3,2,4)] by blast
qed

section \<open>Sessions\<close>

text \<open>A call of Stripe's API: path, form and idempotency key; the answer is the id and the address of the
  object, \<open>None\<close> a failure. The form fields are in the order the source sets them.\<close>

definition plan_text :: "Plan \<Rightarrow> string" where
  "plan_text p = (case p of PlanFree \<Rightarrow> ''free'' | PlanPro \<Rightarrow> ''pro'' | PlanScale \<Rightarrow> ''scale'')"

definition CreateCustomer :: "billing_env \<Rightarrow> Team \<Rightarrow> billing_error + string" where
  "CreateCustomer env t =
     (if \<not> Configured (blClient env) then Inl (BillingRefused ''billing is not configured'')
      else case blPost env ''/customers'' [(''name'', tmName t), (''metadata[team_id]'', blUUIDText env (tmID t))]
                  (''sender-api/customer/'' @ blUUIDText env (tmID t)) of
             None \<Rightarrow> Inl (BillingRefused ''stripe API request'')
           | Some (i, _) \<Rightarrow> if i = [] then Inl (BillingRefused ''stripe returned an empty customer id'') else Inr i)"

definition price_of :: "StripeClient \<Rightarrow> Plan \<Rightarrow> string" where
  "price_of c p = (case map_of (scPrices c) p of None \<Rightarrow> [] | Some x \<Rightarrow> x)"

definition checkout_form :: "billing_env \<Rightarrow> StripeClient \<Rightarrow> uuid \<Rightarrow> string \<Rightarrow> Plan \<Rightarrow> (string \<times> string) list" where
  "checkout_form env c team customer plan =
     [(''mode'', ''subscription''), (''customer'', customer), (''line_items[0][price]'', price_of c plan), (''line_items[0][quantity]'', ''1''),
      (''success_url'', scSuccessURL c), (''cancel_url'', scCancelURL c), (''client_reference_id'', blUUIDText env team),
      (''metadata[team_id]'', blUUIDText env team), (''metadata[plan]'', plan_text plan),
      (''subscription_data[metadata][team_id]'', blUUIDText env team), (''subscription_data[metadata][plan]'', plan_text plan)]"

definition CreateCheckoutSession :: "billing_env \<Rightarrow> uuid \<Rightarrow> string \<Rightarrow> Plan \<Rightarrow> billing_error + string \<times> string" where
  "CreateCheckoutSession env team customer plan =
     (case blClient env of
        None \<Rightarrow> Inl (BillingRefused ''billing is not configured'')
      | Some c \<Rightarrow>
          if scSecretKey c = [] then Inl (BillingRefused ''billing is not configured'')
          else if price_of c plan = [] then Inl (BillingRefused ''stripe price is not configured for plan'')
          else if scSuccessURL c = [] \<or> scCancelURL c = [] then Inl (BillingRefused ''billing success and cancel URLs are not configured'')
          else case blPost env ''/checkout/sessions'' (checkout_form env c team customer plan)
                      (''sender-api/checkout/'' @ blUUIDText env team @ ''/'' @ plan_text plan) of
                 None \<Rightarrow> Inl (BillingRefused ''stripe API request'')
               | Some (i, u) \<Rightarrow> if i = [] \<or> u = [] then Inl (BillingRefused ''stripe returned an incomplete checkout session'') else Inr (i, u))"

definition CreatePortalSession :: "billing_env \<Rightarrow> string \<Rightarrow> billing_error + string \<times> string" where
  "CreatePortalSession env customer =
     (case blClient env of
        None \<Rightarrow> Inl (BillingRefused ''billing is not configured'')
      | Some c \<Rightarrow>
          if scSecretKey c = [] then Inl (BillingRefused ''billing is not configured'')
          else if customer = [] \<or> scReturnURL c = [] then Inl (BillingRefused ''billing customer and return URL are required'')
          else case blPost env ''/billing_portal/sessions'' [(''customer'', customer), (''return_url'', scReturnURL c)] [] of
                 None \<Rightarrow> Inl (BillingRefused ''stripe API request'')
               | Some (i, u) \<Rightarrow> if i = [] \<or> u = [] then Inl (BillingRefused ''stripe returned an incomplete portal session'') else Inr (i, u))"

definition customer_of :: "Team \<Rightarrow> string" where
  "customer_of t = (case tmStripeCustomerID t of None \<Rightarrow> [] | Some c \<Rightarrow> TrimSpace c)"

definition Checkout :: "billing_env \<Rightarrow> uuid \<Rightarrow> string \<Rightarrow> account \<Rightarrow> account \<times> (billing_error + string \<times> string)" where
  "Checkout env team requestedPlan s =
     (let plan = normalizePlan requestedPlan in
      if \<not> Configured (blClient env) then (s, Inl ErrBillingNotConfigured)
      else if plan = PlanFree then (s, Inl (BillingRefused ''free plan does not require checkout''))
      else case snd (run_call (blFault env BsTeam) (\<lambda>s. (s, TeamRepo_GetByID team s)) s) of
             Inl e \<Rightarrow> (s, Inl (BillingDB e))
           | Inr t \<Rightarrow>
               if customer_of t \<noteq> [] then (s, CreateCheckoutSession env team (customer_of t) plan)
               else case CreateCustomer env t of
                      Inl e \<Rightarrow> (s, Inl e)
                    | Inr c \<Rightarrow>
                        (case run_call (blFault env BsSetCustomer) (SetStripeCustomerID (blStatementNow env) team c) s of
                           (s1, Inl e) \<Rightarrow> (s1, Inl (BillingDB e))
                         | (s1, Inr _) \<Rightarrow> (s1, CreateCheckoutSession env team c plan)))"

definition Portal :: "billing_env \<Rightarrow> uuid \<Rightarrow> account \<Rightarrow> billing_error + string \<times> string" where
  "Portal env team s =
     (if \<not> Configured (blClient env) then Inl ErrBillingNotConfigured
      else case snd (run_call (blFault env BsTeam) (\<lambda>s. (s, TeamRepo_GetByID team s)) s) of
             Inl e \<Rightarrow> Inl (BillingDB e)
           | Inr t \<Rightarrow> if customer_of t = [] then Inl (BillingRefused ''team has no billing customer'') else CreatePortalSession env (customer_of t))"

record BillingSummary =
  bsPlan :: Plan
  bsStatus :: string
  bsCurrentPeriodEnd :: "instant option"
  bsCancelAtPeriodEnd :: bool
  bsHasCustomer :: bool
  bsHasSubscription :: bool
  bsConfigured :: bool

definition Summary :: "billing_env \<Rightarrow> uuid \<Rightarrow> account \<Rightarrow> billing_error + BillingSummary" where
  "Summary env team s =
     (case snd (run_call (blFault env BsTeam) (\<lambda>s. (s, TeamRepo_GetByID team s)) s) of
        Inl e \<Rightarrow> Inl (BillingDB e)
      | Inr t \<Rightarrow> Inr \<lparr>bsPlan = tmPlan t, bsStatus = billingStatus t, bsCurrentPeriodEnd = tmCurrentPeriodEnd t,
          bsCancelAtPeriodEnd = tmCancelAtPeriodEnd t, bsHasCustomer = customer_of t \<noteq> [],
          bsHasSubscription = (case tmStripeSubscriptionID t of None \<Rightarrow> False | Some x \<Rightarrow> TrimSpace x \<noteq> []),
          bsConfigured = Configured (blClient env)\<rparr>)"

section \<open>What a webhook may change\<close>

lemma cut_at:
  assumes "dropWhile (\<lambda>c. c \<noteq> a) q \<noteq> []"
  shows "q = takeWhile (\<lambda>c. c \<noteq> a) q @ a # tl (dropWhile (\<lambda>c. c \<noteq> a) q)"
proof -
  have "hd (dropWhile (\<lambda>c. c \<noteq> a) q) = a" using hd_dropWhile [OF assms] by simp
  then show ?thesis using assms by (metis list.collapse takeWhile_dropWhile_id)
qed

lemma read_parts_step:
  assumes "read_parts env (part # parts) (ts0, sigs0) = Some r"
  obtains ts1 where "read_parts env parts (ts1, sigs0) = Some r"
  | x w where "read_parts env parts (ts0, sigs0 @ [w]) = Some r" "TrimSpace part = ''v1='' @ x" "blDecodeHex env x = Some w"
proof -
  let ?q = "TrimSpace part"
  let ?k = "takeWhile (\<lambda>c. c \<noteq> CHR ''='') ?q" and ?r = "dropWhile (\<lambda>c. c \<noteq> CHR ''='') ?q"
  show ?thesis
  proof (cases "?r \<noteq> [] \<and> ?k = ''v1'' \<and> blDecodeHex env (tl ?r) \<noteq> None")
    case True
    then obtain w where w: "blDecodeHex env (tl ?r) = Some w" by blast
    have "?q = ''v1='' @ tl ?r" using cut_at [of "CHR ''=''" ?q] True by simp
    moreover have "read_parts env parts (ts0, sigs0 @ [w]) = Some r" using assms True w by (auto simp: Let_def split: if_splits)
    ultimately show ?thesis using that(2) w by blast
  next
    case False
    then have "\<exists>ts1. read_parts env parts (ts1, sigs0) = Some r"
      using assms by (auto simp: Let_def split: if_splits option.splits)
    then show ?thesis using that(1) by blast
  qed
qed

lemma read_parts_signatures:
  "read_parts env parts (ts0, sigs0) = Some (ts, sigs) \<Longrightarrow> v \<in> set sigs \<Longrightarrow>
   v \<in> set sigs0 \<or> (\<exists>part \<in> set parts. \<exists>x. TrimSpace part = ''v1='' @ x \<and> blDecodeHex env x = Some v)"
proof (induction parts arbitrary: ts0 sigs0)
  case (Cons part parts)
  from Cons.prems(1) show ?case
  proof (cases rule: read_parts_step)
    case (1 ts1)
    then show ?thesis using Cons.IH [OF _ Cons.prems(2)] by (meson list.set_intros(2))
  next
    case (2 x w)
    then have "v \<in> set (sigs0 @ [w]) \<or> (\<exists>part \<in> set parts. \<exists>x. TrimSpace part = ''v1='' @ x \<and> blDecodeHex env x = Some v)"
      using Cons.IH [OF _ Cons.prems(2)] by blast
    then show ?thesis
    proof (elim disjE bexE)
      assume "v \<in> set (sigs0 @ [w])"
      then show ?thesis using 2(2,3) by auto
    qed (meson list.set_intros(2))
  qed
qed simp

definition signed_by :: "billing_env \<Rightarrow> string \<Rightarrow> string \<Rightarrow> int \<Rightarrow> bool" where
  "signed_by env payload signature ts \<longleftrightarrow> (\<exists>c x part. blClient env = Some c \<and> part \<in> set (split_at (CHR '','') signature) \<and>
     TrimSpace part = ''v1='' @ x \<and> blDecodeHex env x = Some (blHMAC env (scWebhookSecret c) (blFormatInt env ts @ ''.'' @ payload)))"

lemma VerifyWebhook_Inr:
  assumes "VerifyWebhook env payload signature now = Inr e" and "now \<noteq> zero_time"
  shows "blParseEvent env payload = Some e" "\<exists>ts. signed_by env payload signature ts \<and> \<bar>now - ts * second\<bar> \<le> stripeSignatureTolerance"
proof -
  obtain c where c: "blClient env = Some c" "scWebhookSecret c \<noteq> []"
    using assms(1) by (cases "blClient env") (simp_all add: VerifyWebhook_def split: if_splits)
  obtain ts sigs where r: "read_parts env (split_at (CHR '','') signature) (0, []) = Some (ts, sigs)"
    using assms(1) c by (cases "read_parts env (split_at (CHR '','') signature) (0, [])") (auto simp: VerifyWebhook_def)
  let ?mac = "blHMAC env (scWebhookSecret c) (blFormatInt env ts @ ''.'' @ payload)"
  have "list_ex (\<lambda>x. length x = length ?mac \<and> x = ?mac) sigs \<and> \<not> (now - ts * second > stripeSignatureTolerance \<or>
      ts * second - now > stripeSignatureTolerance) \<and> blParseEvent env payload = Some e"
    using assms c r by (simp add: VerifyWebhook_def Let_def split: if_splits option.splits)
  then have v: "?mac \<in> set sigs" "\<bar>now - ts * second\<bar> \<le> stripeSignatureTolerance" "blParseEvent env payload = Some e"
    unfolding list_ex_iff by auto
  show "blParseEvent env payload = Some e" by (rule v(3))
  show "\<exists>ts. signed_by env payload signature ts \<and> \<bar>now - ts * second\<bar> \<le> stripeSignatureTolerance"
    using read_parts_signatures [OF r v(1)] v(2) c(1) unfolding signed_by_def by auto
qed

text \<open>A webhook call changes the state only through \<open>ApplyBillingEvent\<close> under the id of the signed event.\<close>

lemma event_update_id: "event_update env i n ty obj team = None \<or> map_option buEventID (event_update env i n ty obj team) = Some i"
  by (simp only: event_update_def Let_def if_distrib [of "map_option buEventID"] option.map update_of_fields if_cancel) simp

lemma apply_event_state:
  obtains "fst (applyWebhookEvent env i n ty obj s) = s"
  | u where "buEventID u = i"
      "fst (applyWebhookEvent env i n ty obj s) = fst (ApplyBillingEvent (blCollation env) (blStatementNow env) u s)"
proof (cases "resolveTeam env (entry (stringMap (objectValue obj ''metadata'')) ''team_id'') (stringValue obj ''customer'') (event_subscription obj) s")
  case (Inr r)
  show ?thesis
  proof (cases r)
    case (Some team)
    show ?thesis
    proof (cases "event_update env i n ty obj team")
      case (Some u)
      have "buEventID u = i" using event_update_id [of env i n ty obj team] Some by simp
      moreover have "fst (applyWebhookEvent env i n ty obj s) =
          fst (run_call (blFault env BsApply) (ApplyBillingEvent (blCollation env) (blStatementNow env) u) s)"
        using Inr \<open>r = Some team\<close> Some by (simp add: applyWebhookEvent_def)
      ultimately show ?thesis
        using run_call_state [of "blFault env BsApply" "ApplyBillingEvent (blCollation env) (blStatementNow env) u" s]
        by (elim disjE) (use that in simp_all)
    qed (use that Inr Some in \<open>simp add: applyWebhookEvent_def\<close>)
  qed (use that Inr in \<open>simp add: applyWebhookEvent_def\<close>)
qed (use that in \<open>simp add: applyWebhookEvent_def\<close>)

lemma event_recorded_once:
  assumes "by_key stEventID i (stripe_events s) \<noteq> None"
  shows "fst (applyWebhookEvent env i n ty obj s) = s"
  by (cases rule: apply_event_state [of env i n ty obj s]) (use assms in \<open>simp_all add: ApplyBillingEvent_def\<close>)

text \<open>A Stripe webhook changes the billing state only when it carries a signature of its payload under the
  configured secret, made within five minutes of now, for an event that had not been recorded; and a
  second delivery of the payload, whenever and with whatever signature and failures, changes nothing.\<close>

theorem billing_webhook_authentic:
  assumes "now \<noteq> zero_time" and "fst (HandleWebhook env payload signature now s) = s'" and "s' \<noteq> s"
  shows "(\<exists>ts. signed_by env payload signature ts \<and> \<bar>now - ts * second\<bar> \<le> 5 * minute) \<and>
    (\<exists>e. blParseEvent env payload = Some e \<and> by_key stEventID (seventID e) (stripe_events s) = None \<and>
       by_key stEventID (seventID e) (stripe_events s') \<noteq> None) \<and>
    (\<forall>f sig' now'. fst (HandleWebhook (env\<lparr>blFault := f\<rparr>) payload sig' now' s') = s')"
proof -
  obtain e where e: "VerifyWebhook env payload signature now = Inr e"
    using assms(2,3) by (auto simp: HandleWebhook_def split: if_splits sum.splits)
  then obtain obj where s': "s' = fst (applyWebhookEvent env (seventID e) (seventCreated e) (seventType e) obj s)"
    using assms(2,3) by (auto simp: HandleWebhook_def split: if_splits option.splits)
  note parsed = VerifyWebhook_Inr [OF e assms(1)]
  obtain u where u: "buEventID u = seventID e" "s' = fst (ApplyBillingEvent (blCollation env) (blStatementNow env) u s)"
    by (cases rule: apply_event_state [of env "seventID e" "seventCreated e" "seventType e" obj s]) (use assms(3) s' in auto)
  then have new: "by_key stEventID (seventID e) (stripe_events s) = None" "by_key stEventID (seventID e) (stripe_events s') \<noteq> None"
    using assms(3) by (auto simp: ApplyBillingEvent_def by_key_append split: if_splits option.splits)
  have "fst (HandleWebhook (env\<lparr>blFault := f\<rparr>) payload sig' now' s') = s'" for f sig' now'
  proof -
    have "e' = e" if "VerifyWebhook (env\<lparr>blFault := f\<rparr>) payload sig' now' = Inr e'" for e'
      using that parsed(1) by (auto simp: VerifyWebhook_def Let_def split: option.splits if_splits)
    then show ?thesis using event_recorded_once [OF new(2)]
      by (auto simp: HandleWebhook_def split: if_splits sum.splits option.splits)
  qed
  with parsed new show ?thesis by (auto simp: stripeSignatureTolerance_def)
qed

section \<open>A checkout without a subscription\<close>

text \<open>The source has a branch for a completed checkout that carries no subscription and would store none. It
  is never taken: the id of the checkout session stands in for the subscription.\<close>

theorem checkout_stores_session_id:
  assumes "stringValue obj ''subscription'' = []" and "stringValue obj ''id'' = x" and "x \<noteq> []"
  shows "\<exists>u. event_update env i n ''checkout.session.completed'' obj team = Some u \<and> buSubscription u = Some x"
  using assms by (simp add: event_update_def Let_def event_subscription_def nonempty_def)

section \<open>Examples\<close>

definition demo_account :: account where
  "demo_account = (fresh_account [] empty_db)\<lparr>teams := [new_team 9 ''A'' ''a'']\<rparr>"

definition demo_billing :: billing_env where
  "demo_billing = \<lparr>blClient = Some \<lparr>scSecretKey = ''k'', scWebhookSecret = ''w'', scPrices = [], scSuccessURL = [], scCancelURL = [],
       scReturnURL = []\<rparr>, blFault = (\<lambda>_. NoFault), blStatementNow = 1, blClock = 0, blCollation = bytes_le, blParseInt = (\<lambda>_. Some 1),
     blFormatInt = (\<lambda>_. ''1''), blDecodeHex = Some, blHMAC = (\<lambda>_ _. ''m''),
     blParseEvent = (\<lambda>_. Some \<lparr>seventID = ''e'', seventType = ''invoice.payment_failed'', seventCreated = 5,
        seventObject = Some [(''metadata'', JObj [(''team_id'', JStr ''9'')])]\<rparr>),
     blParseUUID = (\<lambda>x. if x = [] then None else Some 9), blUUIDText = (\<lambda>_. ''9''), blPost = (\<lambda>_ _ _. None)\<rparr>"

text \<open>A failed payment that was created after a new subscription arrives first.\<close>

definition demo_object :: "string \<Rightarrow> json_object" where
  "demo_object p = [(''customer'', JStr ''cus''), (''id'', JStr p), (''metadata'', JObj [(''team_id'', JStr ''9''), (''plan'', JStr ''pro'')])]"

definition demo_type :: "string \<Rightarrow> string" where
  "demo_type p = (if p = ''e2'' then ''invoice.payment_failed'' else ''checkout.session.completed'')"

definition demo_events :: billing_env where
  "demo_events = demo_billing\<lparr>blParseEvent := (\<lambda>p. Some \<lparr>seventID = p, seventType = demo_type p,
     seventCreated = 7, seventObject = Some (demo_object p)\<rparr>)\<rparr>"

definition demo_reported :: "string \<Rightarrow> billing_update" where
  "demo_reported p = the (event_update demo_events p 7 (demo_type p) (demo_object p) (new_team 9 ''A'' ''a''))"

lemma demo_updates:
  "update_fields (demo_reported ''e1'') = (Some ''cus'', Some ''e1'', PlanPro, ''active'', None, False, 7, ''e1'')"
  "update_fields (demo_reported ''e2'') = (Some ''cus'', Some ''e2'', PlanFree, ''past_due'', None, False, 7, ''e2'')"
  "buTeam (demo_reported ''e1'') = 9" "buTeam (demo_reported ''e2'') = 9"
  by code_simp+

lemma demo_known:
  "event_update demo_events ''e1'' 7 (demo_type ''e1'') (demo_object ''e1'') (new_team 9 ''A'' ''a'') \<noteq> None"
  "event_update demo_events ''e2'' 7 (demo_type ''e2'') (demo_object ''e2'') (new_team 9 ''A'' ''a'') \<noteq> None"
  by (simp_all add: event_update_def demo_type_def Let_def)

lemma demo_order: "bytes_le ''e1'' ''e2''" "bytes_le ''e2'' ''e2''"
  by code_simp+

definition demo_verifies :: "string \<Rightarrow> bool" where
  "demo_verifies p = (case VerifyWebhook demo_events p ''t=1,v1=m'' second of Inl _ \<Rightarrow> False | Inr e \<Rightarrow> e = the (blParseEvent demo_events p))"

lemma demo_verified: "demo_verifies ''e1''" "demo_verifies ''e2''"
  by code_simp+

lemma demo_reports:
  assumes "demo_verifies p" and "event_update demo_events p 7 (demo_type p) (demo_object p) (new_team 9 ''A'' ''a'') \<noteq> None"
    and "buTeam (demo_reported p) = 9"
  shows "reports demo_events (p, ''t=1,v1=m'', second) (demo_reported p)"
proof -
  have "VerifyWebhook demo_events p ''t=1,v1=m'' second = Inr (the (blParseEvent demo_events p))"
    using assms(1) by (auto simp: demo_verifies_def split: sum.splits)
  moreover have "event_update demo_events p 7 (demo_type p) (demo_object p) (new_team 9 ''A'' ''a'') = Some (demo_reported p)"
    using assms(2) by (auto simp: demo_reported_def)
  moreover have "TrimSpace ''cus'' \<noteq> []" "TrimSpace ''9'' \<noteq> []" by code_simp+
  ultimately show ?thesis
    unfolding reports_def prod.case
    by (intro exI [of _ "the (blParseEvent demo_events p)"] exI [of _ "demo_object p"] exI [of _ "new_team 9 ''A'' ''a''"])
      (simp add: demo_events_def demo_billing_def demo_object_def assms(3) uuid_Nil_def stringValue_def objectValue_def stringMap_def entry_def new_team_def)
qed

theorem billing_events_converge_witness:
  "map_option billing_fields (by_key tmID 9 (teams (handle_all demo_events [(1, ''e2'', ''t=1,v1=m'', second), (2, ''e1'', ''t=1,v1=m'', second)] demo_account))) =
     Some (Some ''cus'', Some ''e2'', PlanFree, ''past_due'', None, False, 7, ''e2'')"
proof -
  let ?ds = "[(1, ''e2'', ''t=1,v1=m'', second), (2, ''e1'', ''t=1,v1=m'', second)]" and ?us = "[demo_reported ''e2'', demo_reported ''e1'']"
  have u: "buEventID (demo_reported ''e1'') = ''e1''" "buEventID (demo_reported ''e2'') = ''e2''" "update_key (demo_reported ''e1'') = (7, ''e1'')" "update_key (demo_reported ''e2'') = (7, ''e2'')"
    using demo_updates(1,2) by (simp_all add: update_fields_def update_key_def)
  have rep: "list_all2 (\<lambda>d. reports demo_events (snd d)) ?ds ?us"
    using demo_reports [OF demo_verified(1) _ demo_updates(3)] demo_reports [OF demo_verified(2) _ demo_updates(4)] by (simp add: demo_known)
  have env: "collation (blCollation demo_events)" "blFault demo_events = (\<lambda>_. NoFault)" "blCollation demo_events = bytes_le"
    by (simp_all add: demo_events_def demo_billing_def) unfold_locales
  have team: "by_key tmID 9 (teams demo_account) = Some (new_team 9 ''A'' ''a'')"
    by (simp add: demo_account_def new_team_def)
  have "\<exists>t. by_key tmID 9 (teams (handle_all demo_events ?ds demo_account)) = Some t \<and> billing_fields t = update_fields (demo_reported ''e2'')"
    using billing_events_converge [OF env(1,2) rep _ _ _ team]
    by (auto simp: u demo_updates(3,4) team demo_account_def fresh_account_def event_le_def team_key_def new_team_def env(3) demo_order)
  then show ?thesis using demo_updates(2) by auto
qed

theorem billing_webhook_authentic_witness:
  "let s' = fst (HandleWebhook demo_billing ''p'' ''t=1,v1=m'' second demo_account)
   in s' \<noteq> demo_account \<and> fst (HandleWebhook (demo_billing\<lparr>blFault := (\<lambda>_. FailApplied)\<rparr>) ''p'' ''t=1,v1=m'' second s') = s'"
proof -
  let ?s = "fst (HandleWebhook demo_billing ''p'' ''t=1,v1=m'' second demo_account)"
  have "length (stripe_events ?s) \<noteq> length (stripe_events demo_account)" by code_simp
  then have "?s \<noteq> demo_account" by metis
  moreover have "second \<noteq> zero_time" by (simp add: zero_time_def second_def)
  ultimately show ?thesis
    using billing_webhook_authentic [of second demo_billing "''p''" "''t=1,v1=m''" demo_account ?s] by (simp add: Let_def)
qed

theorem checkout_stores_session_id_example:
  "\<exists>u. event_update demo_billing ''e'' 1 ''checkout.session.completed'' [(''id'', JStr ''cs_1'')] (new_team 9 ''A'' ''a'') = Some u \<and>
     buSubscription u = Some ''cs_1''"
proof (rule checkout_stores_session_id)
  show "stringValue [(''id'', JStr ''cs_1'')] ''subscription'' = []" by code_simp
  show "stringValue [(''id'', JStr ''cs_1'')] ''id'' = ''cs_1''" by code_simp
qed simp

end
