(* ===== verification/Access.thy ===== *)
theory Access
  imports Billing
begin

text \<open>
  Who may do what: API keys (\<open>internal/auth/apikey.go\<close>, \<open>internal/repository/apikey_repo.go\<close>,
  \<open>internal/handler/apikey_handler.go\<close>), the authentication middleware
  (\<open>internal/auth/middleware.go\<close>) with the two look-ups \<open>cmd/api/main.go\<close> installs, the checks of
  \<open>internal/handler/helpers.go\<close> and the team endpoints of \<open>internal/handler/team_handler.go\<close>. Token
  verification, SHA-256, base64 and UUID parsing are parameters. A handler is a function of the
  decoded request (\<open>None\<close> for a body that does not decode) to the new state and the reply.
\<close>

section \<open>State and environment\<close>

record APIKey =
  akID :: uuid
  akTeamID :: uuid
  akName :: string
  akKeyHash :: string
  akKeyPrefix :: string
  akPermissions :: "string list"
  akCreatedAt :: instant
  akLastUsedAt :: "instant option"

record access =
  acct :: account
  api_keys :: "APIKey list"

datatype access_site = AcVerify | AcLastUsed | AcMember | AcTeam | AcCreateKey | AcDeleteKey | AcFirst | AcSecond

record access_env =
  aeFault :: "access_site \<Rightarrow> fault"
  aeNow :: instant
  aeJWT :: "string \<Rightarrow> string option"
  aeSHA :: "string \<Rightarrow> string"
  aeB64 :: "string \<Rightarrow> string"
  aeRandom :: "string option"
  aeFreshID :: uuid
  aeFreshID2 :: uuid
  aeParseUUID :: "string \<Rightarrow> uuid option"
  aeUUIDText :: "uuid \<Rightarrow> string"
  aeRunes :: "string \<Rightarrow> nat list"
  aeDBText :: "db_error \<Rightarrow> string"

record Claims =
  clTeamID :: string
  clUserID :: string
  clRole :: string
  clAPIKeyID :: string
  clPermissions :: "string list"
  clPlan :: string

section \<open>API keys\<close>

text \<open>The key, its hash and the prefix shown to the user.\<close>

definition HashAPIKey :: "access_env \<Rightarrow> string \<Rightarrow> string" where
  "HashAPIKey env key = aeSHA env key"

definition GenerateAPIKey :: "access_env \<Rightarrow> (string \<times> string \<times> string) option" where
  "GenerateAPIKey env =
     (case aeRandom env of
        None \<Rightarrow> None
      | Some bytes \<Rightarrow>
          let raw = ''re_'' @ aeB64 env bytes;
              prefix = (if length raw > 10 then take 10 raw @ ''...'' else raw)
          in Some (raw, HashAPIKey env raw, prefix))"

text \<open>The column \<open>key_prefix\<close> holds ten characters (\<open>migrations/001_initial.up.sql\<close>).\<close>

definition key_prefix_width :: nat where
  "key_prefix_width = 10"

definition APIKeyRepo_Create :: "instant \<Rightarrow> APIKey \<Rightarrow> access \<Rightarrow> access \<times> unit result" where
  "APIKeyRepo_Create now k s =
     (if length (akKeyPrefix k) > key_prefix_width then (s, Inl ValueTooLong)
      else if by_key akID (akID k) (api_keys s) \<noteq> None then (s, Inl UniqueViolation)
      else if by_key tmID (akTeamID k) (teams (acct s)) = None then (s, Inl ForeignKeyViolation)
      else (s\<lparr>api_keys := api_keys s @ [k\<lparr>akCreatedAt := now, akLastUsedAt := None\<rparr>]\<rparr>, Inr ()))"

definition APIKeyRepo_GetByID :: "uuid \<Rightarrow> access \<Rightarrow> APIKey result" where
  "APIKeyRepo_GetByID i s = (case by_key akID i (api_keys s) of None \<Rightarrow> Inl ErrNoRows | Some k \<Rightarrow> Inr k)"

definition GetByHash :: "string \<Rightarrow> access \<Rightarrow> APIKey result" where
  "GetByHash h s = (case by_key akKeyHash h (api_keys s) of None \<Rightarrow> Inl ErrNoRows | Some k \<Rightarrow> Inr k)"

definition APIKeyRepo_List :: "uuid \<Rightarrow> access \<Rightarrow> APIKey list" where
  "APIKeyRepo_List team s = sort_key (\<lambda>k. - akCreatedAt k) (filter (\<lambda>k. akTeamID k = team) (api_keys s))"

definition APIKeyRepo_DeleteForTeam :: "uuid \<Rightarrow> uuid \<Rightarrow> access \<Rightarrow> access \<times> unit result" where
  "APIKeyRepo_DeleteForTeam team i s =
     (s\<lparr>api_keys := sql_delete (\<lambda>k. akID k = i \<and> akTeamID k = team) (api_keys s)\<rparr>, Inr ())"

definition UpdateLastUsed :: "instant \<Rightarrow> uuid \<Rightarrow> access \<Rightarrow> access \<times> unit result" where
  "UpdateLastUsed now i s =
     (s\<lparr>api_keys := sql_update (\<lambda>k. akID k = i \<and> (akLastUsedAt k = None \<or> sql_lt (akLastUsedAt k) (now - minute)))
        (\<lambda>k. k\<lparr>akLastUsedAt := Some now\<rparr>) (api_keys s)\<rparr>, Inr ())"

text \<open>The key with this hash whose team exists, with the team's plan.\<close>

definition VerifyAPIKey :: "access_env \<Rightarrow> string \<Rightarrow> access \<Rightarrow> (APIKey \<times> Plan) result" where
  "VerifyAPIKey env raw s =
     (case find (\<lambda>k. akKeyHash k = HashAPIKey env raw \<and> by_key tmID (akTeamID k) (teams (acct s)) \<noteq> None) (api_keys s) of
        None \<Rightarrow> Inl ErrNoRows
      | Some k \<Rightarrow> (case by_key tmID (akTeamID k) (teams (acct s)) of None \<Rightarrow> Inl ErrNoRows | Some t \<Rightarrow> Inr (k, tmPlan t)))"

section \<open>Authentication\<close>

text \<open>The look-up of a key, as installed at start-up: a failure to note the use is only logged.\<close>

definition verify_key_context :: "access_env \<Rightarrow> string \<Rightarrow> access \<Rightarrow> access \<times> Claims option" where
  "verify_key_context env raw s =
     (case snd (run_call (aeFault env AcVerify) (\<lambda>s. (s, VerifyAPIKey env raw s)) s) of
        Inl _ \<Rightarrow> (s, None)
      | Inr (k, plan) \<Rightarrow>
          (let claims = \<lparr>clTeamID = aeUUIDText env (akTeamID k), clUserID = [], clRole = ''api_key'', clAPIKeyID = aeUUIDText env (akID k),
                 clPermissions = akPermissions k, clPlan = plan_text plan\<rparr>;
               s1 = (case aeParseUUID env (aeUUIDText env (akID k)) of
                       None \<Rightarrow> s | Some i \<Rightarrow> fst (run_call (aeFault env AcLastUsed) (UpdateLastUsed (aeNow env) i) s))
           in (s1, Some claims)))"

text \<open>The look-up of a membership: team id, role and plan.\<close>

definition resolve_user_team :: "access_env \<Rightarrow> string \<Rightarrow> string \<Rightarrow> access \<Rightarrow> (string \<times> string \<times> string) option" where
  "resolve_user_team env userID requestedTeamID s =
     (case aeParseUUID env userID of
        None \<Rightarrow> None
      | Some uid \<Rightarrow>
          (case aeParseUUID env requestedTeamID of
             None \<Rightarrow> None
           | Some team \<Rightarrow>
               (case snd (run_call (aeFault env AcMember) (\<lambda>s. (s, GetMember team uid (acct s))) s) of
                  Inl _ \<Rightarrow> None
                | Inr m \<Rightarrow>
                    (case snd (run_call (aeFault env AcTeam) (\<lambda>s. (s, TeamRepo_GetByID team (acct s))) s) of
                       Inl _ \<Rightarrow> None
                     | Inr t \<Rightarrow> Some (aeUUIDText env team, mbRole m, plan_text (tmPlan t))))))"

definition VerifySupabaseJWT :: "access_env \<Rightarrow> string \<Rightarrow> string option" where
  "VerifySupabaseJWT env token = (case aeJWT env token of None \<Rightarrow> None | Some sub \<Rightarrow> if sub = [] then None else Some sub)"

record auth_request =
  rqAuthorization :: string
  rqTeamID :: string

definition AuthMiddleware :: "access_env \<Rightarrow> auth_request \<Rightarrow> access \<Rightarrow> access \<times> (string \<times> int + Claims)" where
  "AuthMiddleware env rq s =
     (let h = rqAuthorization rq; scheme = takeWhile (\<lambda>c. c \<noteq> CHR '' '') h; rest = dropWhile (\<lambda>c. c \<noteq> CHR '' '') h; token = tl rest in
      if h = [] then (s, Inl (''missing authorization header'', 401))
      else if rest = [] \<or> scheme \<noteq> ''Bearer'' then (s, Inl (''invalid authorization header'', 401))
      else if isPrefix ''re_'' token then
        (case verify_key_context env token s of
           (s1, None) \<Rightarrow> (s1, Inl (''invalid api key'', 401))
         | (s1, Some c) \<Rightarrow> if clTeamID c = [] \<or> clAPIKeyID c = [] then (s1, Inl (''invalid api key'', 401)) else (s1, Inr c))
      else case VerifySupabaseJWT env token of
             None \<Rightarrow> (s, Inl (''invalid jwt'', 401))
           | Some sub \<Rightarrow>
               (let c = \<lparr>clTeamID = [], clUserID = sub, clRole = ''user'', clAPIKeyID = [], clPermissions = [], clPlan = []\<rparr> in
                if rqTeamID rq = [] then (s, Inr c)
                else case resolve_user_team env sub (rqTeamID rq) s of
                       None \<Rightarrow> (s, Inl (''team access denied'', 403))
                     | Some (team, role, plan) \<Rightarrow> (s, Inr (c\<lparr>clTeamID := team, clRole := role, clPlan := plan\<rparr>))))"

definition HasAnyRole :: "Claims option \<Rightarrow> string list \<Rightarrow> bool" where
  "HasAnyRole c roles \<longleftrightarrow> (case c of None \<Rightarrow> False | Some x \<Rightarrow> clRole x \<in> set roles)"

definition HasPermission :: "Claims option \<Rightarrow> string \<Rightarrow> bool" where
  "HasPermission c p \<longleftrightarrow> (case c of None \<Rightarrow> False
     | Some x \<Rightarrow> clRole x \<noteq> ''api_key'' \<or> list_ex (\<lambda>q. q = p \<or> q = ''*'') (clPermissions x))"

section \<open>Replies\<close>

text \<open>A status and the text of an error; a text that names internals is replaced.\<close>

type_synonym reply = "int \<times> string"

definition internal_markers :: "string list" where
  "internal_markers = [''failed to create '', ''failed to save '', ''failed to update '', ''failed to delete '', ''database'',
     ''duplicate key'', ''pgx'', ''pq:'', ''sql:'']"

definition isInternalErrorMessage :: "string \<Rightarrow> bool" where
  "isInternalErrorMessage msg \<longleftrightarrow> list_ex (Contains (ToLower msg)) internal_markers"

definition writeError :: "string \<Rightarrow> int \<Rightarrow> reply" where
  "writeError msg code = (code, if code \<ge> 500 \<or> isInternalErrorMessage msg then ''internal server error'' else msg)"

definition getTeamID :: "access_env \<Rightarrow> Claims option \<Rightarrow> reply + uuid" where
  "getTeamID env c =
     (case c of
        None \<Rightarrow> Inl (writeError ''unauthorized'' 401)
      | Some x \<Rightarrow> if clTeamID x = [] then Inl (writeError ''team context is required'' 400)
                  else case aeParseUUID env (clTeamID x) of None \<Rightarrow> Inl (writeError ''invalid team id'' 400) | Some i \<Rightarrow> Inr i)"

definition requireRoles :: "Claims option \<Rightarrow> string list \<Rightarrow> reply option" where
  "requireRoles c roles =
     (case c of None \<Rightarrow> Some (writeError ''unauthorized'' 401)
      | Some _ \<Rightarrow> if HasAnyRole c roles then None else Some (writeError ''forbidden'' 403))"

definition requirePermission :: "Claims option \<Rightarrow> string \<Rightarrow> reply option" where
  "requirePermission c p =
     (case c of None \<Rightarrow> Some (writeError ''unauthorized'' 401)
      | Some _ \<Rightarrow> if HasPermission c p then None else Some (writeError ''api key permission denied'' 403))"

section \<open>Key endpoints\<close>

definition APIKeyHandler_Create ::
  "access_env \<Rightarrow> Claims option \<Rightarrow> (string \<times> string list) option \<Rightarrow> access \<Rightarrow> access \<times> (reply + string)" where
  "APIKeyHandler_Create env c body s =
     (case requireRoles c [''owner'', ''admin''] of
        Some r \<Rightarrow> (s, Inl r)
      | None \<Rightarrow>
          (case body of
             None \<Rightarrow> (s, Inl (writeError ''invalid request body'' 400))
           | Some (name0, perms0) \<Rightarrow>
               let name = TrimSpace name0; perms = (if perms0 = [] then [''send''] else perms0) in
               if name = [] \<or> length name > 255 then (s, Inl (writeError ''api key name must be between 1 and 255 characters'' 400))
               else if \<not> list_all (\<lambda>p. p \<in> {''send'', ''read'', ''*''}) perms then (s, Inl (writeError ''unsupported api key permission'' 400))
               else case GenerateAPIKey env of
                      None \<Rightarrow> (s, Inl (writeError ''failed to generate key'' 500))
                    | Some (raw, hash, prefix) \<Rightarrow>
                        (case getTeamID env c of
                           Inl r \<Rightarrow> (s, Inl r)
                         | Inr team \<Rightarrow>
                             (case run_call (aeFault env AcCreateKey) (APIKeyRepo_Create (aeNow env)
                                 \<lparr>akID = aeFreshID env, akTeamID = team, akName = name, akKeyHash = hash, akKeyPrefix = prefix,
                                  akPermissions = perms, akCreatedAt = 0, akLastUsedAt = None\<rparr>) s of
                                (s', Inl _) \<Rightarrow> (s', Inl (writeError ''failed to save key'' 500))
                              | (s', Inr _) \<Rightarrow> (s', Inr raw)))))"

definition APIKeyHandler_List :: "access_env \<Rightarrow> Claims option \<Rightarrow> access \<Rightarrow> reply + APIKey list" where
  "APIKeyHandler_List env c s =
     (case requireRoles c [''owner'', ''admin''] of
        Some r \<Rightarrow> Inl r
      | None \<Rightarrow> (case getTeamID env c of Inl r \<Rightarrow> Inl r
                 | Inr team \<Rightarrow> (case snd (run_call (aeFault env AcFirst) (\<lambda>s. (s, Inr (APIKeyRepo_List team s))) s) of
                     Inl e \<Rightarrow> Inl (writeError (aeDBText env e) 500) | Inr ks \<Rightarrow> Inr ks)))"

definition APIKeyHandler_Delete :: "access_env \<Rightarrow> Claims option \<Rightarrow> string \<Rightarrow> access \<Rightarrow> access \<times> (reply + unit)" where
  "APIKeyHandler_Delete env c idText s =
     (case requireRoles c [''owner'', ''admin''] of
        Some r \<Rightarrow> (s, Inl r)
      | None \<Rightarrow>
          (case aeParseUUID env idText of
             None \<Rightarrow> (s, Inl (writeError ''invalid id'' 400))
           | Some i \<Rightarrow>
               (case getTeamID env c of
                  Inl r \<Rightarrow> (s, Inl r)
                | Inr team \<Rightarrow>
                    (case run_call (aeFault env AcDeleteKey) (APIKeyRepo_DeleteForTeam team i) s of
                       (s', Inl e) \<Rightarrow> (s', Inl (writeError (aeDBText env e) 500))
                     | (s', Inr _) \<Rightarrow> (s', Inr ())))))"

section \<open>Team endpoints\<close>

definition authorizeTeam :: "access_env \<Rightarrow> Claims option \<Rightarrow> uuid \<Rightarrow> string list \<Rightarrow> access \<Rightarrow> reply option" where
  "authorizeTeam env c team roles s =
     (case c of
        None \<Rightarrow> Some (writeError ''unauthorized'' 401)
      | Some x \<Rightarrow>
          if clRole x = ''api_key'' then Some (writeError ''api keys cannot manage teams'' 403)
          else case aeParseUUID env (clUserID x) of
                 None \<Rightarrow> Some (writeError ''invalid user id'' 401)
               | Some user \<Rightarrow>
                   (case snd (run_call (aeFault env AcMember) (\<lambda>s. (s, GetMember team user (acct s))) s) of
                      Inl _ \<Rightarrow> Some (writeError ''forbidden'' 403)
                    | Inr m \<Rightarrow> if roles \<noteq> [] \<and> mbRole m \<notin> set roles then Some (writeError ''forbidden'' 403) else None))"

definition on_acct :: "(account \<Rightarrow> account \<times> 'a) \<Rightarrow> access \<Rightarrow> access \<times> 'a" where
  "on_acct f s = (case f (acct s) of (a, r) \<Rightarrow> (s\<lparr>acct := a\<rparr>, r))"

text \<open>What an error of the service reads like: a refusal is its own text, a failing call has the text of the
  database behind what the service puts in front.\<close>

definition team_error_text :: "access_env \<Rightarrow> string \<Rightarrow> team_error \<Rightarrow> string" where
  "team_error_text env lead e = (case e of TeamRefused t \<Rightarrow> t | TeamDB d \<Rightarrow> lead @ aeDBText env d)"

definition answer_with :: "(team_error \<Rightarrow> reply) \<Rightarrow> int \<Rightarrow> access \<times> (team_error + 'a) \<Rightarrow> access \<times> reply" where
  "answer_with err ok x = (case x of (s, Inl e) \<Rightarrow> (s, err e) | (s, Inr _) \<Rightarrow> (s, (ok, [])))"

definition TeamHandler_Create :: "access_env \<Rightarrow> Claims option \<Rightarrow> string option \<Rightarrow> access \<Rightarrow> access \<times> reply" where
  "TeamHandler_Create env c body s =
     (case c of
        None \<Rightarrow> (s, writeError ''unauthorized'' 401)
      | Some x \<Rightarrow>
          if clRole x = ''api_key'' then (s, writeError ''api keys cannot create teams'' 403)
          else case body of
                 None \<Rightarrow> (s, writeError ''invalid request body'' 400)
               | Some name \<Rightarrow>
                   (case aeParseUUID env (clUserID x) of
                      None \<Rightarrow> (s, writeError ''invalid user id'' 400)
                    | Some user \<Rightarrow>
                        answer_with (\<lambda>e. writeError (team_error_text env ''failed to create team: '' e) 400) 201
                          (on_acct (TeamService_Create (aeFault env AcFirst) (aeNow env) (aeRunes env) (aeFreshID env) (aeFreshID2 env) user (Some name)) s)))"

definition TeamHandler_List :: "access_env \<Rightarrow> Claims option \<Rightarrow> access \<Rightarrow> reply + Team list" where
  "TeamHandler_List env c s =
     (case c of
        None \<Rightarrow> Inl (writeError ''unauthorized'' 401)
      | Some x \<Rightarrow>
          if clRole x = ''api_key'' then Inl (writeError ''api keys cannot list user teams'' 403)
          else case aeParseUUID env (clUserID x) of
                 None \<Rightarrow> Inl (writeError ''invalid user id'' 400)
               | Some user \<Rightarrow> (case snd (run_call (aeFault env AcFirst) (\<lambda>s. (s, Inr (ListByUser user (acct s)))) s) of
                   Inl e \<Rightarrow> Inl (writeError (aeDBText env e) 500) | Inr ts \<Rightarrow> Inr ts))"

text \<open>The start every endpoint below \<open>/{id}\<close> shares: the id must parse and the caller must be entitled.\<close>

definition with_team :: "access_env \<Rightarrow> Claims option \<Rightarrow> string \<Rightarrow> string \<Rightarrow> string list \<Rightarrow> (uuid \<Rightarrow> access \<Rightarrow> access \<times> reply) \<Rightarrow> access \<Rightarrow> access \<times> reply" where
  "with_team env c idText badID roles f s =
     (case aeParseUUID env idText of
        None \<Rightarrow> (s, writeError badID 400)
      | Some team \<Rightarrow> (case authorizeTeam env c team roles s of Some r \<Rightarrow> (s, r) | None \<Rightarrow> f team s))"

definition TeamHandler_GetByID :: "access_env \<Rightarrow> Claims option \<Rightarrow> string \<Rightarrow> access \<Rightarrow> access \<times> reply" where
  "TeamHandler_GetByID env c idText = with_team env c idText ''invalid id'' [] (\<lambda>team s.
     case snd (run_call (aeFault env AcTeam) (\<lambda>s. (s, TeamRepo_GetByID team (acct s))) s) of
       Inl _ \<Rightarrow> (s, writeError ''team not found'' 404) | Inr _ \<Rightarrow> (s, (200, [])))"

definition TeamHandler_Update :: "access_env \<Rightarrow> Claims option \<Rightarrow> string \<Rightarrow> string option option \<Rightarrow> access \<Rightarrow> access \<times> reply" where
  "TeamHandler_Update env c idText body = with_team env c idText ''invalid id'' [''owner'', ''admin''] (\<lambda>team s.
     case body of
       None \<Rightarrow> (s, writeError ''invalid request body'' 400)
     | Some req \<Rightarrow> answer_with (\<lambda>e. writeError (team_error_text env ''failed to update team: '' e) 400) 200
         (on_acct (TeamService_Update (aeFault env AcFirst) (aeFault env AcSecond) (aeNow env) team (Some req)) s))"

text \<open>The keys of a deleted team go with it.\<close>

definition delete_team :: "uuid \<Rightarrow> access \<Rightarrow> access \<times> unit result" where
  "delete_team team s = (s\<lparr>acct := fst (TeamRepo_Delete team (acct s)), api_keys := sql_delete (\<lambda>k. akTeamID k = team) (api_keys s)\<rparr>, Inr ())"

definition TeamHandler_Delete :: "access_env \<Rightarrow> Claims option \<Rightarrow> string \<Rightarrow> access \<Rightarrow> access \<times> reply" where
  "TeamHandler_Delete env c idText = with_team env c idText ''invalid id'' [''owner''] (\<lambda>team s.
     case run_call (aeFault env AcFirst) (delete_team team) s of
       (s', Inl e) \<Rightarrow> (s', writeError (aeDBText env e) 500) | (s', Inr _) \<Rightarrow> (s', (204, [])))"

definition InviteMember :: "access_env \<Rightarrow> Claims option \<Rightarrow> string \<Rightarrow> (string \<times> string) option \<Rightarrow> access \<Rightarrow> access \<times> reply" where
  "InviteMember env c idText body = with_team env c idText ''invalid team id'' [''owner'', ''admin''] (\<lambda>team s.
     case body of
       None \<Rightarrow> (s, writeError ''invalid request body'' 400)
     | Some req \<Rightarrow> answer_with (\<lambda>e. writeError (team_error_text env ''failed to create invitation: '' e) 400) 201
         (on_acct (TeamService_CreateInvitation (aeFault env AcFirst) (aeFault env AcSecond) (aeNow env) (aeSHA env)
            (map_option (aeB64 env) (aeRandom env)) (aeFreshID env) team (Some req)) s))"

definition TeamHandler_ListInvitations :: "access_env \<Rightarrow> Claims option \<Rightarrow> string \<Rightarrow> access \<Rightarrow> access \<times> reply" where
  "TeamHandler_ListInvitations env c idText = with_team env c idText ''invalid team id'' [''owner'', ''admin''] (\<lambda>team s.
     case snd (run_call (aeFault env AcFirst) (\<lambda>s. (s, Inr (ListInvitations (aeNow env) team (acct s)))) s) of
       Inl e \<Rightarrow> (s, writeError (aeDBText env e) 500) | Inr _ \<Rightarrow> (s, (200, [])))"

definition TeamHandler_RevokeInvitation :: "access_env \<Rightarrow> Claims option \<Rightarrow> string \<Rightarrow> string \<Rightarrow> access \<Rightarrow> access \<times> reply" where
  "TeamHandler_RevokeInvitation env c idText invText = with_team env c idText ''invalid team id'' [''owner'', ''admin''] (\<lambda>team s.
     case aeParseUUID env invText of
       None \<Rightarrow> (s, writeError ''invalid invitation id'' 400)
     | Some i \<Rightarrow> (case on_acct (run_call (aeFault env AcFirst) (RevokeInvitation (aeNow env) team i)) s of
         (s', Inl e) \<Rightarrow> (s', writeError (aeDBText env e) 500) | (s', Inr _) \<Rightarrow> (s', (204, []))))"

definition TeamHandler_AcceptInvitation :: "access_env \<Rightarrow> Claims option \<Rightarrow> string option \<Rightarrow> access \<Rightarrow> access \<times> reply" where
  "TeamHandler_AcceptInvitation env c body s =
     (case c of
        None \<Rightarrow> (s, writeError ''unauthorized'' 401)
      | Some x \<Rightarrow>
          if clRole x = ''api_key'' then (s, writeError ''api keys cannot accept invitations'' 403)
          else case aeParseUUID env (clUserID x) of
                 None \<Rightarrow> (s, writeError ''invalid user id'' 401)
               | Some user \<Rightarrow>
                   (case body of
                      None \<Rightarrow> (s, writeError ''invalid request body'' 400)
                    | Some token \<Rightarrow>
                        answer_with (\<lambda>_. writeError ''invitation is invalid or expired'' 400) 200
                          (on_acct (TeamService_AcceptInvitation (aeFault env AcFirst) (aeNow env) (aeSHA env) (aeFreshID env) token user) s)))"

definition TeamHandler_RemoveMember :: "access_env \<Rightarrow> Claims option \<Rightarrow> string \<Rightarrow> string \<Rightarrow> access \<Rightarrow> access \<times> reply" where
  "TeamHandler_RemoveMember env c idText userText = with_team env c idText ''invalid team id'' [''owner'', ''admin''] (\<lambda>team s.
     case aeParseUUID env userText of
       None \<Rightarrow> (s, writeError ''invalid user id'' 400)
     | Some user \<Rightarrow> answer_with (\<lambda>e. writeError (team_error_text env [] e) 500) 204
         (on_acct (TeamService_RemoveMember (aeFault env AcFirst) (aeFault env AcSecond) team user) s))"

definition TeamHandler_UpdateMemberRole :: "access_env \<Rightarrow> Claims option \<Rightarrow> string \<Rightarrow> string \<Rightarrow> string option \<Rightarrow> access \<Rightarrow> access \<times> reply" where
  "TeamHandler_UpdateMemberRole env c idText userText body = with_team env c idText ''invalid team id'' [''owner'', ''admin''] (\<lambda>team s.
     case aeParseUUID env userText of
       None \<Rightarrow> (s, writeError ''invalid user id'' 400)
     | Some user \<Rightarrow>
         (case body of
            None \<Rightarrow> (s, writeError ''invalid request body'' 400)
          | Some role \<Rightarrow> answer_with (\<lambda>e. writeError (team_error_text env [] e) 500) 204
              (on_acct (TeamService_UpdateMemberRole (aeFault env AcFirst) (aeFault env AcSecond) team user role) s)))"

definition TeamHandler_GetMembers :: "access_env \<Rightarrow> Claims option \<Rightarrow> string \<Rightarrow> access \<Rightarrow> access \<times> reply" where
  "TeamHandler_GetMembers env c idText = with_team env c idText ''invalid team id'' [] (\<lambda>team s.
     case snd (run_call (aeFault env AcFirst) (\<lambda>s. (s, Inr (GetMembers team (acct s)))) s) of
       Inl e \<Rightarrow> (s, writeError (aeDBText env e) 500) | Inr _ \<Rightarrow> (s, (200, [])))"

section \<open>Requests\<close>

datatype team_request =
    RqCreate "string option" | RqList | RqGet string | RqUpdate string "string option option" | RqDelete string
  | RqInvite string "(string \<times> string) option" | RqListInvitations string | RqRevoke string string
  | RqAccept "string option" | RqRemove string string | RqRole string string "string option" | RqMembers string
  | RqCreateKey "(string \<times> string list) option" | RqListKeys | RqDeleteKey string

fun dispatch :: "access_env \<Rightarrow> Claims option \<Rightarrow> team_request \<Rightarrow> access \<Rightarrow> access" where
  "dispatch env c (RqCreate b) s = fst (TeamHandler_Create env c b s)"
| "dispatch env c RqList s = s"
| "dispatch env c (RqGet i) s = fst (TeamHandler_GetByID env c i s)"
| "dispatch env c (RqUpdate i b) s = fst (TeamHandler_Update env c i b s)"
| "dispatch env c (RqDelete i) s = fst (TeamHandler_Delete env c i s)"
| "dispatch env c (RqInvite i b) s = fst (InviteMember env c i b s)"
| "dispatch env c (RqListInvitations i) s = fst (TeamHandler_ListInvitations env c i s)"
| "dispatch env c (RqRevoke i v) s = fst (TeamHandler_RevokeInvitation env c i v s)"
| "dispatch env c (RqAccept b) s = fst (TeamHandler_AcceptInvitation env c b s)"
| "dispatch env c (RqRemove i u) s = fst (TeamHandler_RemoveMember env c i u s)"
| "dispatch env c (RqRole i u b) s = fst (TeamHandler_UpdateMemberRole env c i u b s)"
| "dispatch env c (RqMembers i) s = fst (TeamHandler_GetMembers env c i s)"
| "dispatch env c (RqCreateKey b) s = fst (APIKeyHandler_Create env c b s)"
| "dispatch env c RqListKeys s = s"
| "dispatch env c (RqDeleteKey i) s = fst (APIKeyHandler_Delete env c i s)"

text \<open>One request from its headers on: authentication, then the endpoint.\<close>

definition serve :: "access_env \<Rightarrow> auth_request \<Rightarrow> team_request \<Rightarrow> access \<Rightarrow> access" where
  "serve env rq op s = (case AuthMiddleware env rq s of (s1, Inl _) \<Rightarrow> s1 | (s1, Inr c) \<Rightarrow> dispatch env (Some c) op s1)"

section \<open>What belongs to a team\<close>

definition acct_view :: "uuid \<Rightarrow> account \<Rightarrow> Team option \<times> TeamMember list \<times> TeamInvitation list" where
  "acct_view T a = (by_key tmID T (teams a), filter (\<lambda>m. mbTeamID m = T) (team_members a), filter (\<lambda>i. ivTeamID i = T) (team_invitations a))"

definition key_view :: "uuid \<Rightarrow> APIKey list \<Rightarrow> APIKey list" where
  "key_view T ks = map (\<lambda>k. k\<lparr>akLastUsedAt := None\<rparr>) (filter (\<lambda>k. akTeamID k = T) ks)"

text \<open>Everything of a team that its endpoints manage, but for the time a key was last used.\<close>

definition team_view :: "uuid \<Rightarrow> access \<Rightarrow> (Team option \<times> TeamMember list \<times> TeamInvitation list) \<times> APIKey list" where
  "team_view T s = (acct_view T (acct s), key_view T (api_keys s))"

lemma filter_sql_update_other:
  assumes "\<And>r. p r \<Longrightarrow> \<not> q r" and "\<And>r. q (f r) = q r"
  shows "filter q (sql_update p f rows) = filter q rows"
  using assms by (induction rows) auto

lemma by_key_sql_update_other:
  assumes "\<And>r. p r \<Longrightarrow> key r \<noteq> k" and "\<And>r. key (f r) = key r"
  shows "by_key key k (sql_update p f rows) = by_key key k rows"
  using assms by (induction rows) auto

lemma filter_sql_delete_other: "(\<And>r. p r \<Longrightarrow> \<not> q r) \<Longrightarrow> filter q (sql_delete p rows) = filter q rows"
  by (auto simp: sql_delete_def intro: filter_cong)

lemma by_key_sql_delete_other: "(\<And>r. p r \<Longrightarrow> key r \<noteq> k) \<Longrightarrow> by_key key k (sql_delete p rows) = by_key key k rows"
  by (induction rows) (auto simp: sql_delete_def)

lemmas view_intros = filter_sql_update_other by_key_sql_update_other filter_sql_delete_other by_key_sql_delete_other

lemma view_update: "T \<noteq> tmID t \<Longrightarrow> acct_view T (fst (TeamRepo_Update now t a)) = acct_view T a"
  by (auto simp: acct_view_def TeamRepo_Update_def intro!: view_intros)

lemma view_delete: "T \<noteq> X \<Longrightarrow> acct_view T (fst (TeamRepo_Delete X a)) = acct_view T a"
  by (auto simp: acct_view_def TeamRepo_Delete_def intro!: view_intros)

lemma view_revoke: "T \<noteq> X \<Longrightarrow> acct_view T (fst (RevokeInvitation now X i a)) = acct_view T a"
  by (auto simp: acct_view_def RevokeInvitation_def intro!: view_intros)

lemma view_revoke_expired: "T \<noteq> X \<Longrightarrow> acct_view T (fst (revoke_expired now X m a)) = acct_view T a"
  by (auto simp: acct_view_def revoke_expired_def intro!: view_intros)

lemma view_insert_invitation: "T \<noteq> ivTeamID n \<Longrightarrow> acct_view T (fst (insert_invitation now n a)) = acct_view T a"
  by (simp add: acct_view_def insert_invitation_def)

lemma view_remove: "T \<noteq> X \<Longrightarrow> acct_view T (fst (RemoveMember X u a)) = acct_view T a"
  by (auto simp: acct_view_def RemoveMember_def intro!: view_intros)

lemma view_role: "T \<noteq> X \<Longrightarrow> acct_view T (fst (UpdateMemberRole X u role a)) = acct_view T a"
  by (auto simp: acct_view_def UpdateMemberRole_def intro!: view_intros)

lemma view_insert_member: "insert_member now m a = Inr a' \<Longrightarrow> T \<noteq> mbTeamID m \<Longrightarrow> acct_view T a' = acct_view T a"
  by (auto simp: acct_view_def dest!: insert_member_frame)

lemma run_call_view:
  assumes "acct_view T (fst (op a)) = acct_view T a"
  shows "acct_view T (fst (run_call f op a)) = acct_view T a"
  using run_call_state [of f op a] assms by auto

lemma view_create_invitation:
  assumes "T \<noteq> ivTeamID n"
  shows "acct_view T (fst (TeamRepo_CreateInvitation f now n a)) = acct_view T a"
proof -
  obtain a1 r where r: "run_call f (revoke_expired now (ivTeamID n) (ivEmail n)) a = (a1, r)" by (metis surj_pair)
  have "acct_view T a1 = acct_view T a"
    using run_call_view [of T "revoke_expired now (ivTeamID n) (ivEmail n)" a f] view_revoke_expired [OF assms] r by simp
  then show ?thesis using r view_insert_invitation [OF assms] by (cases r) (simp_all add: TeamRepo_CreateInvitation_def)
qed

lemma view_create_team:
  assumes "by_key tmID T (teams a) \<noteq> None" and "mbTeamID m = tmID t"
  shows "acct_view T (fst (CreateWithOwner now t m a)) = acct_view T a"
proof (cases "insert_team now t a")
  case (Inr a1)
  have a1: "acct_view T a1 = acct_view T a" "tmID t \<noteq> T"
    using Inr assms(1) by (auto simp: insert_team_def acct_view_def by_key_append split: if_splits option.splits)
  show ?thesis
    using Inr a1 assms(2) view_insert_member [of now m a1]
    by (cases "insert_member now m a1") (auto simp: CreateWithOwner_def commit_or_keep_def)
qed (simp add: CreateWithOwner_def commit_or_keep_def)

lemma view_accept:
  assumes "\<And>v. v \<in> set (team_invitations a) \<Longrightarrow> accept_where now h user a v \<Longrightarrow> ivTeamID v \<noteq> T"
  shows "acct_view T (fst (TeamRepo_AcceptInvitation now h user m a)) = acct_view T a"
proof (cases "find (accept_where now h user a) (team_invitations a)")
  case (Some v)
  let ?a1 = "a\<lparr>team_invitations := sql_update (accept_where now h user a) (accept_set now user) (team_invitations a)\<rparr>"
  have "filter (\<lambda>i. ivTeamID i = T) (sql_update (accept_where now h user a) (accept_set now user) rows) = filter (\<lambda>i. ivTeamID i = T) rows"
    if "set rows \<subseteq> set (team_invitations a)" for rows
    using that assms by (induction rows) (auto simp: accept_set_def)
  then have a1: "acct_view T ?a1 = acct_view T a" by (simp add: acct_view_def)
  have "v \<in> set (team_invitations a)" "accept_where now h user a v" using Some by (auto simp: find_Some_iff)
  then have "ivTeamID v \<noteq> T" by (rule assms)
  then show ?thesis
    using Some a1 view_insert_member [of now _ ?a1]
    by (auto simp: TeamRepo_AcceptInvitation_def Let_def split: sum.splits)
qed (simp add: TeamRepo_AcceptInvitation_def)

section \<open>Only entitled callers change a team\<close>

definition authenticated :: "access_env \<Rightarrow> auth_request \<Rightarrow> uuid \<Rightarrow> bool" where
  "authenticated env rq user \<longleftrightarrow> (\<exists>token sub. rqAuthorization rq = ''Bearer '' @ token \<and> \<not> isPrefix ''re_'' token \<and>
     VerifySupabaseJWT env token = Some sub \<and> aeParseUUID env sub = Some user)"

definition entitled :: "access_env \<Rightarrow> auth_request \<Rightarrow> uuid \<Rightarrow> access \<Rightarrow> bool" where
  "entitled env rq T s \<longleftrightarrow> (\<exists>user m. authenticated env rq user \<and> member_at (acct s) T user = Some m \<and>
     mbRole m \<in> {TeamMemberRoleOwner, TeamMemberRoleAdmin})"

lemma verify_key_context_state:
  "acct (fst (verify_key_context env raw s)) = acct s" "key_view T (api_keys (fst (verify_key_context env raw s))) = key_view T (api_keys s)"
  "snd (verify_key_context env raw s) = Some c \<Longrightarrow> clRole c = ''api_key''"
proof -
  have "map (\<lambda>k. k\<lparr>akLastUsedAt := None\<rparr>) (filter (\<lambda>k. akTeamID k = T) (sql_update p (\<lambda>k. k\<lparr>akLastUsedAt := Some now\<rparr>) rows)) =
      map (\<lambda>k. k\<lparr>akLastUsedAt := None\<rparr>) (filter (\<lambda>k. akTeamID k = T) rows)" for p now rows
    by (induction rows) auto
  then have "acct (fst (run_call f (UpdateLastUsed now i) s)) = acct s \<and>
      key_view T (api_keys (fst (run_call f (UpdateLastUsed now i) s))) = key_view T (api_keys s)" for f now i
    by (cases f) (simp_all add: UpdateLastUsed_def key_view_def)
  then show "acct (fst (verify_key_context env raw s)) = acct s"
      "key_view T (api_keys (fst (verify_key_context env raw s))) = key_view T (api_keys s)"
    by (auto simp: verify_key_context_def Let_def split: sum.splits prod.splits option.splits)
  show "snd (verify_key_context env raw s) = Some c \<Longrightarrow> clRole c = ''api_key''"
    by (auto simp: verify_key_context_def Let_def split: sum.splits prod.splits option.splits)
qed

lemma resolve_user_team_Some:
  assumes "resolve_user_team env sub header s = Some (team, role, plan)"
  obtains user T m where "aeParseUUID env sub = Some user" "team = aeUUIDText env T" "member_at (acct s) T user = Some m" "role = mbRole m"
  using assms
  by (cases "aeFault env AcMember"; cases "aeFault env AcTeam")
    (auto simp: resolve_user_team_def GetMember_def split: option.splits sum.splits)

text \<open>What the claims of an authenticated request stand for.\<close>

lemma AuthMiddleware_claims:
  assumes "AuthMiddleware env rq s = (s1, Inr c)"
  shows "clRole c = ''api_key'' \<or>
    (\<exists>token. rqAuthorization rq = ''Bearer '' @ token \<and> \<not> isPrefix ''re_'' token \<and> VerifySupabaseJWT env token = Some (clUserID c) \<and>
      (clTeamID c = [] \<and> clRole c = ''user'' \<or>
       (\<exists>user T m. aeParseUUID env (clUserID c) = Some user \<and> clTeamID c = aeUUIDText env T \<and>
          member_at (acct s) T user = Some m \<and> clRole c = mbRole m)))"
proof -
  let ?h = "rqAuthorization rq"
  let ?rest = "dropWhile (\<lambda>c. c \<noteq> CHR '' '') ?h"
  have g: "?rest \<noteq> []" "takeWhile (\<lambda>c. c \<noteq> CHR '' '') ?h = ''Bearer''"
    using assms by (auto simp: AuthMiddleware_def Let_def split: if_splits)
  have h: "?h = ''Bearer '' @ tl ?rest" using cut_at [OF g(1)] g(2) by simp
  show ?thesis
  proof (cases "isPrefix ''re_'' (tl ?rest)")
    case True
    obtain s2 k where k: "verify_key_context env (tl ?rest) s = (s2, k)" by (metis surj_pair)
    then have "k = Some c" using assms g True by (auto simp: AuthMiddleware_def Let_def split: if_splits option.splits)
    then show ?thesis using verify_key_context_state(3) [of env "tl ?rest" s c] k by simp
  next
    case False
    obtain sub where sub: "VerifySupabaseJWT env (tl ?rest) = Some sub"
      using assms g False by (auto simp: AuthMiddleware_def Let_def split: if_splits option.splits)
    show ?thesis
    proof (cases "rqTeamID rq = []")
      case True
      then have "clUserID c = sub" "clTeamID c = []" "clRole c = ''user''"
        using assms g False sub by (auto simp: AuthMiddleware_def Let_def split: if_splits)
      then show ?thesis using h False sub by blast
    next
      case team: False
      obtain t role plan where r: "resolve_user_team env sub (rqTeamID rq) s = Some (t, role, plan)"
        using assms g False sub team by (auto simp: AuthMiddleware_def Let_def split: if_splits option.splits)
      have c: "clUserID c = sub" "clTeamID c = t" "clRole c = role"
        using assms g False sub team r by (auto simp: AuthMiddleware_def Let_def split: if_splits)
      from r obtain user T m where "aeParseUUID env sub = Some user" "t = aeUUIDText env T" "member_at (acct s) T user = Some m" "role = mbRole m"
        by (rule resolve_user_team_Some)
      then show ?thesis using h False sub c by metis
    qed
  qed
qed

lemma AuthMiddleware_state:
  assumes "AuthMiddleware env rq s = (s1, r)"
  shows "acct s1 = acct s" "team_view T s1 = team_view T s"
proof -
  have "s1 = s \<or> s1 = fst (verify_key_context env (tl (dropWhile (\<lambda>c. c \<noteq> CHR '' '') (rqAuthorization rq))) s)"
    using assms by (auto simp: AuthMiddleware_def Let_def split: if_splits option.splits prod.splits)
  then show "acct s1 = acct s" "team_view T s1 = team_view T s"
    using verify_key_context_state by (auto simp: team_view_def)
qed

lemma authorizeTeam_None:
  assumes "authorizeTeam env (Some c) team roles s = None"
  obtains user m where "clRole c \<noteq> ''api_key''" "aeParseUUID env (clUserID c) = Some user" "member_at (acct s) team user = Some m"
    "roles = [] \<or> mbRole m \<in> set roles"
  using assms by (cases "aeFault env AcMember")
    (auto simp: authorizeTeam_def GetMember_def split: if_splits option.splits sum.splits)

lemma fst_answer_with [simp]: "fst (answer_with err ok x) = fst x"
  by (auto simp: answer_with_def split: prod.splits sum.splits)

lemma fst_on_acct [simp]: "fst (on_acct f s) = s\<lparr>acct := fst (f (acct s))\<rparr>"
  by (simp add: on_acct_def split: prod.splits)

text \<open>An endpoint below a team that leaves other teams alone changes a team only for an entitled member.\<close>

lemma with_team_view:
  assumes "team_view T (fst (with_team env (Some c) i bad roles f s)) \<noteq> team_view T s"
    and "\<And>team. team \<noteq> T \<Longrightarrow> team_view T (fst (f team s)) = team_view T s" and "roles \<noteq> []"
  shows "\<exists>user m. clRole c \<noteq> ''api_key'' \<and> aeParseUUID env (clUserID c) = Some user \<and> member_at (acct s) T user = Some m \<and> mbRole m \<in> set roles"
proof -
  obtain team where t: "aeParseUUID env i = Some team" using assms(1) by (auto simp: with_team_def split: option.splits)
  have a: "authorizeTeam env (Some c) team roles s = None" using assms(1) t by (auto simp: with_team_def split: option.splits)
  then have "fst (with_team env (Some c) i bad roles f s) = fst (f team s)" using t by (simp add: with_team_def)
  then have "team = T" using assms(1,2) by metis
  from a show ?thesis by (rule authorizeTeam_None) (use \<open>team = T\<close> assms(3) in blast)
qed

lemma acct_only_view: "team_view T (s\<lparr>acct := a\<rparr>) = team_view T s \<longleftrightarrow> acct_view T a = acct_view T (acct s)"
  by (simp add: team_view_def)

lemma view_service_update:
  assumes "T \<noteq> i"
  shows "acct_view T (fst (TeamService_Update f g now i req a)) = acct_view T a"
proof -
  have id: "tmID t = i" if "TeamRepo_GetByID i a = Inr t" for t
    using that by (auto simp: TeamRepo_GetByID_def split: option.splits dest: by_key_SomeD)
  have u: "acct_view T (fst (run_call g (TeamRepo_Update now t) a)) = acct_view T a" if "tmID t = i" for t
    using that assms by (intro run_call_view view_update) simp
  obtain a1 r where r: "run_call f (\<lambda>s. (s, TeamRepo_GetByID i s)) a = (a1, r)" by (metis surj_pair)
  then have a1: "a1 = a" "r = Inl ConnFailure \<or> r = TeamRepo_GetByID i a" by (cases f; auto)+
  show ?thesis
  proof (cases r)
    case (Inr t)
    then have t: "tmID t = i" using a1(2) id by auto
    have n: "tmID (t\<lparr>tmName := nm\<rparr>) = i" for nm using t by simp
    show ?thesis using r a1(1) Inr u [OF t] u [OF n]
      by (auto simp: TeamService_Update_def Let_def split: option.splits)
  qed (use r a1 in \<open>auto simp: TeamService_Update_def split: option.splits\<close>)
qed

lemma view_service_invite:
  assumes "T \<noteq> team"
  shows "acct_view T (fst (TeamService_CreateInvitation f g now sha drawn i team req a)) = acct_view T a"
proof -
  have "acct_view T (fst (run_call g (TeamRepo_CreateInvitation f now n) a)) = acct_view T a" if "ivTeamID n = team" for n
    using that assms by (intro run_call_view view_create_invitation) simp
  then show ?thesis by (auto simp: TeamService_CreateInvitation_def Let_def split: option.splits)
qed

lemma view_service_member:
  assumes "T \<noteq> team"
  shows "acct_view T (fst (TeamService_RemoveMember f g team user a)) = acct_view T a"
    "acct_view T (fst (TeamService_UpdateMemberRole f g team user role a)) = acct_view T a"
proof -
  have 1: "acct_view T (fst (run_call g (RemoveMember team user) a)) = acct_view T a"
      "acct_view T (fst (run_call g (UpdateMemberRole team user role) a)) = acct_view T a"
    using assms by (intro run_call_view view_remove view_role; simp)+
  show "acct_view T (fst (TeamService_RemoveMember f g team user a)) = acct_view T a"
    using 1(1) by (cases f) (auto simp: TeamService_RemoveMember_def split: sum.splits)
  show "acct_view T (fst (TeamService_UpdateMemberRole f g team user role a)) = acct_view T a"
    using 1(2) by (cases f) (auto simp: TeamService_UpdateMemberRole_def split: sum.splits)
qed

lemma view_service_create:
  assumes "by_key tmID T (teams a) \<noteq> None"
  shows "acct_view T (fst (TeamService_Create f now runes t m u req a)) = acct_view T a"
proof -
  have "acct_view T (fst (run_call f (CreateWithOwner now (new_team t name slug) (first_owner m t u)) a)) = acct_view T a" for name slug
    using assms by (intro run_call_view view_create_team) (simp_all add: new_team_def first_owner_def)
  then show ?thesis by (cases rule: create_state [of f now runes t m u req a]) simp_all
qed

lemma view_service_accept:
  assumes "acct_view T (fst (TeamService_AcceptInvitation f now sha m token user a)) \<noteq> acct_view T a"
  shows "\<exists>v \<in> set (team_invitations a). ivTeamID v = T \<and> accept_where now (sha token) user a v"
proof (rule ccontr)
  assume "\<not> ?thesis"
  then have "acct_view T (fst (TeamRepo_AcceptInvitation now (sha token) user m a)) = acct_view T a"
    by (intro view_accept) blast
  then have "acct_view T (fst (run_call f (TeamRepo_AcceptInvitation now (sha token) user m) a)) = acct_view T a"
    by (rule run_call_view)
  with assms show False by (auto simp: TeamService_AcceptInvitation_def split: if_splits)
qed

definition member_entitled :: "access_env \<Rightarrow> Claims \<Rightarrow> uuid \<Rightarrow> access \<Rightarrow> bool" where
  "member_entitled env c T s \<longleftrightarrow> (\<exists>user m. clRole c \<noteq> ''api_key'' \<and> aeParseUUID env (clUserID c) = Some user \<and>
     member_at (acct s) T user = Some m \<and> mbRole m \<in> {TeamMemberRoleOwner, TeamMemberRoleAdmin})"

definition claims_entitled :: "access_env \<Rightarrow> Claims \<Rightarrow> uuid \<Rightarrow> bool" where
  "claims_entitled env c T \<longleftrightarrow> clRole c \<in> {TeamMemberRoleOwner, TeamMemberRoleAdmin} \<and> clTeamID c \<noteq> [] \<and> aeParseUUID env (clTeamID c) = Some T"

definition accepting :: "access_env \<Rightarrow> Claims \<Rightarrow> team_request \<Rightarrow> uuid \<Rightarrow> access \<Rightarrow> bool" where
  "accepting env c op T s \<longleftrightarrow> (\<exists>token user v. op = RqAccept (Some token) \<and> clRole c \<noteq> ''api_key'' \<and> aeParseUUID env (clUserID c) = Some user \<and>
     v \<in> set (team_invitations (acct s)) \<and> ivTeamID v = T \<and> accept_where (aeNow env) (aeSHA env token) user (acct s) v)"

lemma with_team_entitled:
  assumes "team_view T (fst (with_team env (Some c) i bad roles f s)) \<noteq> team_view T s"
    and "\<And>team. team \<noteq> T \<Longrightarrow> team_view T (fst (f team s)) = team_view T s"
    and "roles = [''owner'', ''admin''] \<or> roles = [''owner'']"
  shows "member_entitled env c T s"
  using with_team_view [OF assms(1,2)] assms(3) unfolding member_entitled_def role_defs by fastforce

lemma with_team_read_only:
  "(\<And>team. fst (f team s) = s) \<Longrightarrow> fst (with_team env c i bad roles f s) = s"
  by (simp add: with_team_def split: option.splits)

lemma key_requests:
  assumes "team_view T (fst (APIKeyHandler_Create env (Some c) b s)) \<noteq> team_view T s \<or>
    team_view T (fst (APIKeyHandler_Delete env (Some c) i s)) \<noteq> team_view T s"
  shows "claims_entitled env c T"
proof -
  have 1: "team_view T (fst (run_call f (APIKeyRepo_Create now k) s)) = team_view T s" if "akTeamID k \<noteq> T" for f now k
    using that by (cases f) (auto simp: team_view_def key_view_def APIKeyRepo_Create_def)
  have 2: "team_view T (fst (run_call f (APIKeyRepo_DeleteForTeam team j) s)) = team_view T s" if "team \<noteq> T" for f team j
    using that by (cases f) (auto simp: team_view_def key_view_def APIKeyRepo_DeleteForTeam_def intro!: arg_cong [of _ _ "map _"] view_intros)
  have role: "requireRoles (Some c) [''owner'', ''admin''] = None" using assms
    by (auto simp: APIKeyHandler_Create_def APIKeyHandler_Delete_def split: option.splits)
  then have "clRole c \<in> {TeamMemberRoleOwner, TeamMemberRoleAdmin}" by (auto simp: requireRoles_def HasAnyRole_def role_defs split: if_splits)
  moreover obtain team where team: "getTeamID env (Some c) = Inr team" using assms role
    by (cases "getTeamID env (Some c)") (auto simp: APIKeyHandler_Create_def APIKeyHandler_Delete_def Let_def split: option.splits if_splits)
  moreover have "team = T"
  proof (rule ccontr)
    assume "team \<noteq> T"
    then have "team_view T (fst (APIKeyHandler_Create env (Some c) b s)) = team_view T s"
        "team_view T (fst (APIKeyHandler_Delete env (Some c) i s)) = team_view T s"
      using 1 2 team role by (auto simp: APIKeyHandler_Create_def APIKeyHandler_Delete_def Let_def split: option.splits)
    with assms show False by blast
  qed
  ultimately show ?thesis by (auto simp: claims_entitled_def getTeamID_def split: if_splits option.splits)
qed

text \<open>Team by team, the endpoints touch only what they were addressed to.\<close>

lemma dispatch_entitled:
  assumes "team_view T (dispatch env (Some c) op s) \<noteq> team_view T s" and "by_key tmID T (teams (acct s)) \<noteq> None"
  shows "member_entitled env c T s \<or> claims_entitled env c T \<or> accepting env c op T s"
proof (cases op)
  case (RqCreate b)
  have "team_view T (fst (TeamHandler_Create env (Some c) b s)) = team_view T s"
    using view_service_create [OF assms(2)] by (auto simp: TeamHandler_Create_def acct_only_view split: option.splits)
  then show ?thesis using assms(1) RqCreate by simp
next
  case (RqUpdate i b)
  then show ?thesis using assms(1)
    by (intro disjI1 with_team_entitled [of T env c i])
      (auto simp: TeamHandler_Update_def acct_only_view view_service_update split: option.splits)
next
  case (RqDelete i)
  have d: "team_view T (fst (run_call f (delete_team team) s)) = team_view T s" if "team \<noteq> T" for f team
    using that view_delete [of T team] by (cases f) (auto simp: delete_team_def team_view_def key_view_def intro!: arg_cong [of _ _ "map _"] view_intros)
  have "member_entitled env c T s"
    using assms(1) unfolding RqDelete dispatch.simps TeamHandler_Delete_def by (rule with_team_entitled) (simp_all add: d)
  then show ?thesis ..
next
  case (RqInvite i b)
  then show ?thesis using assms(1)
    by (intro disjI1 with_team_entitled [of T env c i])
      (auto simp: InviteMember_def acct_only_view view_service_invite split: option.splits)
next
  case (RqRevoke i v)
  have "acct_view T (fst (run_call f (RevokeInvitation now team j) a)) = acct_view T a" if "team \<noteq> T" for f now team j a
    using that by (intro run_call_view view_revoke) simp
  then show ?thesis using assms(1) RqRevoke
    by (intro disjI1 with_team_entitled [of T env c i])
      (auto simp: TeamHandler_RevokeInvitation_def acct_only_view split: option.splits)
next
  case (RqAccept b)
  then obtain token where b: "b = Some token" using assms(1) by (cases b) (auto simp: TeamHandler_AcceptInvitation_def split: option.splits if_splits)
  obtain user where u: "clRole c \<noteq> ''api_key''" "aeParseUUID env (clUserID c) = Some user"
    using assms(1) RqAccept by (auto simp: TeamHandler_AcceptInvitation_def split: option.splits if_splits)
  have "\<exists>v \<in> set (team_invitations (acct s)). ivTeamID v = T \<and> accept_where (aeNow env) (aeSHA env token) user (acct s) v"
    using assms(1) RqAccept b u
    by (intro view_service_accept [of T "aeFault env AcFirst" _ _ "aeFreshID env"]) (simp add: TeamHandler_AcceptInvitation_def acct_only_view)
  then show ?thesis using RqAccept b u by (auto simp: accepting_def)
next
  case (RqRemove i u)
  then show ?thesis using assms(1)
    by (intro disjI1 with_team_entitled [of T env c i])
      (auto simp: TeamHandler_RemoveMember_def acct_only_view view_service_member split: option.splits)
next
  case (RqRole i u b)
  then show ?thesis using assms(1)
    by (intro disjI1 with_team_entitled [of T env c i])
      (auto simp: TeamHandler_UpdateMemberRole_def acct_only_view view_service_member split: option.splits)
next
  case (RqCreateKey b)
  then have "team_view T (fst (APIKeyHandler_Create env (Some c) b s)) \<noteq> team_view T s" using assms(1) by simp
  then show ?thesis using key_requests [of T env c b s] by blast
next
  case (RqDeleteKey i)
  then have "team_view T (fst (APIKeyHandler_Delete env (Some c) i s)) \<noteq> team_view T s" using assms(1) by simp
  then show ?thesis using key_requests [of T env c _ s i] by blast
next
  case (RqGet i)
  have "fst (TeamHandler_GetByID env (Some c) i s) = s"
    unfolding TeamHandler_GetByID_def by (rule with_team_read_only) (simp split: sum.splits)
  then show ?thesis using assms(1) RqGet by simp
next
  case (RqListInvitations i)
  have "fst (TeamHandler_ListInvitations env (Some c) i s) = s"
    unfolding TeamHandler_ListInvitations_def by (rule with_team_read_only) (simp split: sum.splits)
  then show ?thesis using assms(1) RqListInvitations by simp
next
  case (RqMembers i)
  have "fst (TeamHandler_GetMembers env (Some c) i s) = s"
    unfolding TeamHandler_GetMembers_def by (rule with_team_read_only) (simp split: sum.splits)
  then show ?thesis using assms(1) RqMembers by simp
qed (use assms(1) in simp_all)

text \<open>C36: Nobody but an owner or admin of a team changes the team, its members, invitations or keys. A request
  that does so carries a token that was verified for a user who is at that moment an owner or
  admin member of this team; the one exception is a user who accepts a valid invitation
  to it. No API key can do it. Failing calls never widen what is allowed.\<close>

theorem only_entitled_change_team:
  assumes "\<And>i. aeParseUUID env (aeUUIDText env i) = Some i" and "by_key tmID T (teams (acct s)) \<noteq> None"
    and "team_view T (serve env rq op s) \<noteq> team_view T s"
  shows "entitled env rq T s \<or>
    (\<exists>token user v. op = RqAccept (Some token) \<and> authenticated env rq user \<and> v \<in> set (team_invitations (acct s)) \<and> ivTeamID v = T \<and>
       accept_where (aeNow env) (aeSHA env token) user (acct s) v)"
proof -
  obtain s1 r where auth: "AuthMiddleware env rq s = (s1, r)" by (metis surj_pair)
  note st = AuthMiddleware_state [OF auth]
  obtain c where r: "r = Inr c" using assms(3) auth st(2) by (cases r) (auto simp: serve_def)
  have claims: "clRole c = ''api_key'' \<or>
    (\<exists>token. rqAuthorization rq = ''Bearer '' @ token \<and> \<not> isPrefix ''re_'' token \<and> VerifySupabaseJWT env token = Some (clUserID c) \<and>
      (clTeamID c = [] \<and> clRole c = ''user'' \<or>
       (\<exists>user T m. aeParseUUID env (clUserID c) = Some user \<and> clTeamID c = aeUUIDText env T \<and>
          member_at (acct s) T user = Some m \<and> clRole c = mbRole m)))"
    using AuthMiddleware_claims auth r by simp
  have user: "authenticated env rq user" if "clRole c \<noteq> ''api_key''" "aeParseUUID env (clUserID c) = Some user" for user
    using claims that unfolding authenticated_def by blast
  have "team_view T (dispatch env (Some c) op s1) \<noteq> team_view T s1" "by_key tmID T (teams (acct s1)) \<noteq> None"
    using assms(2,3) auth r st by (simp_all add: serve_def)
  from dispatch_entitled [OF this] show ?thesis
  proof (elim disjE)
    assume "member_entitled env c T s1"
    then show ?thesis using user st(1) unfolding member_entitled_def entitled_def by metis
  next
    assume e: "claims_entitled env c T"
    then have "clRole c \<noteq> ''api_key''" "clRole c \<noteq> ''user''" "clTeamID c \<noteq> []" by (auto simp: claims_entitled_def role_defs)
    with claims obtain u T' m where m: "aeParseUUID env (clUserID c) = Some u" "clTeamID c = aeUUIDText env T'"
        "member_at (acct s) T' u = Some m" "clRole c = mbRole m" by blast
    then have "T' = T" using e assms(1) [of T'] by (simp add: claims_entitled_def)
    then show ?thesis using m e user \<open>clRole c \<noteq> ''api_key''\<close> unfolding entitled_def claims_entitled_def by metis
  next
    assume "accepting env c op T s1"
    then show ?thesis using user st(1) unfolding accepting_def by metis
  qed
qed

section \<open>Keys are never stored\<close>

text \<open>The endpoint that creates API keys never succeeds. The base64 text of 32 bytes has 43 characters, so the prefix
  of the key is ten characters and three dots, and the column holds ten: the insert is refused, the
  caller gets an internal error and no key exists.\<close>

theorem api_key_never_stored:
  assumes "\<And>bytes. aeRandom env = Some bytes \<Longrightarrow> length (aeB64 env bytes) = 43"
  shows "\<exists>r. APIKeyHandler_Create env c body s = (s, Inl r)"
proof -
  have "length p = 13" if gen: "GenerateAPIKey env = Some (raw, h, p)" for raw h p
  proof -
    obtain bytes where "aeRandom env = Some bytes" using gen by (auto simp: GenerateAPIKey_def split: option.splits)
    then show ?thesis using gen assms [of bytes] by (auto simp: GenerateAPIKey_def Let_def)
  qed
  then have "fst (run_call f (APIKeyRepo_Create now k) s) = s \<and> isl (snd (run_call f (APIKeyRepo_Create now k) s))"
    if "GenerateAPIKey env = Some (raw, h, akKeyPrefix k)" for f now k raw h
    using that by (cases f) (simp_all add: APIKeyRepo_Create_def key_prefix_width_def)
  then show ?thesis
    by (auto simp: APIKeyHandler_Create_def Let_def split: option.splits sum.splits prod.splits) (metis APIKey.select_convs(5) fst_conv isl_def snd_conv sum.disc(2))+
qed

section \<open>Examples\<close>

definition demo_access_env :: access_env where
  "demo_access_env = \<lparr>aeFault = (\<lambda>_. NoFault), aeNow = 7, aeJWT = Some, aeSHA = id, aeB64 = (\<lambda>_. replicate 43 (CHR ''a'')), aeRandom = Some [],
     aeFreshID = 5, aeFreshID2 = 6, aeParseUUID = (\<lambda>x. Some (length x)), aeUUIDText = (\<lambda>i. replicate i (CHR ''x'')),
     aeRunes = demo_runes, aeDBText = (\<lambda>_. [])\<rparr>"

definition demo_access :: access where
  "demo_access = \<lparr>acct = run_t id demo_team_ops (fresh_account demo_users empty_db), api_keys = []\<rparr>"

text \<open>The owner, user 7, renames team 9.\<close>

definition demo_rename :: "access" where
  "demo_rename = serve demo_access_env \<lparr>rqAuthorization = ''Bearer 1234567'', rqTeamID = []\<rparr> (RqUpdate ''123456789'' (Some (Some ''New''))) demo_access"

theorem only_entitled_change_team_witness:
  "entitled demo_access_env \<lparr>rqAuthorization = ''Bearer 1234567'', rqTeamID = []\<rparr> 9 demo_access"
proof -
  have run: "map_option tmName (by_key tmID 9 (teams (acct demo_rename))) \<noteq> map_option tmName (by_key tmID 9 (teams (acct demo_access))) \<and>
      (by_key tmID 9 (teams (acct demo_access)) = None) = False"
    by code_simp
  then have "team_view 9 demo_rename \<noteq> team_view 9 demo_access" by (auto simp: team_view_def acct_view_def)
  then show ?thesis
    using run only_entitled_change_team [of demo_access_env 9 demo_access "\<lparr>rqAuthorization = ''Bearer 1234567'', rqTeamID = []\<rparr>"
        "RqUpdate ''123456789'' (Some (Some ''New''))"]
    by (auto simp: demo_rename_def demo_access_env_def)
qed

theorem api_key_never_stored_witness:
  "\<exists>r. APIKeyHandler_Create demo_access_env
     (Some \<lparr>clTeamID = ''123456789'', clUserID = ''1234567'', clRole = ''owner'', clAPIKeyID = [], clPermissions = [], clPlan = []\<rparr>)
     (Some (''ci'', [])) demo_access = (demo_access, Inl r)"
  by (rule api_key_never_stored) (simp add: demo_access_env_def)

end
