(* ===== verification/RateLimiter.thy ===== *)
theory RateLimiter
  imports Access
begin

text \<open>
  \<open>pkg/middleware/ratelimit.go\<close>: the request limiter, a Redis script over a sorted set of request times
  with a sequence counter. Milliseconds are integers. It is shown equal to a reference limiter that remembers
  every admitted request and looks back one second.
\<close>

section \<open>The script\<close>

text \<open>The two keys of a caller: the sorted set with its members (time and sequence number) and expiry, the counter and
  its expiry.\<close>

record bucket =
  rlEntries :: "(int \<times> nat) list"
  rlEntriesExpire :: int
  rlSequence :: nat
  rlSequenceExpire :: int

definition empty_bucket :: bucket where
  "empty_bucket = \<lparr>rlEntries = [], rlEntriesExpire = 0, rlSequence = 0, rlSequenceExpire = 0\<rparr>"

definition rateLimitWindowMilliseconds :: int where
  "rateLimitWindowMilliseconds = 1000"

definition live_entries :: "int \<Rightarrow> bucket \<Rightarrow> (int \<times> nat) list" where
  "live_entries now b = (if rlEntriesExpire b \<le> now then [] else rlEntries b)"

definition live_sequence :: "int \<Rightarrow> bucket \<Rightarrow> nat" where
  "live_sequence now b = (if rlSequenceExpire b \<le> now then 0 else rlSequence b)"

text \<open>One clock in milliseconds stands for the time the process passes to the script and for the time of Redis, by which keys expire.\<close>

definition incrementRateLimit :: "int \<Rightarrow> nat \<Rightarrow> bucket \<Rightarrow> bucket \<times> nat \<times> int" where
  "incrementRateLimit now limit b =
     (let es = filter (\<lambda>e. fst e > now - rateLimitWindowMilliseconds) (live_entries now b); count = length es in
      if count \<ge> limit then
        (let retry = (if es = [] then rateLimitWindowMilliseconds
                      else max 1 (Min (fst ` set es) + rateLimitWindowMilliseconds - now))
         in (b\<lparr>rlEntries := es, rlEntriesExpire := now + rateLimitWindowMilliseconds + 1000\<rparr>, count + 1, - ((- retry) div 1000)))
      else
        (let q = live_sequence now b + 1 in
         (b\<lparr>rlEntries := (if (now, q) \<in> set es then es else es @ [(now, q)]), rlEntriesExpire := now + rateLimitWindowMilliseconds + 1000,
            rlSequence := q, rlSequenceExpire := now + rateLimitWindowMilliseconds + 1000\<rparr>, count + 1, 0)))"

section \<open>The middleware\<close>

definition rateLimitScope :: "string list \<Rightarrow> string" where
  "rateLimitScope scopes = (case scopes of [] \<Rightarrow> ''api'' | x # _ \<Rightarrow> if TrimSpace x \<noteq> [] then TrimSpace x else ''api'')"

definition getRateLimitKeyForScope :: "Claims option \<Rightarrow> string \<Rightarrow> string" where
  "getRateLimitKeyForScope c scope =
     (let prefix = ''ratelimit:'' @ scope @ '':'' in
      case c of
        None \<Rightarrow> prefix @ ''anonymous''
      | Some x \<Rightarrow> if clTeamID x \<noteq> [] then prefix @ ''team:'' @ clTeamID x
                  else if clUserID x \<noteq> [] then prefix @ ''user:'' @ clUserID x
                  else prefix @ ''anonymous'')"

definition getLimitForPlan :: "Claims option \<Rightarrow> nat" where
  "getLimitForPlan c =
     (case c of None \<Rightarrow> 10
      | Some x \<Rightarrow> if clTeamID x = [] then 10 else if clPlan x = ''pro'' then 50 else if clPlan x = ''scale'' then 200 else 10)"

datatype limit_answer = LimitPass | LimitExceeded int | LimitUnavailable

type_synonym limiter = "string \<Rightarrow> bucket"

definition rateLimit :: "bool \<Rightarrow> fault \<Rightarrow> string \<Rightarrow> (Claims option \<Rightarrow> nat) \<Rightarrow> int \<Rightarrow> Claims option \<Rightarrow> limiter \<Rightarrow> limiter \<times> limit_answer" where
  "rateLimit client f scope limitFor now c st =
     (if \<not> client then (st, LimitPass)
      else
        (let key = getRateLimitKeyForScope c scope; limit = limitFor c;
             out = incrementRateLimit now limit (st key); st' = st(key := fst out); count = fst (snd out); retry = snd (snd out)
         in case f of
              FailLost \<Rightarrow> (st, LimitUnavailable)
            | FailApplied \<Rightarrow> (st', LimitUnavailable)
            | NoFault \<Rightarrow> if count > limit then (st', LimitExceeded (max 1 retry)) else (st', LimitPass)))"

definition RateLimit :: "bool \<Rightarrow> fault \<Rightarrow> string list \<Rightarrow> int \<Rightarrow> Claims option \<Rightarrow> limiter \<Rightarrow> limiter \<times> limit_answer" where
  "RateLimit client f scopes = rateLimit client f (rateLimitScope scopes) getLimitForPlan"

definition RateLimitFixed :: "bool \<Rightarrow> fault \<Rightarrow> int \<Rightarrow> string list \<Rightarrow> int \<Rightarrow> Claims option \<Rightarrow> limiter \<Rightarrow> limiter \<times> limit_answer" where
  "RateLimitFixed client f limit scopes = rateLimit client f (rateLimitScope scopes) (\<lambda>_. nat (if limit < 1 then 1 else limit))"

section \<open>The reference\<close>

fun run_limiter :: "nat \<Rightarrow> bucket \<Rightarrow> int list \<Rightarrow> (int \<times> bool) list" where
  "run_limiter limit b [] = []"
| "run_limiter limit b (t # ts) =
     (let out = incrementRateLimit t limit b in (t, fst (snd out) \<le> limit) # run_limiter limit (fst out) ts)"

fun reference_limiter :: "nat \<Rightarrow> int list \<Rightarrow> int list \<Rightarrow> (int \<times> bool) list" where
  "reference_limiter limit adm [] = []"
| "reference_limiter limit adm (t # ts) =
     (let ok = length (filter (\<lambda>a. a > t - 1000) adm) < limit
      in (t, ok) # reference_limiter limit (if ok then adm @ [t] else adm) ts)"

definition tracks :: "int \<Rightarrow> int list \<Rightarrow> bucket \<Rightarrow> bool" where
  "tracks prev adm b \<longleftrightarrow>
     (\<forall>u \<ge> prev. filter (\<lambda>a. a > u - 1000) adm = filter (\<lambda>a. a > u - 1000) (map fst (rlEntries b))) \<and>
     (\<forall>e \<in> set (rlEntries b). fst e \<le> prev \<and> (fst e = prev \<longrightarrow> snd e \<le> rlSequence b \<and> prev < rlSequenceExpire b)) \<and>
     (rlEntries b \<noteq> [] \<longrightarrow> prev + 2000 \<le> rlEntriesExpire b)"

lemma live_window:
  assumes "tracks prev adm b" and "prev \<le> now"
  shows "map fst (filter (\<lambda>e. fst e > now - 1000) (live_entries now b)) = filter (\<lambda>a. a > now - 1000) adm"
proof -
  have "filter (\<lambda>a. a > now - 1000) (map fst (live_entries now b)) = filter (\<lambda>a. a > now - 1000) (map fst (rlEntries b))"
  proof (cases "rlEntriesExpire b \<le> now \<and> rlEntries b \<noteq> []")
    case True
    have "\<not> fst e > now - 1000" if "e \<in> set (rlEntries b)" for e
    proof -
      have "fst e \<le> prev" "prev + 2000 \<le> now" using assms(1) True that by (auto simp: tracks_def)
      then show ?thesis by simp
    qed
    then have "filter (\<lambda>a. a > now - 1000) (map fst (rlEntries b)) = []" by (auto simp: filter_empty_conv)
    then show ?thesis using True by (simp add: live_entries_def)
  qed (auto simp: live_entries_def)
  then show ?thesis using assms by (simp add: tracks_def filter_map o_def)
qed

lemma tracks_step:
  assumes "tracks prev adm b" and "prev \<le> now" and "incrementRateLimit now limit b = (b', n, retry)"
  shows "n \<le> limit \<longleftrightarrow> length (filter (\<lambda>a. a > now - 1000) adm) < limit"
    and "tracks now (if n \<le> limit then adm @ [now] else adm) b'"
proof -
  let ?es = "filter (\<lambda>e. fst e > now - 1000) (live_entries now b)"
  have win: "map fst ?es = filter (\<lambda>a. a > now - 1000) adm" by (rule live_window [OF assms(1,2)])
  then have len: "length ?es = length (filter (\<lambda>a. a > now - 1000) adm)" by (metis length_map)
  have n: "n = length ?es + 1" using assms(3)
    by (auto simp: incrementRateLimit_def Let_def rateLimitWindowMilliseconds_def split: if_splits)
  then show dec: "n \<le> limit \<longleftrightarrow> length (filter (\<lambda>a. a > now - 1000) adm) < limit" using len by auto
  have later: "filter (\<lambda>a. a > u - 1000) adm = filter (\<lambda>a. a > u - 1000) (map fst ?es)" if "u \<ge> now" for u
    unfolding win using that by (auto intro: filter_cong)
  have old: "fst e \<le> now" "fst e = now \<Longrightarrow> snd e \<le> live_sequence now b \<and> now < rlSequenceExpire b" if e: "e \<in> set ?es" for e
  proof -
    have mem: "e \<in> set (rlEntries b)" using e by (auto simp: live_entries_def split: if_splits)
    show "fst e \<le> now" using mem assms(1,2) unfolding tracks_def by fastforce
    show "snd e \<le> live_sequence now b \<and> now < rlSequenceExpire b" if "fst e = now"
    proof -
      have "prev = now" using mem assms(1,2) that unfolding tracks_def by fastforce
      then have "snd e \<le> rlSequence b \<and> now < rlSequenceExpire b" using mem assms(1) that unfolding tracks_def by blast
      then show ?thesis by (simp add: live_sequence_def)
    qed
  qed
  show "tracks now (if n \<le> limit then adm @ [now] else adm) b'"
  proof (cases "n \<le> limit")
    case False
    then have b': "b' = b\<lparr>rlEntries := ?es, rlEntriesExpire := now + 2000\<rparr>"
      using assms(3) n by (auto simp: incrementRateLimit_def Let_def rateLimitWindowMilliseconds_def split: if_splits)
    have "snd e \<le> rlSequence b" if "e \<in> set ?es" "fst e = now" for e
      using old(2) [OF that] by (auto simp: live_sequence_def split: if_splits)
    then show ?thesis using False later old by (auto simp: tracks_def b')
  next
    case True
    let ?q = "live_sequence now b + 1"
    have "(now, ?q) \<notin> set ?es"
    proof
      assume "(now, ?q) \<in> set ?es"
      then show False using old(2) [of "(now, ?q)"] by simp
    qed
    then have b': "b' = b\<lparr>rlEntries := ?es @ [(now, ?q)], rlEntriesExpire := now + 2000, rlSequence := ?q, rlSequenceExpire := now + 2000\<rparr>"
      using True assms(3) n by (auto simp: incrementRateLimit_def Let_def rateLimitWindowMilliseconds_def split: if_splits)
    have "snd e \<le> ?q" if "e \<in> set ?es" "fst e = now" for e using old(2) [OF that] by simp
    then show ?thesis using True later old by (auto simp: tracks_def b')
  qed
qed

lemma run_is_reference:
  assumes "tracks prev adm b" and "sorted (prev # ts)"
  shows "run_limiter limit b ts = reference_limiter limit adm ts"
  using assms
proof (induction ts arbitrary: prev adm b)
  case (Cons t ts)
  obtain b' n retry where out: "incrementRateLimit t limit b = (b', n, retry)" by (metis prod_cases3)
  have "prev \<le> t" "sorted (t # ts)" using Cons.prems(2) by auto
  note st = tracks_step [OF Cons.prems(1) \<open>prev \<le> t\<close> out]
  have "run_limiter limit b' ts = reference_limiter limit (if n \<le> limit then adm @ [t] else adm) ts"
    by (rule Cons.IH [OF st(2) \<open>sorted (t # ts)\<close>])
  then show ?case using out st(1) by (simp add: Let_def)
qed simp

section \<open>No window holds more than the limit\<close>

definition admitted :: "(int \<times> bool) list \<Rightarrow> int list" where
  "admitted outs = map fst (filter snd outs)"

definition within :: "nat \<Rightarrow> int list \<Rightarrow> bool" where
  "within limit adm \<longleftrightarrow> (\<forall>w. length (filter (\<lambda>a. w - 1000 < a \<and> a \<le> w) adm) \<le> limit)"

lemma within_step:
  assumes "within limit adm" and "\<forall>a \<in> set adm. a \<le> t" and "length (filter (\<lambda>a. a > t - 1000) adm) < limit"
  shows "within limit (adm @ [t])"
  unfolding within_def
proof
  fix w
  show "length (filter (\<lambda>a. w - 1000 < a \<and> a \<le> w) (adm @ [t])) \<le> limit"
  proof (cases "w - 1000 < t \<and> t \<le> w")
    case True
    have "length (filter (\<lambda>a. w - 1000 < a \<and> a \<le> w) adm) \<le> length (filter (\<lambda>a. a > t - 1000) adm)"
      using True by (induction adm) auto
    then show ?thesis using True assms(3) by simp
  next
    case False
    then show ?thesis using assms(1) by (auto simp: within_def)
  qed
qed

lemma reference_within:
  assumes "within limit adm" and "\<forall>a \<in> set adm. a \<le> prev" and "sorted (prev # ts)"
  shows "within limit (adm @ admitted (reference_limiter limit adm ts))"
  using assms
proof (induction ts arbitrary: prev adm)
  case (Cons t ts)
  have le: "\<forall>a \<in> set adm. a \<le> t" using Cons.prems(2,3) by fastforce
  show ?case
  proof (cases "length (filter (\<lambda>a. a > t - 1000) adm) < limit")
    case True
    have "within limit ((adm @ [t]) @ admitted (reference_limiter limit (adm @ [t]) ts))"
      using Cons.IH [OF within_step [OF Cons.prems(1) le True], of t] le Cons.prems(3) by simp
    then show ?thesis using True by (simp add: Let_def admitted_def)
  next
    case False
    then show ?thesis using Cons.IH [OF Cons.prems(1) le] Cons.prems(3) by (simp add: Let_def admitted_def)
  qed
qed (simp add: admitted_def)

text \<open>C37: The limiter is exact. For requests of one caller in the order of time it answers as the reference that
  remembers every admitted request: a request passes exactly when fewer than the limit passed in the second
  before it; so no window of one second ever holds more than the limit, and expiring keys and
  equal times make no difference.\<close>

theorem rate_limit_exact:
  assumes "sorted ts"
  shows "run_limiter limit empty_bucket ts = reference_limiter limit [] ts \<and>
    length (filter (\<lambda>a. w - 1000 < a \<and> a \<le> w) (admitted (run_limiter limit empty_bucket ts))) \<le> limit"
proof (cases ts)
  case (Cons t ts')
  have s: "sorted (t # ts)" using assms Cons by simp
  have "tracks t [] empty_bucket" by (simp add: tracks_def empty_bucket_def)
  then have eq: "run_limiter limit empty_bucket ts = reference_limiter limit [] ts" by (rule run_is_reference [OF _ s])
  moreover have "within limit ([] @ admitted (reference_limiter limit [] ts))"
    by (rule reference_within [OF _ _ s]) (simp_all add: within_def)
  ultimately show ?thesis by (simp add: within_def)
qed (simp add: admitted_def)

theorem rate_limit_exact_witness:
  "admitted (run_limiter 2 empty_bucket [5, 5, 5, 900, 1006]) = [5, 5, 1006]"
proof -
  have "run_limiter 2 empty_bucket [5, 5, 5, 900, 1006] = reference_limiter 2 [] [5, 5, 5, 900, 1006]"
    using rate_limit_exact [of "[5, 5, 5, 900, 1006]" 2] by simp
  then show ?thesis by (simp add: admitted_def)
qed

end
