(* ===== verification/Mailer.thy ===== *)
theory Mailer
  imports EmailProcessing
begin

text \<open>
  The SES adapter \<open>internal/mailer/ses.go\<close>: the request it builds from a message and how it reads the
  answers of the provider. The client of the provider is a parameter. The classification decides whether a message may
  be submitted again, so it is composed here with the processing of theory EmailProcessing.
\<close>

section \<open>The request\<close>

record ses_attachment =
  saFileName :: string
  saRawContent :: string
  saContentType :: string

record ses_input =
  siFrom :: string
  siTo :: "string list"
  siCC :: "string list"
  siBCC :: "string list"
  siReplyTo :: "string list"
  siSubject :: string
  siHTML :: "string option"
  siText :: "string option"
  siAttachments :: "ses_attachment list"
  siConfigSet :: "string option"
  siHeaders :: string_map
  siTags :: string_map

text \<open>\<open>filepath.Ext\<close>: from the last dot of the last path element.\<close>

definition Ext :: "string \<Rightarrow> string" where
  "Ext path =
     (let base = rev (takeWhile (\<lambda>c. c \<noteq> CHR ''/'') (rev path)); tail = rev (takeWhile (\<lambda>c. c \<noteq> CHR ''.'') (rev base))
      in if CHR ''.'' \<in> set base then CHR ''.'' # tail else [])"

record mailer_env =
  meConfigSet :: string
  meTypeByExtension :: "string \<Rightarrow> string"
  meIDText :: "uuid \<Rightarrow> string"

definition ses_input_of :: "mailer_env \<Rightarrow> Email \<Rightarrow> ses_input" where
  "ses_input_of env e =
     \<lparr>siFrom = eFrom e, siTo = eTo e, siCC = eCC e, siBCC = eBCC e, siReplyTo = eReplyTo e, siSubject = eSubject e,
      siHTML = (if eHTML e = [] then None else Some (eHTML e)), siText = (if eText e = [] then None else Some (eText e)),
      siAttachments = map (\<lambda>a. \<lparr>saFileName = attFilename a, saRawContent = attContent a,
        saContentType = (let t = meTypeByExtension env (Ext (attFilename a)) in if t = [] then ''application/octet-stream'' else t)\<rparr>) (eAttachments e),
      siConfigSet = (if meConfigSet env = [] then None else Some (meConfigSet env)),
      siHeaders = eHeaders e,
      siTags = (''sender_email_id'', meIDText env (eID e)) #
        (case eSendAttemptID e of None \<Rightarrow> [] | Some i \<Rightarrow> [(''sender_attempt_id'', meIDText env i)])\<rparr>"

section \<open>The answer\<close>

text \<open>An error of the client: whether it stems from an expired or cancelled context, its text, and code and fault when the
  provider answered.\<close>

record ses_failure =
  sfCanceled :: bool
  sfDeadline :: bool
  sfText :: string
  sfAPI :: "(string \<times> bool) option"

definition definitive_markers :: "string list" where
  "definitive_markers = [''messagerejected'', ''reject'', ''invalid'', ''validation'', ''badrequest'', ''notverified'',
     ''configuration'', ''accessdenied'', ''sendingpaused'', ''notfound'', ''account.suspended'']"

definition sesOutcomeUnknown :: "ses_failure \<Rightarrow> bool" where
  "sesOutcomeUnknown f =
     (if sfCanceled f \<or> sfDeadline f then True
      else case sfAPI f of
             None \<Rightarrow> True
           | Some (code, serverFault) \<Rightarrow>
               if serverFault then True
               else if list_ex (Contains (ToLower (TrimSpace code))) definitive_markers then False else True)"

definition contains_any :: "string \<Rightarrow> string list \<Rightarrow> bool" where
  "contains_any s ps \<longleftrightarrow> list_ex (Contains s) ps"

definition sesErrorDetails :: "ses_failure \<Rightarrow> bool \<times> int \<times> string \<times> string" where
  "sesErrorDetails f =
     (if sfCanceled f then (False, 0, [], ''context_canceled'')
      else case sfAPI f of
             None \<Rightarrow> (True, 451, ''4.3.0'', [])
           | Some (providerCode, _) \<Rightarrow>
               (let code = ToLower providerCode in
                if contains_any code [''throttl'', ''timeout'', ''unavailable'', ''internal''] then (True, 451, ''4.3.0'', providerCode)
                else if contains_any code [''too-many-requests'', ''toomanyrequests''] then (True, 421, ''4.7.0'', providerCode)
                else if contains_any code [''reject'', ''invalid'', ''notverified'', ''configuration'', ''accessdenied'', ''sendingpaused'']
                then (False, 554, ''5.7.1'', providerCode)
                else (True, 451, ''4.3.0'', providerCode)))"

definition SESMailer_Send :: "(ses_input \<Rightarrow> ses_failure + string option) \<Rightarrow> mailer_env \<Rightarrow> Email \<Rightarrow> send_error + string" where
  "SESMailer_Send client env e =
     (case client (ses_input_of env e) of
        Inl f \<Rightarrow>
          (case sesErrorDetails f of (retryable, smtpCode, enhanced, providerCode) \<Rightarrow>
             Inl (NewDeliveryErrorWithOutcomeDetails (Some (''ses send failed: '' @ sfText f)) retryable (sesOutcomeUnknown f) smtpCode enhanced providerCode))
      | Inr messageId \<Rightarrow>
          (case messageId of
             Some m \<Rightarrow> if TrimSpace m = []
               then Inl (NewDeliveryErrorWithOutcomeDetails (Some ''ses send returned no message id'') False True 0 [] ''missing_message_id'')
               else Inr m
           | None \<Rightarrow> Inl (NewDeliveryErrorWithOutcomeDetails (Some ''ses send returned no message id'') False True 0 [] ''missing_message_id'')))"

section \<open>When a message is submitted again\<close>

text \<open>The provider refused the request itself: it answered with a fault of the client and a code that names a
  refusal.\<close>

definition refused_by_provider :: "ses_failure \<Rightarrow> bool" where
  "refused_by_provider f \<longleftrightarrow> \<not> sfCanceled f \<and> \<not> sfDeadline f \<and>
     (\<exists>code. sfAPI f = Some (code, False) \<and> contains_any (ToLower (TrimSpace code)) definitive_markers)"

lemma known_outcome_refused: "\<not> sesOutcomeUnknown f \<Longrightarrow> refused_by_provider f"
  by (auto simp: sesOutcomeUnknown_def refused_by_provider_def contains_any_def split: if_splits option.splits)

lemma retry_only_after_refusal:
  assumes "\<not> may_be_out (SESMailer_Send client env e)"
  shows "\<exists>f. client (ses_input_of env e) = Inl f \<and> refused_by_provider f"
  using assms known_outcome_refused
  by (auto simp: SESMailer_Send_def may_be_out_def DeliveryOutcomeUnknown_def DeliveryErrorDetails_def NewDeliveryErrorWithOutcomeDetails_def
      split: sum.splits prod.splits option.splits if_splits)

text \<open>Codes that name a refusal but not one \<open>sesErrorDetails\<close> knows are retried as temporary failures, although the
  provider will refuse them again.\<close>

lemma refusals_retried:
  assumes "code \<in> {''BadRequestException'', ''NotFoundException'', ''ValidationException'', ''Account.Suspended''}"
  shows "sesErrorDetails \<lparr>sfCanceled = False, sfDeadline = False, sfText = t, sfAPI = Some (code, False)\<rparr> = (True, 451, ''4.3.0'', code) \<and>
    \<not> sesOutcomeUnknown \<lparr>sfCanceled = False, sfDeadline = False, sfText = t, sfAPI = Some (code, False)\<rparr>"
proof -
  have "list_all (\<lambda>code. let c = ToLower code in \<not> contains_any c [''throttl'', ''timeout'', ''unavailable'', ''internal''] \<and>
      \<not> contains_any c [''too-many-requests'', ''toomanyrequests''] \<and>
      \<not> contains_any c [''reject'', ''invalid'', ''notverified'', ''configuration'', ''accessdenied'', ''sendingpaused''] \<and>
      contains_any (ToLower (TrimSpace code)) definitive_markers)
      [''BadRequestException'', ''NotFoundException'', ''ValidationException'', ''Account.Suspended'']"
    by code_simp
  then show ?thesis using assms by (auto simp: sesErrorDetails_def sesOutcomeUnknown_def Let_def contains_any_def)
qed

text \<open>The mailer keeps the promise of processing. Let the provider have taken the messages of a run, where all that is
  assumed of it is that it did not take a message it refused with a fault of the client and a code that names
  a refusal. Then whatever the provider answered, a time-out, a server error, throttling or an answer without an
  identifier included, no later run submits the message again, short of an operator's replay.\<close>

theorem taken_message_not_resent:
  assumes "keyed eID (emails (wdb w))" and "penvParse env emailID = Some i"
    and "processFromQueueDurable env emailID w = (w', r)" and "wsent w' \<noteq> wsent w"
    and "penvSend env = SESMailer_Send client menv"
    and "\<And>inp f. client inp = Inl f \<Longrightarrow> refused_by_provider f \<Longrightarrow> \<not> took inp" and "\<And>e. took (ses_input_of menv e)"
    and "\<forall>op \<in> set ops. \<not> releases i (env_claim env i) op" and "penvParse env' emailID' = Some i"
  shows "wsent (fst (processFromQueueDurable env' emailID' (w'\<lparr>wdb := run_ops ops (wdb w')\<rparr>))) = wsent w'"
proof -
  have "\<forall>x. may_be_out (penvSend env x)" using assms(5-7) retry_only_after_refusal by metis
  then show ?thesis using handed_over_once [OF assms(1-4) _ assms(8,9)] by blast
qed

text \<open>A run whose submission times out.\<close>

definition demo_mailer :: mailer_env where
  "demo_mailer = \<lparr>meConfigSet = [], meTypeByExtension = (\<lambda>_. []), meIDText = (\<lambda>_. ''id'')\<rparr>"

definition demo_timeout :: proc_env where
  "demo_timeout = demo_env\<lparr>penvSend := SESMailer_Send (\<lambda>_. Inl \<lparr>sfCanceled = False, sfDeadline = True, sfText = [], sfAPI = None\<rparr>) demo_mailer\<rparr>"

lemma demo_timeout_run: "wsent (fst (processFromQueueDurable demo_timeout [] demo_world)) =
    [\<lparr>subEmail = 1, subAttempt = 2, subFence = 3\<rparr>]"
  by code_simp

theorem taken_message_not_resent_witness:
  "let w' = fst (processFromQueueDurable demo_timeout [] demo_world) in
   wsent (fst (processFromQueueDurable demo_env [] (w'\<lparr>wdb := run_ops [OpRecover 900] (wdb w')\<rparr>))) = wsent w'"
proof -
  let ?client = "\<lambda>_ :: ses_input. Inl \<lparr>sfCanceled = False, sfDeadline = True, sfText = [], sfAPI = None\<rparr> :: ses_failure + string option"
  obtain w' r where run: "processFromQueueDurable demo_timeout [] demo_world = (w', r)"
    by (cases "processFromQueueDurable demo_timeout [] demo_world")
  then have "wsent w' \<noteq> wsent demo_world" using demo_timeout_run by (auto simp: demo_world_def)
  moreover have "penvParse demo_timeout [] = Some 1" "penvParse demo_env [] = Some 1" "penvSend demo_timeout = SESMailer_Send ?client demo_mailer"
    by (simp_all add: demo_timeout_def demo_env_def)
  moreover have "\<forall>op \<in> set [OpRecover 900]. \<not> releases 1 (env_claim demo_timeout 1) op" by (simp add: releases_def)
  ultimately show ?thesis
    unfolding run Let_def fst_conv
    using taken_message_not_resent [OF demo_world_keyed _ run, of 1 ?client demo_mailer "\<lambda>_. True" "[OpRecover 900]" demo_env "[]"]
    by (auto simp: refused_by_provider_def)
qed

end
