(* ===== verification/Contacts.thy ===== *)
theory Contacts
  imports Access
begin

text \<open>
  Address books: \<open>internal/repository/contact_repo.go\<close>, \<open>internal/service/contact_service.go\<close> and
  \<open>internal/handler/contact_handler.go\<close>. A contact is unique per team and address without regard to
  case; an import is one transaction. Requests arrive decoded (\<open>None\<close> for a body that does not
  decode, the records of a CSV file as lists of fields). The operations are collected as \<open>contact_op\<close>, and the
  invariant of the table is proved for every sequence of them with every pattern of failing calls.
\<close>

section \<open>Repository\<close>

record CreateContactRequest =
  crEmail :: string
  crFirstName :: "string option"
  crLastName :: "string option"
  crSubscribed :: "bool option"
  crProperties :: "string_map option"

record UpdateContactRequest =
  uqEmail :: "string option"
  uqFirstName :: "string option"
  uqLastName :: "string option"
  uqSubscribed :: "bool option"
  uqProperties :: "string_map option"

text \<open>\<open>VARCHAR(n)\<close> counts characters: the bytes of UTF-8 text that do not continue one.\<close>

definition char_length :: "string \<Rightarrow> nat" where
  "char_length s = length (filter (\<lambda>c. \<not> (128 \<le> (of_char c :: nat) \<and> (of_char c :: nat) < 192)) s)"

definition too_long :: "Contact \<Rightarrow> bool" where
  "too_long c \<longleftrightarrow> char_length (ctEmail c) > 255 \<or>
     (case ctFirstName c of None \<Rightarrow> False | Some n \<Rightarrow> char_length n > 255) \<or>
     (case ctLastName c of None \<Rightarrow> False | Some n \<Rightarrow> char_length n > 255)"

definition same_contact :: "uuid \<Rightarrow> string \<Rightarrow> Contact \<Rightarrow> bool" where
  "same_contact team a c \<longleftrightarrow> ctTeamID c = team \<and> ToLower (ctEmail c) = ToLower a"

definition canonical :: "Contact \<Rightarrow> Contact" where
  "canonical c = c\<lparr>ctEmail := NormalizeEmail (ctEmail c)\<rparr>"

definition set_contacts :: "(Contact list \<Rightarrow> Contact list) \<Rightarrow> account \<Rightarrow> account" where
  "set_contacts f s = s\<lparr>adb := (adb s)\<lparr>contacts := f (contacts (adb s))\<rparr>\<rparr>"

definition insert_contact :: "instant \<Rightarrow> Contact \<Rightarrow> account \<Rightarrow> account result" where
  "insert_contact now c0 s =
     (let c = canonical c0 in
      if too_long c then Inl ValueTooLong
      else if list_ex (\<lambda>r. ctID r = ctID c \<or> same_contact (ctTeamID c) (ctEmail c) r) (contacts (adb s)) then Inl UniqueViolation
      else if by_key tmID (ctTeamID c) (teams s) = None then Inl ForeignKeyViolation
      else Inr (set_contacts (\<lambda>rows. rows @ [c\<lparr>ctCreatedAt := now, ctUpdatedAt := now\<rparr>]) s))"

definition ContactRepo_Create :: "instant \<Rightarrow> Contact \<Rightarrow> account \<Rightarrow> account \<times> unit result" where
  "ContactRepo_Create now c s = (case insert_contact now c s of Inl e \<Rightarrow> (s, Inl e) | Inr s' \<Rightarrow> (s', Inr ()))"

definition ContactRepo_GetByID :: "uuid \<Rightarrow> account \<Rightarrow> Contact result" where
  "ContactRepo_GetByID i s = (case by_key ctID i (contacts (adb s)) of None \<Rightarrow> Inl ErrNoRows | Some c \<Rightarrow> Inr c)"

definition ContactRepo_GetByIDForTeam :: "uuid \<Rightarrow> uuid \<Rightarrow> account \<Rightarrow> Contact result" where
  "ContactRepo_GetByIDForTeam team i s =
     (case find (\<lambda>c. ctID c = i \<and> ctTeamID c = team) (contacts (adb s)) of None \<Rightarrow> Inl ErrNoRows | Some c \<Rightarrow> Inr c)"

definition GetByEmail :: "uuid \<Rightarrow> string \<Rightarrow> account \<Rightarrow> Contact result" where
  "GetByEmail team a s =
     (case find (same_contact team (NormalizeEmail a)) (contacts (adb s)) of None \<Rightarrow> Inl ErrNoRows | Some c \<Rightarrow> Inr c)"

definition SetSubscribedByEmail :: "instant \<Rightarrow> uuid \<Rightarrow> string \<Rightarrow> bool \<Rightarrow> account \<Rightarrow> account \<times> bool result" where
  "SetSubscribedByEmail now team a sub s =
     (let p = same_contact team (NormalizeEmail a) in
      (set_contacts (sql_update p (\<lambda>c. c\<lparr>ctSubscribed := sub, ctUpdatedAt := now\<rparr>)) s,
       Inr (rows_affected p (contacts (adb s)) = 1)))"

record contact_page =
  cpData :: "Contact list"
  cpTotal :: nat
  cpLimit :: int
  cpOffset :: int

definition ContactRepo_List :: "uuid \<Rightarrow> int \<Rightarrow> int \<Rightarrow> account \<Rightarrow> contact_page" where
  "ContactRepo_List team limit offset s =
     (let rows = filter (\<lambda>c. ctTeamID c = team) (contacts (adb s)) in
      \<lparr>cpData = take (nat limit) (drop (nat offset) (sort_key (\<lambda>c. - ctCreatedAt c) rows)),
       cpTotal = length rows, cpLimit = limit, cpOffset = offset\<rparr>)"

text \<open>The update writes every column of the row it finds; the index on the address is checked against
  the other rows.\<close>

definition update_contact :: "(Contact \<Rightarrow> bool) \<Rightarrow> instant \<Rightarrow> Contact \<Rightarrow> account \<Rightarrow> account \<times> unit result" where
  "update_contact p now c0 s =
     (let c = canonical c0; rows = contacts (adb s) in
      if \<not> list_ex p rows then (s, Inr ())
      else if too_long c then (s, Inl ValueTooLong)
      else if list_ex (\<lambda>r. p r \<and> list_ex (\<lambda>q. ctID q \<noteq> ctID r \<and> same_contact (ctTeamID r) (ctEmail c) q) rows) rows
      then (s, Inl UniqueViolation)
      else (set_contacts (sql_update p (\<lambda>r. r\<lparr>ctEmail := ctEmail c, ctFirstName := ctFirstName c, ctLastName := ctLastName c,
              ctSubscribed := ctSubscribed c, ctProperties := ctProperties c, ctUpdatedAt := now\<rparr>)) s, Inr ()))"

definition ContactRepo_Update :: "instant \<Rightarrow> Contact \<Rightarrow> account \<Rightarrow> account \<times> unit result" where
  "ContactRepo_Update now c = update_contact (\<lambda>r. ctID r = ctID c) now c"

definition ContactRepo_UpdateForTeam :: "instant \<Rightarrow> Contact \<Rightarrow> account \<Rightarrow> account \<times> unit result" where
  "ContactRepo_UpdateForTeam now c = update_contact (\<lambda>r. ctID r = ctID c \<and> ctTeamID r = ctTeamID c) now c"

definition ContactRepo_Delete :: "uuid \<Rightarrow> account \<Rightarrow> account \<times> unit result" where
  "ContactRepo_Delete i s = (set_contacts (sql_delete (\<lambda>c. ctID c = i)) s, Inr ())"

definition ContactRepo_DeleteForTeam :: "uuid \<Rightarrow> uuid \<Rightarrow> account \<Rightarrow> account \<times> unit result" where
  "ContactRepo_DeleteForTeam team i s = (set_contacts (sql_delete (\<lambda>c. ctID c = i \<and> ctTeamID c = team)) s, Inr ())"

fun insert_all :: "instant \<Rightarrow> Contact list \<Rightarrow> account \<Rightarrow> account result" where
  "insert_all now [] s = Inr s"
| "insert_all now (c # cs) s = (case insert_contact now c s of Inl e \<Rightarrow> Inl e | Inr s' \<Rightarrow> insert_all now cs s')"

definition BulkCreate :: "instant \<Rightarrow> Contact list \<Rightarrow> account \<Rightarrow> account \<times> unit result" where
  "BulkCreate now cs s = (case insert_all now cs s of Inl e \<Rightarrow> (s, Inl e) | Inr s' \<Rightarrow> (s', Inr ()))"

section \<open>Service\<close>

datatype contact_error = ContactRefused string | ContactNotFound | ContactDB string db_error

definition requestSubscribed :: "CreateContactRequest \<Rightarrow> bool" where
  "requestSubscribed req = (case crSubscribed req of Some b \<Rightarrow> b | None \<Rightarrow> True)"

definition properties_of :: "string_map option \<Rightarrow> string_map" where
  "properties_of p = (case p of None \<Rightarrow> [] | Some m \<Rightarrow> m)"

definition contact_of :: "uuid \<Rightarrow> uuid \<Rightarrow> CreateContactRequest \<Rightarrow> Contact" where
  "contact_of i team req =
     \<lparr>ctID = i, ctTeamID = team, ctEmail = NormalizeEmail (crEmail req), ctFirstName = crFirstName req, ctLastName = crLastName req,
      ctSubscribed = requestSubscribed req, ctProperties = properties_of (crProperties req), ctCreatedAt = 0, ctUpdatedAt = 0\<rparr>"

text \<open>The error of the look-up before an insert is ignored: the index decides.\<close>

definition ContactService_Create ::
  "fault \<Rightarrow> fault \<Rightarrow> instant \<Rightarrow> uuid \<Rightarrow> uuid \<Rightarrow> CreateContactRequest option \<Rightarrow> account \<Rightarrow> account \<times> (contact_error + Contact)" where
  "ContactService_Create f g now i team reqp s =
     (case reqp of
        None \<Rightarrow> (s, Inl (ContactRefused ''contact request is required''))
      | Some req \<Rightarrow>
          if \<not> IsValidEmail (crEmail req) then (s, Inl (ContactRefused ''invalid contact email''))
          else case snd (run_call f (\<lambda>s. (s, GetByEmail team (NormalizeEmail (crEmail req)) s)) s) of
                 Inr _ \<Rightarrow> (s, Inl (ContactRefused (''contact with email '' @ NormalizeEmail (crEmail req) @ '' already exists'')))
               | Inl _ \<Rightarrow>
                   (case run_call g (ContactRepo_Create now (contact_of i team req)) s of
                      (s', Inl e) \<Rightarrow> (s', Inl (ContactDB ''failed to create contact: '' e))
                    | (s', Inr _) \<Rightarrow> (s', Inr (contact_of i team req))))"

definition ContactService_GetByID :: "fault \<Rightarrow> uuid \<Rightarrow> uuid \<Rightarrow> account \<Rightarrow> contact_error + Contact" where
  "ContactService_GetByID f team i s =
     (case snd (run_call f (\<lambda>s. (s, ContactRepo_GetByIDForTeam team i s)) s) of Inl _ \<Rightarrow> Inl ContactNotFound | Inr c \<Rightarrow> Inr c)"

definition ContactService_List :: "fault \<Rightarrow> uuid \<Rightarrow> int \<Rightarrow> int \<Rightarrow> account \<Rightarrow> contact_page result" where
  "ContactService_List f team limit0 offset0 s =
     (let limit1 = (if limit0 \<le> 0 then 50 else limit0); limit = (if limit1 > 100 then 100 else limit1);
          offset = (if offset0 < 0 then 0 else offset0)
      in snd (run_call f (\<lambda>s. (s, Inr (ContactRepo_List team limit offset s))) s))"

definition updated_contact :: "UpdateContactRequest \<Rightarrow> Contact \<Rightarrow> Contact" where
  "updated_contact req c =
     c\<lparr>ctEmail := (case uqEmail req of None \<Rightarrow> ctEmail c | Some a \<Rightarrow> NormalizeEmail a),
       ctFirstName := (case uqFirstName req of None \<Rightarrow> ctFirstName c | Some n \<Rightarrow> Some n),
       ctLastName := (case uqLastName req of None \<Rightarrow> ctLastName c | Some n \<Rightarrow> Some n),
       ctSubscribed := (case uqSubscribed req of None \<Rightarrow> ctSubscribed c | Some b \<Rightarrow> b),
       ctProperties := (case uqProperties req of None \<Rightarrow> ctProperties c | Some m \<Rightarrow> m)\<rparr>"

definition ContactService_Update ::
  "fault \<Rightarrow> fault \<Rightarrow> instant \<Rightarrow> uuid \<Rightarrow> uuid \<Rightarrow> UpdateContactRequest option \<Rightarrow> account \<Rightarrow> account \<times> (contact_error + Contact)" where
  "ContactService_Update f g now team i reqp s =
     (case reqp of
        None \<Rightarrow> (s, Inl (ContactRefused ''contact request is required''))
      | Some req \<Rightarrow>
          (case ContactService_GetByID f team i s of
             Inl e \<Rightarrow> (s, Inl e)
           | Inr c \<Rightarrow>
               if (case uqEmail req of None \<Rightarrow> False | Some a \<Rightarrow> \<not> IsValidEmail a) then (s, Inl (ContactRefused ''invalid contact email''))
               else case run_call g (ContactRepo_UpdateForTeam now (updated_contact req c)) s of
                      (s', Inl e) \<Rightarrow> (s', Inl (ContactDB ''failed to update contact: '' e))
                    | (s', Inr _) \<Rightarrow> (s', Inr (updated_contact req c))))"

definition ContactService_Delete :: "fault \<Rightarrow> uuid \<Rightarrow> uuid \<Rightarrow> account \<Rightarrow> account \<times> unit result" where
  "ContactService_Delete f team i s = run_call f (ContactRepo_DeleteForTeam team i) s"

text \<open>The loop over the requests of an import, which stops at the first one it refuses; each contact takes a
  fresh id.\<close>

fun import_contacts :: "uuid \<Rightarrow> uuid list \<Rightarrow> CreateContactRequest option list \<Rightarrow> contact_error + Contact list" where
  "import_contacts team ids [] = Inr []"
| "import_contacts team ids (r # rs) =
     (case r of
        None \<Rightarrow> Inl (ContactRefused ''contact request is required'')
      | Some req \<Rightarrow>
          if \<not> IsValidEmail (crEmail req) then Inl (ContactRefused (''invalid contact email: '' @ crEmail req))
          else case import_contacts team (tl ids) rs of
                 Inl e \<Rightarrow> Inl e
               | Inr cs \<Rightarrow> Inr (contact_of (case ids of [] \<Rightarrow> uuid_Nil | i # _ \<Rightarrow> i) team req # cs))"

definition ContactService_ImportCSV ::
  "fault \<Rightarrow> instant \<Rightarrow> uuid list \<Rightarrow> uuid \<Rightarrow> CreateContactRequest option list \<Rightarrow> account \<Rightarrow> account \<times> (contact_error + nat)" where
  "ContactService_ImportCSV f now ids team reqs s =
     (if length reqs > 10000 then (s, Inl (ContactRefused ''maximum 10000 contacts per import''))
      else case import_contacts team ids reqs of
             Inl e \<Rightarrow> (s, Inl e)
           | Inr cs \<Rightarrow>
               (case run_call f (BulkCreate now cs) s of
                  (s', Inl e) \<Rightarrow> (s', Inl (ContactDB ''failed to import contacts: '' e))
                | (s', Inr _) \<Rightarrow> (s', Inr (length cs))))"

section \<open>Endpoints\<close>

text \<open>\<open>fmt.Sscanf\<close> with \<open>%d\<close>: blanks, a sign and digits; what follows is left unread. A number that does not
  fit 64 bits is an error.\<close>

fun digits_value :: "int \<Rightarrow> string \<Rightarrow> int" where
  "digits_value v [] = v"
| "digits_value v (c # cs) = digits_value (10 * v + (int (of_char c) - 48)) cs"

definition parseInt :: "string \<Rightarrow> int option" where
  "parseInt s =
     (let t = dropWhile (\<lambda>c. is_space c \<and> of_char c \<noteq> (10::nat)) s;
          neg = (t \<noteq> [] \<and> hd t = CHR ''-'');
          u = (if t \<noteq> [] \<and> hd t \<in> set ''+-'' then tl t else t);
          ds = takeWhile is_digit u;
          v = (if neg then - digits_value 0 ds else digits_value 0 ds)
      in if ds = [] \<or> v < - (2 ^ 63) \<or> v \<ge> 2 ^ 63 then None else Some v)"

definition query_int :: "int \<Rightarrow> string \<Rightarrow> int" where
  "query_int dflt s = (if s = [] then dflt else case parseInt s of None \<Rightarrow> dflt | Some v \<Rightarrow> v)"

definition ParseBool :: "string \<Rightarrow> bool option" where
  "ParseBool s = (if s \<in> {''1'', ''t'', ''T'', ''true'', ''TRUE'', ''True''} then Some True
     else if s \<in> {''0'', ''f'', ''F'', ''false'', ''FALSE'', ''False''} then Some False else None)"

definition contact_error_text :: "access_env \<Rightarrow> contact_error \<Rightarrow> string" where
  "contact_error_text env e = (case e of ContactRefused t \<Rightarrow> t | ContactNotFound \<Rightarrow> ''contact not found'' | ContactDB lead d \<Rightarrow> lead @ aeDBText env d)"

definition ContactHandler_Create :: "access_env \<Rightarrow> Claims option \<Rightarrow> CreateContactRequest option \<Rightarrow> access \<Rightarrow> access \<times> (reply + Contact)" where
  "ContactHandler_Create env c body s =
     (case requireRoles c [''owner'', ''admin''] of
        Some r \<Rightarrow> (s, Inl r)
      | None \<Rightarrow>
          (case body of
             None \<Rightarrow> (s, Inl (writeError ''invalid request body'' 400))
           | Some req \<Rightarrow>
               (case getTeamID env c of
                  Inl r \<Rightarrow> (s, Inl r)
                | Inr team \<Rightarrow>
                    (case on_acct (ContactService_Create (aeFault env AcFirst) (aeFault env AcSecond) (aeNow env) (aeFreshID env) team (Some req)) s of
                       (s', Inl e) \<Rightarrow> (s', Inl (writeError (contact_error_text env e) 400))
                     | (s', Inr x) \<Rightarrow> (s', Inr x)))))"

definition ContactHandler_List :: "access_env \<Rightarrow> Claims option \<Rightarrow> string \<Rightarrow> string \<Rightarrow> access \<Rightarrow> reply + contact_page" where
  "ContactHandler_List env c limitText offsetText s =
     (case requirePermission c ''read'' of
        Some r \<Rightarrow> Inl r
      | None \<Rightarrow>
          (case getTeamID env c of
             Inl r \<Rightarrow> Inl r
           | Inr team \<Rightarrow>
               (case ContactService_List (aeFault env AcFirst) team (query_int 50 limitText) (query_int 0 offsetText) (acct s) of
                  Inl e \<Rightarrow> Inl (writeError (aeDBText env e) 500)
                | Inr page \<Rightarrow> Inr page)))"

definition ContactHandler_GetByID :: "access_env \<Rightarrow> Claims option \<Rightarrow> string \<Rightarrow> access \<Rightarrow> reply + Contact" where
  "ContactHandler_GetByID env c idText s =
     (case requirePermission c ''read'' of
        Some r \<Rightarrow> Inl r
      | None \<Rightarrow>
          (case getTeamID env c of
             Inl r \<Rightarrow> Inl r
           | Inr team \<Rightarrow>
               (case aeParseUUID env idText of
                  None \<Rightarrow> Inl (writeError ''invalid id'' 400)
                | Some i \<Rightarrow>
                    (case ContactService_GetByID (aeFault env AcFirst) team i (acct s) of
                       Inl _ \<Rightarrow> Inl (writeError ''contact not found'' 404)
                     | Inr x \<Rightarrow> Inr x))))"

definition ContactHandler_Update ::
  "access_env \<Rightarrow> Claims option \<Rightarrow> string \<Rightarrow> UpdateContactRequest option \<Rightarrow> access \<Rightarrow> access \<times> (reply + Contact)" where
  "ContactHandler_Update env c idText body s =
     (case requireRoles c [''owner'', ''admin''] of
        Some r \<Rightarrow> (s, Inl r)
      | None \<Rightarrow>
          (case getTeamID env c of
             Inl r \<Rightarrow> (s, Inl r)
           | Inr team \<Rightarrow>
               (case aeParseUUID env idText of
                  None \<Rightarrow> (s, Inl (writeError ''invalid id'' 400))
                | Some i \<Rightarrow>
                    (case body of
                       None \<Rightarrow> (s, Inl (writeError ''invalid request body'' 400))
                     | Some req \<Rightarrow>
                         (case on_acct (ContactService_Update (aeFault env AcFirst) (aeFault env AcSecond) (aeNow env) team i (Some req)) s of
                            (s', Inl e) \<Rightarrow> (s', Inl (writeError (contact_error_text env e) 400))
                          | (s', Inr x) \<Rightarrow> (s', Inr x))))))"

definition ContactHandler_Delete :: "access_env \<Rightarrow> Claims option \<Rightarrow> string \<Rightarrow> access \<Rightarrow> access \<times> (reply + unit)" where
  "ContactHandler_Delete env c idText s =
     (case requireRoles c [''owner'', ''admin''] of
        Some r \<Rightarrow> (s, Inl r)
      | None \<Rightarrow>
          (case getTeamID env c of
             Inl r \<Rightarrow> (s, Inl r)
           | Inr team \<Rightarrow>
               (case aeParseUUID env idText of
                  None \<Rightarrow> (s, Inl (writeError ''invalid id'' 400))
                | Some i \<Rightarrow>
                    (case on_acct (ContactService_Delete (aeFault env AcFirst) team i) s of
                       (s', Inl e) \<Rightarrow> (s', Inl (writeError (aeDBText env e) 500))
                     | (s', Inr _) \<Rightarrow> (s', Inr ())))))"

text \<open>The header of a file names its columns; of two columns with one name the later counts.\<close>

definition colIndex :: "string list \<Rightarrow> string \<Rightarrow> nat option" where
  "colIndex header name = map_of (rev (zip (map (\<lambda>h. ToLower (TrimSpace h)) header) [0..<length header])) name"

definition field_at :: "(string \<Rightarrow> nat option) \<Rightarrow> string \<Rightarrow> string list \<Rightarrow> string option" where
  "field_at col name row =
     (case col name of None \<Rightarrow> None
      | Some i \<Rightarrow> if i < length row \<and> TrimSpace (row ! i) \<noteq> [] then Some (TrimSpace (row ! i)) else None)"

text \<open>A row without an address is skipped; a value of \<open>subscribed\<close> that is no truth value ends the request.\<close>

fun csv_requests :: "(string \<Rightarrow> nat option) \<Rightarrow> string list list \<Rightarrow> reply + CreateContactRequest option list" where
  "csv_requests col [] = Inr []"
| "csv_requests col (row # rows) =
     (case field_at col ''email'' row of
        None \<Rightarrow> csv_requests col rows
      | Some a \<Rightarrow>
          (let put = (\<lambda>b. case csv_requests col rows of
               Inl r \<Rightarrow> Inl r
             | Inr reqs \<Rightarrow> Inr (Some \<lparr>crEmail = a, crFirstName = field_at col ''first_name'' row, crLastName = field_at col ''last_name'' row,
                 crSubscribed = b, crProperties = None\<rparr> # reqs)) in
           case field_at col ''subscribed'' row of
             None \<Rightarrow> put None
           | Some v \<Rightarrow> (case ParseBool v of
                         None \<Rightarrow> Inl (writeError ''csv subscribed values must be true or false'' 400)
                       | Some b \<Rightarrow> put (Some b))))"

datatype csv_body = NoForm | NoFile | BadCSV | Records "string list list"

definition ContactHandler_ImportCSV :: "access_env \<Rightarrow> uuid list \<Rightarrow> Claims option \<Rightarrow> csv_body \<Rightarrow> access \<Rightarrow> access \<times> (reply + nat)" where
  "ContactHandler_ImportCSV env ids c body s =
     (case requireRoles c [''owner'', ''admin''] of
        Some r \<Rightarrow> (s, Inl r)
      | None \<Rightarrow>
          (case getTeamID env c of
             Inl r \<Rightarrow> (s, Inl r)
           | Inr team \<Rightarrow>
               (case body of
                  NoForm \<Rightarrow> (s, Inl (writeError ''failed to parse form'' 400))
                | NoFile \<Rightarrow> (s, Inl (writeError ''file is required'' 400))
                | BadCSV \<Rightarrow> (s, Inl (writeError ''invalid csv format'' 400))
                | Records records \<Rightarrow>
                    if length records < 2 then (s, Inl (writeError ''csv must have header row and at least one data row'' 400))
                    else if length records - 1 > 10000 then (s, Inl (writeError ''maximum 10000 contacts per import'' 400))
                    else (let col = colIndex (hd records) in
                      if col ''email'' = None then (s, Inl (writeError ''csv must have an 'email' column'' 400))
                      else case csv_requests col (tl records) of
                             Inl r \<Rightarrow> (s, Inl r)
                           | Inr reqs \<Rightarrow>
                               (case on_acct (ContactService_ImportCSV (aeFault env AcFirst) (aeNow env) ids team reqs) s of
                                  (s', Inl e) \<Rightarrow> (s', Inl (writeError (contact_error_text env e) 400))
                                | (s', Inr n) \<Rightarrow> (s', Inr n))))))"

section \<open>The table stays well formed\<close>

text \<open>Lower case keeps an address valid: it changes no separator and no class of characters.\<close>

lemma lower_char_fixed:
  assumes "c \<in> set ''@.-_%+''"
  shows "lower_char d = c \<longleftrightarrow> d = c"
proof (cases "is_upper d")
  case True
  then have n: "65 \<le> (of_char d :: nat)" "(of_char d :: nat) \<le> 90" by (simp_all add: is_upper_def char_in_def)
  then have "of_char (lower_char d) = (of_char d + 32 :: nat)" by (simp add: lower_char_def of_char_of)
  moreover have "(of_char c :: nat) \<in> {64, 46, 45, 95, 37, 43}" using assms by auto
  ultimately show ?thesis using n by auto
next
  case False
  then show ?thesis by (auto simp: lower_char_def is_upper_def char_in_def)
qed

lemma split_at_map:
  assumes "\<And>d. f d = sep \<longleftrightarrow> d = sep"
  shows "split_at sep (map f s) = map (map f) (split_at sep s)"
proof (induction s)
  case (Cons c s)
  obtain w ws where "split_at sep s = w # ws" by (cases "split_at sep s") auto
  then show ?case using Cons assms [of c] by simp
qed simp

lemma is_letter_lower [simp]: "is_letter (lower_char c) = is_letter c"
  by (cases "is_upper c") (auto simp: lower_char_def is_letter_def is_upper_def is_lower_def char_in_def of_char_of)

lemma is_digit_lower [simp]: "is_digit (lower_char c) = is_digit c"
  by (cases "is_upper c") (auto simp: lower_char_def is_digit_def is_upper_def char_in_def of_char_of)

lemma lower_char_class: "local_char (lower_char c) = local_char c" "domain_char (lower_char c) = domain_char c"
  using lower_char_fixed [of _ c] by (auto simp: local_char_def domain_char_def)

lemma valid_email_lower:
  assumes "IsValidEmail s"
  shows "IsValidEmail (ToLower s)"
proof -
  have at: "split_at (CHR ''@'') (map lower_char s) = map (map lower_char) (split_at (CHR ''@'') s)" for s
    by (rule split_at_map) (rule lower_char_fixed, simp)
  have dot: "split_at (CHR ''.'') (map lower_char s) = map (map lower_char) (split_at (CHR ''.'') s)" for s
    by (rule split_at_map) (rule lower_char_fixed, simp)
  obtain l d where ld: "split_at (CHR ''@'') s = [l, d]" using assms
    by (auto simp: IsValidEmail_def emailRegex_def split: list.splits)
  have "\<not> ContainsAny (map lower_char s) CRLF"
  proof -
    have "is_letter c \<or> is_digit c \<or> c \<in> set ''._%+-@''" if "c \<in> set s" for c
      using valid_email_chars [OF assms] that by blast
    then have "\<not> is_space (lower_char c)" if "c \<in> set s" for c using that address_char_no_space by simp
    moreover have "is_space c" if "c \<in> set CRLF" for c using that by (auto simp: CRLF_def is_space_def)
    ultimately show ?thesis unfolding ContainsAny_def by (metis imageE list.set_map)
  qed
  with assms ld show ?thesis
    by (auto simp: IsValidEmail_def ToLower_def emailRegex_def ParseAddress_plain_def dot_atom_def at dot list_all_iff lower_char_class
        Let_def last_map)
qed

lemma valid_email_trim: "IsValidEmail s \<Longrightarrow> TrimSpace s = s"
  using valid_email_chars [of s] address_char_no_space by (blast intro: TrimSpace_no_space)

lemma valid_email_normal: "IsValidEmail s \<Longrightarrow> IsValidEmail (NormalizeEmail s)"
  by (simp add: NormalizeEmail_def valid_email_trim valid_email_lower)

definition contact_ok :: "Contact \<Rightarrow> bool" where
  "contact_ok c \<longleftrightarrow> IsValidEmail (ctEmail c) \<and> NormalizeEmail (ctEmail c) = ctEmail c \<and> \<not> too_long c"

definition book_ok :: "account \<Rightarrow> bool" where
  "book_ok s \<longleftrightarrow> keyed ctID (contacts (adb s)) \<and> keyed (\<lambda>c. (ctTeamID c, ctEmail c)) (contacts (adb s)) \<and>
     (\<forall>c \<in> set (contacts (adb s)). contact_ok c \<and> by_key tmID (ctTeamID c) (teams s) \<noteq> None)"

lemma lower_normal: "NormalizeEmail a = a \<Longrightarrow> ToLower a = a"
  by (metis NormalizeEmail_def ToLower_idem)

lemma set_contacts_simps [simp]:
  "contacts (adb (set_contacts f s)) = f (contacts (adb s))" "teams (set_contacts f s) = teams s"
  "suppressions (adb (set_contacts f s)) = suppressions (adb s)"
  by (simp_all add: set_contacts_def)

lemma insert_contact_ok:
  assumes "book_ok s" and "insert_contact now c s = Inr s'" and "IsValidEmail (ctEmail c)"
  shows "book_ok s'"
proof -
  let ?c = "(canonical c)\<lparr>ctCreatedAt := now, ctUpdatedAt := now\<rparr>"
  have s': "s' = set_contacts (\<lambda>rows. rows @ [?c]) s" and long: "\<not> too_long (canonical c)"
    and new: "\<forall>r \<in> set (contacts (adb s)). ctID r \<noteq> ctID c \<and> \<not> same_contact (ctTeamID c) (NormalizeEmail (ctEmail c)) r"
    and team: "by_key tmID (ctTeamID c) (teams s) \<noteq> None"
    using assms(2) by (auto simp: insert_contact_def Let_def canonical_def list_ex_iff split: if_splits)
  have "contact_ok ?c" using long valid_email_normal [OF assms(3)] by (simp add: contact_ok_def canonical_def too_long_def)
  moreover have "(ctTeamID c, NormalizeEmail (ctEmail c)) \<notin> (\<lambda>r. (ctTeamID r, ctEmail r)) ` set (contacts (adb s))"
    using new by (auto simp: same_contact_def)
  ultimately show ?thesis using assms(1) new team unfolding s'
    by (simp add: book_ok_def keyed_append_one by_key_None_iff canonical_def) (auto simp: image_iff)
qed

lemma insert_all_ok:
  "book_ok s \<Longrightarrow> insert_all now cs s = Inr s' \<Longrightarrow> (\<And>c. c \<in> set cs \<Longrightarrow> IsValidEmail (ctEmail c)) \<Longrightarrow> book_ok s'"
proof (induction cs arbitrary: s)
  case (Cons c cs)
  then obtain s1 where "insert_contact now c s = Inr s1" "insert_all now cs s1 = Inr s'" by (auto split: sum.splits)
  with Cons insert_contact_ok [of s now c s1] show ?case by (metis list.set_intros)
qed simp

lemma update_contact_ok:
  assumes ok: "book_ok s" and v: "IsValidEmail (ctEmail c)" and p: "\<And>r. p r \<Longrightarrow> ctID r = ctID c"
  shows "book_ok (fst (update_contact p now c s))"
proof (cases "fst (update_contact p now c s) = s")
  case False
  let ?rows = "contacts (adb s)"
  let ?f = "\<lambda>r. r\<lparr>ctEmail := NormalizeEmail (ctEmail c), ctFirstName := ctFirstName c, ctLastName := ctLastName c,
              ctSubscribed := ctSubscribed c, ctProperties := ctProperties c, ctUpdatedAt := now\<rparr>"
  have long: "\<not> too_long (canonical c)"
    and free: "\<And>r q. r \<in> set ?rows \<Longrightarrow> p r \<Longrightarrow> q \<in> set ?rows \<Longrightarrow> ctID q \<noteq> ctID r \<Longrightarrow> \<not> same_contact (ctTeamID r) (NormalizeEmail (ctEmail c)) q"
    and s': "fst (update_contact p now c s) = set_contacts (sql_update p ?f) s"
    using False by (auto simp: update_contact_def Let_def canonical_def list_ex_iff split: if_splits)
  have id: "keyed ctID (sql_update p ?f ?rows)" using ok by (intro keyed_sql_update) (simp_all add: book_ok_def)
  have key: "keyed (\<lambda>c. (ctTeamID c, ctEmail c)) (sql_update p ?f ?rows)"
  proof -
    have inj: "inj_on (\<lambda>r. (ctTeamID r, ctEmail r)) (set ?rows)" "distinct ?rows" "inj_on ctID (set ?rows)"
      using ok by (simp_all add: book_ok_def keyed_def distinct_map)
    have no: "r = q" if "r \<in> set ?rows" "q \<in> set ?rows" "p r" "ctTeamID q = ctTeamID r" "ctEmail q = NormalizeEmail (ctEmail c)" for r q
      using free [OF that(1,3,2)] that inj(3) by (auto simp: same_contact_def inj_on_def)
    have "inj_on (\<lambda>r. (ctTeamID (if p r then ?f r else r), ctEmail (if p r then ?f r else r))) (set ?rows)"
    proof (rule inj_onI)
      fix r q
      assume *: "r \<in> set ?rows" "q \<in> set ?rows"
        "(ctTeamID (if p r then ?f r else r), ctEmail (if p r then ?f r else r)) = (ctTeamID (if p q then ?f q else q), ctEmail (if p q then ?f q else q))"
      have one: "r = q" if "p r" "p q" using p [OF that(1)] p [OF that(2)] * inj(3) by (simp add: inj_on_def)
      have two: "r = q" if "p r" "\<not> p q" using no [of r q] * that by simp
      have three: "r = q" if "\<not> p r" "p q" using no [of q r] * that by simp
      have four: "r = q" if "\<not> p r" "\<not> p q" using * that inj(1) by (simp add: inj_on_def)
      show "r = q" using one two three four by blast
    qed
    then show ?thesis using inj(2) by (simp add: keyed_def sql_update_def distinct_map comp_inj_on_iff o_def)
  qed
  have "contact_ok (?f r)" for r using long valid_email_normal [OF v] by (simp add: contact_ok_def canonical_def too_long_def)
  then show ?thesis using ok id key unfolding s' by (auto simp: book_ok_def in_sql_update)
qed (use ok in simp)

text \<open>The requests that change the book.\<close>

datatype contact_op =
    CoCreate "CreateContactRequest option" | CoUpdate string "UpdateContactRequest option" | CoDelete string | CoImport "uuid list" csv_body

fun exec_c :: "access_env \<Rightarrow> Claims option \<Rightarrow> contact_op \<Rightarrow> access \<Rightarrow> access" where
  "exec_c env c (CoCreate b) s = fst (ContactHandler_Create env c b s)"
| "exec_c env c (CoUpdate i b) s = fst (ContactHandler_Update env c i b s)"
| "exec_c env c (CoDelete i) s = fst (ContactHandler_Delete env c i s)"
| "exec_c env c (CoImport ids b) s = fst (ContactHandler_ImportCSV env ids c b s)"

fun run_c :: "(access_env \<times> Claims option \<times> contact_op) list \<Rightarrow> access \<Rightarrow> access" where
  "run_c [] s = s"
| "run_c ((env, c, op) # steps) s = run_c steps (exec_c env c op s)"

text \<open>What an endpoint can do to the state: nothing, or what the service does for the team of an owner or admin.\<close>

definition service_step :: "uuid \<Rightarrow> account \<Rightarrow> account \<Rightarrow> bool" where
  "service_step team a b \<longleftrightarrow> b = a \<or>
     (\<exists>g now i req. IsValidEmail (crEmail req) \<and> b = fst (run_call g (ContactRepo_Create now (contact_of i team req)) a)) \<or>
     (\<exists>g now i req c. ContactRepo_GetByIDForTeam team i a = Inr c \<and> (\<forall>e. uqEmail req = Some e \<longrightarrow> IsValidEmail e) \<and>
        b = fst (run_call g (ContactRepo_UpdateForTeam now (updated_contact req c)) a)) \<or>
     (\<exists>g i. b = fst (run_call g (ContactRepo_DeleteForTeam team i) a)) \<or>
     (\<exists>g now ids reqs cs. import_contacts team ids reqs = Inr cs \<and> b = fst (run_call g (BulkCreate now cs) a))"

lemma service_create_step: "service_step team a (fst (ContactService_Create f g now i team req a))"
  by (auto simp: ContactService_Create_def service_step_def split: option.splits sum.splits prod.splits)
    (metis fst_conv)+

lemma service_update_step: "service_step team a (fst (ContactService_Update f g now team i req a))"
proof (cases "fst (ContactService_Update f g now team i req a) = a")
  case False
  then obtain r c where r: "req = Some r" "ContactService_GetByID f team i a = Inr c" "\<forall>e. uqEmail r = Some e \<longrightarrow> IsValidEmail e"
    by (auto simp: ContactService_Update_def split: option.splits sum.splits if_splits)
  then have "ContactRepo_GetByIDForTeam team i a = Inr c"
    by (cases f) (auto simp: ContactService_GetByID_def split: sum.splits)
  moreover have "fst (ContactService_Update f g now team i req a) = fst (run_call g (ContactRepo_UpdateForTeam now (updated_contact r c)) a)"
    using r by (auto simp: ContactService_Update_def split: option.splits sum.splits prod.splits)
  ultimately show ?thesis using r(3) unfolding service_step_def by blast
qed (simp add: service_step_def)

lemma service_import_step: "service_step team a (fst (ContactService_ImportCSV f now ids team reqs a))"
proof (cases "fst (ContactService_ImportCSV f now ids team reqs a) = a")
  case False
  then obtain cs where "import_contacts team ids reqs = Inr cs"
      "fst (ContactService_ImportCSV f now ids team reqs a) = fst (run_call f (BulkCreate now cs) a)"
    by (auto simp: ContactService_ImportCSV_def split: sum.splits prod.splits if_splits)
  then show ?thesis unfolding service_step_def by blast
qed (simp add: service_step_def)

lemma exec_c_cases:
  "exec_c env c op s = s \<or>
   (\<exists>team b. HasAnyRole c [''owner'', ''admin''] \<and> getTeamID env c = Inr team \<and> exec_c env c op s = s\<lparr>acct := b\<rparr> \<and>
      service_step team (acct s) b)"
proof -
  have del: "service_step team (acct s) (fst (ContactService_Delete f team i (acct s)))" for f team i
    unfolding service_step_def ContactService_Delete_def by blast
  show ?thesis
  proof (cases "exec_c env c op s = s")
    case False
    then have role: "requireRoles c [''owner'', ''admin''] = None"
      by (cases op) (auto simp: ContactHandler_Create_def ContactHandler_Update_def ContactHandler_Delete_def ContactHandler_ImportCSV_def split: option.splits)
    obtain team where team: "getTeamID env c = Inr team" using False role
      by (cases op) (auto simp: ContactHandler_Create_def ContactHandler_Update_def ContactHandler_Delete_def ContactHandler_ImportCSV_def split: option.splits sum.splits)
    have "\<exists>b. exec_c env c op s = s\<lparr>acct := b\<rparr> \<and> service_step team (acct s) b"
    proof (cases op)
      case (CoCreate b)
      then show ?thesis using False role team service_create_step
        by (auto simp: ContactHandler_Create_def split: option.splits sum.splits prod.splits dest!: arg_cong [where f = fst])
    next
      case (CoUpdate i b)
      then show ?thesis using False role team service_update_step
        by (auto simp: ContactHandler_Update_def split: option.splits sum.splits prod.splits dest!: arg_cong [where f = fst])
    next
      case (CoDelete i)
      then show ?thesis using False role team del
        by (auto simp: ContactHandler_Delete_def split: option.splits sum.splits prod.splits dest!: arg_cong [where f = fst])
    next
      case (CoImport ids b)
      then show ?thesis using False role team service_import_step
        by (auto simp: ContactHandler_ImportCSV_def Let_def split: option.splits sum.splits prod.splits csv_body.splits if_splits dest!: arg_cong [where f = fst])
    qed
    then show ?thesis using role team by (auto simp: requireRoles_def split: option.splits if_splits)
  qed simp
qed

lemma import_contacts_valid:
  "import_contacts team ids reqs = Inr cs \<Longrightarrow> c \<in> set cs \<Longrightarrow> IsValidEmail (ctEmail c) \<and> ctTeamID c = team"
  by (induction team ids reqs arbitrary: cs rule: import_contacts.induct)
    (auto simp: contact_of_def valid_email_normal split: option.splits if_splits sum.splits)

lemma GetByIDForTeam_row:
  assumes "ContactRepo_GetByIDForTeam team i s = Inr c"
  shows "c \<in> set (contacts (adb s)) \<and> ctTeamID c = team"
  using assms by (auto simp: ContactRepo_GetByIDForTeam_def find_Some_iff in_set_conv_nth split: option.splits)

lemma book_ok_delete: "book_ok s \<Longrightarrow> book_ok (set_contacts (sql_delete p) s)"
  by (simp add: book_ok_def keyed_sql_delete) (simp add: sql_delete_def)

lemma service_step_ok:
  assumes "service_step team a b" and "book_ok a"
  shows "book_ok b"
  using assms(1) unfolding service_step_def
proof (elim disjE exE conjE)
  fix g now i req
  assume v: "IsValidEmail (crEmail req)" and b: "b = fst (run_call g (ContactRepo_Create now (contact_of i team req)) a)"
  have "book_ok (fst (ContactRepo_Create now (contact_of i team req) a))"
    using insert_contact_ok [OF assms(2), of now "contact_of i team req"] valid_email_normal [OF v] assms(2)
    by (auto simp: ContactRepo_Create_def contact_of_def split: sum.splits)
  then show ?thesis unfolding b by (rule run_call_keeps [where P = book_ok, OF assms(2)])
next
  fix g now i req c
  assume c: "ContactRepo_GetByIDForTeam team i a = Inr c" and v: "\<forall>e. uqEmail req = Some e \<longrightarrow> IsValidEmail e"
    and b: "b = fst (run_call g (ContactRepo_UpdateForTeam now (updated_contact req c)) a)"
  have "IsValidEmail (ctEmail c)" using GetByIDForTeam_row [OF c] assms(2) by (auto simp: book_ok_def contact_ok_def)
  then have "IsValidEmail (ctEmail (updated_contact req c))" using v valid_email_normal by (auto simp: updated_contact_def split: option.splits)
  then have "book_ok (fst (ContactRepo_UpdateForTeam now (updated_contact req c) a))"
    unfolding ContactRepo_UpdateForTeam_def by (intro update_contact_ok assms(2)) simp_all
  then show ?thesis unfolding b by (rule run_call_keeps [where P = book_ok, OF assms(2)])
next
  fix g i
  assume b: "b = fst (run_call g (ContactRepo_DeleteForTeam team i) a)"
  have "book_ok (fst (ContactRepo_DeleteForTeam team i a))" using assms(2) by (simp add: ContactRepo_DeleteForTeam_def book_ok_delete)
  then show ?thesis unfolding b by (rule run_call_keeps [where P = book_ok, OF assms(2)])
next
  fix g now ids reqs cs
  assume cs: "import_contacts team ids reqs = Inr cs" and b: "b = fst (run_call g (BulkCreate now cs) a)"
  have "book_ok (fst (BulkCreate now cs a))"
    using insert_all_ok [OF assms(2), of now cs] import_contacts_valid [OF cs] assms(2) by (auto simp: BulkCreate_def split: sum.splits)
  then show ?thesis unfolding b by (rule run_call_keeps [where P = book_ok, OF assms(2)])
qed (use assms(2) in simp)

text \<open>C32: The address book is well formed at every moment: through any sequence of requests to the contact
  endpoints, with every pattern of failing calls, no team has two contacts for one address in any spelling,
  every address is valid, canonical and fits its column, and every contact belongs to a team that exists.\<close>

theorem address_book_ok:
  assumes "book_ok (acct s)"
  shows "book_ok (acct (run_c steps s))"
  using assms
proof (induction steps s rule: run_c.induct)
  case (2 env c op steps s)
  have "book_ok (acct (exec_c env c op s))" using exec_c_cases [of env c op s] service_step_ok 2(2) by auto
  with 2 show ?case by simp
qed simp

section \<open>Teams do not touch each other's contacts\<close>

definition book_of :: "uuid \<Rightarrow> account \<Rightarrow> Contact list" where
  "book_of team s = filter (\<lambda>c. ctTeamID c = team) (contacts (adb s))"

lemma insert_contact_book: "insert_contact now c s = Inr s' \<Longrightarrow> ctTeamID c \<noteq> T \<Longrightarrow> book_of T s' = book_of T s"
  by (auto simp: insert_contact_def Let_def book_of_def canonical_def split: if_splits)

lemma insert_all_book: "insert_all now cs s = Inr s' \<Longrightarrow> (\<And>c. c \<in> set cs \<Longrightarrow> ctTeamID c \<noteq> T) \<Longrightarrow> book_of T s' = book_of T s"
proof (induction cs arbitrary: s)
  case (Cons c cs)
  then obtain s1 where "insert_contact now c s = Inr s1" "insert_all now cs s1 = Inr s'" by (auto split: sum.splits)
  with Cons insert_contact_book [of now c s s1 T] show ?case by (metis list.set_intros)
qed simp

lemma service_step_book:
  assumes "service_step team a b" and "T \<noteq> team"
  shows "book_of T b = book_of T a"
proof -
  have keep: "book_of T (fst (run_call g f a)) = book_of T a" if "book_of T (fst (f a)) = book_of T a" for g and f :: "account \<Rightarrow> account \<times> unit result"
    using that run_call_state [of g f a] by auto
  have 1: "book_of T (fst (ContactRepo_Create now (contact_of i team req) a)) = book_of T a" for now i req
    using insert_contact_book [of now "contact_of i team req" a _ T] assms(2) by (auto simp: ContactRepo_Create_def contact_of_def split: sum.splits)
  have 2: "book_of T (fst (ContactRepo_UpdateForTeam now (updated_contact req c) a)) = book_of T a"
    if "ContactRepo_GetByIDForTeam team i a = Inr c" for now req c i
  proof -
    have team: "ctTeamID (updated_contact req c) = team" using GetByIDForTeam_row [OF that] by (simp add: updated_contact_def)
    show ?thesis unfolding ContactRepo_UpdateForTeam_def update_contact_def Let_def team book_of_def
      using assms(2) by (auto intro!: filter_sql_update_other)
  qed
  have 3: "book_of T (fst (ContactRepo_DeleteForTeam team i a)) = book_of T a" for i
    using assms(2) by (auto simp: ContactRepo_DeleteForTeam_def book_of_def sql_delete_def intro!: filter_cong)
  have 4: "book_of T (fst (BulkCreate now cs a)) = book_of T a" if "import_contacts team ids reqs = Inr cs" for now ids reqs cs
    using insert_all_book [of now cs a _ T] import_contacts_valid [OF that] assms(2) by (auto simp: BulkCreate_def split: sum.splits)
  show ?thesis using assms(1) keep 1 2 3 4 unfolding service_step_def by (elim disjE exE conjE) simp_all
qed

text \<open>A request changes the contacts of a team only when its caller has the role of an owner or admin and
  names this team in its claims; API keys and plain members change no contact.\<close>

theorem contacts_stay_in_team:
  assumes "book_of T (acct (exec_c env c op s)) \<noteq> book_of T (acct s)"
  shows "HasAnyRole c [''owner'', ''admin''] \<and> getTeamID env c = Inr T"
  using exec_c_cases [of env c op s] service_step_book [of _ "acct s" _ T] assms by fastforce

section \<open>Imports\<close>

lemma insert_all_rows:
  "insert_all now cs s = Inr s' \<Longrightarrow> contacts (adb s') = contacts (adb s) @ map (\<lambda>c. (canonical c)\<lparr>ctCreatedAt := now, ctUpdatedAt := now\<rparr>) cs"
proof (induction cs arbitrary: s)
  case (Cons c cs)
  then obtain s1 where s1: "insert_contact now c s = Inr s1" "insert_all now cs s1 = Inr s'" by (auto split: sum.splits)
  then have "contacts (adb s1) = contacts (adb s) @ [(canonical c)\<lparr>ctCreatedAt := now, ctUpdatedAt := now\<rparr>]"
    by (auto simp: insert_contact_def Let_def split: if_splits)
  with Cons.IH [OF s1(2)] show ?case by simp
qed simp

lemma contact_of_canonical [simp]: "canonical (contact_of i team req) = contact_of i team req"
  by (simp add: canonical_def contact_of_def)

lemma import_contacts_rows:
  "import_contacts team ids reqs = Inr cs \<Longrightarrow> length cs = length reqs \<and> map canonical cs = cs \<and>
     (\<forall>k < length reqs. \<exists>i req. reqs ! k = Some req \<and> cs ! k = contact_of i team req)"
proof (induction team ids reqs arbitrary: cs rule: import_contacts.induct)
  case (2 team ids r rs)
  then obtain req cs' where c: "r = Some req" "IsValidEmail (crEmail req)" "import_contacts team (tl ids) rs = Inr cs'"
      "cs = contact_of (case ids of [] \<Rightarrow> uuid_Nil | i # _ \<Rightarrow> i) team req # cs'"
    by (auto split: option.splits if_splits sum.splits)
  note ih = "2.IH" [OF c(1) _ c(3)]
  have "\<exists>i q. (r # rs) ! k = Some q \<and> cs ! k = contact_of i team q" if "k < length (r # rs)" for k
    using ih c that by (cases k) auto
  then show ?case using ih c by auto
qed simp

text \<open>An import is all or nothing: an answer with a count means that exactly one contact per request, in their
  order, was added behind the existing ones; after an error that came from a check or from the database the book
  is untouched; and when the connection broke it is one of the two.\<close>

theorem import_all_or_nothing:
  assumes "ContactService_ImportCSV f now ids team reqs s = (s', r)"
  shows "s' = s \<and> isl r \<or>
    (\<exists>cs. contacts (adb s') = contacts (adb s) @ map (\<lambda>c. c\<lparr>ctCreatedAt := now, ctUpdatedAt := now\<rparr>) cs \<and> length cs = length reqs \<and>
       (\<forall>k < length reqs. \<exists>i req. reqs ! k = Some req \<and> cs ! k = contact_of i team req) \<and>
       (r = Inr (length reqs) \<or> f = FailApplied))"
proof (cases "s' = s \<and> isl r")
  case False
  then obtain cs where cs: "import_contacts team ids reqs = Inr cs" and run: "fst (run_call f (BulkCreate now cs) s) = s'"
    and r: "(\<exists>e. snd (run_call f (BulkCreate now cs) s) = Inl e) \<or> r = Inr (length cs)"
    using assms by (auto simp: ContactService_ImportCSV_def split: if_splits sum.splits prod.splits)
  note rows = import_contacts_rows [OF cs]
  obtain s1 where s1: "insert_all now cs s = Inr s1" "s' = s1" "r = Inr (length reqs) \<or> f = FailApplied"
    using False run r assms cs rows by (cases f) (auto simp: ContactService_ImportCSV_def BulkCreate_def split: sum.splits if_splits)
  have "map (\<lambda>c. (canonical c)\<lparr>ctCreatedAt := now, ctUpdatedAt := now\<rparr>) cs = map (\<lambda>c. c\<lparr>ctCreatedAt := now, ctUpdatedAt := now\<rparr>) (map canonical cs)"
    by simp
  then show ?thesis using insert_all_rows [OF s1(1)] s1 rows by metis
qed simp

section \<open>Examples\<close>

text \<open>The owner of team 9 imports two contacts, the second one unsubscribed.\<close>

definition demo_owner :: "Claims option" where
  "demo_owner = Some \<lparr>clTeamID = ''123456789'', clUserID = ''1234567'', clRole = ''owner'', clAPIKeyID = [], clPermissions = [], clPlan = []\<rparr>"

lemma demo_owner_guards: "requirePermission demo_owner ''send'' = None" "getTeamID demo_access_env demo_owner = Inr 9"
  by (simp_all add: requirePermission_def HasPermission_def getTeamID_def demo_owner_def demo_access_env_def)

definition demo_file :: contact_op where
  "demo_file = CoImport [1, 2] (Records [['' Email'', ''subscribed''], [''A@x.org'', ''true''], [''b@y.org'', ''0'']])"

definition demo_import :: access where
  "demo_import = exec_c demo_access_env demo_owner demo_file demo_access"

definition book_view :: "account \<Rightarrow> (uuid \<times> string \<times> bool) list \<times> bool \<times> bool" where
  "book_view a = (map (\<lambda>c. (ctTeamID c, ctEmail c, ctSubscribed c)) (contacts (adb a)), suppressions (adb a) = [], by_key tmID 9 (teams a) = None)"

lemma demo_import_run: "book_view (acct demo_import) = ([(9, ''a@x.org'', True), (9, ''b@y.org'', False)], True, False)"
  by code_simp

lemma demo_import_rows:
  "map (\<lambda>c. (ctTeamID c, ctEmail c, ctSubscribed c)) (contacts (adb (acct demo_import))) = [(9, ''a@x.org'', True), (9, ''b@y.org'', False)]"
  "suppressions (adb (acct demo_import)) = []" "(by_key tmID 9 (teams (acct demo_import)) = None) = False"
  using demo_import_run by (simp_all add: book_view_def)

lemma demo_access_book: "contacts (adb (acct demo_access)) = []"
  by code_simp

theorem address_book_ok_witness:
  "book_ok (acct (run_c [(demo_access_env, demo_owner, demo_file)] demo_access)) \<and>
   length (contacts (adb (acct (run_c [(demo_access_env, demo_owner, demo_file)] demo_access)))) = 2"
proof -
  have "book_ok (acct demo_access)" by (simp add: book_ok_def demo_access_book)
  moreover have "length (contacts (adb (acct demo_import))) = 2" using arg_cong [OF demo_import_rows(1), of length] by simp
  ultimately show ?thesis
    using address_book_ok [of demo_access "[(demo_access_env, demo_owner, demo_file)]"] by (simp add: demo_import_def)
qed

theorem contacts_stay_in_team_witness: "getTeamID demo_access_env demo_owner = Inr 9"
proof -
  have "map ctTeamID (contacts (adb (acct demo_import))) = [9, 9]" using arg_cong [OF demo_import_rows(1), of "map fst"] by (simp add: comp_def)
  then have "book_of 9 (acct demo_import) \<noteq> book_of 9 (acct demo_access)" by (auto simp: book_of_def demo_access_book map_eq_Cons_conv)
  then show ?thesis using contacts_stay_in_team [of 9 demo_access_env demo_owner demo_file demo_access] by (simp add: demo_import_def)
qed

theorem import_all_or_nothing_witness:
  "fst (ContactService_ImportCSV NoFault 3 [1, 2] 9
     [Some \<lparr>crEmail = ''a@x.org'', crFirstName = None, crLastName = None, crSubscribed = None, crProperties = None\<rparr>, None] (acct demo_access)) =
   acct demo_access"
proof -
  define reqs where "reqs = [Some \<lparr>crEmail = ''a@x.org'', crFirstName = None, crLastName = None, crSubscribed = None, crProperties = None\<rparr>, None]"
  obtain s' r where run: "ContactService_ImportCSV NoFault 3 [1, 2] 9 reqs (acct demo_access) = (s', r)" by (metis surj_pair)
  have "\<not> (\<exists>i req. reqs ! 1 = Some req \<and> P i req)" for P :: "uuid \<Rightarrow> CreateContactRequest \<Rightarrow> bool" by (simp add: reqs_def)
  moreover have "1 < length reqs" by (simp add: reqs_def)
  ultimately have "s' = acct demo_access" using import_all_or_nothing [OF run] by blast
  then show ?thesis using run by (simp add: reqs_def)
qed

end
