(* ===== verification/Unsubscribe.thy ===== *)
theory Unsubscribe
  imports Contacts
begin

text \<open>
  One-click unsubscription: \<open>internal/service/unsubscribe.go\<close> and \<open>internal/handler/unsubscribe_handler.go\<close>.
  A link carries a sealed token naming a team and an address; posting it unsubscribes the contact and
  suppresses the address. The base64 and the path escaping of the token are written out; the AES-GCM box, the
  JSON decoder and UUID texts are parameters. The theorems show that every link that is made works, that only a
  sealed token has an effect and only on its own address, and that nothing the team does to its contacts
  afterwards lets mail through to that address.
\<close>

section \<open>Base64 and path segments\<close>

text \<open>\<open>base64.RawURLEncoding\<close>: no padding; the decoder skips line breaks and accepts any trailing bits.\<close>

definition b64_char :: "nat \<Rightarrow> char" where
  "b64_char n = (if n < 26 then char_of (65 + n) else if n < 52 then char_of (71 + n) else if n < 62 then char_of (n - 4)
     else if n = 62 then CHR ''-'' else CHR ''_'')"

definition b64_value :: "char \<Rightarrow> nat option" where
  "b64_value c = (let k = of_char c in if is_upper c then Some (k - 65) else if is_lower c then Some (k - 71)
     else if is_digit c then Some (k + 4) else if c = CHR ''-'' then Some 62 else if c = CHR ''_'' then Some 63 else None)"

fun quads :: "nat list \<Rightarrow> nat list" where
  "quads [] = []"
| "quads [a] = [a div 4, (a mod 4) * 16]"
| "quads [a, b] = [a div 4, (a mod 4) * 16 + b div 16, (b mod 16) * 4]"
| "quads (a # b # c # r) = a div 4 # ((a mod 4) * 16 + b div 16) # ((b mod 16) * 4 + c div 64) # (c mod 64) # quads r"

fun unquads :: "nat list \<Rightarrow> nat list option" where
  "unquads [] = Some []"
| "unquads [a] = None"
| "unquads [a, b] = Some [a * 4 + b div 16]"
| "unquads [a, b, c] = Some [a * 4 + b div 16, (b mod 16) * 16 + c div 4]"
| "unquads (a # b # c # d # r) = map_option (\<lambda>xs. (a * 4 + b div 16) # ((b mod 16) * 16 + c div 4) # ((c mod 4) * 64 + d) # xs) (unquads r)"

definition EncodeToString :: "string \<Rightarrow> string" where
  "EncodeToString s = map b64_char (quads (map of_char s))"

definition DecodeString :: "string \<Rightarrow> string option" where
  "DecodeString s =
     (let vs = map b64_value (filter (\<lambda>c. c \<notin> set CRLF) s) in
      if None \<in> set vs then None else map_option (map char_of) (unquads (map the vs)))"

text \<open>\<open>url.PathEscape\<close>.\<close>

definition path_safe :: "char \<Rightarrow> bool" where
  "path_safe c \<longleftrightarrow> is_letter c \<or> is_digit c \<or> c \<in> set ''-_.~$&+:=@''"

definition hex_digit :: "nat \<Rightarrow> char" where
  "hex_digit n = (if n < 10 then char_of (48 + n) else char_of (55 + n))"

definition PathEscape :: "string \<Rightarrow> string" where
  "PathEscape s = concat (map (\<lambda>c. if path_safe c then [c] else [CHR ''%'', hex_digit (of_char c div 16), hex_digit (of_char c mod 16)]) s)"

lemma quads_bound: "list_all (\<lambda>n. n < 256) xs \<Longrightarrow> list_all (\<lambda>n. n < 64) (quads xs)"
  by (induction xs rule: quads.induct) auto

lemma byte_parts:
  fixes a b c :: nat
  shows "b < 256 \<Longrightarrow> a div 4 * 4 + (a mod 4 * 16 + b div 16) div 16 = a"
    and "b < 256 \<Longrightarrow> c < 256 \<Longrightarrow> (a mod 4 * 16 + b div 16) mod 16 * 16 + (b mod 16 * 4 + c div 64) div 4 = b"
    and "c < 256 \<Longrightarrow> (b mod 16 * 4 + c div 64) mod 4 * 64 + c mod 64 = c"
proof -
  show "a div 4 * 4 + (a mod 4 * 16 + b div 16) div 16 = a" if "b < 256"
    using that by (simp add: less_mult_imp_div_less)
  show "(a mod 4 * 16 + b div 16) mod 16 * 16 + (b mod 16 * 4 + c div 64) div 4 = b" if "b < 256" "c < 256"
    using that by (simp add: less_mult_imp_div_less)
  show "(b mod 16 * 4 + c div 64) mod 4 * 64 + c mod 64 = c" if "c < 256"
    using that by (simp add: less_mult_imp_div_less)
qed

lemma unquads_quads: "list_all (\<lambda>n. n < 256) xs \<Longrightarrow> unquads (quads xs) = Some xs"
proof (induction xs rule: quads.induct)
  case (3 a b)
  then show ?case using byte_parts(1) [of b a] byte_parts(2) [of b 0 a] by simp
next
  case (4 a b c r)
  then show ?case using byte_parts(1) [of b a] byte_parts(2) [of b c a] byte_parts(3) [of c b] by simp
qed auto

lemma length_quads: "length (quads xs) = (length xs * 4 + 2) div 3"
  by (induction xs rule: quads.induct) auto

lemma b64_char_cases:
  assumes "n < 64"
  obtains "n < 26" "b64_char n = char_of (65 + n)" | "26 \<le> n" "n < 52" "b64_char n = char_of (71 + n)"
    | m where "m < 10" "n = 52 + m" "b64_char n = char_of (48 + m)" | "n = 62" "b64_char n = CHR ''-''" | "n = 63" "b64_char n = CHR ''_''"
proof -
  consider "n < 26" | "26 \<le> n" "n < 52" | m where "m < 10" "n = 52 + m" | "n = 62" | "n = 63"
    using assms less_imp_add_positive by atomize_elim (auto intro: exI [of _ "n - 52"])
  then show thesis by cases (auto simp: b64_char_def intro: that)
qed

lemmas char_class_defs = is_letter_def is_upper_def is_lower_def is_digit_def char_in_def

lemma b64_value_char: "n < 64 \<Longrightarrow> b64_value (b64_char n) = Some n"
  by (erule b64_char_cases) (simp_all add: b64_value_def char_class_defs of_char_of)

lemma path_safe_b64: "n < 64 \<Longrightarrow> path_safe (b64_char n)"
  by (erule b64_char_cases) (simp_all add: path_safe_def char_class_defs of_char_of)

lemma path_safe_no_break:
  assumes "path_safe c"
  shows "c \<notin> set CRLF"
proof -
  have "(of_char c :: nat) \<noteq> 13 \<and> (of_char c :: nat) \<noteq> 10"
    using assms by (auto simp: path_safe_def char_class_defs)
  then show ?thesis by (auto simp: CRLF_def of_char_of)
qed

lemma decode_encode: "DecodeString (EncodeToString s) = Some s"
proof -
  let ?q = "quads (map of_char s)"
  have b: "list_all (\<lambda>n. n < 64) ?q" by (intro quads_bound) (simp add: list_all_iff)
  then have f: "filter (\<lambda>c. c \<notin> set CRLF) (map b64_char ?q) = map b64_char ?q"
    using path_safe_b64 path_safe_no_break by (auto simp: filter_id_conv list_all_iff)
  have v: "map b64_value (map b64_char ?q) = map Some ?q" using b b64_value_char by (auto simp: list_all_iff)
  have "unquads ?q = Some (map of_char s)" by (intro unquads_quads) (simp add: list_all_iff)
  then show ?thesis unfolding DecodeString_def EncodeToString_def Let_def f v by (simp add: o_def)
qed

lemma PathEscape_encoded: "PathEscape (EncodeToString s) = EncodeToString s"
proof -
  have "list_all (\<lambda>n. n < 64) (quads (map of_char s))" by (intro quads_bound) (simp add: list_all_iff)
  then have "list_all path_safe (EncodeToString s)" using path_safe_b64 by (auto simp: EncodeToString_def list_all_iff)
  moreover have "PathEscape t = t" if "list_all path_safe t" for t using that by (induction t) (auto simp: PathEscape_def)
  ultimately show ?thesis by blast
qed

section \<open>Tokens\<close>

record base_url = parsed_url +
  urlPath :: string
  urlRawQuery :: string

record unsub_env =
  usConfigured :: bool
  usSeal :: "string \<Rightarrow> string \<Rightarrow> string"
  usOpen :: "string \<Rightarrow> string \<Rightarrow> string option"
  usRandom :: "string option"
  usUnmarshal :: "string \<Rightarrow> (string \<times> string) option"
  usParseUUID :: "string \<Rightarrow> uuid option"
  usUUIDText :: "uuid \<Rightarrow> string"
  usBase :: string
  usContactRepo :: bool
  usSuppressionRepo :: bool
  usFault :: "nat \<Rightarrow> fault"
  usNow :: instant
  usFreshID :: uuid

datatype unsub_error = ErrInvalidUnsubscribeToken | ErrUnsubscribe db_error | ErrNonce

definition TrimRight :: "char \<Rightarrow> string \<Rightarrow> string" where
  "TrimRight c s = rev (dropWhile (\<lambda>x. x = c) (rev s))"

text \<open>The secret must have 32 characters and the base must be a bare http address; the answer is the secret that keys
  the box and the base.\<close>

definition NewUnsubscribeSigner :: "(string \<Rightarrow> base_url option) \<Rightarrow> string \<Rightarrow> string \<Rightarrow> (string \<times> string) option" where
  "NewUnsubscribeSigner parse_url secret0 baseURL0 =
     (let secret = TrimSpace secret0; baseURL = TrimRight (CHR ''/'') (TrimSpace baseURL0) in
      if length secret < 32 then None
      else case parse_url baseURL of
             None \<Rightarrow> None
           | Some u \<Rightarrow>
               if urlHostname u = [] \<or> (urlScheme u \<noteq> ''http'' \<and> urlScheme u \<noteq> ''https'') \<or> urlHasUser u \<or> urlFragment u \<noteq> [] \<or>
                  (urlPath u \<noteq> [] \<and> urlPath u \<noteq> ''/'') \<or> urlRawQuery u \<noteq> []
               then None else Some (secret, baseURL))"

definition NonceSize :: nat where "NonceSize = 12"

text \<open>The claims as JSON. Valid addresses and UUID texts contain nothing that needs escaping.\<close>

definition claims_json :: "string \<Rightarrow> string \<Rightarrow> string" where
  \<open>claims_json team email = ''{"team_id":"'' @ team @ ''","email":"'' @ email @ ''"}''\<close>

definition Token :: "unsub_env \<Rightarrow> uuid \<Rightarrow> string \<Rightarrow> unsub_error + string" where
  "Token env team email0 =
     (let email = NormalizeEmail email0 in
      if \<not> usConfigured env then Inl ErrInvalidUnsubscribeToken
      else if team = uuid_Nil \<or> \<not> IsValidEmail email then Inl ErrInvalidUnsubscribeToken
      else case usRandom env of
             None \<Rightarrow> Inl ErrNonce
           | Some nonce \<Rightarrow> Inr (EncodeToString (nonce @ usSeal env nonce (claims_json (usUUIDText env team) email))))"

definition parse :: "unsub_env \<Rightarrow> string \<Rightarrow> unsub_error + string \<times> string" where
  "parse env token =
     (if \<not> usConfigured env \<or> token = [] \<or> length token > 4096 then Inl ErrInvalidUnsubscribeToken
      else case DecodeString token of
             None \<Rightarrow> Inl ErrInvalidUnsubscribeToken
           | Some raw \<Rightarrow>
               if length raw \<le> NonceSize then Inl ErrInvalidUnsubscribeToken
               else case usOpen env (take NonceSize raw) (drop NonceSize raw) of
                      None \<Rightarrow> Inl ErrInvalidUnsubscribeToken
                    | Some payload \<Rightarrow>
                        (case usUnmarshal env payload of
                           None \<Rightarrow> Inl ErrInvalidUnsubscribeToken
                         | Some (team, email) \<Rightarrow>
                             (case usParseUUID env team of
                                None \<Rightarrow> Inl ErrInvalidUnsubscribeToken
                              | Some i \<Rightarrow> if i = uuid_Nil \<or> \<not> IsValidEmail email then Inl ErrInvalidUnsubscribeToken
                                          else Inr (team, NormalizeEmail email))))"

definition UnsubscribeSigner_URL :: "unsub_env \<Rightarrow> uuid \<Rightarrow> string \<Rightarrow> unsub_error + string" where
  "UnsubscribeSigner_URL env team email =
     (case Token env team email of Inl e \<Rightarrow> Inl e | Inr token \<Rightarrow> Inr (usBase env @ ''/api/v1/unsubscribe/'' @ PathEscape token))"

definition LandingURL :: "unsub_env \<Rightarrow> uuid \<Rightarrow> string \<Rightarrow> unsub_error + string" where
  "LandingURL env team email = (if \<not> usConfigured env then Inl ErrInvalidUnsubscribeToken else UnsubscribeSigner_URL env team email)"

section \<open>Unsubscribing\<close>

text \<open>The upsert of \<open>suppression_repo.go\<close> against the foreign key and the width of its columns.\<close>

definition upsert_for_team :: "Suppression \<Rightarrow> account \<Rightarrow> account \<times> unit result" where
  "upsert_for_team x s =
     (if char_length (NormalizeEmail (supEmail x)) > 255 then (s, Inl ValueTooLong)
      else if by_key tmID (supTeamID x) (teams s) = None then (s, Inl ForeignKeyViolation)
      else case Suppression_Upsert x (adb s) of (d, r) \<Rightarrow> (s\<lparr>adb := d\<rparr>, r))"

definition unsubscribe_contact :: "unsub_env \<Rightarrow> uuid \<Rightarrow> string \<Rightarrow> account \<Rightarrow> account \<times> (unsub_error + unit)" where
  "unsubscribe_contact env team email s =
     (if usContactRepo env
      then case run_call (usFault env 0) (SetSubscribedByEmail (usNow env) team email False) s of
             (s1, Inl e) \<Rightarrow> (s1, Inl (ErrUnsubscribe e)) | (s1, Inr _) \<Rightarrow> (s1, Inr ())
      else (s, Inr ()))"

definition suppress_address :: "unsub_env \<Rightarrow> uuid \<Rightarrow> string \<Rightarrow> account \<Rightarrow> account \<times> (unsub_error + unit)" where
  "suppress_address env team email s =
     (if usSuppressionRepo env
      then case run_call (usFault env 1) (upsert_for_team
               \<lparr>supID = usFreshID env, supTeamID = team, supEmail = email, supReason = SuppressionReasonUnsubscribe\<rparr>) s of
             (s1, Inl e) \<Rightarrow> (s1, Inl (ErrUnsubscribe e)) | (s1, Inr _) \<Rightarrow> (s1, Inr ())
      else (s, Inr ()))"

definition Unsubscribe :: "unsub_env \<Rightarrow> string \<Rightarrow> account \<Rightarrow> account \<times> (unsub_error + unit)" where
  "Unsubscribe env token s =
     (if \<not> usConfigured env then (s, Inl ErrInvalidUnsubscribeToken)
      else case parse env token of
             Inl e \<Rightarrow> (s, Inl e)
           | Inr (teamText, email) \<Rightarrow>
               (let team = (case usParseUUID env teamText of None \<Rightarrow> uuid_Nil | Some i \<Rightarrow> i) in
                case unsubscribe_contact env team email s of
                  (s1, Inl e) \<Rightarrow> (s1, Inl e)
                | (s1, Inr _) \<Rightarrow> suppress_address env team email s1))"

definition UnsubscribeHandler_Get :: "access \<Rightarrow> access \<times> reply" where
  "UnsubscribeHandler_Get s = (s, (200, []))"

definition UnsubscribeHandler_Post :: "unsub_env \<Rightarrow> string \<Rightarrow> access \<Rightarrow> access \<times> reply" where
  "UnsubscribeHandler_Post env token s =
     (case on_acct (Unsubscribe env token) s of
        (s', Inl ErrInvalidUnsubscribeToken) \<Rightarrow> (s', writeError ''invalid unsubscribe link'' 400)
      | (s', Inl _) \<Rightarrow> (s', writeError ''unsubscribe is temporarily unavailable'' 503)
      | (s', Inr _) \<Rightarrow> (s', (204, [])))"

section \<open>Every link works\<close>

text \<open>What the parameters are relied on for: the box opens what it sealed and adds a tag of 16 bytes, the decoder reads
  back claims that need no escaping, and the text of an identifier has 36 characters and parses back.\<close>

definition json_plain :: "string \<Rightarrow> bool" where
  "json_plain s \<longleftrightarrow> list_all (\<lambda>c. is_letter c \<or> is_digit c \<or> c \<in> set ''._%+-@'') s"

lemma parse_token:
  assumes box: "\<And>n p. usOpen env n (usSeal env n p) = Some p" "\<And>n p. length (usSeal env n p) = length p + 16"
    and json: "\<And>a. json_plain a \<Longrightarrow> usUnmarshal env (claims_json (usUUIDText env team) a) = Some (usUUIDText env team, a)"
    and ids: "usParseUUID env (usUUIDText env team) = Some team" "length (usUUIDText env team) = 36"
    and "usRandom env = Some nonce" "length nonce = NonceSize"
    and "Token env team email = Inr token" "length email \<le> 2000"
  shows "parse env token = Inr (usUUIDText env team, NormalizeEmail email) \<and>
    UnsubscribeSigner_URL env team email = Inr (usBase env @ ''/api/v1/unsubscribe/'' @ token)"
proof -
  let ?p = "claims_json (usUUIDText env team) (NormalizeEmail email)"
  let ?raw = "nonce @ usSeal env nonce ?p"
  have t: "token = EncodeToString ?raw" "usConfigured env" "team \<noteq> uuid_Nil" and v: "IsValidEmail (NormalizeEmail email)"
    using assms(6,8) by (auto simp: Token_def Let_def split: if_splits)
  have "json_plain (NormalizeEmail email)" using valid_email_chars [OF v] by (simp add: json_plain_def list_all_iff)
  then have um: "usUnmarshal env ?p = Some (usUUIDText env team, NormalizeEmail email)" using json by blast
  have "length (NormalizeEmail email) \<le> 2000"
    using assms(9) length_TrimSpace [of email] by (simp add: NormalizeEmail_def ToLower_def)
  then have "length ?p \<le> 2061" using ids(2) by (simp add: claims_json_def)
  then have "length token \<le> 4096" "token \<noteq> []"
    using assms(7) box(2) by (auto simp: t(1) EncodeToString_def length_quads NonceSize_def
        simp flip: length_greater_0_conv)
  moreover have "take NonceSize ?raw = nonce" "drop NonceSize ?raw = usSeal env nonce ?p" "\<not> length ?raw \<le> NonceSize"
    using assms(7) box(2) by (simp_all add: NonceSize_def)
  ultimately have "parse env token = Inr (usUUIDText env team, NormalizeEmail email)"
    using t v um ids(1) box(1) by (simp add: parse_def decode_encode)
  then show ?thesis using assms(8) by (simp add: UnsubscribeSigner_URL_def t(1) PathEscape_encoded)
qed

text \<open>C31: Every token that is made for an address of at most 2000 bytes reads back as the team and the canonical address it was made for, fits the limit of
  the parser and goes into a link unchanged, whatever the nonce.\<close>

theorem token_roundtrip:
  assumes box: "\<And>n p. usOpen env n (usSeal env n p) = Some p" "\<And>n p. length (usSeal env n p) = length p + 16"
    and json: "\<And>a. json_plain a \<Longrightarrow> usUnmarshal env (claims_json (usUUIDText env team) a) = Some (usUUIDText env team, a)"
    and ids: "usParseUUID env (usUUIDText env team) = Some team" "length (usUUIDText env team) = 36"
    and "usRandom env = Some nonce" "length nonce = NonceSize"
    and "Token env team email = Inr token" "length email \<le> 2000"
  shows "parse env token = Inr (usUUIDText env team, NormalizeEmail email) \<and>
    UnsubscribeSigner_URL env team email = Inr (usBase env @ ''/api/v1/unsubscribe/'' @ token)"
  using assms by (rule parse_token)

section \<open>Only a sealed token acts, and only on its address\<close>

lemma set_subscribed_state:
  "fst (SetSubscribedByEmail now team a sub s) =
     set_contacts (sql_update (same_contact team (NormalizeEmail a)) (\<lambda>c. c\<lparr>ctSubscribed := sub, ctUpdatedAt := now\<rparr>)) s"
  by (simp add: SetSubscribedByEmail_def Let_def)

lemma upsert_for_team_state:
  "fst (upsert_for_team x s) = s \<or> fst (upsert_for_team x s) = s\<lparr>adb := (adb s)\<lparr>suppressions := upsert_suppression x (suppressions (adb s))\<rparr>\<rparr>"
  by (simp add: upsert_for_team_def Suppression_Upsert_def)

lemma upsert_for_team_done:
  "upsert_for_team x s = (s', Inr ()) \<Longrightarrow> suppressions (adb s') = upsert_suppression x (suppressions (adb s))"
  by (auto simp: upsert_for_team_def Suppression_Upsert_def split: if_splits)

text \<open>The states a posted token can lead to.\<close>

lemma Unsubscribe_cases:
  assumes "Unsubscribe env token s = (s', r)"
  obtains (refused) e where "s' = s" "r = Inl e"
    | (acted) t a i s1 where "parse env token = Inr (t, a)" "usParseUUID env t = Some i" "usConfigured env"
        "s1 = s \<or> usContactRepo env \<and> s1 = fst (SetSubscribedByEmail (usNow env) i a False s)"
        "s' = s1 \<or> s' = fst (upsert_for_team \<lparr>supID = usFreshID env, supTeamID = i, supEmail = a, supReason = SuppressionReasonUnsubscribe\<rparr> s1)"
        "r = Inr () \<Longrightarrow> usSuppressionRepo env \<Longrightarrow>
          upsert_for_team \<lparr>supID = usFreshID env, supTeamID = i, supEmail = a, supReason = SuppressionReasonUnsubscribe\<rparr> s1 = (s', Inr ())"
proof (cases "usConfigured env \<and> (\<exists>t a. parse env token = Inr (t, a))")
  case False
  then have "s' = s \<and> (\<exists>e. r = Inl e)" using assms by (auto simp: Unsubscribe_def split: sum.splits if_splits)
  then show ?thesis using refused by blast
next
  case True
  then obtain t a where p: "usConfigured env" "parse env token = Inr (t, a)" by blast
  then obtain i where i: "usParseUUID env t = Some i"
    by (auto simp: parse_def split: if_splits option.splits)
  let ?set = "SetSubscribedByEmail (usNow env) i a False"
  let ?sup = "upsert_for_team \<lparr>supID = usFreshID env, supTeamID = i, supEmail = a, supReason = SuppressionReasonUnsubscribe\<rparr>"
  obtain s1 c where c: "unsubscribe_contact env i a s = (s1, c)" by (metis surj_pair)
  have "s1 = s \<or> usContactRepo env \<and> s1 = fst (run_call (usFault env 0) ?set s)"
    using c by (auto simp: unsubscribe_contact_def split: if_splits prod.splits sum.splits)
  then have 1: "s1 = s \<or> usContactRepo env \<and> s1 = fst (?set s)" using run_call_state [of "usFault env 0" ?set s] by auto
  have run: "(case c of Inl e \<Rightarrow> (s1, Inl e) | Inr _ \<Rightarrow> suppress_address env i a s1) = (s', r)"
    using assms p i c by (simp add: Unsubscribe_def split: sum.splits)
  have "s' = s1 \<or> s' = fst (run_call (usFault env 1) ?sup s1)" and
      3: "r = Inr () \<Longrightarrow> usSuppressionRepo env \<Longrightarrow> run_call (usFault env 1) ?sup s1 = (s', Inr ())"
    using run by (auto simp: suppress_address_def split: if_splits prod.splits sum.splits)
  then have "s' = s1 \<or> s' = fst (?sup s1)" using run_call_state [of "usFault env 1" ?sup s1] by auto
  then show ?thesis by (rule acted [OF p(2) i p(1) 1]) (rule run_call_InrD [OF 3])
qed

text \<open>Nobody can unsubscribe an address without a token the service sealed: when a posted token changes anything, the box
  opened it; the change concerns the team and the address named inside and nothing else; it adds and
  removes no contact, subscribes nobody, and lifts no suppression.\<close>

theorem unsubscribe_authentic:
  assumes "Unsubscribe env token s = (s', r)" and "s' \<noteq> s"
  shows "\<exists>nonce sealed payload t a0 a T. DecodeString token = Some (nonce @ sealed) \<and> usOpen env nonce sealed = Some payload \<and>
      usUnmarshal env payload = Some (t, a0) \<and> usParseUUID env t = Some T \<and> a = NormalizeEmail a0 \<and>
      map ctID (contacts (adb s')) = map ctID (contacts (adb s)) \<and>
      (\<forall>c \<in> set (contacts (adb s')). ctSubscribed c \<longrightarrow> c \<in> set (contacts (adb s))) \<and>
      filter (\<lambda>c. \<not> same_contact T a c) (contacts (adb s')) = filter (\<lambda>c. \<not> same_contact T a c) (contacts (adb s)) \<and>
      (\<forall>team b. (team, NormalizeEmail b) \<noteq> (T, a) \<longrightarrow> reason_at (adb s') team b = reason_at (adb s) team b) \<and>
      (\<forall>team b. reason_at (adb s) team b \<noteq> None \<longrightarrow> reason_at (adb s') team b \<noteq> None)"
  using assms(1)
proof (cases rule: Unsubscribe_cases)
  case (acted t a T s1)
  let ?x = "\<lparr>supID = usFreshID env, supTeamID = T, supEmail = a, supReason = SuppressionReasonUnsubscribe\<rparr>"
  obtain raw payload a0 where tok: "DecodeString token = Some raw" "usOpen env (take NonceSize raw) (drop NonceSize raw) = Some payload"
      "usUnmarshal env payload = Some (t, a0)" "a = NormalizeEmail a0"
    using acted(1) by (auto simp: parse_def split: if_splits option.splits)
  have p: "same_contact T (NormalizeEmail a) = same_contact T a" using tok(4) by simp
  have 1: "map ctID (contacts (adb s1)) = map ctID (contacts (adb s)) \<and>
      (\<forall>c \<in> set (contacts (adb s1)). ctSubscribed c \<longrightarrow> c \<in> set (contacts (adb s))) \<and>
      filter (\<lambda>c. \<not> same_contact T a c) (contacts (adb s1)) = filter (\<lambda>c. \<not> same_contact T a c) (contacts (adb s)) \<and>
      suppressions (adb s1) = suppressions (adb s)"
    using acted(4)
  proof
    assume "usContactRepo env \<and> s1 = fst (SetSubscribedByEmail (usNow env) T a False s)"
    then have c: "contacts (adb s1) = sql_update (same_contact T a) (\<lambda>c. c\<lparr>ctSubscribed := False, ctUpdatedAt := usNow env\<rparr>) (contacts (adb s))"
        "suppressions (adb s1) = suppressions (adb s)"
      by (simp_all add: set_subscribed_state p)
    have "filter (\<lambda>c. \<not> same_contact T a c) (sql_update (same_contact T a) f rows) = filter (\<lambda>c. \<not> same_contact T a c) rows"
      if "\<And>r. same_contact T a (f r) = same_contact T a r" for f rows using that by (induction rows) auto
    then show ?thesis unfolding c by (auto simp: in_sql_update map_key_sql_update same_contact_def split: if_splits)
  qed simp
  have 2: "contacts (adb s') = contacts (adb s1)"
      "suppressions (adb s') = suppressions (adb s1) \<or> suppressions (adb s') = upsert_suppression ?x (suppressions (adb s1))"
    using acted(5) upsert_for_team_state [of ?x s1] by auto
  have 3: "reason_at (adb s') team b = reason_at (adb s) team b" if "(team, NormalizeEmail b) \<noteq> (T, a)" for team b
    using 2(2) 1 that tok(4) by (auto simp: reason_at_def upsert_lookup)
  have 4: "reason_at (adb s') team b \<noteq> None" if "reason_at (adb s) team b \<noteq> None" for team b
    using 2(2) 1 that by (auto simp: reason_at_def upsert_lookup)
  have "raw = take NonceSize raw @ drop NonceSize raw" by simp
  then show ?thesis using tok acted(2) 1 2(1) 3 4 by metis
qed (use assms(2) in simp)

section \<open>Unsubscribing is final\<close>

lemma service_step_suppressions:
  assumes "service_step team a b"
  shows "suppressions (adb b) = suppressions (adb a)"
proof -
  have ins: "insert_contact now c s = Inr s' \<Longrightarrow> suppressions (adb s') = suppressions (adb s)" for now c s s'
    by (auto simp: insert_contact_def Let_def split: if_splits)
  have all: "insert_all now cs s = Inr s' \<Longrightarrow> suppressions (adb s') = suppressions (adb s)" for now cs s s'
  proof (induction cs arbitrary: s)
    case (Cons c cs)
    then obtain s1 where "insert_contact now c s = Inr s1" "insert_all now cs s1 = Inr s'" by (auto split: sum.splits)
    then show ?case using Cons.IH ins by metis
  qed simp
  have keep: "suppressions (adb (fst (run_call g f a))) = suppressions (adb a)" if "suppressions (adb (fst (f a))) = suppressions (adb a)"
    for g and f :: "account \<Rightarrow> account \<times> unit result" using that run_call_state [of g f a] by auto
  have "suppressions (adb (fst (ContactRepo_Create now c a))) = suppressions (adb a)" for now c
    using ins by (auto simp: ContactRepo_Create_def split: sum.splits)
  moreover have "suppressions (adb (fst (ContactRepo_UpdateForTeam now c a))) = suppressions (adb a)" for now c
    by (simp add: ContactRepo_UpdateForTeam_def update_contact_def Let_def)
  moreover have "suppressions (adb (fst (ContactRepo_DeleteForTeam team i a))) = suppressions (adb a)" for i
    by (simp add: ContactRepo_DeleteForTeam_def)
  moreover have "suppressions (adb (fst (BulkCreate now cs a))) = suppressions (adb a)" for now cs
    using all by (auto simp: BulkCreate_def split: sum.splits)
  ultimately show ?thesis using assms keep unfolding service_step_def by (elim disjE exE conjE) simp_all
qed

lemma run_c_suppressions: "suppressions (adb (acct (run_c steps s))) = suppressions (adb (acct s))"
proof (induction steps s rule: run_c.induct)
  case (2 env c op steps s)
  have "suppressions (adb (acct (exec_c env c op s))) = suppressions (adb (acct s))"
    using exec_c_cases [of env c op s] service_step_suppressions by auto
  with 2 show ?case by simp
qed simp

lemma normal_valid_ne: "IsValidEmail a \<Longrightarrow> NormalizeEmail a \<noteq> []"
  by (simp add: NormalizeEmail_def valid_email_trim) (auto simp: IsValidEmail_def)

text \<open>C30: After a link was used successfully no message to that address is accepted for the team any more, in any
  spelling and any position, whatever the team does to its contacts in between: creating, changing,
  importing or deleting the contact does not bring it back, and failing look-ups do not let it
  through.\<close>

theorem unsubscribe_is_final:
  assumes "parse env token = Inr (t, a)" and "usParseUUID env t = Some T" and "usSuppressionRepo env"
    and "Unsubscribe env token (acct s) = (a', Inr ())"
    and "sdb y = adb (acct (run_c steps (s\<lparr>acct := a'\<rparr>)))" and "seSuppressionRepo senv"
    and "x \<in> set (rTo req @ rCC req @ rBCC req)" and "NormalizeEmail x = a"
  shows "\<nexists>y' r. send senv T (Some req) key y = (y', Inr (r, True))"
proof
  let ?x = "\<lparr>supID = usFreshID env, supTeamID = T, supEmail = a, supReason = SuppressionReasonUnsubscribe\<rparr>"
  have an: "NormalizeEmail a = a" "a \<noteq> []"
    using assms(1) normal_valid_ne by (auto simp: parse_def split: if_splits option.splits)
  obtain s1 where "upsert_for_team ?x s1 = (a', Inr ())"
    using assms(4) by (cases rule: Unsubscribe_cases) (use assms(1-3) in auto)
  note sups = upsert_for_team_done [OF this]
  have sup: "reason_at (sdb y) T a \<noteq> None"
    using sups assms(5) run_c_suppressions [of steps "s\<lparr>acct := a'\<rparr>"] an(1) by (simp add: reason_at_def upsert_lookup)
  assume "\<exists>y' r. send senv T (Some req) key y = (y', Inr (r, True))"
  then obtain y' r where run: "send senv T (Some req) key y = (y', Inr (r, True))" by blast
  from run show False
  proof (cases rule: send_cases)
    case (commit req1 req2 headers reserved s2)
    have "rTo req1 = rTo req" "rCC req1 = rCC req" "rBCC req1 = rBCC req"
      using commit(1) by (auto simp: admitted_def validate_head_def Let_def split: if_splits option.splits)
    then have "a \<in> set (rTo req2 @ rCC req2 @ rBCC req2)"
      using commit(1) assms(7,8) by (auto simp: admitted_def normalizeRecipients_def Let_def)
    then have "GetByEmails T (rTo req2 @ rCC req2 @ rBCC req2) (sdb y) \<noteq> []"
      using an sup by (intro reason_at_iff_listed) simp_all
    then show False using admitted_facts [OF commit(1)] assms(6) by blast
  qed simp_all
qed

section \<open>Examples\<close>

text \<open>A box that puts sixteen bytes in front, and the decoder of claims of fixed width.\<close>

definition demo_unsub :: unsub_env where
  "demo_unsub = \<lparr>usConfigured = True, usSeal = (\<lambda>_ p. replicate 16 (CHR ''#'') @ p), usOpen = (\<lambda>_ p. Some (drop 16 p)),
     usRandom = Some (replicate 12 (CHR ''n'')),
     usUnmarshal = (\<lambda>p. Some (take 36 (drop 12 p), take (length p - 61) (drop 59 p))),
     usParseUUID = (\<lambda>_. Some 9), usUUIDText = (\<lambda>_. replicate 36 (CHR ''9'')), usBase = ''https://x.org'', usContactRepo = True,
     usSuppressionRepo = True, usFault = (\<lambda>_. NoFault), usNow = 5, usFreshID = 3\<rparr>"

definition demo_token :: string where
  "demo_token = (case Token demo_unsub 9 ''A@x.org'' of Inr token \<Rightarrow> token | Inl _ \<Rightarrow> [])"

lemma demo_unmarshal:
  assumes "length t = 36"
  shows "usUnmarshal demo_unsub (claims_json t a) = Some (t, a)"
  using assms by (simp add: demo_unsub_def claims_json_def)

lemma demo_address:
  "NormalizeEmail ''A@x.org'' = ''a@x.org'' \<and> IsValidEmail (NormalizeEmail ''A@x.org'') \<and> char_length (NormalizeEmail ''a@x.org'') \<le> 255"
  by code_simp

lemma demo_token_made: "Token demo_unsub 9 ''A@x.org'' = Inr demo_token"
proof -
  have "IsValidEmail (NormalizeEmail ''A@x.org'')" using demo_address by blast
  then show ?thesis by (simp add: demo_token_def Token_def demo_unsub_def uuid_Nil_def)
qed

lemma demo_unsub_ids: "usUUIDText demo_unsub i = replicate 36 (CHR ''9'')" "usParseUUID demo_unsub u = Some 9"
  by (simp_all add: demo_unsub_def)

lemma demo_box:
  "usOpen demo_unsub n (usSeal demo_unsub n q) = Some q" "length (usSeal demo_unsub n q) = length q + 16"
  "usUnmarshal demo_unsub (claims_json (usUUIDText demo_unsub 9) a) = Some (usUUIDText demo_unsub 9, a)"
  "length (usUUIDText demo_unsub 9) = 36" "usRandom demo_unsub = Some (replicate 12 (CHR ''n''))"
  "length (replicate 12 (CHR ''n'')) = NonceSize" "length ''A@x.org'' \<le> 2000"
  by (simp_all add: demo_unmarshal demo_unsub_ids) (simp_all add: demo_unsub_def NonceSize_def)

theorem token_roundtrip_witness: "parse demo_unsub demo_token = Inr (usUUIDText demo_unsub 9, NormalizeEmail ''A@x.org'')"
  by (rule token_roundtrip [THEN conjunct1]) (rule demo_box demo_unsub_ids demo_token_made)+

lemma demo_parse: "parse demo_unsub demo_token = Inr (replicate 36 (CHR ''9''), ''a@x.org'')"
proof -
  have "parse demo_unsub demo_token = Inr (usUUIDText demo_unsub 9, NormalizeEmail ''A@x.org'')"
    by (rule parse_token [THEN conjunct1]) (rule demo_box demo_unsub_ids demo_token_made)+
  moreover have "NormalizeEmail ''A@x.org'' = ''a@x.org''" using demo_address by blast
  ultimately show ?thesis by (simp only: demo_unsub_ids)
qed

definition demo_left :: account where
  "demo_left = fst (Unsubscribe demo_unsub demo_token (acct demo_import))"

lemma demo_unsubscribed: "Unsubscribe demo_unsub demo_token (acct demo_import) = (demo_left, Inr ())"
proof -
  let ?s = "fst (SetSubscribedByEmail 5 9 ''a@x.org'' False (acct demo_import))"
  have "char_length (NormalizeEmail ''a@x.org'') \<le> 255" using demo_address by blast
  then have "\<exists>u. upsert_for_team \<lparr>supID = 3, supTeamID = 9, supEmail = ''a@x.org'', supReason = SuppressionReasonUnsubscribe\<rparr> ?s = (u, Inr ())"
    using demo_import_rows(3) by (simp add: upsert_for_team_def Suppression_Upsert_def set_subscribed_state)
  then have "snd (Unsubscribe demo_unsub demo_token (acct demo_import)) = Inr ()"
    using demo_parse
    by (simp add: Unsubscribe_def unsubscribe_contact_def suppress_address_def demo_unsub_ids)
      (auto simp: demo_unsub_def SetSubscribedByEmail_def Let_def set_subscribed_state)
  then show ?thesis unfolding demo_left_def by (metis prod.collapse)
qed

lemma demo_left_reason: "reason_at (adb demo_left) 9 ''a@x.org'' \<noteq> None"
  using demo_unsubscribed
proof (cases rule: Unsubscribe_cases)
  case (acted t a i s1)
  then have "upsert_for_team \<lparr>supID = usFreshID demo_unsub, supTeamID = 9, supEmail = ''a@x.org'', supReason = SuppressionReasonUnsubscribe\<rparr> s1 = (demo_left, Inr ())"
    using demo_parse by (simp add: demo_unsub_ids) (simp add: demo_unsub_def)
  from upsert_for_team_done [OF this] show ?thesis by (simp add: reason_at_def upsert_lookup)
qed simp

theorem unsubscribe_authentic_witness:
  "\<exists>nonce sealed. DecodeString demo_token = Some (nonce @ sealed) \<and> usOpen demo_unsub nonce sealed \<noteq> None"
proof -
  have "demo_left \<noteq> acct demo_import" using demo_left_reason demo_import_rows(2) by (auto simp: reason_at_def)
  from unsubscribe_authentic [OF demo_unsubscribed this] show ?thesis by blast
qed

text \<open>The contact is imported again as subscribed, and still gets no mail.\<close>

theorem unsubscribe_is_final_witness:
  "\<nexists>y' r. send (demo_send NoFault) 9 (Some (demo_request\<lparr>rCC := [''A@x.org'']\<rparr>)) ''k''
     (demo_service\<lparr>sdb := adb (acct (run_c [(demo_access_env, demo_owner, demo_file)] (demo_import\<lparr>acct := demo_left\<rparr>)))\<rparr>) = (y', Inr (r, True))"
proof -
  have "NormalizeEmail ''A@x.org'' = ''a@x.org''" using demo_address by blast
  then show ?thesis
    using unsubscribe_is_final [OF demo_parse demo_unsub_ids(2) _ demo_unsubscribed, of
        "demo_service\<lparr>sdb := adb (acct (run_c [(demo_access_env, demo_owner, demo_file)] (demo_import\<lparr>acct := demo_left\<rparr>)))\<rparr>"
        "[(demo_access_env, demo_owner, demo_file)]" "demo_send NoFault" "''A@x.org''" "demo_request\<lparr>rCC := [''A@x.org'']\<rparr>" "''k''"]
    by (simp add: demo_unsub_def demo_send_def)
qed

end
