(* ===== verification/Domains.thy ===== *)
theory Domains
  imports Unsubscribe
begin

text \<open>
  Sending domains: \<open>internal/repository/domain_repo.go\<close>, \<open>internal/service/domain_service.go\<close>,
  \<open>internal/mailer/ses_identity.go\<close> and \<open>internal/handler/domain_handler.go\<close>. A domain is registered by a team,
  proves itself by records in the DNS and by the state of its identity at the provider, and only then may be sent
  from. The DNS and the API of the provider are parameters, read anew in every verification.
\<close>

section \<open>Records\<close>

datatype DNSRecordType = DNSRecordTypeTXT | DNSRecordTypeCNAME | DNSRecordTypeMX

record DNSRecord =
  drType :: DNSRecordType
  drHost :: string
  drValue :: string
  drTTL :: int
  drStatus :: string
  drOptional :: bool

record Domain =
  doID :: uuid
  doTeamID :: uuid
  doName :: string
  doStatus :: DomainStatus
  doVerificationToken :: string
  doVerificationStatus :: string
  doSESVerificationStatus :: string
  doSPFStatus :: string
  doMXStatus :: string
  doDKIMStatus :: string
  doDMARCStatus :: string
  doDKIMDNSRecord :: "string option"
  doDKIMDNSRecords :: "DNSRecord list"
  doSPFDNSRecord :: "string option"
  doMXDNSRecord :: "string option"
  doDMARCDNSRecord :: "string option"
  doVerificationDNSRecord :: "string option"
  doCreatedAt :: instant

record SESIdentity =
  sidVerifiedForSending :: bool
  sidVerificationStatus :: string
  sidDKIMStatus :: string
  sidDKIMTokens :: "string list"
  sidSigningHostedZone :: string

section \<open>The identity at the provider\<close>

record dkim_attributes =
  daStatus :: string
  daTokens :: "string list"
  daSigningHostedZone :: "string option"

text \<open>The answers of the API: an error with its code when the provider answered, or what it reports.\<close>

record identity_api =
  iaCreate :: "string \<Rightarrow> string option \<Rightarrow> string option + (bool \<times> dkim_attributes option)"
  iaGet :: "string \<Rightarrow> unit + (bool \<times> string \<times> dkim_attributes option)"
  iaConfigSet :: string

definition dkimStatus :: "dkim_attributes option \<Rightarrow> string" where
  "dkimStatus a = (case a of None \<Rightarrow> [] | Some x \<Rightarrow> ToLower (daStatus x))"

definition dkimTokens :: "dkim_attributes option \<Rightarrow> string list" where
  "dkimTokens a = (case a of None \<Rightarrow> [] | Some x \<Rightarrow> daTokens x)"

definition signingHostedZone :: "dkim_attributes option \<Rightarrow> string" where
  "signingHostedZone a = (case a of None \<Rightarrow> [] | Some x \<Rightarrow> (case daSigningHostedZone x of None \<Rightarrow> [] | Some z \<Rightarrow> TrimSpace z))"

definition mapSESIdentity :: "bool \<Rightarrow> string \<Rightarrow> dkim_attributes option \<Rightarrow> SESIdentity" where
  "mapSESIdentity verified status a =
     \<lparr>sidVerifiedForSending = verified, sidVerificationStatus = status, sidDKIMStatus = dkimStatus a, sidDKIMTokens = dkimTokens a,
      sidSigningHostedZone = signingHostedZone a\<rparr>"

definition SESIdentityProvider_Get :: "identity_api \<Rightarrow> string \<Rightarrow> SESIdentity option" where
  "SESIdentityProvider_Get api identity0 =
     (let identity = TrimSpace identity0 in
      if identity = [] then None
      else case iaGet api identity of
             Inl _ \<Rightarrow> None
           | Inr (verified, status, a) \<Rightarrow> Some (mapSESIdentity verified (ToLower status) a))"

text \<open>An identity that exists already is read instead.\<close>

definition SESIdentityProvider_Create :: "identity_api \<Rightarrow> string \<Rightarrow> SESIdentity option" where
  "SESIdentityProvider_Create api identity0 =
     (let identity = TrimSpace identity0 in
      if identity = [] then None
      else case iaCreate api identity (if iaConfigSet api = [] then None else Some (iaConfigSet api)) of
             Inl code \<Rightarrow> if map_option ToLower code = Some (ToLower ''AlreadyExistsException'') then SESIdentityProvider_Get api identity else None
           | Inr (verified, a) \<Rightarrow> Some (mapSESIdentity verified (if verified then ''success'' else ''pending'') a))"

section \<open>Reading the DNS\<close>

text \<open>\<open>strings.Fields\<close>: the words between blanks.\<close>

fun Fields :: "string \<Rightarrow> string list" where
  "Fields [] = []"
| "Fields (c # s) =
     (if is_space c then Fields s
      else case s of
             [] \<Rightarrow> [[c]]
           | d # _ \<Rightarrow> if is_space d then [c] # Fields s
                      else (case Fields s of [] \<Rightarrow> [[c]] | w # ws \<Rightarrow> (c # w) # ws))"

definition isSPFRecord :: "string \<Rightarrow> bool" where
  "isSPFRecord record = (case Fields (TrimSpace record) of [] \<Rightarrow> False | f # _ \<Rightarrow> ToLower f = ''v=spf1'')"

definition containsSPF :: "string \<Rightarrow> bool" where
  "containsSPF record \<longleftrightarrow> isSPFRecord record \<and> ''include:amazonses.com'' \<in> set (Fields (ToLower record))"

text \<open>The fields of a DMARC policy: the last version counts, any policy does.\<close>

definition cut_equals :: "string \<Rightarrow> (string \<times> string) option" where
  "cut_equals s = (if CHR ''='' \<in> set s
     then Some (takeWhile (\<lambda>c. c \<noteq> CHR ''='') s, tl (dropWhile (\<lambda>c. c \<noteq> CHR ''='') s)) else None)"

definition dmarc_field :: "string \<Rightarrow> bool \<times> bool \<Rightarrow> bool \<times> bool" where
  "dmarc_field field acc =
     (case cut_equals (TrimSpace field) of
        None \<Rightarrow> acc
      | Some (k, v) \<Rightarrow>
          if ToLower (TrimSpace k) = ''v'' then (ToLower (TrimSpace v) = ''dmarc1'', snd acc)
          else if ToLower (TrimSpace k) = ''p'' then
            (if ToLower (TrimSpace v) \<in> {''none'', ''quarantine'', ''reject''} then (fst acc, True) else acc)
          else acc)"

definition containsDMARC :: "string \<Rightarrow> bool" where
  "containsDMARC record = (case fold dmarc_field (split_at (CHR '';'') record) (False, False) of (v, p) \<Rightarrow> v \<and> p)"

definition inboundMXHost :: "string \<Rightarrow> string" where
  "inboundMXHost region0 =
     (let region = ToLower (TrimSpace region0) in
      if isPrefix ''cn-'' region then ''inbound-smtp.'' @ region @ ''.amazonaws.com.cn'' else ''inbound-smtp.'' @ region @ ''.amazonaws.com'')"

definition containsInboundMX :: "string list \<Rightarrow> string \<Rightarrow> bool" where
  "containsInboundMX hosts region =
     (let expected = TrimSuffix (ToLower (inboundMXHost region)) ''.'' in
      if expected = ''inbound-smtp..amazonaws.com'' \<or> expected = ''inbound-smtp..amazonaws.com.cn'' then False
      else list_ex (\<lambda>h. TrimSuffix (ToLower (TrimSpace h)) ''.'' = expected) hosts)"

definition dnsRecordHost :: "string \<Rightarrow> string \<Rightarrow> string" where
  "dnsRecordHost record0 name0 =
     (let record = TrimSuffix (TrimSpace record0) ''.''; name = TrimSuffix (TrimSpace name0) ''.''; suffix = ''.'' @ name in
      if name \<noteq> [] then TrimSuffix record suffix else record)"

definition shown :: "string option \<Rightarrow> string option" where
  "shown r = (case r of None \<Rightarrow> None | Some x \<Rightarrow> if TrimSpace x = [] then None else Some x)"

definition buildDNSRecords :: "Domain \<Rightarrow> DNSRecord list" where
  "buildDNSRecords d =
     (case shown (doSPFDNSRecord d) of None \<Rightarrow> []
      | Some v \<Rightarrow> [\<lparr>drType = DNSRecordTypeTXT, drHost = ''@'', drValue = v, drTTL = 3600, drStatus = doSPFStatus d, drOptional = False\<rparr>]) @
     (case shown (doMXDNSRecord d) of None \<Rightarrow> []
      | Some v \<Rightarrow> [\<lparr>drType = DNSRecordTypeMX, drHost = ''@'', drValue = v, drTTL = 3600, drStatus = doMXStatus d, drOptional = True\<rparr>]) @
     (case shown (doVerificationDNSRecord d) of None \<Rightarrow> []
      | Some h \<Rightarrow> if doVerificationToken d = [] then []
          else [\<lparr>drType = DNSRecordTypeTXT, drHost = dnsRecordHost h (doName d), drValue = doVerificationToken d, drTTL = 3600,
                 drStatus = doVerificationStatus d, drOptional = False\<rparr>]) @
     (case shown (doDMARCDNSRecord d) of None \<Rightarrow> []
      | Some h \<Rightarrow> [\<lparr>drType = DNSRecordTypeTXT, drHost = dnsRecordHost h (doName d), drValue = ''v=DMARC1; p=none'', drTTL = 3600,
             drStatus = doDMARCStatus d, drOptional = False\<rparr>]) @
     doDKIMDNSRecords d"

section \<open>Repository\<close>

record registry =
  rgAcct :: account
  rgDomains :: "Domain list"

text \<open>\<open>lower(trim(trailing '.' FROM name))\<close>, unique over all teams.\<close>

definition canonical_name :: "string \<Rightarrow> string" where
  "canonical_name n = ToLower (rev (dropWhile (\<lambda>c. c = CHR ''.'') (rev n)))"

definition status_too_long :: "Domain \<Rightarrow> bool" where
  "status_too_long d \<longleftrightarrow> list_ex (\<lambda>x. char_length x > 50)
     [doVerificationStatus d, doSESVerificationStatus d, doSPFStatus d, doMXStatus d, doDKIMStatus d, doDMARCStatus d]"

definition DomainRepo_Create :: "instant \<Rightarrow> Domain \<Rightarrow> registry \<Rightarrow> registry \<times> unit result" where
  "DomainRepo_Create now d s =
     (if char_length (doName d) > 255 \<or> char_length (doVerificationToken d) > 255 \<or> status_too_long d then (s, Inl ValueTooLong)
      else if list_ex (\<lambda>r. doID r = doID d \<or> canonical_name (doName r) = canonical_name (doName d)) (rgDomains s) then (s, Inl UniqueViolation)
      else if by_key tmID (doTeamID d) (teams (rgAcct s)) = None then (s, Inl ForeignKeyViolation)
      else (s\<lparr>rgDomains := rgDomains s @ [d\<lparr>doCreatedAt := now\<rparr>]\<rparr>, Inr ()))"

definition DomainRepo_GetByID :: "uuid \<Rightarrow> registry \<Rightarrow> Domain result" where
  "DomainRepo_GetByID i s = (case by_key doID i (rgDomains s) of None \<Rightarrow> Inl ErrNoRows | Some d \<Rightarrow> Inr d)"

definition DomainRepo_GetByIDForTeam :: "uuid \<Rightarrow> uuid \<Rightarrow> registry \<Rightarrow> Domain result" where
  "DomainRepo_GetByIDForTeam team i s =
     (case find (\<lambda>d. doID d = i \<and> doTeamID d = team) (rgDomains s) of None \<Rightarrow> Inl ErrNoRows | Some d \<Rightarrow> Inr d)"

definition DomainRepo_GetByName :: "uuid \<Rightarrow> string \<Rightarrow> registry \<Rightarrow> Domain result" where
  "DomainRepo_GetByName team name s =
     (case find (\<lambda>d. doTeamID d = team \<and> canonical_name (doName d) = canonical_name name) (rgDomains s) of None \<Rightarrow> Inl ErrNoRows | Some d \<Rightarrow> Inr d)"

definition DomainRepo_List :: "uuid \<Rightarrow> registry \<Rightarrow> Domain list" where
  "DomainRepo_List team s = sort_key (\<lambda>d. - doCreatedAt d) (filter (\<lambda>d. doTeamID d = team) (rgDomains s))"

definition domain_set :: "Domain \<Rightarrow> Domain \<Rightarrow> Domain" where
  "domain_set d r = r\<lparr>doStatus := doStatus d, doVerificationStatus := doVerificationStatus d, doSESVerificationStatus := doSESVerificationStatus d,
     doSPFStatus := doSPFStatus d, doMXStatus := doMXStatus d, doDKIMStatus := doDKIMStatus d, doDMARCStatus := doDMARCStatus d,
     doDKIMDNSRecord := doDKIMDNSRecord d, doDKIMDNSRecords := doDKIMDNSRecords d, doSPFDNSRecord := doSPFDNSRecord d,
     doMXDNSRecord := doMXDNSRecord d, doDMARCDNSRecord := doDMARCDNSRecord d, doVerificationDNSRecord := doVerificationDNSRecord d\<rparr>"

definition update_domain :: "(Domain \<Rightarrow> bool) \<Rightarrow> Domain \<Rightarrow> registry \<Rightarrow> registry \<times> unit result" where
  "update_domain p d s =
     (if \<not> list_ex p (rgDomains s) then (s, Inr ())
      else if status_too_long d then (s, Inl ValueTooLong)
      else (s\<lparr>rgDomains := sql_update p (domain_set d) (rgDomains s)\<rparr>, Inr ()))"

definition DomainRepo_Update :: "Domain \<Rightarrow> registry \<Rightarrow> registry \<times> unit result" where
  "DomainRepo_Update d = update_domain (\<lambda>r. doID r = doID d) d"

definition DomainRepo_UpdateForTeam :: "Domain \<Rightarrow> registry \<Rightarrow> registry \<times> unit result" where
  "DomainRepo_UpdateForTeam d = update_domain (\<lambda>r. doID r = doID d \<and> doTeamID r = doTeamID d) d"

definition DomainRepo_Delete :: "uuid \<Rightarrow> registry \<Rightarrow> registry \<times> unit result" where
  "DomainRepo_Delete i s = (s\<lparr>rgDomains := sql_delete (\<lambda>d. doID d = i) (rgDomains s)\<rparr>, Inr ())"

definition DomainRepo_DeleteForTeam :: "uuid \<Rightarrow> uuid \<Rightarrow> registry \<Rightarrow> registry \<times> unit result" where
  "DomainRepo_DeleteForTeam team i s = (s\<lparr>rgDomains := sql_delete (\<lambda>d. doID d = i \<and> doTeamID d = team) (rgDomains s)\<rparr>, Inr ())"

definition GetTeamByDomain :: "string \<Rightarrow> registry \<Rightarrow> uuid result" where
  "GetTeamByDomain name s =
     (case find (\<lambda>d. canonical_name (doName d) = name \<and> doStatus d = DomainStatusVerified \<and> doMXStatus d = ''verified'') (rgDomains s) of
        None \<Rightarrow> Inl ErrNoRows | Some d \<Rightarrow> Inr (doTeamID d))"

section \<open>Service\<close>

record domain_env =
  dvAccess :: access_env
  dvRegion :: string
  dvIsIP :: "string \<Rightarrow> bool"
  dvHex :: "string \<Rightarrow> string"
  dvIdentity :: "identity_api option"
  dvLookupTXT :: "string \<Rightarrow> string list option"
  dvLookupMX :: "string \<Rightarrow> string list option"

datatype domain_error = DomainRefused string | DomainNotFound | IdentityUnavailable string | DomainDB string db_error

definition dkim_record :: "Domain \<Rightarrow> string \<Rightarrow> string \<Rightarrow> DNSRecord" where
  "dkim_record d zone token =
     \<lparr>drType = DNSRecordTypeCNAME, drHost = token @ ''._domainkey.'' @ doName d, drValue = token @ ''.'' @ zone, drTTL = 3600,
      drStatus = doDKIMStatus d, drOptional = False\<rparr>"

definition applySESIdentity :: "SESIdentity option \<Rightarrow> Domain \<Rightarrow> Domain" where
  "applySESIdentity identity d =
     (case identity of
        None \<Rightarrow> d\<lparr>doSESVerificationStatus := ''pending'', doDKIMStatus := ''pending''\<rparr>
      | Some x \<Rightarrow>
          (let d1 = (if sidVerificationStatus x \<noteq> [] then d\<lparr>doSESVerificationStatus := ToLower (sidVerificationStatus x)\<rparr> else d);
               d2 = (if sidVerifiedForSending x then d1\<lparr>doSESVerificationStatus := ''verified''\<rparr> else d1);
               d3 = (if sidDKIMStatus x \<noteq> [] then d2\<lparr>doDKIMStatus := ToLower (sidDKIMStatus x)\<rparr> else d2);
               d4 = (if doDKIMStatus d3 = ''success'' then d3\<lparr>doDKIMStatus := ''verified''\<rparr> else d3);
               zone0 = TrimSuffix (TrimSpace (sidSigningHostedZone x)) ''.'';
               zone = (if zone0 = [] then ''dkim.amazonses.com'' else zone0);
               records = map (dkim_record d4 zone) (filter (\<lambda>t. t \<noteq> []) (map TrimSpace (sidDKIMTokens x)))
           in if sidDKIMTokens x = [] then d4
              else d4\<lparr>doDKIMDNSRecords := records, doDKIMDNSRecord := (case records of [] \<Rightarrow> doDKIMDNSRecord d4 | r # _ \<Rightarrow> Some (drHost r))\<rparr>))"

definition generateToken :: "domain_env \<Rightarrow> string option" where
  "generateToken env = (case aeRandom (dvAccess env) of None \<Rightarrow> None | Some bytes \<Rightarrow> Some (''sender-api-verify-'' @ dvHex env bytes))"

definition new_domain :: "domain_env \<Rightarrow> uuid \<Rightarrow> string \<Rightarrow> string \<Rightarrow> Domain" where
  "new_domain env team name token =
     \<lparr>doID = aeFreshID (dvAccess env), doTeamID = team, doName = name, doStatus = DomainStatusPending, doVerificationToken = token,
      doVerificationStatus = ''pending'', doSESVerificationStatus = ''pending'', doSPFStatus = ''pending'', doMXStatus = ''pending'',
      doDKIMStatus = ''pending'', doDMARCStatus = ''pending'', doDKIMDNSRecord = None, doDKIMDNSRecords = [],
      doSPFDNSRecord = Some ''v=spf1 include:amazonses.com ~all'', doMXDNSRecord = Some (inboundMXHost (dvRegion env)),
      doDMARCDNSRecord = Some (''_dmarc.'' @ name), doVerificationDNSRecord = Some (''_sender-api-verification.'' @ name), doCreatedAt = 0\<rparr>"

definition domain_name :: "string \<Rightarrow> string" where
  "domain_name raw = ToLower (TrimSuffix (TrimSpace raw) ''.'')"

definition store_domain :: "domain_env \<Rightarrow> Domain \<Rightarrow> registry \<Rightarrow> registry \<times> (domain_error + Domain)" where
  "store_domain env d s =
     (case run_call (aeFault (dvAccess env) AcSecond) (DomainRepo_Create (aeNow (dvAccess env)) d) s of
        (s', Inl e) \<Rightarrow> (s', Inl (DomainDB ''failed to create domain: '' e))
      | (s', Inr _) \<Rightarrow> (s', Inr d))"

definition DomainService_Create :: "domain_env \<Rightarrow> uuid \<Rightarrow> string option \<Rightarrow> registry \<Rightarrow> registry \<times> (domain_error + Domain)" where
  "DomainService_Create env team reqp s =
     (case reqp of
        None \<Rightarrow> (s, Inl (DomainRefused ''domain request is required''))
      | Some raw \<Rightarrow>
          (let name = domain_name raw in
           if \<not> IsValidDomain (dvIsIP env) name then (s, Inl (DomainRefused ''invalid domain name''))
           else case snd (run_call (aeFault (dvAccess env) AcFirst) (\<lambda>s. (s, DomainRepo_GetByName team name s)) s) of
                  Inr _ \<Rightarrow> (s, Inl (DomainRefused (''domain '' @ name @ '' already exists'')))
                | Inl _ \<Rightarrow>
                    (case generateToken env of
                       None \<Rightarrow> (s, Inl (DomainRefused ''failed to generate verification token: ''))
                     | Some token \<Rightarrow>
                         (let d = new_domain env team name token in
                          case dvIdentity env of
                            None \<Rightarrow> store_domain env d s
                          | Some api \<Rightarrow>
                              (case SESIdentityProvider_Create api name of
                                 None \<Rightarrow> (s, Inl (IdentityUnavailable ''failed to initialize SES identity: ''))
                               | Some identity \<Rightarrow> store_domain env (applySESIdentity (Some identity) d) s)))))"

definition DomainService_GetByID :: "domain_env \<Rightarrow> uuid \<Rightarrow> uuid \<Rightarrow> registry \<Rightarrow> domain_error + Domain \<times> DNSRecord list" where
  "DomainService_GetByID env team i s =
     (case snd (run_call (aeFault (dvAccess env) AcFirst) (\<lambda>s. (s, DomainRepo_GetByIDForTeam team i s)) s) of
        Inl _ \<Rightarrow> Inl DomainNotFound | Inr d \<Rightarrow> Inr (d, buildDNSRecords d))"

definition DomainService_List :: "domain_env \<Rightarrow> uuid \<Rightarrow> registry \<Rightarrow> (Domain \<times> DNSRecord list) list result" where
  "DomainService_List env team s =
     (case snd (run_call (aeFault (dvAccess env) AcFirst) (\<lambda>s. (s, Inr (DomainRepo_List team s))) s) of
        Inl e \<Rightarrow> Inl e | Inr ds \<Rightarrow> Inr (map (\<lambda>d. (d, buildDNSRecords d)) ds))"

definition outboundDomainVerified :: "Domain \<Rightarrow> bool" where
  "outboundDomainVerified d \<longleftrightarrow> doSPFStatus d = ''verified'' \<and> doVerificationStatus d = ''verified'' \<and>
     doSESVerificationStatus d = ''verified'' \<and> doDKIMStatus d = ''verified''"

text \<open>The checks of a verification, one after the other on the row that was read.\<close>

definition reset_checks :: "domain_env \<Rightarrow> Domain \<Rightarrow> Domain" where
  "reset_checks env d =
     d\<lparr>doSPFStatus := ''pending'', doMXStatus := ''pending'', doVerificationStatus := ''pending'', doSESVerificationStatus := ''pending'',
       doStatus := DomainStatusPending,
       doMXDNSRecord := (case doMXDNSRecord d of None \<Rightarrow> Some (inboundMXHost (dvRegion env)) | Some m \<Rightarrow> Some m),
       doDMARCDNSRecord := (case doDMARCDNSRecord d of None \<Rightarrow> Some (''_dmarc.'' @ doName d) | Some m \<Rightarrow> Some m)\<rparr>"

definition check_spf :: "domain_env \<Rightarrow> Domain \<Rightarrow> Domain" where
  "check_spf env d =
     (case dvLookupTXT env (doName d) of
        None \<Rightarrow> d
      | Some records \<Rightarrow>
          (let spf = filter isSPFRecord records in
           if length spf = 1 \<and> list_ex containsSPF spf then d\<lparr>doSPFStatus := ''verified''\<rparr>
           else if length spf > 1 then d\<lparr>doSPFStatus := ''failed''\<rparr> else d))"

definition check_token :: "domain_env \<Rightarrow> Domain \<Rightarrow> Domain" where
  "check_token env d =
     (case doVerificationDNSRecord d of
        None \<Rightarrow> d
      | Some host \<Rightarrow>
          if doVerificationToken d = [] then d
          else case dvLookupTXT env host of
                 None \<Rightarrow> d
               | Some records \<Rightarrow> if doVerificationToken d \<in> set records then d\<lparr>doVerificationStatus := ''verified''\<rparr> else d)"

definition check_mx :: "domain_env \<Rightarrow> Domain \<Rightarrow> Domain" where
  "check_mx env d =
     (case dvLookupMX env (doName d) of
        None \<Rightarrow> d
      | Some hosts \<Rightarrow> if containsInboundMX hosts (dvRegion env) then d\<lparr>doMXStatus := ''verified''\<rparr> else d\<lparr>doMXStatus := ''failed''\<rparr>)"

definition check_dmarc :: "domain_env \<Rightarrow> Domain \<Rightarrow> Domain" where
  "check_dmarc env d =
     d\<lparr>doDMARCStatus :=
        (case doDMARCDNSRecord d of
           None \<Rightarrow> ''failed''
         | Some host \<Rightarrow> (case dvLookupTXT env host of
                          None \<Rightarrow> ''failed'' | Some records \<Rightarrow> if list_ex containsDMARC records then ''verified'' else ''failed''))\<rparr>"

definition verified_domain :: "domain_env \<Rightarrow> Domain \<Rightarrow> Domain" where
  "verified_domain env d =
     (let x = check_dmarc env (check_mx env (check_token env (check_spf env d))) in
      if outboundDomainVerified x then x\<lparr>doStatus := DomainStatusVerified\<rparr> else x)"

definition store_checks :: "domain_env \<Rightarrow> Domain \<Rightarrow> registry \<Rightarrow> registry \<times> (domain_error + unit)" where
  "store_checks env d s =
     (case run_call (aeFault (dvAccess env) AcSecond) (DomainRepo_UpdateForTeam d) s of
        (s', Inl e) \<Rightarrow> (s', Inl (DomainDB [] e)) | (s', Inr _) \<Rightarrow> (s', Inr ()))"

definition DomainService_Verify :: "domain_env \<Rightarrow> uuid \<Rightarrow> uuid \<Rightarrow> registry \<Rightarrow> registry \<times> (domain_error + unit)" where
  "DomainService_Verify env team i s =
     (case snd (run_call (aeFault (dvAccess env) AcFirst) (\<lambda>s. (s, DomainRepo_GetByIDForTeam team i s)) s) of
        Inl _ \<Rightarrow> (s, Inl DomainNotFound)
      | Inr d0 \<Rightarrow>
          (let d = reset_checks env d0 in
           case dvIdentity env of
             None \<Rightarrow> store_checks env (verified_domain env (d\<lparr>doDKIMStatus := ''pending''\<rparr>)) s
           | Some api \<Rightarrow>
               (case SESIdentityProvider_Get api (doName d) of
                  None \<Rightarrow> (s, Inl (IdentityUnavailable ''failed to read SES identity: ''))
                | Some identity \<Rightarrow> store_checks env (verified_domain env (applySESIdentity (Some identity) d)) s)))"

definition DomainService_Delete :: "domain_env \<Rightarrow> uuid \<Rightarrow> uuid \<Rightarrow> registry \<Rightarrow> registry \<times> unit result" where
  "DomainService_Delete env team i s = run_call (aeFault (dvAccess env) AcFirst) (DomainRepo_DeleteForTeam team i) s"

section \<open>Endpoints\<close>

definition domain_error_text :: "access_env \<Rightarrow> domain_error \<Rightarrow> string" where
  "domain_error_text env e = (case e of DomainRefused t \<Rightarrow> t | DomainNotFound \<Rightarrow> ''domain not found'' | IdentityUnavailable t \<Rightarrow> t
     | DomainDB lead d \<Rightarrow> lead @ aeDBText env d)"

definition DomainHandler_Create :: "domain_env \<Rightarrow> Claims option \<Rightarrow> string option \<Rightarrow> registry \<Rightarrow> registry \<times> (reply + Domain)" where
  "DomainHandler_Create env c body s =
     (case requireRoles c [''owner'', ''admin''] of
        Some r \<Rightarrow> (s, Inl r)
      | None \<Rightarrow>
          (case body of
             None \<Rightarrow> (s, Inl (writeError ''invalid request body'' 400))
           | Some name \<Rightarrow>
               (case getTeamID (dvAccess env) c of
                  Inl r \<Rightarrow> (s, Inl r)
                | Inr team \<Rightarrow>
                    (case DomainService_Create env team (Some name) s of
                       (s', Inl e) \<Rightarrow> (s', Inl (writeError (domain_error_text (dvAccess env) e) 400))
                     | (s', Inr d) \<Rightarrow> (s', Inr d)))))"

definition DomainHandler_List :: "domain_env \<Rightarrow> Claims option \<Rightarrow> registry \<Rightarrow> reply + (Domain \<times> DNSRecord list) list" where
  "DomainHandler_List env c s =
     (case requirePermission c ''read'' of
        Some r \<Rightarrow> Inl r
      | None \<Rightarrow>
          (case getTeamID (dvAccess env) c of
             Inl r \<Rightarrow> Inl r
           | Inr team \<Rightarrow> (case DomainService_List env team s of Inl e \<Rightarrow> Inl (writeError (aeDBText (dvAccess env) e) 500) | Inr ds \<Rightarrow> Inr ds)))"

definition DomainHandler_GetByID :: "domain_env \<Rightarrow> Claims option \<Rightarrow> string \<Rightarrow> registry \<Rightarrow> reply + Domain \<times> DNSRecord list" where
  "DomainHandler_GetByID env c idText s =
     (case requirePermission c ''read'' of
        Some r \<Rightarrow> Inl r
      | None \<Rightarrow>
          (case getTeamID (dvAccess env) c of
             Inl r \<Rightarrow> Inl r
           | Inr team \<Rightarrow>
               (case aeParseUUID (dvAccess env) idText of
                  None \<Rightarrow> Inl (writeError ''invalid id'' 400)
                | Some i \<Rightarrow> (case DomainService_GetByID env team i s of Inl _ \<Rightarrow> Inl (writeError ''domain not found'' 404) | Inr x \<Rightarrow> Inr x))))"

definition DomainHandler_Verify :: "domain_env \<Rightarrow> Claims option \<Rightarrow> string \<Rightarrow> registry \<Rightarrow> registry \<times> (reply + unit)" where
  "DomainHandler_Verify env c idText s =
     (case requireRoles c [''owner'', ''admin''] of
        Some r \<Rightarrow> (s, Inl r)
      | None \<Rightarrow>
          (case getTeamID (dvAccess env) c of
             Inl r \<Rightarrow> (s, Inl r)
           | Inr team \<Rightarrow>
               (case aeParseUUID (dvAccess env) idText of
                  None \<Rightarrow> (s, Inl (writeError ''invalid id'' 400))
                | Some i \<Rightarrow>
                    (case DomainService_Verify env team i s of
                       (s', Inl e) \<Rightarrow> (s', Inl (writeError (domain_error_text (dvAccess env) e) 500))
                     | (s', Inr _) \<Rightarrow> (s', Inr ())))))"

definition DomainHandler_Delete :: "domain_env \<Rightarrow> Claims option \<Rightarrow> string \<Rightarrow> registry \<Rightarrow> registry \<times> (reply + unit)" where
  "DomainHandler_Delete env c idText s =
     (case requireRoles c [''owner'', ''admin''] of
        Some r \<Rightarrow> (s, Inl r)
      | None \<Rightarrow>
          (case getTeamID (dvAccess env) c of
             Inl r \<Rightarrow> (s, Inl r)
           | Inr team \<Rightarrow>
               (case aeParseUUID (dvAccess env) idText of
                  None \<Rightarrow> (s, Inl (writeError ''invalid id'' 400))
                | Some i \<Rightarrow>
                    (case DomainService_Delete env team i s of
                       (s', Inl e) \<Rightarrow> (s', Inl (writeError (aeDBText (dvAccess env) e) 500))
                     | (s', Inr _) \<Rightarrow> (s', Inr ())))))"

datatype domain_op = DoCreate "string option" | DoVerify string | DoDelete string

fun exec_d :: "domain_env \<times> Claims option \<times> domain_op \<Rightarrow> registry \<Rightarrow> registry" where
  "exec_d (env, c, DoCreate b) s = fst (DomainHandler_Create env c b s)"
| "exec_d (env, c, DoVerify i) s = fst (DomainHandler_Verify env c i s)"
| "exec_d (env, c, DoDelete i) s = fst (DomainHandler_Delete env c i s)"

definition run_d :: "(domain_env \<times> Claims option \<times> domain_op) list \<Rightarrow> registry \<Rightarrow> registry" where
  "run_d steps s = fold exec_d steps s"

section \<open>What a verification decides\<close>

definition spf_published :: "domain_env \<Rightarrow> string \<Rightarrow> bool" where
  "spf_published env name \<longleftrightarrow> (\<exists>records spf. dvLookupTXT env name = Some records \<and> filter isSPFRecord records = [spf] \<and> containsSPF spf)"

definition token_published :: "domain_env \<Rightarrow> Domain \<Rightarrow> bool" where
  "token_published env d \<longleftrightarrow> doVerificationToken d \<noteq> [] \<and>
     (\<exists>host records. doVerificationDNSRecord d = Some host \<and> dvLookupTXT env host = Some records \<and> doVerificationToken d \<in> set records)"

definition ses_verified :: "SESIdentity \<Rightarrow> bool" where
  "ses_verified x \<longleftrightarrow> sidVerifiedForSending x \<or> ToLower (sidVerificationStatus x) = ''verified''"

definition dkim_verified :: "SESIdentity \<Rightarrow> Domain \<Rightarrow> bool" where
  "dkim_verified x d \<longleftrightarrow> (if sidDKIMStatus x = [] then doDKIMStatus d else ToLower (sidDKIMStatus x)) \<in> {''verified'', ''success''}"

lemma spf_decides:
  assumes "doSPFStatus d \<noteq> ''verified''"
  shows "doSPFStatus (check_spf env d) = ''verified'' \<longleftrightarrow> spf_published env (doName d)"
proof (cases "dvLookupTXT env (doName d)")
  case (Some records)
  consider "filter isSPFRecord records = []" | y where "filter isSPFRecord records = [y]" | y z zs where "filter isSPFRecord records = y # z # zs"
    by (metis neq_Nil_conv)
  then show ?thesis by cases (use assms Some in \<open>simp_all add: check_spf_def spf_published_def\<close>)
qed (use assms in \<open>simp add: check_spf_def spf_published_def\<close>)

lemma token_decides: "doVerificationStatus (check_token env d) = ''verified'' \<longleftrightarrow> doVerificationStatus d = ''verified'' \<or> token_published env d"
  by (auto simp: check_token_def token_published_def split: option.splits)

lemma check_frames [simp]:
  "doName (check_spf env d) = doName d" "doVerificationToken (check_spf env d) = doVerificationToken d"
  "doVerificationDNSRecord (check_spf env d) = doVerificationDNSRecord d" "doVerificationStatus (check_spf env d) = doVerificationStatus d"
  "doSESVerificationStatus (check_spf env d) = doSESVerificationStatus d" "doDKIMStatus (check_spf env d) = doDKIMStatus d" "doStatus (check_spf env d) = doStatus d"
  "doSPFStatus (check_token env d) = doSPFStatus d" "doSESVerificationStatus (check_token env d) = doSESVerificationStatus d"
  "doDKIMStatus (check_token env d) = doDKIMStatus d" "doStatus (check_token env d) = doStatus d"
  "doSPFStatus (check_mx env d) = doSPFStatus d" "doVerificationStatus (check_mx env d) = doVerificationStatus d"
  "doSESVerificationStatus (check_mx env d) = doSESVerificationStatus d" "doDKIMStatus (check_mx env d) = doDKIMStatus d" "doStatus (check_mx env d) = doStatus d"
  by (simp_all add: check_spf_def check_token_def check_mx_def Let_def split: option.splits)

lemma identity_frames [simp]:
  "doName (applySESIdentity x d) = doName d" "doVerificationToken (applySESIdentity x d) = doVerificationToken d"
  "doVerificationDNSRecord (applySESIdentity x d) = doVerificationDNSRecord d" "doVerificationStatus (applySESIdentity x d) = doVerificationStatus d"
  "doSPFStatus (applySESIdentity x d) = doSPFStatus d" "doStatus (applySESIdentity x d) = doStatus d"
  by (simp_all add: applySESIdentity_def Let_def split: option.splits)

lemma identity_decides:
  "doSESVerificationStatus (applySESIdentity (Some x) d) = ''verified'' \<longleftrightarrow>
     ses_verified x \<or> sidVerificationStatus x = [] \<and> doSESVerificationStatus d = ''verified''"
  "doDKIMStatus (applySESIdentity (Some x) d) = ''verified'' \<longleftrightarrow> dkim_verified x d"
  by (auto simp: applySESIdentity_def ses_verified_def dkim_verified_def Let_def ToLower_def)

text \<open>A verification with an identity: the row becomes verified exactly when all four proofs are there.\<close>

lemma verification_decides:
  "doStatus (verified_domain env (applySESIdentity (Some x) (reset_checks env d))) = DomainStatusVerified \<longleftrightarrow>
     spf_published env (doName d) \<and> token_published env d \<and> ses_verified x \<and> dkim_verified x d"
proof -
  let ?d = "applySESIdentity (Some x) (reset_checks env d)"
  have r: "doName (reset_checks env d) = doName d" "doDKIMStatus (reset_checks env d) = doDKIMStatus d" "doSPFStatus (reset_checks env d) = ''pending''"
      "doVerificationStatus (reset_checks env d) = ''pending''" "doSESVerificationStatus (reset_checks env d) = ''pending''"
      "doStatus (reset_checks env d) = DomainStatusPending" "token_published env (reset_checks env d) = token_published env d"
    by (simp_all add: reset_checks_def token_published_def)
  have "token_published env (check_spf env ?d) = token_published env (reset_checks env d)" by (simp add: token_published_def)
  then have out: "outboundDomainVerified (check_dmarc env (check_mx env (check_token env (check_spf env ?d)))) \<longleftrightarrow>
      spf_published env (doName d) \<and> token_published env d \<and> ses_verified x \<and> dkim_verified x d"
    using r by (simp add: outboundDomainVerified_def check_dmarc_def spf_decides token_decides identity_decides dkim_verified_def)
  show ?thesis unfolding verified_domain_def Let_def
    using out r(6) by (simp add: check_dmarc_def)
qed

section \<open>One name, one team\<close>

definition registry_ok :: "registry \<Rightarrow> bool" where
  "registry_ok s \<longleftrightarrow> keyed doID (rgDomains s) \<and> keyed (\<lambda>d. canonical_name (doName d)) (rgDomains s) \<and>
     (\<forall>d \<in> set (rgDomains s). by_key tmID (doTeamID d) (teams (rgAcct s)) \<noteq> None)"

text \<open>What a request can do to the table.\<close>

definition created_domain :: "domain_env \<Rightarrow> uuid \<Rightarrow> Domain \<Rightarrow> bool" where
  "created_domain env team d \<longleftrightarrow> (\<exists>name token x. d = new_domain env team name token \<or> d = applySESIdentity (Some x) (new_domain env team name token))"

definition registry_step :: "domain_env \<times> Claims option \<times> domain_op \<Rightarrow> registry \<Rightarrow> registry \<Rightarrow> bool" where
  "registry_step step s s' \<longleftrightarrow> (case step of (env, c, op) \<Rightarrow>
     s' = s \<or>
     (\<exists>team. HasAnyRole c [''owner'', ''admin''] \<and> getTeamID (dvAccess env) c = Inr team \<and>
       ((\<exists>now d. created_domain env team d \<and> s' = fst (DomainRepo_Create now d s)) \<or>
        (\<exists>i d. DomainRepo_GetByIDForTeam team i s = Inr d \<and> dvIdentity env = None \<and>
           s' = fst (DomainRepo_UpdateForTeam (verified_domain env ((reset_checks env d)\<lparr>doDKIMStatus := ''pending''\<rparr>)) s)) \<or>
        (\<exists>i d api x. DomainRepo_GetByIDForTeam team i s = Inr d \<and> dvIdentity env = Some api \<and> SESIdentityProvider_Get api (doName d) = Some x \<and>
           s' = fst (DomainRepo_UpdateForTeam (verified_domain env (applySESIdentity (Some x) (reset_checks env d))) s)) \<or>
        (\<exists>i. s' = fst (DomainRepo_DeleteForTeam team i s)))))"

lemma store_domain_state:
  "fst (store_domain env d s) = s \<or> fst (store_domain env d s) = fst (DomainRepo_Create (aeNow (dvAccess env)) d s)"
  using run_call_state [of "aeFault (dvAccess env) AcSecond" "DomainRepo_Create (aeNow (dvAccess env)) d" s]
  by (auto simp: store_domain_def split: prod.splits sum.splits)

lemma store_checks_state:
  "fst (store_checks env d s) = s \<or> fst (store_checks env d s) = fst (DomainRepo_UpdateForTeam d s)"
  using run_call_state [of "aeFault (dvAccess env) AcSecond" "DomainRepo_UpdateForTeam d" s]
  by (auto simp: store_checks_def split: prod.splits sum.splits)

lemma read_call_Inr: "snd (run_call f (\<lambda>s. (s, r s)) s) = Inr d \<Longrightarrow> r s = Inr d"
  by (cases f) auto

lemma service_create_registry:
  "fst (DomainService_Create env team b s) = s \<or> (\<exists>now d. created_domain env team d \<and> fst (DomainService_Create env team b s) = fst (DomainRepo_Create now d s))"
proof (cases "fst (DomainService_Create env team b s) = s")
  case False
  obtain raw where b: "b = Some raw" using False by (cases b) (simp_all add: DomainService_Create_def)
  let ?n = "domain_name raw"
  obtain token where t: "fst (DomainService_Create env team b s) = fst (case dvIdentity env of
      None \<Rightarrow> store_domain env (new_domain env team ?n token) s
    | Some api \<Rightarrow> (case SESIdentityProvider_Create api ?n of
        None \<Rightarrow> (s, Inl (IdentityUnavailable ''failed to initialize SES identity: ''))
      | Some identity \<Rightarrow> store_domain env (applySESIdentity (Some identity) (new_domain env team ?n token)) s))"
    using False by (auto simp: b DomainService_Create_def Let_def split: sum.splits if_splits option.splits)
  have new: "created_domain env team (new_domain env team ?n token)" "created_domain env team (applySESIdentity (Some x) (new_domain env team ?n token))" for x
    unfolding created_domain_def by blast+
  obtain d where "created_domain env team d" "fst (DomainService_Create env team b s) = fst (store_domain env d s)"
  proof (cases "dvIdentity env")
    case None
    then show ?thesis using that [OF new(1)] t by simp
  next
    case (Some api)
    then show ?thesis using that [OF new(2)] t False by (cases "SESIdentityProvider_Create api ?n") simp_all
  qed
  then show ?thesis using store_domain_state [of env d s] False by metis
qed simp

lemma service_verify_registry:
  "fst (DomainService_Verify env team i s) = s \<or>
   (\<exists>d. DomainRepo_GetByIDForTeam team i s = Inr d \<and> dvIdentity env = None \<and>
      fst (DomainService_Verify env team i s) = fst (DomainRepo_UpdateForTeam (verified_domain env ((reset_checks env d)\<lparr>doDKIMStatus := ''pending''\<rparr>)) s)) \<or>
   (\<exists>d api x. DomainRepo_GetByIDForTeam team i s = Inr d \<and> dvIdentity env = Some api \<and> SESIdentityProvider_Get api (doName d) = Some x \<and>
      fst (DomainService_Verify env team i s) = fst (DomainRepo_UpdateForTeam (verified_domain env (applySESIdentity (Some x) (reset_checks env d))) s))"
proof (cases "snd (run_call (aeFault (dvAccess env) AcFirst) (\<lambda>s. (s, DomainRepo_GetByIDForTeam team i s)) s)")
  case (Inr d)
  note read = read_call_Inr [OF Inr]
  have name: "doName (reset_checks env d) = doName d" by (simp add: reset_checks_def)
  show ?thesis
  proof (cases "dvIdentity env")
    case None
    then have "DomainService_Verify env team i s = store_checks env (verified_domain env ((reset_checks env d)\<lparr>doDKIMStatus := ''pending''\<rparr>)) s"
      using Inr by (simp add: DomainService_Verify_def Let_def)
    then show ?thesis using read None store_checks_state by metis
  next
    case (Some api)
    show ?thesis
    proof (cases "SESIdentityProvider_Get api (doName d)")
      case (Some x)
      then have "DomainService_Verify env team i s = store_checks env (verified_domain env (applySESIdentity (Some x) (reset_checks env d))) s"
        using Inr \<open>dvIdentity env = Some api\<close> by (simp add: DomainService_Verify_def Let_def name)
      then show ?thesis using read Some \<open>dvIdentity env = Some api\<close> store_checks_state by metis
    qed (use Inr Some in \<open>simp add: DomainService_Verify_def Let_def name\<close>)
  qed
qed (simp add: DomainService_Verify_def)

lemma roles_ok: "requireRoles c roles = None \<Longrightarrow> HasAnyRole c roles"
  by (auto simp: requireRoles_def split: option.splits if_splits)

lemma exec_d_step: "registry_step step s (exec_d step s)"
proof (cases step)
  case (fields env c op)
  show ?thesis
  proof (cases "exec_d step s = s")
    case False
    then have role: "HasAnyRole c [''owner'', ''admin'']" and "\<exists>team. getTeamID (dvAccess env) c = Inr team"
      unfolding fields by (cases op; auto simp: DomainHandler_Create_def DomainHandler_Verify_def DomainHandler_Delete_def
          split: option.splits sum.splits intro: roles_ok)+
    then obtain team where team: "getTeamID (dvAccess env) c = Inr team" by blast
    have "exec_d step s \<in> {fst (DomainService_Create env team b s) | b. True} \<union> {fst (DomainService_Verify env team i s) | i. True} \<union>
        {fst (DomainService_Delete env team i s) | i. True}"
      using False team unfolding fields
      by (cases op; auto simp: DomainHandler_Create_def DomainHandler_Verify_def DomainHandler_Delete_def split: option.splits sum.splits prod.splits)
    then consider b where "exec_d step s = fst (DomainService_Create env team b s)" | i where "exec_d step s = fst (DomainService_Verify env team i s)"
      | i where "exec_d step s = fst (DomainService_Delete env team i s)" by blast
    then show ?thesis
    proof cases
      case 1
      then show ?thesis using service_create_registry [of env team b s] False role team unfolding registry_step_def fields by auto
    next
      case 2
      then show ?thesis using service_verify_registry [of env team i s] False role team unfolding registry_step_def fields by auto
    next
      case 3
      have "exec_d step s = fst (DomainRepo_DeleteForTeam team i s)"
        using run_call_state [of "aeFault (dvAccess env) AcFirst" "DomainRepo_DeleteForTeam team i" s] False 3 by (simp add: DomainService_Delete_def)
      then show ?thesis using role team unfolding registry_step_def fields by auto
    qed
  qed (auto simp: registry_step_def fields)
qed

lemma keyed_inj: "keyed key rows \<Longrightarrow> r \<in> set rows \<Longrightarrow> q \<in> set rows \<Longrightarrow> key r = key q \<Longrightarrow> r = q"
  by (auto simp: keyed_def distinct_map inj_on_def)

lemma create_domain_ok: "registry_ok s \<Longrightarrow> registry_ok (fst (DomainRepo_Create now d s))"
  by (auto simp: registry_ok_def DomainRepo_Create_def keyed_append_one by_key_None_iff list_ex_iff)

lemma update_domain_ok: "registry_ok s \<Longrightarrow> registry_ok (fst (update_domain p d s))"
  unfolding update_domain_def registry_ok_def by (auto simp: domain_set_def in_sql_update intro!: keyed_sql_update)

lemma delete_domain_ok: "registry_ok s \<Longrightarrow> registry_ok (fst (DomainRepo_DeleteForTeam team i s))"
  by (auto simp: registry_ok_def DomainRepo_DeleteForTeam_def keyed_sql_delete) (auto simp: sql_delete_def)

lemma registry_step_ok: "registry_step step s s' \<Longrightarrow> registry_ok s \<Longrightarrow> registry_ok s'"
  using create_domain_ok update_domain_ok delete_domain_ok
  by (auto simp: registry_step_def DomainRepo_UpdateForTeam_def split: prod.splits)

lemma run_d_ok: "registry_ok s \<Longrightarrow> registry_ok (run_d steps s)"
proof (induction steps arbitrary: s)
  case (Cons step steps)
  then show ?case using registry_step_ok [OF exec_d_step] by (simp add: run_d_def)
qed (simp add: run_d_def)

text \<open>C29: A name belongs to one team. Through every sequence of requests of all teams, with every pattern of failing
  calls, no two registrations have the same name up to case and trailing dots; so the team a message
  is received for, and the team that may send from a name, is unique.\<close>

theorem domain_has_one_team:
  assumes "registry_ok s" and "d \<in> set (rgDomains (run_d steps s))" and "d' \<in> set (rgDomains (run_d steps s))"
    and "canonical_name (doName d) = canonical_name (doName d')"
  shows "d = d' \<and> (\<forall>team. GetTeamByDomain (canonical_name (doName d)) (run_d steps s) = Inr team \<longrightarrow>
    team = doTeamID d \<and> doStatus d = DomainStatusVerified \<and> doMXStatus d = ''verified'')"
proof -
  let ?s = "run_d steps s"
  have key: "keyed (\<lambda>d. canonical_name (doName d)) (rgDomains ?s)" using run_d_ok [OF assms(1)] by (simp add: registry_ok_def)
  have one: "e = d" if "e \<in> set (rgDomains ?s)" "canonical_name (doName e) = canonical_name (doName d)" for e
    using keyed_inj [OF key that(1) assms(2) that(2)] .
  have "team = doTeamID d \<and> doStatus d = DomainStatusVerified \<and> doMXStatus d = ''verified''"
    if team: "GetTeamByDomain (canonical_name (doName d)) ?s = Inr team" for team
  proof -
    obtain e where e: "find (\<lambda>e. canonical_name (doName e) = canonical_name (doName d) \<and> doStatus e = DomainStatusVerified \<and> doMXStatus e = ''verified'')
        (rgDomains ?s) = Some e" "team = doTeamID e"
      using team by (auto simp: GetTeamByDomain_def split: option.splits)
    then have "e \<in> set (rgDomains ?s) \<and> canonical_name (doName e) = canonical_name (doName d) \<and> doStatus e = DomainStatusVerified \<and> doMXStatus e = ''verified''"
      by (auto simp: find_Some_iff in_set_conv_nth)
    then show ?thesis using one e(2) by blast
  qed
  then show ?thesis using one [OF assms(3)] assms(4) by simp
qed

section \<open>Nothing is verified without proof\<close>

text \<open>The proofs a verification must have seen. The state of DKIM is the one the provider reports; when it reports none the
  state of the previous verification stays.\<close>

definition proven :: "Domain \<Rightarrow> domain_env \<times> Claims option \<times> domain_op \<Rightarrow> bool" where
  "proven d step \<longleftrightarrow> (case step of (env, c, op) \<Rightarrow>
     HasAnyRole c [''owner'', ''admin''] \<and> getTeamID (dvAccess env) c = Inr (doTeamID d) \<and>
     spf_published env (doName d) \<and> token_published env d \<and>
     (\<exists>api x. dvIdentity env = Some api \<and> SESIdentityProvider_Get api (doName d) = Some x \<and> ses_verified x \<and>
        (ToLower (sidDKIMStatus x) \<in> {''verified'', ''success''} \<or> sidDKIMStatus x = [])))"

definition same_claim :: "Domain \<Rightarrow> Domain \<Rightarrow> bool" where
  "same_claim d e \<longleftrightarrow> doTeamID d = doTeamID e \<and> doName d = doName e \<and> doVerificationToken d = doVerificationToken e \<and>
     doVerificationDNSRecord d = doVerificationDNSRecord e"

lemma proven_same: "same_claim d e \<Longrightarrow> proven d step = proven e step"
  by (simp add: proven_def same_claim_def token_published_def split: prod.splits)

lemma check_ids:
  "doID (check_spf env d) = doID d" "doTeamID (check_spf env d) = doTeamID d" "doVerificationDNSRecord (check_spf env d) = doVerificationDNSRecord d"
  "doID (check_token env d) = doID d" "doTeamID (check_token env d) = doTeamID d" "doVerificationDNSRecord (check_token env d) = doVerificationDNSRecord d"
  "doID (check_mx env d) = doID d" "doTeamID (check_mx env d) = doTeamID d" "doVerificationDNSRecord (check_mx env d) = doVerificationDNSRecord d"
  "doID (check_dmarc env d) = doID d" "doTeamID (check_dmarc env d) = doTeamID d" "doVerificationDNSRecord (check_dmarc env d) = doVerificationDNSRecord d"
  by (simp_all add: check_dmarc_def check_mx_def check_token_def check_spf_def Let_def split: option.splits)

lemma verified_frames [simp]:
  "doVerificationDNSRecord (verified_domain env d) = doVerificationDNSRecord d"
  "doID (verified_domain env d) = doID d" "doTeamID (verified_domain env d) = doTeamID d"
  by (simp_all add: verified_domain_def Let_def check_ids)

lemma reset_frames [simp]:
  "doVerificationDNSRecord (reset_checks env d) = doVerificationDNSRecord d" "doID (reset_checks env d) = doID d"
  "doTeamID (reset_checks env d) = doTeamID d" "doName (reset_checks env d) = doName d" "doStatus (reset_checks env d) = DomainStatusPending"
  by (simp_all add: reset_checks_def)

lemma identity_ids [simp]: "doID (applySESIdentity x d) = doID d" "doTeamID (applySESIdentity x d) = doTeamID d"
  by (simp_all add: applySESIdentity_def Let_def split: option.splits)

lemma updated_rows:
  assumes "registry_ok s" and "DomainRepo_GetByIDForTeam team i s = Inr d" and "doID x = doID d" and "doTeamID x = doTeamID d"
    and "doVerificationDNSRecord x = doVerificationDNSRecord d" and "e \<in> set (rgDomains (fst (DomainRepo_UpdateForTeam x s)))"
  shows "e \<in> set (rgDomains s) \<or> same_claim d e \<and> doStatus e = doStatus x"
proof -
  have d: "d \<in> set (rgDomains s)" using assms(2) by (auto simp: DomainRepo_GetByIDForTeam_def find_Some_iff in_set_conv_nth split: option.splits)
  consider "e \<in> set (rgDomains s)" | r where "r \<in> set (rgDomains s)" "doID r = doID d" "e = domain_set x r"
    using assms(3,6) by (auto simp: DomainRepo_UpdateForTeam_def update_domain_def in_sql_update split: if_splits)
  then show ?thesis
  proof cases
    case (2 r)
    have key: "keyed doID (rgDomains s)" using assms(1) by (simp add: registry_ok_def)
    have "r = d" using keyed_inj [OF key 2(1) d 2(2)] .
    then show ?thesis using 2(3) assms(5) by (simp add: domain_set_def same_claim_def)
  qed simp
qed

lemma registry_step_proven:
  assumes "registry_step step s s'" and "registry_ok s" and "e \<in> set (rgDomains s')" and "doStatus e = DomainStatusVerified"
    and "e \<notin> set (rgDomains s)"
  shows "proven e step"
proof -
  obtain env c op where step: "step = (env, c, op)" by (cases step)
  consider (same) "s' = s" | (create) now team d where "created_domain env team d" "s' = fst (DomainRepo_Create now d s)"
    | (plain) team i d where "DomainRepo_GetByIDForTeam team i s = Inr d" "s' = fst (DomainRepo_UpdateForTeam (verified_domain env ((reset_checks env d)\<lparr>doDKIMStatus := ''pending''\<rparr>)) s)"
    | (ident) team i d api x where "HasAnyRole c [''owner'', ''admin'']" "getTeamID (dvAccess env) c = Inr team" "DomainRepo_GetByIDForTeam team i s = Inr d"
        "dvIdentity env = Some api" "SESIdentityProvider_Get api (doName d) = Some x"
        "s' = fst (DomainRepo_UpdateForTeam (verified_domain env (applySESIdentity (Some x) (reset_checks env d))) s)"
    | (delete) team i where "s' = fst (DomainRepo_DeleteForTeam team i s)"
    using assms(1) unfolding registry_step_def step prod.case by blast
  then show ?thesis
  proof cases
    case (create now team d)
    then have "e = d\<lparr>doCreatedAt := now\<rparr>" using assms(3,5) by (auto simp: DomainRepo_Create_def split: if_splits)
    moreover have "doStatus d = DomainStatusPending" using create(1) by (auto simp: created_domain_def new_domain_def)
    ultimately show ?thesis using assms(4) by simp
  next
    case (plain team i d)
    let ?x = "verified_domain env ((reset_checks env d)\<lparr>doDKIMStatus := ''pending''\<rparr>)"
    have "doStatus e = doStatus ?x" using updated_rows [OF assms(2) plain(1), of ?x e] assms(3,5) plain(2) by auto
    moreover have "\<not> outboundDomainVerified (check_dmarc env (check_mx env (check_token env (check_spf env ((reset_checks env d)\<lparr>doDKIMStatus := ''pending''\<rparr>)))))"
      by (simp add: outboundDomainVerified_def check_dmarc_def)
    ultimately show ?thesis using assms(4) by (simp add: verified_domain_def Let_def check_dmarc_def)
  next
    case (ident team i d api x)
    have e: "same_claim d e" "doStatus e = doStatus (verified_domain env (applySESIdentity (Some x) (reset_checks env d)))"
      using updated_rows [OF assms(2) ident(3), of "verified_domain env (applySESIdentity (Some x) (reset_checks env d))" e] assms(3,5) ident(6) by auto
    have team: "doTeamID d = team"
      using ident(3) by (auto simp: DomainRepo_GetByIDForTeam_def find_Some_iff split: option.splits)
    have "proven d step"
      using verification_decides [of env x d] e(2) assms(4) ident team by (auto simp: proven_def step dkim_verified_def split: if_splits)
    then show ?thesis using proven_same [OF e(1)] by simp
  qed (use assms(3,5) in \<open>auto simp: DomainRepo_DeleteForTeam_def sql_delete_def\<close>)
qed

text \<open>A domain that is verified after any sequence of requests was proven by one of them.\<close>

lemma verified_only_if_proven:
  assumes "registry_ok s" and "\<forall>d \<in> set (rgDomains s). doStatus d \<noteq> DomainStatusVerified"
    and "d \<in> set (rgDomains (run_d steps s))" and "doStatus d = DomainStatusVerified"
  shows "\<exists>step \<in> set steps. proven d step"
proof -
  have "(\<forall>d \<in> set (rgDomains (run_d steps s)). doStatus d = DomainStatusVerified \<longrightarrow> (\<exists>step \<in> set steps. proven d step))"
  proof (induction steps rule: rev_induct)
    case Nil
    then show ?case using assms(2) by (simp add: run_d_def)
  next
    case (snoc step steps)
    let ?s = "run_d steps s"
    have "run_d (steps @ [step]) s = exec_d step ?s" by (simp add: run_d_def)
    moreover have "proven e step" if "e \<in> set (rgDomains (exec_d step ?s))" "doStatus e = DomainStatusVerified" "e \<notin> set (rgDomains ?s)" for e
      using registry_step_proven [OF exec_d_step run_d_ok [OF assms(1)] that] .
    ultimately show ?case using snoc by (metis UnCI list.set_intros(1) set_append)
  qed
  then show ?thesis using assms(3,4) by blast
qed

text \<open>The columns a send reads (theory EmailService).\<close>

definition sending_view :: "registry \<Rightarrow> domain_row list" where
  "sending_view s = map (\<lambda>d. \<lparr>dmTeamID = doTeamID d, dmName = doName d, dmStatus = doStatus d, dmDMARCStatus = doDMARCStatus d\<rparr>) (rgDomains s)"

lemma find_SomeD: "find p xs = Some x \<Longrightarrow> x \<in> set xs \<and> p x"
  by (auto simp: find_Some_iff in_set_conv_nth)

lemma admitted_sender:
  assumes "admitted env team req0 key y req1 req headers"
  shows "\<exists>d \<in> set (sdomains y). dmTeamID d = team \<and> dmStatus d = DomainStatusVerified \<and>
    canonical_name (dmName d) = canonical_name (EmailDomain parse_plain (NormalizeEmail (rFrom req0)))"
proof -
  have "from_domain env team (NormalizeEmail (rFrom req0)) y \<noteq> None"
    using assms by (auto simp: admitted_def validate_head_def Let_def split: if_splits option.splits)
  then obtain d where "find (\<lambda>d. dmTeamID d = team \<and> canonical_name (dmName d) = canonical_name (EmailDomain parse_plain (NormalizeEmail (rFrom req0))))
      (sdomains y) = Some d" "dmStatus d = DomainStatusVerified"
    by (auto simp: from_domain_def GetByName_def canonical_name_def split: fault.splits option.splits if_splits)
  then show ?thesis using find_SomeD by fastforce
qed

text \<open>C28: Nobody sends from a domain it does not control. When a message is accepted, the name behind its sender is a
  registration of this team that was proven: an owner or admin of the team asked for a verification while the DNS
  of the name held exactly one SPF record, which includes the provider, and the random token of this
  registration, and the provider reported the identity verified, with DKIM in order or unreported.\<close>

theorem only_proven_domains_send:
  assumes "registry_ok s" and "\<forall>d \<in> set (rgDomains s). doStatus d \<noteq> DomainStatusVerified"
    and "sdomains y = sending_view (run_d steps s)" and "send env team (Some req) key y = (y', Inr (r, True))"
  shows "\<exists>d \<in> set (rgDomains (run_d steps s)). doTeamID d = team \<and>
    canonical_name (doName d) = canonical_name (EmailDomain parse_plain (NormalizeEmail (rFrom req))) \<and> (\<exists>step \<in> set steps. proven d step)"
  using assms(4)
proof (cases rule: send_cases)
  case (commit req1 req2 headers reserved s1)
  then obtain d where "d \<in> set (rgDomains (run_d steps s))" "doTeamID d = team" "doStatus d = DomainStatusVerified"
      "canonical_name (doName d) = canonical_name (EmailDomain parse_plain (NormalizeEmail (rFrom req)))"
    using admitted_sender [OF commit(1)] assms(3) by (auto simp: sending_view_def)
  then show ?thesis using verified_only_if_proven [OF assms(1,2)] by blast
qed simp_all

section \<open>The instructions work\<close>

lemma shown_records_pass:
  "containsSPF ''v=spf1 include:amazonses.com ~all'' \<and> isSPFRecord ''v=spf1 include:amazonses.com ~all'' \<and> containsDMARC ''v=DMARC1; p=none''"
  by code_simp

lemma pending_short: "\<not> char_length ''pending'' > 50" "\<not> char_length ''verified'' > 50" "\<not> char_length ''failed'' > 50"
  by code_simp+

lemma mx_statuses: "doMXStatus (check_token env (check_spf env d)) = doMXStatus d" "doMXStatus (check_mx env d) \<in> {doMXStatus d, ''verified'', ''failed''}"
  by (simp_all add: check_spf_def check_token_def check_mx_def Let_def split: option.splits)

lemma verified_statuses:
  assumes "outboundDomainVerified (check_dmarc env (check_mx env (check_token env (check_spf env d))))" and "doMXStatus d = ''pending''"
  shows "\<not> status_too_long (verified_domain env d)"
proof -
  let ?m = "check_mx env (check_token env (check_spf env d))"
  have "\<not> char_length (doMXStatus ?m) > 50" using mx_statuses(2) [of env "check_token env (check_spf env d)"] mx_statuses(1) [of env d] assms(2) pending_short by auto
  moreover have "doDMARCStatus (check_dmarc env ?m) \<in> {''verified'', ''failed''}" by (simp add: check_dmarc_def split: option.splits)
  then have "\<not> char_length (doDMARCStatus (check_dmarc env ?m)) > 50" using pending_short by auto
  moreover have "doMXStatus (check_dmarc env ?m) = doMXStatus ?m" by (simp add: check_dmarc_def)
  ultimately show ?thesis using assms(1) pending_short(2)
    unfolding status_too_long_def verified_domain_def Let_def by (simp add: outboundDomainVerified_def)
qed

text \<open>A team that follows the instructions gets its domain verified: when the name has the SPF record that was shown as its
  only one, the verification name has the token among its records and the provider reports the identity and its
  DKIM in order, a verification without failing calls answers with success and stores the row as verified.\<close>

theorem followed_instructions_verify:
  assumes "registry_ok s" and "DomainRepo_GetByIDForTeam team i s = Inr d"
    and "dvLookupTXT env (doName d) = Some [''v=spf1 include:amazonses.com ~all'']"
    and "doVerificationDNSRecord d = Some host" and "dvLookupTXT env host = Some records" and "doVerificationToken d \<in> set records"
    and "doVerificationToken d \<noteq> []" and "dvIdentity env = Some api" and "SESIdentityProvider_Get api (doName d) = Some x"
    and "sidVerifiedForSending x" and "ToLower (sidDKIMStatus x) = ''success''" and "aeFault (dvAccess env) = (\<lambda>_. NoFault)"
  shows "snd (DomainService_Verify env team i s) = Inr () \<and>
    (\<exists>d'. DomainRepo_GetByIDForTeam team i (fst (DomainService_Verify env team i s)) = Inr d' \<and> doStatus d' = DomainStatusVerified \<and> same_claim d d')"
proof -
  let ?d = "applySESIdentity (Some x) (reset_checks env d)"
  let ?x = "verified_domain env ?d"
  let ?p = "\<lambda>r. doID r = doID d \<and> doTeamID r = doTeamID d"
  have d: "find (\<lambda>r. doID r = i \<and> doTeamID r = team) (rgDomains s) = Some d"
    using assms(2) by (auto simp: DomainRepo_GetByIDForTeam_def split: option.splits)
  then have mem: "d \<in> set (rgDomains s)" "doID d = i" "doTeamID d = team" by (auto simp: find_Some_iff in_set_conv_nth)
  have dk: "sidDKIMStatus x \<noteq> []" using assms(11) by (auto simp: ToLower_def)
  have st: "doStatus ?x = DomainStatusVerified"
    using verification_decides [of env x d] assms(3-7,10,11) shown_records_pass dk
    by (auto simp: spf_published_def token_published_def ses_verified_def dkim_verified_def)
  then have out: "outboundDomainVerified (check_dmarc env (check_mx env (check_token env (check_spf env ?d))))"
    by (auto simp: verified_domain_def Let_def check_dmarc_def split: if_splits)
  have "doMXStatus ?d = ''pending''" by (simp add: applySESIdentity_def Let_def reset_checks_def)
  then have short: "\<not> status_too_long ?x" by (rule verified_statuses [OF out])
  have run: "DomainService_Verify env team i s = store_checks env ?x s"
    using assms(2,8,9,12) by (simp add: DomainService_Verify_def Let_def)
  have upd: "DomainRepo_UpdateForTeam ?x s = (s\<lparr>rgDomains := sql_update ?p (domain_set ?x) (rgDomains s)\<rparr>, Inr ())"
    using mem(1) short by (auto simp: DomainRepo_UpdateForTeam_def update_domain_def list_ex_iff)
  have keep: "find (\<lambda>r. doID r = i \<and> doTeamID r = team) (sql_update ?p (domain_set ?x) rows) =
      map_option (domain_set ?x) (find (\<lambda>r. doID r = i \<and> doTeamID r = team) rows)" for rows
    using mem(2,3) by (induction rows) (auto simp: domain_set_def)
  have "DomainRepo_GetByIDForTeam team i (s\<lparr>rgDomains := sql_update ?p (domain_set ?x) (rgDomains s)\<rparr>) = Inr (domain_set ?x d)"
    using d by (simp add: DomainRepo_GetByIDForTeam_def keep)
  moreover have "same_claim d (domain_set ?x d)" by (simp add: same_claim_def domain_set_def)
  moreover have "doStatus (domain_set ?x d) = DomainStatusVerified" using st by (simp add: domain_set_def)
  ultimately show ?thesis using run upd assms(12) by (simp add: store_checks_def)
qed

section \<open>Examples\<close>

definition demo_identity :: identity_api where
  "demo_identity = \<lparr>iaCreate = (\<lambda>_ _. Inr (False, None)),
     iaGet = (\<lambda>_. Inr (True, ''SUCCESS'', Some \<lparr>daStatus = ''SUCCESS'', daTokens = [''k1''], daSigningHostedZone = None\<rparr>)), iaConfigSet = []\<rparr>"

definition demo_domain_env :: domain_env where
  "demo_domain_env = \<lparr>dvAccess = demo_access_env, dvRegion = ''eu-west-1'', dvIsIP = (\<lambda>_. False), dvHex = (\<lambda>_. ''00''),
     dvIdentity = Some demo_identity,
     dvLookupTXT = (\<lambda>n. Some (if n = ''x.org'' then [''v=spf1 include:amazonses.com ~all''] else [''sender-api-verify-00''])),
     dvLookupMX = (\<lambda>_. None)\<rparr>"

definition demo_registry :: registry where
  "demo_registry = \<lparr>rgAcct = acct demo_access, rgDomains = []\<rparr>"

text \<open>Team 9 registers a name and verifies it.\<close>

definition demo_domain_steps :: "(domain_env \<times> Claims option \<times> domain_op) list" where
  "demo_domain_steps = [(demo_domain_env, demo_owner, DoCreate (Some '' X.org.'')), (demo_domain_env, demo_owner, DoVerify ''12345'')]"

lemma demo_registry_ok: "registry_ok demo_registry" "\<forall>d \<in> set (rgDomains demo_registry). doStatus d \<noteq> DomainStatusVerified"
  by (simp_all add: registry_ok_def demo_registry_def)

lemma demo_domain_run:
  "map (\<lambda>d. (doID d, doTeamID d, doName d, doStatus d, doDMARCStatus d)) (rgDomains (run_d demo_domain_steps demo_registry)) =
   [(5, 9, ''x.org'', DomainStatusVerified, ''failed'')]"
  by code_simp

theorem domain_has_one_team_witness:
  "\<exists>d. rgDomains (run_d demo_domain_steps demo_registry) = [d] \<and>
     (\<forall>team. GetTeamByDomain (canonical_name (doName d)) (run_d demo_domain_steps demo_registry) = Inr team \<longrightarrow> team = 9)"
proof -
  obtain d where d: "rgDomains (run_d demo_domain_steps demo_registry) = [d]" "doTeamID d = 9"
    using demo_domain_run by (auto simp: map_eq_Cons_conv)
  then show ?thesis using domain_has_one_team [OF demo_registry_ok(1), of d demo_domain_steps d] by auto
qed

lemma demo_sender: "sdomains demo_service = sending_view (run_d demo_domain_steps demo_registry)"
  using demo_domain_run by (auto simp: sending_view_def map_eq_Cons_conv demo_service_def)

theorem only_proven_domains_send_witness:
  "\<exists>d \<in> set (rgDomains (run_d demo_domain_steps demo_registry)). \<exists>step \<in> set demo_domain_steps. proven d step"
proof -
  obtain y' r where "send (demo_send NoFault) 9 (Some demo_request) ''k'' demo_service = (y', Inr (r, True))" using demo_send_ok by blast
  from only_proven_domains_send [OF demo_registry_ok demo_sender this] show ?thesis by blast
qed

end
