(* ===== verification/Sns.thy ===== *)
theory Sns
  imports Unsubscribe
begin

text \<open>
  \<open>pkg/sns/verify.go\<close>: whether a notification comes from Amazon SNS. The text that is signed, the checks on the
  address of the certificate and the cache of certificates are written out; parsing of URLs and times, HTTP and the
  RSA check are parameters. The theorems show what a successful verification establishes and that the signed text determines what
  was signed.
\<close>

section \<open>Notifications\<close>

record Notification =
  snType :: string
  snMessage :: string
  snMessageID :: string
  snSubject :: string
  snTimestamp :: string
  snTopicArn :: string
  snSigningCertURL :: string
  snSignature :: string
  snSignatureVersion :: string
  snSubscribeURL :: string
  snUnsubscribeURL :: string
  snToken :: string

record sns_url = base_url +
  urlPort :: string
  urlQuery :: "string \<Rightarrow> string"

datatype sns_error = ErrStaleNotification | ErrInvalidNotification | ErrCertificate | ErrConfirmation

type_synonym certificate = nat

text \<open>The cache: address, certificate and the time it expires.\<close>

type_synonym cert_cache = "string \<Rightarrow> (certificate \<times> instant) option"

datatype digest = SHA1 | SHA256

record sns_env =
  svRegion :: string
  svParseURL :: "string \<Rightarrow> sns_url option"
  svURLString :: "sns_url \<Rightarrow> string"
  svParseTime :: "string \<Rightarrow> instant option"
  svFetch :: "string \<Rightarrow> certificate option"
  svIsRSA :: "certificate \<Rightarrow> bool"
  svDecode64 :: "string \<Rightarrow> string option"
  svVerify :: "certificate \<Rightarrow> digest \<Rightarrow> string \<Rightarrow> string \<Rightarrow> bool"
  svClock :: instant
  svConfirm :: "string \<Rightarrow> int option"

definition newline :: char where "newline = char_of (10::nat)"

definition signed_field :: "string \<Rightarrow> string \<Rightarrow> string" where
  "signed_field key val = key @ [newline] @ val @ [newline]"

definition StringToSign :: "Notification \<Rightarrow> string" where
  "StringToSign n =
     signed_field ''Message'' (snMessage n) @ signed_field ''MessageId'' (snMessageID n) @
     (if snType n = ''Notification'' \<and> snSubject n \<noteq> [] then signed_field ''Subject'' (snSubject n) else []) @
     (if snType n = ''SubscriptionConfirmation'' then signed_field ''SubscribeURL'' (snSubscribeURL n) else []) @
     signed_field ''Timestamp'' (snTimestamp n) @
     (if snType n = ''UnsubscribeConfirmation'' then signed_field ''UnsubscribeURL'' (snUnsubscribeURL n) else []) @
     (if snType n \<noteq> ''Notification'' then signed_field ''Token'' (snToken n) else []) @
     signed_field ''TopicArn'' (snTopicArn n) @ signed_field ''Type'' (snType n)"

section \<open>Addresses of the provider\<close>

text \<open>The pattern \<open>^sns\.[a-z0-9-]+\.amazonaws\.com(\.cn)?$\<close>: the region is one label.\<close>

definition snsCertificateHost :: "string \<Rightarrow> bool" where
  "snsCertificateHost h =
     (case split_at (CHR ''.'') h of
        [a, r, b, c] \<Rightarrow> a = ''sns'' \<and> r \<noteq> [] \<and> list_all (\<lambda>x. is_lower x \<or> is_digit x \<or> x = CHR ''-'') r \<and> b = ''amazonaws'' \<and> c = ''com''
      | [a, r, b, c, d] \<Rightarrow> a = ''sns'' \<and> r \<noteq> [] \<and> list_all (\<lambda>x. is_lower x \<or> is_digit x \<or> x = CHR ''-'') r \<and> b = ''amazonaws'' \<and> c = ''com'' \<and> d = ''cn''
      | _ \<Rightarrow> False)"

definition region_host :: "string \<Rightarrow> string \<Rightarrow> bool" where
  "region_host region host \<longleftrightarrow> host = ''sns.'' @ ToLower region @ ''.amazonaws.com'' \<or> host = ''sns.'' @ ToLower region @ ''.amazonaws.com.cn''"

definition validCertificateURL :: "sns_env \<Rightarrow> string \<Rightarrow> bool" where
  "validCertificateURL env raw =
     (case svParseURL env raw of
        None \<Rightarrow> False
      | Some u \<Rightarrow>
          if urlScheme u \<noteq> ''https'' \<or> urlHasUser u \<or> urlPort u \<noteq> [] \<or> urlRawQuery u \<noteq> [] \<or> urlFragment u \<noteq> [] then False
          else (let host = ToLower (urlHostname u) in
                if \<not> snsCertificateHost host \<or> \<not> HasSuffix (ToLower (urlPath u)) ''.pem'' then False
                else if svRegion env \<noteq> [] then region_host (svRegion env) host else True))"

section \<open>Certificates\<close>

definition getCertificate :: "sns_env \<Rightarrow> string \<Rightarrow> cert_cache \<Rightarrow> cert_cache \<times> certificate option" where
  "getCertificate env raw cache =
     (case cache raw of
        Some (c, expiresAt) \<Rightarrow>
          if expiresAt > svClock env then (cache, Some c)
          else (case svFetch env raw of None \<Rightarrow> (cache, None) | Some c' \<Rightarrow> (cache(raw \<mapsto> (c', svClock env + 10 * minute)), Some c'))
      | None \<Rightarrow> (case svFetch env raw of None \<Rightarrow> (cache, None) | Some c' \<Rightarrow> (cache(raw \<mapsto> (c', svClock env + 10 * minute)), Some c')))"

section \<open>Verification\<close>

definition check_fields :: "Notification \<Rightarrow> bool" where
  "check_fields n \<longleftrightarrow>
     snType n \<in> {''Notification'', ''SubscriptionConfirmation'', ''UnsubscribeConfirmation''} \<and>
     snMessage n \<noteq> [] \<and> snMessageID n \<noteq> [] \<and> snTopicArn n \<noteq> [] \<and> snTimestamp n \<noteq> [] \<and> snSignature n \<noteq> [] \<and> snSigningCertURL n \<noteq> [] \<and>
     (snSignatureVersion n = ''1'' \<or> snSignatureVersion n = ''2'') \<and>
     (snType n = ''SubscriptionConfirmation'' \<longrightarrow> snSubscribeURL n \<noteq> [] \<and> snToken n \<noteq> []) \<and>
     (snType n = ''UnsubscribeConfirmation'' \<longrightarrow> snUnsubscribeURL n \<noteq> [] \<and> snToken n \<noteq> [])"

definition verifyNotification :: "sns_env \<Rightarrow> Notification \<Rightarrow> instant \<Rightarrow> bool \<Rightarrow> cert_cache \<Rightarrow> cert_cache \<times> (sns_error + unit)" where
  "verifyNotification env n now allowDelayed cache =
     (if \<not> check_fields n then (cache, Inl ErrInvalidNotification)
      else case svParseTime env (snTimestamp n) of
             None \<Rightarrow> (cache, Inl ErrStaleNotification)
           | Some t \<Rightarrow>
               if t > now + 5 * minute \<or> \<not> allowDelayed \<and> t < now - 5 * minute then (cache, Inl ErrStaleNotification)
               else if \<not> validCertificateURL env (snSigningCertURL n) then (cache, Inl ErrInvalidNotification)
               else case getCertificate env (snSigningCertURL n) cache of
                      (cache', None) \<Rightarrow> (cache', Inl ErrCertificate)
                    | (cache', Some c) \<Rightarrow>
                        if \<not> svIsRSA env c then (cache', Inl ErrInvalidNotification)
                        else case svDecode64 env (snSignature n) of
                               None \<Rightarrow> (cache', Inl ErrInvalidNotification)
                             | Some sig \<Rightarrow>
                                 if svVerify env c (if snSignatureVersion n = ''1'' then SHA1 else SHA256) (StringToSign n) sig
                                 then (cache', Inr ()) else (cache', Inl ErrInvalidNotification))"

definition VerifyNotification :: "sns_env \<Rightarrow> Notification \<Rightarrow> instant \<Rightarrow> cert_cache \<Rightarrow> cert_cache \<times> (sns_error + unit)" where
  "VerifyNotification env n now = verifyNotification env n now False"

definition VerifyNotificationForQueue :: "sns_env \<Rightarrow> Notification \<Rightarrow> instant \<Rightarrow> cert_cache \<Rightarrow> cert_cache \<times> (sns_error + unit)" where
  "VerifyNotificationForQueue env n now = verifyNotification env n now True"

text \<open>The address that is called to confirm a subscription must be the provider's and name the topic and token of the message.\<close>

definition ConfirmSubscription :: "sns_env \<Rightarrow> Notification \<Rightarrow> string list \<times> (sns_error + unit)" where
  "ConfirmSubscription env n =
     (if snType n \<noteq> ''SubscriptionConfirmation'' then ([], Inl ErrInvalidNotification)
      else case svParseURL env (snSubscribeURL n) of
             None \<Rightarrow> ([], Inl ErrInvalidNotification)
           | Some u \<Rightarrow>
               if urlScheme u \<noteq> ''https'' \<or> urlHasUser u \<or> urlPort u \<noteq> [] \<or> urlFragment u \<noteq> [] then ([], Inl ErrInvalidNotification)
               else (let host = ToLower (urlHostname u); q = urlQuery u in
                 if \<not> snsCertificateHost host \<or> svRegion env \<noteq> [] \<and> \<not> region_host (svRegion env) host then ([], Inl ErrInvalidNotification)
                 else if q ''Action'' \<noteq> ''ConfirmSubscription'' \<or> q ''Token'' = [] \<or> q ''TopicArn'' = [] \<or>
                    snToken n \<noteq> [] \<and> q ''Token'' \<noteq> snToken n \<or> snTopicArn n \<noteq> [] \<and> q ''TopicArn'' \<noteq> snTopicArn n
                 then ([], Inl ErrInvalidNotification)
                 else ([svURLString env u], if svConfirm env (svURLString env u) = Some 200 then Inr () else Inl ErrConfirmation)))"

section \<open>The signed text determines the message\<close>

definition lines_of :: "string list \<Rightarrow> string" where
  "lines_of ls = concat (map (\<lambda>l. l @ [newline]) ls)"

definition signed_lines :: "Notification \<Rightarrow> string list" where
  "signed_lines n =
     [''Message'', snMessage n, ''MessageId'', snMessageID n] @
     (if snType n = ''Notification'' \<and> snSubject n \<noteq> [] then [''Subject'', snSubject n] else []) @
     (if snType n = ''SubscriptionConfirmation'' then [''SubscribeURL'', snSubscribeURL n] else []) @
     [''Timestamp'', snTimestamp n] @
     (if snType n = ''UnsubscribeConfirmation'' then [''UnsubscribeURL'', snUnsubscribeURL n] else []) @
     (if snType n \<noteq> ''Notification'' then [''Token'', snToken n] else []) @
     [''TopicArn'', snTopicArn n, ''Type'', snType n]"

lemma StringToSign_lines: "StringToSign n = lines_of (signed_lines n)"
  by (simp add: StringToSign_def signed_lines_def lines_of_def signed_field_def)

lemma lines_of_inj:
  "lines_of ls = lines_of ms \<Longrightarrow> (\<And>l. l \<in> set ls \<union> set ms \<Longrightarrow> newline \<notin> set l) \<Longrightarrow> ls = ms"
proof (induction ls arbitrary: ms)
  case Nil
  then show ?case by (cases ms) (auto simp: lines_of_def)
next
  case (Cons l ls)
  then obtain m ms' where ms: "ms = m # ms'" by (cases ms) (auto simp: lines_of_def)
  have eq: "l @ newline # lines_of ls = m @ newline # lines_of ms'" using Cons.prems(1) ms by (simp add: lines_of_def)
  have no: "newline \<notin> set l" "newline \<notin> set m" using Cons.prems(2) ms by auto
  have cut: "takeWhile (\<lambda>c. c \<noteq> newline) (x @ newline # y) = x" if "newline \<notin> set x" for x y
    using that by (subst takeWhile_append2) auto
  have "l = m" using arg_cong [OF eq, of "takeWhile (\<lambda>c. c \<noteq> newline)"] cut no by simp
  moreover from this have "ls = ms'" using Cons.IH [of ms'] Cons.prems(2) eq ms by auto
  ultimately show ?case using ms by simp
qed

definition plain :: "string \<Rightarrow> bool" where
  "plain s \<longleftrightarrow> newline \<notin> set s"

definition plain_fields :: "Notification \<Rightarrow> bool" where
  "plain_fields n \<longleftrightarrow> list_all plain [snType n, snMessage n, snMessageID n, snSubject n, snTimestamp n, snTopicArn n, snSubscribeURL n, snUnsubscribeURL n, snToken n]"

lemma plain_lines: "plain_fields n \<Longrightarrow> l \<in> set (signed_lines n) \<Longrightarrow> newline \<notin> set l"
proof -
  assume n: "plain_fields n" and l: "l \<in> set (signed_lines n)"
  have "list_all plain [''Message'', ''MessageId'', ''Subject'', ''SubscribeURL'', ''Timestamp'', ''UnsubscribeURL'', ''Token'', ''TopicArn'', ''Type'']"
    by code_simp
  then have "list_all plain (signed_lines n)" using n by (simp add: plain_fields_def signed_lines_def)
  then have "plain l" using l by (simp add: list_all_iff)
  then show ?thesis by (simp add: plain_def)
qed

lemma signed_lines_last: "last (signed_lines n) = snType n"
  by (simp add: signed_lines_def)

text \<open>What was signed is what is used. Two notifications without line breaks in their fields that have the same signed text
  agree in type, message, identifier, time and topic, in the subject of a notification and in address and
  token of a confirmation.\<close>

theorem signed_text_determines:
  assumes "plain_fields n" and "plain_fields m" and "StringToSign n = StringToSign m"
  shows "snType n = snType m \<and> snMessage n = snMessage m \<and> snMessageID n = snMessageID m \<and> snTimestamp n = snTimestamp m \<and> snTopicArn n = snTopicArn m \<and>
    (snType n = ''Notification'' \<longrightarrow> snSubject n = snSubject m) \<and>
    (snType n = ''SubscriptionConfirmation'' \<longrightarrow> snSubscribeURL n = snSubscribeURL m \<and> snToken n = snToken m) \<and>
    (snType n = ''UnsubscribeConfirmation'' \<longrightarrow> snUnsubscribeURL n = snUnsubscribeURL m \<and> snToken n = snToken m)"
proof -
  have "lines_of (signed_lines n) = lines_of (signed_lines m)" using assms(3) by (simp add: StringToSign_lines)
  then have eq: "signed_lines n = signed_lines m" by (rule lines_of_inj) (use plain_lines assms(1,2) in blast)
  then have ty: "snType n = snType m" using signed_lines_last by metis
  show ?thesis
  proof (cases "snType n = ''Notification''")
    case True
    then show ?thesis using eq ty by (cases "snSubject n = []"; cases "snSubject m = []") (auto simp: signed_lines_def)
  next
    case False
    then show ?thesis using eq ty
      by (cases "snType n = ''SubscriptionConfirmation''"; cases "snType n = ''UnsubscribeConfirmation''") (auto simp: signed_lines_def)
  qed
qed

section \<open>What a verification establishes\<close>

type_synonym sns_step = "sns_env \<times> Notification \<times> instant \<times> bool"

fun run_v :: "sns_step list \<Rightarrow> cert_cache \<Rightarrow> cert_cache" where
  "run_v [] cache = cache"
| "run_v ((env, n, now, delayed) # steps) cache = run_v steps (fst (verifyNotification env n now delayed cache))"

text \<open>Every entry of the cache was fetched from its own address, at most ten minutes before it expires.\<close>

definition cache_sound :: "sns_env set \<Rightarrow> cert_cache \<Rightarrow> bool" where
  "cache_sound envs cache \<longleftrightarrow> (\<forall>u c e. cache u = Some (c, e) \<longrightarrow> (\<exists>env \<in> envs. svFetch env u = Some c \<and> e = svClock env + 10 * minute))"

lemma getCertificate_sound:
  assumes "cache_sound envs cache" and "getCertificate env u cache = (cache', r)"
  shows "cache_sound (insert env envs) cache' \<and>
    (\<forall>c. r = Some c \<longrightarrow> (\<exists>env' \<in> insert env envs. svFetch env' u = Some c \<and> svClock env < svClock env' + 10 * minute))"
proof -
  have ten: "svClock env < svClock env + 10 * minute" by (simp add: minute_def second_def)
  have mono: "cache_sound (insert env envs) cache" using assms(1) by (auto simp: cache_sound_def)
  have fetched: "cache_sound (insert env envs) (cache(u \<mapsto> (c, svClock env + 10 * minute)))" if "svFetch env u = Some c" for c
    using mono that by (auto simp: cache_sound_def)
  show ?thesis
  proof (cases "\<exists>c e. cache u = Some (c, e) \<and> e > svClock env")
    case True
    then obtain c e where c: "cache u = Some (c, e)" "e > svClock env" by blast
    then have "cache' = cache" "r = Some c" using assms(2) by (auto simp: getCertificate_def)
    moreover obtain env' where "env' \<in> envs" "svFetch env' u = Some c" "e = svClock env' + 10 * minute"
      using assms(1) c(1) unfolding cache_sound_def by blast
    ultimately show ?thesis using mono c(2) by auto
  next
    case False
    then have "getCertificate env u cache = (case svFetch env u of None \<Rightarrow> (cache, None) | Some c' \<Rightarrow> (cache(u \<mapsto> (c', svClock env + 10 * minute)), Some c'))"
      by (auto simp: getCertificate_def split: option.splits)
    then show ?thesis using assms(2) mono fetched ten by (cases "svFetch env u") auto
  qed
qed

lemma verify_cache:
  "fst (verifyNotification env n now delayed cache) = cache \<or>
   fst (verifyNotification env n now delayed cache) = fst (getCertificate env (snSigningCertURL n) cache)"
  by (auto simp: verifyNotification_def split: option.splits prod.splits)

lemma run_v_sound: "cache_sound envs cache \<Longrightarrow> cache_sound (envs \<union> fst ` set steps) (run_v steps cache)"
proof (induction steps cache arbitrary: envs rule: run_v.induct)
  case (2 env n now delayed steps cache)
  let ?c = "fst (verifyNotification env n now delayed cache)"
  have "cache_sound (insert env envs) (fst (getCertificate env (snSigningCertURL n) cache))"
    using getCertificate_sound [OF 2(2)] by (cases "getCertificate env (snSigningCertURL n) cache") auto
  moreover have "cache_sound (insert env envs) cache" using 2(2) by (auto simp: cache_sound_def)
  ultimately have "cache_sound (insert env envs) ?c" using verify_cache [of env n now delayed cache] by auto
  from "2.IH" [OF this] show ?case by simp
qed simp

text \<open>A certificate that was fetched from the address the notification names, and a signature of its text under that certificate.\<close>

definition provider_signed :: "sns_env set \<Rightarrow> sns_env \<Rightarrow> Notification \<Rightarrow> bool" where
  "provider_signed envs env n \<longleftrightarrow>
     (\<exists>c env' sig u. env' \<in> envs \<and> svFetch env' (snSigningCertURL n) = Some c \<and> svClock env < svClock env' + 10 * minute \<and>
       svDecode64 env (snSignature n) = Some sig \<and> svVerify env c (if snSignatureVersion n = ''1'' then SHA1 else SHA256) (StringToSign n) sig \<and>
       svParseURL env (snSigningCertURL n) = Some u \<and> urlScheme u = ''https'' \<and> \<not> urlHasUser u \<and> urlPort u = [] \<and>
       snsCertificateHost (ToLower (urlHostname u)) \<and> (svRegion env \<noteq> [] \<longrightarrow> region_host (svRegion env) (ToLower (urlHostname u))))"

lemma verified_is_signed:
  assumes "cache_sound envs cache" and "verifyNotification env n now delayed cache = (cache', Inr ())"
  shows "provider_signed (insert env envs) env n \<and>
    (\<exists>t. svParseTime env (snTimestamp n) = Some t \<and> t \<le> now + 5 * minute \<and> (\<not> delayed \<longrightarrow> now - 5 * minute \<le> t))"
proof -
  obtain t where t: "svParseTime env (snTimestamp n) = Some t" "\<not> (t > now + 5 * minute \<or> \<not> delayed \<and> t < now - 5 * minute)"
    and url: "validCertificateURL env (snSigningCertURL n)"
    using assms(2) by (auto simp: verifyNotification_def split: if_splits option.splits)
  obtain cache1 c sig where cert: "getCertificate env (snSigningCertURL n) cache = (cache1, Some c)" and sig: "svDecode64 env (snSignature n) = Some sig"
      "svVerify env c (if snSignatureVersion n = ''1'' then SHA1 else SHA256) (StringToSign n) sig"
    using assms(2) t url by (auto simp: verifyNotification_def split: if_splits option.splits prod.splits)
  from getCertificate_sound [OF assms(1) cert] obtain env' where
    "env' \<in> insert env envs" "svFetch env' (snSigningCertURL n) = Some c" "svClock env < svClock env' + 10 * minute" by blast
  moreover obtain u where "svParseURL env (snSigningCertURL n) = Some u" "urlScheme u = ''https''" "\<not> urlHasUser u" "urlPort u = []"
      "snsCertificateHost (ToLower (urlHostname u))" "svRegion env \<noteq> [] \<longrightarrow> region_host (svRegion env) (ToLower (urlHostname u))"
    using url by (auto simp: validCertificateURL_def Let_def split: option.splits if_splits)
  ultimately have "provider_signed (insert env envs) env n" unfolding provider_signed_def using sig by blast
  moreover have "t \<le> now + 5 * minute" "\<not> delayed \<longrightarrow> now - 5 * minute \<le> t" using t(2) by auto
  ultimately show ?thesis using t(1) by blast
qed

lemma cache_sound_empty: "cache_sound {} (\<lambda>_. None)"
  by (simp add: cache_sound_def)

text \<open>A notification that passes comes from Amazon: whatever was verified before, its signature over exactly the text of this
  message verifies under the key of a certificate that was fetched, at most ten minutes ago, over https from the address the message
  names, which is an SNS host of the configured region without user, port, query or fragment; its time is at most five
  minutes ahead and, unless delay is allowed, at most five minutes old.\<close>

theorem sns_authentic:
  assumes "verifyNotification env n now delayed (run_v steps (\<lambda>_. None)) = (cache', Inr ())"
  shows "\<exists>c env' sig u t. env' \<in> insert env (fst ` set steps) \<and> svFetch env' (snSigningCertURL n) = Some c \<and> svClock env < svClock env' + 10 * minute \<and>
    svDecode64 env (snSignature n) = Some sig \<and>
    svVerify env c (if snSignatureVersion n = ''1'' then SHA1 else SHA256) (StringToSign n) sig \<and>
    svParseURL env (snSigningCertURL n) = Some u \<and> urlScheme u = ''https'' \<and> \<not> urlHasUser u \<and> urlPort u = [] \<and> snsCertificateHost (ToLower (urlHostname u)) \<and>
    (svRegion env \<noteq> [] \<longrightarrow> region_host (svRegion env) (ToLower (urlHostname u))) \<and>
    svParseTime env (snTimestamp n) = Some t \<and> t \<le> now + 5 * minute \<and> (\<not> delayed \<longrightarrow> now - 5 * minute \<le> t)"
proof -
  have "provider_signed (insert env (fst ` set steps)) env n" "\<exists>t. svParseTime env (snTimestamp n) = Some t \<and> t \<le> now + 5 * minute \<and> (\<not> delayed \<longrightarrow> now - 5 * minute \<le> t)"
    using verified_is_signed [OF run_v_sound [OF cache_sound_empty] assms] by simp_all
  then show ?thesis unfolding provider_signed_def
    apply (elim exE)
    subgoal for c t env' sig u by (intro exI [of _ c] exI [of _ env'] exI [of _ sig] exI [of _ u] exI [of _ t]) simp
    done
qed

section \<open>Examples\<close>

definition demo_sns :: sns_env where
  "demo_sns = \<lparr>svRegion = ''eu-west-1'', svParseURL = (\<lambda>_. Some \<lparr>urlScheme = ''https'', urlHostname = ''sns.eu-west-1.amazonaws.com'', urlHasUser = False,
     urlFragment = [], urlPath = ''/c.pem'', urlRawQuery = [], urlPort = [], urlQuery = (\<lambda>_. [])\<rparr>), svURLString = urlHostname, svParseTime = (\<lambda>_. Some 0),
     svFetch = (\<lambda>_. Some 1), svIsRSA = (\<lambda>_. True), svDecode64 = Some, svVerify = (\<lambda>_ _ text sig. sig = rev text), svClock = 0,
     svConfirm = (\<lambda>_. Some 200)\<rparr>"

definition demo_unsigned :: Notification where
  "demo_unsigned = \<lparr>snType = ''Notification'', snMessage = ''m'', snMessageID = ''1'', snSubject = [], snTimestamp = ''t'', snTopicArn = ''a'',
     snSigningCertURL = ''u'', snSignature = [], snSignatureVersion = ''2'', snSubscribeURL = [], snUnsubscribeURL = [], snToken = []\<rparr>"

definition demo_signed :: Notification where
  "demo_signed = demo_unsigned\<lparr>snSignature := rev (StringToSign demo_unsigned)\<rparr>"

lemma demo_sns_run:
  "plain_fields demo_signed \<and> plain_fields demo_unsigned \<and> StringToSign demo_signed = StringToSign demo_unsigned \<and>
   snd (verifyNotification demo_sns demo_signed 0 False (\<lambda>_. None)) = Inr ()"
  by code_simp

theorem signed_text_determines_witness: "snMessage demo_signed = snMessage demo_unsigned"
proof -
  have "plain_fields demo_signed \<and> plain_fields demo_unsigned \<and> StringToSign demo_signed = StringToSign demo_unsigned" using demo_sns_run by simp
  with signed_text_determines [of demo_signed demo_unsigned] show ?thesis by blast
qed

theorem sns_authentic_witness:
  "\<exists>c sig. svVerify demo_sns c SHA256 (StringToSign demo_signed) sig \<and> svDecode64 demo_sns (snSignature demo_signed) = Some sig"
proof -
  have "snd (verifyNotification demo_sns demo_signed 0 False (\<lambda>_. None)) = Inr ()" using demo_sns_run by simp
  then obtain cache where "verifyNotification demo_sns demo_signed 0 False (run_v [] (\<lambda>_. None)) = (cache, Inr ())" by (metis prod.collapse run_v.simps(1))
  from sns_authentic [OF this] show ?thesis by (auto simp: demo_signed_def demo_unsigned_def)
qed

end
