(* ===== verification/Inbound.thy ===== *)
theory Inbound
  imports Domains Sns ProviderEvents Webhooks
begin

text \<open>
  Receiving mail: the MIME parser \<open>internal/inbound/parser.go\<close>, the notifications of \<open>internal/inbound/ses.go\<close>, the
  repository \<open>internal/repository/inbound_repo.go\<close>, \<open>internal/service/inbound_service.go\<close>, the worker
  \<open>internal/worker/inbound_worker.go\<close> and the endpoints of \<open>internal/handler/inbound_handler.go\<close>. Parsing of
  headers, media types, addresses and multipart bodies, transfer decoding, JSON and S3 are parameters; what the code does with
  their results, its limits included, is written out.
\<close>

section \<open>MIME\<close>

record mime_part =
  mpHeader :: "string \<Rightarrow> string"
  mpBody :: string
  mpBodyOK :: bool

record InboundAttachment =
  iaFilename :: string
  iaContentType :: string
  iaContentID :: string
  iaContent :: string

record ParsedMessage =
  pmFrom :: string
  pmTo :: "string list"
  pmSubject :: string
  pmText :: string
  pmHTML :: string
  pmHeaders :: string_map
  pmAttachments :: "InboundAttachment list"

text \<open>Media types come with their parameters and whether parsing ended well; a decoder yields a prefix and whether it ended
  well; a multipart reader yields the parts and whether it ended at the closing boundary.\<close>

record mime_env =
  mvReadMessage :: "string \<Rightarrow> (mime_part \<times> (string \<times> string list) list) option"
  mvParseAddress :: "string \<Rightarrow> string option"
  mvParseAddressList :: "string \<Rightarrow> string list option"
  mvDecodeHeader :: "string \<Rightarrow> string option"
  mvParseMediaType :: "string \<Rightarrow> string \<times> (string \<Rightarrow> string) \<times> bool"
  mvMultipart :: "string \<Rightarrow> string \<Rightarrow> mime_part list \<times> bool"
  mvBase64 :: "string \<Rightarrow> string \<times> bool"
  mvQuotedPrintable :: "string \<Rightarrow> string \<times> bool"

definition maxInboundMIMEMessageSize :: nat where "maxInboundMIMEMessageSize = 10 * 1024 * 1024"
definition maxInboundHeaderSize :: nat where "maxInboundHeaderSize = 64 * 1024"
definition maxInboundMIMEParts :: nat where "maxInboundMIMEParts = 100"
definition maxInboundMIMEDepth :: nat where "maxInboundMIMEDepth = 8"
definition maxInboundAttachments :: nat where "maxInboundAttachments = 10"
definition maxInboundAttachmentSize :: nat where "maxInboundAttachmentSize = 5 * 1024 * 1024"
definition maxInboundTextSize :: nat where "maxInboundTextSize = 1024 * 1024"

definition mimeFilename :: "mime_env \<Rightarrow> mime_part \<Rightarrow> string \<times> string" where
  "mimeFilename env p =
     (case mvParseMediaType env (mpHeader p ''Content-Disposition'') of (disposition, params, ok) \<Rightarrow>
        if ok \<and> params ''filename'' \<noteq> [] then (params ''filename'', ToLower disposition)
        else (case mvParseMediaType env (mpHeader p ''Content-Type'') of (_, params2, ok2) \<Rightarrow>
                if ok2 then (params2 ''name'', ToLower disposition) else ([], ToLower disposition)))"

text \<open>Reading stops one byte past the limit, so an error of the decoder behind it goes unnoticed, but then the content is too
  long.\<close>

definition readMIMEBody :: "mime_env \<Rightarrow> mime_part \<Rightarrow> nat \<Rightarrow> string option" where
  "readMIMEBody env p limit =
     (let enc = ToLower (TrimSpace (mpHeader p ''Content-Transfer-Encoding''));
          decoded = (if enc \<in> {[], ''7bit'', ''8bit'', ''binary''} then Some (mpBody p, mpBodyOK p)
                     else if enc = ''base64'' then Some (case mvBase64 env (mpBody p) of (x, ok) \<Rightarrow> (x, ok \<and> mpBodyOK p))
                     else if enc = ''quoted-printable'' then Some (case mvQuotedPrintable env (mpBody p) of (x, ok) \<Rightarrow> (x, ok \<and> mpBodyOK p))
                     else None)
      in case decoded of
           None \<Rightarrow> None
         | Some (content, ok) \<Rightarrow> if length content > limit then None else if ok then Some content else None)"

definition trim_angles :: "string \<Rightarrow> string" where
  "trim_angles s = rev (dropWhile (\<lambda>c. c \<in> set ''<>'') (rev (dropWhile (\<lambda>c. c \<in> set ''<>'') s)))"

definition parse_leaf :: "mime_env \<Rightarrow> string \<Rightarrow> mime_part \<Rightarrow> ParsedMessage \<Rightarrow> ParsedMessage option" where
  "parse_leaf env mediaType p m =
     (case mimeFilename env p of (filename, disposition) \<Rightarrow>
        if filename \<noteq> [] \<or> disposition = ''attachment'' then
          (if length (pmAttachments m) \<ge> maxInboundAttachments then None
           else case readMIMEBody env p maxInboundAttachmentSize of
                  None \<Rightarrow> None
                | Some content \<Rightarrow> Some (m\<lparr>pmAttachments := pmAttachments m @ [\<lparr>iaFilename = filename, iaContentType = mediaType,
                    iaContentID = trim_angles (mpHeader p ''Content-ID''), iaContent = content\<rparr>]\<rparr>))
        else if mediaType \<noteq> ''text/plain'' \<and> mediaType \<noteq> ''text/html'' then Some m
        else case readMIMEBody env p maxInboundTextSize of
               None \<Rightarrow> None
             | Some content \<Rightarrow> Some (if mediaType = ''text/plain'' then m\<lparr>pmText := content\<rparr> else m\<lparr>pmHTML := content\<rparr>))"

definition media_type :: "mime_env \<Rightarrow> mime_part \<Rightarrow> (string \<times> (string \<Rightarrow> string)) option" where
  "media_type env p =
     (if mpHeader p ''Content-Type'' = [] then Some (''text/plain'', \<lambda>_. [])
      else case mvParseMediaType env (mpHeader p ''Content-Type'') of (t, params, ok) \<Rightarrow> if ok then Some (ToLower t, params) else None)"

text \<open>The recursion over the parts, with the number of parts seen and the depth.\<close>

function parseMIMEPart :: "mime_env \<Rightarrow> mime_part \<Rightarrow> ParsedMessage \<times> nat \<Rightarrow> nat \<Rightarrow> (ParsedMessage \<times> nat) option"
  and parse_parts :: "mime_env \<Rightarrow> mime_part list \<Rightarrow> bool \<Rightarrow> ParsedMessage \<times> nat \<Rightarrow> nat \<Rightarrow> (ParsedMessage \<times> nat) option" where
  "parseMIMEPart env p st depth =
     (if depth > maxInboundMIMEDepth then None
      else if Suc (snd st) > maxInboundMIMEParts then None
      else case media_type env p of
             None \<Rightarrow> None
           | Some (mediaType, params) \<Rightarrow>
               if isPrefix ''multipart/'' mediaType then
                 (if params ''boundary'' = [] then None
                  else case mvMultipart env (params ''boundary'') (mpBody p) of (parts, ok) \<Rightarrow>
                         parse_parts env parts ok (fst st, Suc (snd st)) (Suc depth))
               else map_option (\<lambda>m. (m, Suc (snd st))) (parse_leaf env mediaType p (fst st)))"
| "parse_parts env [] ok st depth = (if ok then Some st else None)"
| "parse_parts env (p # ps) ok st depth =
     (case parseMIMEPart env p st depth of None \<Rightarrow> None | Some st' \<Rightarrow> parse_parts env ps ok st' depth)"
  by pat_completeness auto

termination
  by (relation "measures [\<lambda>x. case x of Inl (_, _, _, d) \<Rightarrow> 2 * (10 - d) | Inr (_, _, _, _, d) \<Rightarrow> 2 * (10 - d) + 1,
      \<lambda>x. case x of Inl _ \<Rightarrow> 0 | Inr (_, ps, _, _, _) \<Rightarrow> length ps]") (auto simp: maxInboundMIMEDepth_def)

definition decodeHeader :: "mime_env \<Rightarrow> string \<Rightarrow> string" where
  "decodeHeader env v = (case mvDecodeHeader env v of None \<Rightarrow> v | Some d \<Rightarrow> d)"

fun join_comma :: "string list \<Rightarrow> string" where
  "join_comma [] = []"
| "join_comma [x] = x"
| "join_comma (x # y # r) = x @ '', '' @ join_comma (y # r)"

definition decodeHeaders :: "mime_env \<Rightarrow> (string \<times> string list) list \<Rightarrow> string_map option" where
  "decodeHeaders env hs =
     (let result = map (\<lambda>(k, vs). (k, join_comma (map (decodeHeader env) vs))) hs in
      if sum_list (map (\<lambda>(k, v). length k + length v) result) > maxInboundHeaderSize then None else Some result)"

definition ParseRawMessage :: "mime_env \<Rightarrow> string \<Rightarrow> ParsedMessage option" where
  "ParseRawMessage env content =
     (if length content > maxInboundMIMEMessageSize then None
      else case mvReadMessage env content of
             None \<Rightarrow> None
           | Some (message, headers) \<Rightarrow>
               (case mvParseAddress env (mpHeader message ''From'') of
                  None \<Rightarrow> None
                | Some from \<Rightarrow>
                    (case mvParseAddressList env (mpHeader message ''To'') of
                       None \<Rightarrow> None
                     | Some to \<Rightarrow>
                         if to = [] then None
                         else case decodeHeaders env headers of
                                None \<Rightarrow> None
                              | Some hs \<Rightarrow>
                                  map_option fst (parseMIMEPart env message
                                    (\<lparr>pmFrom = from, pmTo = to, pmSubject = decodeHeader env (mpHeader message ''Subject''), pmText = [], pmHTML = [],
                                      pmHeaders = hs, pmAttachments = []\<rparr>, 0) 0))))"

text \<open>The part after the last at sign.\<close>

definition RecipientDomain :: "mime_env \<Rightarrow> string \<Rightarrow> string" where
  "RecipientDomain env address =
     (case mvParseAddress env address of
        None \<Rightarrow> []
      | Some a \<Rightarrow>
          (let parts = split_at (CHR ''@'') a in
           if length parts < 2 \<or> last parts = [] then [] else ToLower (TrimSuffix (last parts) ''.'')))"

section \<open>Limits of the parser\<close>

definition within_limits :: "ParsedMessage \<Rightarrow> bool" where
  "within_limits m \<longleftrightarrow> length (pmAttachments m) \<le> maxInboundAttachments \<and> length (pmText m) \<le> maxInboundTextSize \<and>
     length (pmHTML m) \<le> maxInboundTextSize \<and> list_all (\<lambda>a. length (iaContent a) \<le> maxInboundAttachmentSize) (pmAttachments m)"

definition same_envelope :: "ParsedMessage \<Rightarrow> ParsedMessage \<Rightarrow> bool" where
  "same_envelope m m' \<longleftrightarrow> pmFrom m' = pmFrom m \<and> pmTo m' = pmTo m \<and> pmSubject m' = pmSubject m \<and> pmHeaders m' = pmHeaders m"

lemma readMIMEBody_bound: "readMIMEBody env p limit = Some c \<Longrightarrow> length c \<le> limit"
  by (auto simp: readMIMEBody_def Let_def split: option.splits prod.splits if_splits)

lemma parse_leaf_limits:
  assumes "parse_leaf env mt p m = Some m'" "within_limits m"
  shows "within_limits m' \<and> same_envelope m m' \<and> length (pmAttachments m') \<le> Suc (length (pmAttachments m))"
  using assms
  by (auto simp: parse_leaf_def within_limits_def same_envelope_def dest: readMIMEBody_bound split: prod.splits option.splits if_splits)

text \<open>What one part or a list of parts adds: at least one part is counted for each.\<close>

definition grows :: "nat \<Rightarrow> ParsedMessage \<times> nat \<Rightarrow> ParsedMessage \<times> nat \<Rightarrow> bool" where
  "grows n st st' \<longleftrightarrow> within_limits (fst st') \<and> same_envelope (fst st) (fst st') \<and>
     snd st + n \<le> snd st' \<and> (snd st \<le> maxInboundMIMEParts \<longrightarrow> snd st' \<le> maxInboundMIMEParts) \<and>
     length (pmAttachments (fst st')) + snd st \<le> length (pmAttachments (fst st)) + snd st'"

lemma parser_grows:
  "within_limits (fst st) \<Longrightarrow> parseMIMEPart env p st depth = Some st' \<Longrightarrow> grows 1 st st'"
  "within_limits (fst st) \<Longrightarrow> parse_parts env ps ok st depth = Some st' \<Longrightarrow> grows (length ps) st st'"
proof (induction env p st depth and env ps ok st depth arbitrary: st' and st' rule: parseMIMEPart_parse_parts.induct)
  case (1 env p st depth)
  have top: "\<not> maxInboundMIMEParts < Suc (snd st)" "\<not> maxInboundMIMEDepth < depth"
    using "1.prems"(2) by (auto split: if_splits)
  obtain mt params where mt: "media_type env p = Some (mt, params)"
    using "1.prems"(2) by (auto split: if_splits option.splits)
  show ?case
  proof (cases "isPrefix ''multipart/'' mt")
    case True
    have b: "params ''boundary'' \<noteq> []" using "1.prems"(2) True mt by (auto split: if_splits)
    obtain parts ok where parts: "mvMultipart env (params ''boundary'') (mpBody p) = (parts, ok)" by force
    have "parse_parts env parts ok (fst st, Suc (snd st)) (Suc depth) = Some st'"
      using "1.prems"(2) True mt b parts by (simp split: if_splits)
    then have "grows (length parts) (fst st, Suc (snd st)) st'"
      using "1.IH" [OF top(2) top(1) mt refl True b parts [symmetric]] "1.prems"(1) by simp
    then show ?thesis using top by (simp add: grows_def)
  next
    case False
    then obtain m' where "parse_leaf env mt p (fst st) = Some m'" "st' = (m', Suc (snd st))"
      using "1.prems"(2) mt by (auto split: if_splits)
    then show ?thesis using parse_leaf_limits [of env mt p "fst st" m'] "1.prems"(1) top by (simp add: grows_def)
  qed
next
  case (2 env ok st depth)
  then show ?case by (auto simp: grows_def same_envelope_def split: if_splits)
next
  case (3 env p ps ok st depth)
  obtain st1 where st1: "parseMIMEPart env p st depth = Some st1" "parse_parts env ps ok st1 depth = Some st'"
    using "3.prems"(2) by (auto split: option.splits)
  have a: "grows 1 st st1" by (rule "3.IH"(1) [OF "3.prems"(1) st1(1)])
  then have "grows (length ps) st1 st'" using "3.IH"(2) [OF st1(1) _ st1(2)] by (simp add: grows_def)
  then show ?case using a by (auto simp: grows_def same_envelope_def)
qed

text \<open>C27: Whatever bytes arrive, the parser ends, and a message it accepts keeps all limits: at most ten attachments of at most
  five megabytes, bodies of at most one, headers of at most 64 kilobytes in all, at least one recipient.\<close>

theorem parsed_message_bounded:
  assumes "ParseRawMessage env content = Some m"
  shows "length (pmAttachments m) \<le> maxInboundAttachments \<and>
    (\<forall>a \<in> set (pmAttachments m). length (iaContent a) \<le> maxInboundAttachmentSize) \<and>
    length (pmText m) \<le> maxInboundTextSize \<and> length (pmHTML m) \<le> maxInboundTextSize \<and>
    sum_list (map (\<lambda>(k, v). length k + length v) (pmHeaders m)) \<le> maxInboundHeaderSize \<and>
    pmTo m \<noteq> [] \<and> length content \<le> maxInboundMIMEMessageSize"
proof -
  obtain message headers sender to hs n where *: "mvReadMessage env content = Some (message, headers)" "to \<noteq> []"
      "decodeHeaders env headers = Some hs" "length content \<le> maxInboundMIMEMessageSize"
      "parseMIMEPart env message (\<lparr>pmFrom = sender, pmTo = to, pmSubject = decodeHeader env (mpHeader message ''Subject''), pmText = [], pmHTML = [],
         pmHeaders = hs, pmAttachments = []\<rparr>, 0) 0 = Some (m, n)"
    using assms by (auto simp: ParseRawMessage_def simp del: parseMIMEPart.simps split: if_splits option.splits prod.splits)
  have "within_limits \<lparr>pmFrom = sender, pmTo = to, pmSubject = decodeHeader env (mpHeader message ''Subject''), pmText = [], pmHTML = [],
         pmHeaders = hs, pmAttachments = []\<rparr>" by (simp add: within_limits_def)
  then have g: "within_limits m" "pmTo m = to" "pmHeaders m = hs"
    using parser_grows(1) [OF _ *(5)] by (auto simp: grows_def same_envelope_def)
  have "sum_list (map (\<lambda>(k, v). length k + length v) hs) \<le> maxInboundHeaderSize"
    using *(3) by (auto simp: decodeHeaders_def Let_def split: if_splits)
  then show ?thesis using g * by (auto simp: within_limits_def list_all_iff)
qed

section \<open>Notifications\<close>

record SESNotification =
  nfType :: string
  nfContent :: string
  nfMessageID :: string
  nfRecipients :: "string list"
  nfBucketName :: string
  nfObjectKey :: string

text \<open>A decoded notification, with the two alternative fields that are merged.\<close>

record raw_notification = SESNotification +
  nfNotificationType :: string
  nfMailMessageID :: string

datatype inbound_error =
    ErrSNS sns_error | ErrDecode | ErrDiscardInboundMessage | ErrNoBody | ErrNoContent | ErrBucket | ErrObject | ErrParse
  | ErrRecipients | ErrInboundDomainNotFound string | ErrTeams | ErrInboundDB db_error | ErrMarshal

datatype inbound_site = IbTeam nat | IbLookup | IbStore | IbHooks | IbDelivery uuid | IbRead | IbDelete

record inbound_env =
  ivSns :: sns_env
  ivMime :: mime_env
  ivNow :: instant
  ivFault :: "inbound_site \<Rightarrow> fault"
  ivTopic :: string
  ivBucket :: string
  ivToken :: string
  ivDecodeSNS :: "string \<Rightarrow> Notification option"
  ivDecodeSES :: "string \<Rightarrow> raw_notification option"
  ivGetObject :: "string \<Rightarrow> string \<Rightarrow> (string \<times> bool) option"
  ivParseEmail :: "string \<Rightarrow> string option"
  ivHeadersJSON :: "string_map \<Rightarrow> string"
  ivAttachmentsJSON :: "InboundAttachment list \<Rightarrow> string option"
  ivPayloadJSON :: "InboundEmail \<Rightarrow> string option"
  ivFreshID :: uuid
  ivFreshEvent :: uuid
  ivFreshOutbox :: uuid
  ivFreshDelivery :: "uuid \<Rightarrow> uuid"
  ivPipeline :: bool
  ivDeliveryConfigured :: bool

definition DecodeNotification :: "inbound_env \<Rightarrow> string \<Rightarrow> SESNotification option" where
  "DecodeNotification env body =
     map_option (\<lambda>r. \<lparr>nfType = (if nfType r = [] then nfNotificationType r else nfType r), nfContent = nfContent r,
       nfMessageID = (if nfMessageID r = [] then nfMailMessageID r else nfMessageID r), nfRecipients = nfRecipients r,
       nfBucketName = nfBucketName r, nfObjectKey = nfObjectKey r\<rparr>) (ivDecodeSES env body)"

definition or_envelope_id :: "Notification \<Rightarrow> SESNotification \<Rightarrow> SESNotification" where
  "or_envelope_id n inner = (if nfMessageID inner = [] then inner\<lparr>nfMessageID := snMessageID n\<rparr> else inner)"

definition DecodeAndVerifySNS :: "inbound_env \<Rightarrow> string \<Rightarrow> cert_cache \<Rightarrow> cert_cache \<times> (inbound_error + SESNotification)" where
  "DecodeAndVerifySNS env body cache =
     (case ivDecodeSNS env body of
        None \<Rightarrow> (cache, Inl ErrDecode)
      | Some n \<Rightarrow>
          if snType n \<noteq> ''Notification'' \<or> snMessage n = [] then (cache, Inl ErrDecode)
          else case VerifyNotificationForQueue (ivSns env) (n\<lparr>snUnsubscribeURL := []\<rparr>) (ivNow env) cache of
                 (cache', Inl e) \<Rightarrow> (cache', Inl (ErrSNS e))
               | (cache', Inr _) \<Rightarrow>
                   if ivTopic env \<noteq> [] \<and> snTopicArn n \<noteq> ivTopic env then (cache', Inl (ErrSNS ErrInvalidNotification))
                   else (case DecodeNotification env (snMessage n) of
                           None \<Rightarrow> (cache', Inl ErrDecode)
                         | Some inner \<Rightarrow> (cache', Inr (or_envelope_id n inner))))"

section \<open>Repository\<close>

definition inbound_too_long :: "InboundEmail \<Rightarrow> bool" where
  "inbound_too_long m \<longleftrightarrow> (case inMessageID m of None \<Rightarrow> False | Some i \<Rightarrow> char_length i > 255) \<or> char_length (inFrom m) > 255 \<or>
     (case inRawS3Key m of None \<Rightarrow> False | Some k \<Rightarrow> char_length k > 1024)"

definition set_inbound :: "(db \<Rightarrow> db) \<Rightarrow> registry \<Rightarrow> registry" where
  "set_inbound f s = s\<lparr>rgAcct := (rgAcct s)\<lparr>adb := f (adb (rgAcct s))\<rparr>\<rparr>"

text \<open>A statement on the inbound table under the constraints that involve the table of teams and the widths of columns.\<close>

definition checked :: "InboundEmail \<Rightarrow> (db \<Rightarrow> db \<times> unit result) \<Rightarrow> registry \<Rightarrow> registry \<times> unit result" where
  "checked m op s =
     (if inbound_too_long m then (s, Inl ValueTooLong)
      else case op (adb (rgAcct s)) of
             (_, Inl e) \<Rightarrow> (s, Inl e)
           | (d, Inr _) \<Rightarrow>
               if by_key tmID (inTeamID m) (teams (rgAcct s)) = None then (s, Inl ForeignKeyViolation)
               else (set_inbound (\<lambda>_. d) s, Inr ()))"

definition InboundEmailRepo_Create :: "instant \<Rightarrow> InboundEmail \<Rightarrow> registry \<Rightarrow> registry \<times> unit result" where
  "InboundEmailRepo_Create now m = checked m (\<lambda>d.
     if inbound_conflict m (inbound_emails d) then (d, Inl UniqueViolation)
     else (d\<lparr>inbound_emails := inbound_emails d @ [m\<lparr>inCreatedAt := now\<rparr>]\<rparr>, Inr ()))"

definition InboundEmailRepo_GetByID :: "uuid \<Rightarrow> registry \<Rightarrow> InboundEmail result" where
  "InboundEmailRepo_GetByID i s = (case by_key inID i (inbound_emails (adb (rgAcct s))) of None \<Rightarrow> Inl ErrNoRows | Some m \<Rightarrow> Inr m)"

definition GetByMessageID :: "uuid \<Rightarrow> string \<Rightarrow> registry \<Rightarrow> InboundEmail result" where
  "GetByMessageID team mid s =
     (case find (\<lambda>m. inTeamID m = team \<and> inMessageID m = Some mid) (inbound_emails (adb (rgAcct s))) of None \<Rightarrow> Inl ErrNoRows | Some m \<Rightarrow> Inr m)"

record inbound_page =
  ipData :: "InboundEmail list"
  ipTotal :: nat
  ipLimit :: int
  ipOffset :: int

text \<open>The list carries only the columns it reads.\<close>

definition InboundEmailRepo_List :: "uuid \<Rightarrow> int \<Rightarrow> int \<Rightarrow> registry \<Rightarrow> inbound_page" where
  "InboundEmailRepo_List team limit offset s =
     (let own = filter (\<lambda>m. inTeamID m = team) (inbound_emails (adb (rgAcct s)))
      in \<lparr>ipData = map (\<lambda>m. m\<lparr>inText := None, inHTML := None, inAttachments := [], inRawS3Key := None, inHeaders := []\<rparr>)
            (take (nat limit) (drop (nat offset) (sort_key (\<lambda>m. - inCreatedAt m) own))),
          ipTotal = length own, ipLimit = limit, ipOffset = offset\<rparr>)"

definition InboundEmailRepo_PurgeBefore :: "instant \<Rightarrow> registry \<Rightarrow> registry \<times> nat result" where
  "InboundEmailRepo_PurgeBefore before s =
     (set_inbound (\<lambda>d. d\<lparr>inbound_emails := sql_delete (\<lambda>m. inCreatedAt m < before) (inbound_emails d)\<rparr>) s,
      Inr (length (filter (\<lambda>m. inCreatedAt m < before) (inbound_emails (adb (rgAcct s))))))"

section \<open>Service\<close>

definition inbound_call :: "inbound_env \<Rightarrow> inbound_site \<Rightarrow> (registry \<Rightarrow> registry \<times> 'a result) \<Rightarrow> registry \<Rightarrow> registry \<times> 'a result" where
  "inbound_call env site = run_call (ivFault env site)"

definition InboundService_GetTeamByDomain :: "inbound_env \<Rightarrow> nat \<Rightarrow> string \<Rightarrow> registry \<Rightarrow> uuid result" where
  "InboundService_GetTeamByDomain env k name s =
     snd (inbound_call env (IbTeam k) (\<lambda>s. (s, GetTeamByDomain (ToLower (TrimSuffix (TrimSpace name) ''.'')) s)) s)"

definition routing_domain :: "inbound_env \<Rightarrow> string \<Rightarrow> string" where
  "routing_domain env recipient = ToLower (TrimSuffix (TrimSpace (EmailDomain (ivParseEmail env) recipient)) ''.'')"

fun team_of_all :: "inbound_env \<Rightarrow> nat \<Rightarrow> uuid \<Rightarrow> string list \<Rightarrow> registry \<Rightarrow> inbound_error + uuid" where
  "team_of_all env k team [] s = Inr team"
| "team_of_all env k team (r # rs) s =
     (if routing_domain env r = [] then Inl ErrRecipients
      else case InboundService_GetTeamByDomain env k (routing_domain env r) s of
             Inl ErrNoRows \<Rightarrow> Inl (ErrInboundDomainNotFound (routing_domain env r))
           | Inl e \<Rightarrow> Inl (ErrInboundDB e)
           | Inr candidate \<Rightarrow>
               if team = 0 then team_of_all env (Suc k) candidate rs s
               else if candidate \<noteq> team then Inl ErrTeams
               else team_of_all env (Suc k) team rs s)"

definition TeamForRecipients :: "inbound_env \<Rightarrow> string list \<Rightarrow> registry \<Rightarrow> inbound_error + uuid" where
  "TeamForRecipients env recipients s =
     (if recipients = [] \<or> length recipients > 50 then Inl ErrRecipients else team_of_all env 0 0 recipients s)"

definition inbound_event :: string where "inbound_event = ''inbound.received''"

text \<open>The path without a pipeline: one delivery for each subscribed endpoint, errors are only logged.\<close>

fun create_deliveries :: "inbound_env \<Rightarrow> string \<Rightarrow> Webhook list \<Rightarrow> registry \<Rightarrow> registry" where
  "create_deliveries env payload [] s = s"
| "create_deliveries env payload (w # ws) s =
     create_deliveries env payload ws (fst (inbound_call env (IbDelivery (whID w))
       (\<lambda>s. (set_inbound (\<lambda>d. fst (CreateDelivery (ivNow env)
          (pending_delivery (ivNow env) (ivFreshDelivery env (whID w)) (whID w) (ivFreshEvent env) inbound_event (Some payload) RetentionInbound) d)) s, Inr ())) s))"

definition dispatchWebhooks :: "inbound_env \<Rightarrow> uuid \<Rightarrow> InboundEmail \<Rightarrow> registry \<Rightarrow> registry" where
  "dispatchWebhooks env team m s =
     (if \<not> ivDeliveryConfigured env then s
      else case snd (inbound_call env IbHooks (\<lambda>s. (s, Inr (GetByEvent team inbound_event (adb (rgAcct s))))) s) of
             Inl _ \<Rightarrow> s
           | Inr hooks \<Rightarrow> (case ivPayloadJSON env m of None \<Rightarrow> s | Some json \<Rightarrow> create_deliveries env json hooks s))"

definition persist_inbound :: "inbound_env \<Rightarrow> InboundEmail \<Rightarrow> registry \<Rightarrow> registry \<times> (inbound_error + unit)" where
  "persist_inbound env m s =
     (if ivPipeline env then
        (case ivPayloadJSON env m of
           None \<Rightarrow> (s, Inl ErrMarshal)
         | Some json \<Rightarrow>
             (case inbound_call env IbStore (checked m (CreateInboundWithOutbox (ivNow env) m
                     (Some \<lparr>obID = ivFreshOutbox env, obTeamID = inTeamID m, obEventID = ivFreshEvent env, obEvent = inbound_event,
                        obPayload = json, obRetentionClass = RetentionInbound\<rparr>))) s of
                (s', Inr _) \<Rightarrow> (s', Inr ())
              | (s', Inl e) \<Rightarrow> (s', if inMessageID m \<noteq> None \<and> e = UniqueViolation then Inr () else Inl (ErrInboundDB e))))
      else
        (case inbound_call env IbStore (InboundEmailRepo_Create (ivNow env) m) s of
           (s', Inr _) \<Rightarrow> (dispatchWebhooks env (inTeamID m) m s', Inr ())
         | (s', Inl e) \<Rightarrow> (s', if inMessageID m \<noteq> None \<and> e = UniqueViolation then Inr () else Inl (ErrInboundDB e))))"

definition known_message :: "inbound_env \<Rightarrow> uuid \<Rightarrow> string option \<Rightarrow> registry \<Rightarrow> db_error + bool" where
  "known_message env team messageID s =
     (case messageID of
        None \<Rightarrow> Inr False
      | Some mid \<Rightarrow>
          if TrimSpace mid = [] then Inr False
          else (case snd (inbound_call env IbLookup (\<lambda>s. (s, GetByMessageID team (TrimSpace mid) s)) s) of
                  Inr _ \<Rightarrow> Inr True
                | Inl ErrNoRows \<Rightarrow> Inr False
                | Inl e \<Rightarrow> Inl e))"

definition ProcessEmailWithMessageIDAndAttachments ::
  "inbound_env \<Rightarrow> uuid \<Rightarrow> string option \<Rightarrow> ParsedMessage \<Rightarrow> string list \<Rightarrow> string \<Rightarrow> registry \<Rightarrow> registry \<times> (inbound_error + unit)" where
  "ProcessEmailWithMessageIDAndAttachments env team messageID m to rawS3Key s =
     (case known_message env team messageID s of
        Inl e \<Rightarrow> (s, Inl (ErrInboundDB e))
      | Inr True \<Rightarrow> (s, Inr ())
      | Inr False \<Rightarrow>
          (case ivAttachmentsJSON env (pmAttachments m) of
             None \<Rightarrow> (s, Inl ErrMarshal)
           | Some attachments \<Rightarrow>
               persist_inbound env \<lparr>inID = ivFreshID env, inTeamID = team, inMessageID = messageID, inFrom = pmFrom m, inTo = to,
                 inSubject = Some (pmSubject m), inText = Some (pmText m), inHTML = Some (pmHTML m), inAttachments = attachments,
                 inRawS3Key = Some rawS3Key, inHeaders = ivHeadersJSON env (pmHeaders m), inCreatedAt = 0\<rparr> s))"

definition InboundService_GetByIDForTeam :: "inbound_env \<Rightarrow> uuid \<Rightarrow> uuid \<Rightarrow> registry \<Rightarrow> InboundEmail option" where
  "InboundService_GetByIDForTeam env team i s =
     (case snd (inbound_call env IbRead (\<lambda>s. (s, InboundEmailRepo_GetByID i s)) s) of
        Inl _ \<Rightarrow> None
      | Inr m \<Rightarrow> if inTeamID m \<noteq> team then None else Some m)"

definition InboundService_List :: "inbound_env \<Rightarrow> uuid \<Rightarrow> int \<Rightarrow> int \<Rightarrow> registry \<Rightarrow> inbound_page result" where
  "InboundService_List env team limit offset s =
     (let limit1 = (if limit \<le> 0 then 50 else limit); limit2 = (if limit1 > 100 then 100 else limit1);
          offset1 = (if offset < 0 then 0 else offset)
      in snd (inbound_call env IbRead (\<lambda>s. (s, Inr (InboundEmailRepo_List team limit2 offset1 s))) s))"

section \<open>Worker\<close>

text \<open>A message of the queue is identified by its receipt; the worker's world is the database, the certificates and the queue.\<close>

record sqs_message =
  smBody :: "string option"
  smReceipt :: "string option"

record inbound_world =
  iwReg :: registry
  iwCache :: cert_cache
  iwQueue :: "sqs_message list"

definition maxInboundMessageSize :: nat where "maxInboundMessageSize = 10 * 1024 * 1024"

definition readRawEmail :: "inbound_env \<Rightarrow> string \<Rightarrow> string \<Rightarrow> string option" where
  "readRawEmail env bucket key =
     (case ivGetObject env bucket key of
        None \<Rightarrow> None
      | Some (content, ok) \<Rightarrow> if length content > maxInboundMessageSize then None else if ok then Some content else None)"

definition raw_content :: "inbound_env \<Rightarrow> SESNotification \<Rightarrow> inbound_error + string" where
  "raw_content env n =
     (if nfContent n \<noteq> [] then Inr (nfContent n)
      else if nfObjectKey n = [] then Inl ErrNoContent
      else (let bucket = (if nfBucketName n = [] then ivBucket env else nfBucketName n) in
        if bucket \<noteq> ivBucket env then Inl ErrBucket
        else (case readRawEmail env bucket (nfObjectKey n) of None \<Rightarrow> Inl ErrObject | Some c \<Rightarrow> Inr c)))"

definition routing_recipients :: "SESNotification \<Rightarrow> ParsedMessage \<Rightarrow> string list" where
  "routing_recipients n m = (if nfRecipients n \<noteq> [] then nfRecipients n else pmTo m)"

definition optional_id :: "string \<Rightarrow> string option" where
  "optional_id x = (if x = [] then None else Some x)"

definition route_and_store :: "inbound_env \<Rightarrow> SESNotification \<Rightarrow> registry \<Rightarrow> registry \<times> (inbound_error + unit)" where
  "route_and_store env n s =
     (case raw_content env n of
        Inl e \<Rightarrow> (s, Inl e)
      | Inr content \<Rightarrow>
          (case ParseRawMessage (ivMime env) content of
             None \<Rightarrow> (s, Inl ErrParse)
           | Some m \<Rightarrow>
               (case TeamForRecipients env (routing_recipients n m) s of
                  Inl e \<Rightarrow> (s, Inl e)
                | Inr team \<Rightarrow>
                    ProcessEmailWithMessageIDAndAttachments env team (optional_id (nfMessageID n)) m (routing_recipients n m) (nfObjectKey n) s)))"

definition processMessage :: "inbound_env \<Rightarrow> sqs_message \<Rightarrow> inbound_world \<Rightarrow> inbound_world \<times> (inbound_error + unit)" where
  "processMessage env msg w =
     (case smBody msg of
        None \<Rightarrow> (w, Inl ErrNoBody)
      | Some body \<Rightarrow>
          (case DecodeAndVerifySNS env body (iwCache w) of
             (cache, Inl e) \<Rightarrow>
               (w\<lparr>iwCache := cache\<rparr>, Inl (if e = ErrSNS ErrStaleNotification \<or> e = ErrSNS ErrInvalidNotification then ErrDiscardInboundMessage else e))
           | (cache, Inr n) \<Rightarrow>
               (case route_and_store env n (iwReg w) of (s, r) \<Rightarrow> (w\<lparr>iwCache := cache, iwReg := s\<rparr>, r))))"

definition deleteMessage :: "inbound_env \<Rightarrow> sqs_message \<Rightarrow> inbound_world \<Rightarrow> inbound_world" where
  "deleteMessage env msg w =
     (case smReceipt msg of
        None \<Rightarrow> w
      | Some r \<Rightarrow> fst (run_call (ivFault env IbDelete) (\<lambda>w. (w\<lparr>iwQueue := sql_delete (\<lambda>x. smReceipt x = Some r) (iwQueue w)\<rparr>, Inr ())) w))"

text \<open>The body of the goroutine for one message: it is deleted when it was processed or has to be discarded.\<close>

definition handle_message :: "inbound_env \<Rightarrow> sqs_message \<Rightarrow> inbound_world \<Rightarrow> inbound_world" where
  "handle_message env msg w =
     (case processMessage env msg w of
        (w', Inl e) \<Rightarrow> if e = ErrDiscardInboundMessage then deleteMessage env msg w' else w'
      | (w', Inr _) \<Rightarrow> deleteMessage env msg w')"

section \<open>Endpoints\<close>

text \<open>\<open>pkg/middleware/inbound.go\<close>: the reply that refuses a request, or none.\<close>

definition InboundToken :: "string \<Rightarrow> string \<Rightarrow> reply option" where
  "InboundToken token provided =
     (if token = [] then Some (503, ''inbound webhook token is not configured'')
      else if provided \<noteq> token then Some (401, ''invalid inbound webhook token'') else None)"

definition status_reply :: "string \<Rightarrow> reply" where
  "status_reply status = (200, status)"

definition topic_refused :: "inbound_env \<Rightarrow> Notification \<Rightarrow> bool" where
  "topic_refused env n \<longleftrightarrow> ivTopic env \<noteq> [] \<and> snTopicArn n \<noteq> ivTopic env"

text \<open>A subscription is confirmed with the addresses it called.\<close>

definition confirm_reply :: "inbound_env \<Rightarrow> Notification \<Rightarrow> string list \<times> reply" where
  "confirm_reply env n =
     (if snType n = ''SubscriptionConfirmation'' then
        (case ConfirmSubscription (ivSns env) n of
           (called, Inl _) \<Rightarrow> (called, writeError ''failed to confirm SNS subscription'' 503)
         | (called, Inr _) \<Rightarrow> (called, status_reply ''confirmed''))
      else ([], status_reply ''confirmed''))"

datatype decoded = Answer "string list" reply | Go SESNotification

text \<open>The request up to its notification, or the reply that ends it.\<close>

definition accept_payload :: "inbound_env \<Rightarrow> string \<Rightarrow> string \<Rightarrow> cert_cache \<Rightarrow> cert_cache \<times> decoded" where
  "accept_payload env provided body cache =
     (case ivDecodeSNS env body of
        None \<Rightarrow> (cache, Answer [] (400, ''invalid json''))
      | Some n \<Rightarrow>
          if snType n = ''SubscriptionConfirmation'' \<or> snType n = ''UnsubscribeConfirmation'' then
            (case VerifyNotification (ivSns env) (n\<lparr>snSubject := []\<rparr>) (ivNow env) cache of
               (cache', Inl _) \<Rightarrow> (cache', Answer [] (writeError ''invalid SNS confirmation'' 401))
             | (cache', Inr _) \<Rightarrow>
                 (cache', if topic_refused env n then Answer [] (writeError ''invalid SNS confirmation'' 401)
                          else (case confirm_reply env n of (called, r) \<Rightarrow> Answer called r)))
          else if snType n = ''Notification'' \<and> snMessage n \<noteq> [] then
            (case VerifyNotification (ivSns env) n (ivNow env) cache of
               (cache', Inl _) \<Rightarrow> (cache', Answer [] (writeError ''invalid SNS notification'' 401))
             | (cache', Inr _) \<Rightarrow>
                 (cache', if topic_refused env n then Answer [] (writeError ''invalid SNS notification'' 401)
                          else (case DecodeNotification env (snMessage n) of
                                  None \<Rightarrow> Answer [] (status_reply ''ignored'')
                                | Some inner \<Rightarrow> Go (or_envelope_id n inner))))
          else if ivToken env = [] then (cache, Answer [] (writeError ''inbound webhook token is not configured'' 503))
          else if provided \<noteq> ivToken env then (cache, Answer [] (writeError ''invalid inbound webhook token'' 401))
          else (cache, case DecodeNotification env body of None \<Rightarrow> Answer [] (400, ''invalid json'') | Some x \<Rightarrow> Go x))"

definition store_payload :: "inbound_env \<Rightarrow> SESNotification \<Rightarrow> registry \<Rightarrow> registry \<times> reply" where
  "store_payload env n s =
     (if nfContent n = [] then
        (s, if nfObjectKey n \<noteq> [] then writeError ''S3-backed inbound messages must use the SQS worker'' 503
            else writeError ''inbound notification has no raw content'' 422)
      else case ParseRawMessage (ivMime env) (nfContent n) of
             None \<Rightarrow> (s, status_reply ''invalid email'')
           | Some m \<Rightarrow>
               if pmFrom m = [] \<or> pmTo m = [] then (s, status_reply ''invalid email'')
               else case TeamForRecipients env (routing_recipients n m) s of
                      Inl _ \<Rightarrow> (s, writeError ''inbound recipient cannot be routed yet'' 503)
                    | Inr team \<Rightarrow>
                        (case ProcessEmailWithMessageIDAndAttachments env team (optional_id (TrimSpace (nfMessageID n))) m
                                (routing_recipients n m) (nfObjectKey n) s of
                           (s', Inl _) \<Rightarrow> (s', (500, ''failed to process''))
                         | (s', Inr _) \<Rightarrow> (s', status_reply ''processed'')))"

definition HandleSESPayload :: "inbound_env \<Rightarrow> string \<Rightarrow> string option \<Rightarrow> inbound_world \<Rightarrow> inbound_world \<times> string list \<times> reply" where
  "HandleSESPayload env provided body w =
     (case body of
        None \<Rightarrow> (w, [], (400, ''failed to read body''))
      | Some b \<Rightarrow>
          (case accept_payload env provided b (iwCache w) of
             (cache, Answer called r) \<Rightarrow> (w\<lparr>iwCache := cache\<rparr>, called, r)
           | (cache, Go n) \<Rightarrow>
               (case store_payload env n (iwReg w) of (s, r) \<Rightarrow> (w\<lparr>iwCache := cache, iwReg := s\<rparr>, [], r))))"

definition InboundHandler_GetByID :: "access_env \<Rightarrow> inbound_env \<Rightarrow> Claims option \<Rightarrow> string \<Rightarrow> registry \<Rightarrow> reply + InboundEmail" where
  "InboundHandler_GetByID ae env c idText s =
     (case requirePermission c ''read'' of
        Some r \<Rightarrow> Inl r
      | None \<Rightarrow>
          (case getTeamID ae c of
             Inl r \<Rightarrow> Inl r
           | Inr team \<Rightarrow>
               (case aeParseUUID ae idText of
                  None \<Rightarrow> Inl (writeError ''invalid id'' 400)
                | Some i \<Rightarrow>
                    (case InboundService_GetByIDForTeam env team i s of
                       None \<Rightarrow> Inl (writeError ''inbound email not found'' 404)
                     | Some m \<Rightarrow> Inr m))))"

text \<open>\<open>strconv.Atoi\<close>: a sign and digits, nothing else, within 64 bits.\<close>

definition Atoi :: "string \<Rightarrow> int option" where
  "Atoi s =
     (let ds = (if s \<noteq> [] \<and> hd s \<in> set ''+-'' then tl s else s);
          v = (if s \<noteq> [] \<and> hd s = CHR ''-'' then - digits_value 0 ds else digits_value 0 ds)
      in if ds = [] \<or> \<not> list_all is_digit ds \<or> v < - (2 ^ 63) \<or> v \<ge> 2 ^ 63 then None else Some v)"

definition atoi_or :: "int \<Rightarrow> string \<Rightarrow> int" where
  "atoi_or dflt s = (case Atoi s of None \<Rightarrow> dflt | Some v \<Rightarrow> v)"

definition InboundHandler_List :: "access_env \<Rightarrow> inbound_env \<Rightarrow> Claims option \<Rightarrow> string \<Rightarrow> string \<Rightarrow> registry \<Rightarrow> reply + inbound_page" where
  "InboundHandler_List ae env c limitText offsetText s =
     (case requirePermission c ''read'' of
        Some r \<Rightarrow> Inl r
      | None \<Rightarrow>
          (case getTeamID ae c of
             Inl r \<Rightarrow> Inl r
           | Inr team \<Rightarrow>
               (case InboundService_List env team (atoi_or 50 limitText) (atoi_or 0 offsetText) s of
                  Inl e \<Rightarrow> Inl (writeError (aeDBText ae e) 500)
                | Inr page \<Rightarrow> Inr page)))"

section \<open>What storing does\<close>

abbreviation inbound_db :: "registry \<Rightarrow> db" where
  "inbound_db s \<equiv> adb (rgAcct s)"

definition fresh_inbound :: "inbound_env \<Rightarrow> registry \<Rightarrow> bool" where
  "fresh_inbound env s \<longleftrightarrow> list_all (\<lambda>m. inID m \<noteq> ivFreshID env) (inbound_emails (inbound_db s)) \<and>
     list_all (\<lambda>o1. oxID o1 \<noteq> ivFreshOutbox env \<and> oxEventID o1 \<noteq> ivFreshEvent env) (webhook_outbox (inbound_db s))"

lemma set_inbound_simps [simp]:
  "inbound_db (set_inbound f s) = f (inbound_db s)" "rgDomains (set_inbound f s) = rgDomains s" "teams (rgAcct (set_inbound f s)) = teams (rgAcct s)"
  by (simp_all add: set_inbound_def)

text \<open>The table gains one row of this team and id; the recorded event is in the same commit when there is a pipeline.\<close>

definition row_added :: "inbound_env \<Rightarrow> InboundEmail \<Rightarrow> registry \<Rightarrow> registry \<Rightarrow> bool" where
  "row_added env m s s' \<longleftrightarrow> rgDomains s' = rgDomains s \<and> emails (inbound_db s') = emails (inbound_db s) \<and>
     (\<exists>row. inbound_emails (inbound_db s') = inbound_emails (inbound_db s) @ [row] \<and> inID row = inID m \<and> inTeamID row = inTeamID m \<and>
        inMessageID row = inMessageID m \<and> inTo row = inTo m \<and> inFrom row = inFrom m) \<and>
     (ivPipeline env \<longrightarrow> (\<exists>ob. webhook_outbox (inbound_db s') = webhook_outbox (inbound_db s) @ [ob] \<and> oxTeamID ob = inTeamID m \<and>
        oxEvent ob = inbound_event \<and> oxRetentionClass ob = RetentionInbound))"

lemma checked_cases:
  assumes "checked m op s = (s', r)"
  obtains e where "s' = s" "r = Inl e"
  | d where "op (inbound_db s) = (d, Inr ())" "s' = set_inbound (\<lambda>_. d) s" "r = Inr ()"
proof (cases "op (inbound_db s)")
  case (Pair d q)
  show ?thesis
  proof (cases "\<not> inbound_too_long m \<and> q = Inr () \<and> by_key tmID (inTeamID m) (teams (rgAcct s)) \<noteq> None")
    case True
    then show ?thesis using assms Pair by (intro that(2) [of d]) (auto simp: checked_def)
  next
    case False
    then have "s' = s \<and> (\<exists>e. r = Inl e)" using assms Pair by (cases q) (auto simp: checked_def split: if_splits)
    then show ?thesis using that(1) by auto
  qed
qed

lemma pipeline_row:
  assumes "CreateInboundWithOutbox now m (Some ob) d = (d', Inr ())" "list_all (\<lambda>x. oxEventID x \<noteq> obEventID ob) (webhook_outbox d)"
  shows "emails d' = emails d \<and> (\<exists>row. inbound_emails d' = inbound_emails d @ [row] \<and> inID row = inID m \<and> inTeamID row = inTeamID m \<and>
      inMessageID row = inMessageID m \<and> inTo row = inTo m \<and> inFrom row = inFrom m) \<and>
    webhook_outbox d' = webhook_outbox d @ [outbox_row_of now ob]"
proof -
  have "by_key oxEventID (obEventID ob) (webhook_outbox d) = None"
    using assms(2) by (auto simp: by_key_def find_None_iff list_all_iff)
  then show ?thesis using assms(1)
    by (auto simp: CreateInboundWithOutbox_def insertOutbox_def Let_def split: if_splits)
qed

lemma create_deliveries_frame:
  "rgDomains (create_deliveries env j ws s) = rgDomains s \<and> emails (inbound_db (create_deliveries env j ws s)) = emails (inbound_db s) \<and>
   inbound_emails (inbound_db (create_deliveries env j ws s)) = inbound_emails (inbound_db s)"
proof (induction ws arbitrary: s)
  case (Cons w ws)
  show ?case
    by (cases "ivFault env (IbDelivery (whID w))") (simp_all add: Cons.IH inbound_call_def CreateDelivery_def)
qed simp

lemma dispatchWebhooks_frame:
  "rgDomains (dispatchWebhooks env t m s) = rgDomains s \<and> emails (inbound_db (dispatchWebhooks env t m s)) = emails (inbound_db s) \<and>
   inbound_emails (inbound_db (dispatchWebhooks env t m s)) = inbound_emails (inbound_db s)"
  by (auto simp: dispatchWebhooks_def create_deliveries_frame split: sum.splits option.splits)

lemma checked_unique:
  assumes "checked m op s = (s', Inl UniqueViolation)"
  shows "s' = s" "\<exists>d. op (inbound_db s) = (d, Inl UniqueViolation)"
  using assms by (auto simp: checked_def split: if_splits prod.splits sum.splits)

lemma legacy_row:
  assumes "InboundEmailRepo_Create now m s = (s', Inr ())"
  shows "inbound_emails (inbound_db s') = inbound_emails (inbound_db s) @ [m\<lparr>inCreatedAt := now\<rparr>] \<and> rgDomains s' = rgDomains s \<and>
    emails (inbound_db s') = emails (inbound_db s)"
  using assms unfolding InboundEmailRepo_Create_def
proof (rule checked_cases)
  fix d
  assume d: "(if inbound_conflict m (inbound_emails (inbound_db s)) then (inbound_db s, Inl UniqueViolation)
      else ((inbound_db s)\<lparr>inbound_emails := inbound_emails (inbound_db s) @ [m\<lparr>inCreatedAt := now\<rparr>]\<rparr>, Inr ())) = (d, Inr ())"
    and s': "s' = set_inbound (\<lambda>_. d) s"
  have "d = (inbound_db s)\<lparr>inbound_emails := inbound_emails (inbound_db s) @ [m\<lparr>inCreatedAt := now\<rparr>]\<rparr>" using d by (simp split: if_splits)
  then show ?thesis unfolding s' by simp
qed simp

lemma fresh_conflict:
  assumes "fresh_inbound env s" "inID m = ivFreshID env" "inbound_conflict m (inbound_emails (inbound_db s))"
  shows "inMessageID m \<noteq> None \<and> (\<exists>row \<in> set (inbound_emails (inbound_db s)). inTeamID row = inTeamID m \<and> inMessageID row = inMessageID m)"
  using assms by (auto simp: inbound_conflict_def fresh_inbound_def list_all_iff)

lemma pipeline_conflict:
  assumes "CreateInboundWithOutbox now m (Some ob) (inbound_db s) = (d, Inl UniqueViolation)" "fresh_inbound env s" "inID m = ivFreshID env"
    "obID ob = ivFreshOutbox env"
  shows "inMessageID m \<noteq> None \<and> (\<exists>row \<in> set (inbound_emails (inbound_db s)). inTeamID row = inTeamID m \<and> inMessageID row = inMessageID m)"
proof -
  have "by_key oxID (obID ob) (webhook_outbox (inbound_db s)) = None"
    using assms(2,4) by (auto simp: by_key_def find_None_iff list_all_iff fresh_inbound_def)
  then have "inbound_conflict m (inbound_emails (inbound_db s))"
    using assms(1) by (auto simp: CreateInboundWithOutbox_def insertOutbox_def inbound_conflict_def Let_def split: if_splits)
  then show ?thesis by (rule fresh_conflict [OF assms(2,3)])
qed

text \<open>Storing either leaves everything as it was or adds the row; it answers without adding only for a stored id.\<close>

definition row_known :: "uuid \<Rightarrow> string option \<Rightarrow> registry \<Rightarrow> bool" where
  "row_known team mid s \<longleftrightarrow> mid \<noteq> None \<and> (\<exists>row \<in> set (inbound_emails (inbound_db s)). inTeamID row = team \<and> inMessageID row = mid)"

lemma store_pipeline:
  assumes "inbound_call env IbStore (checked m (CreateInboundWithOutbox (ivNow env) m
      (Some \<lparr>obID = ivFreshOutbox env, obTeamID = inTeamID m, obEventID = ivFreshEvent env, obEvent = inbound_event,
         obPayload = json, obRetentionClass = RetentionInbound\<rparr>))) s = (s', r)" (is "inbound_call env IbStore ?op s = _")
    and fresh: "fresh_inbound env s" "inID m = ivFreshID env" and pl: "ivPipeline env"
  shows "s' = s \<and> (r = Inl UniqueViolation \<longrightarrow> row_known (inTeamID m) (inMessageID m) s) \<and> r \<noteq> Inr () \<or> row_added env m s s' \<and> r \<noteq> Inl UniqueViolation"
proof -
  obtain s1 r1 where op: "?op s = (s1, r1)" by force
  have added: "row_added env m s s1" if "r1 = Inr ()"
    using op unfolding that
  proof (rule checked_cases)
    fix d
    assume "CreateInboundWithOutbox (ivNow env) m (Some \<lparr>obID = ivFreshOutbox env, obTeamID = inTeamID m, obEventID = ivFreshEvent env,
      obEvent = inbound_event, obPayload = json, obRetentionClass = RetentionInbound\<rparr>) (inbound_db s) = (d, Inr ())" and s1: "s1 = set_inbound (\<lambda>_. d) s"
    from pipeline_row [OF this(1)] fresh(1) show ?thesis
      unfolding s1 row_added_def by (auto simp: fresh_inbound_def list_all_iff outbox_row_of_def)
  qed simp
  have same: "s1 = s" if "r1 \<noteq> Inr ()" using op that by (elim checked_cases) auto
  have known: "row_known (inTeamID m) (inMessageID m) s" if "r1 = Inl UniqueViolation"
    using checked_unique(2) [of m _ s s1] op pipeline_conflict [OF _ fresh] unfolding that row_known_def by fastforce
  show ?thesis
  proof (cases "ivFault env IbStore")
    case NoFault
    then have "s' = s1" "r = r1" using assms(1) op by (simp_all add: inbound_call_def)
    then show ?thesis using added same known by (cases r1) auto
  next
    case FailLost
    then show ?thesis using assms(1) by (auto simp: inbound_call_def)
  next
    case FailApplied
    then have "s' = s1" "r = Inl ConnFailure" using assms(1) op by (auto simp: inbound_call_def)
    then show ?thesis using added same by (cases r1) auto
  qed
qed

lemma row_added_cong:
  assumes "row_added env m s s1" "\<not> ivPipeline env" "rgDomains s' = rgDomains s1" "emails (inbound_db s') = emails (inbound_db s1)"
    "inbound_emails (inbound_db s') = inbound_emails (inbound_db s1)"
  shows "row_added env m s s'"
  using assms by (simp add: row_added_def)

lemma store_legacy:
  assumes "inbound_call env IbStore (InboundEmailRepo_Create (ivNow env) m) s = (s', r)"
    and fresh: "fresh_inbound env s" "inID m = ivFreshID env" and pl: "\<not> ivPipeline env"
  shows "s' = s \<and> (r = Inl UniqueViolation \<longrightarrow> row_known (inTeamID m) (inMessageID m) s) \<and> r \<noteq> Inr () \<or> row_added env m s s' \<and> r \<noteq> Inl UniqueViolation"
proof -
  obtain s1 r1 where op: "InboundEmailRepo_Create (ivNow env) m s = (s1, r1)" by force
  have added: "row_added env m s s1" if "r1 = Inr ()"
    using legacy_row [of "ivNow env" m s s1] op that pl by (simp add: row_added_def)
  have same: "s1 = s" if "r1 \<noteq> Inr ()"
    using op that unfolding InboundEmailRepo_Create_def by (elim checked_cases) auto
  have known: "row_known (inTeamID m) (inMessageID m) s" if "r1 = Inl UniqueViolation"
    using checked_unique(2) [of m _ s s1] op fresh_conflict [OF fresh]
    unfolding that row_known_def InboundEmailRepo_Create_def by (fastforce split: if_splits)
  show ?thesis
  proof (cases "ivFault env IbStore")
    case NoFault
    then have "s' = s1" "r = r1" using assms(1) op by (simp_all add: inbound_call_def)
    then show ?thesis using added same known by (cases r1) auto
  next
    case FailLost
    then show ?thesis using assms(1) by (auto simp: inbound_call_def)
  next
    case FailApplied
    then have "s' = s1" "r = Inl ConnFailure" using assms(1) op by (auto simp: inbound_call_def)
    then show ?thesis using added same by (cases r1) auto
  qed
qed

lemma persist_effect:
  assumes "persist_inbound env m s = (s', r)" "fresh_inbound env s" "inID m = ivFreshID env"
  shows "s' = s \<and> (r = Inr () \<longrightarrow> row_known (inTeamID m) (inMessageID m) s) \<or> row_added env m s s'"
proof (cases "ivPipeline env")
  case True
  show ?thesis
  proof (cases "ivPayloadJSON env m")
    case None
    then show ?thesis using assms(1) True by (auto simp: persist_inbound_def)
  next
    case (Some json)
    obtain s1 q where c: "inbound_call env IbStore (checked m (CreateInboundWithOutbox (ivNow env) m
        (Some \<lparr>obID = ivFreshOutbox env, obTeamID = inTeamID m, obEventID = ivFreshEvent env, obEvent = inbound_event,
           obPayload = json, obRetentionClass = RetentionInbound\<rparr>))) s = (s1, q)" by (metis surj_pair)
    then have "s' = s1" "r = Inr () \<longrightarrow> q = Inr () \<or> q = Inl UniqueViolation"
      using assms(1) True Some by (auto simp: persist_inbound_def split: sum.splits if_splits)
    then show ?thesis using store_pipeline [OF c assms(2,3) True] by auto
  qed
next
  case False
  obtain s1 q where c: "inbound_call env IbStore (InboundEmailRepo_Create (ivNow env) m) s = (s1, q)" by (metis surj_pair)
  show ?thesis
  proof (cases q)
    case (Inl e)
    then have "s' = s1" "r = Inr () \<longrightarrow> q = Inl UniqueViolation"
      using assms(1) False c by (auto simp: persist_inbound_def split: if_splits)
    then show ?thesis using store_legacy [OF c assms(2,3) False] by auto
  next
    case (Inr u)
    then have s': "s' = dispatchWebhooks env (inTeamID m) m s1" using assms(1) False c by (simp add: persist_inbound_def)
    have "row_added env m s s1" using store_legacy [OF c assms(2,3) False] Inr by simp
    then show ?thesis using row_added_cong [OF _ False] dispatchWebhooks_frame s' by simp
  qed
qed

lemma GetByMessageID_known: "GetByMessageID team mid s = Inr m \<Longrightarrow> row_known team (Some mid) s"
  by (auto simp: GetByMessageID_def row_known_def find_Some_iff split: option.splits)

lemma known_message_known:
  assumes "known_message env team messageID s = Inr True"
  shows "\<exists>mid. messageID = Some mid \<and> TrimSpace mid \<noteq> [] \<and> row_known team (Some (TrimSpace mid)) s"
proof -
  obtain mid where mid: "messageID = Some mid" "TrimSpace mid \<noteq> []"
    using assms by (auto simp: known_message_def split: option.splits if_splits)
  then obtain m where "snd (inbound_call env IbLookup (\<lambda>s. (s, GetByMessageID team (TrimSpace mid) s)) s) = Inr m"
    using assms by (auto simp: known_message_def split: sum.splits db_error.splits)
  then have "GetByMessageID team (TrimSpace mid) s = Inr m" by (cases "ivFault env IbLookup") (simp_all add: inbound_call_def)
  then show ?thesis using mid by (blast intro: GetByMessageID_known)
qed

text \<open>The row of a message is stored under its id as it came or without the blanks around it.\<close>

definition message_stored :: "uuid \<Rightarrow> string \<Rightarrow> registry \<Rightarrow> bool" where
  "message_stored team mid s \<longleftrightarrow> row_known team (Some mid) s \<or> TrimSpace mid \<noteq> [] \<and> row_known team (Some (TrimSpace mid)) s"

definition message_added :: "inbound_env \<Rightarrow> uuid \<Rightarrow> string option \<Rightarrow> string list \<Rightarrow> registry \<Rightarrow> registry \<Rightarrow> bool" where
  "message_added env team mid to s s' \<longleftrightarrow> (\<exists>m. row_added env m s s' \<and> inTeamID m = team \<and> inMessageID m = mid \<and> inTo m = to)"

lemma process_effect:
  assumes "ProcessEmailWithMessageIDAndAttachments env team messageID m to key s = (s', r)" "fresh_inbound env s"
  shows "s' = s \<and> (r = Inr () \<longrightarrow> (\<exists>mid. messageID = Some mid \<and> message_stored team mid s)) \<or> message_added env team messageID to s s'"
proof (cases "known_message env team messageID s")
  case (Inl e)
  then show ?thesis using assms(1) by (auto simp: ProcessEmailWithMessageIDAndAttachments_def)
next
  case (Inr b)
  show ?thesis
  proof (cases b)
    case True
    then show ?thesis using assms(1) Inr known_message_known [of env team messageID s]
      by (auto simp: ProcessEmailWithMessageIDAndAttachments_def message_stored_def)
  next
    case False
    show ?thesis
    proof (cases "ivAttachmentsJSON env (pmAttachments m)")
      case None
      then show ?thesis using assms(1) Inr False by (auto simp: ProcessEmailWithMessageIDAndAttachments_def)
    next
      case (Some att)
      let ?m = "\<lparr>inID = ivFreshID env, inTeamID = team, inMessageID = messageID, inFrom = pmFrom m, inTo = to,
                 inSubject = Some (pmSubject m), inText = Some (pmText m), inHTML = Some (pmHTML m), inAttachments = att,
                 inRawS3Key = Some key, inHeaders = ivHeadersJSON env (pmHeaders m), inCreatedAt = 0\<rparr>"
      have "persist_inbound env ?m s = (s', r)"
        using assms(1) Inr False Some by (simp add: ProcessEmailWithMessageIDAndAttachments_def)
      from persist_effect [OF this assms(2)]
      have "s' = s \<and> (r = Inr () \<longrightarrow> row_known team messageID s) \<or> row_added env ?m s s'" by simp
      then show ?thesis unfolding message_added_def message_stored_def
        by (auto simp: row_known_def intro!: exI [of _ ?m])
    qed
  qed
qed

section \<open>Routing\<close>

definition owns_recipient :: "inbound_env \<Rightarrow> uuid \<Rightarrow> string \<Rightarrow> registry \<Rightarrow> bool" where
  "owns_recipient env team r s \<longleftrightarrow> routing_domain env r \<noteq> [] \<and>
     (\<exists>d \<in> set (rgDomains s). canonical_name (doName d) = ToLower (TrimSuffix (TrimSpace (routing_domain env r)) ''.'') \<and>
        doStatus d = DomainStatusVerified \<and> doMXStatus d = ''verified'' \<and> doTeamID d = team)"

lemma team_lookup: "InboundService_GetTeamByDomain env k name s = Inr t \<Longrightarrow> GetTeamByDomain (ToLower (TrimSuffix (TrimSpace name) ''.'')) s = Inr t"
  by (cases "ivFault env (IbTeam k)") (simp_all add: InboundService_GetTeamByDomain_def inbound_call_def)

lemma GetTeamByDomain_owner:
  "GetTeamByDomain name s = Inr t \<Longrightarrow>
   \<exists>d \<in> set (rgDomains s). canonical_name (doName d) = name \<and> doStatus d = DomainStatusVerified \<and> doMXStatus d = ''verified'' \<and> doTeamID d = t"
  by (auto simp: GetTeamByDomain_def find_Some_iff split: option.splits)

lemma team_of_all_owns:
  assumes "team_of_all env k t rs s = Inr x" "\<forall>d \<in> set (rgDomains s). doTeamID d \<noteq> 0"
  shows "(t \<noteq> 0 \<longrightarrow> x = t) \<and> (\<forall>r \<in> set rs. owns_recipient env x r s)"
  using assms(1)
proof (induction rs arbitrary: k t)
  case (Cons r rs)
  obtain c where c: "routing_domain env r \<noteq> []" "InboundService_GetTeamByDomain env k (routing_domain env r) s = Inr c"
      "t = 0 \<or> c = t" "team_of_all env (Suc k) c rs s = Inr x"
    using Cons.prems by (auto split: if_splits sum.splits db_error.splits)
  note own = GetTeamByDomain_owner [OF team_lookup [OF c(2)]]
  then have "c \<noteq> 0" using assms(2) by auto
  then show ?case using Cons.IH [OF c(4)] c own by (auto simp: owns_recipient_def)
qed simp

lemma team_of_all_determined:
  assumes "team_of_all env k t rs s = Inr x" "team_of_all env' k' t rs s' = Inr y" "routing_domain env' = routing_domain env" "rgDomains s' = rgDomains s"
  shows "y = x"
  using assms(1,2)
proof (induction rs arbitrary: k k' t)
  case (Cons r rs)
  have gen: "\<exists>c. InboundService_GetTeamByDomain e j (routing_domain env r) z = Inr c \<and> (t = 0 \<or> c = t) \<and> team_of_all e (Suc j) c rs z = Inr u"
    if "team_of_all e j t (r # rs) z = Inr u" "routing_domain e = routing_domain env" for e j z u
    using that by (auto split: if_splits sum.splits db_error.splits)
  from gen [OF Cons.prems(1)] gen [OF Cons.prems(2) assms(3)] obtain c c' where
    c: "InboundService_GetTeamByDomain env k (routing_domain env r) s = Inr c" "team_of_all env (Suc k) c rs s = Inr x" and
    c': "InboundService_GetTeamByDomain env' k' (routing_domain env r) s' = Inr c'" "team_of_all env' (Suc k') c' rs s' = Inr y" by blast
  have "c' = c" using team_lookup [OF c(1)] team_lookup [OF c'(1)] assms(4) by (simp add: GetTeamByDomain_def)
  then show ?case using Cons.IH [OF c(2)] c'(2) by simp
qed simp

lemma decoded_has_id:
  assumes "DecodeAndVerifySNS env body cache = (cache', Inr inner)"
  obtains n inner0 where "ivDecodeSNS env body = Some n" "snd (VerifyNotificationForQueue (ivSns env) (n\<lparr>snUnsubscribeURL := []\<rparr>) (ivNow env) cache) = Inr ()"
    "ivTopic env \<noteq> [] \<longrightarrow> snTopicArn n = ivTopic env" "DecodeNotification env (snMessage n) = Some inner0" "inner = or_envelope_id n inner0"
    "nfMessageID inner \<noteq> []"
proof -
  obtain n inner0 where n: "ivDecodeSNS env body = Some n" "snd (VerifyNotificationForQueue (ivSns env) (n\<lparr>snUnsubscribeURL := []\<rparr>) (ivNow env) cache) = Inr ()"
    "ivTopic env \<noteq> [] \<longrightarrow> snTopicArn n = ivTopic env" "DecodeNotification env (snMessage n) = Some inner0" "inner = or_envelope_id n inner0"
    using assms by (auto simp: DecodeAndVerifySNS_def split: option.splits if_splits prod.splits sum.splits)
  have "snMessageID n \<noteq> []"
    using n(2) by (auto simp: VerifyNotificationForQueue_def verifyNotification_def check_fields_def split: if_splits)
  then have "nfMessageID inner \<noteq> []" using n(5) by (auto simp: or_envelope_id_def)
  then show ?thesis using n that by blast
qed

text \<open>What processing a verified notification does to the database.\<close>

lemma route_effect:
  assumes "route_and_store env n s = (s', r)" "fresh_inbound env s"
  shows "s' = s \<and> r \<noteq> Inr () \<or>
    (\<exists>content m team. raw_content env n = Inr content \<and> ParseRawMessage (ivMime env) content = Some m \<and>
       TeamForRecipients env (routing_recipients n m) s = Inr team \<and>
       (s' = s \<and> (r = Inr () \<longrightarrow> (\<exists>mid. optional_id (nfMessageID n) = Some mid \<and> message_stored team mid s)) \<or>
        message_added env team (optional_id (nfMessageID n)) (routing_recipients n m) s s'))"
proof (cases "raw_content env n")
  case (Inl e)
  then show ?thesis using assms(1) by (auto simp: route_and_store_def)
next
  case content: (Inr content)
  show ?thesis
  proof (cases "ParseRawMessage (ivMime env) content")
    case None
    then show ?thesis using assms(1) content by (auto simp: route_and_store_def)
  next
    case m: (Some m)
    show ?thesis
    proof (cases "TeamForRecipients env (routing_recipients n m) s")
      case (Inl e)
      then show ?thesis using assms(1) content m by (auto simp: route_and_store_def)
    next
      case (Inr team)
      then have "ProcessEmailWithMessageIDAndAttachments env team (optional_id (nfMessageID n)) m (routing_recipients n m) (nfObjectKey n) s = (s', r)"
        using assms(1) content m by (simp add: route_and_store_def)
      from process_effect [OF this assms(2)] show ?thesis using content m Inr by blast
    qed
  qed
qed

lemma message_added_stored: "message_added env team (Some mid) to s s' \<Longrightarrow> message_stored team mid s'"
  by (auto simp: message_added_def row_added_def message_stored_def row_known_def)

lemma team_for_owns:
  assumes "TeamForRecipients env rs s = Inr team" "\<forall>d \<in> set (rgDomains s). doTeamID d \<noteq> 0"
  shows "\<forall>r \<in> set rs. owns_recipient env team r s"
  using team_of_all_owns [OF _ assms(2)] assms(1) by (auto simp: TeamForRecipients_def split: if_splits)

lemma processMessage_cases:
  assumes "processMessage env msg w = (w', r)"
  obtains (failed) "iwReg w' = iwReg w" "iwQueue w' = iwQueue w" "r \<noteq> Inr ()"
      "r = Inl ErrDiscardInboundMessage \<longrightarrow> (\<exists>body e. smBody msg = Some body \<and> snd (DecodeAndVerifySNS env body (iwCache w)) = Inl (ErrSNS e) \<and>
         e \<in> {ErrStaleNotification, ErrInvalidNotification})"
  | (verified) body cache inner where "smBody msg = Some body" "DecodeAndVerifySNS env body (iwCache w) = (cache, Inr inner)"
      "route_and_store env inner (iwReg w) = (iwReg w', r)" "iwQueue w' = iwQueue w"
proof (cases "smBody msg")
  case None
  then show ?thesis using assms by (intro failed) (auto simp: processMessage_def)
next
  case (Some body)
  obtain cache q where d: "DecodeAndVerifySNS env body (iwCache w) = (cache, q)" by force
  show ?thesis
  proof (cases q)
    case (Inl e)
    then show ?thesis using assms Some d
      by (intro failed) (auto simp: processMessage_def DecodeAndVerifySNS_def split: if_splits option.splits prod.splits sum.splits)
  next
    case (Inr inner)
    then show ?thesis using assms Some d by (intro verified [of body cache inner]) (auto simp: processMessage_def split: prod.splits)
  qed
qed

lemma raw_content_errors: "raw_content env n = Inl e \<Longrightarrow> e \<noteq> ErrDiscardInboundMessage"
  by (auto simp: raw_content_def Let_def split: if_splits option.splits)

lemma team_of_all_errors: "team_of_all env k t rs s = Inl e \<Longrightarrow> e \<noteq> ErrDiscardInboundMessage"
  by (induction rs arbitrary: k t) (auto split: if_splits sum.splits db_error.splits)

lemma process_errors:
  "snd (ProcessEmailWithMessageIDAndAttachments env team mid m to key s) \<noteq> Inl ErrDiscardInboundMessage"
  by (auto simp: ProcessEmailWithMessageIDAndAttachments_def persist_inbound_def split: sum.splits bool.splits option.splits prod.splits)

lemma route_errors: "snd (route_and_store env n s) \<noteq> Inl ErrDiscardInboundMessage"
  using raw_content_errors [of env n] team_of_all_errors [of env 0 0 _ s] process_errors
  by (auto simp: route_and_store_def TeamForRecipients_def split: sum.splits option.splits)

text \<open>C25: A message is taken from the queue only by its own receipt, and only when its signature or age makes it
  invalid, or when a row with its id is stored for the team that owns every recipient domain, whatever calls failed. The
  recipients are those of the receipt or, where it lists none, those of the message that was read from the receipt or
  the bucket and parsed; there is at least one. Identifiers of new rows are new and no domain belongs to the nil team.\<close>

theorem inbound_deleted_only_stored:
  assumes "handle_message env msg w = w'" "iwQueue w' \<noteq> iwQueue w" "fresh_inbound env (iwReg w)" "\<forall>d \<in> set (rgDomains (iwReg w)). doTeamID d \<noteq> 0"
  shows "\<exists>rc body. smReceipt msg = Some rc \<and> smBody msg = Some body \<and> iwQueue w' = filter (\<lambda>x. smReceipt x \<noteq> Some rc) (iwQueue w) \<and>
    (iwReg w' = iwReg w \<and> (\<exists>e. snd (DecodeAndVerifySNS env body (iwCache w)) = Inl (ErrSNS e) \<and> e \<in> {ErrStaleNotification, ErrInvalidNotification}) \<or>
     (\<exists>n content m team. snd (DecodeAndVerifySNS env body (iwCache w)) = Inr n \<and> raw_content env n = Inr content \<and>
        ParseRawMessage (ivMime env) content = Some m \<and> routing_recipients n m \<noteq> [] \<and>
        (\<forall>r \<in> set (routing_recipients n m). owns_recipient env team r (iwReg w)) \<and> message_stored team (nfMessageID n) (iwReg w')))"
proof -
  obtain w1 r where p: "processMessage env msg w = (w1, r)" by force
  have queue1: "iwQueue w1 = iwQueue w" using p by (rule processMessage_cases) auto
  have del: "w' = deleteMessage env msg w1" "r = Inr () \<or> r = Inl ErrDiscardInboundMessage"
    using assms(1,2) p queue1 by (auto simp: handle_message_def split: sum.splits if_splits)
  obtain rc where rc: "smReceipt msg = Some rc" using del(1) assms(2) queue1 by (cases "smReceipt msg") (auto simp: deleteMessage_def)
  have w': "iwQueue w' = filter (\<lambda>x. smReceipt x \<noteq> Some rc) (iwQueue w)" "iwReg w' = iwReg w1"
    using del(1) assms(2) queue1 rc by (cases "ivFault env IbDelete"; simp add: deleteMessage_def sql_delete_def)+
  from p show ?thesis
  proof (cases rule: processMessage_cases)
    case failed
    then show ?thesis using del(2) rc w' by auto
  next
    case (verified body cache inner)
    have "r = Inr ()" using del(2) verified(3) route_errors [of env inner "iwReg w"] by auto
    with route_effect [OF verified(3) assms(3)] obtain content m team where
      p: "raw_content env inner = Inr content" "ParseRawMessage (ivMime env) content = Some m" and
      t: "TeamForRecipients env (routing_recipients inner m) (iwReg w) = Inr team" and
      st: "iwReg w1 = iwReg w \<and> (\<exists>mid. optional_id (nfMessageID inner) = Some mid \<and> message_stored team mid (iwReg w)) \<or>
        message_added env team (optional_id (nfMessageID inner)) (routing_recipients inner m) (iwReg w) (iwReg w1)" by blast
    have "optional_id (nfMessageID inner) = Some (nfMessageID inner)"
      using verified(2) by (rule decoded_has_id) (simp add: optional_id_def)
    then have "message_stored team (nfMessageID inner) (iwReg w')" using st w'(2) message_added_stored by auto
    moreover have "routing_recipients inner m \<noteq> []" using t by (auto simp: TeamForRecipients_def)
    ultimately show ?thesis using team_for_owns [OF t assms(4)] rc w'(1) verified(1,2) p by auto
  qed
qed

text \<open>Processing a queue message changes the database only when its signature verified and its topic is the configured
  one, and then adds exactly one message, addressed to and stored for the team that owns every recipient domain and has proved
  that mail for it is routed here, with its webhook event in the same commit.\<close>

theorem inbound_mail_authentic:
  assumes "processMessage env msg w = (w', r)" "iwReg w' \<noteq> iwReg w" "fresh_inbound env (iwReg w)" "\<forall>d \<in> set (rgDomains (iwReg w)). doTeamID d \<noteq> 0"
  shows "\<exists>body n inner m team. smBody msg = Some body \<and> ivDecodeSNS env body = Some n \<and>
    snd (VerifyNotificationForQueue (ivSns env) (n\<lparr>snUnsubscribeURL := []\<rparr>) (ivNow env) (iwCache w)) = Inr () \<and>
    (ivTopic env \<noteq> [] \<longrightarrow> snTopicArn n = ivTopic env) \<and> DecodeNotification env (snMessage n) = Some inner \<and>
    (\<forall>r \<in> set (routing_recipients inner m). owns_recipient env team r (iwReg w)) \<and>
    message_added env team (Some (nfMessageID (or_envelope_id n inner))) (routing_recipients inner m) (iwReg w) (iwReg w')"
  using assms(1)
proof (cases rule: processMessage_cases)
  case failed
  then show ?thesis using assms(2) by simp
next
  case (verified body cache inner1)
  from route_effect [OF verified(3) assms(3)] assms(2) obtain m team where
    t: "TeamForRecipients env (routing_recipients inner1 m) (iwReg w) = Inr team"
      "message_added env team (optional_id (nfMessageID inner1)) (routing_recipients inner1 m) (iwReg w) (iwReg w')" by auto
  from verified(2) show ?thesis
  proof (rule decoded_has_id)
    fix n inner
    assume n: "ivDecodeSNS env body = Some n" "snd (VerifyNotificationForQueue (ivSns env) (n\<lparr>snUnsubscribeURL := []\<rparr>) (ivNow env) (iwCache w)) = Inr ()"
      "ivTopic env \<noteq> [] \<longrightarrow> snTopicArn n = ivTopic env" "DecodeNotification env (snMessage n) = Some inner" "inner1 = or_envelope_id n inner"
      "nfMessageID inner1 \<noteq> []"
    have "routing_recipients inner1 m = routing_recipients inner m" using n(5) by (auto simp: routing_recipients_def or_envelope_id_def)
    moreover have "optional_id (nfMessageID inner1) = Some (nfMessageID (or_envelope_id n inner))" using n(5,6) by (simp add: optional_id_def)
    ultimately show ?thesis using n verified(1) t(2) team_for_owns [OF t(1) assms(4)] by (intro exI [of _ body] exI [of _ n] exI [of _ inner] exI [of _ m] exI [of _ team]) simp
  qed
qed

section \<open>Redelivery\<close>

lemma known_conflict: "row_known (inTeamID m) (inMessageID m) s \<Longrightarrow> inbound_conflict m (inbound_emails (inbound_db s))"
  by (auto simp: row_known_def inbound_conflict_def)

lemma run_call_same: "fst (op s) = s \<Longrightarrow> fst (run_call x op s) = s"
  using run_call_state [of x op s] by auto

lemma run_call_refused: "run_call x op s = (s', Inr a) \<Longrightarrow> \<exists>s1. op s = (s1, Inr a)"
  by (cases x) auto

lemma persist_known:
  assumes "row_known (inTeamID m) (inMessageID m) s"
  shows "fst (persist_inbound env m s) = s"
proof -
  note c = known_conflict [OF assms]
  have checked: "\<exists>e. checked m op s = (s, Inl e)" if "\<exists>d e. op (inbound_db s) = (d, Inl e)" for op
    using that by (auto simp: checked_def)
  have pipeline: "\<exists>e. checked m (CreateInboundWithOutbox (ivNow env) m ob) s = (s, Inl e)" for ob
    using c by (intro checked) (auto simp: CreateInboundWithOutbox_def inbound_conflict_def)
  have legacy: "\<exists>e. InboundEmailRepo_Create (ivNow env) m s = (s, Inl e)"
    unfolding InboundEmailRepo_Create_def using c by (intro checked) simp
  have gen: "\<exists>e. inbound_call env IbStore op s = (s, Inl e)" if "\<exists>e. op s = (s, Inl e)" for op :: "registry \<Rightarrow> registry \<times> unit result"
    using that by (cases "ivFault env IbStore") (auto simp: inbound_call_def)
  have p: "fst (inbound_call env IbStore (checked m (CreateInboundWithOutbox (ivNow env) m ob)) s) = s" for ob
    using gen [of "checked m (CreateInboundWithOutbox (ivNow env) m ob)", OF pipeline] by auto
  show ?thesis
  proof (cases "ivPipeline env")
    case True
    then show ?thesis
      using p by (cases "ivPayloadJSON env m") (auto simp: persist_inbound_def split: prod.splits sum.splits)
  next
    case False
    then show ?thesis using gen [of "InboundEmailRepo_Create (ivNow env) m", OF legacy] by (auto simp: persist_inbound_def)
  qed
qed

lemma known_found:
  assumes "TrimSpace mid \<noteq> []" "row_known team (Some (TrimSpace mid)) s"
  shows "known_message env team (Some mid) s \<noteq> Inr False"
proof -
  have "\<exists>x. GetByMessageID team (TrimSpace mid) s = Inr x"
    using assms(2) by (auto simp: row_known_def GetByMessageID_def find_None_iff split: option.splits)
  then show ?thesis using assms(1) by (cases "ivFault env IbLookup") (auto simp: known_message_def inbound_call_def)
qed

lemma process_known:
  assumes "message_stored team mid s"
  shows "fst (ProcessEmailWithMessageIDAndAttachments env team (Some mid) m to key s) = s"
proof (cases "known_message env team (Some mid) s = Inr False")
  case True
  then have "row_known team (Some mid) s" using assms known_found by (auto simp: message_stored_def)
  then show ?thesis using persist_known True by (auto simp: ProcessEmailWithMessageIDAndAttachments_def split: option.splits)
next
  case False
  then show ?thesis by (auto simp: ProcessEmailWithMessageIDAndAttachments_def split: sum.splits bool.splits)
qed

definition later_run :: "inbound_env \<Rightarrow> (inbound_site \<Rightarrow> fault) \<Rightarrow> instant \<Rightarrow> uuid \<Rightarrow> uuid \<Rightarrow> uuid \<Rightarrow> inbound_env" where
  "later_run env faults now i e x = env\<lparr>ivFault := faults, ivNow := now, ivFreshID := i, ivFreshEvent := e, ivFreshOutbox := x\<rparr>"

lemma later_decode:
  assumes "DecodeAndVerifySNS env body c = (c1, Inr n)" "DecodeAndVerifySNS (later_run env f t i e x) body c' = (c2, Inr n')"
  shows "n' = n"
  using assms
  by (auto simp: DecodeAndVerifySNS_def DecodeNotification_def later_run_def split: option.splits if_splits prod.splits sum.splits)

lemma later_route:
  assumes "message_stored team mid s" "optional_id (nfMessageID n) = Some mid" "raw_content env n = Inr content"
    "ParseRawMessage (ivMime env) content = Some m" "TeamForRecipients env (routing_recipients n m) s0 = Inr team" "rgDomains s = rgDomains s0"
  shows "fst (route_and_store (later_run env f t i e x) n s) = s"
proof -
  let ?env = "later_run env f t i e x"
  have "readRawEmail ?env = readRawEmail env" "ivBucket ?env = ivBucket env" by (simp_all add: fun_eq_iff readRawEmail_def later_run_def)
  then have "raw_content ?env n = raw_content env n" unfolding raw_content_def by presburger
  then have same: "raw_content ?env n = Inr content" "ParseRawMessage (ivMime ?env) content = Some m"
    using assms(3,4) by (simp_all add: later_run_def)
  have rd: "routing_domain ?env = routing_domain env" by (auto simp: fun_eq_iff routing_domain_def later_run_def)
  show ?thesis
  proof (cases "TeamForRecipients ?env (routing_recipients n m) s")
    case (Inl er)
    then show ?thesis using same by (simp add: route_and_store_def)
  next
    case (Inr team')
    then have "team' = team"
      using team_of_all_determined [OF _ _ rd assms(6)] assms(5) by (auto simp: TeamForRecipients_def split: if_splits)
    then show ?thesis using same Inr assms(2) process_known [OF assms(1)] by (simp add: route_and_store_def)
  qed
qed

text \<open>C26: A message that was processed may come again, at any later time and whatever calls fail then: the database does not
  change, so it is stored once and announced once.\<close>

theorem inbound_redelivery_harmless:
  assumes "processMessage env msg w = (w1, Inr ())" "fresh_inbound env (iwReg w)"
  shows "iwReg (fst (processMessage (later_run env faults now i e x) msg (w1\<lparr>iwCache := cache'\<rparr>))) = iwReg w1"
  using assms(1)
proof (cases rule: processMessage_cases)
  case failed
  then show ?thesis by simp
next
  case (verified body cache n)
  from route_effect [OF verified(3) assms(2)] obtain content m team where
    r: "raw_content env n = Inr content" "ParseRawMessage (ivMime env) content = Some m" "TeamForRecipients env (routing_recipients n m) (iwReg w) = Inr team" and
    st: "iwReg w1 = iwReg w \<and> (\<exists>mid. optional_id (nfMessageID n) = Some mid \<and> message_stored team mid (iwReg w)) \<or>
      message_added env team (optional_id (nfMessageID n)) (routing_recipients n m) (iwReg w) (iwReg w1)" by blast
  have id: "optional_id (nfMessageID n) = Some (nfMessageID n)" using verified(2) by (rule decoded_has_id) (simp add: optional_id_def)
  have stored: "message_stored team (nfMessageID n) (iwReg w1)" using st id message_added_stored by auto
  have domains: "rgDomains (iwReg w1) = rgDomains (iwReg w)" using st by (auto simp: message_added_def row_added_def)
  obtain w2 r2 where p2: "processMessage (later_run env faults now i e x) msg (w1\<lparr>iwCache := cache'\<rparr>) = (w2, r2)" by force
  from p2 show ?thesis
  proof (cases rule: processMessage_cases)
    case failed
    then show ?thesis using p2 by simp
  next
    case again: (verified body2 cache2 n2)
    have "body2 = body" using verified(1) again(1) by simp
    then have "n2 = n" using later_decode [OF verified(2)] again(2) by blast
    then have "route_and_store (later_run env faults now i e x) n (iwReg w1) = (iwReg w2, r2)" using again(3) by simp
    then have "iwReg w2 = iwReg w1" using later_route [OF stored id r domains, of faults now i e x] by simp
    then show ?thesis using p2 by simp
  qed
qed

section \<open>Examples\<close>

definition demo_mime :: mime_env where
  "demo_mime = \<lparr>mvReadMessage = (\<lambda>_. Some (\<lparr>mpHeader = (\<lambda>_. []), mpBody = ''hi'', mpBodyOK = True\<rparr>, [(''To'', [''u'', ''v''])])),
     mvParseAddress = (\<lambda>_. Some ''a@b.org''), mvParseAddressList = (\<lambda>_. Some [''u@x.org'']), mvDecodeHeader = Some,
     mvParseMediaType = (\<lambda>_. ([], \<lambda>_. [], False)), mvMultipart = (\<lambda>_ _. ([], True)), mvBase64 = (\<lambda>x. (x, True)), mvQuotedPrintable = (\<lambda>x. (x, True))\<rparr>"

definition demo_parsed :: ParsedMessage where
  "demo_parsed = \<lparr>pmFrom = ''a@b.org'', pmTo = [''u@x.org''], pmSubject = [], pmText = ''hi'', pmHTML = [],
     pmHeaders = [(''To'', ''u, v'')], pmAttachments = []\<rparr>"

definition demo_inbound :: inbound_env where
  "demo_inbound = \<lparr>ivSns = demo_sns, ivMime = demo_mime, ivNow = 0, ivFault = (\<lambda>_. NoFault), ivTopic = ''a'', ivBucket = ''b'', ivToken = ''t'',
     ivDecodeSNS = (\<lambda>_. Some demo_signed),
     ivDecodeSES = (\<lambda>_. Some \<lparr>nfType = [], nfContent = ''raw'', nfMessageID = [], nfRecipients = [], nfBucketName = [], nfObjectKey = [],
        nfNotificationType = ''Received'', nfMailMessageID = []\<rparr>),
     ivGetObject = (\<lambda>_ _. None), ivParseEmail = Some, ivHeadersJSON = (\<lambda>_. ''{}''), ivAttachmentsJSON = (\<lambda>_. Some ''[]''), ivPayloadJSON = (\<lambda>_. Some ''{}''),
     ivFreshID = 70, ivFreshEvent = 71, ivFreshOutbox = 72, ivFreshDelivery = (\<lambda>i. 100 + i), ivPipeline = True, ivDeliveryConfigured = True\<rparr>"

definition demo_routes :: registry where
  "demo_routes = demo_registry\<lparr>rgDomains := [(new_domain demo_domain_env 9 ''x.org'' ''tok'')\<lparr>doStatus := DomainStatusVerified, doMXStatus := ''verified''\<rparr>]\<rparr>"

definition demo_mailroom :: inbound_world where
  "demo_mailroom = \<lparr>iwReg = demo_routes, iwCache = (\<lambda>_. None), iwQueue = [\<lparr>smBody = Some ''b'', smReceipt = Some ''r''\<rparr>, \<lparr>smBody = Some ''b'', smReceipt = Some ''q''\<rparr>]\<rparr>"

lemma demo_message_parses: "ParseRawMessage demo_mime ''raw'' = Some demo_parsed"
  by (simp add: ParseRawMessage_def demo_mime_def demo_parsed_def maxInboundMIMEMessageSize_def maxInboundHeaderSize_def decodeHeaders_def decodeHeader_def
      media_type_def parse_leaf_def mimeFilename_def readMIMEBody_def maxInboundTextSize_def maxInboundMIMEParts_def maxInboundMIMEDepth_def
      TrimSpace_def ToLower_def)

theorem parsed_message_bounded_witness: "length (pmText demo_parsed) \<le> maxInboundTextSize"
  using parsed_message_bounded [OF demo_message_parses] by simp

definition demo_msg :: sqs_message where
  "demo_msg = \<lparr>smBody = Some ''b'', smReceipt = Some ''r''\<rparr>"

definition demo_note :: SESNotification where
  "demo_note = \<lparr>nfType = ''Received'', nfContent = ''raw'', nfMessageID = ''1'', nfRecipients = [], nfBucketName = [], nfObjectKey = []\<rparr>"

definition demo_received :: "registry \<times> (inbound_error + unit)" where
  "demo_received = ProcessEmailWithMessageIDAndAttachments demo_inbound 9 (Some ''1'') demo_parsed [''u@x.org''] [] demo_routes"

lemma demo_inbound_run:
  "snd (DecodeAndVerifySNS demo_inbound ''b'' (\<lambda>_. None)) = Inr demo_note \<and> TeamForRecipients demo_inbound [''u@x.org''] demo_routes = Inr 9 \<and>
   (case demo_received of (s, r) \<Rightarrow> r = Inr () \<and> map inTeamID (inbound_emails (inbound_db s)) = [9]) \<and>
   map inTeamID (inbound_emails (inbound_db demo_routes)) = [] \<and> fresh_inbound demo_inbound demo_routes"
  by code_simp

lemma demo_steps:
  "snd (DecodeAndVerifySNS demo_inbound ''b'' (\<lambda>_. None)) = Inr demo_note"
  "TeamForRecipients demo_inbound [''u@x.org''] demo_routes = Inr 9"
  "snd demo_received = Inr ()"
  "map inTeamID (inbound_emails (inbound_db (fst demo_received))) = [9]"
  "map inTeamID (inbound_emails (inbound_db demo_routes)) = []"
  using demo_inbound_run unfolding case_prod_beta by blast+

lemma demo_fresh: "fresh_inbound demo_inbound (iwReg demo_mailroom)" "\<forall>d \<in> set (rgDomains (iwReg demo_mailroom)). doTeamID d \<noteq> 0"
proof -
  have "fresh_inbound demo_inbound demo_routes" using demo_inbound_run by simp
  then show "fresh_inbound demo_inbound (iwReg demo_mailroom)" by (simp add: demo_mailroom_def)
  show "\<forall>d \<in> set (rgDomains (iwReg demo_mailroom)). doTeamID d \<noteq> 0" by (simp add: demo_mailroom_def demo_routes_def new_domain_def)
qed

lemma demo_route: "route_and_store demo_inbound demo_note demo_routes = demo_received"
  using demo_steps(2) demo_message_parses
  by (simp add: route_and_store_def raw_content_def demo_note_def routing_recipients_def demo_parsed_def optional_id_def demo_received_def demo_inbound_def)

lemma demo_processed:
  obtains w1 where "processMessage demo_inbound demo_msg demo_mailroom = (w1, Inr ())" "iwReg w1 = fst demo_received" "iwQueue w1 = iwQueue demo_mailroom"
proof -
  obtain cache where d: "DecodeAndVerifySNS demo_inbound ''b'' (\<lambda>_. None) = (cache, Inr demo_note)" by (metis demo_steps(1) prod.collapse)
  obtain s where s: "demo_received = (s, Inr ())" by (metis demo_steps(3) prod.collapse)
  have "processMessage demo_inbound demo_msg demo_mailroom = (demo_mailroom\<lparr>iwCache := cache, iwReg := s\<rparr>, Inr ())"
    using d demo_route [unfolded s] by (simp add: processMessage_def demo_msg_def demo_mailroom_def)
  then show ?thesis by (rule that) (simp_all add: s)
qed

theorem inbound_deleted_only_stored_witness:
  "\<exists>team. owns_recipient demo_inbound team ''u@x.org'' (iwReg demo_mailroom) \<and>
     message_stored team (nfMessageID demo_note) (iwReg (handle_message demo_inbound demo_msg demo_mailroom))"
proof -
  obtain w1 where w1: "processMessage demo_inbound demo_msg demo_mailroom = (w1, Inr ())" "iwQueue w1 = iwQueue demo_mailroom" by (rule demo_processed)
  then have "iwQueue (handle_message demo_inbound demo_msg demo_mailroom) \<noteq> iwQueue demo_mailroom"
    by (simp add: handle_message_def deleteMessage_def demo_msg_def demo_inbound_def demo_mailroom_def sql_delete_def)
  from inbound_deleted_only_stored [OF refl this demo_fresh] obtain content m team where
    "raw_content demo_inbound demo_note = Inr content" "ParseRawMessage (ivMime demo_inbound) content = Some m"
    "\<forall>r \<in> set (routing_recipients demo_note m). owns_recipient demo_inbound team r (iwReg demo_mailroom)"
    "message_stored team (nfMessageID demo_note) (iwReg (handle_message demo_inbound demo_msg demo_mailroom))"
    using demo_steps(1) by (auto simp: demo_msg_def demo_mailroom_def)
  moreover from this(1,2) have "routing_recipients demo_note m = [''u@x.org'']"
    using demo_message_parses by (simp add: raw_content_def demo_note_def routing_recipients_def demo_parsed_def demo_inbound_def)
  ultimately show ?thesis by auto
qed

theorem inbound_mail_authentic_witness:
  "\<exists>n. snd (VerifyNotificationForQueue demo_sns n 0 (\<lambda>_. None)) = Inr () \<and> snTopicArn n = ''a''"
proof -
  obtain w1 where w1: "processMessage demo_inbound demo_msg demo_mailroom = (w1, Inr ())" "iwReg w1 = fst demo_received" by (rule demo_processed)
  have "fst demo_received \<noteq> demo_routes" using demo_steps(4,5) by auto
  then have "iwReg w1 \<noteq> iwReg demo_mailroom" using w1(2) by (simp add: demo_mailroom_def)
  from inbound_mail_authentic [OF w1(1) this demo_fresh] obtain n where
    "snd (VerifyNotificationForQueue (ivSns demo_inbound) (n\<lparr>snUnsubscribeURL := []\<rparr>) (ivNow demo_inbound) (iwCache demo_mailroom)) = Inr ()"
    "ivTopic demo_inbound \<noteq> [] \<longrightarrow> snTopicArn n = ivTopic demo_inbound" by blast
  then show ?thesis by (intro exI [of _ "n\<lparr>snUnsubscribeURL := []\<rparr>"]) (simp add: demo_inbound_def demo_mailroom_def)
qed

theorem inbound_redelivery_harmless_witness:
  "\<exists>w1. map inTeamID (inbound_emails (inbound_db (iwReg w1))) = [9] \<and>
     iwReg (fst (processMessage (later_run demo_inbound (\<lambda>_. NoFault) 5 80 81 82) demo_msg (w1\<lparr>iwCache := (\<lambda>_. None)\<rparr>))) = iwReg w1"
proof -
  obtain w1 where w1: "processMessage demo_inbound demo_msg demo_mailroom = (w1, Inr ())" "iwReg w1 = fst demo_received" by (rule demo_processed)
  from inbound_redelivery_harmless [OF w1(1) demo_fresh(1)] show ?thesis using w1(2) demo_steps(4) by (intro exI [of _ w1]) simp
qed

end
