(* ===== verification/Endpoints.thy ===== *)
theory Endpoints
  imports Inbound
begin

text \<open>
  What the remaining endpoints share: the checks every handler of \<open>internal/handler\<close> starts with, on a state of any
  type, and the rules by which a property of all states an endpoint can leave behind is reduced to its work after the checks. Two locales say what
  sequences of requests keep once every request keeps it: an invariant, and the rows of a team nobody acts for.
\<close>

section \<open>The checks at the start of a handler\<close>

definition for_team :: "access_env \<Rightarrow> reply option \<Rightarrow> Claims option \<Rightarrow> (uuid \<Rightarrow> 's \<Rightarrow> 's \<times> (reply + 'a)) \<Rightarrow> 's \<Rightarrow> 's \<times> (reply + 'a)" where
  "for_team env guard c k s =
     (case guard of
        Some r \<Rightarrow> (s, Inl r)
      | None \<Rightarrow> (case getTeamID env c of Inl r \<Rightarrow> (s, Inl r) | Inr team \<Rightarrow> k team s))"

definition with_id :: "access_env \<Rightarrow> string \<Rightarrow> string \<Rightarrow> (uuid \<Rightarrow> 's \<Rightarrow> 's \<times> (reply + 'a)) \<Rightarrow> 's \<Rightarrow> 's \<times> (reply + 'a)" where
  "with_id env bad text k s = (case aeParseUUID env text of None \<Rightarrow> (s, Inl (writeError bad 400)) | Some i \<Rightarrow> k i s)"

text \<open>Who passes: an owner or admin of the team, or a key or member that may do the action.\<close>

definition manager :: "access_env \<Rightarrow> Claims option \<Rightarrow> uuid \<Rightarrow> bool" where
  "manager env c team \<longleftrightarrow> requireRoles c [''owner'', ''admin''] = None \<and> getTeamID env c = Inr team"

definition permitted :: "access_env \<Rightarrow> string \<Rightarrow> Claims option \<Rightarrow> uuid \<Rightarrow> bool" where
  "permitted env action c team \<longleftrightarrow> requirePermission c action = None \<and> getTeamID env c = Inr team"

lemma for_team_cases:
  "for_team env guard c k s = (s', r) \<Longrightarrow>
   s' = s \<and> (\<exists>e. r = Inl e) \<or> (\<exists>team. guard = None \<and> getTeamID env c = Inr team \<and> k team s = (s', r))"
  by (auto simp: for_team_def split: option.splits sum.splits)

lemma with_id_cases:
  "with_id env bad text k s = (s', r) \<Longrightarrow> s' = s \<and> (\<exists>e. r = Inl e) \<or> (\<exists>i. aeParseUUID env text = Some i \<and> k i s = (s', r))"
  by (auto simp: with_id_def split: option.splits)

lemma for_team_keeps:
  assumes "P s s" "\<And>team. guard = None \<Longrightarrow> getTeamID env c = Inr team \<Longrightarrow> P s (fst (k team s))"
  shows "P s (fst (for_team env guard c k s))"
  using assms by (auto simp: for_team_def split: option.splits sum.splits)

lemma with_id_keeps: "P s s \<Longrightarrow> (\<And>i. P s (fst (k i s))) \<Longrightarrow> P s (fst (with_id env bad text k s))"
  by (auto simp: with_id_def split: option.splits)

section \<open>Sequences of requests\<close>

text \<open>Requests that keep an invariant, as long as they fit it (for instance, are checked against the same settings).\<close>

locale kept_requests =
  fixes exec :: "'r \<Rightarrow> 's \<Rightarrow> 's" and fits :: "'r \<Rightarrow> bool" and ok :: "'s \<Rightarrow> bool"
  assumes keeps: "ok s \<Longrightarrow> fits r \<Longrightarrow> ok (exec r s)"
begin

lemma run_keeps: "ok s \<Longrightarrow> list_all fits rs \<Longrightarrow> ok (fold exec rs s)"
  by (induction rs arbitrary: s) (simp_all add: keeps)

end

text \<open>Requests that reach what a team sees only when they act for it.\<close>

locale team_requests = kept_requests exec fits ok
  for exec :: "'r \<Rightarrow> 's \<Rightarrow> 's" and fits :: "'r \<Rightarrow> bool" and ok :: "'s \<Rightarrow> bool" +
  fixes acts :: "'r \<Rightarrow> uuid \<Rightarrow> bool" and view :: "uuid \<Rightarrow> 's \<Rightarrow> 'v"
  assumes apart: "ok s \<Longrightarrow> fits r \<Longrightarrow> \<not> acts r team \<Longrightarrow> view team (exec r s) = view team s"
begin

lemma run_apart: "ok s \<Longrightarrow> list_all fits rs \<Longrightarrow> list_all (\<lambda>r. \<not> acts r team) rs \<Longrightarrow> view team (fold exec rs s) = view team s"
  by (induction rs arbitrary: s) (simp_all add: keeps apart)

end

end
