(* ===== verification/WebhookAdmin.thy ===== *)
theory WebhookAdmin
  imports Endpoints
begin

text \<open>
  Managing webhook endpoints: \<open>internal/handler/webhook_handler.go\<close> with the statements of
  \<open>internal/repository/webhook_repo.go\<close> it uses. The state is the one of theory Access. The theorems show that the table only ever
  holds endpoints with a valid address and valid events, and that a request touches the endpoints and deliveries of its team only.
\<close>

section \<open>Requests\<close>

record CreateWebhookRequest =
  cwURL :: string
  cwEvents :: "string list"

record UpdateWebhookRequest =
  uwURL :: "string option"
  uwEvents :: "string list option"
  uwActive :: "bool option"

record hook_admin_env =
  haAccess :: access_env
  haParseURL :: "string \<Rightarrow> parsed_url option"
  haParseIP :: "string \<Rightarrow> ip option"
  haRequireHTTPS :: bool
  haDeliveries :: bool
  haTestPayload :: "uuid \<Rightarrow> uuid \<Rightarrow> uuid \<Rightarrow> instant \<Rightarrow> string option"

definition on_db :: "(db \<Rightarrow> db \<times> 'a) \<Rightarrow> access \<Rightarrow> access \<times> 'a" where
  "on_db f s = (case f (adb (acct s)) of (d, r) \<Rightarrow> (s\<lparr>acct := (acct s)\<lparr>adb := d\<rparr>\<rparr>, r))"

abbreviation hook_db :: "access \<Rightarrow> db" where
  "hook_db s \<equiv> adb (acct s)"

section \<open>Statements\<close>

text \<open>The team must exist; a secret wider than its column is refused.\<close>

definition WebhookRepo_Create :: "instant \<Rightarrow> Webhook \<Rightarrow> access \<Rightarrow> access \<times> unit result" where
  "WebhookRepo_Create now w s =
     (if char_length (whSecret w) > 255 then (s, Inl ValueTooLong)
      else if by_key whID (whID w) (webhooks (hook_db s)) \<noteq> None then (s, Inl UniqueViolation)
      else if by_key tmID (whTeamID w) (teams (acct s)) = None then (s, Inl ForeignKeyViolation)
      else on_db (Webhook_Create (w\<lparr>whCreatedAt := now\<rparr>)) s)"

definition WebhookRepo_List :: "uuid \<Rightarrow> db \<Rightarrow> Webhook list" where
  "WebhookRepo_List team d = sort_key (\<lambda>w. - whCreatedAt w) (filter (\<lambda>w. whTeamID w = team) (webhooks d))"

definition WebhookRepo_Update :: "Webhook \<Rightarrow> db \<Rightarrow> db \<times> unit result" where
  "WebhookRepo_Update w d =
     (d\<lparr>webhooks := sql_update (\<lambda>x. whID x = whID w) (\<lambda>x. x\<lparr>whURL := whURL w, whEvents := whEvents w, whActive := whActive w\<rparr>) (webhooks d)\<rparr>, Inr ())"

definition WebhookRepo_Delete :: "uuid \<Rightarrow> db \<Rightarrow> db \<times> unit result" where
  "WebhookRepo_Delete i d = (delete_hooks (\<lambda>w. whID w = i) d, Inr ())"

section \<open>Handlers\<close>

definition validWebhookURL :: "hook_admin_env \<Rightarrow> string \<Rightarrow> bool" where
  "validWebhookURL env raw \<longleftrightarrow> IsValidURL (haParseURL env) (haParseIP env) raw \<and>
     (\<not> haRequireHTTPS env \<or> (case haParseURL env raw of None \<Rightarrow> False | Some u \<Rightarrow> ToLower (urlScheme u) = ''https''))"

definition event_ok :: "string \<Rightarrow> bool" where
  "event_ok e \<longleftrightarrow> e \<noteq> [] \<and> length e \<le> 100 \<and> \<not> ContainsAny e [char_of (13::nat), char_of (10::nat)]"

definition events_refused :: "string list \<Rightarrow> bool" where
  "events_refused es \<longleftrightarrow> es = [] \<or> length es > 50"

abbreviation managers :: "string list" where
  "managers \<equiv> [''owner'', ''admin'']"

definition find_hook :: "hook_admin_env \<Rightarrow> uuid \<Rightarrow> uuid \<Rightarrow> access \<Rightarrow> Webhook option" where
  "find_hook env team i s =
     (case snd (run_call (aeFault (haAccess env) AcFirst) (\<lambda>s. (s, Webhook_GetByIDForTeam team i (hook_db s))) s) of
        Inl _ \<Rightarrow> None | Inr w \<Rightarrow> Some w)"

definition hook_write :: "hook_admin_env \<Rightarrow> (access \<Rightarrow> access \<times> unit result) \<Rightarrow> int \<Rightarrow> 'a \<Rightarrow> access \<Rightarrow> access \<times> (reply + 'a)" where
  "hook_write env op code answer s =
     (case run_call (aeFault (haAccess env) AcSecond) op s of
        (s', Inl e) \<Rightarrow> (s', Inl (writeError (aeDBText (haAccess env) e) code))
      | (s', Inr _) \<Rightarrow> (s', Inr answer))"

definition WebhookHandler_Create :: "hook_admin_env \<Rightarrow> Claims option \<Rightarrow> CreateWebhookRequest option \<Rightarrow> access \<Rightarrow> access \<times> (reply + Webhook)" where
  "WebhookHandler_Create env c body s =
     (case requireRoles c managers of
        Some r \<Rightarrow> (s, Inl r)
      | None \<Rightarrow>
          (case body of
             None \<Rightarrow> (s, Inl (writeError ''invalid request body'' 400))
           | Some req \<Rightarrow>
               let url = TrimSpace (cwURL req) in
               if \<not> validWebhookURL env url \<or> events_refused (cwEvents req)
               then (s, Inl (writeError ''valid url and at least one event are required'' 400))
               else if \<not> list_all event_ok (cwEvents req) then (s, Inl (writeError ''invalid webhook event'' 400))
               else for_team (haAccess env) None c (\<lambda>team s.
                 case GenerateAPIKey (haAccess env) of
                   None \<Rightarrow> (s, Inl (writeError ''failed to generate webhook secret'' 500))
                 | Some (secret, _, _) \<Rightarrow>
                     (let w = \<lparr>whID = aeFreshID (haAccess env), whTeamID = team, whURL = url, whEvents = cwEvents req, whSecret = secret,
                                whActive = True, whCreatedAt = 0\<rparr>
                      in hook_write env (WebhookRepo_Create (aeNow (haAccess env)) w) 500 w s)) s))"

definition WebhookHandler_List :: "hook_admin_env \<Rightarrow> Claims option \<Rightarrow> access \<Rightarrow> access \<times> (reply + Webhook list)" where
  "WebhookHandler_List env c =
     for_team (haAccess env) (requirePermission c ''read'') c (\<lambda>team s.
       case snd (run_call (aeFault (haAccess env) AcFirst) (\<lambda>s. (s, Inr (WebhookRepo_List team (hook_db s)))) s) of
         Inl e \<Rightarrow> (s, Inl (writeError (aeDBText (haAccess env) e) 500))
       | Inr ws \<Rightarrow> (s, Inr ws))"

definition WebhookHandler_GetByID :: "hook_admin_env \<Rightarrow> Claims option \<Rightarrow> string \<Rightarrow> access \<Rightarrow> access \<times> (reply + Webhook)" where
  "WebhookHandler_GetByID env c idText =
     for_team (haAccess env) (requirePermission c ''read'') c (\<lambda>team. with_id (haAccess env) ''invalid id'' idText (\<lambda>i s.
       case find_hook env team i s of None \<Rightarrow> (s, Inl (writeError ''webhook not found'' 404)) | Some w \<Rightarrow> (s, Inr w)))"

definition check_update :: "hook_admin_env \<Rightarrow> UpdateWebhookRequest \<Rightarrow> reply option" where
  "check_update env req =
     (if (case uwURL req of None \<Rightarrow> False | Some u \<Rightarrow> \<not> validWebhookURL env (TrimSpace u)) then Some (writeError ''invalid webhook url'' 400)
      else case uwEvents req of
             None \<Rightarrow> None
           | Some es \<Rightarrow> if events_refused es then Some (writeError ''at least one webhook event is required'' 400)
                        else if \<not> list_all event_ok es then Some (writeError ''invalid webhook event'' 400) else None)"

definition updated_hook :: "UpdateWebhookRequest \<Rightarrow> Webhook \<Rightarrow> Webhook" where
  "updated_hook req w =
     w\<lparr>whURL := (case uwURL req of None \<Rightarrow> whURL w | Some u \<Rightarrow> TrimSpace u),
       whEvents := (case uwEvents req of None \<Rightarrow> whEvents w | Some es \<Rightarrow> es),
       whActive := (case uwActive req of None \<Rightarrow> whActive w | Some a \<Rightarrow> a)\<rparr>"

definition WebhookHandler_Update :: "hook_admin_env \<Rightarrow> Claims option \<Rightarrow> string \<Rightarrow> UpdateWebhookRequest option \<Rightarrow> access \<Rightarrow> access \<times> (reply + Webhook)" where
  "WebhookHandler_Update env c idText body =
     for_team (haAccess env) (requireRoles c managers) c (\<lambda>team. with_id (haAccess env) ''invalid id'' idText (\<lambda>i s.
       case find_hook env team i s of
         None \<Rightarrow> (s, Inl (writeError ''webhook not found'' 404))
       | Some w \<Rightarrow>
           (case body of
              None \<Rightarrow> (s, Inl (writeError ''invalid request body'' 400))
            | Some req \<Rightarrow>
                (case check_update env req of
                   Some r \<Rightarrow> (s, Inl r)
                 | None \<Rightarrow> hook_write env (on_db (Webhook_UpdateForTeam (updated_hook req w))) 500 (updated_hook req w) s))))"

definition WebhookHandler_Delete :: "hook_admin_env \<Rightarrow> Claims option \<Rightarrow> string \<Rightarrow> access \<Rightarrow> access \<times> (reply + unit)" where
  "WebhookHandler_Delete env c idText =
     for_team (haAccess env) (requireRoles c managers) c (\<lambda>team. with_id (haAccess env) ''invalid id'' idText (\<lambda>i.
       hook_write env (on_db (\<lambda>d. (Webhook_DeleteForTeam team i d, Inr ()))) 500 ()))"

definition delivery_limit :: "string \<Rightarrow> int option" where
  "delivery_limit raw =
     (if TrimSpace raw = [] then Some 50
      else case Atoi (TrimSpace raw) of None \<Rightarrow> None | Some v \<Rightarrow> if v < 1 \<or> v > 100 then None else Some v)"

definition WebhookHandler_ListDeliveries ::
  "hook_admin_env \<Rightarrow> Claims option \<Rightarrow> string \<Rightarrow> string \<Rightarrow> access \<Rightarrow> access \<times> (reply + WebhookDelivery list)" where
  "WebhookHandler_ListDeliveries env c idText rawLimit =
     for_team (haAccess env)
       (case requirePermission c ''read'' of
          Some r \<Rightarrow> Some r
        | None \<Rightarrow> if haDeliveries env then None else Some (writeError ''webhook delivery history is not configured'' 503)) c
       (\<lambda>team. with_id (haAccess env) ''invalid id'' idText (\<lambda>i s.
          case find_hook env team i s of
            None \<Rightarrow> (s, Inl (writeError ''webhook not found'' 404))
          | Some _ \<Rightarrow>
              (case delivery_limit rawLimit of
                 None \<Rightarrow> (s, Inl (writeError ''limit must be between 1 and 100'' 400))
               | Some limit \<Rightarrow>
                   (case snd (run_call (aeFault (haAccess env) AcSecond) (\<lambda>s. (s, Inr (ListForWebhook team i limit (hook_db s)))) s) of
                      Inl e \<Rightarrow> (s, Inl (writeError (aeDBText (haAccess env) e) 500))
                    | Inr ds \<Rightarrow> (s, Inr ds)))))"

definition queue_guard :: "hook_admin_env \<Rightarrow> Claims option \<Rightarrow> reply option" where
  "queue_guard env c =
     (case requireRoles c managers of
        Some r \<Rightarrow> Some r
      | None \<Rightarrow> if haDeliveries env then None else Some (writeError ''webhook delivery queue is not configured'' 503))"

definition WebhookHandler_ReplayDelivery :: "hook_admin_env \<Rightarrow> Claims option \<Rightarrow> string \<Rightarrow> string \<Rightarrow> access \<Rightarrow> access \<times> (reply + uuid)" where
  "WebhookHandler_ReplayDelivery env c idText deliveryText =
     for_team (haAccess env) (queue_guard env c) c (\<lambda>team. with_id (haAccess env) ''invalid webhook id'' idText (\<lambda>i.
       with_id (haAccess env) ''invalid delivery id'' deliveryText (\<lambda>delivery s.
         case find_hook env team i s of
           None \<Rightarrow> (s, Inl (writeError ''webhook not found'' 404))
         | Some _ \<Rightarrow> hook_write env (on_db (ReplayFailed (aeNow (haAccess env)) team i delivery)) 400 delivery s)))"

definition WebhookHandler_Test :: "hook_admin_env \<Rightarrow> Claims option \<Rightarrow> string \<Rightarrow> access \<Rightarrow> access \<times> (reply + uuid)" where
  "WebhookHandler_Test env c idText =
     for_team (haAccess env) (queue_guard env c) c (\<lambda>team. with_id (haAccess env) ''invalid id'' idText (\<lambda>i s.
       case find_hook env team i s of
         None \<Rightarrow> (s, Inl (writeError ''webhook not found'' 404))
       | Some w \<Rightarrow>
           if \<not> whActive w then (s, Inl (writeError ''webhook is disabled'' 409))
           else (let ae = haAccess env; event = aeFreshID2 ae in
             case haTestPayload env event (whID w) team (aeNow ae) of
               None \<Rightarrow> (s, Inl (writeError ''failed to create test payload'' 500))
             | Some payload \<Rightarrow>
                 hook_write env (on_db (CreateDelivery (aeNow ae)
                   (pending_delivery (aeNow ae) (aeFreshID ae) (whID w) event ''webhook.test'' (Some payload) RetentionOutbound)))
                   500 (aeFreshID ae) s)))"

section \<open>What a request does\<close>

datatype hook_op =
    HoCreate "CreateWebhookRequest option" | HoUpdate string "UpdateWebhookRequest option" | HoDelete string | HoReplay string string | HoTest string

fun exec_h :: "hook_admin_env \<Rightarrow> Claims option \<Rightarrow> hook_op \<Rightarrow> access \<Rightarrow> access" where
  "exec_h env c (HoCreate b) s = fst (WebhookHandler_Create env c b s)"
| "exec_h env c (HoUpdate i b) s = fst (WebhookHandler_Update env c i b s)"
| "exec_h env c (HoDelete i) s = fst (WebhookHandler_Delete env c i s)"
| "exec_h env c (HoReplay i d) s = fst (WebhookHandler_ReplayDelivery env c i d s)"
| "exec_h env c (HoTest i) s = fst (WebhookHandler_Test env c i s)"

fun run_h :: "(hook_admin_env \<times> Claims option \<times> hook_op) list \<Rightarrow> access \<Rightarrow> access" where
  "run_h [] s = s"
| "run_h ((env, c, op) # steps) s = run_h steps (exec_h env c op s)"

text \<open>The effects a request can have on the database, for the team of its claims.\<close>

definition hook_ok :: "hook_admin_env \<Rightarrow> Webhook \<Rightarrow> bool" where
  "hook_ok env w \<longleftrightarrow> validWebhookURL env (whURL w) \<and> \<not> events_refused (whEvents w) \<and> list_all event_ok (whEvents w)"

inductive hook_effect :: "hook_admin_env \<Rightarrow> uuid \<Rightarrow> db \<Rightarrow> db \<Rightarrow> bool" for env team d where
  same: "hook_effect env team d d"
| created: "hook_ok env w \<Longrightarrow> whTeamID w = team \<Longrightarrow> by_key whID (whID w) (webhooks d) = None \<Longrightarrow>
    hook_effect env team d (d\<lparr>webhooks := webhooks d @ [w]\<rparr>)"
| updated: "w \<in> set (webhooks d) \<Longrightarrow> whTeamID w = team \<Longrightarrow> check_update env req = None \<Longrightarrow>
    hook_effect env team d (fst (Webhook_UpdateForTeam (updated_hook req w) d))"
| deleted: "hook_effect env team d (Webhook_DeleteForTeam team i d)"
| replayed: "hook_effect env team d (fst (ReplayFailed now team i x d))"
| tested: "w \<in> set (webhooks d) \<Longrightarrow> whTeamID w = team \<Longrightarrow> wdWebhookID x = whID w \<Longrightarrow>
    hook_effect env team d (fst (CreateDelivery now x d))"

definition effect_step :: "hook_admin_env \<Rightarrow> uuid \<Rightarrow> access \<Rightarrow> access \<Rightarrow> bool" where
  "effect_step env team s s' \<longleftrightarrow> s' = s\<lparr>acct := (acct s)\<lparr>adb := hook_db s'\<rparr>\<rparr> \<and> hook_effect env team (hook_db s) (hook_db s')"

lemma effect_step_refl: "effect_step env team s s"
  by (simp add: effect_step_def hook_effect.same)

lemma hook_write_effect:
  assumes "effect_step env team s (fst (op s))"
  shows "effect_step env team s (fst (hook_write env op code a s))"
proof -
  have "fst (hook_write env op code a s) = fst (run_call (aeFault (haAccess env) AcSecond) op s)"
    by (auto simp: hook_write_def split: prod.splits sum.splits)
  then show ?thesis using run_call_state [of "aeFault (haAccess env) AcSecond" op s] assms effect_step_refl by metis
qed

lemma on_db_effect: "hook_effect env team (hook_db s) (fst (f (hook_db s))) \<Longrightarrow> effect_step env team s (fst (on_db f s))"
  by (cases "f (hook_db s)") (simp add: effect_step_def on_db_def)

lemma find_hook_Some:
  assumes "find_hook env team i s = Some w"
  shows "w \<in> set (webhooks (hook_db s))" "whTeamID w = team" "whID w = i"
proof -
  have "Webhook_GetByIDForTeam team i (hook_db s) = Inr w"
    using assms by (cases "aeFault (haAccess env) AcFirst") (auto simp: find_hook_def split: sum.splits)
  then have "w \<in> set (webhooks (hook_db s)) \<and> whTeamID w = team \<and> whID w = i"
    by (auto simp: Webhook_GetByIDForTeam_def find_Some_iff split: option.splits)
  then show "w \<in> set (webhooks (hook_db s))" "whTeamID w = team" "whID w = i" by auto
qed

lemma create_effect:
  assumes "hook_ok env w"
  shows "effect_step env (whTeamID w) s (fst (WebhookRepo_Create now w s))"
proof (cases "char_length (whSecret w) > 255 \<or> by_key whID (whID w) (webhooks (hook_db s)) \<noteq> None \<or> by_key tmID (whTeamID w) (teams (acct s)) = None")
  case True
  then show ?thesis by (auto simp: WebhookRepo_Create_def effect_step_refl)
next
  case False
  then have "hook_effect env (whTeamID w) (hook_db s) (fst (Webhook_Create (w\<lparr>whCreatedAt := now\<rparr>) (hook_db s)))"
    using hook_effect.created [of env "w\<lparr>whCreatedAt := now\<rparr>" "whTeamID w" "hook_db s"] assms by (simp add: Webhook_Create_def hook_ok_def)
  then show ?thesis using False on_db_effect by (auto simp: WebhookRepo_Create_def)
qed

lemma create_request_effect:
  "fst (WebhookHandler_Create env c b s) = s \<or>
   (\<exists>team. manager (haAccess env) c team \<and> effect_step env team s (fst (WebhookHandler_Create env c b s)))"
proof (cases "requireRoles c managers = None \<and> (\<exists>req. b = Some req \<and> validWebhookURL env (TrimSpace (cwURL req)) \<and>
    \<not> events_refused (cwEvents req) \<and> list_all event_ok (cwEvents req))")
  case False
  then show ?thesis by (auto simp: WebhookHandler_Create_def Let_def split: option.splits)
next
  case True
  then obtain req where req: "b = Some req" "validWebhookURL env (TrimSpace (cwURL req))" "\<not> events_refused (cwEvents req)" "list_all event_ok (cwEvents req)"
    by blast
  show ?thesis
  proof (cases "getTeamID (haAccess env) c")
    case (Inl r)
    then show ?thesis using True req by (simp add: WebhookHandler_Create_def Let_def for_team_def)
  next
    case (Inr team)
    show ?thesis
    proof (cases "GenerateAPIKey (haAccess env)")
      case None
      then show ?thesis using True req Inr by (simp add: WebhookHandler_Create_def Let_def for_team_def)
    next
      case (Some key)
      obtain secret a b' where key: "key = (secret, a, b')" by (cases key)
      let ?w = "\<lparr>whID = aeFreshID (haAccess env), whTeamID = team, whURL = TrimSpace (cwURL req), whEvents = cwEvents req, whSecret = secret,
        whActive = True, whCreatedAt = 0\<rparr>"
      have ok: "hook_ok env ?w" using req by (simp add: hook_ok_def)
      have "WebhookHandler_Create env c b s = hook_write env (WebhookRepo_Create (aeNow (haAccess env)) ?w) 500 ?w s"
        using True req Inr Some key by (simp add: WebhookHandler_Create_def Let_def for_team_def)
      moreover have "effect_step env team s (fst (hook_write env (WebhookRepo_Create (aeNow (haAccess env)) ?w) 500 ?w s))"
        by (rule hook_write_effect) (use create_effect [OF ok] in simp)
      ultimately show ?thesis using True Inr by (auto simp: manager_def)
    qed
  qed
qed

text \<open>The other requests work after the same checks, each on a row that \<open>find_hook\<close> found.\<close>

definition team_effect :: "hook_admin_env \<Rightarrow> Claims option \<Rightarrow> access \<Rightarrow> access \<Rightarrow> bool" where
  "team_effect env c s s' \<longleftrightarrow> s' = s \<or> (\<exists>team. manager (haAccess env) c team \<and> effect_step env team s s')"

lemma team_effectI: "requireRoles c managers = None \<Longrightarrow> getTeamID (haAccess env) c = Inr team \<Longrightarrow> effect_step env team s s' \<Longrightarrow> team_effect env c s s'"
  by (auto simp: team_effect_def manager_def)

lemma queue_guard_None: "queue_guard env c = None \<Longrightarrow> requireRoles c managers = None"
  by (auto simp: queue_guard_def split: option.splits)

lemma for_team_effect:
  "(\<And>team. guard = None \<Longrightarrow> getTeamID (haAccess env) c = Inr team \<Longrightarrow> team_effect env c s (fst (k team s))) \<Longrightarrow>
   team_effect env c s (fst (for_team (haAccess env) guard c k s))"
  by (auto simp: for_team_def team_effect_def split: option.splits sum.splits)

lemma with_id_effect: "(\<And>j. team_effect env c s (fst (k j s))) \<Longrightarrow> team_effect env c s (fst (with_id ae bad text k s))"
  by (auto simp: with_id_def team_effect_def split: option.splits)

lemma some_effect: "(\<And>x. v = Some x \<Longrightarrow> team_effect env c s (fst (f x))) \<Longrightarrow> team_effect env c s (fst (case v of None \<Rightarrow> (s, y) | Some x \<Rightarrow> f x))"
  by (cases v) (auto simp: team_effect_def)

lemma none_effect: "(v = None \<Longrightarrow> team_effect env c s (fst z)) \<Longrightarrow> team_effect env c s (fst (case v of None \<Rightarrow> z | Some x \<Rightarrow> (s, g x)))"
  by (cases v) (auto simp: team_effect_def)

lemma unless_effect: "(\<not> b \<Longrightarrow> team_effect env c s (fst z)) \<Longrightarrow> team_effect env c s (fst (if b then (s, y) else z))"
  by (auto simp: team_effect_def)

lemmas request_effects = for_team_effect with_id_effect some_effect none_effect unless_effect

lemma update_request_effect: "team_effect env c s (fst (WebhookHandler_Update env c i b s))"
  unfolding WebhookHandler_Update_def
  by (intro request_effects, rule team_effectI, assumption, assumption, intro hook_write_effect on_db_effect hook_effect.updated)
    (auto dest: find_hook_Some)

lemma delete_request_effect: "team_effect env c s (fst (WebhookHandler_Delete env c i s))"
  unfolding WebhookHandler_Delete_def
  by (intro request_effects, rule team_effectI, assumption, assumption, intro hook_write_effect on_db_effect) (simp add: hook_effect.deleted)

lemma replay_request_effect: "team_effect env c s (fst (WebhookHandler_ReplayDelivery env c i x s))"
  unfolding WebhookHandler_ReplayDelivery_def
  by (intro request_effects, rule team_effectI, erule queue_guard_None, assumption, intro hook_write_effect on_db_effect hook_effect.replayed)

lemma test_request_effect: "team_effect env c s (fst (WebhookHandler_Test env c i s))"
  unfolding WebhookHandler_Test_def Let_def
  by (intro request_effects, rule team_effectI, erule queue_guard_None, assumption, intro hook_write_effect on_db_effect, rule hook_effect.tested)
    (auto simp: pending_delivery_def dest: find_hook_Some)

lemma exec_h_effect: "team_effect env c s (exec_h env c op s)"
proof (cases op)
  case (HoCreate b)
  then show ?thesis using create_request_effect [of env c b s] by (simp add: team_effect_def)
qed (simp_all add: update_request_effect delete_request_effect replay_request_effect test_request_effect)

section \<open>The table of endpoints\<close>

definition hooks_ok :: "hook_admin_env \<Rightarrow> db \<Rightarrow> bool" where
  "hooks_ok env d \<longleftrightarrow> keyed whID (webhooks d) \<and> list_all (hook_ok env) (webhooks d)"

lemma updated_hook_ok: "hook_ok env w \<Longrightarrow> check_update env req = None \<Longrightarrow> hook_ok env (updated_hook req w)"
  by (auto simp: hook_ok_def check_update_def updated_hook_def split: option.splits if_splits)

lemma hook_ok_fields: "hook_ok env w \<Longrightarrow> hook_ok env (x\<lparr>whURL := whURL w, whEvents := whEvents w, whActive := a\<rparr>)"
  by (simp add: hook_ok_def)

lemma hook_effect_ok:
  assumes "hook_effect env team d d'" "hooks_ok env d"
  shows "hooks_ok env d'"
  using assms
proof (cases rule: hook_effect.cases)
  case (created w)
  then show ?thesis using assms(2) by (simp add: hooks_ok_def keyed_append_one)
next
  case (updated w req)
  have "hook_ok env w" using updated(2) assms(2) by (simp add: hooks_ok_def list_all_iff)
  then have "hook_ok env (updated_hook req w)" using updated_hook_ok updated(4) by blast
  then have "hook_ok env (x\<lparr>whURL := whURL (updated_hook req w), whEvents := whEvents (updated_hook req w), whActive := whActive (updated_hook req w)\<rparr>)" for x
    by (rule hook_ok_fields)
  moreover have "keyed whID (webhooks d')"
    unfolding updated(1) Webhook_UpdateForTeam_def fst_conv db.simps
    by (simp, rule keyed_sql_update) (use assms(2) in \<open>simp_all add: hooks_ok_def\<close>)
  ultimately show ?thesis using assms(2) unfolding hooks_ok_def updated(1) Webhook_UpdateForTeam_def
    by (auto simp: list_all_iff set_sql_update)
next
  case (deleted i)
  then show ?thesis using assms(2)
    by (simp add: hooks_ok_def Webhook_DeleteForTeam_def delete_hooks_def Let_def keyed_sql_delete) (simp add: list_all_iff sql_delete_def)
qed (use assms(2) in \<open>simp_all add: hooks_ok_def ReplayFailed_def CreateDelivery_def\<close>)

text \<open>The environments of a run agree on what a valid address is.\<close>

lemma hook_ok_cong: "validWebhookURL env' = validWebhookURL env \<Longrightarrow> hooks_ok env' = hooks_ok env"
  by (simp add: fun_eq_iff hooks_ok_def hook_ok_def [abs_def])

lemma exec_h_ok: "hooks_ok env (hook_db s) \<Longrightarrow> hooks_ok env (hook_db (exec_h env c op s))"
  using exec_h_effect [of env c s op] hook_effect_ok by (auto simp: team_effect_def effect_step_def)

lemma run_h_fold: "run_h steps = fold (\<lambda>(e, c, op). exec_h e c op) steps"
  by (rule ext) (induction steps rule: list.induct, auto)

interpretation hooks: kept_requests "\<lambda>(e, c, op). exec_h e c op" "\<lambda>r. validWebhookURL (fst r) = validWebhookURL env" "\<lambda>s. hooks_ok env (hook_db s)"
  for env
proof unfold_locales
  fix s and r :: "hook_admin_env \<times> Claims option \<times> hook_op"
  assume "hooks_ok env (hook_db s)" "validWebhookURL (fst r) = validWebhookURL env"
  then show "hooks_ok env (hook_db ((\<lambda>(e, c, op). exec_h e c op) r s))"
    using exec_h_ok [of "fst r" s "fst (snd r)" "snd (snd r)"] hook_ok_cong [of "fst r" env] by (simp add: case_prod_beta)
qed

lemma run_h_ok:
  "hooks_ok env (hook_db s) \<Longrightarrow> \<forall>(e, c, op) \<in> set steps. validWebhookURL e = validWebhookURL env \<Longrightarrow> hooks_ok env (hook_db (run_h steps s))"
  using hooks.run_keeps [of env s steps] by (auto simp: run_h_fold list_all_iff case_prod_beta)

text \<open>C22: Through every sequence of requests, whatever calls fail, every stored endpoint has an address that passed the check, so
  what the worker takes up for delivery goes to a public address, over https when the server requires it, and has between one
  and fifty well-formed events; ids stay unique.\<close>

theorem webhook_targets_validated:
  assumes "hooks_ok env (hook_db s)" "\<forall>(e, c, op) \<in> set steps. validWebhookURL e = validWebhookURL env"
  shows "hooks_ok env (hook_db (run_h steps s)) \<and>
    (\<forall>now d x url secret. ClaimDelivery now (hook_db (run_h steps s)) = (d, Inr (x, url, secret)) \<longrightarrow>
       IsValidURL (haParseURL env) (haParseIP env) url \<and>
       (haRequireHTTPS env \<longrightarrow> (\<exists>u. haParseURL env url = Some u \<and> ToLower (urlScheme u) = ''https'')))"
proof -
  have ok: "hooks_ok env (hook_db (run_h steps s))" using assms by (rule run_h_ok)
  have "validWebhookURL env url" if "ClaimDelivery now (hook_db (run_h steps s)) = (d, Inr (x, url, secret))" for now d x url secret
    using that
  proof (cases rule: ClaimDelivery_cases)
    case (claimed d0 w)
    then show ?thesis using ok by (auto simp: hooks_ok_def list_all_iff hook_ok_def)
  qed simp
  then show ?thesis using ok by (fastforce simp: validWebhookURL_def split: option.splits)
qed

section \<open>Teams\<close>

definition hooks_of :: "uuid \<Rightarrow> db \<Rightarrow> Webhook list" where
  "hooks_of team d = filter (\<lambda>w. whTeamID w = team) (webhooks d)"

definition deliveries_of :: "uuid \<Rightarrow> db \<Rightarrow> WebhookDelivery list" where
  "deliveries_of team d = filter (\<lambda>x. wdWebhookID x \<in> whID ` set (hooks_of team d)) (webhook_deliveries d)"

lemma filter_sql_update: "(\<And>r. p r \<Longrightarrow> \<not> q r \<and> \<not> q (f r)) \<Longrightarrow> filter q (sql_update p f rows) = filter q rows"
  by (induction rows) auto

lemma filter_sql_delete: "(\<And>r. p r \<Longrightarrow> \<not> q r) \<Longrightarrow> filter q (sql_delete p rows) = filter q rows"
  by (induction rows) (auto simp: sql_delete_def)

lemma other_team: "keyed whID (webhooks d) \<Longrightarrow> w \<in> set (webhooks d) \<Longrightarrow> whTeamID w \<noteq> team \<Longrightarrow> whID w \<notin> whID ` set (hooks_of team d)"
  by (auto simp: hooks_of_def dest: keyed_inj)

lemma hook_effect_isolated:
  assumes "hook_effect env team d d'" "keyed whID (webhooks d)" "other \<noteq> team"
  shows "hooks_of other d' = hooks_of other d \<and> deliveries_of other d' = deliveries_of other d"
  using assms(1)
proof (cases rule: hook_effect.cases)
  case (created w)
  then have "hooks_of other d' = hooks_of other d" using assms(3) by (simp add: hooks_of_def)
  then show ?thesis using created(1) by (simp add: deliveries_of_def)
next
  case (updated w req)
  have "hooks_of other d' = hooks_of other d"
    unfolding updated(1) Webhook_UpdateForTeam_def hooks_of_def using updated(3) assms(3)
    by (simp, intro filter_sql_update) (simp add: updated_hook_def)
  then show ?thesis by (simp add: deliveries_of_def updated(1) Webhook_UpdateForTeam_def)
next
  case (deleted i)
  have h: "hooks_of other d' = hooks_of other d"
    unfolding deleted Webhook_DeleteForTeam_def delete_hooks_def Let_def hooks_of_def using assms(3)
    by (simp, intro filter_sql_delete) simp
  have "whID w \<notin> whID ` set (hooks_of other d)" if "w \<in> set (webhooks d)" "whTeamID w = team" for w
    using other_team [OF assms(2) that(1)] that(2) assms(3) by simp
  then have "deliveries_of other d' = deliveries_of other d"
    unfolding deliveries_of_def h unfolding deleted Webhook_DeleteForTeam_def delete_hooks_def Let_def
    by (simp, intro filter_sql_delete) (auto, metis imageI)
  then show ?thesis using h by simp
next
  case (replayed now i x)
  have h: "hooks_of other d' = hooks_of other d" by (simp add: replayed ReplayFailed_def hooks_of_def)
  have "deliveries_of other d' = deliveries_of other d"
    unfolding deliveries_of_def h unfolding replayed ReplayFailed_def
    by (simp, intro filter_sql_update) (use other_team [OF assms(2)] assms(3) in \<open>auto simp: replay_where_def replay_set_def, metis imageI\<close>)
  then show ?thesis using h by simp
next
  case (tested w x now)
  have h: "hooks_of other d' = hooks_of other d" by (simp add: tested(1) CreateDelivery_def hooks_of_def)
  have "wdWebhookID x \<notin> whID ` set (hooks_of other d)" using other_team [OF assms(2) tested(2), of other] tested(3,4) assms(3) by simp
  then have "deliveries_of other d' = deliveries_of other d"
    unfolding deliveries_of_def h unfolding tested(1) CreateDelivery_def by (simp add: insert_delivery_def pending_delivery_def)
  then show ?thesis using h by simp
qed simp

text \<open>A request for webhooks changes nothing unless it comes from an owner or admin, and then leaves the endpoints and
  deliveries of every other team, and everything besides webhooks and deliveries, as they were.\<close>

lemma webhook_request_effect:
  assumes "hooks_ok env (hook_db s)"
  shows "exec_h env c op s = s \<or>
    (\<exists>team. manager (haAccess env) c team \<and>
       (\<forall>other. other \<noteq> team \<longrightarrow> hooks_of other (hook_db (exec_h env c op s)) = hooks_of other (hook_db s) \<and>
          deliveries_of other (hook_db (exec_h env c op s)) = deliveries_of other (hook_db s)) \<and>
       (\<exists>hs ds. exec_h env c op s = s\<lparr>acct := (acct s)\<lparr>adb := (hook_db s)\<lparr>webhooks := hs, webhook_deliveries := ds\<rparr>\<rparr>\<rparr>))"
proof -
  have rest: "d' = d\<lparr>webhooks := webhooks d', webhook_deliveries := webhook_deliveries d'\<rparr>" if "hook_effect env team d d'" for team d d'
    using that
    by (cases rule: hook_effect.cases)
      (simp_all add: Webhook_UpdateForTeam_def Webhook_DeleteForTeam_def delete_hooks_def Let_def ReplayFailed_def CreateDelivery_def)
  show ?thesis
  proof (cases "exec_h env c op s = s")
    case False
    then obtain team where t: "manager (haAccess env) c team" "effect_step env team s (exec_h env c op s)"
      using exec_h_effect [of env c s op] by (auto simp: team_effect_def)
    then have e: "hook_effect env team (hook_db s) (hook_db (exec_h env c op s))"
      "exec_h env c op s = s\<lparr>acct := (acct s)\<lparr>adb := hook_db (exec_h env c op s)\<rparr>\<rparr>" by (simp_all add: effect_step_def)
    moreover have "keyed whID (webhooks (hook_db s))" using assms by (simp add: hooks_ok_def)
    ultimately show ?thesis using hook_effect_isolated [OF e(1)] rest [OF e(1)] t(1) by metis
  qed simp
qed

interpretation hooks_apart: team_requests "\<lambda>(e, c, op). exec_h e c op" "\<lambda>r. validWebhookURL (fst r) = validWebhookURL env"
  "\<lambda>s. hooks_ok env (hook_db s)" "\<lambda>r. manager (haAccess (fst r)) (fst (snd r))"
  "\<lambda>team s. (hooks_of team (hook_db s), deliveries_of team (hook_db s))"
  for env
proof unfold_locales
  fix s team and r :: "hook_admin_env \<times> Claims option \<times> hook_op"
  assume ok: "hooks_ok env (hook_db s)" "validWebhookURL (fst r) = validWebhookURL env" "\<not> manager (haAccess (fst r)) (fst (snd r)) team"
  have "hooks_ok (fst r) (hook_db s)" using ok hook_ok_cong [of "fst r" env] by simp
  from webhook_request_effect [OF this, of "fst (snd r)" "snd (snd r)"] ok(3)
  show "(hooks_of team (hook_db ((\<lambda>(e, c, op). exec_h e c op) r s)), deliveries_of team (hook_db ((\<lambda>(e, c, op). exec_h e c op) r s))) =
      (hooks_of team (hook_db s), deliveries_of team (hook_db s))"
    unfolding case_prod_beta by metis
qed

text \<open>Through every sequence of requests for webhooks, whatever calls fail, the endpoints of a team and their deliveries are
  the same when none of the callers is an owner or admin of it.\<close>

theorem webhook_requests_isolated:
  assumes "hooks_ok env (hook_db s)" "\<forall>(e, c, op) \<in> set steps. validWebhookURL e = validWebhookURL env \<and> \<not> manager (haAccess e) c team"
  shows "hooks_of team (hook_db (run_h steps s)) = hooks_of team (hook_db s) \<and>
    deliveries_of team (hook_db (run_h steps s)) = deliveries_of team (hook_db s)"
  using hooks_apart.run_apart [of env s steps team] assms by (auto simp: run_h_fold list_all_iff case_prod_beta)

section \<open>Examples\<close>

definition demo_hook_admin :: hook_admin_env where
  "demo_hook_admin = \<lparr>haAccess = demo_access_env,
     haParseURL = (\<lambda>_. Some \<lparr>urlScheme = ''https'', urlHostname = ''hooks.x'', urlHasUser = False, urlFragment = []\<rparr>),
     haParseIP = (\<lambda>_. None), haRequireHTTPS = True, haDeliveries = True, haTestPayload = (\<lambda>_ _ _ _. Some ''{}'')\<rparr>"

definition demo_hook_steps :: "(hook_admin_env \<times> Claims option \<times> hook_op) list" where
  "demo_hook_steps = [(demo_hook_admin, demo_owner, HoCreate (Some \<lparr>cwURL = '' https://hooks.x/a'', cwEvents = [''email.sent'']\<rparr>)),
     (demo_hook_admin, demo_owner, HoTest ''12345'')]"

definition hooks_view :: "db \<Rightarrow> string list \<times> uuid list" where
  "hooks_view d = (map whURL (webhooks d), map wdWebhookID (webhook_deliveries d))"

lemma demo_hooks_run: "hooks_view (hook_db (run_h demo_hook_steps demo_access)) = ([''https://hooks.x/a''], [5])"
  by code_simp

lemma demo_hooks_ok: "hooks_ok demo_hook_admin (hook_db demo_access)"
  by code_simp

theorem webhook_targets_validated_witness:
  "hooks_ok demo_hook_admin (hook_db (run_h demo_hook_steps demo_access)) \<and> map whURL (webhooks (hook_db (run_h demo_hook_steps demo_access))) = [''https://hooks.x/a'']
   \<and> map wdWebhookID (webhook_deliveries (hook_db (run_h demo_hook_steps demo_access))) = [5]"
proof -
  have "map whURL (webhooks (hook_db (run_h demo_hook_steps demo_access))) = [''https://hooks.x/a'']"
    "map wdWebhookID (webhook_deliveries (hook_db (run_h demo_hook_steps demo_access))) = [5]" using demo_hooks_run by (simp_all add: hooks_view_def)
  moreover have "\<forall>(e, c, op) \<in> set demo_hook_steps. validWebhookURL e = validWebhookURL demo_hook_admin" by (simp add: demo_hook_steps_def)
  ultimately show ?thesis using webhook_targets_validated [OF demo_hooks_ok] by blast
qed

theorem webhook_requests_isolated_witness:
  "hooks_of 4 (hook_db (run_h demo_hook_steps demo_access)) = hooks_of 4 (hook_db demo_access) \<and>
   map whURL (webhooks (hook_db (run_h demo_hook_steps demo_access))) = [''https://hooks.x/a'']"
proof -
  have "map whURL (webhooks (hook_db (run_h demo_hook_steps demo_access))) = [''https://hooks.x/a'']" using demo_hooks_run by (simp add: hooks_view_def)
  moreover have "getTeamID demo_access_env demo_owner = Inr 9" by (rule demo_owner_guards(2))
  then have "\<forall>(e, c, op) \<in> set demo_hook_steps. validWebhookURL e = validWebhookURL demo_hook_admin \<and> \<not> manager (haAccess e) c 4"
    by (simp add: demo_hook_steps_def manager_def demo_hook_admin_def)
  ultimately show ?thesis using webhook_requests_isolated [OF demo_hooks_ok] by blast
qed

end
