(* ===== verification/EmailEndpoints.thy ===== *)
theory EmailEndpoints
  imports Endpoints EmailOperations
begin

text \<open>
  The endpoints for messages: \<open>internal/handler/email_handler.go\<close> on the services of theories EmailService and
  EmailOperations. A handler takes the decoded request (\<open>None\<close> for a body that does not decode) and yields the new state with an
  error reply or with the status and the data of the answer. The theorems show what each status says about the state, that requests
  reach the messages of the caller's team only, and one way a message can be answered for and never be queued.
\<close>

section \<open>Environment\<close>

text \<open>What an error of a call reads like depends on the driver; the text is a parameter.\<close>

record mail_env =
  mlAccess :: access_env
  mlOps :: ops_env
  mlSend :: "nat \<Rightarrow> send_env"
  mlBatchRepo :: bool
  mlSendText :: "send_error_kind \<Rightarrow> string"
  mlBatchText :: "batch_failure \<Rightarrow> string"
  mlOpText :: "op_error \<Rightarrow> string"

section \<open>Handlers\<close>

definition send_status :: "send_error_kind \<Rightarrow> int" where
  "send_status e =
     (case e of
        ErrQueueUnavailable \<Rightarrow> 503
      | ErrUsageUnavailable \<Rightarrow> 503
      | ErrDailyRecipientLimit \<Rightarrow> 429
      | ErrIdempotencyConflict \<Rightarrow> 409
      | _ \<Rightarrow> 400)"

definition with_body :: "reply option \<Rightarrow> 'b option \<Rightarrow> ('b \<Rightarrow> 's \<Rightarrow> 's \<times> (reply + 'a)) \<Rightarrow> 's \<Rightarrow> 's \<times> (reply + 'a)" where
  "with_body guard body k s =
     (case guard of
        Some r \<Rightarrow> (s, Inl r)
      | None \<Rightarrow> (case body of None \<Rightarrow> (s, Inl (writeError ''invalid request body'' 400)) | Some b \<Rightarrow> k b s))"

definition EmailHandler_Send ::
  "mail_env \<Rightarrow> Claims option \<Rightarrow> SendEmailRequest option \<Rightarrow> string \<Rightarrow> service \<Rightarrow> service \<times> (reply + int \<times> EmailResponse)" where
  "EmailHandler_Send env c body key =
     with_body (requirePermission c ''send'') body (\<lambda>req.
       for_team (mlAccess env) None c (\<lambda>team s.
         case SendWithIdempotency (mlSend env 0) team (Some req) key s of
           (s1, Inl e) \<Rightarrow> (s1, Inl (writeError (mlSendText env e) (send_status e)))
         | (s1, Inr (r, created)) \<Rightarrow> (s1, Inr (if created then 201 else 200, r))))"

text \<open>The errors of a batch carry the cause of the item that failed, so its status is the one of the cause.\<close>

definition batch_status :: "batch_failure \<Rightarrow> int" where
  "batch_status f = (case f of BatchSendError _ e \<Rightarrow> send_status e | BatchConflict \<Rightarrow> 409 | _ \<Rightarrow> 400)"

record batch_reply =
  brData :: "EmailResponse list"
  brFailedItem :: "nat option"

definition EmailHandler_BatchSend ::
  "mail_env \<Rightarrow> Claims option \<Rightarrow> SendEmailRequest option list option \<Rightarrow> string \<Rightarrow> service \<Rightarrow> service \<times> (reply + int \<times> batch_reply)" where
  "EmailHandler_BatchSend env c body batchKey =
     with_body (requirePermission c ''send'') body (\<lambda>reqs s.
       if reqs = [] then (s, Inl (writeError ''at least one email is required'' 400))
       else if batchKey = [] then (s, Inl (writeError ''Idempotency-Key is required for batch sends'' 400))
       else for_team (mlAccess env) None c (\<lambda>team s.
         case BatchSend (mlSend env) (mlBatchRepo env) team reqs batchKey s of
           (s1, responses, Some f) \<Rightarrow>
             (s1, if responses \<noteq> []
                  then Inr (207, \<lparr>brData = responses,
                    brFailedItem = Some (case f of BatchSendError index _ \<Rightarrow> index + 1 | _ \<Rightarrow> length responses + 1)\<rparr>)
                  else Inl (writeError (mlBatchText env f) (batch_status f)))
         | (s1, responses, None) \<Rightarrow> (s1, Inr (201, \<lparr>brData = responses, brFailedItem = None\<rparr>))) s)"

definition query_or :: "int \<Rightarrow> string \<Rightarrow> int" where
  "query_or dflt text = (if text = [] then dflt else atoi_or dflt text)"

definition EmailHandler_List ::
  "mail_env \<Rightarrow> Claims option \<Rightarrow> string \<Rightarrow> string \<Rightarrow> service \<Rightarrow> service \<times> (reply + int \<times> EmailListResponse)" where
  "EmailHandler_List env c limitText offsetText =
     for_team (mlAccess env) (requirePermission c ''read'') c (\<lambda>team s.
       (s, case service_List (mlOps env) team (query_or 50 limitText) (query_or 0 offsetText) s of
             Inl e \<Rightarrow> Inl (writeError (mlOpText env (OpDB e)) 500)
           | Inr page \<Rightarrow> Inr (200, page)))"

text \<open>The message with the flag that tells whether the caller may reconcile it.\<close>

definition EmailHandler_GetByID ::
  "mail_env \<Rightarrow> Claims option \<Rightarrow> string \<Rightarrow> service \<Rightarrow> service \<times> (reply + int \<times> Email \<times> bool)" where
  "EmailHandler_GetByID env c idText =
     for_team (mlAccess env) (requirePermission c ''read'') c (\<lambda>team.
       with_id (mlAccess env) ''invalid id'' idText (\<lambda>i s.
         (s, case service_GetByID (mlOps env) team i s of
               Inl e \<Rightarrow> Inl (if e = ErrNoRows then writeError ''email not found'' 404 else writeError ''failed to load email'' 500)
             | Inr email \<Rightarrow> Inr (200, email, HasAnyRole c [''owner'', ''admin'']))))"

definition reconcile_reply :: "op_error \<Rightarrow> reply" where
  "reconcile_reply e =
     (case e of
        OpDB ErrNoRows \<Rightarrow> writeError ''email not found'' 404
      | ErrInvalidDeliveryReviewAction \<Rightarrow> writeError ''choose accepted or failed'' 400
      | OpDB ErrDeliveryConfirmationUnavailable \<Rightarrow> writeError ''delivery confirmation is not available yet'' 409
      | ErrDeliveryReviewNotNeeded \<Rightarrow> writeError ''this message no longer needs review'' 409
      | _ \<Rightarrow> writeError ''delivery review is temporarily unavailable'' 503)"

text \<open>The body is the action and the provider id.\<close>

definition EmailHandler_ReconcileAmbiguous ::
  "mail_env \<Rightarrow> Claims option \<Rightarrow> string \<Rightarrow> (string \<times> string) option \<Rightarrow> service \<Rightarrow> service \<times> (reply + int \<times> Email \<times> bool)" where
  "EmailHandler_ReconcileAmbiguous env c idText body =
     for_team (mlAccess env) (requireRoles c [''owner'', ''admin'']) c (\<lambda>team.
       with_id (mlAccess env) ''invalid id'' idText (\<lambda>i.
         with_body None body (\<lambda>(action, given) s.
           case service_ReconcileAmbiguous (mlOps env) team i action given s of
             (s1, Inl e) \<Rightarrow> (s1, Inl (reconcile_reply e))
           | (s1, Inr email) \<Rightarrow> (s1, Inr (200, email, True)))))"

definition EmailHandler_GetEvents ::
  "mail_env \<Rightarrow> Claims option \<Rightarrow> string \<Rightarrow> service \<Rightarrow> service \<times> (reply + int \<times> EmailEvent list)" where
  "EmailHandler_GetEvents env c idText =
     for_team (mlAccess env) (requirePermission c ''read'') c (\<lambda>team.
       with_id (mlAccess env) ''invalid id'' idText (\<lambda>i s.
         (s, case GetEvents (mlOps env) team i s of
               Inl e \<Rightarrow> Inl (writeError (mlOpText env (OpDB e)) 500) | Inr evs \<Rightarrow> Inr (200, evs))))"

definition EmailHandler_Cancel :: "mail_env \<Rightarrow> Claims option \<Rightarrow> string \<Rightarrow> service \<Rightarrow> service \<times> (reply + int \<times> unit)" where
  "EmailHandler_Cancel env c idText =
     for_team (mlAccess env) (requirePermission c ''send'') c (\<lambda>team.
       with_id (mlAccess env) ''invalid id'' idText (\<lambda>i s.
         case Cancel (mlOps env) team i s of
           (s1, Inl e) \<Rightarrow> (s1, Inl (writeError (mlOpText env e) 400))
         | (s1, Inr _) \<Rightarrow> (s1, Inr (204, ()))))"

definition EmailHandler_ListDeadLetters ::
  "mail_env \<Rightarrow> Claims option \<Rightarrow> string \<Rightarrow> service \<Rightarrow> service \<times> (reply + int \<times> (uuid \<times> EmailStatus) list)" where
  "EmailHandler_ListDeadLetters env c limitText =
     for_team (mlAccess env) (requireRoles c [''owner'', ''admin'']) c (\<lambda>team s.
       (s, case ListDeadLetters (mlOps env) team (query_or 50 limitText) s of
             Inl _ \<Rightarrow> Inl (writeError ''failed to list dead letters'' 503)
           | Inr ds \<Rightarrow> Inr (200, ds)))"

definition EmailHandler_ReplayDeadLetter ::
  "mail_env \<Rightarrow> Claims option \<Rightarrow> string \<Rightarrow> service \<Rightarrow> service \<times> (reply + int \<times> uuid)" where
  "EmailHandler_ReplayDeadLetter env c idText =
     for_team (mlAccess env) (requireRoles c [''owner'', ''admin'']) c (\<lambda>team.
       with_id (mlAccess env) ''invalid id'' idText (\<lambda>i s.
         case ReplayDeadLetter (mlOps env) team i s of
           (s1, Inl e) \<Rightarrow> (s1, Inl (writeError (mlOpText env e) 400))
         | (s1, Inr _) \<Rightarrow> (s1, Inr (202, i))))"

section \<open>Requests\<close>

datatype mail_op =
    MSend "SendEmailRequest option" string
  | MBatch "SendEmailRequest option list option" string
  | MList string string
  | MGet string
  | MReconcile string "(string \<times> string) option"
  | MEvents string
  | MCancel string
  | MDead string
  | MReplay string

fun exec_m :: "mail_env \<Rightarrow> Claims option \<Rightarrow> mail_op \<Rightarrow> service \<Rightarrow> service" where
  "exec_m env c (MSend body key) s = fst (EmailHandler_Send env c body key s)"
| "exec_m env c (MBatch body key) s = fst (EmailHandler_BatchSend env c body key s)"
| "exec_m env c (MList l n) s = fst (EmailHandler_List env c l n s)"
| "exec_m env c (MGet i) s = fst (EmailHandler_GetByID env c i s)"
| "exec_m env c (MReconcile i body) s = fst (EmailHandler_ReconcileAmbiguous env c i body s)"
| "exec_m env c (MEvents i) s = fst (EmailHandler_GetEvents env c i s)"
| "exec_m env c (MCancel i) s = fst (EmailHandler_Cancel env c i s)"
| "exec_m env c (MDead l) s = fst (EmailHandler_ListDeadLetters env c l s)"
| "exec_m env c (MReplay i) s = fst (EmailHandler_ReplayDeadLetter env c i s)"

fun run_m :: "(mail_env \<times> Claims option \<times> mail_op) list \<Rightarrow> service \<Rightarrow> service" where
  "run_m [] s = s"
| "run_m ((env, c, x) # rest) s = run_m rest (exec_m env c x s)"

section \<open>Reaching only the rows of a team\<close>

text \<open>Rows of the team may change or be added under new ids; the others stay.\<close>

definition own_rows :: "uuid \<Rightarrow> Email list \<Rightarrow> Email list \<Rightarrow> bool" where
  "own_rows team rows rows' \<longleftrightarrow> (\<exists>f ext. rows' = map f rows @ ext \<and> (\<forall>e. eID (f e) = eID e \<and> eTeamID (f e) = eTeamID e) \<and>
     (\<forall>e \<in> set rows. eTeamID e \<noteq> team \<longrightarrow> f e = e) \<and> (\<forall>e \<in> set ext. eTeamID e = team) \<and>
     distinct (map eID ext) \<and> eID ` set ext \<inter> eID ` set rows = {})"

definition owned :: "uuid \<Rightarrow> uuid \<Rightarrow> Email list \<Rightarrow> bool" where
  "owned team i rows \<longleftrightarrow> (\<forall>e \<in> set rows. eID e = i \<longrightarrow> eTeamID e = team)"

lemma own_rows_refl [simp, intro]: "own_rows team rows rows"
  unfolding own_rows_def by (intro exI [of _ id] exI [of _ "[]"]) simp

lemma own_rows_trans [trans]:
  assumes "own_rows team a b" and "own_rows team b c"
  shows "own_rows team a c"
proof -
  obtain f x where f: "b = map f a @ x" "\<forall>e. eID (f e) = eID e \<and> eTeamID (f e) = eTeamID e" "\<forall>e \<in> set a. eTeamID e \<noteq> team \<longrightarrow> f e = e"
      "\<forall>e \<in> set x. eTeamID e = team" "distinct (map eID x)" "eID ` set x \<inter> eID ` set a = {}"
    using assms(1) unfolding own_rows_def by blast
  obtain g y where g: "c = map g b @ y" "\<forall>e. eID (g e) = eID e \<and> eTeamID (g e) = eTeamID e" "\<forall>e \<in> set b. eTeamID e \<noteq> team \<longrightarrow> g e = e"
      "\<forall>e \<in> set y. eTeamID e = team" "distinct (map eID y)" "eID ` set y \<inter> eID ` set b = {}"
    using assms(2) unfolding own_rows_def by blast
  have ids: "eID ` set b = eID ` set a \<union> eID ` set x" using f(1,2) by (simp add: image_Un image_image)
  have mid: "map eID (map g x @ y) = map eID x @ map eID y" using g(2) by simp
  have "distinct (map eID (map g x @ y))" unfolding mid using f(5) g(5,6) ids by auto
  moreover have "eID ` set (map g x @ y) \<inter> eID ` set a = {}" using f(6) g(2,6) ids by (auto simp: image_iff)
  moreover have "\<forall>e \<in> set a. eTeamID e \<noteq> team \<longrightarrow> (g \<circ> f) e = e" using f(1,2,3) g(3) by force
  ultimately show ?thesis
    using f g unfolding own_rows_def by (intro exI [of _ "g \<circ> f"] exI [of _ "map g x @ y"]) auto
qed

lemma own_rows_append: "eTeamID e = team \<Longrightarrow> eID e \<notin> eID ` set rows \<Longrightarrow> own_rows team rows (rows @ [e])"
  unfolding own_rows_def by (intro exI [of _ id] exI [of _ "[e]"]) simp

lemma own_rows_update:
  assumes "\<And>e. eID (f e) = eID e \<and> eTeamID (f e) = eTeamID e" and "\<forall>e \<in> set rows. p e \<longrightarrow> eTeamID e = team"
  shows "own_rows team rows (sql_update p f rows)"
  using assms unfolding own_rows_def sql_update_def by (intro exI [of _ "\<lambda>r. if p r then f r else r"] exI [of _ "[]"]) auto

lemma own_rows_owned: "own_rows team a b \<Longrightarrow> owned team i a \<Longrightarrow> owned team i b"
  by (auto simp: own_rows_def owned_def)

lemma own_rows_keyed: "own_rows team a b \<Longrightarrow> keyed eID a \<Longrightarrow> keyed eID b"
proof -
  assume "own_rows team a b" "keyed eID a"
  then obtain f x where "b = map f a @ x" "map eID (map f a) = map eID a" "distinct (map eID x)" "eID ` set x \<inter> eID ` set a = {}" "distinct (map eID a)"
    unfolding own_rows_def keyed_def by fastforce
  then have "map eID b = map eID a @ map eID x" by simp
  with \<open>distinct (map eID x)\<close> \<open>distinct (map eID a)\<close> \<open>eID ` set x \<inter> eID ` set a = {}\<close> show ?thesis unfolding keyed_def by auto
qed

lemma own_rows_others: "own_rows team a b \<Longrightarrow> t \<noteq> team \<Longrightarrow> filter (\<lambda>e. eTeamID e = t) b = filter (\<lambda>e. eTeamID e = t) a"
proof -
  assume "own_rows team a b" "t \<noteq> team"
  then obtain f x where f: "b = map f a @ x" "\<forall>e. eID (f e) = eID e \<and> eTeamID (f e) = eTeamID e"
      "\<forall>e \<in> set a. eTeamID e \<noteq> team \<longrightarrow> f e = e" "\<forall>e \<in> set x. eTeamID e = team"
    unfolding own_rows_def by blast
  have "filter (\<lambda>e. eTeamID e = t) x = []" using f(4) \<open>t \<noteq> team\<close> by (auto simp: filter_empty_conv)
  moreover have "filter (\<lambda>e. eTeamID e = t) (map f a) = map f (filter (\<lambda>e. eTeamID e = t) a)" using f(2) by (simp add: filter_map o_def)
  moreover have "map f (filter (\<lambda>e. eTeamID e = t) a) = filter (\<lambda>e. eTeamID e = t) a" using f(3) \<open>t \<noteq> team\<close> by (intro map_idI) auto
  ultimately show ?thesis using f(1) by simp
qed

lemma found_owned:
  assumes "keyed eID (emails d)" and "GetByIDForTeam team i d = Inr e"
  shows "owned team i (emails d)"
proof -
  have "e \<in> set (emails d)" "eID e = i" "eTeamID e = team" using assms(2) by (auto simp: GetByIDForTeam_def find_Some_iff split: option.splits)
  then show ?thesis using assms(1) unfolding owned_def keyed_def by (metis distinct_map inj_onD)
qed

text \<open>The services, one after the other.\<close>

abbreviation own :: "uuid \<Rightarrow> service \<Rightarrow> service \<Rightarrow> bool" where
  "own team s s' \<equiv> own_rows team (emails (sdb s)) (emails (sdb s'))"

lemma db_step_own: "own_rows team (emails (sdb s)) (emails (fst (f (sdb s)))) \<Longrightarrow> own team s (fst (db_step env st f s))"
  using run_call_state [of "seFault env st" f "sdb s"] by (auto simp: db_step_def split: prod.splits)

lemma op_db_own: "own_rows team (emails (sdb s)) (emails (fst (f (sdb s)))) \<Longrightarrow> own team s (fst (op_db env st f s))"
  using op_db_state(2) [of env st f s] by auto

lemma UpdateStatus_own: "owned team i (emails d) \<Longrightarrow> own_rows team (emails d) (emails (fst (UpdateStatus now i st d)))"
  by (auto simp: UpdateStatus_def UpdateStatus_set_def owned_def intro!: own_rows_update)

lemma AddEvent_emails: "emails (fst (AddEvent ev d)) = emails d"
  by (simp add: AddEvent_def)

lemma commit_send_own:
  assumes "commit_send env team req headers key h reserved s = (s', x)"
  shows "own team s s'"
proof -
  let ?e = "new_email env team req headers key h"
  let ?c = "db_step env SeCreate (EmailRepo_Create (seNow env) ?e) s"
  obtain s1 a where c: "?c = (s1, a)" by (cases ?c)
  obtain s2 b where q: "enqueue_email env ?e s1 = (s2, b)" by (cases "enqueue_email env ?e s1")
  let ?u = "db_step env SeStatus (UpdateStatus (seNow env) (eID ?e) EmailStatusFailed) s2"
  have row: "eTeamID (new_row now ?e) = team" "eID (new_row now ?e) = eID ?e" for now
    by (simp_all add: new_row_def new_email_def blank_email_def)
  have one: "own team s s1"
  proof -
    have "own_rows team (emails (sdb s)) (emails (fst (EmailRepo_Create (seNow env) ?e (sdb s))))"
      using row by (auto simp: EmailRepo_Create_def insert_conflict_def intro!: own_rows_append)
    from db_step_own [of team s "EmailRepo_Create (seNow env) ?e" env SeCreate, OF this] c show ?thesis by simp
  qed
  have two: "sdb s2 = sdb s1" using enqueue_email_frame [OF q] by simp
  have three: "own team s (fst ?u)" if "a = Inr v" for v
  proof -
    have "EmailRepo_Create (seNow env) ?e (sdb s) = (sdb s1, Inr v)" using c that by (auto intro: db_step_Inr)
    from create_appends [OF this] have "owned team (eID ?e) (emails (sdb s2))"
      using row two by (auto simp: owned_def insert_conflict_def)
    then have "own team s2 (fst ?u)" by (intro db_step_own UpdateStatus_own)
    with own_rows_trans [OF one] two show ?thesis by simp
  qed
  have "sdb s' = sdb s2 \<or> sdb s' = sdb s1 \<or>
      (\<exists>v. a = Inr v) \<and> sdb s' = sdb (log_event env (eID ?e) ''email.failed'' queue_unavailable (fst ?u))"
    using assms c q by (auto simp: commit_send_def Let_def release_quota_def split: sum.splits idem_answer.splits if_splits)
  then show ?thesis using one two three by (auto simp: log_event_emails)
qed

lemma send_own: "send env team (Some req) key s = (s', x) \<Longrightarrow> own team s s'"
proof (erule send_cases)
  fix er req1 r headers
  assume "reserve_quota env team (int (recipient_count r)) s = (s', Inl er)"
  then show ?thesis using reserve_quota_frame by (metis own_rows_refl)
next
  fix req1 r headers reserved s1
  assume "reserve_quota env team (int (recipient_count r)) s = (s1, Inr reserved)"
    and "commit_send env team r headers key (seHash env req1) reserved s1 = (s', x)"
  then show ?thesis using commit_send_own reserve_quota_frame by metis
qed simp_all

lemma send_items_own: "send_items envs team keys n reqs s = (s', rs, f) \<Longrightarrow> own team s s'"
proof (induction reqs arbitrary: n s rs)
  case (Cons req reqs)
  show ?case
  proof (cases "SendWithIdempotency (envs n) team req (keys n) s")
    case (Pair s1 x)
    have one: "own team s s1" using Pair send_own by (cases req) (auto simp: SendWithIdempotency_def own_rows_refl)
    show ?thesis
    proof (cases x)
      case (Inl er)
      with Cons.prems Pair one show ?thesis by simp
    next
      case (Inr y)
      obtain s2 rs' f' where r: "send_items envs team keys (Suc n) reqs s1 = (s2, rs', f')" by (cases "send_items envs team keys (Suc n) reqs s1")
      with Cons.prems Pair Inr have "s' = s2" "f = f'" by (auto split: prod.splits)
      with Cons.IH [of "Suc n" s1 rs'] r one show ?thesis by (auto intro: own_rows_trans)
    qed
  qed
qed simp

lemma BatchSend_own: "BatchSend envs repo team reqs key s = (s', rs, f) \<Longrightarrow> own team s s'"
proof -
  assume b: "BatchSend envs repo team reqs key s = (s', rs, f)"
  have e: "emails (sdb (fst (Ensure env team k h s))) = emails (sdb s)" for env k h
    using run_call_state [of "seFault env SeBatch" "batch_insert team k h" s]
    by (auto simp: Ensure_def batch_insert_def split: prod.splits sum.splits option.splits)
  show ?thesis
  proof (cases "s' = s \<or> (\<exists>k. s' = fst (Ensure (envs 0) team k (seBatchHash (envs 0) reqs) s))")
    case True
    with e show ?thesis by auto
  next
    case False
    with b obtain s1 keys where "send_items envs team keys 0 reqs s1 = (s', rs, f)" "emails (sdb s1) = emails (sdb s)"
      using e by (auto simp: BatchSend_def Let_def split: if_splits prod.splits sum.splits batch_error.splits) (metis fst_conv)+
    with send_items_own show ?thesis by metis
  qed
qed

lemma Cancel_own: "Cancel env team i s = (s', r) \<Longrightarrow> own team s s'"
proof -
  assume "Cancel env team i s = (s', r)"
  then have "s' = s \<or> s' = fst (op_db env OsCancel (CancelQueued team i) s)"
    by (auto simp: Cancel_def split: sum.splits if_splits prod.splits bool.splits)
  moreover have "own team s (fst (op_db env OsCancel (CancelQueued team i) s))"
    by (intro op_db_own) (auto simp: CancelQueued_def row_defs intro!: own_rows_update)
  ultimately show ?thesis by auto
qed

lemma record_work_emails: "record_work now ev ob d = Inr d' \<Longrightarrow> emails d' = emails d"
  by (auto simp: record_work_def insertEmailEvent_def insertOutbox_def Let_def split: option.splits if_splits sum.splits)

lemma ReconcileAmbiguous_own:
  assumes "owned team i (emails d)"
  shows "own_rows team (emails d) (emails (fst (ReconcileAmbiguous now team i act given ev ob d)))"
  using assms
  by (auto simp: ReconcileAmbiguous_def Let_def owned_def Reconcile_accept_def Reconcile_fail_def
      split: option.splits sum.splits intro!: own_rows_update dest!: record_work_emails)

lemma service_Reconcile_own:
  assumes "service_ReconcileAmbiguous env team i action given s = (s', r)" and "keyed eID (emails (sdb s))"
  shows "own team s s'"
proof (cases "s' = s")
  case False
  obtain act ev ob email where s': "s' = fst (op_db env OsReconcile (ReconcileAmbiguous (opNow env OsReconcile) team i act given (Some ev) (Some ob)) s)"
      and email: "op_read env OsGet (GetByIDForTeam team i) s = Inr email"
    using assms(1) False
    by (auto simp: service_ReconcileAmbiguous_def Let_def split: sum.splits if_splits prod.splits bool.splits option.splits) (metis fst_conv)+
  have "owned team i (emails (sdb s))" using found_owned [OF assms(2) op_read_Inr [OF email]] .
  then show ?thesis by (simp add: s' op_db_own ReconcileAmbiguous_own)
qed simp

lemma prepare_own:
  assumes "owned team i (emails (sdb s))" and "prepare_replay env team i s = (s', r)"
  shows "own team s s'"
proof -
  have "own team s (fst (op_db env OsPrepare (PrepareDeadLetterReplay team i (opToken env)) s))"
    by (intro op_db_own) (auto simp: PrepareDeadLetterReplay_def row_defs intro!: own_rows_update)
  moreover have "own team s (fst (op_db env OsPrepare (UpdateStatus (opNow env OsPrepare) i EmailStatusQueued) s))"
    using assms(1) by (intro op_db_own UpdateStatus_own)
  ultimately show ?thesis using assms(2)
    by (auto simp: prepare_replay_def split: if_splits prod.splits sum.splits bool.splits)
qed

lemma rollback_own:
  assumes "owned team i (emails (sdb s))" and "rollback_replay env i er s = (s', r)"
  shows "own team s s'"
proof -
  have "own team s (fst (op_db env OsRollback (CancelDeadLetterReplay i (opToken env)) s))"
    using assms(1) by (intro op_db_own) (auto simp: CancelDeadLetterReplay_def row_defs owned_def intro!: own_rows_update)
  moreover have "own team s (fst (op_db env OsRollback (UpdateStatus (opNow env OsRollback) i EmailStatusFailed) s))"
    using assms(1) by (intro op_db_own UpdateStatus_own)
  ultimately show ?thesis using assms(2)
    by (auto simp: rollback_replay_def split: if_splits prod.splits sum.splits bool.splits)
qed

lemma op_event_emails: "emails (sdb (op_event env i name data s)) = emails (sdb s)"
  using op_db_state(2) [of env OsEvent "AddEvent \<lparr>evID = opEventID env, evEmailID = i, evEvent = name,
       evData = (case opMarshalData env data of Some j \<Rightarrow> j | None \<Rightarrow> ''null'')\<rparr>" s]
  by (auto simp: op_event_def AddEvent_emails)

lemma ReplayDeadLetter_own:
  assumes "ReplayDeadLetter env team i s = (s', r)" and "keyed eID (emails (sdb s))"
  shows "own team s s'"
proof (cases "op_read env OsGet (GetByIDForTeam team i) s")
  case (Inr email)
  have ow: "owned team i (emails (sdb s))" using found_owned [OF assms(2) op_read_Inr [OF Inr]] .
  obtain s1 a where p: "prepare_replay env team i s = (s1, a)" by (cases "prepare_replay env team i s")
  obtain s2 b where q: "op_queue env OsReplay (ReplayDead (opIDText env i)) s1 = (s2, b)"
    by (cases "op_queue env OsReplay (ReplayDead (opIDText env i)) s1")
  have one: "own team s s1" using prepare_own [OF ow p] .
  have two: "sdb s2 = sdb s1" using op_queue_state(1) [of env OsReplay "ReplayDead (opIDText env i)" s1] q by simp
  have undo: "own team s (fst (rollback_replay env i er s2))" for er
    using rollback_own [of team i s2 env er] own_rows_owned [OF one ow] own_rows_trans [OF one] two by (metis prod.collapse)
  show ?thesis
    using assms(1) Inr p q one two undo
    by (auto simp: ReplayDeadLetter_def op_event_emails split: if_splits sum.splits prod.splits) (metis fst_conv)
qed (use assms(1) in \<open>simp add: ReplayDeadLetter_def\<close>)

text \<open>Who acts for a team: a caller that may send for it or manages it.\<close>

definition acts :: "mail_env \<Rightarrow> Claims option \<Rightarrow> uuid \<Rightarrow> bool" where
  "acts env c team \<longleftrightarrow> permitted (mlAccess env) ''send'' c team \<or> manager (mlAccess env) c team"

definition mail_effect :: "mail_env \<Rightarrow> Claims option \<Rightarrow> service \<Rightarrow> service \<Rightarrow> bool" where
  "mail_effect env c s s' \<longleftrightarrow> s' = s \<or> (\<exists>team. acts env c team \<and> own team s s')"

lemma mail_effect_refl [simp, intro]: "mail_effect env c s s"
  by (simp add: mail_effect_def)

lemma mail_effectI: "acts env c team \<Longrightarrow> own team s s' \<Longrightarrow> mail_effect env c s s'"
  by (auto simp: mail_effect_def)

lemma with_body_keeps:
  "P s s \<Longrightarrow> (\<And>b. guard = None \<Longrightarrow> body = Some b \<Longrightarrow> P s (fst (k b s))) \<Longrightarrow> P s (fst (with_body guard body k s))"
  by (auto simp: with_body_def split: option.splits)

lemma sender_acts: "requirePermission c ''send'' = None \<Longrightarrow> getTeamID (mlAccess env) c = Inr team \<Longrightarrow> acts env c team"
  by (simp add: acts_def permitted_def)

lemma manager_acts: "requireRoles c [''owner'', ''admin''] = None \<Longrightarrow> getTeamID (mlAccess env) c = Inr team \<Longrightarrow> acts env c team"
  by (simp add: acts_def manager_def)

lemmas handler_keeps = for_team_keeps [where P = "mail_effect env c" for env c] with_id_keeps [where P = "mail_effect env c" for env c]
  with_body_keeps [where P = "mail_effect env c" for env c]

lemma exec_m_effect:
  assumes "keyed eID (emails (sdb s))"
  shows "mail_effect env c s (exec_m env c x s)"
proof (cases x)
  case (MSend body key)
  show ?thesis unfolding MSend exec_m.simps EmailHandler_Send_def
    by (intro handler_keeps mail_effect_refl, rule mail_effectI, rule sender_acts, assumption+)
      (auto simp: SendWithIdempotency_def split: prod.splits sum.splits dest: send_own)
next
  case (MBatch body key)
  show ?thesis unfolding MBatch exec_m.simps EmailHandler_BatchSend_def
    apply (intro handler_keeps mail_effect_refl)
    apply (simp only: if_distrib [of fst] fst_conv split: if_splits)
    apply (intro conjI impI mail_effect_refl handler_keeps, rule mail_effectI, rule sender_acts, assumption+)
    by (auto split: prod.splits option.splits dest: BatchSend_own)
next
  case (MReconcile i body)
  show ?thesis unfolding MReconcile exec_m.simps EmailHandler_ReconcileAmbiguous_def
    by (intro handler_keeps mail_effect_refl, rule mail_effectI, rule manager_acts, assumption+)
      (auto split: prod.splits sum.splits intro: service_Reconcile_own [OF surjective_pairing assms])
next
  case (MCancel i)
  show ?thesis unfolding MCancel exec_m.simps EmailHandler_Cancel_def
    by (intro handler_keeps mail_effect_refl, rule mail_effectI, rule sender_acts, assumption+)
      (auto split: prod.splits sum.splits intro: Cancel_own [OF surjective_pairing])
next
  case (MReplay i)
  show ?thesis unfolding MReplay exec_m.simps EmailHandler_ReplayDeadLetter_def
    by (intro handler_keeps mail_effect_refl, rule mail_effectI, rule manager_acts, assumption+)
      (auto split: prod.splits sum.splits intro: ReplayDeadLetter_own [OF surjective_pairing assms])
qed (auto simp: EmailHandler_List_def EmailHandler_GetByID_def EmailHandler_GetEvents_def EmailHandler_ListDeadLetters_def
  for_team_def with_id_def mail_effect_def split: option.splits sum.splits)

lemma run_m_fold: "run_m steps = fold (\<lambda>(env, c, x). exec_m env c x) steps"
  by (rule ext) (induction steps rule: list.induct, auto)

interpretation mail: team_requests "\<lambda>(env, c, x). exec_m env c x" "\<lambda>_. True" "\<lambda>s. keyed eID (emails (sdb s))"
  "\<lambda>r. acts (fst r) (fst (snd r))" "\<lambda>team s. filter (\<lambda>e. eTeamID e = team) (emails (sdb s))"
proof unfold_locales
  fix s :: service and r :: "mail_env \<times> Claims option \<times> mail_op"
  assume k: "keyed eID (emails (sdb s))"
  obtain env c x where r: "r = (env, c, x)" by (cases r)
  have reach: "exec_m env c x s = s \<or> (\<exists>t. acts env c t \<and> own t s (exec_m env c x s))"
    using exec_m_effect [OF k, of env c x] unfolding mail_effect_def by blast
  then show "keyed eID (emails (sdb ((\<lambda>(env, c, x). exec_m env c x) r s)))"
    using k own_rows_keyed by (auto simp: r)
  fix team
  assume "\<not> acts (fst r) (fst (snd r)) team"
  then show "filter (\<lambda>e. eTeamID e = team) (emails (sdb ((\<lambda>(env, c, x). exec_m env c x) r s))) = filter (\<lambda>e. eTeamID e = team) (emails (sdb s))"
    using reach own_rows_others [of _ _ _ team] by (auto simp: r)
qed

text \<open>C13: Requests for messages are isolated. Through every sequence of requests, whatever calls fail, the messages of a team
  are the same when none of the callers may send for it or manages it, and message ids stay unique.\<close>

theorem mail_requests_isolated:
  assumes "keyed eID (emails (sdb s))" and "\<forall>(env, c, x) \<in> set steps. \<not> acts env c team"
  shows "filter (\<lambda>e. eTeamID e = team) (emails (sdb (run_m steps s))) = filter (\<lambda>e. eTeamID e = team) (emails (sdb s)) \<and>
    keyed eID (emails (sdb (run_m steps s)))"
  using mail.run_apart [of s steps team] mail.run_keeps [of s steps] assms
  by (auto simp: run_m_fold list_all_iff case_prod_beta)

section \<open>What a status says\<close>

lemma run_call_read: "snd (run_call x (\<lambda>d. (d, g d)) d) = Inr a \<Longrightarrow> g d = Inr a"
  by (cases x) auto

lemma commit_send_refused:
  assumes "commit_send env team req headers key h reserved s = (s', Inl ErrIdempotencyConflict)"
  shows "sdb s' = sdb s \<and> squeue s' = squeue s"
proof -
  let ?e = "new_email env team req headers key h"
  let ?c = "db_step env SeCreate (EmailRepo_Create (seNow env) ?e) s"
  obtain s1 a where c: "?c = (s1, a)" by (cases ?c)
  have lost: "\<exists>er x. a = Inl er \<and> key \<noteq> [] \<and> GetByIdempotencyKey team key (sdb s1) = Inr x \<and> eIdempotencyHash x \<noteq> Some h \<and>
      sdb s' = sdb s1 \<and> squeue s' = squeue s1"
    using assms c
    by (auto simp: commit_send_def Let_def compare_hash_def release_quota_def split: sum.splits if_splits prod.splits dest!: run_call_read)
  have "sdb s1 = sdb s \<or> sdb s1 = (sdb s)\<lparr>emails := emails (sdb s) @ [new_row (seNow env) ?e]\<rparr> \<and> \<not> insert_conflict ?e (emails (sdb s))"
    using c run_call_state [of "seFault env SeCreate" "EmailRepo_Create (seNow env) ?e" "sdb s"]
    by (auto simp: db_step_def EmailRepo_Create_def split: prod.splits if_splits)
  moreover have False if app: "sdb s1 = (sdb s)\<lparr>emails := emails (sdb s) @ [new_row (seNow env) ?e]\<rparr>" "\<not> insert_conflict ?e (emails (sdb s))"
  proof -
    have f: "eTeamID ?e = team" "eIdempotencyKey ?e = Some key" "eIdempotencyHash (new_row (seNow env) ?e) = Some h"
      using lost by (simp_all add: new_email_def blank_email_def new_row_def)
    have "GetByIdempotencyKey (eTeamID ?e) key (sdb s1) = Inr (new_row (seNow env) ?e)"
      by (rule lookup_key [OF app(2) f(2)]) (use app(1) f in \<open>simp_all add: new_row_def\<close>)
    with lost f show False by auto
  qed
  ultimately show ?thesis using lost db_step_frame [OF c] by auto
qed

lemma commit_send_queue:
  assumes "commit_send env team req headers key h reserved s = (s', x)" and "\<And>r. x \<noteq> Inr (r, True)" and "x \<noteq> Inl ErrQueueUnavailable"
  shows "squeue s' = squeue s"
proof -
  let ?c = "db_step env SeCreate (EmailRepo_Create (seNow env) (new_email env team req headers key h)) s"
  obtain s1 a where c: "?c = (s1, a)" by (cases ?c)
  have "\<exists>er. a = Inl er" using assms c by (auto simp: commit_send_def Let_def split: sum.splits prod.splits)
  then have "squeue s' = squeue s1" using assms(1) c by (auto simp: commit_send_def Let_def release_quota_def split: sum.splits)
  then show ?thesis using db_step_frame [OF c] by simp
qed

lemma send_queue:
  assumes "send env team (Some req) key s = (s', x)" and "\<And>r. x \<noteq> Inr (r, True)" and "x \<noteq> Inl ErrQueueUnavailable"
  shows "squeue s' = squeue s"
  using assms(1)
proof (cases rule: send_cases)
  case (quota er req1 r headers)
  then show ?thesis using reserve_quota_frame by blast
next
  case (commit req1 r headers reserved s1)
  then show ?thesis using commit_send_queue [OF commit(3) assms(2,3)] reserve_quota_frame [OF commit(2)] by simp
qed simp_all

lemma send_refused:
  assumes "send env team (Some req) key s = (s', Inl e)" and "e \<in> {ErrIdempotencyConflict, ErrDailyRecipientLimit}"
  shows "sdb s' = sdb s"
  using assms(1)
proof (cases rule: send_cases)
  case (quota er req1 r headers)
  then show ?thesis using reserve_quota_frame by blast
next
  case (commit req1 r headers reserved s1)
  with assms(2) commit_send_error [OF commit(3)] have "e = ErrIdempotencyConflict" by auto
  with commit_send_refused commit(3) reserve_quota_frame [OF commit(2)] show ?thesis by metis
qed simp_all

lemma send_accepted_row:
  assumes "send env team (Some req) key s = (s', Inr (r, True))"
  shows "\<exists>e. sdb s' = (sdb s)\<lparr>emails := emails (sdb s) @ [e]\<rparr> \<and> eID e = respID r \<and> eTeamID e = team \<and> eStatus e = EmailStatusQueued \<and>
    seIDText env (respID r) \<in> jobs (squeue s')"
  using assms
proof (cases rule: send_cases)
  case (commit req1 r' headers reserved s1)
  let ?e = "new_row (seNow env) (new_email env team r' headers key (seHash env req1))"
  have "eID ?e = seID env" "eTeamID ?e = team" "eStatus ?e = EmailStatusQueued" by (simp_all add: new_row_def new_email_def blank_email_def)
  then show ?thesis using commit_send_new [OF commit(3)] reserve_quota_frame [OF commit(2)] by (intro exI [of _ ?e]) simp
qed simp_all

text \<open>A replay is only answered for a key.\<close>

lemma send_replay_key: "send env team (Some req) key s = (s', Inr (r, False)) \<Longrightarrow> key \<noteq> []"
  by (erule send_cases) (auto simp: check_idempotency_def commit_send_def Let_def split: if_splits sum.splits prod.splits)

lemma send_replay_row:
  assumes "send env team (Some req) key s = (s', Inr (r, False))"
  shows "\<exists>e \<in> set (emails (sdb s')). eID e = respID r \<and> eTeamID e = team \<and> eIdempotencyHash e \<noteq> None"
proof -
  obtain req1 e where e: "GetByIdempotencyKey team key (sdb s') = Inr e" "eID e = respID r" "eIdempotencyHash e = Some (seHash env req1)"
    using send_settled [OF assms send_replay_key [OF assms]] by blast
  then have "e \<in> set (emails (sdb s'))" "eTeamID e = team"
    by (auto simp: GetByIdempotencyKey_def GetByIDForTeam_def find_Some_iff split: option.splits)
  with e show ?thesis by auto
qed

lemma guard_codes:
  "requirePermission c p = Some r \<Longrightarrow> fst r \<in> {401, 403}" "getTeamID env c = Inl r \<Longrightarrow> fst r \<in> {400, 401}"
  by (auto simp: requirePermission_def getTeamID_def writeError_def split: option.splits if_splits)

lemma EmailHandler_Send_cases:
  assumes "EmailHandler_Send env c body key s = (s', r)"
  obtains (refused) code m where "s' = s" "r = Inl (code, m)" "code \<in> {400, 401, 403}"
  | (error) team req e where "permitted (mlAccess env) ''send'' c team" "send (mlSend env 0) team (Some req) (TrimSpace key) s = (s', Inl e)"
      "r = Inl (writeError (mlSendText env e) (send_status e))"
  | (answered) team req x created where "permitted (mlAccess env) ''send'' c team"
      "send (mlSend env 0) team (Some req) (TrimSpace key) s = (s', Inr (x, created))" "r = Inr (if created then 201 else 200, x)"
proof (cases "requirePermission c ''send''")
  case (Some e)
  with assms guard_codes(1) [OF Some] show ?thesis by (intro refused [of "fst e" "snd e"]) (auto simp: EmailHandler_Send_def with_body_def)
next
  case guard: None
  show ?thesis
  proof (cases body)
    case None
    with assms guard show ?thesis by (auto simp: EmailHandler_Send_def with_body_def writeError_def intro: refused)
  next
    case (Some req)
    show ?thesis
    proof (cases "getTeamID (mlAccess env) c")
      case (Inl e)
      with assms guard Some guard_codes(2) [OF Inl] show ?thesis
        by (intro refused [of "fst e" "snd e"]) (auto simp: EmailHandler_Send_def with_body_def for_team_def)
    next
      case (Inr team)
      then have p: "permitted (mlAccess env) ''send'' c team" using guard by (simp add: permitted_def)
      obtain s1 x where x: "send (mlSend env 0) team (Some req) (TrimSpace key) s = (s1, x)"
        by (cases "send (mlSend env 0) team (Some req) (TrimSpace key) s")
      with assms guard Some Inr p error [of team req] answered [of team req] show ?thesis
        by (cases x) (auto simp: EmailHandler_Send_def with_body_def for_team_def SendWithIdempotency_def)
    qed
  qed
qed

lemma send_status_iff:
  "send_status e = 409 \<longleftrightarrow> e = ErrIdempotencyConflict" "send_status e = 429 \<longleftrightarrow> e = ErrDailyRecipientLimit"
  "send_status e = 503 \<longleftrightarrow> e \<in> {ErrQueueUnavailable, ErrUsageUnavailable}" "send_status e \<in> {400, 409, 429, 503}"
  by (cases e; simp add: send_status_def)+

text \<open>C11: The status of a send tells the truth, whatever calls fail. 201: the caller may send for its team and exactly one
  queued message of that team was stored, with its id in the queue. 200: nothing was queued, and the answer is the id of a message of
  the team that was stored under an idempotency key. Every other status is one of six; 401, 403, 409 and 429 store and queue nothing,
  and only a 503 may leave something in the queue.\<close>

theorem send_status_truthful:
  assumes "EmailHandler_Send env c body key s = (s', r)"
  shows "(\<forall>x. r = Inr (201, x) \<longrightarrow> (\<exists>team e. permitted (mlAccess env) ''send'' c team \<and> sdb s' = (sdb s)\<lparr>emails := emails (sdb s) @ [e]\<rparr> \<and>
      eID e = respID x \<and> eTeamID e = team \<and> eStatus e = EmailStatusQueued \<and> seIDText (mlSend env 0) (respID x) \<in> jobs (squeue s'))) \<and>
    (\<forall>x. r = Inr (200, x) \<longrightarrow> squeue s' = squeue s \<and> (\<exists>team. permitted (mlAccess env) ''send'' c team \<and>
      (\<exists>e \<in> set (emails (sdb s')). eID e = respID x \<and> eTeamID e = team \<and> eIdempotencyHash e \<noteq> None))) \<and>
    (\<forall>n x. r = Inr (n, x) \<longrightarrow> n = 200 \<or> n = 201) \<and>
    (\<forall>n m. r = Inl (n, m) \<longrightarrow> n \<in> {400, 401, 403, 409, 429, 503} \<and> (n \<noteq> 503 \<longrightarrow> squeue s' = squeue s) \<and>
      (n \<in> {401, 403, 409, 429} \<longrightarrow> sdb s' = sdb s))"
  using assms
proof (cases rule: EmailHandler_Send_cases)
  case (error team req e)
  have "squeue s' = squeue s" if "send_status e \<noteq> 503"
    using send_queue [OF error(2)] that by (auto simp: send_status_iff)
  moreover have "sdb s' = sdb s" if "send_status e \<in> {401, 403, 409, 429}"
    using send_refused [OF error(2)] that by (cases e) (simp_all add: send_status_def)
  ultimately show ?thesis using error(3) send_status_iff(4) [of e] by (auto simp: writeError_def)
next
  case (answered team req x created)
  show ?thesis
  proof (cases created)
    case True
    with answered send_accepted_row [of "mlSend env 0" team req "TrimSpace key" s s' x] show ?thesis by auto
  next
    case False
    with answered have run: "send (mlSend env 0) team (Some req) (TrimSpace key) s = (s', Inr (x, False))" by simp
    show ?thesis using send_replay_row [OF run] send_queue [OF run] answered(1,3) False by auto
  qed
qed auto

section \<open>A lost acknowledgement\<close>

text \<open>The same deployment when the insert takes effect and its acknowledgement is lost, and the look-up that follows works.\<close>

definition lost_ack :: "send_env \<Rightarrow> send_env" where
  "lost_ack env = env\<lparr>seFault := (seFault env)(SeCreate := FailApplied, SeIdempotency2 := NoFault)\<rparr>"

lemma lost_ack_simps [simp]:
  "seFault (lost_ack env) st = (if st = SeIdempotency2 then NoFault else if st = SeCreate then FailApplied else seFault env st)"
  "seNow (lost_ack env) = seNow env" "seReserveNow (lost_ack env) = seReserveNow env" "seReservationAt (lost_ack env) = seReservationAt env"
  "seReleaseNow (lost_ack env) = seReleaseNow env" "seID (lost_ack env) = seID env" "seHash (lost_ack env) = seHash env" "seLanding (lost_ack env) = seLanding env"
  "seDomainRepo (lost_ack env) = seDomainRepo env" "seUnsubscribe (lost_ack env) = seUnsubscribe env" "seSuppressionRepo (lost_ack env) = seSuppressionRepo env"
  "seContactRepo (lost_ack env) = seContactRepo env" "seUsageLimiter (lost_ack env) = seUsageLimiter env" "seDailyLimit (lost_ack env) = seDailyLimit env"
  "seTeamRepo (lost_ack env) = seTeamRepo env" "sePlanLimits (lost_ack env) = sePlanLimits env"
  by (simp_all add: lost_ack_def)

lemma lost_ack_parts:
  "from_domain (lost_ack env) = from_domain env" "validate_head (lost_ack env) = validate_head env"
  "check_idempotency (lost_ack env) = check_idempotency env" "marketing_headers (lost_ack env) = marketing_headers env"
  "recipientLimit (lost_ack env) = recipientLimit env"
proof -
  show dom: "from_domain (lost_ack env) = from_domain env" by (intro ext) (simp add: from_domain_def)
  show "validate_head (lost_ack env) = validate_head env" by (intro ext) (simp only: validate_head_def dom lost_ack_simps)
  show "check_idempotency (lost_ack env) = check_idempotency env"
    by (intro ext) (simp only: check_idempotency_def lost_ack_simps send_site.distinct if_False)
  show "marketing_headers (lost_ack env) = marketing_headers env" by (intro ext) (simp only: marketing_headers_def lost_ack_simps)
  show "recipientLimit (lost_ack env) = recipientLimit env" by (intro ext) (simp only: recipientLimit_def lost_ack_simps send_site.distinct if_False)
qed

lemma lost_ack_same:
  "admitted (lost_ack env) team req0 key s req1 req headers \<longleftrightarrow> admitted env team req0 key s req1 req headers"
  "reserve_quota (lost_ack env) team n s = reserve_quota env team n s"
  by (simp add: admitted_def lost_ack_parts) (simp only: reserve_quota_def lost_ack_parts lost_ack_simps send_site.distinct if_False)

lemma send_admitted:
  assumes "admitted env team req0 key s req1 req headers" and "reserve_quota env team (int (recipient_count req)) s = (s1, Inr reserved)"
  shows "send env team (Some req0) key s = commit_send env team req headers key (seHash env req1) reserved s1"
proof -
  obtain recipients where "normalizeRecipients req1 = (req, recipients)" using assms(1) by (cases "normalizeRecipients req1") (simp add: admitted_def)
  with assms show ?thesis by (simp add: send_def admitted_def)
qed

lemma commit_lost_ack:
  assumes "commit_send env team req headers key h reserved s = (s', Inr (r, True))" and "key \<noteq> []"
  shows "\<exists>s''. commit_send (lost_ack env) team req headers key h reserved s = (s'', Inr (\<lparr>respID = respID r, respIdempotent = True\<rparr>, False)) \<and>
    sdb s'' = sdb s' \<and> squeue s'' = squeue s"
proof -
  let ?e = "new_email env team req headers key h"
  let ?d = "(sdb s)\<lparr>emails := emails (sdb s) @ [new_row (seNow env) ?e]\<rparr>"
  note new = commit_send_new [OF assms(1)]
  have e: "new_email (lost_ack env) team req headers key h = ?e" by (simp add: new_email_def)
  have c: "EmailRepo_Create (seNow env) ?e (sdb s) = (?d, Inr ())" using new by (simp add: EmailRepo_Create_def)
  have f: "eTeamID ?e = team" "eIdempotencyKey ?e = Some key" "eID ?e = seID env" using assms(2) by (simp_all add: new_email_def blank_email_def)
  have "GetByIdempotencyKey (eTeamID ?e) key ?d = Inr (new_row (seNow env) ?e)"
    by (rule lookup_key [OF _ f(2)]) (use new f in \<open>simp_all add: new_row_def\<close>)
  moreover have "eID (new_row (seNow env) ?e) = seID env" "eIdempotencyHash (new_row (seNow env) ?e) = Some h"
    using assms(2) by (simp_all add: new_row_def new_email_def blank_email_def)
  ultimately show ?thesis using new assms(2) f
    by (simp add: commit_send_def Let_def db_step_def e c compare_hash_def release_quota_def)
qed

lemma fresh_row_unswept:
  "email_at d i = Some e \<Longrightarrow> eStatus e = EmailStatusQueued \<Longrightarrow> eSendAttemptState e = SendAttemptNone \<Longrightarrow>
   email_at (fst (RecoverExpiredSendAttempts now d)) i = Some e"
  by (simp add: sweep_at recover_leased_where_def recover_started_where_def)

text \<open>C12: A message can be answered for and never be sent. Take a request with an idempotency key that would be accepted with
  201. When only the acknowledgement of its insert is lost, the answer is 200 with the id of the message it just stored: the row is
  queued in the database, the queue is as it was, and the row is not one that recovery puts back into the queue.\<close>

theorem lost_ack_never_queued:
  assumes "EmailHandler_Send env c body key s = (s0, Inr (201, x))" and "TrimSpace key \<noteq> []"
  shows "\<exists>s' e. EmailHandler_Send (env\<lparr>mlSend := (\<lambda>n. lost_ack (mlSend env n))\<rparr>) c body key s =
      (s', Inr (200, \<lparr>respID = respID x, respIdempotent = True\<rparr>)) \<and>
    email_at (sdb s') (respID x) = Some e \<and> eStatus e = EmailStatusQueued \<and> squeue s' = squeue s \<and> \<not> eQueueRecoveryPending e \<and>
    (\<forall>now. email_at (fst (RecoverExpiredSendAttempts now (sdb s'))) (respID x) = Some e)"
proof -
  obtain team req where b: "body = Some req" "requirePermission c ''send'' = None" "getTeamID (mlAccess env) c = Inr team"
      and run: "send (mlSend env 0) team (Some req) (TrimSpace key) s = (s0, Inr (x, True))"
    using assms(1)
    by (auto simp: EmailHandler_Send_def with_body_def for_team_def SendWithIdempotency_def split: option.splits sum.splits prod.splits if_splits)
  from run show ?thesis
  proof (cases rule: send_cases)
    case (commit req1 r headers reserved s1)
    let ?env = "mlSend env 0"
    let ?e = "new_row (seNow ?env) (new_email ?env team r headers (TrimSpace key) (seHash ?env req1))"
    obtain s' where s': "commit_send (lost_ack ?env) team r headers (TrimSpace key) (seHash ?env req1) reserved s1 =
        (s', Inr (\<lparr>respID = respID x, respIdempotent = True\<rparr>, False))" "sdb s' = sdb s0" "squeue s' = squeue s1"
      using commit_lost_ack [OF commit(3) assms(2)] by blast
    have "send (lost_ack ?env) team (Some req) (TrimSpace key) s = (s', Inr (\<lparr>respID = respID x, respIdempotent = True\<rparr>, False))"
      using send_admitted [of "lost_ack ?env" team req "TrimSpace key" s req1 r headers s1 reserved] commit(1,2) s'(1) by (simp add: lost_ack_same)
    then have "EmailHandler_Send (env\<lparr>mlSend := (\<lambda>n. lost_ack (mlSend env n))\<rparr>) c body key s = (s', Inr (200, \<lparr>respID = respID x, respIdempotent = True\<rparr>))"
      using b by (simp add: EmailHandler_Send_def with_body_def for_team_def SendWithIdempotency_def)
    moreover have frame: "sdb s1 = sdb s" "squeue s1 = squeue s" using reserve_quota_frame [OF commit(2)] by auto
    moreover have row: "eStatus ?e = EmailStatusQueued" "eSendAttemptState ?e = SendAttemptNone" "\<not> eQueueRecoveryPending ?e" "eID ?e = seID ?env"
      by (simp_all add: new_row_def new_email_def blank_email_def)
    moreover have "by_key eID (seID ?env) (emails (sdb s)) = None"
      using commit_send_new [OF commit(3)] frame(1) by (auto simp: insert_conflict_def by_key_None_iff new_email_def blank_email_def)
    then have at: "email_at (sdb s') (respID x) = Some ?e"
      using commit_send_new [OF commit(3)] s'(2) frame row(4) by (simp add: email_at_def by_key_append)
    ultimately show ?thesis using s'(3) fresh_row_unswept [OF at row(1,2)] by auto
  qed simp_all
qed

section \<open>Examples\<close>

definition demo_mail :: mail_env where
  "demo_mail = \<lparr>mlAccess = demo_access_env, mlOps = demo_ops, mlSend = (\<lambda>_. demo_send NoFault), mlBatchRepo = False,
     mlSendText = (\<lambda>_. []), mlBatchText = (\<lambda>_. []), mlOpText = (\<lambda>_. [])\<rparr>"

lemma demo_mail_guards: "requirePermission demo_owner ''send'' = None" "getTeamID (mlAccess demo_mail) demo_owner = Inr 9"
  by (simp_all add: demo_owner_guards demo_mail_def)

lemma demo_mail_sent:
  "\<exists>s' x. EmailHandler_Send demo_mail demo_owner (Some demo_request) ''k'' demo_service = (s', Inr (201, x))"
proof -
  obtain s' r where "send (demo_send NoFault) 9 (Some demo_request) ''k'' demo_service = (s', Inr (r, True))" using demo_send_ok by blast
  moreover have "TrimSpace ''k'' = ''k''" "mlSend demo_mail 0 = demo_send NoFault" by (code_simp, simp add: demo_mail_def)
  ultimately show ?thesis
    using demo_mail_guards by (simp add: EmailHandler_Send_def with_body_def for_team_def SendWithIdempotency_def)
qed

theorem send_status_truthful_witness:
  "\<exists>s' x e. EmailHandler_Send demo_mail demo_owner (Some demo_request) ''k'' demo_service = (s', Inr (201, x)) \<and>
     emails (sdb s') = [e] \<and> eID e = respID x \<and> eStatus e = EmailStatusQueued"
proof -
  obtain s' x where run: "EmailHandler_Send demo_mail demo_owner (Some demo_request) ''k'' demo_service = (s', Inr (201, x))"
    using demo_mail_sent by blast
  have "emails (sdb demo_service) = []" by (simp add: demo_service_def empty_db_def)
  then show ?thesis using send_status_truthful [OF run] run by auto
qed

theorem lost_ack_never_queued_witness:
  "\<exists>s' x. EmailHandler_Send (demo_mail\<lparr>mlSend := (\<lambda>n. lost_ack (mlSend demo_mail n))\<rparr>) demo_owner (Some demo_request) ''k'' demo_service =
     (s', Inr (200, x)) \<and> squeue s' = squeue demo_service \<and> email_at (sdb s') (respID x) \<noteq> None"
proof -
  obtain s0 x where run: "EmailHandler_Send demo_mail demo_owner (Some demo_request) ''k'' demo_service = (s0, Inr (201, x))"
    using demo_mail_sent by blast
  have "TrimSpace ''k'' \<noteq> []" by code_simp
  from lost_ack_never_queued [OF run this] show ?thesis by auto
qed

text \<open>The owner of team 9 cancels a message of its team and tries to cancel and to replay one of team 8.\<close>

theorem mail_requests_isolated_witness:
  "let s = demo_rows [blank_email 1 9, blank_email 2 8] [];
       s' = run_m [(demo_mail, demo_owner, MCancel ''a''), (demo_mail, demo_owner, MCancel ''ab''), (demo_mail, demo_owner, MReplay ''ab'')] s
   in filter (\<lambda>e. eTeamID e = 8) (emails (sdb s')) = [blank_email 2 8]"
proof -
  let ?s = "demo_rows [blank_email 1 9, blank_email 2 8] []"
  let ?steps = "[(demo_mail, demo_owner, MCancel ''a''), (demo_mail, demo_owner, MCancel ''ab''), (demo_mail, demo_owner, MReplay ''ab'')]"
  have "keyed eID (emails (sdb ?s))" "filter (\<lambda>e. eTeamID e = 8) (emails (sdb ?s)) = [blank_email 2 8]"
    by (simp_all add: demo_rows_def blank_email_def)
  moreover have "\<not> acts demo_mail demo_owner 8" using demo_mail_guards by (simp add: acts_def permitted_def manager_def)
  ultimately show ?thesis using mail_requests_isolated [of ?s ?steps 8] unfolding Let_def by simp
qed

end
