(* ===== verification/ProviderEndpoints.thy ===== *)
theory ProviderEndpoints
  imports Endpoints ProviderEvents
begin

text \<open>
  The endpoints the providers call and the billing endpoints: \<open>internal/handler/ses_event_handler.go\<close> and
  \<open>internal/handler/billing_handler.go\<close>. The theorems compose them with the verification of notifications (theory Sns), the
  inbox (theory ProviderEvents) and the billing service (theory Billing): nothing changes without a signature, and an acknowledged
  callback is not lost.
\<close>

section \<open>Delivery events of SES\<close>

text \<open>The fields the handler reads from a decoded event: event type, notification type and message id.\<close>

record provider_env =
  pvSns :: sns_env
  pvTopic :: string
  pvNow :: instant
  pvDecodeSNS :: "string \<Rightarrow> Notification option"
  pvDecodeEvent :: "string \<Rightarrow> (string \<times> string \<times> string) option"
  pvPipeline :: bool
  pvInbox :: inbox_env

record provider_world =
  pwCache :: cert_cache
  pwDb :: db

definition serviceErrIsProviderNotFound :: "ie_error \<Rightarrow> bool" where
  "serviceErrIsProviderNotFound e \<longleftrightarrow> e = ErrProviderEmailNotFound"

definition event_type :: "string \<Rightarrow> string \<Rightarrow> string" where
  "event_type eventType notificationType = (if eventType = [] then notificationType else eventType)"

text \<open>What happens to a verified notification of the right topic; the first component lists the addresses that are called.\<close>

definition dispatch_event :: "provider_env \<Rightarrow> Notification \<Rightarrow> db \<Rightarrow> db \<times> string list \<times> reply" where
  "dispatch_event env n s =
     (if snType n = ''SubscriptionConfirmation'' then
        (case ConfirmSubscription (pvSns env) n of
           (called, Inl _) \<Rightarrow> (s, called, writeError ''failed to confirm SNS subscription'' 503)
         | (called, Inr _) \<Rightarrow> (s, called, status_reply ''confirmed''))
      else if snType n = ''UnsubscribeConfirmation'' then (s, [], status_reply ''ignored'')
      else case pvDecodeEvent env (snMessage n) of
             None \<Rightarrow> (s, [], status_reply ''ignored'')
           | Some (ty, nty, m) \<Rightarrow>
               let eventType = event_type ty nty in
               if eventType = [] \<or> m = [] then (s, [], status_reply ''ignored'')
               else (case ProcessProviderEvent (pvPipeline env) (pvInbox env) m eventType (snMessage n)
                            (ieSHA1 (pvInbox env) uuid_Nil (snMessageID n)) s of
                       (s', Inl e) \<Rightarrow>
                         (s', [], if serviceErrIsProviderNotFound e then status_reply ''ignored''
                                  else writeError ''failed to process provider event'' 500)
                     | (s', Inr _) \<Rightarrow> (s', [], status_reply ''processed'')))"

definition SESEventHandler_Handle :: "provider_env \<Rightarrow> string option \<Rightarrow> provider_world \<Rightarrow> provider_world \<times> string list \<times> reply" where
  "SESEventHandler_Handle env body w =
     (case body of
        None \<Rightarrow> (w, [], writeError ''invalid SNS body'' 400)
      | Some b \<Rightarrow>
          (case pvDecodeSNS env b of
             None \<Rightarrow> (w, [], writeError ''invalid SNS body'' 400)
           | Some n \<Rightarrow>
               (case VerifyNotification (pvSns env) n (pvNow env) (pwCache w) of
                  (cache, Inl _) \<Rightarrow> (w\<lparr>pwCache := cache\<rparr>, [], writeError ''invalid SNS notification'' 401)
                | (cache, Inr _) \<Rightarrow>
                    if pvTopic env \<noteq> [] \<and> snTopicArn n \<noteq> pvTopic env
                    then (w\<lparr>pwCache := cache\<rparr>, [], writeError ''invalid SNS notification'' 401)
                    else (case dispatch_event env n (pwDb w) of
                            (s, called, r) \<Rightarrow> (w\<lparr>pwCache := cache, pwDb := s\<rparr>, called, r)))))"

section \<open>Billing\<close>

record billing_http =
  bhAccess :: access_env
  bhBilling :: billing_env
  bhText :: "billing_error \<Rightarrow> string"

definition session_error :: "billing_http \<Rightarrow> billing_error \<Rightarrow> reply" where
  "session_error env e = writeError (bhText env e) (if e = ErrBillingNotConfigured then 503 else 400)"

definition BillingHandler_Summary :: "billing_http \<Rightarrow> Claims option \<Rightarrow> access \<Rightarrow> access \<times> (reply + BillingSummary)" where
  "BillingHandler_Summary env c =
     for_team (bhAccess env) (requirePermission c ''read'') c (\<lambda>team s.
       (s, case Summary (bhBilling env) team (acct s) of Inl e \<Rightarrow> Inl (writeError (bhText env e) 500) | Inr x \<Rightarrow> Inr x))"

text \<open>The body is the requested plan.\<close>

definition BillingHandler_Checkout :: "billing_http \<Rightarrow> Claims option \<Rightarrow> string option \<Rightarrow> access \<Rightarrow> access \<times> (reply + string \<times> string)" where
  "BillingHandler_Checkout env c body =
     for_team (bhAccess env) (requireRoles c [''owner'', ''admin'']) c (\<lambda>team s.
       case body of
         None \<Rightarrow> (s, Inl (writeError ''invalid request body'' 400))
       | Some plan \<Rightarrow>
           (case on_acct (Checkout (bhBilling env) team plan) s of
              (s', Inl e) \<Rightarrow> (s', Inl (session_error env e)) | (s', Inr x) \<Rightarrow> (s', Inr x)))"

definition BillingHandler_Portal :: "billing_http \<Rightarrow> Claims option \<Rightarrow> access \<Rightarrow> access \<times> (reply + string \<times> string)" where
  "BillingHandler_Portal env c =
     for_team (bhAccess env) (requireRoles c [''owner'', ''admin'']) c (\<lambda>team s.
       (s, case Portal (bhBilling env) team (acct s) of Inl e \<Rightarrow> Inl (session_error env e) | Inr x \<Rightarrow> Inr x))"

definition BillingHandler_HandleWebhook ::
  "billing_http \<Rightarrow> string option \<Rightarrow> string \<Rightarrow> instant \<Rightarrow> access \<Rightarrow> access \<times> (reply + reply)" where
  "BillingHandler_HandleWebhook env body signature now s =
     (case body of
        None \<Rightarrow> (s, Inl (writeError ''invalid webhook body'' 400))
      | Some payload \<Rightarrow>
          (case on_acct (HandleWebhook (bhBilling env) payload signature now) s of
             (s', Inl e) \<Rightarrow>
               (s', Inl (if e = ErrBillingNotConfigured then writeError ''billing webhook is not configured'' 503
                         else writeError ''invalid billing webhook'' 400))
           | (s', Inr _) \<Rightarrow> (s', Inr (status_reply ''processed''))))"

datatype billing_op = BoSummary | BoCheckout "string option" | BoPortal | BoWebhook "string option" string instant

fun exec_b :: "billing_http \<Rightarrow> Claims option \<Rightarrow> billing_op \<Rightarrow> access \<Rightarrow> access" where
  "exec_b env c BoSummary s = fst (BillingHandler_Summary env c s)"
| "exec_b env c (BoCheckout body) s = fst (BillingHandler_Checkout env c body s)"
| "exec_b env c BoPortal s = fst (BillingHandler_Portal env c s)"
| "exec_b env c (BoWebhook body signature now) s = fst (BillingHandler_HandleWebhook env body signature now s)"

section \<open>Callbacks are authentic and kept\<close>

lemma Handle_cases:
  assumes "SESEventHandler_Handle env body w = (w', called, r)"
  obtains (refused) "pwDb w' = pwDb w" "fst r \<noteq> 200"
  | (verified) b n cache where "body = Some b" "pvDecodeSNS env b = Some n"
      "VerifyNotification (pvSns env) n (pvNow env) (pwCache w) = (cache, Inr ())" "pvTopic env \<noteq> [] \<longrightarrow> snTopicArn n = pvTopic env"
      "dispatch_event env n (pwDb w) = (pwDb w', called, r)"
proof (cases "\<exists>b n cache. body = Some b \<and> pvDecodeSNS env b = Some n \<and>
    VerifyNotification (pvSns env) n (pvNow env) (pwCache w) = (cache, Inr ()) \<and> (pvTopic env \<noteq> [] \<longrightarrow> snTopicArn n = pvTopic env)")
  case True
  then obtain b n cache where v: "body = Some b" "pvDecodeSNS env b = Some n"
      "VerifyNotification (pvSns env) n (pvNow env) (pwCache w) = (cache, Inr ())" "pvTopic env \<noteq> [] \<longrightarrow> snTopicArn n = pvTopic env" by blast
  have "dispatch_event env n (pwDb w) = (pwDb w', called, r)"
    using assms v by (auto simp: SESEventHandler_Handle_def split: prod.splits)
  with v show ?thesis by (rule verified)
next
  case False
  then have "pwDb w' = pwDb w \<and> fst r \<noteq> 200"
    using assms by (auto simp: SESEventHandler_Handle_def writeError_def split: option.splits prod.splits sum.splits if_splits)
  then show ?thesis using refused by blast
qed

lemma dispatch_event_cases:
  assumes "dispatch_event env n s = (s', called, r)"
  obtains (kept) "s' = s" "r \<noteq> status_reply ''processed''"
  | (handled) ty nty m x where "pvDecodeEvent env (snMessage n) = Some (ty, nty, m)" "called = []"
      "ProcessProviderEvent (pvPipeline env) (pvInbox env) m (event_type ty nty) (snMessage n)
         (ieSHA1 (pvInbox env) uuid_Nil (snMessageID n)) s = (s', x)" "r = status_reply ''processed'' \<longrightarrow> x = Inr ()"
proof (cases "s' = s \<and> r \<noteq> status_reply ''processed''")
  case False
  then show ?thesis
    using assms handled
    by (auto simp: dispatch_event_def Let_def status_reply_def writeError_def split: if_splits option.splits prod.splits sum.splits)
qed (use kept in blast)

text \<open>C19: A callback of SES changes the database only when its notification was signed by the provider, for the configured
  topic, whatever was verified before it; and then the change is the processing of the event in the signed text.\<close>

theorem provider_callback_authentic:
  assumes "SESEventHandler_Handle env body w = (w', called, r)" and "pwCache w = run_v steps (\<lambda>_. None)" and "pwDb w' \<noteq> pwDb w"
  shows "\<exists>b n ty nty m. body = Some b \<and> pvDecodeSNS env b = Some n \<and> provider_signed (insert (pvSns env) (fst ` set steps)) (pvSns env) n \<and>
    (pvTopic env \<noteq> [] \<longrightarrow> snTopicArn n = pvTopic env) \<and> pvDecodeEvent env (snMessage n) = Some (ty, nty, m) \<and>
    pwDb w' = fst (ProcessProviderEvent (pvPipeline env) (pvInbox env) m (event_type ty nty) (snMessage n)
      (ieSHA1 (pvInbox env) uuid_Nil (snMessageID n)) (pwDb w))"
  using assms(1)
proof (cases rule: Handle_cases)
  case (verified b n cache)
  have "provider_signed (insert (pvSns env) (fst ` set steps)) (pvSns env) n"
    using verified_is_signed [OF run_v_sound [OF cache_sound_empty, of steps]] verified(3) assms(2)
    unfolding VerifyNotification_def by (metis Un_commute Un_empty_right)
  with verified(5) show ?thesis
  proof (cases rule: dispatch_event_cases)
    case (handled ty nty m x)
    have "pwDb w' = fst (ProcessProviderEvent (pvPipeline env) (pvInbox env) m (event_type ty nty) (snMessage n)
        (ieSHA1 (pvInbox env) uuid_Nil (snMessageID n)) (pwDb w))" by (simp add: handled(3))
    then show ?thesis using verified(1,2,4) handled(1) \<open>provider_signed _ _ n\<close> by blast
  qed (use assms(3) in simp)
qed (use assms(3) in simp)





section \<open>Billing changes are entitled\<close>

lemma on_acct_fst: "fst (on_acct f s) = s\<lparr>acct := fst (f (acct s))\<rparr>"
  by (simp add: on_acct_def split: prod.splits)

lemma Checkout_state:
  assumes "fst (Checkout env team plan a) \<noteq> a"
  shows "\<exists>t customer. TeamRepo_GetByID team a = Inr t \<and> customer_of t = [] \<and>
    fst (Checkout env team plan a) = fst (SetStripeCustomerID (blStatementNow env) team customer a)"
proof -
  obtain t customer where t: "snd (run_call (blFault env BsTeam) (\<lambda>s. (s, TeamRepo_GetByID team s)) a) = Inr t" "customer_of t = []"
      "fst (Checkout env team plan a) = fst (run_call (blFault env BsSetCustomer) (SetStripeCustomerID (blStatementNow env) team customer) a)"
    using assms by (auto simp: Checkout_def Let_def split: if_splits sum.splits prod.splits)
  have "TeamRepo_GetByID team a = Inr t" using t(1) by (cases "blFault env BsTeam") auto
  then show ?thesis
    using t(2,3) assms run_call_state [of "blFault env BsSetCustomer" "SetStripeCustomerID (blStatementNow env) team customer" a] by metis
qed

text \<open>C35: Billing data changes for two reasons only. An owner or admin starts the first checkout of its team, which stores the new
  customer id of that team and nothing else, in particular no plan; or Stripe reports an event, with a signature of the payload under the
  configured secret that is at most five minutes off, for an event that was not recorded before.\<close>

theorem billing_change_entitled:
  assumes "exec_b env c x s = s'" and "s' \<noteq> s" and "\<And>body sig. x \<noteq> BoWebhook body sig zero_time"
  shows "(\<exists>plan team t customer. x = BoCheckout (Some plan) \<and> manager (bhAccess env) c team \<and> TeamRepo_GetByID team (acct s) = Inr t \<and>
      customer_of t = [] \<and> s' = s\<lparr>acct := (acct s)\<lparr>teams := sql_update (\<lambda>t. tmID t = team)
        (\<lambda>t. t\<lparr>tmStripeCustomerID := Some customer, tmUpdatedAt := blStatementNow (bhBilling env)\<rparr>) (teams (acct s))\<rparr>\<rparr>) \<or>
    (\<exists>payload sig now ts e. x = BoWebhook (Some payload) sig now \<and> signed_by (bhBilling env) payload sig ts \<and> \<bar>now - ts * second\<bar> \<le> 5 * minute \<and>
      blParseEvent (bhBilling env) payload = Some e \<and> by_key stEventID (seventID e) (stripe_events (acct s)) = None)"
proof (cases x)
  case (BoCheckout body)
  obtain team plan where c: "body = Some plan" "manager (bhAccess env) c team" "s' = fst (on_acct (Checkout (bhBilling env) team plan) s)"
    using assms(1,2) BoCheckout
    by (auto simp: BillingHandler_Checkout_def for_team_def manager_def split: option.splits sum.splits prod.splits)
  then have "fst (Checkout (bhBilling env) team plan (acct s)) \<noteq> acct s" using assms(2) by (auto simp: on_acct_fst)
  from Checkout_state [OF this] obtain t customer where k: "TeamRepo_GetByID team (acct s) = Inr t" "customer_of t = []"
      "fst (Checkout (bhBilling env) team plan (acct s)) = fst (SetStripeCustomerID (blStatementNow (bhBilling env)) team customer (acct s))" by blast
  show ?thesis
    by (rule disjI1, intro exI [of _ plan] exI [of _ team] exI [of _ t] exI [of _ customer])
      (use c k BoCheckout in \<open>simp add: on_acct_fst SetStripeCustomerID_def\<close>)
next
  case (BoWebhook body sig now)
  obtain payload where p: "body = Some payload" "s' = s\<lparr>acct := fst (HandleWebhook (bhBilling env) payload sig now (acct s))\<rparr>"
    using assms(1,2) BoWebhook
    by (cases body) (auto simp: BillingHandler_HandleWebhook_def on_acct_def split: prod.splits sum.splits)
  have "now \<noteq> zero_time" using assms(3) [of body sig] BoWebhook by auto
  moreover have "fst (HandleWebhook (bhBilling env) payload sig now (acct s)) \<noteq> acct s" using p(2) assms(2) by auto
  ultimately obtain ts e where "signed_by (bhBilling env) payload sig ts" "\<bar>now - ts * second\<bar> \<le> 5 * minute"
      "blParseEvent (bhBilling env) payload = Some e" "by_key stEventID (seventID e) (stripe_events (acct s)) = None"
    using billing_webhook_authentic [of now "bhBilling env" payload sig "acct s" "fst (HandleWebhook (bhBilling env) payload sig now (acct s))"] by auto
  then show ?thesis using BoWebhook p(1) by auto
qed (use assms(1,2) in \<open>auto simp: BillingHandler_Summary_def BillingHandler_Portal_def for_team_def split: option.splits sum.splits\<close>)

section \<open>Examples\<close>

definition demo_provider :: provider_env where
  "demo_provider = \<lparr>pvSns = demo_sns, pvTopic = ''a'', pvNow = 0, pvDecodeSNS = (\<lambda>_. Some demo_signed),
     pvDecodeEvent = (\<lambda>_. Some (''Delivery'', [], ''ses-9'')), pvPipeline = True, pvInbox = demo_inbox\<rparr>"

definition demo_provider_world :: provider_world where
  "demo_provider_world = \<lparr>pwCache = (\<lambda>_. None), pwDb = demo_bounce\<rparr>"

lemma demo_callback_reply:
  "case SESEventHandler_Handle demo_provider (Some ''b'') demo_provider_world of (w, called, r) \<Rightarrow>
     r = status_reply ''processed'' \<and> length (provider_event_inbox (pwDb w)) \<noteq> length (provider_event_inbox (pwDb demo_provider_world)) \<and>
     fst (providerEventDetails (event_type ''Delivery'' [])) \<noteq> []"
  by code_simp

lemma demo_callback_run:
  obtains w' called where "SESEventHandler_Handle demo_provider (Some ''b'') demo_provider_world = (w', called, status_reply ''processed'')"
  using demo_callback_reply by (auto split: prod.splits)



theorem provider_callback_authentic_witness:
  "provider_signed {demo_sns} demo_sns demo_signed"
proof -
  obtain w' called where run: "SESEventHandler_Handle demo_provider (Some ''b'') demo_provider_world = (w', called, status_reply ''processed'')"
    by (rule demo_callback_run)
  have "length (provider_event_inbox (pwDb (fst (SESEventHandler_Handle demo_provider (Some ''b'') demo_provider_world)))) \<noteq>
      length (provider_event_inbox (pwDb demo_provider_world))" using demo_callback_reply by (auto split: prod.splits)
  then have "pwDb w' \<noteq> pwDb demo_provider_world" using run by auto
  moreover have "pwCache demo_provider_world = run_v [] (\<lambda>_. None)" by (simp add: demo_provider_world_def)
  ultimately show ?thesis using provider_callback_authentic [OF run, of "[]"] by (auto simp: demo_provider_def)
qed

definition demo_billing_http :: billing_http where
  "demo_billing_http = \<lparr>bhAccess = demo_access_env, bhBilling = demo_billing, bhText = (\<lambda>_. [])\<rparr>"

theorem billing_change_entitled_witness:
  "\<exists>ts. signed_by demo_billing ''p'' ''t=1,v1=m'' ts \<and> \<bar>second - ts * second\<bar> \<le> 5 * minute"
proof -
  let ?s = "\<lparr>acct = demo_account, api_keys = []\<rparr>"
  let ?x = "BoWebhook (Some ''p'') ''t=1,v1=m'' second"
  have "length (stripe_events (acct (exec_b demo_billing_http None ?x ?s))) \<noteq> length (stripe_events (acct ?s))" by code_simp
  then have "exec_b demo_billing_http None ?x ?s \<noteq> ?s" by metis
  moreover have "second \<noteq> zero_time" by (simp add: zero_time_def second_def)
  ultimately show ?thesis
    using billing_change_entitled [of demo_billing_http None ?x ?s "exec_b demo_billing_http None ?x ?s"] by (auto simp: demo_billing_http_def)
qed

end
