(* ===== verification/Dashboard.thy ===== *)
theory Dashboard
  imports Endpoints
begin

text \<open>
  The dashboard: \<open>internal/repository/dashboard_repo.go\<close>, \<open>internal/service/dashboard_service.go\<close> and
  \<open>internal/handler/dashboard_handler.go\<close> on the state of theory Domains. The queries only read. The theorems show what the
  overall status says about sending, that the counts add up, and that the figures depend on the team alone.
\<close>

section \<open>Data\<close>

datatype DashboardAlertSeverity = DashboardAlertCritical | DashboardAlertWarning | DashboardAlertInfo

record DashboardAlert =
  daCode :: string
  daSeverity :: DashboardAlertSeverity
  daTitle :: string
  daDescription :: string
  daActionLabel :: string
  daActionHref :: string

record DashboardDomain =
  ddName :: string
  ddReady :: bool
  ddNextAction :: string
  ddIssues :: "string list"

record DashboardDelivery =
  dlPeriodDays :: nat
  dlTotal :: nat
  dlAccepted :: nat
  dlDelivered :: nat
  dlBounced :: nat
  dlComplained :: nat
  dlFailed :: nat
  dlUncertain :: nat
  dlQueued :: nat

record DashboardTracking =
  dtConfigured :: bool
  dtLabel :: string

record DashboardAudience =
  auUnsubscribedContacts :: nat
  auSuppressed :: nat
  auUnsubscribed :: nat
  auBounced :: nat
  auComplained :: nat

record DashboardWebhooks =
  dwConfigured :: nat
  dwFailed :: nat
  dwPending :: nat

record DashboardActivity =
  actID :: uuid
  actEmailID :: uuid
  actEvent :: string
  actSubject :: string
  actTimestamp :: instant

record DashboardSummary =
  smStatus :: string
  smStatusLabel :: string
  smAlerts :: "DashboardAlert list"
  smDomains :: "DashboardDomain list"
  smDelivery :: DashboardDelivery
  smTracking :: DashboardTracking
  smAudience :: DashboardAudience
  smWebhooks :: DashboardWebhooks
  smActivity :: "DashboardActivity list"

record DashboardDomainSnapshot =
  dsName :: string
  dsStatus :: DomainStatus
  dsSPFStatus :: string
  dsDKIMStatus :: string
  dsDMARCStatus :: string
  dsSESVerificationStatus :: string

record DashboardSnapshot =
  snapDomains :: "DashboardDomainSnapshot list"
  snapDelivery :: DashboardDelivery
  snapAudience :: DashboardAudience
  snapWebhooks :: DashboardWebhooks
  snapActivity :: "DashboardActivity list"

section \<open>Queries\<close>

text \<open>One fault per query. The table of events of theory Database keeps no timestamps; the column is a parameter.\<close>

datatype dash_site = DaDomains | DaDelivery | DaAudience | DaWebhooks | DaActivity

record dash_env =
  dhAccess :: access_env
  dhFault :: "dash_site \<Rightarrow> fault"
  dhNow :: instant
  dhStamp :: "uuid \<Rightarrow> instant"
  dhEventsEnabled :: bool

definition rows_where :: "('r \<Rightarrow> bool) \<Rightarrow> 'r list \<Rightarrow> nat" where
  "rows_where p rows = length (filter p rows)"

definition domain_snapshot :: "Domain \<Rightarrow> DashboardDomainSnapshot" where
  "domain_snapshot d = \<lparr>dsName = doName d, dsStatus = doStatus d, dsSPFStatus = doSPFStatus d, dsDKIMStatus = doDKIMStatus d,
     dsDMARCStatus = doDMARCStatus d, dsSESVerificationStatus = doSESVerificationStatus d\<rparr>"

definition domain_query :: "uuid \<Rightarrow> registry \<Rightarrow> DashboardDomainSnapshot list" where
  "domain_query team s = map domain_snapshot (sort_key (\<lambda>d. - doCreatedAt d) (filter (\<lambda>d. doTeamID d = team) (rgDomains s)))"

definition recent :: "uuid \<Rightarrow> instant \<Rightarrow> Email list \<Rightarrow> Email list" where
  "recent team now rows = filter (\<lambda>e. eTeamID e = team \<and> eCreatedAt e \<ge> now - week) rows"

definition delivery_query :: "uuid \<Rightarrow> instant \<Rightarrow> db \<Rightarrow> DashboardDelivery" where
  "delivery_query team now d =
     (let rows = recent team now (emails d); status = (\<lambda>set. rows_where (\<lambda>e. eStatus e \<in> set) rows)
      in \<lparr>dlPeriodDays = 7, dlTotal = length rows,
          dlAccepted = status {EmailStatusSent, EmailStatusDelivered, EmailStatusOpened, EmailStatusClicked},
          dlDelivered = status {EmailStatusDelivered, EmailStatusOpened, EmailStatusClicked},
          dlBounced = status {EmailStatusBounced}, dlComplained = status {EmailStatusComplained}, dlFailed = status {EmailStatusFailed},
          dlUncertain = status {EmailStatusAmbiguous}, dlQueued = status {EmailStatusQueued, EmailStatusSending}\<rparr>)"

definition audience_query :: "uuid \<Rightarrow> db \<Rightarrow> DashboardAudience" where
  "audience_query team d =
     (let rows = filter (\<lambda>x. supTeamID x = team) (suppressions d)
      in \<lparr>auUnsubscribedContacts = rows_where (\<lambda>c. ctTeamID c = team \<and> \<not> ctSubscribed c) (contacts d), auSuppressed = length rows,
          auUnsubscribed = rows_where (\<lambda>x. supReason x = SuppressionReasonUnsubscribe) rows,
          auBounced = rows_where (\<lambda>x. supReason x = SuppressionReasonBounce) rows,
          auComplained = rows_where (\<lambda>x. supReason x = SuppressionReasonComplaint) rows\<rparr>)"

text \<open>The join has one row per pair of a delivery and the webhook it belongs to.\<close>

definition team_deliveries :: "uuid \<Rightarrow> db \<Rightarrow> WebhookDelivery list" where
  "team_deliveries team d = [x. x \<leftarrow> webhook_deliveries d, w \<leftarrow> webhooks d, whID w = wdWebhookID x \<and> whTeamID w = team]"

definition webhook_query :: "uuid \<Rightarrow> db \<Rightarrow> DashboardWebhooks" where
  "webhook_query team d =
     \<lparr>dwConfigured = rows_where (\<lambda>w. whTeamID w = team \<and> whActive w) (webhooks d),
      dwFailed = rows_where (\<lambda>x. wdStatus x = WebhookDeliveryFailed) (team_deliveries team d),
      dwPending = rows_where (\<lambda>x. wdStatus x \<in> {WebhookDeliveryPending, WebhookDeliverySending}) (team_deliveries team d)\<rparr>"

definition activity_query :: "(uuid \<Rightarrow> instant) \<Rightarrow> uuid \<Rightarrow> db \<Rightarrow> DashboardActivity list" where
  "activity_query stamp team d =
     take 8 (sort_key (\<lambda>a. - actTimestamp a)
       [\<lparr>actID = evID v, actEmailID = evEmailID v, actEvent = evEvent v, actSubject = eSubject e, actTimestamp = stamp (evID v)\<rparr>.
          v \<leftarrow> email_events d, e \<leftarrow> emails d, eID e = evEmailID v \<and> eTeamID e = team])"

text \<open>The five queries run one after the other; here all of them see the state of the first.\<close>

definition GetSnapshot :: "dash_env \<Rightarrow> uuid \<Rightarrow> registry \<Rightarrow> DashboardSnapshot result" where
  "GetSnapshot env team s =
     (if list_ex (\<lambda>st. dhFault env st \<noteq> NoFault) [DaDomains, DaDelivery, DaAudience, DaWebhooks, DaActivity] then Inl ConnFailure
      else (let d = adb (rgAcct s) in
        Inr \<lparr>snapDomains = domain_query team s, snapDelivery = delivery_query team (dhNow env) d, snapAudience = audience_query team d,
          snapWebhooks = webhook_query team d, snapActivity = activity_query (dhStamp env) team d\<rparr>))"

section \<open>Summary\<close>

definition alert :: "string \<Rightarrow> DashboardAlertSeverity \<Rightarrow> string \<Rightarrow> string \<Rightarrow> string \<Rightarrow> string \<Rightarrow> DashboardAlert" where
  "alert code severity title description label href = \<lparr>daCode = code, daSeverity = severity, daTitle = title, daDescription = description,
     daActionLabel = label, daActionHref = href\<rparr>"

definition tracking_alerts :: "bool \<Rightarrow> DashboardAlert list" where
  "tracking_alerts enabled =
     (if enabled then []
      else [alert ''delivery_tracking_disabled'' DashboardAlertWarning ''Delivery updates are not connected''
        ''You can see when a message is accepted, but delivery, bounce, and complaint updates are not connected yet.'' ''Read setup guide'' ''/docs''])"

definition domain_issues :: "DashboardDomainSnapshot \<Rightarrow> string list" where
  "domain_issues d =
     (if dsStatus d \<noteq> DomainStatusVerified then [''Publish the requested records and verify the domain''] else []) @
     (if dsSPFStatus d \<noteq> ''verified'' then [''Complete the sender records''] else []) @
     (if dsDKIMStatus d \<noteq> ''verified'' then [''Complete email authentication''] else []) @
     (if dsDMARCStatus d \<noteq> ''verified'' then [''Add a DMARC policy to enable marketing sending''] else []) @
     (if dsSESVerificationStatus d \<noteq> ''verified'' then [''Complete provider verification''] else [])"

definition domain_summary :: "DashboardDomainSnapshot \<Rightarrow> DashboardDomain" where
  "domain_summary d =
     \<lparr>ddName = dsName d, ddReady = (dsStatus d = DomainStatusVerified),
      ddNextAction = (if dsStatus d \<noteq> DomainStatusVerified then ''Finish sender setup''
        else if dsDMARCStatus d \<noteq> ''verified'' then ''Improve sender protection'' else ''All essential checks passed''),
      ddIssues = domain_issues d\<rparr>"

definition domain_alerts :: "DashboardDomainSnapshot \<Rightarrow> DashboardAlert list" where
  "domain_alerts d =
     (if dsStatus d \<noteq> DomainStatusVerified
      then [alert ''sender_domain_setup'' DashboardAlertCritical (''Finish setup for '' @ dsName d)
        (dsName d @ '' is not ready to send yet. Publish the records shown in Domains, then verify it.'') ''Finish setup'' ''/domains'']
      else if dsDMARCStatus d \<noteq> ''verified''
      then [alert ''marketing_protection'' DashboardAlertWarning (''Improve protection for '' @ dsName d)
        (''Add sender protection for '' @ dsName d @ '' to unlock marketing messages.'') ''Improve protection'' ''/domains'']
      else [])"

definition sender_alerts :: "DashboardDomainSnapshot list \<Rightarrow> DashboardAlert list" where
  "sender_alerts ds =
     (if ds = []
      then [alert ''no_sender_domain'' DashboardAlertCritical ''Add a sender domain''
        ''Connect the domain you want to send from before sending your first email.'' ''Add a domain'' ''/domains'']
      else concat (map domain_alerts ds))"

definition count_alerts :: "DashboardDelivery \<Rightarrow> DashboardWebhooks \<Rightarrow> DashboardAlert list" where
  "count_alerts dl wh =
     (if dlFailed dl > 0
      then [alert ''failed_messages'' DashboardAlertWarning ''Some messages need attention''
        ''Some recent messages could not be sent. Review the email activity to see what happened.'' ''Review email activity'' ''/emails'']
      else []) @
     (if dlUncertain dl > 0
      then [alert ''delivery_review'' DashboardAlertWarning ''Some messages need delivery review''
        ''We stopped automatic retries for a few messages because the final delivery confirmation was interrupted. Review them to avoid sending a duplicate.''
        ''Review messages'' ''/emails'']
      else []) @
     (if dwFailed wh > 0
      then [alert ''webhook_delivery'' DashboardAlertWarning ''Delivery updates need attention''
        ''Some status updates could not reach your app. Review the connection so delivery events stay current.'' ''Review connections'' ''/webhooks'']
      else [])"

text \<open>The loop over the alerts: the first critical one decides and ends it.\<close>

fun overall :: "DashboardAlert list \<Rightarrow> string \<times> string \<Rightarrow> string \<times> string" where
  "overall [] acc = acc"
| "overall (a # rest) acc =
     (if daSeverity a = DashboardAlertCritical then (''action_needed'', ''Action needed'')
      else overall rest (if daSeverity a = DashboardAlertWarning then (''attention'', ''Needs attention'') else acc))"

definition summary_of :: "bool \<Rightarrow> DashboardSnapshot \<Rightarrow> DashboardSummary" where
  "summary_of enabled snap =
     (let alerts = tracking_alerts enabled @ sender_alerts (snapDomains snap) @ count_alerts (snapDelivery snap) (snapWebhooks snap);
          st = overall alerts (''ready'', ''Ready to send'')
      in \<lparr>smStatus = fst st, smStatusLabel = snd st, smAlerts = alerts, smDomains = map domain_summary (snapDomains snap),
          smDelivery = snapDelivery snap,
          smTracking = \<lparr>dtConfigured = enabled, dtLabel = (if enabled then ''Delivery updates are on'' else ''Delivery updates are off'')\<rparr>,
          smAudience = snapAudience snap, smWebhooks = snapWebhooks snap, smActivity = snapActivity snap\<rparr>)"

definition DashboardService_Summary :: "dash_env \<Rightarrow> uuid \<Rightarrow> registry \<Rightarrow> DashboardSummary result" where
  "DashboardService_Summary env team s =
     (case GetSnapshot env team s of Inl e \<Rightarrow> Inl e | Inr snap \<Rightarrow> Inr (summary_of (dhEventsEnabled env) snap))"

definition DashboardHandler_Summary :: "dash_env \<Rightarrow> Claims option \<Rightarrow> registry \<Rightarrow> registry \<times> (reply + DashboardSummary)" where
  "DashboardHandler_Summary env c =
     for_team (dhAccess env) (requirePermission c ''read'') c (\<lambda>team s.
       (s, case DashboardService_Summary env team s of
             Inl _ \<Rightarrow> Inl (writeError ''Unable to load dashboard. Try again in a moment.'' 503)
           | Inr x \<Rightarrow> Inr x))"

section \<open>Counts\<close>

lemma rows_where_mono: "(\<And>r. p r \<Longrightarrow> q r) \<Longrightarrow> rows_where p rows \<le> rows_where q rows"
  by (induction rows) (auto simp: rows_where_def intro: le_SucI)

lemma rows_where_0: "rows_where p rows = 0 \<longleftrightarrow> (\<forall>r \<in> set rows. \<not> p r)"
  by (simp add: rows_where_def filter_empty_conv)

text \<open>Every recent message is in one of the groups or cancelled, and the delivered ones are among the accepted ones.\<close>

lemma delivery_counts_add_up:
  "dlTotal (delivery_query team now d) = dlAccepted (delivery_query team now d) + dlBounced (delivery_query team now d) +
     dlComplained (delivery_query team now d) + dlFailed (delivery_query team now d) + dlUncertain (delivery_query team now d) +
     dlQueued (delivery_query team now d) + rows_where (\<lambda>e. eStatus e = EmailStatusCancelled) (recent team now (emails d))"
  "dlDelivered (delivery_query team now d) \<le> dlAccepted (delivery_query team now d)"
proof -
  have sum: "length rows = rows_where (\<lambda>e. eStatus e \<in> {EmailStatusSent, EmailStatusDelivered, EmailStatusOpened, EmailStatusClicked}) rows +
      rows_where (\<lambda>e. eStatus e \<in> {EmailStatusBounced}) rows + rows_where (\<lambda>e. eStatus e \<in> {EmailStatusComplained}) rows +
      rows_where (\<lambda>e. eStatus e \<in> {EmailStatusFailed}) rows + rows_where (\<lambda>e. eStatus e \<in> {EmailStatusAmbiguous}) rows +
      rows_where (\<lambda>e. eStatus e \<in> {EmailStatusQueued, EmailStatusSending}) rows + rows_where (\<lambda>e. eStatus e = EmailStatusCancelled) rows" for rows
  proof (induction rows)
    case (Cons e rows)
    then show ?case by (cases "eStatus e") (simp_all add: rows_where_def)
  qed (simp add: rows_where_def)
  then show "dlTotal (delivery_query team now d) = dlAccepted (delivery_query team now d) + dlBounced (delivery_query team now d) +
     dlComplained (delivery_query team now d) + dlFailed (delivery_query team now d) + dlUncertain (delivery_query team now d) +
     dlQueued (delivery_query team now d) + rows_where (\<lambda>e. eStatus e = EmailStatusCancelled) (recent team now (emails d))"
    unfolding delivery_query_def Let_def by (simp only: DashboardDelivery.simps)
  show "dlDelivered (delivery_query team now d) \<le> dlAccepted (delivery_query team now d)"
    unfolding delivery_query_def Let_def DashboardDelivery.simps
    by (rule rows_where_mono) auto
qed

section \<open>What the status says\<close>

lemma overall_exact:
  "overall alerts acc =
     (if \<exists>a \<in> set alerts. daSeverity a = DashboardAlertCritical then (''action_needed'', ''Action needed'')
      else if \<exists>a \<in> set alerts. daSeverity a = DashboardAlertWarning then (''attention'', ''Needs attention'') else acc)"
  by (induction alerts acc rule: overall.induct) auto

lemma alert_severity [simp]: "daSeverity (alert code severity title description label href) = severity"
  by (simp add: alert_def)

lemma domain_critical: "(\<exists>a \<in> set (domain_alerts d). daSeverity a = DashboardAlertCritical) \<longleftrightarrow> dsStatus d \<noteq> DomainStatusVerified"
  by (simp add: domain_alerts_def)

lemma count_tracking_not_critical:
  "\<not> (\<exists>a \<in> set (tracking_alerts enabled). daSeverity a = DashboardAlertCritical)" "\<not> (\<exists>a \<in> set (count_alerts dl wh). daSeverity a = DashboardAlertCritical)"
  by (auto simp: tracking_alerts_def count_alerts_def)

lemma critical_alerts:
  "(\<exists>a \<in> set (tracking_alerts enabled @ sender_alerts ds @ count_alerts dl wh). daSeverity a = DashboardAlertCritical) \<longleftrightarrow>
   ds = [] \<or> (\<exists>d \<in> set ds. dsStatus d \<noteq> DomainStatusVerified)"
proof -
  have "(\<exists>a \<in> set (sender_alerts ds). daSeverity a = DashboardAlertCritical) \<longleftrightarrow> ds = [] \<or> (\<exists>d \<in> set ds. dsStatus d \<noteq> DomainStatusVerified)"
    using domain_critical by (cases "ds = []") (simp_all add: sender_alerts_def)
  then show ?thesis using count_tracking_not_critical(1) [of enabled] count_tracking_not_critical(2) [of dl wh] unfolding set_append by blast
qed

lemma domain_no_alerts: "domain_alerts d = [] \<longleftrightarrow> dsStatus d = DomainStatusVerified \<and> dsDMARCStatus d = ''verified''"
  by (simp add: domain_alerts_def)

lemma no_alerts:
  "tracking_alerts enabled @ sender_alerts ds @ count_alerts dl wh = [] \<longleftrightarrow>
   enabled \<and> ds \<noteq> [] \<and> (\<forall>d \<in> set ds. dsStatus d = DomainStatusVerified \<and> dsDMARCStatus d = ''verified'') \<and>
   dlFailed dl = 0 \<and> dlUncertain dl = 0 \<and> dwFailed wh = 0"
proof -
  have "sender_alerts ds = [] \<longleftrightarrow> ds \<noteq> [] \<and> (\<forall>d \<in> set ds. dsStatus d = DomainStatusVerified \<and> dsDMARCStatus d = ''verified'')"
    by (simp add: sender_alerts_def domain_no_alerts)
  then show ?thesis by (auto simp: tracking_alerts_def count_alerts_def)
qed

lemma alert_severities:
  "a \<in> set (tracking_alerts enabled @ sender_alerts ds @ count_alerts dl wh) \<Longrightarrow> daSeverity a \<in> {DashboardAlertCritical, DashboardAlertWarning}"
  by (auto simp: tracking_alerts_def sender_alerts_def count_alerts_def domain_alerts_def split: if_splits)

lemma summary_status:
  "smStatus (summary_of enabled snap) =
     (if snapDomains snap = [] \<or> (\<exists>d \<in> set (snapDomains snap). dsStatus d \<noteq> DomainStatusVerified) then ''action_needed''
      else if enabled \<and> (\<forall>d \<in> set (snapDomains snap). dsDMARCStatus d = ''verified'') \<and> dlFailed (snapDelivery snap) = 0 \<and>
        dlUncertain (snapDelivery snap) = 0 \<and> dwFailed (snapWebhooks snap) = 0 then ''ready'' else ''attention'')"
proof -
  let ?alerts = "tracking_alerts enabled @ sender_alerts (snapDomains snap) @ count_alerts (snapDelivery snap) (snapWebhooks snap)"
  let ?critical = "\<exists>a \<in> set ?alerts. daSeverity a = DashboardAlertCritical"
  have warn: "(\<exists>a \<in> set ?alerts. daSeverity a = DashboardAlertWarning) \<longleftrightarrow> ?alerts \<noteq> []" if "\<not> ?critical"
    using that alert_severities by (metis (no_types, lifting) empty_iff empty_set insertE neq_Nil_conv list.set_intros(1))
  have "smStatus (summary_of enabled snap) = (if ?critical then ''action_needed'' else if ?alerts = [] then ''ready'' else ''attention'')"
    using warn by (simp add: summary_of_def Let_def overall_exact del: set_append append_is_Nil_conv)
  then show ?thesis unfolding critical_alerts no_alerts by (auto split: if_splits)
qed

lemma pick_ready: "z = (if a then ''action_needed'' else if b then ''ready'' else ''attention'') \<Longrightarrow> z = ''ready'' \<longleftrightarrow> z \<noteq> ''action_needed'' \<and> b"
  by simp

text \<open>C39: The status of the dashboard is exact. Reading it changes nothing and needs the permission to read. It demands action if and
  only if the team has no domain or one that is not verified; it is ready if and only if, moreover, every domain has its DMARC policy, delivery
  updates are on, no message of the last week failed or awaits review and no webhook delivery failed. Unless it demands action, the
  sender check of a send passes for every address at a domain of the team.\<close>

theorem dashboard_status_exact:
  assumes "DashboardHandler_Summary env c s = (s', Inr x)"
  shows "s' = s \<and> (\<exists>team. permitted (dhAccess env) ''read'' c team \<and>
    (smStatus x = ''action_needed'' \<longleftrightarrow> (\<forall>d \<in> set (rgDomains s). doTeamID d \<noteq> team) \<or>
      (\<exists>d \<in> set (rgDomains s). doTeamID d = team \<and> doStatus d \<noteq> DomainStatusVerified)) \<and>
    (smStatus x = ''ready'' \<longleftrightarrow> smStatus x \<noteq> ''action_needed'' \<and> dhEventsEnabled env \<and>
      (\<forall>d \<in> set (rgDomains s). doTeamID d = team \<longrightarrow> doDMARCStatus d = ''verified'') \<and>
      (\<forall>e \<in> set (recent team (dhNow env) (emails (adb (rgAcct s)))). eStatus e \<notin> {EmailStatusFailed, EmailStatusAmbiguous}) \<and>
      (\<forall>y \<in> set (team_deliveries team (adb (rgAcct s))). wdStatus y \<noteq> WebhookDeliveryFailed)) \<and>
    (smStatus x \<in> {''ready'', ''attention'', ''action_needed''}) \<and>
    (smStatus x \<noteq> ''action_needed'' \<longrightarrow> (\<forall>send y d addr. sdomains y = sending_view s \<longrightarrow> seFault send SeDomain = NoFault \<longrightarrow>
      d \<in> set (rgDomains s) \<longrightarrow> doTeamID d = team \<longrightarrow> canonical_name (EmailDomain parse_plain addr) = canonical_name (doName d) \<longrightarrow>
      from_domain send team addr y \<noteq> None)))"
proof -
  obtain team snap where t: "permitted (dhAccess env) ''read'' c team" "s' = s" "GetSnapshot env team s = Inr snap" "x = summary_of (dhEventsEnabled env) snap"
    using assms by (auto simp: DashboardHandler_Summary_def for_team_def permitted_def DashboardService_Summary_def split: option.splits sum.splits)
  have snap: "snapDomains snap = domain_query team s" "snapDelivery snap = delivery_query team (dhNow env) (adb (rgAcct s))"
      "snapWebhooks snap = webhook_query team (adb (rgAcct s))"
    using t(3) by (auto simp: GetSnapshot_def Let_def split: if_splits)
  have dom: "set (domain_query team s) = domain_snapshot ` {d \<in> set (rgDomains s). doTeamID d = team}" by (simp add: domain_query_def)
  have nil: "domain_query team s = [] \<longleftrightarrow> (\<forall>d \<in> set (rgDomains s). doTeamID d \<noteq> team)"
    using dom by (metis (mono_tags, lifting) empty_Collect_eq image_is_empty set_empty)
  note status = summary_status [of "dhEventsEnabled env" snap, folded t(4), unfolded snap nil dom]
  have action: "smStatus x = ''action_needed'' \<longleftrightarrow> (\<forall>d \<in> set (rgDomains s). doTeamID d \<noteq> team) \<or>
      (\<exists>d \<in> set (rgDomains s). doTeamID d = team \<and> doStatus d \<noteq> DomainStatusVerified)"
    unfolding status by (auto simp: domain_snapshot_def)
  have counts: "dlFailed (delivery_query team (dhNow env) (adb (rgAcct s))) = 0 \<and> dlUncertain (delivery_query team (dhNow env) (adb (rgAcct s))) = 0 \<longleftrightarrow>
      (\<forall>e \<in> set (recent team (dhNow env) (emails (adb (rgAcct s)))). eStatus e \<notin> {EmailStatusFailed, EmailStatusAmbiguous})"
    "dwFailed (webhook_query team (adb (rgAcct s))) = 0 \<longleftrightarrow> (\<forall>y \<in> set (team_deliveries team (adb (rgAcct s))). wdStatus y \<noteq> WebhookDeliveryFailed)"
    by (auto simp: delivery_query_def webhook_query_def Let_def rows_where_0)
  have sender: "from_domain send team addr y \<noteq> None"
    if a: "smStatus x \<noteq> ''action_needed''" "sdomains y = sending_view s" "seFault send SeDomain = NoFault" "d \<in> set (rgDomains s)" "doTeamID d = team"
      "canonical_name (EmailDomain parse_plain addr) = canonical_name (doName d)" for send y d addr
  proof -
    let ?p = "\<lambda>r. dmTeamID r = team \<and> canonical_name (dmName r) = canonical_name (EmailDomain parse_plain addr)"
    have "find ?p (sdomains y) \<noteq> None" using a(2,4-6) by (auto simp: find_None_iff sending_view_def)
    then obtain r where r: "find ?p (sdomains y) = Some r" by blast
    then have "dmStatus r = DomainStatusVerified" using find_SomeD [OF r] a(1,2) action by (auto simp: sending_view_def)
    then show ?thesis using r a(3) by (simp add: from_domain_def GetByName_def canonical_name_def)
  qed
  have ready: "smStatus x = ''ready'' \<longleftrightarrow> smStatus x \<noteq> ''action_needed'' \<and> dhEventsEnabled env \<and>
      (\<forall>d \<in> set (rgDomains s). doTeamID d = team \<longrightarrow> doDMARCStatus d = ''verified'') \<and>
      (\<forall>e \<in> set (recent team (dhNow env) (emails (adb (rgAcct s)))). eStatus e \<notin> {EmailStatusFailed, EmailStatusAmbiguous}) \<and>
      (\<forall>y \<in> set (team_deliveries team (adb (rgAcct s))). wdStatus y \<noteq> WebhookDeliveryFailed)"
    unfolding pick_ready [OF status] counts [symmetric] by (auto simp: domain_snapshot_def)
  have one: "smStatus x \<in> {''ready'', ''attention'', ''action_needed''}" unfolding status by simp
  show ?thesis
  proof (rule conjI, fact t(2), rule exI [of _ team], intro conjI)
    show "smStatus x \<noteq> ''action_needed'' \<longrightarrow> (\<forall>send y d addr. sdomains y = sending_view s \<longrightarrow> seFault send SeDomain = NoFault \<longrightarrow>
      d \<in> set (rgDomains s) \<longrightarrow> doTeamID d = team \<longrightarrow> canonical_name (EmailDomain parse_plain addr) = canonical_name (doName d) \<longrightarrow>
      from_domain send team addr y \<noteq> None)"
      by (intro impI allI) (rule sender)
  qed (fact t(1), fact action, fact ready, fact one)
qed

section \<open>Examples\<close>

definition demo_dash :: dash_env where
  "demo_dash = \<lparr>dhAccess = demo_access_env, dhFault = (\<lambda>_. NoFault), dhNow = 0, dhStamp = (\<lambda>_. 0), dhEventsEnabled = True\<rparr>"

theorem dashboard_status_exact_witness:
  "\<exists>x. DashboardHandler_Summary demo_dash demo_owner demo_registry = (demo_registry, Inr x) \<and> smStatus x = ''action_needed''"
proof -
  have "case snd (DashboardHandler_Summary demo_dash demo_owner demo_registry) of Inl _ \<Rightarrow> False | Inr x \<Rightarrow> smStatus x = ''action_needed''" by code_simp
  then obtain s' x where run: "DashboardHandler_Summary demo_dash demo_owner demo_registry = (s', Inr x)" "smStatus x = ''action_needed''"
    by (cases "DashboardHandler_Summary demo_dash demo_owner demo_registry") (auto split: sum.splits)
  with dashboard_status_exact [OF run(1)] show ?thesis by auto
qed

end
