(* ===== verification/Metrics.thy ===== *)
theory Metrics
  imports "HOL-Library.Word" "HOL-Library.List_Lexorder" "HOL-Library.Char_ord" "HOL-Library.Multiset" Config EmailOperations
begin

text \<open>
  Counters and health of the processes: \<open>pkg/metrics/http.go\<close> and \<open>internal/worker/health.go\<close>. The counters are atomic cells that
  goroutines change at the same time. An operation is a list of atomic instructions, and a run of several goroutines is an interleaving of
  their lists; the compare-and-swap loop of \<open>ObserveAge\<close> is a step relation on the cell and the goroutines. The theorems show that
  no interleaving loses a count or an age, and that the loop ends.
\<close>

section \<open>Names and registries\<close>

definition letter :: "char \<Rightarrow> bool" where
  "letter c \<longleftrightarrow> char_in 97 122 c \<or> char_in 65 90 c"

text \<open>A character outside ASCII is not valid, and neither is any of its bytes, so the check is by bytes.\<close>

definition metricName :: "string \<Rightarrow> string" where
  "metricName name0 =
     (case TrimSpace name0 of
        [] \<Rightarrow> []
      | c # rest \<Rightarrow>
          if (letter c \<or> c = CHR ''_'') \<and> list_all (\<lambda>x. letter x \<or> x = CHR ''_'' \<or> is_digit x) rest then c # rest else [])"

text \<open>The maps as association lists without repeated names.\<close>

record custom_registry =
  crCounters :: "(string \<times> 64 word) list"
  crGauges :: "(string \<times> int) list"

definition bind_name :: "string \<Rightarrow> 'v \<Rightarrow> (string \<times> 'v) list \<Rightarrow> (string \<times> 'v) list" where
  "bind_name k v m = (k, v) # filter (\<lambda>p. fst p \<noteq> k) m"

definition AddCounter :: "string \<Rightarrow> 64 word \<Rightarrow> custom_registry \<Rightarrow> custom_registry" where
  "AddCounter name0 delta r =
     (let name = metricName name0 in
      if name = [] \<or> delta = 0 then r
      else r\<lparr>crCounters := bind_name name ((case map_of (crCounters r) name of None \<Rightarrow> 0 | Some v \<Rightarrow> v) + delta) (crCounters r)\<rparr>)"

definition SetGauge :: "string \<Rightarrow> int \<Rightarrow> custom_registry \<Rightarrow> custom_registry" where
  "SetGauge name0 value r =
     (let name = metricName name0 in if name = [] then r else r\<lparr>crGauges := bind_name name value (crGauges r)\<rparr>)"

section \<open>Counters of a worker\<close>

record WorkerMetrics =
  wmName :: string
  wmStarted :: "64 word"
  wmCompleted :: "64 word"
  wmFailed :: "64 word"
  wmInFlight :: "64 word"
  wmVisibilityExtend :: "64 word"
  wmVisibilityErrors :: "64 word"
  wmOldestAge :: int
  wmLastHeartbeat :: int

definition worker_name :: "string \<Rightarrow> string" where
  "worker_name name0 =
     (let name = TrimSpace name0 in
      if name = [] \<or> \<not> list_all (\<lambda>c. letter c \<or> is_digit c \<or> c = CHR ''_'') name then ''worker'' else name)"

definition NewWorkerMetrics :: "instant \<Rightarrow> string \<Rightarrow> (string \<times> WorkerMetrics) list \<Rightarrow> (string \<times> WorkerMetrics) list \<times> WorkerMetrics" where
  "NewWorkerMetrics now name items =
     (let m = \<lparr>wmName = worker_name name, wmStarted = 0, wmCompleted = 0, wmFailed = 0, wmInFlight = 0, wmVisibilityExtend = 0,
        wmVisibilityErrors = 0, wmOldestAge = 0, wmLastHeartbeat = now\<rparr>
      in (bind_name (worker_name name) m items, m))"

datatype instr = IncStarted | IncCompleted | IncFailed | AddInFlight "64 word" | IncExtend | IncExtendErrors | StoreHeartbeat instant

fun exec_instr :: "instr \<Rightarrow> WorkerMetrics \<Rightarrow> WorkerMetrics" where
  "exec_instr IncStarted m = m\<lparr>wmStarted := wmStarted m + 1\<rparr>"
| "exec_instr IncCompleted m = m\<lparr>wmCompleted := wmCompleted m + 1\<rparr>"
| "exec_instr IncFailed m = m\<lparr>wmFailed := wmFailed m + 1\<rparr>"
| "exec_instr (AddInFlight d) m = m\<lparr>wmInFlight := wmInFlight m + d\<rparr>"
| "exec_instr IncExtend m = m\<lparr>wmVisibilityExtend := wmVisibilityExtend m + 1\<rparr>"
| "exec_instr IncExtendErrors m = m\<lparr>wmVisibilityErrors := wmVisibilityErrors m + 1\<rparr>"
| "exec_instr (StoreHeartbeat t) m = m\<lparr>wmLastHeartbeat := t\<rparr>"

datatype worker_op = WStart instant | WComplete instant | WFail instant | WHeartbeat instant | WExtended | WExtensionFailed

fun op_code :: "worker_op \<Rightarrow> instr list" where
  "op_code (WStart t) = [IncStarted, AddInFlight 1, StoreHeartbeat t]"
| "op_code (WComplete t) = [IncCompleted, AddInFlight (-1), StoreHeartbeat t]"
| "op_code (WFail t) = [IncFailed, AddInFlight (-1), StoreHeartbeat t]"
| "op_code (WHeartbeat t) = [StoreHeartbeat t]"
| "op_code WExtended = [IncExtend]"
| "op_code WExtensionFailed = [IncExtendErrors]"

record WorkerSnapshot =
  wsName :: string
  wsStarted :: nat
  wsCompleted :: nat
  wsFailed :: nat
  wsInFlight :: nat
  wsVisibilityExtensions :: nat
  wsVisibilityExtensionErrors :: nat
  wsOldestAge :: int
  wsLastHeartbeat :: int

definition Snapshot :: "WorkerMetrics \<Rightarrow> WorkerSnapshot" where
  "Snapshot m = \<lparr>wsName = wmName m, wsStarted = unat (wmStarted m), wsCompleted = unat (wmCompleted m), wsFailed = unat (wmFailed m),
     wsInFlight = (if sint (wmInFlight m) < 0 then 0 else nat (sint (wmInFlight m))),
     wsVisibilityExtensions = unat (wmVisibilityExtend m), wsVisibilityExtensionErrors = unat (wmVisibilityErrors m),
     wsOldestAge = wmOldestAge m, wsLastHeartbeat = wmLastHeartbeat m\<rparr>"

section \<open>The age\<close>

text \<open>A goroutine in \<open>ObserveAge\<close> is about to load, has loaded a value, or has returned. In one step it loads, or returns because its
  age is not larger, or swaps and returns, or finds that the cell has changed and starts again.\<close>

datatype observer = Observing int | Loaded int int | Observed

fun ObserveAge_step :: "int \<Rightarrow> observer \<Rightarrow> int \<times> observer" where
  "ObserveAge_step v (Observing age) = (v, Loaded age v)"
| "ObserveAge_step v (Loaded age old) =
     (if age \<le> old then (v, Observed) else if v = old then (age, Observed) else (v, Observing age))"
| "ObserveAge_step v Observed = (v, Observed)"

definition observe_next :: "nat \<Rightarrow> int \<times> observer list \<Rightarrow> int \<times> observer list" where
  "observe_next i s = (case s of (v, ts) \<Rightarrow> (case ObserveAge_step v (ts ! i) of (v', t) \<Rightarrow> (v', ts[i := t])))"

inductive observe_step :: "int \<times> observer list \<Rightarrow> int \<times> observer list \<Rightarrow> bool" where
  turn: "i < length (snd s) \<Longrightarrow> snd s ! i \<noteq> Observed \<Longrightarrow> observe_step s (observe_next i s)"

section \<open>The endpoint\<close>

text \<open>The writer that remembers the first status; zero means that the handler wrote nothing.\<close>

record statusWriter =
  wrStatus :: int
  wroteHeader :: bool

datatype write_op = CallWriteHeader int | CallWrite

fun writer_step :: "write_op \<Rightarrow> statusWriter \<Rightarrow> statusWriter" where
  "writer_step (CallWriteHeader st) w = (if wroteHeader w then w else \<lparr>wrStatus = st, wroteHeader = True\<rparr>)"
| "writer_step CallWrite w = (if wroteHeader w then w else \<lparr>wrStatus = 200, wroteHeader = True\<rparr>)"

definition HTTP :: "write_op list \<Rightarrow> 64 word \<times> 64 word \<Rightarrow> 64 word \<times> 64 word" where
  "HTTP writes counts =
     (let w = fold writer_step writes \<lparr>wrStatus = 0, wroteHeader = False\<rparr>
      in (fst counts + 1, if wrStatus w \<ge> 500 then snd counts + 1 else snd counts))"

definition int_text :: "int \<Rightarrow> string" where
  "int_text n = (if n < 0 then ''-'' @ decimal (nat (- n)) else decimal (nat n))"

definition metric_line :: "string \<Rightarrow> string \<Rightarrow> string" where
  "metric_line name value = name @ '' '' @ value @ [newline]"

text \<open>The age is printed in seconds with \<open>%f\<close>; its text is a parameter.\<close>

definition worker_lines :: "(int \<Rightarrow> string) \<Rightarrow> WorkerMetrics \<Rightarrow> string list" where
  "worker_lines fl m =
     (let s = Snapshot m; prefix = ''sender_api_worker_'' @ wsName s @ ''_'' in
      [metric_line (prefix @ ''started_total'') (decimal (wsStarted s)), metric_line (prefix @ ''completed_total'') (decimal (wsCompleted s)),
       metric_line (prefix @ ''failed_total'') (decimal (wsFailed s)), metric_line (prefix @ ''in_flight'') (decimal (wsInFlight s)),
       metric_line (prefix @ ''oldest_age_seconds'') (fl (wsOldestAge s)),
       metric_line (prefix @ ''visibility_extensions_total'') (decimal (wsVisibilityExtensions s)),
       metric_line (prefix @ ''visibility_extension_errors_total'') (decimal (wsVisibilityExtensionErrors s)),
       metric_line (prefix @ ''heartbeat_timestamp_seconds'') (int_text (unix (wsLastHeartbeat s)))])"

definition custom_names :: "custom_registry \<Rightarrow> string list" where
  "custom_names r = sort (map fst (crCounters r) @ map fst (crGauges r))"

definition custom_lines :: "custom_registry \<Rightarrow> string list" where
  "custom_lines r = map (\<lambda>name.
     (case map_of (crCounters r) name of
        Some v \<Rightarrow> metric_line name (decimal (unat v))
      | None \<Rightarrow> (case map_of (crGauges r) name of Some v \<Rightarrow> metric_line name (int_text v) | None \<Rightarrow> []))) (custom_names r)"

text \<open>The workers are listed in the order the loop over their map takes, which is not fixed.\<close>

definition Handler :: "(int \<Rightarrow> string) \<Rightarrow> 64 word \<times> 64 word \<Rightarrow> WorkerMetrics list \<Rightarrow> custom_registry \<Rightarrow> string list" where
  "Handler fl counts workers r =
     [metric_line ''sender_api_http_requests_total'' (decimal (unat (fst counts))),
      metric_line ''sender_api_http_server_errors_total'' (decimal (unat (snd counts)))] @
     concat (map (worker_lines fl) workers) @ custom_lines r"

section \<open>Health\<close>

record HealthState =
  hsReady :: bool
  hsLastHeartbeat :: instant

definition SetReady :: "instant \<Rightarrow> bool \<Rightarrow> HealthState \<Rightarrow> HealthState" where
  "SetReady now ready h = \<lparr>hsReady = ready, hsLastHeartbeat = now\<rparr>"

definition Heartbeat :: "instant \<Rightarrow> HealthState \<Rightarrow> HealthState" where
  "Heartbeat now h = h\<lparr>hsLastHeartbeat := now\<rparr>"

definition Healthy :: "instant \<Rightarrow> int \<Rightarrow> HealthState \<Rightarrow> bool" where
  "Healthy now maxAge h \<longleftrightarrow> hsReady h \<and> now - hsLastHeartbeat h \<le> maxAge"

text \<open>Absent states and checks are \<open>None\<close>; a check tells whether it fails.\<close>

definition ServeHTTP :: "instant \<Rightarrow> HealthState option list \<Rightarrow> bool option list \<Rightarrow> reply" where
  "ServeHTTP now states checks =
     (if states \<noteq> [] \<and> list_all (\<lambda>h. case h of None \<Rightarrow> False | Some x \<Rightarrow> Healthy now (2 * minute) x) states \<and>
        list_all (\<lambda>c. case c of None \<Rightarrow> True | Some failed \<Rightarrow> \<not> failed) checks
      then (200, ''ok'' @ [newline]) else (503, ''not ready'' @ [newline, newline]))"

text \<open>The workers whose state the worker process watches.\<close>

definition watched_workers :: "Config \<Rightarrow> string list" where
  "watched_workers c = [''email'', ''webhook'', ''provider_event''] @
     (if cfEmailRetentionDays c > 0 \<or> cfInboundRetentionDays c > 0 then [''retention''] else []) @
     (if cfInboundSQSQueueURL c \<noteq> [] then [''inbound''] else [])"

section \<open>Interleavings\<close>

inductive interleaves :: "'i list list \<Rightarrow> 'i list \<Rightarrow> bool" where
  finished: "\<forall>p \<in> set ps. p = [] \<Longrightarrow> interleaves ps []"
| turn: "i < length ps \<Longrightarrow> ps ! i = x # rest \<Longrightarrow> interleaves (ps[i := rest]) run \<Longrightarrow> interleaves ps (x # run)"

lemma mset_update: "i < length ps \<Longrightarrow> mset (concat (ps[i := q])) + mset (ps ! i) = mset (concat ps) + mset q"
proof (induction ps arbitrary: i)
  case (Cons p ps)
  then show ?case by (cases i) (simp_all add: ac_simps)
qed simp

lemma interleaves_mset: "interleaves ps run \<Longrightarrow> mset run = mset (concat ps)"
proof (induction rule: interleaves.induct)
  case (finished ps)
  then show ?case by (simp add: concat_eq_Nil_conv)
next
  case (turn i ps x rest run)
  then show ?case using mset_update [OF turn(1), of rest] by simp
qed

text \<open>Additions commute, so only the number of each instruction matters.\<close>

definition flight :: "instr \<Rightarrow> 64 word" where
  "flight x = (case x of AddInFlight d \<Rightarrow> d | _ \<Rightarrow> 0)"

lemma exec_totals:
  "wmStarted (fold exec_instr run m) = wmStarted m + of_nat (count (mset run) IncStarted)"
  "wmCompleted (fold exec_instr run m) = wmCompleted m + of_nat (count (mset run) IncCompleted)"
  "wmFailed (fold exec_instr run m) = wmFailed m + of_nat (count (mset run) IncFailed)"
  "wmInFlight (fold exec_instr run m) = wmInFlight m + (\<Sum>x \<in># mset run. flight x)"
  "wmName (fold exec_instr run m) = wmName m" "wmOldestAge (fold exec_instr run m) = wmOldestAge m"
proof (induction run arbitrary: m)
  case (Cons x run)
  {
    case 1
    show ?case using Cons(1) by (cases x) (simp_all add: ac_simps)
  next
    case 2
    show ?case using Cons(2) by (cases x) (simp_all add: ac_simps)
  next
    case 3
    show ?case using Cons(3) by (cases x) (simp_all add: ac_simps)
  next
    case 4
    show ?case using Cons(4) by (cases x) (simp_all add: flight_def ac_simps)
  next
    case 5
    show ?case using Cons(5) by (cases x) simp_all
  next
    case 6
    show ?case using Cons(6) by (cases x) simp_all
  }
qed simp_all

definition starts :: "worker_op list \<Rightarrow> nat" where
  "starts ops = length (filter (\<lambda>x. case x of WStart _ \<Rightarrow> True | _ \<Rightarrow> False) ops)"

definition completions :: "worker_op list \<Rightarrow> nat" where
  "completions ops = length (filter (\<lambda>x. case x of WComplete _ \<Rightarrow> True | _ \<Rightarrow> False) ops)"

definition failures :: "worker_op list \<Rightarrow> nat" where
  "failures ops = length (filter (\<lambda>x. case x of WFail _ \<Rightarrow> True | _ \<Rightarrow> False) ops)"

lemma code_totals:
  "count (mset (concat (map op_code ops))) IncStarted = starts ops" "count (mset (concat (map op_code ops))) IncCompleted = completions ops"
  "count (mset (concat (map op_code ops))) IncFailed = failures ops"
  "(\<Sum>x \<in># mset (concat (map op_code ops)). flight x) = of_nat (starts ops) - of_nat (completions ops) - of_nat (failures ops)"
proof (induction ops)
  case (Cons x ops)
  {
    case 1
    show ?case using Cons(1) by (cases x) (simp_all add: starts_def)
  next
    case 2
    show ?case using Cons(2) by (cases x) (simp_all add: completions_def)
  next
    case 3
    show ?case using Cons(3) by (cases x) (simp_all add: failures_def)
  next
    case 4
    show ?case using Cons(4) by (cases x) (simp_all add: starts_def completions_def failures_def flight_def)
  }
qed (simp_all add: starts_def completions_def failures_def)

text \<open>No interleaving loses a count. When goroutines have run their operations on the counters of a worker, in any
  interleaving of the atomic instructions, the totals are the numbers of starts, completions and failures modulo \<open>2^64\<close>, and with fewer than \<open>2^63\<close> starts
  and no more ends than starts the gauge a snapshot shows is exactly the number of runs that have not ended.\<close>

theorem worker_counts_exact:
  assumes "interleaves (map (\<lambda>ops. concat (map op_code ops)) threads) run" and "wmStarted m = 0" "wmCompleted m = 0" "wmFailed m = 0" "wmInFlight m = 0"
  shows "wmStarted (fold exec_instr run m) = of_nat (starts (concat threads)) \<and> wmCompleted (fold exec_instr run m) = of_nat (completions (concat threads)) \<and>
    wmFailed (fold exec_instr run m) = of_nat (failures (concat threads)) \<and>
    (starts (concat threads) < 2 ^ 63 \<longrightarrow> completions (concat threads) + failures (concat threads) \<le> starts (concat threads) \<longrightarrow>
      wsInFlight (Snapshot (fold exec_instr run m)) = starts (concat threads) - (completions (concat threads) + failures (concat threads)))"
proof -
  let ?ops = "concat threads"
  have "concat (map (\<lambda>ops. concat (map op_code ops)) threads) = concat (map op_code ?ops)" by (induction threads) simp_all
  then have ms: "mset run = mset (concat (map op_code ?ops))" using interleaves_mset [OF assms(1)] by simp
  have totals: "wmStarted (fold exec_instr run m) = of_nat (starts ?ops)" "wmCompleted (fold exec_instr run m) = of_nat (completions ?ops)"
    "wmFailed (fold exec_instr run m) = of_nat (failures ?ops)"
    "wmInFlight (fold exec_instr run m) = of_nat (starts ?ops) - of_nat (completions ?ops) - of_nat (failures ?ops)"
    using assms(2-5) unfolding exec_totals ms code_totals by simp_all
  have "wsInFlight (Snapshot (fold exec_instr run m)) = starts ?ops - (completions ?ops + failures ?ops)"
    if small: "starts ?ops < 2 ^ 63" and ends: "completions ?ops + failures ?ops \<le> starts ?ops"
  proof -
    let ?n = "starts ?ops - (completions ?ops + failures ?ops)"
    have "wmInFlight (fold exec_instr run m) = of_nat ?n" unfolding totals using ends by (simp add: of_nat_diff)
    moreover have "sint (of_nat ?n :: 64 word) = int ?n"
      using small by (simp add: signed_of_nat signed_take_bit_int_eq_self)
    ultimately show ?thesis by (simp add: Snapshot_def)
  qed
  with totals show ?thesis by blast
qed

section \<open>The age under concurrency\<close>

text \<open>What holds at every moment: the cell has one of the ages or its first value and never sank, nobody has loaded more than it
  holds now, and who has returned left it at least at its age.\<close>

fun observer_ok :: "int \<Rightarrow> int \<Rightarrow> observer \<Rightarrow> bool" where
  "observer_ok v age (Observing a) \<longleftrightarrow> a = age"
| "observer_ok v age (Loaded a old) \<longleftrightarrow> a = age \<and> old \<le> v"
| "observer_ok v age Observed \<longleftrightarrow> age \<le> v"

lemma observer_ok_mono: "observer_ok v age t \<Longrightarrow> v \<le> v' \<Longrightarrow> observer_ok v' age t"
  by (cases t) auto

definition observe_inv :: "int \<Rightarrow> int list \<Rightarrow> int \<times> observer list \<Rightarrow> bool" where
  "observe_inv v0 ages s \<longleftrightarrow> length (snd s) = length ages \<and> v0 \<le> fst s \<and> fst s \<in> insert v0 (set ages) \<and>
     (\<forall>i < length ages. observer_ok (fst s) (ages ! i) (snd s ! i))"

lemma observe_inv_init: "observe_inv v0 ages (v0, map Observing ages)"
  by (simp add: observe_inv_def)

lemma observe_inv_raise:
  assumes "observe_inv v0 ages (v, ts)" and "v \<le> v'" and "v' \<in> insert v0 (set ages)" and "i < length ts"
    and "observer_ok v' (ages ! i) t"
  shows "observe_inv v0 ages (v', ts[i := t])"
  using assms observer_ok_mono [OF _ assms(2)] by (auto simp: observe_inv_def nth_list_update)

lemma observe_inv_step: "observe_step s s' \<Longrightarrow> observe_inv v0 ages s \<Longrightarrow> observe_inv v0 ages s'"
proof (induction rule: observe_step.induct)
  case (turn i s)
  obtain v ts where s: "s = (v, ts)" by (cases s)
  have i: "i < length ts" "i < length ages" using turn(1,3) s by (simp_all add: observe_inv_def)
  have now: "observer_ok v (ages ! i) (ts ! i)"
    "v \<in> insert v0 (set ages)" "ages ! i \<in> insert v0 (set ages)"
    using turn(3) s i by (simp_all add: observe_inv_def)
  show ?case
  proof (cases "ts ! i")
    case (Observing a)
    with turn(3) s i now show ?thesis by (auto simp: observe_next_def intro!: observe_inv_raise)
  next
    case (Loaded a old)
    with turn(3) s i now show ?thesis by (auto simp: observe_next_def intro!: observe_inv_raise)
  qed (use turn(2) s in simp)
qed

text \<open>The loop ends: a goroutine that has to start again does so because another one has returned in between.\<close>

definition observe_cost :: "int \<Rightarrow> observer \<Rightarrow> nat" where
  "observe_cost v t = (case t of Observing _ \<Rightarrow> 2 | Loaded a old \<Rightarrow> if old = v then 1 else 3 | Observed \<Rightarrow> 0)"

definition observe_measure :: "int \<times> observer list \<Rightarrow> nat \<times> nat" where
  "observe_measure s = (length (filter (\<lambda>t. t \<noteq> Observed) (snd s)), sum_list (map (observe_cost (fst s)) (snd s)))"

lemma sum_list_update_less:
  fixes f :: "'a \<Rightarrow> nat"
  shows "i < length ts \<Longrightarrow> f t < f (ts ! i) \<Longrightarrow> sum_list (map f (ts[i := t])) < sum_list (map f ts)"
  by (induction ts arbitrary: i) (auto split: nat.splits)

lemma active_update:
  "i < length ts \<Longrightarrow> ts ! i \<noteq> Observed \<Longrightarrow> length (filter (\<lambda>t. t \<noteq> Observed) ts) =
     length (filter (\<lambda>t. t \<noteq> Observed) (ts[i := t'])) + (if t' = Observed then 1 else 0)"
  by (induction ts arbitrary: i) (auto split: nat.splits)

lemma observe_step_decreases: "observe_step s s' \<Longrightarrow> (observe_measure s', observe_measure s) \<in> less_than <*lex*> less_than"
proof (induction rule: observe_step.induct)
  case (turn i s)
  obtain v ts where s: "s = (v, ts)" by (cases s)
  note turn = turn [unfolded s snd_conv]
  show ?case
  proof (cases "ts ! i")
    case (Observing a)
    then show ?thesis
      using active_update [OF turn, of "Loaded a v"] sum_list_update_less [OF turn(1), of "observe_cost v" "Loaded a v"]
      by (simp add: s observe_next_def observe_measure_def observe_cost_def)
  next
    case (Loaded a old)
    then show ?thesis
      using active_update [OF turn, of Observed] active_update [OF turn, of "Observing a"]
        sum_list_update_less [OF turn(1), of "observe_cost v" "Observing a"]
      by (auto simp: s observe_next_def observe_measure_def observe_cost_def)
  qed (use turn(2) in simp)
qed

text \<open>C40: No age is lost when goroutines observe at the same time. In every interleaving of their loads and swaps the cell never
  sinks and holds the first value or one of the ages; when all have returned it holds the largest of them; as long as one has not
  returned a step is possible; and there is no infinite sequence of steps, so all return.\<close>

theorem observe_age_exact:
  assumes "observe_step\<^sup>*\<^sup>* (v0, map Observing ages) (v, ts)"
  shows "v0 \<le> v \<and> v \<in> insert v0 (set ages) \<and> ((\<forall>t \<in> set ts. t = Observed) \<longrightarrow> v = Max (insert v0 (set ages))) \<and>
    ((\<exists>t \<in> set ts. t \<noteq> Observed) \<longrightarrow> (\<exists>s'. observe_step (v, ts) s')) \<and> wfP (\<lambda>s' s. observe_step s s')"
proof -
  have inv: "observe_inv v0 ages (v, ts)"
    using assms by (induction rule: rtranclp_induct) (auto intro: observe_inv_init observe_inv_step)
  have "v = Max (insert v0 (set ages))" if "\<forall>t \<in> set ts. t = Observed"
  proof (rule antisym)
    show "v \<le> Max (insert v0 (set ages))" using inv by (intro Max_ge) (simp_all add: observe_inv_def)
    have "ages ! i \<le> v" if "i < length ages" for i
      using inv that \<open>\<forall>t \<in> set ts. t = Observed\<close> by (metis (no_types, lifting) fst_conv nth_mem observe_inv_def observer_ok.simps(3) snd_conv)
    then show "Max (insert v0 (set ages)) \<le> v" using inv by (auto simp: observe_inv_def in_set_conv_nth)
  qed
  moreover have "\<exists>s'. observe_step (v, ts) s'" if "\<exists>t \<in> set ts. t \<noteq> Observed"
    using that observe_step.turn [of _ "(v, ts)"] by (metis in_set_conv_nth snd_conv)
  moreover have "wfP (\<lambda>s' s. observe_step s s')"
    unfolding wfp_def by (rule wf_subset [OF wf_inv_image [of "less_than <*lex*> less_than" observe_measure]]) (auto simp: inv_image_def dest: observe_step_decreases)
  ultimately show ?thesis using inv by (auto simp: observe_inv_def)
qed

section \<open>The list of metrics\<close>

text \<open>Every custom name is listed once, unless it is both a counter and a gauge: then its counter is listed twice.\<close>

lemma custom_names_once:
  assumes "distinct (map fst (crCounters r))" and "distinct (map fst (crGauges r))"
  shows "distinct (custom_names r) \<longleftrightarrow> fst ` set (crCounters r) \<inter> fst ` set (crGauges r) = {}"
  using assms by (auto simp: custom_names_def)

lemma registry_names_distinct:
  "distinct (map fst (crCounters r)) \<Longrightarrow> distinct (map fst (crCounters (AddCounter name delta r)))"
  "distinct (map fst (crGauges r)) \<Longrightarrow> distinct (map fst (crGauges (SetGauge name value r)))"
  by (auto simp: AddCounter_def SetGauge_def Let_def bind_name_def distinct_map_filter)

lemma counter_added:
  "metricName name = name \<Longrightarrow> name \<noteq> [] \<Longrightarrow> map_of (crCounters r) name = Some v \<Longrightarrow> map_of (crCounters (AddCounter name delta r)) name = Some (v + delta)"
  by (simp add: AddCounter_def Let_def bind_name_def)

section \<open>Examples\<close>

definition demo_metrics :: WorkerMetrics where
  "demo_metrics = snd (NewWorkerMetrics 0 ''email'' [])"

theorem worker_counts_exact_witness:
  "wsInFlight (Snapshot (fold exec_instr [IncStarted, IncStarted, AddInFlight 1, AddInFlight 1, StoreHeartbeat 1, IncCompleted, AddInFlight (-1),
     StoreHeartbeat 2, StoreHeartbeat 3] demo_metrics)) = 1"
proof -
  let ?threads = "[[WStart 1, WComplete 3], [WStart 2]]"
  let ?run = "[IncStarted, IncStarted, AddInFlight 1, AddInFlight 1, StoreHeartbeat 1, IncCompleted, AddInFlight (-1), StoreHeartbeat 2, StoreHeartbeat 3]"
  have "interleaves (map (\<lambda>ops. concat (map op_code ops)) ?threads) ?run"
    by (simp, rule interleaves.turn [of 0], simp, simp, simp, rule interleaves.turn [of 1], simp, simp, simp,
        rule interleaves.turn [of 0], simp, simp, simp, rule interleaves.turn [of 1], simp, simp, simp,
        rule interleaves.turn [of 0], simp, simp, simp, rule interleaves.turn [of 0], simp, simp, simp,
        rule interleaves.turn [of 0], simp, simp, simp, rule interleaves.turn [of 1], simp, simp, simp,
        rule interleaves.turn [of 0], simp, simp, simp, rule interleaves.finished, simp)
  moreover have "wmStarted demo_metrics = 0" "wmCompleted demo_metrics = 0" "wmFailed demo_metrics = 0" "wmInFlight demo_metrics = 0"
    by (simp_all add: demo_metrics_def NewWorkerMetrics_def Let_def)
  ultimately show ?thesis using worker_counts_exact [of ?threads ?run demo_metrics] by (simp add: starts_def completions_def failures_def)
qed

text \<open>Two goroutines load zero; the second swap fails, loads again and wins.\<close>

theorem observe_age_exact_witness:
  "observe_step\<^sup>*\<^sup>* (0, map Observing [5, 9]) (9, [Observed, Observed]) \<and> Max {0, 5, 9 :: int} = 9"
proof -
  let ?s = "\<lambda>is. fold observe_next is (0, map Observing [5, 9])"
  have "observe_step\<^sup>*\<^sup>* (?s []) (?s [0])" "observe_step\<^sup>*\<^sup>* (?s [0]) (?s [0, 1])" "observe_step\<^sup>*\<^sup>* (?s [0, 1]) (?s [0, 1, 0])"
    "observe_step\<^sup>*\<^sup>* (?s [0, 1, 0]) (?s [0, 1, 0, 1])" "observe_step\<^sup>*\<^sup>* (?s [0, 1, 0, 1]) (?s [0, 1, 0, 1, 1])"
    "observe_step\<^sup>*\<^sup>* (?s [0, 1, 0, 1, 1]) (?s [0, 1, 0, 1, 1, 1])"
    by (simp_all only: fold.simps o_apply id_apply) (rule r_into_rtranclp, rule observe_step.intros, simp add: observe_next_def, simp add: observe_next_def)+
  then have "observe_step\<^sup>*\<^sup>* (?s []) (?s [0, 1, 0, 1, 1, 1])" by (meson rtranclp_trans)
  moreover have "?s [0, 1, 0, 1, 1, 1] = (9, [Observed, Observed])" by (simp add: observe_next_def)
  ultimately have run: "observe_step\<^sup>*\<^sup>* (0, map Observing [5, 9]) (9, [Observed, Observed])" by simp
  with observe_age_exact [OF run] show ?thesis by auto
qed

end
