(* ===== verification/WorkerLoops.thy ===== *)
theory WorkerLoops
  imports EmailWorker EmailOperations Metrics Webhooks Retention ProviderEvents
begin

text \<open>
  The loops of \<open>internal/worker\<close> around the iterations modelled elsewhere: \<open>Start\<close> of the e-mail worker, \<open>Start\<close> and \<open>run\<close> of the
  webhook worker, and the loops of the provider event and the retention worker, with the health state each of them keeps. What a
  \<open>select\<close> takes up next is not determined by the program; a run is a list of turns, each with its own failures, and the theorems
  hold for every list. They show that the e-mail worker never strands a message and what a healthy answer of the process says.
\<close>

section \<open>The e-mail worker\<close>

record email_worker =
  ewService :: service
  ewSent :: "submission list"
  ewHealth :: HealthState
  ewRecoveryReady :: bool
  ewLastPromotion :: "instant option"
  ewStopped :: bool

text \<open>What one turn meets: the environments of its operations, the faults of the two queue sweeps, the clock of the process and of Redis.\<close>

record turn_env =
  tnOps :: ops_env
  tnWorker :: worker_env
  tnRecoverFault :: fault
  tnPromoteFault :: fault
  tnRedisNow :: int
  tnClock :: instant
  tnPollInterval :: int

datatype turn = TurnStop | TurnMaintenance | TurnWork

definition queue_sweep :: "fault \<Rightarrow> (redis \<Rightarrow> redis) \<Rightarrow> service \<Rightarrow> service \<times> bool" where
  "queue_sweep x f s = (case redis_call x (\<lambda>q. (f q, Inr ())) (squeue s) of (q, r) \<Rightarrow> (s\<lparr>squeue := q\<rparr>, \<not> isl r))"

text \<open>Both sweeps run, whatever the first one answered.\<close>

definition recover_work :: "turn_env \<Rightarrow> email_worker \<Rightarrow> email_worker" where
  "recover_work env w =
     (case RecoverSending (tnOps env) (ewService w) of
        (s1, r) \<Rightarrow>
          (case queue_sweep (tnRecoverFault env) (Recover (tnRedisNow env)) s1 of
             (s2, swept) \<Rightarrow>
               (let ready = (\<not> isl r \<and> swept)
                in w\<lparr>ewService := s2, ewHealth := SetReady (tnClock env) ready (ewHealth w), ewRecoveryReady := ready\<rparr>)))"

definition promotion_due :: "turn_env \<Rightarrow> email_worker \<Rightarrow> bool" where
  "promotion_due env w = (case ewLastPromotion w of None \<Rightarrow> True | Some t \<Rightarrow> tnClock env - t \<ge> tnPollInterval env)"

definition promote :: "turn_env \<Rightarrow> email_worker \<Rightarrow> email_worker \<times> bool" where
  "promote env w =
     (if promotion_due env w
      then (case queue_sweep (tnPromoteFault env) (PromoteScheduled (tnRedisNow env)) (ewService w) of
              (s, ok) \<Rightarrow> (w\<lparr>ewService := s, ewLastPromotion := Some (tnClock env)\<rparr>, ok))
      else (w, True))"

definition take_next :: "turn_env \<Rightarrow> email_worker \<Rightarrow> email_worker \<times> bool" where
  "take_next env w =
     (case processNext (tnWorker env) \<lparr>sysWorld = \<lparr>wdb = sdb (ewService w), wsent = ewSent w\<rparr>, sysQueue = squeue (ewService w)\<rparr> of
        (y, ok) \<Rightarrow> (w\<lparr>ewService := (ewService w)\<lparr>sdb := wdb (sysWorld y), squeue := sysQueue y\<rparr>, ewSent := wsent (sysWorld y)\<rparr>, ok))"

definition work :: "turn_env \<Rightarrow> email_worker \<Rightarrow> email_worker" where
  "work env w =
     (let w1 = w\<lparr>ewHealth := Heartbeat (tnClock env) (ewHealth w)\<rparr>; ready = ewRecoveryReady w1 in
      case promote env w1 of
        (w2, promoted) \<Rightarrow>
          (case take_next env w2 of
             (w3, processed) \<Rightarrow> w3\<lparr>ewHealth := SetReady (tnClock env) (ready \<and> promoted \<and> processed) (ewHealth w3)\<rparr>))"

definition worker_turn :: "turn_env \<times> turn \<Rightarrow> email_worker \<Rightarrow> email_worker" where
  "worker_turn t w =
     (if ewStopped w then w
      else case snd t of
             TurnStop \<Rightarrow> w\<lparr>ewHealth := SetReady (tnClock (fst t)) False (ewHealth w), ewStopped := True\<rparr>
           | TurnMaintenance \<Rightarrow> recover_work (fst t) w
           | TurnWork \<Rightarrow> work (fst t) w)"

definition NewEmailWorker :: "instant \<Rightarrow> service \<Rightarrow> email_worker" where
  "NewEmailWorker now s = \<lparr>ewService = s, ewSent = [], ewHealth = \<lparr>hsReady = False, hsLastHeartbeat = now\<rparr>, ewRecoveryReady = False,
     ewLastPromotion = None, ewStopped = False\<rparr>"

definition EmailWorker_Start :: "turn_env \<Rightarrow> (turn_env \<times> turn) list \<Rightarrow> email_worker \<Rightarrow> email_worker" where
  "EmailWorker_Start env turns w = fold worker_turn turns (recover_work env w)"

section \<open>The webhook worker\<close>

record webhook_worker =
  vwWorld :: hook_world
  vwHealth :: HealthState
  vwRecoveryReady :: bool

record hook_turn =
  htEnv :: hook_env
  htClock :: instant
  htStaleFault :: fault
  htPipelineFault :: fault
  htOutboxFault :: fault

definition recover_hooks :: "hook_turn \<Rightarrow> webhook_worker \<Rightarrow> webhook_worker" where
  "recover_hooks t w =
     (case run_call (htStaleFault t) (RecoverStale (htClock t)) (hdb (vwWorld w)) of
        (d1, r1) \<Rightarrow>
          (case (if hePipeline (htEnv t) then run_call (htPipelineFault t) (RecoverStalePipelineWork (htOutboxFault t) (htClock t)) d1 else (d1, Inr ())) of
             (d2, r2) \<Rightarrow>
               (let ready = (\<not> isl r1 \<and> \<not> isl r2)
                in w\<lparr>vwWorld := (vwWorld w)\<lparr>hdb := d2\<rparr>, vwHealth := SetReady (htClock t) ready (vwHealth w), vwRecoveryReady := ready\<rparr>)))"

text \<open>Whether the outcome of a delivery could be stored: the calls at the end of \<open>deliver\<close> read again.\<close>

definition outcome_stored :: "hook_env \<Rightarrow> hook_world \<Rightarrow> bool" where
  "outcome_stored env w =
     (case (if hePipeline env then hook_call env HsDispatch (DispatchNextOutbox (heSHA1 env) (heNow env HsDispatch)) w else (w, Inr False)) of
        (w1, _) \<Rightarrow>
          (case hook_call env HsClaim (ClaimDelivery (heNow env HsClaim)) w1 of
             (w2, Inl _) \<Rightarrow> True
           | (w2, Inr (d, url, secret)) \<Rightarrow>
               (let post = SendWebhookWithIDPolicy (heClient env) (wdID d) url secret (wdEvent d)
                      (case wdPayload d of None \<Rightarrow> [] | Some p \<Rightarrow> p) (heRequireHTTPS env)
                in \<not> isl (if snd post then snd (hook_call env HsDelivered (MarkDelivered (heNow env HsDelivered) (wdID d)) w2)
                   else snd (hook_call env HsFailed (MarkFailed (wdID d) (heReason env)
                     (heRetryNow env + sint (webhookRetryDelay (heOverflow env) (wdAttempts d)))) w2)))))"

definition hook_iteration :: "hook_turn \<Rightarrow> webhook_worker \<Rightarrow> webhook_worker" where
  "hook_iteration t w =
     (case webhook_step (htEnv t) (vwWorld w) of
        (x, answer) \<Rightarrow>
          w\<lparr>vwWorld := x,
            vwHealth := SetReady (htClock t) (case answer of
                StepError \<Rightarrow> False | StepIdle \<Rightarrow> vwRecoveryReady w
              | StepDone \<Rightarrow> vwRecoveryReady w \<and> outcome_stored (htEnv t) (vwWorld w)) (vwHealth w)\<rparr>)"

section \<open>The provider event and the retention worker\<close>

definition provider_iteration :: "instant \<Rightarrow> bool \<Rightarrow> inbox_env \<Rightarrow> db \<times> HealthState \<Rightarrow> db \<times> HealthState" where
  "provider_iteration now pipeline env x =
     (case ProcessNextProviderEvent pipeline env (fst x) of (d, r) \<Rightarrow> (d, SetReady now (\<not> isl r) (Heartbeat now (snd x))))"

datatype retention_turn = RunTick | HeartbeatTick | RetentionStop

definition RetentionWorker_run :: "instant \<Rightarrow> retention_env \<Rightarrow> int \<Rightarrow> int \<Rightarrow> ret_state \<times> HealthState \<Rightarrow> ret_state \<times> HealthState" where
  "RetentionWorker_run now env emailAge inboundAge x =
     (case Purge env emailAge inboundAge (fst x) of (s, r) \<Rightarrow> (s, SetReady now (\<not> isl r) (snd x)))"

fun retention_loop :: "int \<Rightarrow> int \<Rightarrow> (instant \<times> retention_env \<times> retention_turn) list \<Rightarrow> ret_state \<times> HealthState \<Rightarrow> ret_state \<times> HealthState" where
  "retention_loop emailAge inboundAge [] x = x"
| "retention_loop emailAge inboundAge ((now, env, RunTick) # turns) x = retention_loop emailAge inboundAge turns (RetentionWorker_run now env emailAge inboundAge x)"
| "retention_loop emailAge inboundAge ((now, env, HeartbeatTick) # turns) x = retention_loop emailAge inboundAge turns (fst x, Heartbeat now (snd x))"
| "retention_loop emailAge inboundAge ((now, env, RetentionStop) # turns) x = (fst x, SetReady now False (snd x))"

definition RetentionWorker_Start ::
  "bool \<Rightarrow> int \<Rightarrow> int \<Rightarrow> instant \<times> retention_env \<Rightarrow> (instant \<times> retention_env \<times> retention_turn) list \<Rightarrow> ret_state \<times> HealthState \<Rightarrow> ret_state \<times> HealthState" where
  "RetentionWorker_Start service emailAge inboundAge first turns x =
     (if \<not> service \<or> (emailAge \<le> 0 \<and> inboundAge \<le> 0) then (fst x, SetReady (fst first) True (snd x))
      else retention_loop emailAge inboundAge turns (RetentionWorker_run (fst first) (snd first) emailAge inboundAge x))"

section \<open>Work on one message\<close>

text \<open>The statements a worker issues for a queue item are about the message the item names.\<close>

definition about :: "uuid \<Rightarrow> repo_op \<Rightarrow> bool" where
  "about i op = (case op of
     OpClaim _ c \<Rightarrow> claimEmailID c = i | OpStarted _ c \<Rightarrow> claimEmailID c = i | OpRetryable _ c \<Rightarrow> claimEmailID c = i
   | OpAccepted _ c _ _ _ \<Rightarrow> claimEmailID c = i | OpFailed _ c _ _ \<Rightarrow> claimEmailID c = i | OpAmbiguous _ c _ _ \<Rightarrow> claimEmailID c = i
   | OpDeadLetter j \<Rightarrow> j = i | OpAddEvent _ \<Rightarrow> True | _ \<Rightarrow> False)"

definition moves :: "uuid \<Rightarrow> world \<Rightarrow> world \<Rightarrow> bool" where
  "moves i w w' \<longleftrightarrow> (\<exists>ops. wdb w' = run_ops ops (wdb w) \<and> (\<forall>op \<in> set ops. about i op))"

lemma moves_refl [simp]: "wdb w' = wdb w \<Longrightarrow> moves i w w'"
  unfolding moves_def by (intro exI [of _ "[]"]) (simp add: run_ops_def)

lemma moves_trans: "moves i w w1 \<Longrightarrow> moves i w1 w2 \<Longrightarrow> moves i w w2"
  unfolding moves_def by (metis (no_types, lifting) run_ops_append set_append Un_iff)

lemma reaches_moves: "reaches P w w' \<Longrightarrow> (\<And>op. P op \<Longrightarrow> about i op) \<Longrightarrow> moves i w w'"
  unfolding reaches_def moves_def by blast

lemma call_moves: "db_call env st f w = (w1, r) \<Longrightarrow> (\<And>s. fst (f s) = exec_op op s) \<Longrightarrow> about i op \<Longrightarrow> moves i w w1"
  using db_call_reaches' [of env st f w w1 r op "about i"] reaches_moves by blast

lemma settling_about: "settling_op c op \<Longrightarrow> about (claimEmailID c) op"
  by (cases op) (simp_all add: settling_op_def about_def)

lemma settles_moves: "reaches (settling_op c) w w' \<Longrightarrow> moves (claimEmailID c) w w'"
  by (erule reaches_moves) (rule settling_about)

lemma event_moves: "moves i w (recordEvent env st j name data w)"
  by (rule reaches_moves [OF recordEvent_reaches [where P = "about i"]]) (simp_all add: about_def)

lemma retry_moves: "db_call env st (MarkSendRetryable now c) w = (w1, r) \<Longrightarrow> moves (claimEmailID c) w w1"
  by (rule call_moves [where op = "OpRetryable now c"]) (simp_all add: about_def)

lemma send_error_moves: "moves (claimEmailID c) w (fst (handle_send_error env c email err w))"
proof (cases "may_be_out (Inl err)")
  case False
  obtain w1 x where r: "db_call env SRetry (MarkSendRetryable (penvNow env SRetry) c) w = (w1, x)"
    by (cases "db_call env SRetry (MarkSendRetryable (penvNow env SRetry) c) w")
  from False r retry_moves [OF r] moves_trans [OF retry_moves [OF r] event_moves] show ?thesis
    by (simp add: handle_send_error_def may_be_out_def Let_def split: sum.split bool.split)
qed (rule settles_moves, rule handle_send_error_settles)

lemma submit_moves: "moves (claimEmailID c) w (fst (submit env c email w))"
proof -
  let ?w = "w\<lparr>wsent := wsent w @ [claim_submission c]\<rparr>"
  have "moves (claimEmailID c) ?w (fst (submit env c email w))"
    using send_error_moves settles_moves [OF park_ambiguous_reaches] settles_moves [OF handle_accepted_reaches]
    by (simp add: submit_def claim_submission_def Let_def split: sum.split)
  then show ?thesis by (simp add: moves_def)
qed

lemma policy_moves: "moves (claimEmailID c) w (fst (refuse_by_policy env c email p w))"
proof (cases "p = PolicyUnavailable")
  case True
  obtain w1 x where r: "db_call env SPolicyRetry (MarkSendRetryable (penvNow env SPolicyRetry) c) w = (w1, x)"
    by (cases "db_call env SPolicyRetry (MarkSendRetryable (penvNow env SPolicyRetry) c) w")
  with True retry_moves [OF r] show ?thesis by (simp add: refuse_by_policy_def split: sum.split bool.split)
next
  case False
  have "moves (claimEmailID c) w w1" if "db_call env SPolicyFail (FinalizeFailed (penvNow env SPolicyFail) c ev ob) w = (w1, x)" for ev ob w1 x
    using settles_moves [OF finalize_failed_reaches, of c w env SPolicyFail "penvNow env SPolicyFail" ev ob] that by simp
  with False show ?thesis
    by (auto simp: refuse_by_policy_def split: option.split prod.split sum.split bool.split)
qed

lemma run_claimed_moves: "moves (claimEmailID c) w (fst (run_claimed env c email w))"
proof -
  let ?c = "c\<lparr>claimLeaseUntil := penvStartTime env + 2 * minute\<rparr>"
  obtain w1 x where st: "db_call env SStart (MarkSendStarted (penvNow env SStart) ?c) w = (w1, x)"
    by (cases "db_call env SStart (MarkSendStarted (penvNow env SStart) ?c) w")
  have m: "moves (claimEmailID c) w w1"
    using st by (rule call_moves [where op = "OpStarted (penvNow env SStart) ?c"]) (simp_all add: about_def)
  moreover have "moves (claimEmailID c) w1 (fst (submit env ?c e (recordEvent env SEvent (claimEmailID c) ''email.sending'' None w1)))" for e
    using moves_trans [OF event_moves submit_moves [of ?c]] by simp
  ultimately show ?thesis
    using policy_moves moves_trans [OF m] st by (auto simp: run_claimed_def Let_def split: sum.split bool.split)
qed

lemma process_moves:
  "penvParse env item = Some i \<Longrightarrow> moves i w (fst (processFromQueueDurable env item w))"
  "penvParse env item = None \<Longrightarrow> fst (processFromQueueDurable env item w) = w"
proof -
  assume i: "penvParse env item = Some i"
  let ?c = "env_claim env i"
  obtain w1 x where cl: "db_call env SClaim (ClaimSendAttempt (penvNow env SClaim) ?c) w = (w1, x)"
    by (cases "db_call env SClaim (ClaimSendAttempt (penvNow env SClaim) ?c) w")
  have m: "moves i w w1"
    using cl by (rule call_moves [where op = "OpClaim (penvNow env SClaim) ?c"]) (simp_all add: about_def env_claim_def)
  moreover have "moves i w1 (fst (run_claimed env ?c e w1))" for e using run_claimed_moves [of ?c] by (simp add: env_claim_def)
  ultimately show "moves i w (fst (processFromQueueDurable env item w))"
    using i cl moves_trans [OF m] by (auto simp: processFromQueueDurable_def Let_def split: sum.split bool.split option.split)
qed (simp add: processFromQueueDurable_def)

lemma mark_failed_moves:
  "penvParse env item = Some i \<Longrightarrow> moves i w (fst (MarkFailedFromQueue env item reason w))"
  "penvParse env item = None \<Longrightarrow> fst (MarkFailedFromQueue env item reason w) = w"
proof -
  assume i: "penvParse env item = Some i"
  obtain w1 x where d: "db_call env SDeadLetter (MarkDeadLetterFailed i) w = (w1, x)" by (cases "db_call env SDeadLetter (MarkDeadLetterFailed i) w")
  have "moves i w w1" using d by (rule call_moves [where op = "OpDeadLetter i"]) (simp_all add: about_def)
  then show "moves i w (fst (MarkFailedFromQueue env item reason w))"
    using i d moves_trans [OF _ event_moves] by (auto simp: MarkFailedFromQueue_def split: sum.split)
qed (simp add: MarkFailedFromQueue_def)

text \<open>Such statements leave every other row as it is.\<close>

lemma row_step_about: "row_step op e e' \<Longrightarrow> about i op \<Longrightarrow> eID e = i"
  by (induction rule: row_step.induct) (auto simp: about_def row_defs claim_matches_def)

lemma about_row:
  assumes "keyed eID (emails s)" "about i op" "k \<noteq> i" "email_at (exec_op op s) k = Some e"
  shows "email_at s k = Some e"
proof -
  have "steps_rows op s (exec_op op s)" using assms(2) by (intro exec_op_row [OF assms(1)]) (auto simp: about_def)
  with assms(4) obtain e0 where "email_at s k = Some e0" "e = e0 \<or> row_step op e0 e" by (auto simp: steps_rows_def)
  then show ?thesis using row_step_about assms(2,3) email_at_SomeD by blast
qed

lemma moves_row:
  assumes "moves i w w'" "keyed eID (emails (wdb w))" "k \<noteq> i" "email_at (wdb w') k = Some e"
  shows "email_at (wdb w) k = Some e"
proof -
  obtain ops where "wdb w' = run_ops ops (wdb w)" "\<forall>op \<in> set ops. about i op" using assms(1) by (auto simp: moves_def)
  moreover have "email_at (run_ops ops s) k = Some e \<Longrightarrow> email_at s k = Some e" if "keyed eID (emails s)" "\<forall>op \<in> set ops. about i op" for s
    using that
  proof (induction ops arbitrary: s)
    case (Cons op ops)
    then show ?case using about_row [OF Cons.prems(2) _ assms(3)] keyed_exec_op [OF Cons.prems(2), of op] by (auto simp: run_ops_def)
  qed (simp add: run_ops_def)
  ultimately show ?thesis using assms(2,4) by simp
qed

lemma moves_ok: "moves i w w' \<Longrightarrow> db_ok (wdb w) \<Longrightarrow> db_ok (wdb w')"
  unfolding moves_def using run_ops_ok by (fastforce simp: about_def op_ok_def split: repo_op.splits)

section \<open>No message is stranded\<close>

text \<open>A message is stranded when its row waits to be sent, is not marked for recovery, and nothing in the queue's care names it: it is
  neither in a list that the workers poll nor in the dead-letter list that the operators see.\<close>

definition polled :: "redis \<Rightarrow> string set" where
  "polled q = set (pending q) \<union> item_id ` set (processing q) \<union> fst ` set (scheduled q)"

lemma jobs_polled: "jobs q = polled q \<union> set (dead q)"
  by (simp add: jobs_def polled_def)

definition stranded :: "(string \<Rightarrow> uuid option) \<Rightarrow> uuid \<Rightarrow> db \<Rightarrow> redis \<Rightarrow> bool" where
  "stranded names i d q \<longleftrightarrow>
     (\<exists>e. email_at d i = Some e \<and> eStatus e = EmailStatusQueued \<and> \<not> eQueueRecoveryPending e) \<and> (\<forall>j \<in> jobs q. names j \<noteq> Some i)"

lemma stranded_jobs: "\<not> stranded names i d q \<Longrightarrow> jobs q \<subseteq> jobs q' \<Longrightarrow> \<not> stranded names i d q'"
  by (auto simp: stranded_def)

lemma stranded_row:
  "\<not> stranded names i d q \<Longrightarrow> \<forall>j \<in> jobs q. names j \<noteq> Some i \<Longrightarrow> (\<And>e. email_at d' i = Some e \<Longrightarrow> email_at d i = Some e) \<Longrightarrow> \<not> stranded names i d' q'"
  unfolding stranded_def by blast

lemma unclaimable_not_stranded: "unclaimable i d \<Longrightarrow> \<not> stranded names i d q"
  by (auto simp: stranded_def unclaimable_def)

lemma q_call_world: "q_call env st f y = (y1, res) \<Longrightarrow> sysWorld y1 = sysWorld y"
  by (auto simp: q_call_def split: prod.splits)

lemma settle_error_world:
  assumes "settle_error env r e y = (y', ok)"
  shows "sysWorld y' = sysWorld y \<or>
    sysWorld y' = fst (MarkFailedFromQueue (wkProc env) (qrEmailID r) ''delivery retry limit exceeded'' (sysWorld y))"
proof (cases "terminal_result e \<or> (\<exists>due. e = ErrEmailNotDue due)")
  case True
  then show ?thesis
    using assms by (auto simp: settle_error_def terminal_result_def split: prod.splits sum.splits dest!: q_call_world)
next
  case False
  obtain y1 x where r: "q_call env QReq (Requeue (Some r) True (wkNow env)) y = (y1, x)"
    by (cases "q_call env QReq (Requeue (Some r) True (wkNow env)) y")
  have "settle_error env r e y =
      (case x of Inr _ \<Rightarrow> (y1, True)
       | Inl ErrDeadLettered \<Rightarrow> (case MarkFailedFromQueue (wkProc env) (qrEmailID r) ''delivery retry limit exceeded'' (sysWorld y1) of
           (w, ok) \<Rightarrow> (y1\<lparr>sysWorld := w\<rparr>, ok))
       | Inl _ \<Rightarrow> (y1, False))"
    using False r by (cases e) (simp_all add: settle_error_def terminal_result_def)
  then show ?thesis
    using assms q_call_world [OF r] by (auto split: sum.splits queue_error.splits prod.splits)
qed

lemma processNext_work:
  assumes "processNext env y = (y', ok)"
  obtains (idle) "sysWorld y' = sysWorld y"
  | (item) r :: QueueReceipt and i where "qrEmailID r \<in> jobs (sysQueue y)" "penvParse (wkProc env) (qrEmailID r) = Some i" "moves i (sysWorld y) (sysWorld y')"
proof -
  obtain y1 x where d: "q_call env QDeq (Dequeue (wkToken env) (wkNow env)) y = (y1, x)"
    by (cases "q_call env QDeq (Dequeue (wkToken env) (wkNow env)) y")
  then have y1: "sysWorld y1 = sysWorld y" by (auto simp: q_call_def split: prod.splits)
  show ?thesis
  proof (cases "\<exists>r. x = Inr (Some r) \<and> qrEmailID r \<noteq> []")
    case False
    then have "sysWorld y' = sysWorld y" using assms d y1 by (auto simp: processNext_def split: sum.splits option.splits if_splits)
    then show ?thesis by (rule idle)
  next
    case True
    then obtain r where r: "x = Inr (Some r)" "qrEmailID r \<noteq> []" by blast
    have "qrEmailID r \<in> set (pending (sysQueue y))"
      using d r(1) by (auto simp: q_call_def redis_call_def Dequeue_def Let_def split: prod.splits fault.splits if_splits)
    then have job: "qrEmailID r \<in> jobs (sysQueue y)" by (simp add: jobs_def)
    obtain w a where p: "processFromQueueDurable (wkProc env) (qrEmailID r) (sysWorld y) = (w, a)"
      by (cases "processFromQueueDurable (wkProc env) (qrEmailID r) (sysWorld y)")
    have "sysWorld y' = w \<or> sysWorld y' = fst (MarkFailedFromQueue (wkProc env) (qrEmailID r) ''delivery retry limit exceeded'' w)"
    proof (cases a)
      case (Inl e)
      then have "settle_error env r e (y1\<lparr>sysWorld := w\<rparr>) = (y', ok)" using assms d r p y1 by (simp add: processNext_def)
      then show ?thesis using settle_error_world by fastforce
    next
      case (Inr u)
      then show ?thesis using assms d r p y1 by (auto simp: processNext_def q_call_def split: prod.splits)
    qed
    note world = this
    show ?thesis
    proof (cases "penvParse (wkProc env) (qrEmailID r)")
      case None
      then show ?thesis using world idle process_moves(2) [of "wkProc env" "qrEmailID r" "sysWorld y"] mark_failed_moves(2) [of "wkProc env" "qrEmailID r"] p by fastforce
    next
      case (Some i)
      have "moves i (sysWorld y) w" using process_moves(1) [OF Some, of "sysWorld y"] p by simp
      then show ?thesis using world item [OF job Some] moves_trans [OF _ mark_failed_moves(1) [OF Some]] by auto
    qed
  qed
qed

lemma processNext_strands_nothing:
  assumes "db_ok (wdb (sysWorld y))" "no_sep (wkToken env)" "length (dead (sysQueue y)) < 10000"
    and "\<not> stranded (penvParse (wkProc env)) i (wdb (sysWorld y)) (sysQueue y)" and "processNext env y = (y', ok)"
  shows "\<not> stranded (penvParse (wkProc env)) i (wdb (sysWorld y')) (sysQueue y')"
proof (cases "\<exists>j \<in> jobs (sysQueue y). penvParse (wkProc env) j = Some i")
  case True
  then obtain j where j: "j \<in> jobs (sysQueue y)" "penvParse (wkProc env) j = Some i" by blast
  show ?thesis
  proof (cases "j \<in> jobs (sysQueue y')")
    case False
    then have "unclaimable i (wdb (sysWorld y'))" using drops_only_settled [OF assms(1-3) j(1) assms(5)] j(2) by auto
    then show ?thesis by (rule unclaimable_not_stranded)
  qed (use j(2) in \<open>auto simp: stranded_def\<close>)
next
  case False
  from assms(5) show ?thesis
  proof (cases rule: processNext_work)
    case idle
    then show ?thesis using stranded_row [OF assms(4)] False by auto
  next
    case (item r k)
    then have "i \<noteq> k" using False by auto
    have "email_at (wdb (sysWorld y)) i = Some e" if "email_at (wdb (sysWorld y')) i = Some e" for e
      using moves_row [OF item(3) _ \<open>i \<noteq> k\<close> that] assms(1) by (simp add: db_ok_def)
    then show ?thesis using stranded_row [OF assms(4)] False by auto
  qed
qed

lemma processNext_ok: "processNext env y = (y', ok) \<Longrightarrow> db_ok (wdb (sysWorld y)) \<Longrightarrow> db_ok (wdb (sysWorld y'))"
  by (erule processNext_work) (auto intro: moves_ok)

text \<open>The dead-letter list grows by at most one item per iteration.\<close>

lemma dead_sweeps [simp]: "dead (PromoteScheduled now q) = dead q" "dead (Recover now q) = dead q"
proof -
  have "dead (fold (\<lambda>i q. q\<lparr>scheduled := zrem i (scheduled q), pending := i # pending q\<rparr>) xs q) = dead q" for xs by (induction xs arbitrary: q) simp_all
  then show "dead (PromoteScheduled now q) = dead q" by (simp add: PromoteScheduled_def)
  have "dead (fold (recover_item now) xs q) = dead q" for xs q by (induction xs arbitrary: q) (simp_all add: recover_item_def)
  then show "dead (Recover now q) = dead q" by (simp add: Recover_def)
qed

lemma dead_settling:
  "dead (fst (Dequeue token now q)) = dead q" "dead (fst (Ack (Some r) q)) = dead q" "dead (fst (RescheduleReceipt (Some r) due q)) = dead q"
  "length (dead (fst (Requeue (Some r) cnt now q))) \<le> length (dead q) + (if cnt then 1 else 0)"
  by (simp_all add: Dequeue_def Ack_def RescheduleReceipt_def Requeue_def Let_def)

lemma q_call_dead:
  assumes "q_call env st f y = (y1, res)" "\<And>q. length (dead (fst (f q))) \<le> length (dead q) + n"
  shows "length (dead (sysQueue y1)) \<le> length (dead (sysQueue y)) + n"
  using assms(1) assms(2) [of "sysQueue y"] redis_call_state [of "wkFault env st" f "sysQueue y"] by (auto simp: q_call_def split: prod.splits)

lemma settle_error_dead:
  assumes "settle_error env r e y = (y', ok)"
  shows "length (dead (sysQueue y')) \<le> Suc (length (dead (sysQueue y)))"
proof (cases "terminal_result e \<or> (\<exists>due. e = ErrEmailNotDue due)")
  case True
  then show ?thesis
  proof
    assume "terminal_result e"
    then obtain res where r: "q_call env QAckTerminal (Ack (Some r)) y = (y', res)"
      using assms by (auto simp: settle_error_def split: prod.splits)
    show ?thesis using q_call_dead [OF r, of 0] dead_settling(2) by simp
  next
    assume "\<exists>due. e = ErrEmailNotDue due"
    then obtain due where e: "e = ErrEmailNotDue due" by blast
    obtain y1 x where r1: "q_call env QResched (RescheduleReceipt (Some r) (wkUnix env due)) y = (y1, x)"
      by (cases "q_call env QResched (RescheduleReceipt (Some r) (wkUnix env due)) y")
    obtain y2 z where r2: "q_call env QFallback (Requeue (Some r) False (wkNow env)) y1 = (y2, z)"
      by (cases "q_call env QFallback (Requeue (Some r) False (wkNow env)) y1")
    have "y' = y1 \<or> y' = y2" using assms e r1 r2 by (auto simp: settle_error_def terminal_result_def split: sum.splits)
    moreover have "length (dead (sysQueue y1)) \<le> length (dead (sysQueue y))" using q_call_dead [OF r1, of 0] dead_settling(3) by simp
    moreover have "length (dead (sysQueue y2)) \<le> length (dead (sysQueue y1))" using q_call_dead [OF r2, of 0] dead_settling(4) [of r False] by simp
    ultimately show ?thesis by auto
  qed
next
  case False
  obtain y1 x where r: "q_call env QReq (Requeue (Some r) True (wkNow env)) y = (y1, x)"
    by (cases "q_call env QReq (Requeue (Some r) True (wkNow env)) y")
  have "length (dead (sysQueue y1)) \<le> Suc (length (dead (sysQueue y)))" using q_call_dead [OF r, of 1] dead_settling(4) [of r True] by simp
  moreover have "sysQueue y' = sysQueue y1"
    using assms False r
    by (cases e) (auto simp: settle_error_def terminal_result_def split: sum.splits queue_error.splits prod.splits)
  ultimately show ?thesis by simp
qed

lemma processNext_dead:
  assumes "processNext env y = (y', ok)"
  shows "length (dead (sysQueue y')) \<le> Suc (length (dead (sysQueue y)))"
proof -
  obtain y1 x where d: "q_call env QDeq (Dequeue (wkToken env) (wkNow env)) y = (y1, x)"
    by (cases "q_call env QDeq (Dequeue (wkToken env) (wkNow env)) y")
  have y1: "length (dead (sysQueue y1)) \<le> length (dead (sysQueue y))" using q_call_dead [OF d, of 0] dead_settling(1) by simp
  have ack: "length (dead (sysQueue y2)) \<le> length (dead (sysQueue y1))" if "q_call env QAckDone (Ack (Some r)) (y1\<lparr>sysWorld := w\<rparr>) = (y2, res)" for r w y2 res
    using q_call_dead [OF that, of 0] dead_settling(2) by simp
  have err: "length (dead (sysQueue y2)) \<le> Suc (length (dead (sysQueue y1)))" if "settle_error env r e (y1\<lparr>sysWorld := w\<rparr>) = (y2, b)" for r e w y2 b
    using settle_error_dead [OF that] by simp
  from assms d have "y' = y1 \<or> (\<exists>r w res. q_call env QAckDone (Ack (Some r)) (y1\<lparr>sysWorld := w\<rparr>) = (y', res)) \<or>
      (\<exists>r e w b. settle_error env r e (y1\<lparr>sysWorld := w\<rparr>) = (y', b))"
    by (auto simp: processNext_def split: sum.splits option.splits if_splits prod.splits)
  then show ?thesis using y1 ack err by fastforce
qed

section \<open>Recovery\<close>

text \<open>What a run keeps: the rows are well-formed, the message is not stranded, and the dead-letter list has at most so many items.\<close>

definition safe :: "(string \<Rightarrow> uuid option) \<Rightarrow> uuid \<Rightarrow> nat \<Rightarrow> service \<Rightarrow> bool" where
  "safe names i n s \<longleftrightarrow> db_ok (sdb s) \<and> \<not> stranded names i (sdb s) (squeue s) \<and> length (dead (squeue s)) \<le> n"

lemma sweep_rows_ok:
  "db_ok d \<Longrightarrow> db_ok (fst (RecoverExpiredSendAttempts now d))" "db_ok d \<Longrightarrow> db_ok (fst (MarkQueueRecoveryEnqueued j d))"
  using exec_op_ok [of d "OpRecover now"] exec_op_ok [of d "OpEnqueued j"] by (simp_all add: op_ok_def)

lemma sweep_strands_nothing: "\<not> stranded names i d q \<Longrightarrow> \<not> stranded names i (fst (RecoverExpiredSendAttempts now d)) q"
  unfolding stranded_def sweep_at
  by (cases "email_at d i") (auto simp: recover_leased_set_def recover_started_set_def)

lemma safe_sweep:
  assumes "safe names i n s" "sdb s1 = sdb s \<or> sdb s1 = fst (RecoverExpiredSendAttempts now (sdb s))" "squeue s1 = squeue s"
  shows "safe names i n s1"
  using assms(2)
proof
  assume "sdb s1 = fst (RecoverExpiredSendAttempts now (sdb s))"
  then show ?thesis
    using assms(1,3) sweep_rows_ok(1) [of "sdb s" now] sweep_strands_nothing [of names i "sdb s" "squeue s" now] by (simp add: safe_def)
qed (use assms(1,3) in \<open>simp add: safe_def\<close>)

lemma enqueue_keeps: "jobs q \<subseteq> jobs (Enqueue item q)" "dead (Enqueue item q) = dead q"
  by (auto simp: Enqueue_def jobs_def)

lemma safe_recover_one:
  assumes "safe (opParse env) i n s"
  shows "safe (opParse env) i n (fst (recover_one env m item s))"
proof -
  let ?f = "\<lambda>q. (Enqueue item q, Inr ())"
  obtain s1 r where q: "op_queue env (OsEnqueue m) ?f s = (s1, r)" by (cases "op_queue env (OsEnqueue m) ?f s")
  have "sdb s1 = sdb s" "squeue s1 = squeue s \<or> squeue s1 = Enqueue item (squeue s)"
    using op_queue_state [of env "OsEnqueue m" ?f s] q by auto
  then have s1: "safe (opParse env) i n s1"
    using assms stranded_jobs [OF _ enqueue_keeps(1) [of "squeue s" item], of "opParse env" i "sdb s"]
    by (auto simp: safe_def enqueue_keeps(2))
  show ?thesis
  proof (cases "\<exists>u j. r = Inr u \<and> opParse env item = Some j")
    case True
    then obtain u j where j: "r = Inr u" "opParse env item = Some j" by blast
    have "squeue s1 = Enqueue item (squeue s)" using op_queue_Inr [OF q [unfolded j(1)]] by auto
    then have named: "item \<in> jobs (squeue s1)" by (simp add: jobs_def Enqueue_def)
    let ?m = "op_db env (OsMark m) (MarkQueueRecoveryEnqueued j) s1"
    have m: "squeue (fst ?m) = squeue s1" "sdb (fst ?m) = sdb s1 \<or> sdb (fst ?m) = fst (MarkQueueRecoveryEnqueued j (sdb s1))"
      using op_db_state [of env "OsMark m" "MarkQueueRecoveryEnqueued j" s1] by auto
    have "\<not> stranded (opParse env) i (fst (MarkQueueRecoveryEnqueued j (sdb s1))) (squeue s1)"
      using s1 named j(2) email_at_SomeD [of "sdb s1" i] by (auto simp: safe_def stranded_def mark_enqueued_at split: if_splits)
    then have "safe (opParse env) i n (fst ?m)" using s1 m sweep_rows_ok(2) [of "sdb s1" j] by (auto simp: safe_def)
    then show ?thesis using q j by (cases ?m) (auto simp: recover_one_def split: sum.splits)
  next
    case False
    then have "fst (recover_one env m item s) = s1" using q by (auto simp: recover_one_def split: sum.splits option.splits)
    then show ?thesis using s1 by simp
  qed
qed

lemma safe_recover_loop: "safe (opParse env) i n s \<Longrightarrow> safe (opParse env) i n (fst (recover_loop env m ids s))"
proof (induction ids arbitrary: m s)
  case (Cons j ids)
  from Cons.IH [OF safe_recover_one [OF Cons.prems]] show ?case by (simp split: prod.splits) (metis fst_conv)
qed simp

lemma safe_RecoverSending:
  assumes "safe (opParse env) i n s"
  shows "safe (opParse env) i n (fst (RecoverSending env s))"
proof (cases "opAttemptRepo env")
  case True
  from surjective_pairing [of "RecoverSending env s"] True show ?thesis
  proof (cases rule: RecoverSending_cases)
    case 1
    then show ?thesis using assms by (simp add: safe_def)
  next
    case (2 m ids s1)
    then have "safe (opParse env) i n s1" using safe_sweep [OF assms] by blast
    then show ?thesis using 2(3) safe_recover_loop by simp
  qed
next
  case False
  let ?w = "op_db env OsSweep (ResetSendingToQueued (opNow env OsSweep)) s"
  have "fst (RecoverSending env s) = fst ?w" using False by (auto simp: RecoverSending_def split: prod.splits sum.splits)
  then show ?thesis
    using safe_sweep [OF assms, of "fst ?w" "opNow env OsSweep"] op_db_state [of env OsSweep "ResetSendingToQueued (opNow env OsSweep)" s]
    by (simp add: ResetSendingToQueued_def)
qed

lemma safe_queue_sweep:
  assumes "safe names i n s" "\<And>q. jobs q \<subseteq> jobs (f q)" "\<And>q. dead (f q) = dead q"
  shows "safe names i n (fst (queue_sweep x f s))"
proof -
  have "sdb (fst (queue_sweep x f s)) = sdb s" "squeue (fst (queue_sweep x f s)) = squeue s \<or> squeue (fst (queue_sweep x f s)) = f (squeue s)"
    using redis_call_state [of x "\<lambda>q. (f q, Inr ())" "squeue s"] by (auto simp: queue_sweep_def split: prod.splits)
  then show ?thesis using assms stranded_jobs [OF _ assms(2)] by (auto simp: safe_def)
qed

section \<open>Runs of the e-mail worker\<close>

definition turn_ok :: "(string \<Rightarrow> uuid option) \<Rightarrow> turn_env \<Rightarrow> bool" where
  "turn_ok names env \<longleftrightarrow> opParse (tnOps env) = names \<and> penvParse (wkProc (tnWorker env)) = names \<and> no_sep (wkToken (tnWorker env))"

lemma safe_recover_work: "turn_ok names env \<Longrightarrow> safe names i n (ewService w) \<Longrightarrow> safe names i n (ewService (recover_work env w))"
proof -
  assume ok: "turn_ok names env" "safe names i n (ewService w)"
  let ?r = "RecoverSending (tnOps env) (ewService w)"
  let ?q = "queue_sweep (tnRecoverFault env) (Recover (tnRedisNow env)) (fst ?r)"
  have "safe names i n (fst ?r)" using safe_RecoverSending [of "tnOps env" i n "ewService w"] ok by (simp add: turn_ok_def)
  then have "safe names i n (fst ?q)" by (rule safe_queue_sweep) (rule recover_jobs dead_sweeps(2))+
  then show ?thesis by (cases ?r; cases ?q) (simp add: recover_work_def Let_def)
qed

lemma promote_keeps_jobs: "jobs q \<subseteq> jobs (PromoteScheduled now q)"
  using exec_q_keeps [of "QPromote now" _ q] by (auto simp: q_ok_def finishes_def)

lemma safe_take_next:
  assumes "turn_ok names env" "safe names i n (ewService w)" "n < 10000"
  shows "safe names i (Suc n) (ewService (fst (take_next env w)))"
proof -
  let ?y = "\<lparr>sysWorld = \<lparr>wdb = sdb (ewService w), wsent = ewSent w\<rparr>, sysQueue = squeue (ewService w)\<rparr>"
  obtain y' ok where run: "processNext (tnWorker env) ?y = (y', ok)" by (cases "processNext (tnWorker env) ?y")
  have "\<not> stranded names i (wdb (sysWorld y')) (sysQueue y')"
    using processNext_strands_nothing [OF _ _ _ _ run, of i] assms by (simp add: turn_ok_def safe_def)
  moreover have "db_ok (wdb (sysWorld y'))" using processNext_ok [OF run] assms(2) by (simp add: safe_def)
  moreover have "length (dead (sysQueue y')) \<le> Suc n" using processNext_dead [OF run] assms(2) by (simp add: safe_def)
  ultimately show ?thesis using run by (simp add: take_next_def safe_def)
qed

lemma safe_work:
  assumes "turn_ok names env" "safe names i n (ewService w)" "n < 10000"
  shows "safe names i (Suc n) (ewService (work env w))"
proof -
  let ?w = "w\<lparr>ewHealth := Heartbeat (tnClock env) (ewHealth w)\<rparr>"
  let ?q = "queue_sweep (tnPromoteFault env) (PromoteScheduled (tnRedisNow env)) (ewService w)"
  have "ewService (fst (promote env ?w)) = ewService w \<or> ewService (fst (promote env ?w)) = fst ?q"
    by (cases "promotion_due env ?w"; cases ?q) (simp_all add: promote_def)
  moreover have "safe names i n (fst ?q)" by (rule safe_queue_sweep [OF assms(2) promote_keeps_jobs dead_sweeps(1)])
  ultimately have "safe names i n (ewService (fst (promote env ?w)))" using assms(2) by auto
  from safe_take_next [OF assms(1) this assms(3)] show ?thesis
    by (cases "promote env ?w"; cases "take_next env (fst (promote env ?w))") (simp add: work_def Let_def)
qed

lemma safe_turn:
  assumes "turn_ok names (fst t)" "safe names i n (ewService w)" "n < 10000"
  shows "safe names i (Suc n) (ewService (worker_turn t w))"
  using safe_recover_work [OF assms(1,2)] safe_work [OF assms] assms(2)
  by (auto simp: worker_turn_def safe_def split: turn.split)

lemma safe_run:
  "safe names i n (ewService w) \<Longrightarrow> n + length turns < 10000 \<Longrightarrow> \<forall>t \<in> set turns. turn_ok names (fst t) \<Longrightarrow>
   safe names i (n + length turns) (ewService (fold worker_turn turns w))"
proof (induction turns arbitrary: n w)
  case (Cons t turns)
  have "safe names i (Suc n) (ewService (worker_turn t w))" using safe_turn [of names t i n w] Cons.prems by simp
  from Cons.IH [OF this] show ?case using Cons.prems by simp
qed simp

text \<open>C3: The e-mail worker never strands a message. Let the rows be well-formed, the workers' lease tokens free of the separator, and a
  message that waits to be sent and is not marked for recovery be in the queue's care when the worker starts. Then after every run, in
  whatever order the loop takes up work, maintenance and the stop, and whatever calls to the database, the queue or the provider fail before
  or after their effect, the same holds: if the message still waits to be sent and is not marked for recovery, then it is pending, leased or
  scheduled, so that a worker takes it up, or it is in the dead-letter list, which no worker polls and an operator empties. The run is
  bounded: the items of the dead-letter list at the start and the turns are fewer than 10000 together, so that the list stays below the limit
  where it drops items.\<close>

theorem email_worker_strands_nothing:
  assumes "db_ok (sdb s)" "\<not> stranded names i (sdb s) (squeue s)" "length (dead (squeue s)) + length turns < 10000"
    and "turn_ok names env" "\<forall>t \<in> set turns. turn_ok names (fst t)"
    and "s' = ewService (EmailWorker_Start env turns (NewEmailWorker now s))"
  shows "db_ok (sdb s') \<and>
    (\<forall>e. email_at (sdb s') i = Some e \<longrightarrow> eStatus e = EmailStatusQueued \<longrightarrow> \<not> eQueueRecoveryPending e \<longrightarrow>
      (\<exists>j. names j = Some i \<and> (j \<in> polled (squeue s') \<or> j \<in> set (dead (squeue s')))))"
proof -
  have "safe names i (length (dead (squeue s))) (ewService (recover_work env (NewEmailWorker now s)))"
    using assms(1,2) by (intro safe_recover_work [OF assms(4)]) (simp add: safe_def NewEmailWorker_def)
  from safe_run [OF this assms(3,5)] have "\<not> stranded names i (sdb s') (squeue s')" "db_ok (sdb s')"
    by (simp_all add: assms(6) EmailWorker_Start_def safe_def)
  then show ?thesis by (auto simp: stranded_def jobs_polled)
qed

text \<open>The dead-letter list cannot be left out above. A replay gives its row the replay token as attempt identity, and the statement that
  fails a dead-lettered row asks for a row without one: if the replayed message is dead-lettered again before it was claimed, then its row
  stays queued, and the next replay, which asks for a failed row, is refused.\<close>

lemma replayed_dead_letter_stuck:
  assumes "keyed eID (emails s)" "PrepareDeadLetterReplay team i token s = (s1, Inr True)"
  shows "MarkDeadLetterFailed i s1 = (s1, Inl ErrBadArgument) \<and> PrepareDeadLetterReplay team i token' s1 = (s1, Inr False)"
proof -
  let ?p = "PrepareDeadLetterReplay_where team i" and ?f = "PrepareDeadLetterReplay_set token"
  have s1: "emails s1 = sql_update ?p ?f (emails s)" and one: "rows_affected ?p (emails s) = 1"
    using assms(2) by (auto simp: PrepareDeadLetterReplay_def exec_one_def exec_emails_def)
  have "\<exists>e. email_at s i = Some e \<and> ?p e"
    using rows_affected_keyed(1) [OF assms(1), of ?p i] one by (auto simp: email_at_def PrepareDeadLetterReplay_where_def)
  then have "\<exists>e. email_at s1 i = Some (?f e)"
    using email_at_sql_update [OF s1, of i] by (auto simp: PrepareDeadLetterReplay_set_def)
  then obtain e where e: "email_at s1 i = Some (?f e)" by blast
  have key: "keyed eID (emails s1)"
    using keyed_exec_op [OF assms(1), of "OpPrepareReplay team i token"] assms(2) by simp
  have no: "rows_affected P (emails s1) = 0" if "\<And>e. P e \<Longrightarrow> eID e = i" "\<not> P (?f e)" for P
    using rows_affected_keyed(1) [OF key, of P i] rows_affected_keyed(2) [OF key, of P i] e that by (auto simp: email_at_def)
  have m: "rows_affected (MarkDeadLetterFailed_where i) (emails s1) = 0"
    by (rule no) (auto simp: MarkDeadLetterFailed_where_def PrepareDeadLetterReplay_set_def)
  have p: "rows_affected ?p (emails s1) = 0"
    by (rule no) (auto simp: PrepareDeadLetterReplay_where_def PrepareDeadLetterReplay_set_def)
  show ?thesis
    using rows_affected_0_update [OF m] rows_affected_0_update [OF p] m p
    by (simp add: MarkDeadLetterFailed_def PrepareDeadLetterReplay_def exec_one_def exec_emails_def)
qed

section \<open>What a healthy answer says\<close>

definition honest :: "email_worker \<Rightarrow> bool" where
  "honest w \<longleftrightarrow> (hsReady (ewHealth w) \<longrightarrow> ewRecoveryReady w \<and> \<not> ewStopped w)"

lemma loop_flags:
  "promote env w = (w2, p) \<Longrightarrow> ewRecoveryReady w2 = ewRecoveryReady w \<and> ewStopped w2 = ewStopped w"
  "take_next env w = (w2, p) \<Longrightarrow> ewRecoveryReady w2 = ewRecoveryReady w \<and> ewStopped w2 = ewStopped w"
  by (auto simp: take_next_def promote_def split: prod.splits if_splits)

lemma honest_turn: "honest w \<Longrightarrow> honest (worker_turn t w)"
proof (cases "ewStopped w")
  case False
  let ?w1 = "w\<lparr>ewHealth := Heartbeat (tnClock (fst t)) (ewHealth w)\<rparr>"
  obtain w2 p where p: "promote (fst t) ?w1 = (w2, p)" by (cases "promote (fst t) ?w1")
  obtain w3 b where b: "take_next (fst t) w2 = (w3, b)" by (cases "take_next (fst t) w2")
  have "honest (work (fst t) w)"
    using False p b loop_flags(1) [OF p] loop_flags(2) [OF b] by (simp add: work_def Let_def honest_def SetReady_def)
  moreover have "honest (recover_work (fst t) w)" using False by (simp add: recover_work_def honest_def SetReady_def Let_def split: prod.splits)
  ultimately show ?thesis using False by (cases "snd t") (simp_all add: worker_turn_def honest_def SetReady_def)
qed (simp add: worker_turn_def)

text \<open>When the worker process answers that it is healthy, its e-mail worker runs, its latest sweeps over the database and the
  queue succeeded, and its latest turn is at most two minutes old.\<close>

theorem healthy_email_worker_runs:
  assumes "ServeHTTP now (Some (ewHealth (EmailWorker_Start env turns (NewEmailWorker t0 s))) # others) checks = (200, x)"
  shows "case EmailWorker_Start env turns (NewEmailWorker t0 s) of w \<Rightarrow>
    \<not> ewStopped w \<and> ewRecoveryReady w \<and> now - hsLastHeartbeat (ewHealth w) \<le> 2 * minute"
proof -
  have "honest (recover_work env (NewEmailWorker t0 s))"
    by (simp add: recover_work_def honest_def SetReady_def NewEmailWorker_def Let_def split: prod.splits)
  then have "honest (fold worker_turn turns (recover_work env (NewEmailWorker t0 s)))"
    by (induction turns arbitrary: env rule: rev_induct) (simp_all add: honest_turn)
  then show ?thesis using assms by (auto simp: ServeHTTP_def Healthy_def honest_def EmailWorker_Start_def split: if_splits)
qed

section \<open>Examples\<close>

definition demo_turn :: turn_env where
  "demo_turn = \<lparr>tnOps = demo_ops\<lparr>opParse := (\<lambda>_. Some 1)\<rparr>, tnWorker = demo_worker, tnRecoverFault = FailApplied, tnPromoteFault = NoFault, tnRedisNow = 0,
     tnClock = 10, tnPollInterval = second\<rparr>"

text \<open>A message that is in the queue and in the database, and the same message without its queue entry.\<close>

lemma demo_strands:
  "stranded (\<lambda>_. Some 1) 1 (sdb (demo_rows [blank_email 1 9] [])) empty_redis"
  "\<not> stranded (\<lambda>_. Some 1) 1 (sdb (demo_rows [blank_email 1 9] [])) (Enqueue ''e1'' empty_redis)"
  by (auto simp: stranded_def demo_rows_def email_at_def blank_email_def jobs_def empty_redis_def Enqueue_def)

text \<open>The database cannot be read while the message is taken up: it is scheduled again.\<close>

definition demo_outage :: turn_env where
  "demo_outage = demo_turn\<lparr>tnWorker := demo_worker\<lparr>wkProc := demo_env\<lparr>penvFault := (\<lambda>st. if st = SGet then FailLost else NoFault)\<rparr>\<rparr>\<rparr>"

definition demo_worked :: service where
  "demo_worked = ewService (EmailWorker_Start demo_turn [(demo_outage, TurnWork), (demo_turn, TurnMaintenance), (demo_turn, TurnStop)]
     (NewEmailWorker 0 ((demo_rows [blank_email 1 9] [])\<lparr>squeue := Enqueue ''e1'' empty_redis\<rparr>)))"

definition waiting_view :: "service \<Rightarrow> (uuid \<times> EmailStatus \<times> bool) list \<times> string list" where
  "waiting_view s = (map (\<lambda>e. (eID e, eStatus e, eQueueRecoveryPending e)) (emails (sdb s)), map fst (scheduled (squeue s)))"

lemma demo_worked_waits: "waiting_view demo_worked = ([(1, EmailStatusQueued, False)], [''e1''])"
  by code_simp

theorem email_worker_strands_nothing_witness:
  "\<exists>j. j \<in> polled (squeue demo_worked) \<or> j \<in> set (dead (squeue demo_worked))"
proof -
  let ?s = "(demo_rows [blank_email 1 9] [])\<lparr>squeue := Enqueue ''e1'' empty_redis\<rparr>"
  let ?turns = "[(demo_outage, TurnWork), (demo_turn, TurnMaintenance), (demo_turn, TurnStop)]"
  have ok: "turn_ok (\<lambda>_. Some 1) demo_turn" "turn_ok (\<lambda>_. Some 1) demo_outage"
    by (simp_all add: turn_ok_def demo_outage_def demo_turn_def demo_worker_def demo_env_def no_sep_def)
  have "db_ok (sdb ?s)" by (simp add: db_ok_def demo_rows_def attempt_ok_def blank_email_def)
  moreover have "\<not> stranded (\<lambda>_. Some 1) 1 (sdb ?s) (squeue ?s)" using demo_strands(2) by simp
  moreover have "length (dead (squeue ?s)) + length ?turns < 10000" by (simp add: Enqueue_def empty_redis_def)
  moreover have "\<forall>t \<in> set ?turns. turn_ok (\<lambda>_. Some 1) (fst t)" using ok by simp
  moreover have "\<exists>e. email_at (sdb demo_worked) 1 = Some e \<and> eStatus e = EmailStatusQueued \<and> \<not> eQueueRecoveryPending e"
    using demo_worked_waits by (auto simp: waiting_view_def email_at_def)
  ultimately show ?thesis
    using email_worker_strands_nothing [OF _ _ _ ok(1) _ demo_worked_def] by blast
qed

end
