(* ===== verification/Spec2Isabelle.thy ===== *)
theory Spec2Isabelle
  imports EmailWorker EmailOperations LegacyProcessing ProviderEvents Retention Lifecycle RateLimiter Mailer Inbound
    Config WebhookAdmin EmailEndpoints ProviderEndpoints Dashboard Metrics WorkerLoops
begin

text \<open>
  \<^bold>\<open>The program.\<close> sender-api is an e-mail sending service in Go. An HTTP API stores a message in PostgreSQL
  and puts its id on a Redis queue; workers take ids from the queue, claim the message under a fenced
  lease, hand it to Amazon SES and settle the outcome; SES reports what happened through callbacks; every
  change a customer subscribed to leaves through an outbox and is posted to webhooks; inbound mail arrives
  through SNS, SQS and S3; a retention job removes what is past its age. Around this are teams with members and
  API keys, sending domains, contacts, billing, a dashboard, rate limits and metrics. The hard part is that any of the calls
  can fail or time out after it took effect, and that a message must still not be sent twice or lost.

  \<^bold>\<open>State and calls.\<close> PostgreSQL is the record \<open>db\<close> (theory Database): one list of rows per table, in insertion order, with the
  uniqueness the schema demands written out in the inserts; theories Teams, Access and Domains extend it by the tables of accounts, keys
  and domains (\<open>account\<close>, \<open>access\<close>, \<open>registry\<close>). Redis is the record \<open>redis\<close> (theory RedisQueue) with its five keys, and every Lua script is one
  function on it. A statement or transaction is a function to a new state and a \<open>result\<close>. Services call them through \<open>run_call\<close>, \<open>redis_call\<close> and
  their relatives with a \<open>fault\<close>: no fault, an error before the effect, or an error after it. Clocks, fresh identifiers, random bytes and
  the answers of the world are fields of an environment record; every theorem that does not fix them holds for all of them.

  \<^bold>\<open>Theories and sources\<close> (paths under \<open>src/\<close>; operations keep their Go names, prefixed by the type where two types share one).
  \<^item> Prelude: durations, strings of the standard library (\<open>TrimSpace\<close>, \<open>ToLower\<close>, \<open>Atoi\<close>), tables, faults and their lemmas, the collection \<open>row_defs\<close>.
  \<^item> Email, Database: \<open>internal/domain\<close>: records, statuses and \<open>ShouldApplyProviderStatus\<close>.
  \<^item> EmailRepo, DeliveryPipeline, Suppressions: \<open>internal/repository/email_repo.go\<close>, \<open>delivery_pipeline_repo.go\<close>, \<open>suppression_repo.go\<close>,
    a \<open>_where\<close> and a \<open>_set\<close> per UPDATE.
  \<^item> SendAttempts, Lifecycle: the row machine \<open>row_step\<close> that all these statements refine, its invariant, and the abstract lifecycle
    of a message with its actors.
  \<^item> RedisQueue, UsageLimiter, RateLimiter: \<open>internal/queue\<close>, \<open>pkg/middleware/ratelimit.go\<close>.
  \<^item> Validator: \<open>pkg/validator\<close>. EmailService, EmailOperations: \<open>internal/service/email_service.go\<close>: sending, batches, recovery,
    dead letters, reconciliation. EmailProcessing and LegacyProcessing: the two ways a queue item is processed. ProviderEvents: callbacks of SES.
  \<^item> EmailWorker, WorkerLoops: \<open>internal/worker\<close>: one iteration, and the loops with their health state. Metrics: \<open>pkg/metrics\<close>, \<open>health.go\<close>.
  \<^item> Mailer: \<open>internal/mailer\<close>. Webhooks and WebhookAdmin: \<open>pkg/webhook\<close>, the delivery worker, repositories and endpoints of webhooks.
  \<^item> Teams, Billing, Access: teams, invitations, Stripe, keys, authentication and their endpoints. Contacts, Unsubscribe, Domains: the
    address book, unsubscribe tokens and sending domains with their endpoints. Sns, Inbound: verification of notifications, inbound mail.
  \<^item> Endpoints, EmailEndpoints, ProviderEndpoints, Dashboard: the remaining handlers of \<open>internal/handler\<close>. Retention: \<open>retention_service.go\<close>.
    Config: \<open>internal/config\<close> and the parts of \<open>cmd\<close> that compute.

  \<^bold>\<open>What is shown.\<close>
  \<^item> Delivery: no message is submitted twice once the provider may have it (EmailProcessing, LegacyProcessing), the worker drops or strands
    none while the dead-letter list is not full (EmailWorker, WorkerLoops, EmailOperations, RedisQueue), settling is one transaction (DeliveryPipeline), all rows keep
    the attempt invariant (SendAttempts) and every sequence of operations is a run of the abstract machine (Lifecycle).
  \<^item> Sending: what an accepted, replayed or refused request leaves behind (EmailService, EmailEndpoints), quota and rate limit
    (UsageLimiter, RateLimiter), only proven domains send (Domains), unsubscribed and reported addresses get nothing (Unsubscribe, ProviderEvents).
  \<^item> Outside world: callbacks and inbound mail change something only when signed, and are not lost (Sns, ProviderEndpoints, Inbound); webhook
    requests are signed, bounded and never go to a reserved address (Webhooks, WebhookAdmin); the MIME parser keeps its limits (Inbound).
  \<^item> Tenancy: requests reach the rows of a team only for its members with the role or permission (Access, EmailEndpoints, WebhookAdmin,
    ProviderEndpoints); teams have one owner, domains one team (Teams, Domains); the newest billing event wins (Billing).
  \<^item> Operation: retention ends and leaves nothing expired but mail under way (Retention), a validated production configuration is encrypted (Config), the
    dashboard's status is exact (Dashboard), concurrent metrics lose nothing (Metrics).
  \<^item> Defects found are lemmas too: \<open>lost_ack_never_queued\<close>, \<open>queue_failure_poisons_key\<close>, \<open>api_key_never_stored\<close>, \<open>checkout_stores_session_id\<close>,
    \<open>webhook_retry_delay\<close>, \<open>refusals_retried\<close>, \<open>retention_age_wraps\<close>, \<open>pool_size_wraps\<close>, \<open>replayed_dead_letter_stuck\<close>, \<open>slash_origin_never_matches\<close>.

  \<^bold>\<open>Interfaces.\<close> \<open>fenced_statement\<close> (EmailRepo) states what a statement guarded by a claim promises and is interpreted on the five that are;
  \<open>row_property\<close> (SendAttempts) lifts a property of one row over all traces; \<open>work_queue\<close> (RedisQueue), \<open>quota\<close> (UsageLimiter), \<open>suppression_list\<close>
  (Suppressions) and \<open>lease_table\<close> (Webhooks, on deliveries, inbox and outbox) are the contracts of the stores; \<open>collation\<close> (Billing) is what is assumed of the
  order of event ids; \<open>kept_requests\<close> and its extension \<open>team_requests\<close> (Endpoints) lift invariants and isolation from one request to sequences
  and are interpreted on the message and webhook endpoints.

  \<^bold>\<open>Bounds.\<close> The loops of the source have fixed bounds, which are arguments here: three tries to settle an outcome, three posts of a webhook,
  five deliveries before the dead-letter list, 10000 dead letters, batches of 500 rows in retention, 5000 rows in recovery, MIME depth 8 with 100 parts. The
  retention loop ends by a measure on the rows that are left, the compare-and-swap loop of the metrics by a well-founded order; no function is partial.

  \<^bold>\<open>Parameters.\<close> Code that is not in the repository is an argument with named hypotheses where a theorem needs one: SES, S3, SQS, Stripe, DNS and HTTP clients,
  JSON and URL parsing, MIME decoding, AES-GCM, HMAC, X.509 and RSA verification, JWT, UUID parsing and printing.

  \<^bold>\<open>Simplifications.\<close> Strings are bytes, and blanks and letter case are those of ASCII. The rate limiter reads one clock for the process and for Redis;
  a send reads four (the request, the day it reserves for, the limiter and the release), where the source reads a few more. The
  five queries of the dashboard see one state. \<open>net/http\<close> is modelled as far as the webhook client uses it: a dial per request and the redirect policy.

  \<^bold>\<open>Not modelled.\<close> Logging, contexts and time-outs other than as faults, connection pools, the wiring and shut-down in \<open>cmd\<close>, goroutines other than
  as arbitrary orders of turns or interleavings of atomic instructions, the HTTP transport with its body limits, HTML of the unsubscribe page, SQL migrations. These
  either do not compute or are glue around libraries.
\<close>

end
